(* ===== verification/Prelude.thy ===== *)
theory Prelude
  imports Complex_Main "HOL-Library.Word" "HOL-Library.AList"
begin

text \<open>
  Shared vocabulary of the development: the machine types the Rust code uses, the
  saturating operations of its standard library, UTF-8 validation, and the generic
  lemmas and collections (\<open>jalki_simps\<close>, \<open>jalki_inv\<close>) the component theories build on.
\<close>

unbundle bit_operations_syntax

section \<open>Machine types\<close>

type_synonym u8 = "8 word"
type_synonym u16 = "16 word"
type_synonym u32 = "32 word"
type_synonym u64 = "64 word"

text \<open>
  A Rust \<open>String\<close> or \<open>&str\<close> is its UTF-8 bytes, one \<open>char\<close> per byte, so that
  \<open>len()\<close> and \<open>as_bytes()\<close> are \<open>length\<close> and the identity.  A \<open>usize\<close> is a
  natural number; where the code saturates, the bound is written out.
\<close>

definition usize_max :: nat where
  "usize_max = 2 ^ 64 - 1"

definition u64_max :: nat where
  "u64_max = 2 ^ 64 - 1"

definition sat_add :: "nat \<Rightarrow> nat \<Rightarrow> nat" where
  "sat_add a b = min (a + b) usize_max"

named_theorems jalki_simps
named_theorems jalki_inv

lemma sat_add_bound [simp]: "sat_add a b \<le> usize_max"
  by (simp add: sat_add_def)

lemma sat_add_exact: "a + b \<le> usize_max \<Longrightarrow> sat_add a b = a + b"
  by (simp add: sat_add_def)

lemma sat_add_le: "sat_add a b \<le> a + b"
  by (simp add: sat_add_def)

lemma sat_add_zero [simp]: "a \<le> usize_max \<Longrightarrow> sat_add a 0 = a"
  by (simp add: sat_add_def)

lemma sat_add_commute: "sat_add a b = sat_add b a"
  by (simp add: sat_add_def add.commute)

lemma sat_add_assoc: "sat_add (sat_add a b) c = sat_add a (sat_add b c)"
  by (simp add: sat_add_def)

section \<open>Characters and strings\<close>

definition is_ascii_hexdigit :: "char \<Rightarrow> bool" where
  "is_ascii_hexdigit c =
     (let n = of_char c :: nat in
      (48 \<le> n \<and> n \<le> 57) \<or> (65 \<le> n \<and> n \<le> 70) \<or> (97 \<le> n \<and> n \<le> 102))"

definition to_ascii_lower :: "char \<Rightarrow> char" where
  "to_ascii_lower c =
     (let n = of_char c :: nat in if 65 \<le> n \<and> n \<le> 90 then char_of (n + 32) else c)"

definition to_ascii_lowercase :: "string \<Rightarrow> string" where
  "to_ascii_lowercase = map to_ascii_lower"

lemma length_to_ascii_lowercase [simp]: "length (to_ascii_lowercase s) = length s"
  by (simp add: to_ascii_lowercase_def)

lemma to_ascii_lower_idem [simp]: "to_ascii_lower (to_ascii_lower c) = to_ascii_lower c"
  by (simp add: to_ascii_lower_def Let_def)

lemma to_ascii_lowercase_idem [simp]:
  "to_ascii_lowercase (to_ascii_lowercase s) = to_ascii_lowercase s"
  by (simp add: to_ascii_lowercase_def)

section \<open>Prefixes and suffixes of strings\<close>

definition starts_with :: "'a list \<Rightarrow> 'a list \<Rightarrow> bool" where
  "starts_with s p \<longleftrightarrow> take (length p) s = p"

definition ends_with :: "'a list \<Rightarrow> 'a list \<Rightarrow> bool" where
  "ends_with s p \<longleftrightarrow> length p \<le> length s \<and> drop (length s - length p) s = p"

definition strip_prefix :: "'a list \<Rightarrow> 'a list \<Rightarrow> 'a list option" where
  "strip_prefix p s = (if starts_with s p then Some (drop (length p) s) else None)"

definition strip_suffix :: "'a list \<Rightarrow> 'a list \<Rightarrow> 'a list option" where
  "strip_suffix p s =
     (if ends_with s p then Some (take (length s - length p) s) else None)"

lemma starts_with_iff_append: "starts_with s p \<longleftrightarrow> (\<exists>r. s = p @ r)"
  unfolding starts_with_def by (metis append_eq_conv_conj append_take_drop_id)

lemma starts_with_append [simp]: "starts_with (p @ r) p"
  by (simp add: starts_with_def)

lemma starts_with_Nil [simp]: "starts_with s []"
  by (simp add: starts_with_def)

lemma starts_with_Cons: "starts_with (x # s) (y # p) \<longleftrightarrow> x = y \<and> starts_with s p"
  by (auto simp: starts_with_def)

lemma not_starts_with_Nil [simp]: "starts_with [] p \<longleftrightarrow> p = []"
  by (auto simp: starts_with_def)

lemma starts_with_trans: "starts_with s p \<Longrightarrow> starts_with p q \<Longrightarrow> starts_with s q"
  unfolding starts_with_iff_append by auto

lemma starts_with_take [intro]: "starts_with s p \<Longrightarrow> starts_with s (take n p)"
  unfolding starts_with_iff_append by (metis append.assoc append_take_drop_id)

section \<open>White space\<close>

text \<open>
  The UTF-8 encodings of the code points with the Unicode property White\_Space, which
  \<open>str::trim\<close> and \<open>str::split_whitespace\<close> recognise.
\<close>

definition bytes :: "nat list \<Rightarrow> string" where
  "bytes = map char_of"

definition white_space :: "string list" where
  "white_space =
     map (\<lambda>n. bytes [n]) [9, 10, 11, 12, 13, 32] @
     [bytes [0xC2, 0x85], bytes [0xC2, 0xA0], bytes [0xE1, 0x9A, 0x80]] @
     map (\<lambda>n. bytes [0xE2, 0x80, n]) [0x80 ..< 0x8B] @
     [bytes [0xE2, 0x80, 0xA8], bytes [0xE2, 0x80, 0xA9], bytes [0xE2, 0x80, 0xAF],
      bytes [0xE2, 0x81, 0x9F], bytes [0xE3, 0x80, 0x80]]"

function trim_front :: "string list \<Rightarrow> string \<Rightarrow> string" where
  "trim_front ws [] = []"
| "trim_front ws (c # cs) =
     (case find (\<lambda>w. w \<noteq> [] \<and> starts_with (c # cs) w) ws of
        None \<Rightarrow> c # cs
      | Some w \<Rightarrow> trim_front ws (drop (length w - 1) cs))"
  by pat_completeness auto
termination
  by (relation "measure (\<lambda>(ws, s). length s)") auto

definition trim_start :: "string \<Rightarrow> string" where
  "trim_start = trim_front white_space"

definition trim_end :: "string \<Rightarrow> string" where
  "trim_end s = rev (trim_front (map rev white_space) (rev s))"

definition trim :: "string \<Rightarrow> string" where
  "trim s = trim_end (trim_start s)"

section \<open>Blank strings\<close>

lemma trim_front_keeps:
  "\<forall>w \<in> set ws. c \<notin> set w \<Longrightarrow> \<exists>p. trim_front ws (s @ [c]) = p @ [c]"
proof (induction ws "s @ [c]" arbitrary: s rule: trim_front.induct)
  case (1 ws)
  then show ?case by simp
next
  case (2 ws d cs)
  show ?case
  proof (cases "find (\<lambda>w. w \<noteq> [] \<and> starts_with (d # cs) w) ws")
    case None
    then have "trim_front ws (d # cs) = d # cs" by simp
    with 2(2) show ?thesis by metis
  next
    case (Some w)
    then have w: "w \<in> set ws" "w \<noteq> []" "starts_with (d # cs) w"
      by (auto simp: find_Some_iff)
    from w(3) obtain t where t: "s @ [c] = w @ t" using 2(2) by (auto simp: starts_with_iff_append)
    have "t \<noteq> []"
    proof
      assume "t = []"
      with t have "c \<in> set w" by (metis append_Nil2 in_set_conv_decomp)
      with 2(3) w(1) show False by blast
    qed
    then obtain u where u: "t = u @ [c]" using t by (metis append_butlast_last_id last_appendR last_snoc)
    have d: "drop (length w - 1) cs = u @ [c]"
    proof -
      have "drop (length w) (d # cs) = t" using t 2(2) by simp
      with w(2) show ?thesis using u by (cases w) auto
    qed
    have "trim_front ws (s @ [c]) = trim_front ws (d # cs)" using 2(2) by simp
    also have "\<dots> = trim_front ws (drop (length w - 1) cs)" using Some by simp
    finally have "trim_front ws (s @ [c]) = trim_front ws (u @ [c])" using d by simp
    moreover have "\<exists>p. trim_front ws (u @ [c]) = p @ [c]"
      using 2(1) [OF Some d 2(3)] .
    ultimately show ?thesis by simp
  qed
qed

lemma trim_front_id:
  "\<forall>w \<in> set ws. c \<notin> set w \<Longrightarrow> trim_front ws (c # s) = c # s"
proof -
  assume "\<forall>w \<in> set ws. c \<notin> set w"
  then have "find (\<lambda>w. w \<noteq> [] \<and> starts_with (c # s) w) ws = None"
    by (auto simp: find_None_iff starts_with_iff_append) (metis list.set_intros(1) hd_append2 list.sel(1) list.set_sel(1))
  then show ?thesis by simp
qed

definition visible :: "char \<Rightarrow> bool" where
  "visible c = (c \<notin> set (concat white_space))"

lemma trim_visible: "visible c \<Longrightarrow> trim (c # s) \<noteq> []"
proof -
  assume v: "visible c"
  then have ws: "\<forall>w \<in> set white_space. c \<notin> set w" and "\<forall>w \<in> set (map rev white_space). c \<notin> set w"
    by (auto simp: visible_def)
  from trim_front_keeps [OF this(2), of "rev s"] obtain p where
    "trim_front (map rev white_space) (rev (c # s)) = p @ [c]" by auto
  moreover have "trim_start (c # s) = c # s"
    unfolding trim_start_def by (rule trim_front_id [OF ws])
  ultimately show ?thesis by (simp add: trim_def trim_end_def)
qed

lemma trim_id:
  assumes "visible c" and "visible (last (c # s))"
  shows "trim (c # s) = c # s"
proof -
  have ws: "\<forall>w \<in> set white_space. c \<notin> set w"
    and wr: "\<forall>w \<in> set (map rev white_space). last (c # s) \<notin> set w"
    using assms by (auto simp: visible_def)
  have "trim_start (c # s) = c # s"
    unfolding trim_start_def by (rule trim_front_id [OF ws])
  moreover have "rev (c # s) = last (c # s) # rev (butlast (c # s))"
    by (metis append_butlast_last_id list.discI rev.simps(2) rev_append rev_rev_ident
        append_Cons append_Nil rev_singleton_conv)
  then have "trim_end (c # s) = c # s"
    unfolding trim_end_def by (metis trim_front_id [OF wr] rev_rev_ident)
  ultimately show ?thesis by (simp add: trim_def)
qed

lemma white_space_codes:
  "list_all (\<lambda>c. of_char c < (33 :: nat) \<or> (127 :: nat) \<le> of_char c) (concat white_space)"
  by code_simp

lemma visible_ascii: "33 \<le> (of_char c :: nat) \<Longrightarrow> (of_char c :: nat) < 127 \<Longrightarrow> visible c"
  using white_space_codes unfolding visible_def list_all_iff
  by (meson bspec not_le)

section \<open>Splitting\<close>

text \<open>\<open>value.split_once(s)\<close>.\<close>

fun split_once :: "string \<Rightarrow> string \<Rightarrow> (string \<times> string) option" where
  "split_once s [] = (if s = [] then Some ([], []) else None)"
| "split_once s (c # cs) =
     (if starts_with (c # cs) s then Some ([], drop (length s) (c # cs))
      else (case split_once s cs of None \<Rightarrow> None | Some (a, b) \<Rightarrow> Some (c # a, b)))"

text \<open>\<open>str::split(d)\<close> for a one-byte separator: always at least one piece.\<close>

fun split_on :: "char \<Rightarrow> string \<Rightarrow> string list" where
  "split_on d [] = [[]]"
| "split_on d (c # cs) =
     (if c = d then [] # split_on d cs
      else (case split_on d cs of [] \<Rightarrow> [[c]] | w # ws \<Rightarrow> (c # w) # ws))"

lemma split_on_not_Nil [simp]: "split_on d s \<noteq> []"
  by (cases s) (auto split: list.splits)

section \<open>Association lists with unique keys\<close>

text \<open>\<open>find_map p f xs\<close>: update the first element satisfying \<open>p\<close>, if there is one.\<close>

fun update_first :: "('a \<Rightarrow> bool) \<Rightarrow> ('a \<Rightarrow> 'a) \<Rightarrow> 'a list \<Rightarrow> 'a list option" where
  "update_first p f [] = None"
| "update_first p f (x # xs) =
     (if p x then Some (f x # xs) else map_option ((#) x) (update_first p f xs))"

lemma update_first_None: "update_first p f xs = None \<longleftrightarrow> (\<forall>x \<in> set xs. \<not> p x)"
  by (induction xs) auto

lemma update_first_Some:
  "update_first p f xs = Some ys \<Longrightarrow>
   \<exists>as x bs. xs = as @ x # bs \<and> ys = as @ f x # bs \<and> p x \<and> (\<forall>a \<in> set as. \<not> p a)"
proof (induction xs arbitrary: ys)
  case Nil
  then show ?case by simp
next
  case (Cons x xs)
  show ?case
  proof (cases "p x")
    case True
    with Cons.prems show ?thesis by (intro exI [of _ "[]"]) auto
  next
    case False
    with Cons.prems obtain zs where z: "update_first p f xs = Some zs" "ys = x # zs"
      by auto
    from Cons.IH [OF z(1)] obtain as y bs where
      "xs = as @ y # bs" "zs = as @ f y # bs" "p y" "\<forall>a \<in> set as. \<not> p a" by blast
    with False z(2) show ?thesis by (intro exI [of _ "x # as"]) auto
  qed
qed

section \<open>Sums over lists\<close>

lemma sum_list_filter_le:
  fixes f :: "'a \<Rightarrow> nat"
  shows "sum_list (map f (filter p xs)) \<le> sum_list (map f xs)"
  by (induction xs) auto

lemma sum_list_filter_split:
  fixes f :: "'a \<Rightarrow> nat"
  shows "sum_list (map f xs) =
         sum_list (map f (filter p xs)) + sum_list (map f (filter (\<lambda>x. \<not> p x) xs))"
  by (induction xs) auto

text \<open>\<open>s.contains(pat)\<close>.\<close>

fun contains :: "string \<Rightarrow> string \<Rightarrow> bool" where
  "contains [] pat = (pat = [])"
| "contains (c # cs) pat = (starts_with (c # cs) pat \<or> contains cs pat)"

end
