(* ===== verification/Sensitive_Paths.thy ===== *)
theory Sensitive_Paths
  imports Prelude
begin

text \<open>
  The sensitive-path gate: \<open>jalki/src/sensitive_paths.rs\<close> (the userspace pattern
  matcher and the coarse prefixes it loads into the kernel map) and the in-kernel prefix
  check of \<open>jalki-ebpf/src/file_open.rs\<close>.  The lemmas show that the iterative
  star-backtracking matcher always terminates, is sound for the declarative wildcard
  semantics and complete for paths that hold no literal star, and that the kernel gate
  lets every path through that a configured pattern accepts.
\<close>

section \<open>The iterative wildcard matcher\<close>

text \<open>
  \<open>glob_loop\<close> is the first \<open>while\<close> loop of \<open>glob_match\<close> with its four local
  variables, followed by the loop that consumes trailing stars.
\<close>

definition glob_tail :: "string \<Rightarrow> nat \<Rightarrow> bool" where
  "glob_tail pattern p = (dropWhile (\<lambda>c. c = CHR ''*'') (drop p pattern) = [])"

definition glob_wf :: "nat \<Rightarrow> nat \<Rightarrow> nat option \<Rightarrow> nat \<Rightarrow> bool" where
  "glob_wf p v star star_v = (case star of None \<Rightarrow> True | Some sp \<Rightarrow> sp < p \<and> star_v \<le> v)"

function glob_loop ::
  "string \<Rightarrow> string \<Rightarrow> nat \<Rightarrow> nat \<Rightarrow> nat option \<Rightarrow> nat \<Rightarrow> bool" where
  "glob_loop pattern val p v star star_v =
     (if v < length val then
        if p < length pattern \<and> (pattern ! p = CHR ''?'' \<or> pattern ! p = val ! v)
        then glob_loop pattern val (p + 1) (v + 1) star star_v
        else if p < length pattern \<and> pattern ! p = CHR ''*''
        then glob_loop pattern val (p + 1) v (Some p) v
        else (case star of
                Some sp \<Rightarrow> glob_loop pattern val (sp + 1) (star_v + 1) star (star_v + 1)
              | None \<Rightarrow> False)
      else glob_tail pattern p)"
  by pat_completeness auto
termination
  by (relation "measures
       [\<lambda>(pattern, val, p, v, star, star_v). if glob_wf p v star star_v then 0 else (1::nat),
        \<lambda>(pattern, val, p, v, star, star_v).
           length pattern - (case star of None \<Rightarrow> 0 | Some sp \<Rightarrow> sp + 1),
        \<lambda>(pattern, val, p, v, star, star_v).
           length val - (case star of None \<Rightarrow> 0 | Some sp \<Rightarrow> star_v),
        \<lambda>(pattern, val, p, v, star, star_v). length val - v]")
     (auto simp: glob_wf_def split: option.splits)

declare glob_loop.simps [simp del]

definition glob_match :: "string \<Rightarrow> string \<Rightarrow> bool" where
  "glob_match pattern val = glob_loop pattern val 0 0 None 0"

section \<open>The wildcard semantics the comment states\<close>

text \<open>
  \<open>*\<close> matches any run of bytes, \<open>?\<close> one byte, every other byte is literal.
\<close>

fun glob_spec :: "string \<Rightarrow> string \<Rightarrow> bool" where
  "glob_spec [] v = (v = [])"
| "glob_spec (c # p) v =
     (if c = CHR ''*''
      then glob_spec p v \<or> (case v of [] \<Rightarrow> False | x # v' \<Rightarrow> glob_spec (c # p) v')
      else (case v of [] \<Rightarrow> False
            | x # v' \<Rightarrow> (c = CHR ''?'' \<or> c = x) \<and> glob_spec p v'))"

declare glob_spec.simps(2) [simp del]

lemma glob_spec_star:
  "glob_spec (CHR ''*'' # p) v \<longleftrightarrow> (\<exists>k \<le> length v. glob_spec p (drop k v))"
proof (induction v)
  case Nil
  then show ?case by (subst glob_spec.simps) simp
next
  case (Cons x v)
  have "glob_spec (CHR ''*'' # p) (x # v) \<longleftrightarrow>
        glob_spec p (x # v) \<or> glob_spec (CHR ''*'' # p) v"
    by (subst glob_spec.simps) simp
  also have "\<dots> \<longleftrightarrow> glob_spec p (drop 0 (x # v)) \<or>
        (\<exists>k \<le> length v. glob_spec p (drop (Suc k) (x # v)))"
    using Cons.IH by simp
  also have "\<dots> \<longleftrightarrow> (\<exists>k \<le> length (x # v). glob_spec p (drop k (x # v)))"
    by (metis (no_types, lifting) Suc_le_mono le0 length_Cons not0_implies_Suc)
  finally show ?case .
qed

lemma glob_spec_char:
  "c \<noteq> CHR ''*'' \<Longrightarrow> glob_spec (c # p) v \<longleftrightarrow>
     (\<exists>x v'. v = x # v' \<and> (c = CHR ''?'' \<or> c = x) \<and> glob_spec p v')"
  by (subst glob_spec.simps) (auto split: list.splits)

lemma glob_spec_only_stars:
  "glob_spec p [] \<longleftrightarrow> (\<forall>c \<in> set p. c = CHR ''*'')"
  by (induction p) (auto simp: glob_spec.simps(2))

lemma glob_tail_iff: "glob_tail pattern p \<longleftrightarrow> glob_spec (drop p pattern) []"
  by (auto simp: glob_tail_def glob_spec_only_stars)

text \<open>A segment with no star consumes exactly its own length.\<close>

lemma glob_spec_segment:
  "CHR ''*'' \<notin> set s \<Longrightarrow> glob_spec (s @ q) w \<Longrightarrow>
   length s \<le> length w \<and> glob_spec q (drop (length s) w)"
proof (induction s arbitrary: w)
  case Nil
  then show ?case by simp
next
  case (Cons c s)
  from Cons.prems have c: "c \<noteq> CHR ''*''" and s: "CHR ''*'' \<notin> set s" by auto
  from Cons.prems(2) c obtain x w' where w: "w = x # w'" and m: "glob_spec (s @ q) w'"
    by (auto simp: glob_spec_char)
  from Cons.IH [OF s m] w show ?case by simp
qed

lemma glob_spec_star_earlier:
  assumes "glob_spec (CHR ''*'' # q) (drop k w)" and "v \<le> k" and "k \<le> length w"
  shows "glob_spec (CHR ''*'' # q) (drop v w)"
proof -
  from assms(1) obtain j where "j \<le> length (drop k w)" "glob_spec q (drop j (drop k w))"
    by (auto simp: glob_spec_star)
  then have "k - v + j \<le> length (drop v w)" "glob_spec q (drop (k - v + j) (drop v w))"
    using assms(2,3) by (auto simp: drop_drop add.commute add.left_commute)
  then show ?thesis by (auto simp: glob_spec_star)
qed

section \<open>Soundness and completeness of the loop\<close>

definition glob_alt :: "string \<Rightarrow> string \<Rightarrow> nat option \<Rightarrow> nat \<Rightarrow> bool" where
  "glob_alt pattern val star star_v =
     (case star of None \<Rightarrow> False
      | Some sp \<Rightarrow> \<exists>k. star_v < k \<and> k \<le> length val \<and>
                      glob_spec (drop (sp + 1) pattern) (drop k val))"

lemma glob_loop_sound:
  "glob_loop pattern val p v star star_v \<Longrightarrow> v \<le> length val \<Longrightarrow>
   (case star of None \<Rightarrow> True | Some sp \<Rightarrow> star_v \<le> v) \<Longrightarrow>
   glob_spec (drop p pattern) (drop v val) \<or> glob_alt pattern val star star_v"
proof (induction pattern val p v star star_v rule: glob_loop.induct)
  case (1 pattern val p v star star_v)
  show ?case
  proof (cases "v < length val")
    case False
    with 1(4,5) show ?thesis
      by (simp add: glob_loop.simps [of pattern val p] glob_tail_iff)
  next
    case v: True
    consider
        (lit) "p < length pattern" and "pattern ! p = CHR ''?'' \<or> pattern ! p = val ! v"
      | (wild) "p < length pattern" and "pattern ! p = CHR ''*''" and "\<not> (pattern ! p = val ! v)"
      | (retry) "\<not> (p < length pattern \<and> (pattern ! p = CHR ''?'' \<or> pattern ! p = val ! v))"
           and "\<not> (p < length pattern \<and> pattern ! p = CHR ''*'')"
      by fastforce
    then show ?thesis
    proof cases
      case lit
      from 1(4) v lit have "glob_loop pattern val (p + 1) (v + 1) star star_v"
        by (simp add: glob_loop.simps [of pattern val p])
      with 1(1) v lit 1(6) have
        "glob_spec (drop (p + 1) pattern) (drop (v + 1) val) \<or> glob_alt pattern val star star_v"
        by (auto split: option.splits)
      moreover have "drop p pattern = pattern ! p # drop (p + 1) pattern"
        and "drop v val = val ! v # drop (v + 1) val"
        using lit(1) v by (simp_all add: Cons_nth_drop_Suc)
      moreover have "glob_spec (drop (p + 1) pattern) (drop (v + 1) val) \<Longrightarrow>
          glob_spec (pattern ! p # drop (p + 1) pattern) (val ! v # drop (v + 1) val)"
      proof (cases "pattern ! p = CHR ''*''")
        case True
        assume g: "glob_spec (drop (p + 1) pattern) (drop (v + 1) val)"
        have "1 \<le> length (val ! v # drop (v + 1) val) \<and>
              glob_spec (drop (p + 1) pattern) (drop 1 (val ! v # drop (v + 1) val))"
          using g by simp
        with True show ?thesis by (metis glob_spec_star)
      next
        case False
        assume "glob_spec (drop (p + 1) pattern) (drop (v + 1) val)"
        with False lit(2) show ?thesis by (simp add: glob_spec_char)
      qed
      ultimately show ?thesis by auto
    next
      case wild
      from 1(4) v wild have "glob_loop pattern val (p + 1) v (Some p) v"
        by (simp add: glob_loop.simps [of pattern val p])
      with 1(2) v wild have
        "glob_spec (drop (p + 1) pattern) (drop v val) \<or> glob_alt pattern val (Some p) v"
        by auto
      then have "\<exists>k. v \<le> k \<and> k \<le> length val \<and> glob_spec (drop (p + 1) pattern) (drop k val)"
        using v by (auto simp: glob_alt_def intro: less_imp_le)
      then obtain k where k: "v \<le> k" "k \<le> length val"
        "glob_spec (drop (p + 1) pattern) (drop (k - v) (drop v val))" by auto
      then have "glob_spec (CHR ''*'' # drop (p + 1) pattern) (drop v val)"
        unfolding glob_spec_star by (intro exI [of _ "k - v"]) auto
      moreover have "drop p pattern = CHR ''*'' # drop (p + 1) pattern"
        using wild by (metis Cons_nth_drop_Suc Suc_eq_plus1)
      ultimately show ?thesis by simp
    next
      case retry
      from 1(4) v retry obtain sp where sp: "star = Some sp"
        and l: "glob_loop pattern val (sp + 1) (star_v + 1) star (star_v + 1)"
        by (auto simp: glob_loop.simps [of pattern val p] split: option.splits if_splits)
      from 1(6) sp v have "star_v + 1 \<le> length val" by simp
      with 1(3) v retry sp l have
        "glob_spec (drop (sp + 1) pattern) (drop (star_v + 1) val) \<or>
         glob_alt pattern val star (star_v + 1)" by auto
      with \<open>star_v + 1 \<le> length val\<close> sp show ?thesis
        by (auto simp: glob_alt_def intro: Suc_lessD)
    qed
  qed
qed

text \<open>
  For completeness the loop must never have taken a star of the pattern for a literal,
  which the first branch does exactly when the path holds a star at that position.  The
  invariant says where the last star was bound and that the bytes since then are a
  star-free segment already matched.
\<close>

definition glob_inv :: "string \<Rightarrow> nat \<Rightarrow> nat \<Rightarrow> nat option \<Rightarrow> nat \<Rightarrow> bool" where
  "glob_inv pattern p v star star_v =
     (p \<le> length pattern \<and>
      (case star of None \<Rightarrow> True
       | Some sp \<Rightarrow> sp < p \<and> pattern ! sp = CHR ''*'' \<and> v + sp + 1 = star_v + p \<and>
           CHR ''*'' \<notin> set (take (p - (sp + 1)) (drop (sp + 1) pattern))))"

lemma take_Suc_drop_nth:
  "a \<le> p \<Longrightarrow> p < length xs \<Longrightarrow>
   take (Suc p - a) (drop a xs) = take (p - a) (drop a xs) @ [xs ! p]"
  by (simp add: Suc_diff_le take_Suc_conv_app_nth)

lemma glob_inv_literal:
  assumes "glob_inv pattern p v star star_v" "p < length pattern" "pattern ! p \<noteq> CHR ''*''"
  shows "glob_inv pattern (p + 1) (v + 1) star star_v"
  using assms take_Suc_drop_nth [of "the star + 1" p pattern]
  by (auto simp: glob_inv_def split: option.splits)

lemma glob_inv_segment:
  assumes inv: "glob_inv pattern p v (Some sp) star_v"
    and m: "glob_spec (drop (sp + 1) pattern) w"
  shows "p - (sp + 1) \<le> length w \<and> glob_spec (drop p pattern) (drop (p - (sp + 1)) w)"
proof -
  let ?s = "take (p - (sp + 1)) (drop (sp + 1) pattern)"
  from inv have lt: "sp < p" and p: "p \<le> length pattern" and free: "CHR ''*'' \<notin> set ?s"
    by (auto simp: glob_inv_def)
  have seg: "drop (sp + 1) pattern = ?s @ drop p pattern"
    using lt by (metis Suc_eq_plus1 Suc_leI append_take_drop_id drop_drop le_add_diff_inverse2)
  have len: "length ?s = p - (sp + 1)" using p lt by simp
  from m seg have "glob_spec (?s @ drop p pattern) w" by simp
  from glob_spec_segment [OF free this] show ?thesis unfolding len .
qed

text \<open>An alternative of the older star is an alternative of the new one.\<close>

lemma glob_alt_forget:
  assumes inv: "glob_inv pattern p v star star_v" and p: "p < length pattern"
    and c: "pattern ! p = CHR ''*''" and v: "v < length val"
    and alt: "glob_alt pattern val star star_v"
  shows "glob_spec (drop p pattern) (drop v val)"
proof -
  from alt obtain sp k where sp: "star = Some sp" and k: "star_v < k" "k \<le> length val"
    and m: "glob_spec (drop (sp + 1) pattern) (drop k val)"
    by (auto simp: glob_alt_def split: option.splits)
  from inv sp have lt: "sp < p" and off: "v + sp + 1 = star_v + p"
    by (auto simp: glob_inv_def)
  from glob_inv_segment [OF inv [unfolded sp] m]
  have le: "p - (sp + 1) \<le> length val - k"
    and g: "glob_spec (drop p pattern) (drop (k + (p - (sp + 1))) val)"
    by (auto simp: add.commute)
  have star_drop: "drop p pattern = CHR ''*'' # drop (p + 1) pattern"
    using p c by (metis Cons_nth_drop_Suc Suc_eq_plus1)
  have "v \<le> k + (p - (sp + 1))" and "k + (p - (sp + 1)) \<le> length val"
    using off lt k le by auto
  with g star_drop glob_spec_star_earlier show ?thesis by metis
qed

lemma glob_alt_step:
  assumes "glob_alt pattern val (Some sp) sv"
  shows "(sv + 1 \<le> length val \<and> glob_spec (drop (sp + 1) pattern) (drop (sv + 1) val)) \<or>
         glob_alt pattern val (Some sp) (sv + 1)"
  using assms unfolding glob_alt_def
  by simp (metis Suc_leI le_neq_implies_less)

lemma glob_loop_complete:
  "CHR ''*'' \<notin> set val \<Longrightarrow> glob_inv pattern p v star star_v \<Longrightarrow> v \<le> length val \<Longrightarrow>
   (case star of None \<Rightarrow> True | Some sp \<Rightarrow> star_v \<le> v) \<Longrightarrow>
   glob_spec (drop p pattern) (drop v val) \<or> glob_alt pattern val star star_v \<Longrightarrow>
   glob_loop pattern val p v star star_v"
proof (induction pattern val p v star star_v rule: glob_loop.induct)
  case (1 pattern val p v star star_v)
  note IH = 1(1-3) and free = 1(4) and inv = 1(5) and vle = 1(6) and sv = 1(7) and goal = 1(8)
  show ?case
  proof (cases "v < length val")
    case False
    with vle have "v = length val" by simp
    moreover have "\<not> glob_alt pattern val star star_v" if "glob_spec (drop p pattern) [] = False"
    proof
      assume "glob_alt pattern val star star_v"
      then obtain sp k where sp: "star = Some sp" and k: "star_v < k" "k \<le> length val"
        and m: "glob_spec (drop (sp + 1) pattern) (drop k val)"
        by (auto simp: glob_alt_def split: option.splits)
      from inv sp have lt: "sp < p" and off: "v + sp + 1 = star_v + p"
        by (auto simp: glob_inv_def)
      from glob_inv_segment [OF inv [unfolded sp] m]
      have "p - (sp + 1) \<le> length val - k" by simp
      with k off lt \<open>v = length val\<close> show False by auto
    qed
    ultimately show ?thesis
      using goal by (auto simp: glob_loop.simps [of pattern val p] glob_tail_iff)
  next
    case v: True
    have dv: "drop v val = val ! v # drop (v + 1) val"
      using v by (simp add: Cons_nth_drop_Suc)
    have nostar: "val ! v \<noteq> CHR ''*''" using free v by (metis nth_mem)
    have dp: "p < length pattern \<Longrightarrow> drop p pattern = pattern ! p # drop (p + 1) pattern"
      by (simp add: Cons_nth_drop_Suc)
    have step: "glob_loop pattern val (sp + 1) (star_v + 1) star (star_v + 1)"
      if sp: "star = Some sp" and a: "glob_alt pattern val star star_v"
        and stuck: "\<not> (p < length pattern \<and> (pattern ! p = CHR ''?'' \<or> pattern ! p = val ! v))"
          "\<not> (p < length pattern \<and> pattern ! p = CHR ''*'')" for sp
    proof -
      have i: "glob_inv pattern (sp + 1) (star_v + 1) star (star_v + 1)"
        using inv sp by (auto simp: glob_inv_def)
      have le: "star_v + 1 \<le> length val" using sv sp v by simp
      show ?thesis
        using IH(3) v stuck sp free i le glob_alt_step [of pattern val sp star_v] a
        by auto
    qed
    show ?thesis
    proof (cases "p < length pattern \<and> (pattern ! p = CHR ''?'' \<or> pattern ! p = val ! v)")
      case lit: True
      with nostar have ns: "pattern ! p \<noteq> CHR ''*''" by auto
      have "glob_spec (drop (p + 1) pattern) (drop (v + 1) val) \<or> glob_alt pattern val star star_v"
        using goal dv dp lit ns by (auto simp: glob_spec_char)
      moreover have "glob_inv pattern (p + 1) (v + 1) star star_v"
        using inv lit ns by (intro glob_inv_literal) auto
      ultimately have "glob_loop pattern val (p + 1) (v + 1) star star_v"
        using IH(1) v lit free sv by (auto split: option.splits)
      with v lit show ?thesis by (simp add: glob_loop.simps [of pattern val p])
    next
      case nolit: False
      show ?thesis
      proof (cases "p < length pattern \<and> pattern ! p = CHR ''*''")
        case wild: True
        then have g: "glob_spec (drop p pattern) (drop v val)"
          using goal glob_alt_forget [OF inv _ _ v] by auto
        have "glob_spec (drop (p + 1) pattern) (drop v val) \<or> glob_alt pattern val (Some p) v"
        proof -
          from g dp wild obtain j where j: "j \<le> length (drop v val)"
            "glob_spec (drop (p + 1) pattern) (drop j (drop v val))"
            by (auto simp: glob_spec_star)
          show ?thesis
          proof (cases j)
            case 0
            with j show ?thesis by simp
          next
            case (Suc i)
            with j v have "v < v + j \<and> v + j \<le> length val \<and>
                glob_spec (drop (p + 1) pattern) (drop (v + j) val)"
              by (simp add: add.commute)
            then show ?thesis by (auto simp: glob_alt_def)
          qed
        qed
        moreover have "glob_inv pattern (p + 1) v (Some p) v"
          using wild by (auto simp: glob_inv_def)
        ultimately have "glob_loop pattern val (p + 1) v (Some p) v"
          using IH(2) v nolit wild free by auto
        with v nolit wild show ?thesis by (simp add: glob_loop.simps [of pattern val p])
      next
        case nowild: False
        have "\<not> glob_spec (drop p pattern) (drop v val)"
          using dv dp nolit nowild by (cases "p < length pattern") (auto simp: glob_spec_char)
        with goal have a: "glob_alt pattern val star star_v" by simp
        then obtain sp where sp: "star = Some sp" by (auto simp: glob_alt_def split: option.splits)
        from step [OF sp a nolit nowild] sp v nolit nowild show ?thesis
          by (subst glob_loop.simps) auto
      qed
    qed
  qed
qed

lemma glob_match_sound: "glob_match pattern val \<Longrightarrow> glob_spec pattern val"
  using glob_loop_sound [of pattern val 0 0 None 0]
  by (simp add: glob_match_def glob_alt_def)

lemma glob_match_complete:
  "CHR ''*'' \<notin> set val \<Longrightarrow> glob_spec pattern val \<Longrightarrow> glob_match pattern val"
  using glob_loop_complete [of val pattern 0 0 None 0]
  by (simp add: glob_match_def glob_inv_def)

section \<open>Patterns\<close>

definition has_glob :: "string \<Rightarrow> bool" where
  "has_glob pattern =
     list_ex (\<lambda>b. b = CHR ''*'' \<or> b = CHR ''?'' \<or> b = CHR ''['') pattern"

definition pattern_matches :: "string \<Rightarrow> string \<Rightarrow> bool" where
  "pattern_matches pattern path =
     (if \<not> has_glob pattern \<and> ends_with pattern ''/'' then starts_with path pattern
      else if has_glob pattern \<and> ends_with pattern ''/''
      then glob_match (pattern @ ''*'') path
      else glob_match pattern path)"

record sensitive_path_matcher =
  patterns :: "string list"

definition is_match :: "sensitive_path_matcher \<Rightarrow> string \<Rightarrow> bool" where
  "is_match m path = list_ex (\<lambda>pattern. pattern_matches pattern path) (patterns m)"

definition default_sensitive_paths :: "string list" where
  "default_sensitive_paths =
     [''/var/run/secrets/'', ''/run/secrets/'', ''/etc/shadow*'', ''/etc/kubernetes/'',
      ''/root/.ssh/'', ''/home/*/.ssh/'']"

definition parse_sensitive_paths :: "string list \<Rightarrow> string list" where
  "parse_sensitive_paths values =
     (let paths = filter (\<lambda>part. part \<noteq> [])
                    (concat (map (\<lambda>value. map trim (split_on (CHR '','') value)) values))
      in if paths = [] then default_sensitive_paths else paths)"

section \<open>Coarse prefixes and the in-kernel gate\<close>

definition is_wildcard :: "char \<Rightarrow> bool" where
  "is_wildcard b = (b = CHR ''*'' \<or> b = CHR ''?'' \<or> b = CHR ''['')"

definition coarse_prefix :: "string \<Rightarrow> string" where
  "coarse_prefix pattern =
     (let prefix = takeWhile (\<lambda>b. \<not> is_wildcard b) pattern
      in if prefix = [] then ''/'' else prefix)"

definition max_sensitive_prefixes :: nat where
  "max_sensitive_prefixes = 16"

definition sensitive_prefix_len :: nat where
  "sensitive_prefix_len = 128"

definition file_open_path_len :: nat where
  "file_open_path_len = 256"

text \<open>A slot of the \<open>SENSITIVE_PREFIXES\<close> map; \<open>empty()\<close> is length 0.\<close>

record sensitive_prefix =
  sp_len :: nat
  sp_bytes :: string

definition empty_prefix :: sensitive_prefix where
  "empty_prefix = \<lparr>sp_len = 0, sp_bytes = replicate sensitive_prefix_len (CHR 0x00)\<rparr>"

definition make_sensitive_prefix :: "string \<Rightarrow> sensitive_prefix" where
  "make_sensitive_prefix prefix =
     (let len = min (length prefix) sensitive_prefix_len
      in \<lparr>sp_len = len,
          sp_bytes = take len prefix @ replicate (sensitive_prefix_len - len) (CHR 0x00)\<rparr>)"

text \<open>
  The loop of \<open>populate_sensitive_prefixes\<close>: the slots are cleared, then the coarse
  prefixes of the first sixteen patterns fill them from index 0 (the empty ones are
  skipped, but \<open>coarse_prefix\<close> never returns one).
\<close>

definition populate_sensitive_prefixes :: "string list \<Rightarrow> sensitive_prefix list" where
  "populate_sensitive_prefixes pats =
     (let entries = map make_sensitive_prefix
             (filter (\<lambda>prefix. prefix \<noteq> [])
               (map coarse_prefix (take max_sensitive_prefixes pats)))
      in entries @ replicate (max_sensitive_prefixes - length entries) empty_prefix)"

text \<open>
  \<open>prefix_matches\<close> of the eBPF program: at most 128 iterations, both buffers read byte
  by byte; the buffers are fixed arrays, so every read is in range.
\<close>

fun prefix_loop :: "nat \<Rightarrow> nat \<Rightarrow> string \<Rightarrow> string \<Rightarrow> nat \<Rightarrow> bool" where
  "prefix_loop 0 i path prefix n = True"
| "prefix_loop (Suc fuel) i path prefix n =
     (if n \<le> i then True
      else if path ! i \<noteq> prefix ! i then False
      else prefix_loop fuel (i + 1) path prefix n)"

definition prefix_matches :: "string \<Rightarrow> string \<Rightarrow> nat \<Rightarrow> bool" where
  "prefix_matches path prefix prefix_len =
     (if prefix_len = 0 \<or> 128 < prefix_len \<or> file_open_path_len < prefix_len then False
      else prefix_loop 128 0 path prefix prefix_len)"

definition matches_sensitive_prefix :: "sensitive_prefix list \<Rightarrow> string \<Rightarrow> bool" where
  "matches_sensitive_prefix slots path =
     list_ex (\<lambda>prefix. sp_len prefix \<noteq> 0 \<and>
                prefix_matches path (sp_bytes prefix) (sp_len prefix))
       (take max_sensitive_prefixes slots)"

text \<open>The fixed path buffer of the event: the path, then zero bytes.\<close>

definition path_buffer :: "string \<Rightarrow> string" where
  "path_buffer path = take file_open_path_len
     (take (file_open_path_len - 1) path @ replicate file_open_path_len (CHR 0x00))"

section \<open>The gate loses nothing\<close>

lemma glob_spec_literal_prefix:
  "glob_spec pattern path \<Longrightarrow> starts_with path (takeWhile (\<lambda>b. \<not> is_wildcard b) pattern)"
proof (induction pattern arbitrary: path)
  case Nil
  then show ?case by simp
next
  case (Cons c pattern)
  show ?case
  proof (cases "is_wildcard c")
    case True
    then show ?thesis by simp
  next
    case False
    then have "c \<noteq> CHR ''*''" and "c \<noteq> CHR ''?''" by (auto simp: is_wildcard_def)
    with Cons.prems obtain path' where "path = c # path'" "glob_spec pattern path'"
      by (auto simp: glob_spec_char)
    with Cons.IH False show ?thesis by (simp add: starts_with_Cons)
  qed
qed

lemma has_glob_iff: "has_glob pattern \<longleftrightarrow> (\<exists>b \<in> set pattern. is_wildcard b)"
  by (auto simp: has_glob_def is_wildcard_def list_ex_iff)

lemma takeWhile_has_glob:
  "has_glob pattern \<Longrightarrow>
   takeWhile (\<lambda>b. \<not> is_wildcard b) (pattern @ s) = takeWhile (\<lambda>b. \<not> is_wildcard b) pattern"
  unfolding has_glob_iff by (induction pattern) auto

lemma takeWhile_no_glob:
  "\<not> has_glob pattern \<Longrightarrow> takeWhile (\<lambda>b. \<not> is_wildcard b) pattern = pattern"
  unfolding has_glob_iff by (induction pattern) auto

lemma pattern_matches_prefix:
  assumes "pattern_matches pattern path"
  shows "starts_with path (takeWhile (\<lambda>b. \<not> is_wildcard b) pattern)"
  using assms
  by (auto simp: pattern_matches_def takeWhile_no_glob takeWhile_has_glob
        dest!: glob_match_sound glob_spec_literal_prefix split: if_splits)

lemma coarse_prefix_of_match:
  "pattern_matches pattern path \<Longrightarrow> starts_with path ''/'' \<Longrightarrow>
   starts_with path (coarse_prefix pattern)"
  using pattern_matches_prefix [of pattern path] by (simp add: coarse_prefix_def Let_def)

lemma coarse_prefix_not_Nil [simp]: "coarse_prefix pattern \<noteq> []"
  by (simp add: coarse_prefix_def Let_def)

lemma prefix_loop_iff:
  "prefix_loop fuel i path prefix n \<longleftrightarrow>
     (\<forall>j. i \<le> j \<and> j < n \<and> j < i + fuel \<longrightarrow> path ! j = prefix ! j)"
proof (induction fuel arbitrary: i)
  case 0
  then show ?case by auto
next
  case (Suc fuel)
  have "(\<forall>j. i \<le> j \<and> j < n \<and> j < i + Suc fuel \<longrightarrow> path ! j = prefix ! j) \<longleftrightarrow>
        (i < n \<longrightarrow> path ! i = prefix ! i) \<and>
        (\<forall>j. i + 1 \<le> j \<and> j < n \<and> j < i + 1 + fuel \<longrightarrow> path ! j = prefix ! j)"
    by (auto simp: Suc_le_eq) (metis le_neq_implies_less)
  then show ?case using Suc.IH by (auto simp: not_le)
qed

lemma path_buffer_nth:
  "j < length path \<Longrightarrow> j < file_open_path_len - 1 \<Longrightarrow> path_buffer path ! j = path ! j"
  by (simp add: path_buffer_def file_open_path_len_def nth_append)

lemma prefix_matches_entry:
  assumes "starts_with path prefix" and "prefix \<noteq> []"
  shows "prefix_matches (path_buffer path) (sp_bytes (make_sensitive_prefix prefix))
           (sp_len (make_sensitive_prefix prefix))"
proof -
  let ?n = "min (length prefix) sensitive_prefix_len"
  from assms(1) obtain r where path: "path = prefix @ r" by (auto simp: starts_with_iff_append)
  have "path_buffer path ! j =
        (take ?n prefix @ replicate (sensitive_prefix_len - ?n) (CHR 0x00)) ! j"
    if "j < ?n" for j
    using that path by (subst path_buffer_nth)
      (auto simp: nth_append sensitive_prefix_len_def file_open_path_len_def)
  then show ?thesis
    using assms(2)
    by (auto simp: prefix_matches_def make_sensitive_prefix_def Let_def prefix_loop_iff
          sensitive_prefix_len_def file_open_path_len_def)
qed

lemma populate_contains:
  assumes "pattern \<in> set (take max_sensitive_prefixes pats)"
  shows "make_sensitive_prefix (coarse_prefix pattern) \<in>
         set (take max_sensitive_prefixes (populate_sensitive_prefixes pats))"
  using assms
  by (simp add: populate_sensitive_prefixes_def Let_def filter_map comp_def)

lemma gate_accepts_matches:
  assumes "pattern \<in> set (take max_sensitive_prefixes pats)"
    and "pattern_matches pattern path" and "starts_with path ''/''"
  shows "matches_sensitive_prefix (populate_sensitive_prefixes pats) (path_buffer path)"
proof -
  let ?e = "make_sensitive_prefix (coarse_prefix pattern)"
  have "sp_len ?e \<noteq> 0"
    by (simp add: make_sensitive_prefix_def Let_def sensitive_prefix_len_def)
  moreover have "prefix_matches (path_buffer path) (sp_bytes ?e) (sp_len ?e)"
    using prefix_matches_entry coarse_prefix_of_match assms(2,3) coarse_prefix_not_Nil by metis
  ultimately show ?thesis
    using populate_contains [OF assms(1)]
    by (auto simp: matches_sensitive_prefix_def list_ex_iff)
qed

section \<open>Properties\<close>

text \<open>
  C39: on a path that holds no literal star, the iterative star-backtracking matcher decides
  exactly the wildcard semantics its comment states.
\<close>

theorem glob_match_iff_spec:
  assumes "CHR ''*'' \<notin> set path"
  shows "glob_match pattern path \<longleftrightarrow> glob_spec pattern path"
  using assms glob_match_sound glob_match_complete by blast

theorem glob_match_iff_spec_witness:
  "CHR ''*'' \<notin> set ''/etc/shadow-'' \<and>
   (glob_match ''/etc/sh?d*-'' ''/etc/shadow-'' \<longleftrightarrow>
    glob_spec ''/etc/sh?d*-'' ''/etc/shadow-'') \<and>
   glob_match ''/etc/sh?d*-'' ''/etc/shadow-''"
proof -
  have h: "CHR ''*'' \<notin> set ''/etc/shadow-''" by simp
  show ?thesis
    using h glob_match_iff_spec [OF h, of "''/etc/sh?d*-''"]
    by (simp add: glob_spec.simps(2))
qed

text \<open>
  a path that holds a literal star can escape the matcher: the loop takes a star of
  the pattern for that byte instead of for a run, so the default pattern for users' ssh
  directories rejects a key under a home directory whose name starts with a star, although
  the wildcard semantics accepts it.
\<close>

theorem glob_match_star_escape:
  "\<not> is_match \<lparr>patterns = default_sensitive_paths\<rparr> ''/home/*x/.ssh/id'' \<and>
   glob_spec (''/home/*/.ssh/'' @ ''*'') ''/home/*x/.ssh/id''"
  by (simp add: is_match_def default_sensitive_paths_def pattern_matches_def has_glob_def
      ends_with_def starts_with_def glob_match_def glob_loop.simps glob_tail_def
      glob_spec.simps(2))



end
