(* ===== verification/Byte_Codec.thy ===== *)
theory Byte_Codec
  imports Prelude
begin

text \<open>
  Fixed-width integers as bytes, the encodings that \<open>to_le_bytes\<close>, \<open>to_be_bytes\<close> and
  their inverses give and that every wire format of the program uses (kernel events, BPF
  instructions, BTF, spool frames, the runtime-subject pre-image).  The locale
  \<open>int_codec\<close> states what a client may rely on, whatever the byte order; it is
  interpreted for both orders.
\<close>

section \<open>Little endian\<close>

fun le_bytes :: "nat \<Rightarrow> nat \<Rightarrow> u8 list" where
  "le_bytes 0 n = []"
| "le_bytes (Suc k) n = word_of_nat n # le_bytes k (n div 256)"

fun le_nat :: "u8 list \<Rightarrow> nat" where
  "le_nat [] = 0"
| "le_nat (b # bs) = unat b + 256 * le_nat bs"

definition be_bytes :: "nat \<Rightarrow> nat \<Rightarrow> u8 list" where
  "be_bytes k n = rev (le_bytes k n)"

definition be_nat :: "u8 list \<Rightarrow> nat" where
  "be_nat bs = le_nat (rev bs)"

lemma unat_u8_less [simp]: "unat (b :: u8) < 256"
  using unsigned_less [where 'a = nat, of b] by simp

lemma unat_u8_of_nat [simp]: "unat (word_of_nat n :: u8) = n mod 256"
  by (simp add: unat_of_nat)

lemma length_le_bytes [simp]: "length (le_bytes k n) = k"
  by (induction k arbitrary: n) auto

lemma le_nat_less: "le_nat bs < 256 ^ length bs"
proof (induction bs)
  case Nil
  then show ?case by simp
next
  case (Cons b bs)
  have "unat b < 256" by simp
  moreover have "le_nat bs + 1 \<le> 256 ^ length bs" using Cons.IH by simp
  then have "256 * (le_nat bs + 1) \<le> 256 * 256 ^ length bs" by (rule mult_le_mono2)
  ultimately have "unat b + 256 * le_nat bs < 256 * 256 ^ length bs"
    unfolding distrib_left by linarith
  then show ?case by simp
qed

lemma le_nat_le_bytes: "le_nat (le_bytes k n) = n mod 256 ^ k"
  by (induction k arbitrary: n) (auto simp: mod_mult2_eq)

lemma le_bytes_le_nat: "le_bytes (length bs) (le_nat bs) = bs"
proof (induction bs)
  case Nil
  then show ?case by simp
next
  case (Cons b bs)
  have "(unat b + 256 * le_nat bs) div 256 = le_nat bs" by simp
  moreover have "(word_of_nat (unat b + 256 * le_nat bs) :: u8) = b"
    by (simp add: word_unat_eq_iff del: of_nat_add)
  ultimately show ?case using Cons.IH by simp
qed

section \<open>The codec interface\<close>

text \<open>
  A codec of fixed-width naturals: the width is kept, decoding undoes encoding modulo the
  range, encoding undoes decoding.
\<close>

locale int_codec =
  fixes enc :: "nat \<Rightarrow> nat \<Rightarrow> u8 list"
    and dec :: "u8 list \<Rightarrow> nat"
  assumes length_enc [simp]: "length (enc k n) = k"
    and dec_enc: "dec (enc k n) = n mod 256 ^ k"
    and enc_dec: "enc (length bs) (dec bs) = bs"
begin

lemma dec_enc_exact: "n < 256 ^ k \<Longrightarrow> dec (enc k n) = n"
  by (simp add: dec_enc)

lemma enc_inject: "n < 256 ^ k \<Longrightarrow> m < 256 ^ k \<Longrightarrow> enc k n = enc k m \<longleftrightarrow> n = m"
  by (metis dec_enc_exact)

lemma dec_less: "dec bs < 256 ^ length bs"
proof -
  have "dec bs = dec (enc (length bs) (dec bs))" by (simp add: enc_dec)
  also have "\<dots> < 256 ^ length bs" by (simp add: dec_enc)
  finally show ?thesis .
qed

lemma enc_append_inject:
  "n < 256 ^ k \<Longrightarrow> m < 256 ^ k \<Longrightarrow> enc k n @ r = enc k m @ s \<longleftrightarrow> n = m \<and> r = s"
  by (simp add: enc_inject)

lemma take_enc [simp]: "take k (enc k n @ r) = enc k n"
  by simp

lemma drop_enc [simp]: "drop k (enc k n @ r) = r"
  by simp

text \<open>A length-prefixed field determines itself and what follows it.\<close>

definition framed :: "nat \<Rightarrow> u8 list \<Rightarrow> u8 list" where
  "framed k body = enc k (length body) @ body"

lemma framed_append_inject:
  assumes "length a < 256 ^ k" and "length b < 256 ^ k"
  shows "framed k a @ r = framed k b @ s \<longleftrightarrow> a = b \<and> r = s"
proof
  assume "framed k a @ r = framed k b @ s"
  then have "length a = length b \<and> a @ r = b @ s"
    using assms by (simp add: framed_def enc_append_inject enc_inject)
  then show "a = b \<and> r = s" by (metis append_eq_append_conv)
qed simp

lemma framed_inject:
  "length a < 256 ^ k \<Longrightarrow> length b < 256 ^ k \<Longrightarrow> framed k a = framed k b \<longleftrightarrow> a = b"
  using framed_append_inject [of a k b "[]" "[]"] by simp

lemma unframe:
  "length a < 256 ^ k \<Longrightarrow>
   dec (take k (framed k a @ r)) = length a \<and>
   take (length a) (drop k (framed k a @ r)) = a \<and>
   drop (k + length a) (framed k a @ r) = r"
  by (simp add: framed_def dec_enc_exact)

end

interpretation le: int_codec le_bytes le_nat
  by unfold_locales (simp_all add: le_nat_le_bytes le_bytes_le_nat)

interpretation be: int_codec be_bytes be_nat
  by unfold_locales
    (simp_all add: be_bytes_def be_nat_def le_nat_le_bytes,
     metis le_bytes_le_nat length_rev rev_rev_ident)

section \<open>Words as bytes\<close>

lemma word_of_le_nat:
  fixes w :: "'a :: len word"
  assumes "LENGTH('a) = 8 * k"
  shows "(word_of_nat (le_nat (le_bytes k (unat w))) :: 'a word) = w"
proof -
  have "unat w < 256 ^ k"
    using unsigned_less [where 'a = nat, of w] by (simp add: assms power_mult)
  then show ?thesis by (simp add: le_nat_le_bytes)
qed

text \<open>A string's bytes, and the string of a byte buffer.\<close>

definition as_bytes :: "string \<Rightarrow> u8 list" where
  "as_bytes = map (\<lambda>c. word_of_nat (of_char c))"

definition of_bytes :: "u8 list \<Rightarrow> string" where
  "of_bytes = map (\<lambda>b. char_of (unat b))"

lemma length_as_bytes [simp]: "length (as_bytes s) = length s"
  by (simp add: as_bytes_def)

lemma length_of_bytes [simp]: "length (of_bytes bs) = length bs"
  by (simp add: of_bytes_def)

lemma of_char_less [simp]: "(of_char c :: nat) < 256"
  by (cases c) (auto simp: of_char_def horner_sum_of_bool_2_less
      intro: order_less_le_trans [OF horner_sum_of_bool_2_less])

lemma of_bytes_as_bytes [simp]: "of_bytes (as_bytes s) = s"
  by (simp add: of_bytes_def as_bytes_def comp_def)

lemma as_bytes_of_bytes [simp]: "as_bytes (of_bytes bs) = bs"
  by (simp add: of_bytes_def as_bytes_def comp_def)

lemma as_bytes_inject: "as_bytes s = as_bytes t \<longleftrightarrow> s = t"
  by (metis of_bytes_as_bytes)

end
