(* ===== verification/Text_Format.thy ===== *)
theory Text_Format
  imports Byte_Codec
begin

text \<open>
  What the program uses of Rust's text formatting: decimal and hexadecimal printing,
  \<open>FromStr\<close> of the unsigned integers, UTF-8 validation and the \<open>Display\<close> of IP
  addresses.  The lemmas give the print/parse round trip.
\<close>

section \<open>Decimal numbers\<close>

definition digit :: "nat \<Rightarrow> char" where
  "digit d = char_of (48 + d)"

fun decimal :: "nat \<Rightarrow> string" where
  "decimal n = (if n < 10 then [digit n] else decimal (n div 10) @ [digit (n mod 10)])"

declare decimal.simps [simp del]

definition decimal_int :: "int \<Rightarrow> string" where
  "decimal_int i = (if i < 0 then CHR ''-'' # decimal (nat (- i)) else decimal (nat i))"

definition digit_value :: "char \<Rightarrow> nat option" where
  "digit_value c = (let n = of_char c in if 48 \<le> n \<and> n \<le> 57 then Some (n - 48) else None)"

fun parse_digits :: "nat \<Rightarrow> nat \<Rightarrow> string \<Rightarrow> nat option" where
  "parse_digits mx acc [] = Some acc"
| "parse_digits mx acc (c # cs) =
     (case digit_value c of
        None \<Rightarrow> None
      | Some d \<Rightarrow> if mx < 10 * acc + d then None else parse_digits mx (10 * acc + d) cs)"

text \<open>\<open>str::parse\<close> for an unsigned type whose largest value is \<open>mx\<close>.\<close>

definition parse_uint :: "nat \<Rightarrow> string \<Rightarrow> nat option" where
  "parse_uint mx s =
     (case s of [] \<Rightarrow> None
      | c # cs \<Rightarrow> if c = CHR ''+'' then (if cs = [] then None else parse_digits mx 0 cs)
                 else parse_digits mx 0 s)"

definition u16_max :: nat where "u16_max = 2 ^ 16 - 1"
definition u32_max :: nat where "u32_max = 2 ^ 32 - 1"

lemma digit_value_digit [simp]: "d < 10 \<Longrightarrow> digit_value (digit d) = Some d"
  by (simp add: digit_value_def digit_def)

lemma digit_not_plus [simp]: "d < 10 \<Longrightarrow> digit d \<noteq> CHR ''+''"
proof
  assume "d < 10" and "digit d = CHR ''+''"
  then have "digit_value (CHR ''+'') = Some d" by (metis digit_value_digit)
  then show False by (simp add: digit_value_def)
qed

lemma parse_digits_append:
  "parse_digits mx acc (xs @ ys) =
   (case parse_digits mx acc xs of None \<Rightarrow> None | Some a \<Rightarrow> parse_digits mx a ys)"
  by (induction xs arbitrary: acc) (auto split: option.splits)

lemma parse_digits_decimal: "n \<le> mx \<Longrightarrow> parse_digits mx 0 (decimal n) = Some n"
proof (induction n rule: decimal.induct)
  case (1 n)
  show ?case
  proof (cases "n < 10")
    case True
    with 1 show ?thesis by (simp add: decimal.simps [of n])
  next
    case False
    with 1 have "parse_digits mx 0 (decimal (n div 10)) = Some (n div 10)" by simp
    with False 1 show ?thesis
      by (simp add: decimal.simps [of n] parse_digits_append)
  qed
qed

lemma decimal_not_Nil [simp]: "decimal n \<noteq> []"
  by (simp add: decimal.simps [of n])

lemma hd_decimal: "\<exists>d < 10. hd (decimal n) = digit d"
proof (induction n rule: decimal.induct)
  case (1 n)
  then show ?case by (cases "n < 10") (auto simp: decimal.simps [of n])
qed

lemma parse_uint_decimal: "n \<le> mx \<Longrightarrow> parse_uint mx (decimal n) = Some n"
  using hd_decimal [of n] parse_digits_decimal [of n mx] decimal_not_Nil [of n]
  by (cases "decimal n") (auto simp: parse_uint_def)

lemma decimal_inject: "decimal n = decimal m \<longleftrightarrow> n = m"
  by (metis max.cobounded1 max.cobounded2 option.inject parse_digits_decimal)

lemma parse_digits_bound: "acc \<le> mx \<Longrightarrow> parse_digits mx acc s = Some n \<Longrightarrow> n \<le> mx"
  by (induction s arbitrary: acc) (auto simp: not_less split: option.splits if_splits)

lemma parse_uint_bound: "parse_uint mx s = Some n \<Longrightarrow> n \<le> mx"
  by (cases s) (auto simp: parse_uint_def simp del: parse_digits.simps split: if_splits
      intro: parse_digits_bound [of 0])

section \<open>Hexadecimal\<close>

definition hex_digit :: "nat \<Rightarrow> char" where
  "hex_digit d = (if d < 10 then char_of (48 + d) else char_of (87 + d))"

fun hexadecimal :: "nat \<Rightarrow> string" where
  "hexadecimal n =
     (if n < 16 then [hex_digit n] else hexadecimal (n div 16) @ [hex_digit (n mod 16)])"

declare hexadecimal.simps [simp del]

text \<open>Two lower-case digits per byte, the \<open>{:x}\<close> of a digest.\<close>

definition hex_byte :: "u8 \<Rightarrow> string" where
  "hex_byte b = [hex_digit (unat b div 16), hex_digit (unat b mod 16)]"

definition hex_bytes :: "u8 list \<Rightarrow> string" where
  "hex_bytes bs = concat (map hex_byte bs)"

definition hex_value :: "char \<Rightarrow> nat" where
  "hex_value c = (let n = of_char c in if n < 58 then n - 48 else n - 87)"

lemma hex_value_hex_digit [simp]: "d < 16 \<Longrightarrow> hex_value (hex_digit d) = d"
  by (simp add: hex_value_def hex_digit_def)

lemma hex_digit_inject:
  "a < 16 \<Longrightarrow> b < 16 \<Longrightarrow> hex_digit a = hex_digit b \<longleftrightarrow> a = b"
  by (metis hex_value_hex_digit)

lemma length_hex_bytes [simp]: "length (hex_bytes bs) = 2 * length bs"
  by (induction bs) (auto simp: hex_bytes_def hex_byte_def)

lemma hex_bytes_inject: "hex_bytes a = hex_bytes b \<longleftrightarrow> a = b"
proof
  assume "hex_bytes a = hex_bytes b"
  then show "a = b"
  proof (induction a arbitrary: b)
    case Nil
    then show ?case by (cases b) (auto simp: hex_bytes_def hex_byte_def)
  next
    case (Cons x a)
    then obtain y b' where b: "b = y # b'"
      by (cases b) (auto simp: hex_bytes_def hex_byte_def)
    with Cons.prems have *: "hex_byte x = hex_byte y" and "hex_bytes a = hex_bytes b'"
      by (auto simp: hex_bytes_def hex_byte_def)
    with Cons.IH have "a = b'" by simp
    have lt: "unat x div 16 < 16" "unat y div 16 < 16"
      by (simp_all add: less_mult_imp_div_less)
    with * have "unat x div 16 = unat y div 16" "unat x mod 16 = unat y mod 16"
      by (simp_all add: hex_byte_def hex_digit_inject)
    then have "unat x = unat y" by (metis mult_div_mod_eq)
    then have "x = y" by (simp add: word_unat_eq_iff)
    with b \<open>a = b'\<close> show ?case by simp
  qed
qed simp

section \<open>UTF-8\<close>

text \<open>\<open>core::str::from_utf8\<close>: the well-formed byte sequences of Unicode table 3-7.\<close>

definition cont :: "u8 \<Rightarrow> bool" where
  "cont b = (0x80 \<le> b \<and> b \<le> 0xBF)"

fun utf8_valid :: "u8 list \<Rightarrow> bool" where
  "utf8_valid [] = True"
| "utf8_valid [a] = (a < 0x80)"
| "utf8_valid [a, b] =
     (if a < 0x80 then utf8_valid [b] else 0xC2 \<le> a \<and> a \<le> 0xDF \<and> cont b)"
| "utf8_valid [a, b, c] =
     (if a < 0x80 then utf8_valid [b, c]
      else if 0xC2 \<le> a \<and> a \<le> 0xDF then cont b \<and> utf8_valid [c]
      else 0xE0 \<le> a \<and> a \<le> 0xEF \<and> cont b \<and> cont c \<and>
           (a = 0xE0 \<longrightarrow> 0xA0 \<le> b) \<and> (a = 0xED \<longrightarrow> b \<le> 0x9F))"
| "utf8_valid (a # b # c # d # r) =
     (if a < 0x80 then utf8_valid (b # c # d # r)
      else if 0xC2 \<le> a \<and> a \<le> 0xDF then cont b \<and> utf8_valid (c # d # r)
      else if 0xE0 \<le> a \<and> a \<le> 0xEF
      then cont b \<and> cont c \<and> (a = 0xE0 \<longrightarrow> 0xA0 \<le> b) \<and> (a = 0xED \<longrightarrow> b \<le> 0x9F) \<and>
           utf8_valid (d # r)
      else 0xF0 \<le> a \<and> a \<le> 0xF4 \<and> cont b \<and> cont c \<and> cont d \<and>
           (a = 0xF0 \<longrightarrow> 0x90 \<le> b) \<and> (a = 0xF4 \<longrightarrow> b \<le> 0x8F) \<and> utf8_valid r)"

lemma utf8_valid_ascii: "(\<forall>b \<in> set bs. b < 0x80) \<Longrightarrow> utf8_valid bs"
  by (induction bs rule: utf8_valid.induct) auto

section \<open>IP addresses\<close>

datatype ip_addr = V4 "u8 list" | V6 "u8 list"

fun join :: "string \<Rightarrow> string list \<Rightarrow> string" where
  "join sep [] = []"
| "join sep [x] = x"
| "join sep (x # y # zs) = x @ sep @ join sep (y # zs)"

definition display_v4 :: "u8 list \<Rightarrow> string" where
  "display_v4 octets = join ''.'' (map (\<lambda>b. decimal (unat b)) octets)"

text \<open>The eight 16-bit segments of an IPv6 address, big endian.\<close>

fun segments :: "u8 list \<Rightarrow> nat list" where
  "segments (a # b # r) = (256 * unat a + unat b) # segments r"
| "segments _ = []"

text \<open>The first longest run of zero segments from position \<open>i\<close>, as start and length.\<close>

fun longest_zero_run :: "nat \<Rightarrow> nat \<times> nat \<Rightarrow> nat \<times> nat \<Rightarrow> nat list \<Rightarrow> nat \<times> nat" where
  "longest_zero_run i cur best [] = best"
| "longest_zero_run i (cs, cl) (bs, bl) (x # xs) =
     (if x = 0
      then (let start = (if cl = 0 then i else cs); len = cl + 1
            in longest_zero_run (i + 1) (start, len)
                 (if bl < len then (start, len) else (bs, bl)) xs)
      else longest_zero_run (i + 1) (0, 0) (bs, bl) xs)"

definition display_v6 :: "u8 list \<Rightarrow> string" where
  "display_v6 octets =
     (let seg = segments octets
      in if take 6 seg = [0, 0, 0, 0, 0, 0xFFFF]
         then ''::ffff:'' @ display_v4 (drop 12 octets)
         else (case longest_zero_run 0 (0, 0) (0, 0) seg of (start, len) \<Rightarrow>
           if 1 < len
           then join '':'' (map hexadecimal (take start seg)) @ ''::'' @
                join '':'' (map hexadecimal (drop (start + len) seg))
           else join '':'' (map hexadecimal seg)))"

fun display_ip :: "ip_addr \<Rightarrow> string" where
  "display_ip (V4 octets) = display_v4 octets"
| "display_ip (V6 octets) = display_v6 octets"

end
