(* ===== verification/Occurrence.thy ===== *)
theory Occurrence
  imports Text_Format
begin

text \<open>
  The FALSE Protocol occurrence (\<open>false-protocol/src\<close>): \<open>types.rs\<close>, \<open>blocks.rs\<close>,
  \<open>payloads.rs\<close> and \<open>occurrence.rs\<close>.  Every struct is a record with the source's
  fields in order; field names carry the struct's prefix because record selectors share
  one name space.  A \<open>HashMap<String, String>\<close> is an association list with distinct
  keys in the map's iteration order.  A \<open>DateTime\<close> is its nanoseconds since the epoch,
  an \<open>f64\<close> a real number: no operation modelled here computes with one.
\<close>

section \<open>Types\<close>

datatype severity = Debug | Info | Warning | Error | Critical

datatype outcome = Success | Failure | Timeout | InProgress | UnknownOutcome

datatype enrichment_state =
  Raw | EntityResolved | ContextEnriched | CausalityScored | FullyEnriched

fun next_state :: "enrichment_state \<Rightarrow> enrichment_state" where
  "next_state Raw = EntityResolved"
| "next_state EntityResolved = ContextEnriched"
| "next_state ContextEnriched = CausalityScored"
| "next_state CausalityScored = FullyEnriched"
| "next_state FullyEnriched = FullyEnriched"

datatype occurrence_category =
  ResourceExhaustion | Lifecycle | Network | ConfigChange | ServiceDegradation | Scaling |
  Security | SelfObservability

fun enrichment_rank :: "enrichment_state \<Rightarrow> nat" where
  "enrichment_rank Raw = 0"
| "enrichment_rank EntityResolved = 1"
| "enrichment_rank ContextEnriched = 2"
| "enrichment_rank CausalityScored = 3"
| "enrichment_rank FullyEnriched = 4"

lemma enrichment_rank_inject: "enrichment_rank a = enrichment_rank b \<longleftrightarrow> a = b"
  by (cases a; cases b) auto

text \<open>The derived orders of \<open>EnrichmentState\<close> and \<open>Severity\<close> are the declaration order.\<close>

instantiation enrichment_state :: linorder
begin

definition less_eq_enrichment_state :: "enrichment_state \<Rightarrow> enrichment_state \<Rightarrow> bool" where
  "less_eq_enrichment_state a b = (enrichment_rank a \<le> enrichment_rank b)"

definition less_enrichment_state :: "enrichment_state \<Rightarrow> enrichment_state \<Rightarrow> bool" where
  "less_enrichment_state a b = (enrichment_rank a < enrichment_rank b)"

instance
  by standard
    (auto simp: less_eq_enrichment_state_def less_enrichment_state_def enrichment_rank_inject)

end

lemma next_state_monotone: "s \<le> next_state s"
  by (cases s) (auto simp: less_eq_enrichment_state_def)

lemma next_state_absorbing: "next_state s = s \<longleftrightarrow> s = FullyEnriched"
  by (cases s) auto

lemma next_state_reaches: "(next_state ^^ 4) s = FullyEnriched"
  by (cases s) (auto simp: numeral_eq_Suc)

section \<open>Blocks\<close>

record occurrence_error =
  err_code :: string
  err_message :: "string option"
  err_stack :: "string option"
  err_cause :: "string option"
  err_what_failed :: string
  err_why_it_matters :: "string option"
  err_possible_causes :: "string list"
  err_suggested_fix :: "string option"

definition default_error :: occurrence_error where
  "default_error =
     \<lparr>err_code = [], err_message = None, err_stack = None, err_cause = None,
      err_what_failed = [], err_why_it_matters = None, err_possible_causes = [],
      err_suggested_fix = None\<rparr>"

record cause_ref =
  cr_occurrence_id :: string
  cr_cause_type :: string
  cr_summary :: "string option"
  cr_confidence :: "real option"

record pattern_match =
  pm_pattern_id :: string
  pm_name :: string
  pm_confidence :: real

record occurrence_reasoning =
  rsn_summary :: string
  rsn_explanation :: "string option"
  rsn_confidence :: real
  rsn_steps :: "string list"
  rsn_root_cause :: "cause_ref option"
  rsn_causal_chain :: "cause_ref list"
  rsn_patterns_matched :: "pattern_match list"
  rsn_alternative_explanations :: "cause_ref list"

record history_step =
  hs_description :: string
  hs_timestamp :: "string option"
  hs_duration_ms :: "int option"
  hs_status :: "string option"

record occurrence_history =
  hist_steps :: "history_step list"
  hist_duration_ms :: "int option"

section \<open>Payloads\<close>

record network_event_data =
  nd_protocol :: string
  nd_src_ip :: string
  nd_dst_ip :: string
  nd_src_port :: u16
  nd_dst_port :: u16
  nd_direction :: string
  nd_dns_query :: "string option"
  nd_http_method :: "string option"
  nd_http_path :: "string option"
  nd_http_status_code :: "int option"
  nd_latency_ms :: "real option"
  nd_bytes_sent :: "u64 option"
  nd_bytes_received :: "u64 option"
  nd_rtt_baseline_ms :: "real option"
  nd_rtt_current_ms :: "real option"
  nd_retransmit_count :: "u32 option"

record kernel_event_data =
  kd_event_type :: string
  kd_pid :: u32
  kd_command :: string
  kd_oom_victim_pid :: "u32 option"
  kd_oom_victim_comm :: "string option"
  kd_memory_requested :: "u64 option"
  kd_signal :: "u32 option"
  kd_syscall_name :: "string option"

record container_event_data =
  cd_container_id :: string
  cd_container_name :: string
  cd_image :: string
  cd_state :: string
  cd_exit_code :: "int option"
  cd_restart_count :: "int option"
  cd_cpu_usage :: "real option"
  cd_memory_usage :: "u64 option"

record k8s_event_data =
  k8_resource_type :: string
  k8_resource_name :: string
  k8_namespace :: string
  k8_reason :: string
  k8_message :: string
  k8_replicas :: "int option"
  k8_ready_replicas :: "int option"

record process_event_data =
  pd_pid :: u32
  pd_ppid :: "u32 option"
  pd_command :: string
  pd_args :: "string option"
  pd_uid :: "u32 option"
  pd_exit_code :: "int option"

record scheduling_event_data =
  sd_pod_uid :: string
  sd_attempts :: int
  sd_nodes_failed :: "int option"
  sd_nodes_total :: "int option"
  sd_failure_reasons :: "(string \<times> int) list"

record node_event_data =
  nod_node_name :: string
  nod_condition :: string
  nod_status :: string
  nod_reason :: "string option"
  nod_cpu_capacity :: "int option"
  nod_memory_capacity :: "int option"
  nod_cpu_allocated :: "int option"
  nod_memory_allocated :: "int option"

record resource_change =
  rc_field :: string
  rc_old_value :: string
  rc_new_value :: string

record resource_event_data =
  rd_resource_id :: string
  rd_resource_type :: string
  rd_provider :: string
  rd_region :: string
  rd_account :: string
  rd_status :: string
  rd_tags :: "(string \<times> string) list"
  rd_changes :: "resource_change list"

record otel_event_data =
  od_service_name :: string
  od_operation_name :: string
  od_span_kind :: string
  od_status_code :: string
  od_duration_ms :: real
  od_attributes :: "(string \<times> string) list"
  od_error_message :: "string option"

section \<open>Occurrence types\<close>

definition occurrence_domain :: "string \<Rightarrow> string" where
  "occurrence_domain t = hd (split_on (CHR ''.'') t)"

definition action :: "string \<Rightarrow> string" where
  "action t =
     (case dropWhile (\<lambda>c. c \<noteq> CHR ''.'') t of [] \<Rightarrow> [] | c # rest \<Rightarrow> rest)"

definition category_prefixes :: "(string \<times> occurrence_category) list" where
  "category_prefixes =
     [(''kernel.oom'', ResourceExhaustion),
      (''container.oom'', ResourceExhaustion),
      (''node.memory_pressure'', ResourceExhaustion),
      (''node.disk_pressure'', ResourceExhaustion),
      (''node.cpu_pressure'', ResourceExhaustion),
      (''pod.restart'', Lifecycle),
      (''pod.scheduled'', Lifecycle),
      (''pod.failed'', Lifecycle),
      (''container.terminated'', Lifecycle),
      (''container.started'', Lifecycle),
      (''network.'', Network),
      (''deployment.'', ConfigChange),
      (''config.'', ConfigChange),
      (''service.'', ServiceDegradation),
      (''scheduling.'', Scaling),
      (''node.not_ready'', Scaling),
      (''hpa.'', Scaling),
      (''security.'', Security),
      (''policy.'', Security),
      (''ahti.'', SelfObservability)]"

definition category :: "string \<Rightarrow> occurrence_category option" where
  "category t =
     map_option snd (find (\<lambda>(prefix, cat). starts_with t prefix) category_prefixes)"

text \<open>The domain and the action put back together are the type, when it has a dot.\<close>

lemma split_on_hd: "hd (split_on d s) = takeWhile (\<lambda>c. c \<noteq> d) s"
  by (induction s) (auto split: list.splits)

lemma domain_action:
  "CHR ''.'' \<in> set t \<Longrightarrow> occurrence_domain t @ ''.'' @ action t = t"
  unfolding occurrence_domain_def action_def split_on_hd
  by (induction t) (auto split: list.splits)

section \<open>The occurrence\<close>

type_synonym ulid = "128 word"

record occurrence =
  occ_id :: ulid
  occ_timestamp :: int
  occ_received_at :: "int option"
  occ_source :: string
  occurrence_type :: string
  occ_severity :: severity
  occ_outcome :: "outcome option"
  correlation_keys :: "string list"
  occ_error :: "occurrence_error option"
  occ_reasoning :: "occurrence_reasoning option"
  occ_history :: "occurrence_history option"
  entity_ids :: "string list"
  occ_cluster :: string
  occ_namespace :: "string option"
  labels :: "(string \<times> string) list"
  trace_id :: "string option"
  span_id :: "string option"
  parent_span_id :: "string option"
  duration_us :: "u64 option"
  occ_enrichment_state :: enrichment_state
  network_data :: "network_event_data option"
  kernel_data :: "kernel_event_data option"
  container_data :: "container_event_data option"
  k8s_data :: "k8s_event_data option"
  process_data :: "process_event_data option"
  scheduling_data :: "scheduling_event_data option"
  node_data :: "node_event_data option"
  resource_data :: "resource_event_data option"
  otel_data :: "otel_event_data option"

text \<open>
  \<open>Ulid::new()\<close> and \<open>Utc::now()\<close> are the arguments \<open>ident\<close> and \<open>now\<close> of the
  constructor; \<open>ulid_at\<close> stands for the \<open>ulid\<close> crate's \<open>from_datetime\<close>.
\<close>

definition new_occurrence :: "ulid \<Rightarrow> int \<Rightarrow> string \<Rightarrow> string \<Rightarrow> occurrence" where
  "new_occurrence ident now source typ =
     \<lparr>occ_id = ident, occ_timestamp = now, occ_received_at = None, occ_source = source,
      occurrence_type = typ, occ_severity = Info, occ_outcome = None, correlation_keys = [],
      occ_error = None, occ_reasoning = None, occ_history = None, entity_ids = [],
      occ_cluster = [], occ_namespace = None, labels = [], trace_id = None, span_id = None,
      parent_span_id = None, duration_us = None, occ_enrichment_state = Raw,
      network_data = None, kernel_data = None, container_data = None, k8s_data = None,
      process_data = None, scheduling_data = None, node_data = None, resource_data = None,
      otel_data = None\<rparr>"

definition timestamp_millis :: "int \<Rightarrow> int" where
  "timestamp_millis ts = ts div 1000000"

definition new_at ::
  "(nat \<Rightarrow> ulid) \<Rightarrow> string \<Rightarrow> string \<Rightarrow> int \<Rightarrow> occurrence" where
  "new_at ulid_at source typ ts =
     (let millis = nat (max (timestamp_millis ts) 0)
      in (new_occurrence 0 ts source typ)\<lparr>occ_id := ulid_at millis, occ_timestamp := ts\<rparr>)"

definition with_severity :: "severity \<Rightarrow> occurrence \<Rightarrow> occurrence" where
  "with_severity s occ = occ\<lparr>occ_severity := s\<rparr>"

definition with_outcome :: "outcome \<Rightarrow> occurrence \<Rightarrow> occurrence" where
  "with_outcome v occ = occ\<lparr>occ_outcome := Some v\<rparr>"

definition in_cluster :: "string \<Rightarrow> occurrence \<Rightarrow> occurrence" where
  "in_cluster c occ = occ\<lparr>occ_cluster := c\<rparr>"

definition in_namespace :: "string \<Rightarrow> occurrence \<Rightarrow> occurrence" where
  "in_namespace ns occ = occ\<lparr>occ_namespace := Some ns\<rparr>"

definition with_entities :: "string list \<Rightarrow> occurrence \<Rightarrow> occurrence" where
  "with_entities ids occ = occ\<lparr>entity_ids := ids\<rparr>"

definition with_received_at :: "int \<Rightarrow> occurrence \<Rightarrow> occurrence" where
  "with_received_at received occ = occ\<lparr>occ_received_at := Some received\<rparr>"

definition with_error :: "occurrence_error \<Rightarrow> occurrence \<Rightarrow> occurrence" where
  "with_error e occ = occ\<lparr>occ_error := Some e\<rparr>"

definition with_reasoning :: "occurrence_reasoning \<Rightarrow> occurrence \<Rightarrow> occurrence" where
  "with_reasoning r occ = occ\<lparr>occ_reasoning := Some r\<rparr>"

definition with_history :: "occurrence_history \<Rightarrow> occurrence \<Rightarrow> occurrence" where
  "with_history h occ = occ\<lparr>occ_history := Some h\<rparr>"

definition with_tracing ::
  "string \<Rightarrow> string \<Rightarrow> string option \<Rightarrow> occurrence \<Rightarrow> occurrence" where
  "with_tracing tr sp parent occ =
     occ\<lparr>trace_id := Some tr, span_id := Some sp, parent_span_id := parent\<rparr>"

section \<open>Labels\<close>

definition insert_label :: "string \<Rightarrow> string \<Rightarrow> occurrence \<Rightarrow> occurrence" where
  "insert_label k v occ = occ\<lparr>labels := AList.update k v (labels occ)\<rparr>"

definition label :: "occurrence \<Rightarrow> string \<Rightarrow> string option" where
  "label occ = map_of (labels occ)"

definition labels_ok :: "occurrence \<Rightarrow> bool" where
  "labels_ok occ = distinct (map fst (labels occ))"

lemma label_insert [simp]:
  "label (insert_label k v occ) k' = (if k' = k then Some v else label occ k')"
  by (simp add: label_def insert_label_def update_conv')

lemma labels_ok_insert [simp]: "labels_ok occ \<Longrightarrow> labels_ok (insert_label k v occ)"
  by (simp add: labels_ok_def insert_label_def distinct_update)

lemma labels_ok_new [simp]: "labels_ok (new_occurrence ident now source typ)"
  by (simp add: labels_ok_def new_occurrence_def)

lemma label_new [simp]: "label (new_occurrence ident now source typ) k = None"
  by (simp add: label_def new_occurrence_def)

lemma length_labels_insert:
  "length (labels (insert_label k v occ)) \<le> Suc (length (labels occ))"
proof -
  have "length (AList.update k v xs) \<le> Suc (length xs)" for xs :: "(string \<times> string) list"
    by (induction xs) auto
  then show ?thesis by (simp add: insert_label_def)
qed

lemma insert_label_fields [simp]:
  "occurrence_type (insert_label k v occ) = occurrence_type occ"
  "occ_source (insert_label k v occ) = occ_source occ"
  "occ_cluster (insert_label k v occ) = occ_cluster occ"
  "occ_id (insert_label k v occ) = occ_id occ"
  "occ_timestamp (insert_label k v occ) = occ_timestamp occ"
  "occ_severity (insert_label k v occ) = occ_severity occ"
  "occ_outcome (insert_label k v occ) = occ_outcome occ"
  "occ_error (insert_label k v occ) = occ_error occ"
  "occ_reasoning (insert_label k v occ) = occ_reasoning occ"
  "occ_history (insert_label k v occ) = occ_history occ"
  "entity_ids (insert_label k v occ) = entity_ids occ"
  "occ_namespace (insert_label k v occ) = occ_namespace occ"
  "correlation_keys (insert_label k v occ) = correlation_keys occ"
  "duration_us (insert_label k v occ) = duration_us occ"
  "network_data (insert_label k v occ) = network_data occ"
  "process_data (insert_label k v occ) = process_data occ"
  by (simp_all add: insert_label_def)

section \<open>Validation\<close>

datatype protocol_error = InvalidOccurrence string

definition max_short :: nat where "max_short = 256"
definition max_label :: nat where "max_label = 1000"
definition max_labels :: nat where "max_labels = 100"
definition max_entity_ids :: nat where "max_entity_ids = 100"

fun validate_labels :: "(string \<times> string) list \<Rightarrow> protocol_error + unit" where
  "validate_labels [] = Inr ()"
| "validate_labels ((k, v) # rest) =
     (if max_label < length k
      then Inl (InvalidOccurrence (''label key exceeds '' @ decimal max_label @ '' bytes''))
      else if max_label < length v
      then Inl (InvalidOccurrence (''label value exceeds '' @ decimal max_label @ '' bytes''))
      else validate_labels rest)"

definition exceeds :: "string \<Rightarrow> nat \<Rightarrow> protocol_error" where
  "exceeds what limit = InvalidOccurrence (what @ '' exceeds '' @ decimal limit @ '' bytes'')"

definition too_many :: "string \<Rightarrow> nat \<Rightarrow> nat \<Rightarrow> protocol_error" where
  "too_many what n limit =
     InvalidOccurrence (what @ '' count '' @ decimal n @ '' exceeds '' @ decimal limit)"

definition validate :: "occurrence \<Rightarrow> protocol_error + unit" where
  "validate occ =
     (if trim (occ_source occ) = [] then Inl (InvalidOccurrence ''source is required'')
      else if trim (occurrence_type occ) = [] then Inl (InvalidOccurrence ''type is required'')
      else if trim (occ_cluster occ) = [] then Inl (InvalidOccurrence ''cluster is required'')
      else if max_short < length (occ_source occ) then Inl (exceeds ''source'' max_short)
      else if max_short < length (occurrence_type occ)
      then Inl (exceeds ''occurrence_type'' max_short)
      else if max_short < length (occ_cluster occ) then Inl (exceeds ''cluster'' max_short)
      else if (case occ_namespace occ of None \<Rightarrow> False | Some ns \<Rightarrow> max_short < length ns)
      then Inl (exceeds ''namespace'' max_short)
      else if max_labels < length (labels occ)
      then Inl (too_many ''labels'' (length (labels occ)) max_labels)
      else (case validate_labels (labels occ) of
              Inl e \<Rightarrow> Inl e
            | Inr _ \<Rightarrow>
                if max_entity_ids < length (entity_ids occ)
                then Inl (too_many ''entity_ids'' (length (entity_ids occ)) max_entity_ids)
                else Inr ()))"

definition build :: "occurrence \<Rightarrow> protocol_error + occurrence" where
  "build occ = (case validate occ of Inl e \<Rightarrow> Inl e | Inr _ \<Rightarrow> Inr occ)"

text \<open>What the size guards promise to the stores and indexes downstream.\<close>

definition occurrence_wf :: "occurrence \<Rightarrow> bool" where
  "occurrence_wf occ =
     (trim (occ_source occ) \<noteq> [] \<and> trim (occurrence_type occ) \<noteq> [] \<and>
      trim (occ_cluster occ) \<noteq> [] \<and>
      (\<forall>s \<in> {occ_source occ, occurrence_type occ, occ_cluster occ}. length s \<le> 256) \<and>
      (\<forall>ns. occ_namespace occ = Some ns \<longrightarrow> length ns \<le> 256) \<and>
      length (labels occ) \<le> 100 \<and>
      (\<forall>(k, v) \<in> set (labels occ). length k \<le> 1000 \<and> length v \<le> 1000) \<and>
      length (entity_ids occ) \<le> 100)"

lemma validate_labels_ok:
  "validate_labels kvs = Inr u \<longleftrightarrow>
   (\<forall>(k, v) \<in> set kvs. length k \<le> 1000 \<and> length v \<le> 1000)"
  by (induction kvs rule: validate_labels.induct) (auto simp: max_label_def)

lemma validate_ok_iff: "validate occ = Inr () \<longleftrightarrow> occurrence_wf occ"
proof (cases "validate_labels (labels occ)")
  case (Inl e)
  then have "\<not> (\<forall>(k, v) \<in> set (labels occ). length k \<le> 1000 \<and> length v \<le> 1000)"
    using validate_labels_ok [of "labels occ"] by (metis old.sum.distinct(1))
  with Inl show ?thesis by (simp add: validate_def occurrence_wf_def)
next
  case (Inr u)
  then have "\<forall>(k, v) \<in> set (labels occ). length k \<le> 1000 \<and> length v \<le> 1000"
    using validate_labels_ok by blast
  with Inr show ?thesis
    by (auto simp: validate_def occurrence_wf_def max_short_def max_labels_def
        max_entity_ids_def not_less split: option.splits)
qed

section \<open>Properties\<close>

text \<open>
  building an occurrence succeeds exactly on the occurrences whose required fields are
  not blank and whose every field is inside the size guards, and returns it unchanged; so
  nothing oversized gets past \<open>build\<close> and nothing inside the bounds is refused.
\<close>

theorem build_iff_wf: "build occ = Inr occ' \<longleftrightarrow> occ' = occ \<and> occurrence_wf occ"
  using validate_ok_iff [of occ] by (auto simp: build_def split: sum.splits)

end
