(* ===== verification/Runtime_Subject.thy ===== *)
theory Runtime_Subject
  imports Text_Format
begin

text \<open>
  The canonical process-lifetime identity of \<open>jalki-evidence/src/runtime_subject.rs\<close>.
  The SHA-256 of the \<open>sha2\<close> crate is the parameter \<open>sha256\<close>; what is proved is that
  the bytes fed to it determine every component of the identity, so two subjects share an
  id only through a collision of the hash.
\<close>

section \<open>The subject\<close>

definition canonicalization_version_v1 :: u16 where
  "canonicalization_version_v1 = 1"

definition identity_method_v1 :: string where
  "identity_method_v1 = ''task_start_boottime_btf_v1''"

definition hash_domain :: "u8 list" where
  "hash_domain = as_bytes (''false-systems/runtime-subject/v1'' @ [CHR 0x00])"

record runtime_subject =
  runtime_subject_id :: string
  rs_node_identity :: string
  rs_boot_id :: string
  rs_host_tgid :: u32
  rs_leader_start :: u64
  rs_canonicalization_version :: u16
  rs_identity_method :: string

datatype runtime_subject_error =
  InvalidNodeIdentity | InvalidBootId | InvalidHostTgid | InvalidLeaderStart

text \<open>\<open>update_field\<close>: a field is hashed behind its length as a big-endian \<open>u64\<close>.\<close>

definition update_field :: "u8 list \<Rightarrow> u8 list \<Rightarrow> u8 list" where
  "update_field hashed field = hashed @ be_bytes 8 (length field) @ field"

definition boot_id_byte_ok :: "nat \<Rightarrow> char \<Rightarrow> bool" where
  "boot_id_byte_ok index c =
     (if index = 8 \<or> index = 13 \<or> index = 18 \<or> index = 23 then c = CHR ''-''
      else is_ascii_hexdigit c)"

definition canonical_boot_id :: "string \<Rightarrow> runtime_subject_error + string" where
  "canonical_boot_id val =
     (if length val \<noteq> 36 \<or>
         list_ex (\<lambda>(index, c). \<not> boot_id_byte_ok index c) (enumerate 0 val)
      then Inl InvalidBootId
      else Inr (to_ascii_lowercase val))"

definition subject_preimage :: "string \<Rightarrow> string \<Rightarrow> u32 \<Rightarrow> u64 \<Rightarrow> u8 list" where
  "subject_preimage node boot tgid start =
     (let h = hash_domain;
          h = update_field h (as_bytes node);
          h = update_field h (as_bytes boot);
          h = update_field h (be_bytes 4 (unat tgid));
          h = update_field h (be_bytes 8 (unat start))
      in update_field h (be_bytes 2 (unat canonicalization_version_v1)))"

definition new_subject ::
  "(u8 list \<Rightarrow> u8 list) \<Rightarrow> string \<Rightarrow> string \<Rightarrow> u32 \<Rightarrow> u64 \<Rightarrow>
   runtime_subject_error + runtime_subject" where
  "new_subject sha256 node boot tgid start =
     (if node = [] \<or> trim node \<noteq> node then Inl InvalidNodeIdentity
      else (case canonical_boot_id boot of
              Inl e \<Rightarrow> Inl e
            | Inr boot' \<Rightarrow>
                if tgid = 0 then Inl InvalidHostTgid
                else if start = 0 then Inl InvalidLeaderStart
                else Inr \<lparr>runtime_subject_id =
                            ''sha256:'' @ hex_bytes (sha256 (subject_preimage node boot' tgid start)),
                          rs_node_identity = node, rs_boot_id = boot', rs_host_tgid = tgid,
                          rs_leader_start = start,
                          rs_canonicalization_version = canonicalization_version_v1,
                          rs_identity_method = identity_method_v1\<rparr>))"

section \<open>The pre-image determines the identity\<close>

lemma update_field_framed: "update_field h f = h @ be.framed 8 f"
  by (simp add: update_field_def be.framed_def)

lemma subject_preimage_framed:
  "subject_preimage node boot tgid start =
   hash_domain @ be.framed 8 (as_bytes node) @ be.framed 8 (as_bytes boot) @
   be.framed 8 (be_bytes 4 (unat tgid)) @ be.framed 8 (be_bytes 8 (unat start)) @
   be.framed 8 (be_bytes 2 (unat canonicalization_version_v1))"
  by (simp add: subject_preimage_def update_field_framed Let_def)

lemma subject_preimage_inject:
  assumes "length n1 < 2 ^ 64" "length n2 < 2 ^ 64" "length b1 < 2 ^ 64" "length b2 < 2 ^ 64"
    and eq: "subject_preimage n1 b1 t1 s1 = subject_preimage n2 b2 t2 s2"
  shows "n1 = n2 \<and> b1 = b2 \<and> t1 = t2 \<and> s1 = s2"
proof -
  have bound: "(256 :: nat) ^ 8 = 2 ^ 64" by simp
  have short: "length (be_bytes k x) < 256 ^ 8" if "k < 100" for k x
    using that by simp
  from eq assms(1,2) have 1: "n1 = n2" and
    eq: "be.framed 8 (as_bytes b1) @ be.framed 8 (be_bytes 4 (unat t1)) @
           be.framed 8 (be_bytes 8 (unat s1)) @
           be.framed 8 (be_bytes 2 (unat canonicalization_version_v1)) =
         be.framed 8 (as_bytes b2) @ be.framed 8 (be_bytes 4 (unat t2)) @
           be.framed 8 (be_bytes 8 (unat s2)) @
           be.framed 8 (be_bytes 2 (unat canonicalization_version_v1))"
    unfolding subject_preimage_framed same_append_eq bound [symmetric]
    by (subst (asm) be.framed_append_inject; simp add: as_bytes_inject)+
  from eq assms(3,4) have 2: "b1 = b2" and
    eq: "be.framed 8 (be_bytes 4 (unat t1)) @ be.framed 8 (be_bytes 8 (unat s1)) @
           be.framed 8 (be_bytes 2 (unat canonicalization_version_v1)) =
         be.framed 8 (be_bytes 4 (unat t2)) @ be.framed 8 (be_bytes 8 (unat s2)) @
           be.framed 8 (be_bytes 2 (unat canonicalization_version_v1))"
    unfolding bound [symmetric]
    by (subst (asm) be.framed_append_inject; simp add: as_bytes_inject)+
  from eq have 3: "be_bytes 4 (unat t1) = be_bytes 4 (unat t2)" and
    4: "be_bytes 8 (unat s1) = be_bytes 8 (unat s2)"
    by (simp_all add: be.framed_append_inject be.framed_inject)
  have "unat t1 < 256 ^ 4" "unat t2 < 256 ^ 4"
    using unsigned_less [where 'a = nat, of t1] unsigned_less [where 'a = nat, of t2] by simp_all
  with 3 have "t1 = t2" by (simp add: be.enc_inject word_unat_eq_iff)
  moreover have "unat s1 < 256 ^ 8" "unat s2 < 256 ^ 8"
    using unsigned_less [where 'a = nat, of s1] unsigned_less [where 'a = nat, of s2] by simp_all
  with 4 have "s1 = s2" by (simp add: be.enc_inject word_unat_eq_iff)
  ultimately show ?thesis using 1 2 by simp
qed

text \<open>What acceptance means: a canonical, well-formed identity.\<close>

lemma canonical_boot_id_ok:
  assumes "canonical_boot_id b = Inr b'"
  shows "length b' = 36 \<and> b' = to_ascii_lowercase b"
  using assms by (auto simp: canonical_boot_id_def split: if_splits)

lemma new_subject_fields:
  assumes "new_subject sha256 node boot tgid start = Inr s"
  shows "rs_node_identity s = node \<and> node \<noteq> [] \<and> trim node = node \<and>
         rs_boot_id s = to_ascii_lowercase boot \<and> length boot = 36 \<and>
         rs_host_tgid s = tgid \<and> tgid \<noteq> 0 \<and> rs_leader_start s = start \<and> start \<noteq> 0 \<and>
         runtime_subject_id s = ''sha256:'' @
           hex_bytes (sha256 (subject_preimage node (to_ascii_lowercase boot) tgid start))"
proof -
  from assms obtain b where b: "canonical_boot_id boot = Inr b"
    by (auto simp: new_subject_def split: if_splits sum.splits)
  from canonical_boot_id_ok [OF b] have "b = to_ascii_lowercase boot" "length boot = 36"
    by auto
  with assms b show ?thesis by (auto simp: new_subject_def split: if_splits)
qed

lemma to_ascii_lower_hexdigit:
  assumes "is_ascii_hexdigit c"
  shows "is_ascii_hexdigit (to_ascii_lower c)"
proof (cases "65 \<le> (of_char c :: nat) \<and> (of_char c :: nat) \<le> 90")
  case True
  with assms have le: "(of_char c :: nat) \<le> 70" by (auto simp: is_ascii_hexdigit_def Let_def)
  with True have "(of_char (to_ascii_lower c) :: nat) = of_char c + 32"
    by (simp add: to_ascii_lower_def)
  with True le show ?thesis by (simp add: is_ascii_hexdigit_def)
next
  case False
  then have "to_ascii_lower c = c" by (auto simp: to_ascii_lower_def Let_def)
  with assms show ?thesis by simp
qed

lemma boot_id_byte_ok_lower:
  "boot_id_byte_ok i c \<Longrightarrow> boot_id_byte_ok i (to_ascii_lower c)"
  by (auto simp: boot_id_byte_ok_def to_ascii_lower_hexdigit split: if_splits)
     (simp_all add: to_ascii_lower_def)

lemma enumerate_all:
  "(\<forall>(i, c) \<in> set (enumerate n xs). P i c) \<longleftrightarrow> (\<forall>k < length xs. P (n + k) (xs ! k))"
  by (auto simp: in_set_enumerate_eq) (metis add.commute le_add_diff_inverse2 less_diff_conv
      le_add1 add_diff_cancel_left' add_less_cancel_left)

lemma canonical_boot_id_idem:
  assumes "canonical_boot_id b = Inr b'"
  shows "canonical_boot_id b' = Inr b'"
proof -
  have "list_ex (\<lambda>(i, c). \<not> boot_id_byte_ok i c) (enumerate 0 xs) \<longleftrightarrow>
        \<not> (\<forall>k < length xs. boot_id_byte_ok k (xs ! k))" for xs
    using enumerate_all [of 0 xs boot_id_byte_ok] by (auto simp: list_ex_iff)
  then show ?thesis
    using assms boot_id_byte_ok_lower
    by (auto simp: canonical_boot_id_def to_ascii_lowercase_def split: if_splits)
qed

section \<open>Properties\<close>

text \<open>
  two accepted runtime subjects with the same id name the same node, the same
  (canonically spelled) boot, the same thread group and the same start time, or exhibit two
  different inputs with the same SHA-256 digest: the length-prefixed fields leave no
  ambiguity of concatenation.
\<close>

theorem subject_id_collision:
  assumes "new_subject sha256 n1 b1 t1 s1 = Inr x" and "new_subject sha256 n2 b2 t2 s2 = Inr y"
    and "runtime_subject_id x = runtime_subject_id y"
    and "length n1 < 2 ^ 64" and "length n2 < 2 ^ 64"
  shows "x = y \<or> (\<exists>u v. u \<noteq> v \<and> sha256 u = sha256 v)"
proof (cases "subject_preimage n1 (rs_boot_id x) t1 s1 = subject_preimage n2 (rs_boot_id y) t2 s2")
  case True
  have len: "length (rs_boot_id x) < 2 ^ 64" "length (rs_boot_id y) < 2 ^ 64"
    using new_subject_fields [OF assms(1)] new_subject_fields [OF assms(2)] by simp_all
  from subject_preimage_inject [OF assms(4,5) len True]
  have "n1 = n2 \<and> rs_boot_id x = rs_boot_id y \<and> t1 = t2 \<and> s1 = s2" .
  with assms(1-3) show ?thesis
    by (auto simp: new_subject_def canonical_boot_id_def split: if_splits)
next
  case False
  from assms(3) have "sha256 (subject_preimage n1 (rs_boot_id x) t1 s1) =
    sha256 (subject_preimage n2 (rs_boot_id y) t2 s2)"
    using new_subject_fields [OF assms(1)] new_subject_fields [OF assms(2)]
    by (simp add: hex_bytes_inject)
  with False show ?thesis by blast
qed

definition sample_boot_id :: string where
  "sample_boot_id = ''01234567-89AB-cdef-0123-456789abcdef''"

definition sample_subject :: runtime_subject where
  "sample_subject =
     \<lparr>runtime_subject_id = ''sha256:'' @
        hex_bytes (subject_preimage ''node-1'' (to_ascii_lowercase sample_boot_id) 7 9),
      rs_node_identity = ''node-1'', rs_boot_id = to_ascii_lowercase sample_boot_id,
      rs_host_tgid = 7, rs_leader_start = 9,
      rs_canonicalization_version = canonicalization_version_v1,
      rs_identity_method = identity_method_v1\<rparr>"

lemma canonical_sample_boot_id:
  "canonical_boot_id sample_boot_id = Inr (to_ascii_lowercase sample_boot_id)"
  by (simp add: canonical_boot_id_def sample_boot_id_def boot_id_byte_ok_def
      is_ascii_hexdigit_def Let_def)

lemma trim_sample_node: "trim ''node-1'' = ''node-1''"
  by (simp add: trim_def trim_start_def trim_end_def white_space_def bytes_def
      upt_rec starts_with_def char_of_def)

lemma new_sample_subject:
  "new_subject id ''node-1'' sample_boot_id 7 9 = Inr sample_subject"
  "new_subject id ''node-1'' (to_ascii_lowercase sample_boot_id) 7 9 = Inr sample_subject"
  by (simp_all add: new_subject_def sample_subject_def trim_sample_node
      canonical_sample_boot_id canonical_boot_id_idem [OF canonical_sample_boot_id])

theorem subject_id_collision_witness:
  "new_subject id ''node-1'' sample_boot_id 7 9 = Inr sample_subject \<and>
   new_subject id ''node-1'' (to_ascii_lowercase sample_boot_id) 7 9 = Inr sample_subject \<and>
   (sample_subject = sample_subject \<or> (\<exists>u v :: u8 list. u \<noteq> v \<and> id u = id v))"
  using subject_id_collision [OF new_sample_subject refl] new_sample_subject by simp

end
