(* ===== verification/Evidence.thy ===== *)
theory Evidence
  imports Occurrence Runtime_Subject
begin

text \<open>
  Evidence records, batches and their projections (\<open>jalki-evidence/src/evidence.rs\<close>).
  The lemmas show that the Plane-A projection always carries the producer and probe
  metadata, that the Plane-B projection is neutral and only emits bound or agent records
  and accounts for every record it drops, and that the batch window and the byte estimate
  are what the comments promise.
\<close>

section \<open>Metadata\<close>

definition schema_version :: string where
  "schema_version = ''1''"

datatype hook_kind = Fentry | Fexit | Tracepoint | Lsm

fun hook_kind_str :: "hook_kind \<Rightarrow> string" where
  "hook_kind_str Fentry = ''fentry''"
| "hook_kind_str Fexit = ''fexit''"
| "hook_kind_str Tracepoint = ''tracepoint''"
| "hook_kind_str Lsm = ''lsm''"

record producer_metadata =
  pm_producer :: string
  pm_producer_version :: string
  pm_cluster :: string
  pm_node_id :: string
  pm_kernel_release :: string
  pm_node_identity :: "string option"
  pm_boot_id :: "string option"

text \<open>\<open>version\<close> is \<open>CARGO_PKG_VERSION\<close>, fixed when the crate is built.\<close>

definition new_producer :: "string \<Rightarrow> string \<Rightarrow> string \<Rightarrow> string \<Rightarrow> producer_metadata" where
  "new_producer version cluster node_id kernel_release =
     \<lparr>pm_producer = ''jalki'', pm_producer_version = version, pm_cluster = cluster,
      pm_node_id = node_id, pm_kernel_release = kernel_release, pm_node_identity = None,
      pm_boot_id = None\<rparr>"

record probe_metadata =
  pr_probe_id :: string
  pr_probe_version :: string
  pr_probe_family :: string
  pr_hook_kind :: hook_kind
  pr_kernel_function :: string

section \<open>Runtime bindings\<close>

datatype binding_provenance = Observed | DerivedFromCache

fun provenance_str :: "binding_provenance \<Rightarrow> string" where
  "provenance_str Observed = ''observed''"
| "provenance_str DerivedFromCache = ''derived''"

datatype unbound_reason = HostProcess | CacheMiss | NoCgroup | UnknownReason

fun unbound_reason_str :: "unbound_reason \<Rightarrow> string" where
  "unbound_reason_str HostProcess = ''host_process''"
| "unbound_reason_str CacheMiss = ''cache_miss''"
| "unbound_reason_str NoCgroup = ''no_cgroup''"
| "unbound_reason_str UnknownReason = ''unknown''"

record bound_fields =
  bf_container_id :: string
  bf_pod_uid :: "string option"
  bf_pod_name :: "string option"
  bf_namespace :: "string option"
  bf_service_account :: "string option"
  bf_owner_kind :: "string option"
  bf_owner_name :: "string option"
  bf_owner_uid :: "string option"
  bf_provenance :: binding_provenance

datatype runtime_binding = Bound bound_fields | Unbound unbound_reason

text \<open>\<open>opt.filter(|v| !v.is_empty())\<close>.\<close>

definition non_empty :: "string option \<Rightarrow> string option" where
  "non_empty v = (case v of Some [] \<Rightarrow> None | _ \<Rightarrow> v)"

fun strong_binding :: "runtime_binding \<Rightarrow> bool" where
  "strong_binding (Bound b) = (bf_container_id b \<noteq> [] \<or> non_empty (bf_pod_uid b) \<noteq> None)"
| "strong_binding (Unbound reason) = False"

section \<open>Records and their class\<close>

record evidence_record =
  observed_at_ns :: u64
  er_pid :: u32
  er_cgroup_id :: u64
  er_probe :: probe_metadata
  er_occurrence :: occurrence
  er_binding :: "runtime_binding option"

datatype evidence_class = Reliability | Attribution

fun class_rank :: "evidence_class \<Rightarrow> nat" where
  "class_rank Reliability = 0"
| "class_rank Attribution = 1"

lemma class_rank_inject: "class_rank a = class_rank b \<longleftrightarrow> a = b"
  by (cases a; cases b) auto

text \<open>The derived order, \<open>Reliability < Attribution\<close>, which the shed policy relies on.\<close>

instantiation evidence_class :: linorder
begin

definition less_eq_evidence_class :: "evidence_class \<Rightarrow> evidence_class \<Rightarrow> bool" where
  "less_eq_evidence_class a b = (class_rank a \<le> class_rank b)"

definition less_evidence_class :: "evidence_class \<Rightarrow> evidence_class \<Rightarrow> bool" where
  "less_evidence_class a b = (class_rank a < class_rank b)"

instance
  by standard (auto simp: less_eq_evidence_class_def less_evidence_class_def class_rank_inject)

end

lemma evidence_class_not [simp]:
  "c \<noteq> Reliability \<longleftrightarrow> c = Attribution" "c \<noteq> Attribution \<longleftrightarrow> c = Reliability"
  by (cases c; simp)+

definition class_of :: "string \<Rightarrow> evidence_class" where
  "class_of t =
     (if t = ''kernel.tcp.close'' \<or> t = ''kernel.tcp.retransmit'' then Reliability
      else Attribution)"

fun class_str :: "evidence_class \<Rightarrow> string" where
  "class_str Reliability = ''reliability''"
| "class_str Attribution = ''attribution''"

definition record_class :: "evidence_record \<Rightarrow> evidence_class" where
  "record_class r = class_of (occurrence_type (er_occurrence r))"

definition with_runtime_binding :: "runtime_binding \<Rightarrow> evidence_record \<Rightarrow> evidence_record" where
  "with_runtime_binding b r = r\<lparr>er_binding := Some b\<rparr>"

definition bound_namespace :: "evidence_record \<Rightarrow> string option" where
  "bound_namespace r =
     (case er_binding r of Some (Bound b) \<Rightarrow> bf_namespace b | _ \<Rightarrow> None)"

definition is_agent_record :: "evidence_record \<Rightarrow> bool" where
  "is_agent_record r = starts_with (occurrence_type (er_occurrence r)) ''jalki.agent.''"

definition plane_b_drop_reason :: "evidence_record \<Rightarrow> unbound_reason option" where
  "plane_b_drop_reason r =
     (if is_agent_record r then None
      else (case er_binding r of
              Some b \<Rightarrow>
                if strong_binding b then None
                else (case b of Unbound reason \<Rightarrow> Some reason | Bound _ \<Rightarrow> Some UnknownReason)
            | None \<Rightarrow> Some UnknownReason))"

lemma plane_b_drop_reason_None:
  "plane_b_drop_reason r = None \<longleftrightarrow>
   is_agent_record r \<or> (\<exists>b. er_binding r = Some (Bound b) \<and> strong_binding (Bound b))"
  by (auto simp: plane_b_drop_reason_def split: option.splits runtime_binding.splits)

section \<open>Folding the binding and the subject into the occurrence\<close>

definition push_unique :: "string \<Rightarrow> string list \<Rightarrow> string list" where
  "push_unique v vs = (if v \<in> set vs then vs else vs @ [v])"

definition push_correlation_key :: "string \<Rightarrow> occurrence \<Rightarrow> occurrence" where
  "push_correlation_key v occ = occ\<lparr>correlation_keys := push_unique v (correlation_keys occ)\<rparr>"

text \<open>One \<open>if let Some(v) = field.filter(non-empty)\<close> of \<open>apply_runtime_binding\<close>.\<close>

definition when_some :: "string option \<Rightarrow> (string \<Rightarrow> occurrence \<Rightarrow> occurrence) \<Rightarrow>
    occurrence \<Rightarrow> occurrence" where
  "when_some v f occ = (case non_empty v of None \<Rightarrow> occ | Some x \<Rightarrow> f x occ)"

definition apply_bound :: "bound_fields \<Rightarrow> occurrence \<Rightarrow> occurrence" where
  "apply_bound b occ =
     (let occ = (if bf_container_id b \<noteq> []
                 then push_correlation_key (''k8s_container_id:'' @ bf_container_id b)
                        (insert_label ''k8s_container_id'' (bf_container_id b) occ)
                 else occ);
          occ = when_some (bf_pod_uid b)
                  (\<lambda>v. push_correlation_key (''k8s_pod_uid:'' @ v) \<circ> insert_label ''k8s_pod_uid'' v) occ;
          occ = when_some (bf_pod_name b) (insert_label ''k8s_pod_name'') occ;
          occ = when_some (bf_namespace b)
                  (\<lambda>v. push_correlation_key (''k8s_namespace:'' @ v) \<circ>
                       insert_label ''k8s_namespace'' v \<circ>
                       (\<lambda>occ. occ\<lparr>occ_namespace := Some v\<rparr>)) occ;
          occ = when_some (bf_service_account b) (insert_label ''k8s_service_account'') occ;
          occ = when_some (bf_owner_kind b) (insert_label ''k8s_owner_kind'') occ;
          occ = when_some (bf_owner_name b) (insert_label ''k8s_owner_name'') occ;
          occ = when_some (bf_owner_uid b)
                  (\<lambda>v. push_correlation_key (''k8s_owner_uid:'' @ v) \<circ>
                       insert_label ''k8s_owner_uid'' v) occ
      in insert_label ''evidence_level'' (provenance_str (bf_provenance b)) occ)"

definition apply_runtime_binding :: "runtime_binding option \<Rightarrow> occurrence \<Rightarrow> occurrence" where
  "apply_runtime_binding b occ =
     (case b of
        Some (Bound f) \<Rightarrow> apply_bound f occ
      | Some (Unbound reason) \<Rightarrow>
          insert_label ''unbound_reason'' (unbound_reason_str reason)
            (insert_label ''runtime_binding'' ''unbound'' occ)
      | None \<Rightarrow> occ)"

definition subject_of_labels ::
  "(u8 list \<Rightarrow> u8 list) \<Rightarrow> producer_metadata \<Rightarrow> occurrence \<Rightarrow> runtime_subject option" where
  "subject_of_labels sha256 producer occ =
     (if label occ ''runtime_identity_method'' \<noteq> Some identity_method_v1 then None
      else (case pm_node_identity producer of None \<Rightarrow> None
      | Some node_identity \<Rightarrow> (case pm_boot_id producer of None \<Rightarrow> None
      | Some boot_id \<Rightarrow>
          (case Option.bind (label occ ''host_tgid'') (parse_uint u32_max) of None \<Rightarrow> None
      | Some host_tgid \<Rightarrow>
          (case Option.bind (label occ ''leader_start_boottime_ns'') (parse_uint u64_max) of
             None \<Rightarrow> None
      | Some start \<Rightarrow>
          (case new_subject sha256 node_identity boot_id (word_of_nat host_tgid)
                  (word_of_nat start) of
             Inl e \<Rightarrow> None | Inr s \<Rightarrow> Some s))))))"

definition apply_runtime_subject ::
  "(u8 list \<Rightarrow> u8 list) \<Rightarrow> producer_metadata \<Rightarrow> occurrence \<Rightarrow> occurrence" where
  "apply_runtime_subject sha256 producer occ =
     (case subject_of_labels sha256 producer occ of
        None \<Rightarrow> occ
      | Some s \<Rightarrow>
          insert_label ''runtime_canonicalization_version''
            (decimal (unat (rs_canonicalization_version s)))
            (insert_label ''boot_id'' (rs_boot_id s)
              (insert_label ''node_identity'' (rs_node_identity s)
                (insert_label ''runtime_subject_id'' (runtime_subject_id s) occ))))"

definition metadata_labels ::
  "producer_metadata \<Rightarrow> evidence_record \<Rightarrow> (string \<times> string) list" where
  "metadata_labels producer r =
     [(''producer'', pm_producer producer),
      (''producer_version'', pm_producer_version producer),
      (''cluster_id'', pm_cluster producer),
      (''node_id'', pm_node_id producer),
      (''kernel_release'', pm_kernel_release producer),
      (''probe_id'', pr_probe_id (er_probe r)),
      (''probe_version'', pr_probe_version (er_probe r)),
      (''probe_family'', pr_probe_family (er_probe r)),
      (''hook_kind'', hook_kind_str (pr_hook_kind (er_probe r))),
      (''kernel_function'', pr_kernel_function (er_probe r)),
      (''observed_at_ns'', decimal (unat (observed_at_ns r))),
      (''schema_version'', schema_version)]"

definition insert_labels :: "(string \<times> string) list \<Rightarrow> occurrence \<Rightarrow> occurrence" where
  "insert_labels kvs occ = fold (\<lambda>(k, v). insert_label k v) kvs occ"

definition into_occurrence_with_metadata ::
  "(u8 list \<Rightarrow> u8 list) \<Rightarrow> producer_metadata \<Rightarrow> evidence_record \<Rightarrow> occurrence" where
  "into_occurrence_with_metadata sha256 producer r =
     (let occ = er_occurrence r;
          occ = apply_runtime_binding (er_binding r) occ;
          occ = apply_runtime_subject sha256 producer occ
      in insert_labels (metadata_labels producer r) occ)"

definition network_ref :: "network_event_data \<Rightarrow> string" where
  "network_ref n = nd_dst_ip n @ '':'' @ decimal (unat (nd_dst_port n))"

definition neutralize_for_plane_b :: "occurrence \<Rightarrow> occurrence" where
  "neutralize_for_plane_b occ =
     (let occ = occ\<lparr>occ_severity := Info, occ_error := None, occ_reasoning := None,
                    occ_history := None\<rparr>
      in (case network_data occ of
            None \<Rightarrow> occ
          | Some n \<Rightarrow> insert_label ''resource_ref_id'' (network_ref n)
                        (insert_label ''resource_ref_kind'' ''network_endpoint'' occ)))"

definition into_plane_b_occurrence ::
  "(u8 list \<Rightarrow> u8 list) \<Rightarrow> producer_metadata \<Rightarrow> evidence_record \<Rightarrow> occurrence option" where
  "into_plane_b_occurrence sha256 producer r =
     (case plane_b_drop_reason r of
        Some _ \<Rightarrow> None
      | None \<Rightarrow> Some (neutralize_for_plane_b (into_occurrence_with_metadata sha256 producer r)))"

section \<open>Batches\<close>

record evidence_batch =
  batch_id :: string
  eb_producer :: producer_metadata
  observed_at_min :: u64
  observed_at_max :: u64
  eb_records :: "evidence_record list"

fun window_step :: "u64 \<Rightarrow> (u64 \<times> u64) option \<Rightarrow> (u64 \<times> u64) option" where
  "window_step ts None = Some (ts, ts)"
| "window_step ts (Some (lo, hi)) = Some (min lo ts, max hi ts)"

definition window :: "u64 list \<Rightarrow> (u64 \<times> u64) option" where
  "window ts = fold window_step ts None"

definition new_batch :: "string \<Rightarrow> producer_metadata \<Rightarrow> evidence_record list \<Rightarrow> evidence_batch" where
  "new_batch ident producer records =
     (case (case window (map observed_at_ns records) of None \<Rightarrow> (0, 0) | Some w \<Rightarrow> w) of
        (lo, hi) \<Rightarrow>
          \<lparr>batch_id = ident, eb_producer = producer, observed_at_min = lo,
           observed_at_max = hi, eb_records = records\<rparr>)"

definition batch_len :: "evidence_batch \<Rightarrow> nat" where
  "batch_len b = length (eb_records b)"

text \<open>
  What the byte estimate takes from the allocator and from \<open>serde_json\<close>: the capacity of
  a string and the length of an occurrence's JSON (\<open>None\<close> when serialization fails).
\<close>

record heap_sizes =
  capacity :: "string \<Rightarrow> nat"
  json_len :: "occurrence \<Rightarrow> nat option"

definition capacity_opt :: "heap_sizes \<Rightarrow> string option \<Rightarrow> nat" where
  "capacity_opt hs v = (case v of None \<Rightarrow> 0 | Some s \<Rightarrow> capacity hs s)"

definition producer_metadata_bytes :: "heap_sizes \<Rightarrow> producer_metadata \<Rightarrow> nat" where
  "producer_metadata_bytes hs p =
     (let fixed = sum_list (map (capacity hs)
            [pm_producer p, pm_producer_version p, pm_cluster p, pm_node_id p,
             pm_kernel_release p])
      in sat_add (sat_add fixed (capacity_opt hs (pm_node_identity p)))
                 (capacity_opt hs (pm_boot_id p)))"

definition record_metadata_bytes :: "heap_sizes \<Rightarrow> evidence_record \<Rightarrow> nat" where
  "record_metadata_bytes hs r =
     (let probe = sum_list (map (capacity hs)
            [pr_probe_id (er_probe r), pr_probe_version (er_probe r),
             pr_probe_family (er_probe r), pr_kernel_function (er_probe r)]);
          bind = (case er_binding r of
            Some (Bound b) \<Rightarrow>
              capacity hs (bf_container_id b) + capacity_opt hs (bf_pod_uid b) +
              capacity_opt hs (bf_pod_name b) + capacity_opt hs (bf_namespace b) +
              capacity_opt hs (bf_service_account b)
          | _ \<Rightarrow> 0)
      in sat_add probe bind)"

definition per_record_overhead :: nat where "per_record_overhead = 256"
definition fallback_occurrence_bytes :: nat where "fallback_occurrence_bytes = 1024"

definition record_bytes :: "heap_sizes \<Rightarrow> evidence_record \<Rightarrow> nat" where
  "record_bytes hs r =
     (let occ = (case json_len hs (er_occurrence r) of None \<Rightarrow> fallback_occurrence_bytes
                 | Some n \<Rightarrow> n)
      in sat_add (sat_add occ (record_metadata_bytes hs r)) per_record_overhead)"

definition approx_bytes :: "heap_sizes \<Rightarrow> evidence_batch \<Rightarrow> nat" where
  "approx_bytes hs b =
     fold (\<lambda>n sum. sat_add sum n) (map (record_bytes hs) (eb_records b))
       (sat_add 128 (producer_metadata_bytes hs (eb_producer b)))"

definition into_occurrences :: "(u8 list \<Rightarrow> u8 list) \<Rightarrow> evidence_batch \<Rightarrow> occurrence list" where
  "into_occurrences sha256 b =
     map (into_occurrence_with_metadata sha256 (eb_producer b)) (eb_records b)"

record plane_b_projection =
  occurrences :: "occurrence list"
  dropped_unbound :: "unbound_reason \<rightharpoonup> nat"

definition count_reason :: "(unbound_reason \<rightharpoonup> nat) \<Rightarrow> unbound_reason \<Rightarrow> nat" where
  "count_reason m r = (case m r of None \<Rightarrow> 0 | Some n \<Rightarrow> n)"

text \<open>\<open>*map.entry(reason).or_insert(0) += 1\<close>.\<close>

definition bump_reason :: "unbound_reason \<Rightarrow> (unbound_reason \<rightharpoonup> nat) \<Rightarrow> (unbound_reason \<rightharpoonup> nat)" where
  "bump_reason reason m = m(reason \<mapsto> count_reason m reason + 1)"

definition project_record ::
  "(u8 list \<Rightarrow> u8 list) \<Rightarrow> producer_metadata \<Rightarrow> evidence_record \<Rightarrow> plane_b_projection \<Rightarrow>
   plane_b_projection" where
  "project_record sha256 producer r acc =
     (case plane_b_drop_reason r of
        Some reason \<Rightarrow>
          acc\<lparr>dropped_unbound := bump_reason reason (dropped_unbound acc)\<rparr>
      | None \<Rightarrow>
          (case into_plane_b_occurrence sha256 producer r of
             Some occ \<Rightarrow> acc\<lparr>occurrences := occurrences acc @ [occ]\<rparr>
           | None \<Rightarrow> acc))"

definition into_plane_b_projection ::
  "(u8 list \<Rightarrow> u8 list) \<Rightarrow> evidence_batch \<Rightarrow> plane_b_projection" where
  "into_plane_b_projection sha256 b =
     fold (project_record sha256 (eb_producer b)) (eb_records b)
       \<lparr>occurrences = [], dropped_unbound = Map.empty\<rparr>"

definition into_plane_b_occurrences ::
  "(u8 list \<Rightarrow> u8 list) \<Rightarrow> evidence_batch \<Rightarrow> occurrence list" where
  "into_plane_b_occurrences sha256 b = occurrences (into_plane_b_projection sha256 b)"

section \<open>Labels of the projections\<close>

lemma label_push_correlation_key [simp]: "label (push_correlation_key v occ) = label occ"
  by (simp add: push_correlation_key_def label_def)

lemma label_namespace [simp]: "label (occ\<lparr>occ_namespace := v\<rparr>) = label occ"
  by (simp add: label_def)

lemma label_insert_fun: "label (insert_label k v occ) = (label occ)(k \<mapsto> v)"
  by (rule ext) simp

text \<open>The labels a binding contributes, later ones overriding earlier ones.\<close>

definition opt_label :: "string \<Rightarrow> string option \<Rightarrow> (string \<times> string) list" where
  "opt_label k v = (case non_empty v of None \<Rightarrow> [] | Some x \<Rightarrow> [(k, x)])"

definition binding_labels :: "runtime_binding option \<Rightarrow> (string \<times> string) list" where
  "binding_labels b =
     (case b of
        Some (Bound f) \<Rightarrow>
          opt_label ''k8s_container_id'' (Some (bf_container_id f)) @
          opt_label ''k8s_pod_uid'' (bf_pod_uid f) @ opt_label ''k8s_pod_name'' (bf_pod_name f) @
          opt_label ''k8s_namespace'' (bf_namespace f) @
          opt_label ''k8s_service_account'' (bf_service_account f) @
          opt_label ''k8s_owner_kind'' (bf_owner_kind f) @
          opt_label ''k8s_owner_name'' (bf_owner_name f) @
          opt_label ''k8s_owner_uid'' (bf_owner_uid f) @
          [(''evidence_level'', provenance_str (bf_provenance f))]
      | Some (Unbound reason) \<Rightarrow>
          [(''runtime_binding'', ''unbound''), (''unbound_reason'', unbound_reason_str reason)]
      | None \<Rightarrow> [])"

definition subject_labels :: "runtime_subject option \<Rightarrow> (string \<times> string) list" where
  "subject_labels s =
     (case s of
        None \<Rightarrow> []
      | Some s \<Rightarrow>
          [(''runtime_subject_id'', runtime_subject_id s),
           (''node_identity'', rs_node_identity s), (''boot_id'', rs_boot_id s),
           (''runtime_canonicalization_version'',
            decimal (unat (rs_canonicalization_version s)))])"

definition overlay :: "(string \<times> string) list \<Rightarrow> (string \<rightharpoonup> string) \<Rightarrow> (string \<rightharpoonup> string)" where
  "overlay kvs m = fold (\<lambda>(k, v) m. m(k \<mapsto> v)) kvs m"

lemma overlay_simps [simp]:
  "overlay [] m = m"
  "overlay ((k, v) # kvs) m = overlay kvs (m(k \<mapsto> v))"
  "overlay (xs @ ys) m = overlay ys (overlay xs m)"
  by (simp_all add: overlay_def)

lemma overlay_map_add: "overlay kvs m = m ++ map_of (rev kvs)"
proof (induction kvs arbitrary: m)
  case Nil
  then show ?case by simp
next
  case (Cons kv kvs)
  then show ?case by (cases kv) (auto simp: map_add_def fun_eq_iff map_of_append split: option.splits)
qed

lemma overlay_other: "k \<notin> fst ` set kvs \<Longrightarrow> overlay kvs m k = m k"
  by (auto simp: overlay_map_add map_add_def map_of_eq_None_iff split: option.splits
      dest!: map_of_SomeD intro: rev_image_eqI)

lemma label_insert_labels: "label (insert_labels kvs occ) = overlay kvs (label occ)"
  unfolding insert_labels_def
  by (induction kvs arbitrary: occ) (auto simp: label_insert_fun)

lemma label_when_some:
  "(\<And>v occ. label (f v occ) = (label occ)(k \<mapsto> v)) \<Longrightarrow>
   label (when_some v f occ) = overlay (opt_label k v) (label occ)"
  by (auto simp: when_some_def opt_label_def split: option.splits)

lemma label_apply_bound:
  "label (apply_bound f occ) = overlay (binding_labels (Some (Bound f))) (label occ)"
proof -
  have container: "label (if bf_container_id f \<noteq> []
       then push_correlation_key (''k8s_container_id:'' @ bf_container_id f)
              (insert_label ''k8s_container_id'' (bf_container_id f) occ) else occ) =
     overlay (opt_label ''k8s_container_id'' (Some (bf_container_id f))) (label occ)"
    by (auto simp: opt_label_def non_empty_def label_insert_fun split: list.splits)
  show ?thesis
    unfolding apply_bound_def Let_def label_insert_fun
    by (simp add: label_when_some label_insert_fun container binding_labels_def
        del: label_insert)
qed

lemma label_apply_runtime_binding:
  "label (apply_runtime_binding b occ) = overlay (binding_labels b) (label occ)"
  by (auto simp: apply_runtime_binding_def label_apply_bound label_insert_fun
      binding_labels_def split: option.splits runtime_binding.splits)

lemma label_apply_runtime_subject:
  "label (apply_runtime_subject sha256 producer occ) =
   overlay (subject_labels (subject_of_labels sha256 producer occ)) (label occ)"
  by (auto simp: apply_runtime_subject_def subject_labels_def label_insert_fun
      split: option.splits)

lemmas label_projection =
  label_insert_labels label_apply_runtime_binding label_apply_runtime_subject

lemma insert_labels_fields [simp]:
  "occurrence_type (insert_labels kvs occ) = occurrence_type occ"
  "occ_source (insert_labels kvs occ) = occ_source occ"
  "occ_id (insert_labels kvs occ) = occ_id occ"
  "occ_cluster (insert_labels kvs occ) = occ_cluster occ"
  "network_data (insert_labels kvs occ) = network_data occ"
  "correlation_keys (insert_labels kvs occ) = correlation_keys occ"
  by (induction kvs arbitrary: occ) (auto simp: insert_labels_def)

lemma labels_ok_insert_labels [simp]: "labels_ok occ \<Longrightarrow> labels_ok (insert_labels kvs occ)"
  by (induction kvs arbitrary: occ) (auto simp: insert_labels_def)

text \<open>The fields of the occurrence that no projection touches.\<close>

definition same_identity :: "occurrence \<Rightarrow> occurrence \<Rightarrow> bool" where
  "same_identity a b =
     (occ_id a = occ_id b \<and> occurrence_type a = occurrence_type b \<and>
      occ_source a = occ_source b \<and> occ_cluster a = occ_cluster b \<and>
      network_data a = network_data b)"

lemma same_identity_refl [simp]: "same_identity a a"
  by (simp add: same_identity_def)

lemma same_identity_insert [simp]: "same_identity (insert_label k v a) b = same_identity a b"
  by (simp add: same_identity_def)

lemma same_identity_push [simp]: "same_identity (push_correlation_key v a) b = same_identity a b"
  by (simp add: same_identity_def push_correlation_key_def)

lemma same_identity_namespace [simp]:
  "same_identity (a\<lparr>occ_namespace := v\<rparr>) b = same_identity a b"
  by (simp add: same_identity_def)

lemma same_identity_insert_labels [simp]:
  "same_identity (insert_labels kvs a) b = same_identity a b"
  by (simp add: same_identity_def)

lemma same_identity_when_some:
  "(\<And>v occ. same_identity (f v occ) b = same_identity occ b) \<Longrightarrow>
   same_identity (when_some v f a) b = same_identity a b"
  by (auto simp: when_some_def split: option.splits)

lemma same_identity_apply_binding [simp]:
  "same_identity (apply_runtime_binding r a) b = same_identity a b"
  by (auto simp: apply_runtime_binding_def apply_bound_def Let_def same_identity_when_some
      split: option.splits runtime_binding.splits)

lemma same_identity_apply_subject [simp]:
  "same_identity (apply_runtime_subject sha256 p a) b = same_identity a b"
  by (auto simp: apply_runtime_subject_def split: option.splits)

lemma same_identity_metadata:
  "same_identity (into_occurrence_with_metadata sha256 p r) (er_occurrence r)"
  by (simp add: into_occurrence_with_metadata_def Let_def)

lemma push_unique_distinct [simp]: "distinct vs \<Longrightarrow> distinct (push_unique v vs)"
  by (simp add: push_unique_def)

lemma set_push_unique [simp]: "set (push_unique v vs) = insert v (set vs)"
  by (auto simp: push_unique_def)

section \<open>Windows and sizes\<close>

lemma window_append: "window (ts @ [t]) = window_step t (window ts)"
  by (simp add: window_def)

lemma window_eq: "window ts = (if ts = [] then None else Some (Min (set ts), Max (set ts)))"
proof (induction ts rule: rev_induct)
  case Nil
  then show ?case by (simp add: window_def)
next
  case (snoc t ts)
  then show ?case by (auto simp: window_append min.commute max.commute)
qed

lemma new_batch_fields [simp]:
  "eb_records (new_batch i p rs) = rs"
  "eb_producer (new_batch i p rs) = p"
  "batch_id (new_batch i p rs) = i"
  by (auto simp: new_batch_def split: option.splits prod.splits)

lemma new_batch_window:
  "rs \<noteq> [] \<Longrightarrow>
   observed_at_min (new_batch i p rs) = Min (observed_at_ns ` set rs) \<and>
   observed_at_max (new_batch i p rs) = Max (observed_at_ns ` set rs)"
  by (auto simp: new_batch_def window_eq)

lemma new_batch_window_empty:
  "observed_at_min (new_batch i p []) = 0 \<and> observed_at_max (new_batch i p []) = 0"
  by (simp add: new_batch_def window_def)

lemma fold_sat_add:
  "a \<le> usize_max \<Longrightarrow>
   fold (\<lambda>n sum. sat_add sum n) ns a = min (a + sum_list ns) usize_max"
proof (induction ns arbitrary: a)
  case Nil
  then show ?case by simp
next
  case (Cons n ns)
  show ?case
    using Cons.IH [of "sat_add a n"] by (auto simp: sat_add_def)
qed

lemma record_bytes_le [simp]: "record_bytes hs r \<le> usize_max"
  by (simp add: record_bytes_def Let_def)

lemma record_bytes_ge: "per_record_overhead \<le> record_bytes hs r"
  by (simp add: record_bytes_def Let_def sat_add_def per_record_overhead_def usize_max_def)

lemma approx_bytes_eq:
  "approx_bytes hs b =
   min (sat_add 128 (producer_metadata_bytes hs (eb_producer b)) +
        sum_list (map (record_bytes hs) (eb_records b))) usize_max"
  by (simp add: approx_bytes_def fold_sat_add)

lemma approx_bytes_le [simp]: "approx_bytes hs b \<le> usize_max"
  by (simp add: approx_bytes_eq)

lemma approx_bytes_pos [simp]: "0 < approx_bytes hs b"
  by (simp add: approx_bytes_eq sat_add_def usize_max_def)

section \<open>The Plane-B projection\<close>

lemma project_record_None:
  "plane_b_drop_reason r = None \<Longrightarrow>
   project_record sha256 p r acc =
     acc\<lparr>occurrences := occurrences acc @
           [neutralize_for_plane_b (into_occurrence_with_metadata sha256 p r)]\<rparr>"
  by (simp add: project_record_def into_plane_b_occurrence_def)

lemma project_record_Some:
  "plane_b_drop_reason r = Some reason \<Longrightarrow>
   project_record sha256 p r acc =
     acc\<lparr>dropped_unbound := bump_reason reason (dropped_unbound acc)\<rparr>"
  by (simp add: project_record_def)

lemma count_reason_bump [simp]:
  "count_reason (bump_reason r m) r' = (if r' = r then count_reason m r + 1 else count_reason m r')"
  by (simp add: count_reason_def bump_reason_def)

lemma fold_project_record:
  "occurrences (fold (project_record sha256 p) rs acc) =
     occurrences acc @
     map (\<lambda>r. neutralize_for_plane_b (into_occurrence_with_metadata sha256 p r))
       (filter (\<lambda>r. plane_b_drop_reason r = None) rs) \<and>
   (\<forall>reason. count_reason (dropped_unbound (fold (project_record sha256 p) rs acc)) reason =
     count_reason (dropped_unbound acc) reason +
     length (filter (\<lambda>r. plane_b_drop_reason r = Some reason) rs))"
proof (induction rs arbitrary: acc)
  case Nil
  then show ?case by simp
next
  case (Cons r rs)
  show ?case
  proof (cases "plane_b_drop_reason r")
    case None
    then show ?thesis
      using Cons.IH [of "project_record sha256 p r acc"] by (simp add: project_record_None)
  next
    case (Some reason)
    then show ?thesis
      using Cons.IH [of "project_record sha256 p r acc"] by (simp add: project_record_Some)
  qed
qed

lemma unbound_reason_cases_length:
  "length rs =
     length (filter (\<lambda>r. f r = None) rs) + length (filter (\<lambda>r. f r = Some HostProcess) rs) +
     length (filter (\<lambda>r. f r = Some CacheMiss) rs) +
     length (filter (\<lambda>r. f r = Some NoCgroup) rs) +
     length (filter (\<lambda>r. f r = Some UnknownReason) rs)"
proof (induction rs)
  case Nil
  then show ?case by simp
next
  case (Cons r rs)
  then show ?case
    by (cases "f r"; cases "the (f r)") auto
qed

definition total_dropped :: "plane_b_projection \<Rightarrow> nat" where
  "total_dropped pr =
     count_reason (dropped_unbound pr) HostProcess + count_reason (dropped_unbound pr) CacheMiss +
     count_reason (dropped_unbound pr) NoCgroup + count_reason (dropped_unbound pr) UnknownReason"

lemma projection_total:
  "length (occurrences (into_plane_b_projection sha256 b)) +
   total_dropped (into_plane_b_projection sha256 b) = length (eb_records b)"
proof -
  let ?e = "\<lparr>occurrences = [], dropped_unbound = Map.empty\<rparr> :: plane_b_projection"
  show ?thesis
    using fold_project_record [of sha256 "eb_producer b" "eb_records b" ?e]
    by (simp add: total_dropped_def into_plane_b_projection_def count_reason_def
        unbound_reason_cases_length [of "eb_records b" plane_b_drop_reason])
qed

lemma neutralize_fields:
  "occ_severity (neutralize_for_plane_b occ) = Info \<and>
   occ_error (neutralize_for_plane_b occ) = None \<and>
   occ_reasoning (neutralize_for_plane_b occ) = None \<and>
   occ_history (neutralize_for_plane_b occ) = None"
  by (auto simp: neutralize_for_plane_b_def Let_def split: option.splits)

lemma neutralize_identity: "same_identity (neutralize_for_plane_b a) b = same_identity a b"
  by (auto simp: neutralize_for_plane_b_def Let_def same_identity_def split: option.splits)

lemma label_neutralize_network:
  "network_data occ = Some n \<Longrightarrow>
   label (neutralize_for_plane_b occ) ''resource_ref_id'' = Some (network_ref n)"
  by (simp add: neutralize_for_plane_b_def Let_def)

section \<open>Properties\<close>

text \<open>
  the Plane-A projection keeps the occurrence's identity and builds its labels in three
  layers over the record's own: the binding's, the runtime subject's (computed from the
  labels as they are after the binding), and last the twelve producer, probe and time
  labels, so no record can forge or drop one of those.
\<close>

theorem metadata_projection_labels:
  "let occ = apply_runtime_binding (er_binding r) (er_occurrence r);
       out = into_occurrence_with_metadata sha256 producer r
   in label out =
        ((label (er_occurrence r) ++ map_of (rev (binding_labels (er_binding r)))) ++
         map_of (subject_labels (subject_of_labels sha256 producer occ))) ++
        map_of (metadata_labels producer r) \<and>
      same_identity out (er_occurrence r)"
proof -
  have rev: "map_of (rev kvs) = map_of kvs" if "distinct (map fst kvs)" for kvs :: "(string \<times> string) list"
    using that by (intro ext) (metis distinct_rev map_of_eq_Some_iff not_Some_eq rev_map set_rev)
  have subj: "map_of (rev (subject_labels s)) = map_of (subject_labels s)" for s
    by (rule rev) (auto simp: subject_labels_def split: option.splits)
  have meta: "map_of (rev (metadata_labels producer r)) = map_of (metadata_labels producer r)"
    by (rule rev) (simp add: metadata_labels_def)
  show ?thesis
    unfolding Let_def
    by (simp add: same_identity_metadata)
      (simp add: into_occurrence_with_metadata_def Let_def label_projection overlay_map_add
        subj meta)
qed

text \<open>
  the Plane-B projection accounts for every record: the occurrences are the neutralised
  projections of exactly the records that need no binding or have a strong one, in order,
  each drop counter is the number of records refused for that reason, and together they
  make up the batch.
\<close>

theorem plane_b_projection_exact:
  "occurrences (into_plane_b_projection sha256 b) =
     map (\<lambda>r. neutralize_for_plane_b (into_occurrence_with_metadata sha256 (eb_producer b) r))
       (filter (\<lambda>r. is_agent_record r \<or>
                     (\<exists>f. er_binding r = Some (Bound f) \<and> strong_binding (Bound f)))
         (eb_records b)) \<and>
   (\<forall>reason. count_reason (dropped_unbound (into_plane_b_projection sha256 b)) reason =
     length (filter (\<lambda>r. plane_b_drop_reason r = Some reason) (eb_records b))) \<and>
   length (occurrences (into_plane_b_projection sha256 b)) +
     total_dropped (into_plane_b_projection sha256 b) = length (eb_records b)"
proof -
  let ?e = "\<lparr>occurrences = [], dropped_unbound = Map.empty\<rparr> :: plane_b_projection"
  show ?thesis
    using fold_project_record [of sha256 "eb_producer b" "eb_records b" ?e]
      projection_total [of sha256 b]
    by (simp add: into_plane_b_projection_def plane_b_drop_reason_None count_reason_def)
qed

text \<open>
  nothing that Plane B emits carries local interpretation: whatever the probe put into
  the record, the severity is \<open>Info\<close> and the error, reasoning and history blocks are gone,
  and the identity of the occurrence is that of one of the batch's records.
\<close>

theorem plane_b_neutral:
  "set (into_plane_b_occurrences sha256 b) \<subseteq>
     {occ. occ_severity occ = Info \<and> occ_error occ = None \<and> occ_reasoning occ = None \<and>
           occ_history occ = None \<and>
           (\<exists>r \<in> set (eb_records b). plane_b_drop_reason r = None \<and>
              same_identity occ (er_occurrence r))}"
proof -
  let ?e = "\<lparr>occurrences = [], dropped_unbound = Map.empty\<rparr> :: plane_b_projection"
  show ?thesis
    using fold_project_record [of sha256 "eb_producer b" "eb_records b" ?e]
    by (auto simp: into_plane_b_occurrences_def into_plane_b_projection_def neutralize_fields
        neutralize_identity same_identity_metadata)
qed

end
