(* ===== verification/Events.thy ===== *)
theory Events
  imports Text_Format
begin

text \<open>
  Kernel events: the \<open>#[repr(C)]\<close> structs of \<open>jalki-common/src/events.rs\<close> that the eBPF
  programs write and the typed events of \<open>jalki-evidence/src/event.rs\<close> that user space
  decodes from them.  A struct is its list of field types; offsets and size follow the C
  layout rule.  The lemmas give the sizes the tests pin, the round trip of a memory image
  through \<open>read_raw\<close>, and what \<open>from_bytes\<close> accepts.
\<close>

section \<open>C layout\<close>

datatype cty = CU8 | CU16 | CU32 | CU64 | CI32 | CBytes nat

fun csize :: "cty \<Rightarrow> nat" where
  "csize CU8 = 1" | "csize CU16 = 2" | "csize CU32 = 4" | "csize CU64 = 8"
| "csize CI32 = 4" | "csize (CBytes n) = n"

fun calign :: "cty \<Rightarrow> nat" where
  "calign CU8 = 1" | "calign CU16 = 2" | "calign CU32 = 4" | "calign CU64 = 8"
| "calign CI32 = 4" | "calign (CBytes n) = 1"

definition align_up :: "nat \<Rightarrow> nat \<Rightarrow> nat" where
  "align_up a n = (n + a - 1) div a * a"

fun layout_offsets :: "nat \<Rightarrow> cty list \<Rightarrow> nat list" where
  "layout_offsets off [] = []"
| "layout_offsets off (t # ts) =
     (let o' = align_up (calign t) off in o' # layout_offsets (o' + csize t) ts)"

fun layout_end :: "nat \<Rightarrow> cty list \<Rightarrow> nat" where
  "layout_end off [] = off"
| "layout_end off (t # ts) = layout_end (align_up (calign t) off + csize t) ts"

definition struct_align :: "cty list \<Rightarrow> nat" where
  "struct_align ts = foldr max (map calign ts) 1"

definition struct_size :: "cty list \<Rightarrow> nat" where
  "struct_size ts = align_up (struct_align ts) (layout_end 0 ts)"

text \<open>Field values: an integer (as its bit pattern) or a byte array.\<close>

datatype cval = CNum nat | CBuf "u8 list"

fun num :: "cval \<Rightarrow> nat" where
  "num (CNum n) = n" | "num (CBuf b) = 0"

fun buf :: "cval \<Rightarrow> u8 list" where
  "buf (CBuf b) = b" | "buf (CNum n) = []"

fun read_field :: "cty \<Rightarrow> u8 list \<Rightarrow> cval" where
  "read_field (CBytes n) bs = CBuf bs"
| "read_field CU8 bs = CNum (le_nat bs)"
| "read_field CU16 bs = CNum (le_nat bs)"
| "read_field CU32 bs = CNum (le_nat bs)"
| "read_field CU64 bs = CNum (le_nat bs)"
| "read_field CI32 bs = CNum (le_nat bs)"

fun write_field :: "cty \<Rightarrow> cval \<Rightarrow> u8 list" where
  "write_field t (CNum n) = le_bytes (csize t) n"
| "write_field t (CBuf b) = b"

fun field_ok :: "cty \<Rightarrow> cval \<Rightarrow> bool" where
  "field_ok (CBytes n) (CBuf b) = (length b = n)"
| "field_ok (CBytes n) (CNum k) = False"
| "field_ok t (CNum k) = (k < 256 ^ csize t)"
| "field_ok t (CBuf b) = False"

text \<open>\<open>ptr::read_unaligned\<close>: every field at its offset.\<close>

fun read_fields :: "nat \<Rightarrow> cty list \<Rightarrow> u8 list \<Rightarrow> cval list" where
  "read_fields off [] raw = []"
| "read_fields off (t # ts) raw =
     (let o' = align_up (calign t) off
      in read_field t (take (csize t) (drop o' raw)) # read_fields (o' + csize t) ts raw)"

text \<open>The image of a struct in memory, its padding filled with \<open>pad\<close>.\<close>

fun write_fields :: "u8 \<Rightarrow> nat \<Rightarrow> cty list \<Rightarrow> cval list \<Rightarrow> u8 list" where
  "write_fields pad off (t # ts) (v # vs) =
     replicate (align_up (calign t) off - off) pad @ write_field t v @
     write_fields pad (align_up (calign t) off + csize t) ts vs"
| "write_fields pad off _ _ = []"

definition struct_image :: "u8 \<Rightarrow> cty list \<Rightarrow> cval list \<Rightarrow> u8 list" where
  "struct_image pad ts vs =
     write_fields pad 0 ts vs @ replicate (struct_size ts - layout_end 0 ts) pad"

datatype decode_error = TooShort nat nat | InvalidData string

definition read_raw :: "cty list \<Rightarrow> u8 list \<Rightarrow> decode_error + cval list" where
  "read_raw ts raw =
     (if length raw < struct_size ts then Inl (TooShort (struct_size ts) (length raw))
      else Inr (read_fields 0 ts raw))"

section \<open>The round trip of a memory image\<close>

lemma align_up_ge: "0 < a \<Longrightarrow> n \<le> align_up a n"
proof -
  assume a: "0 < a"
  have "n + a - 1 < ((n + a - 1) div a + 1) * a"
    using a by (metis Suc_eq_plus1 dividend_less_div_times add.commute mult_Suc)
  then show ?thesis using a by (simp add: align_up_def)
qed

lemma calign_pos [simp]: "0 < calign t"
  by (cases t) auto

lemma align_up_dvd: "a dvd align_up a n"
  by (simp add: align_up_def)

lemma write_field_ok:
  "field_ok t v \<Longrightarrow> length (write_field t v) = csize t \<and> read_field t (write_field t v) = v"
  by (cases t; cases v) (auto simp: le.dec_enc_exact)

lemma layout_end_ge: "off \<le> layout_end off ts"
proof (induction off ts rule: layout_end.induct)
  case (1 off)
  then show ?case by simp
next
  case (2 off t ts)
  have "off \<le> align_up (calign t) off" by (simp add: align_up_ge)
  with 2 show ?case by simp
qed

lemma length_write_fields:
  "list_all2 field_ok ts vs \<Longrightarrow> length (write_fields pad off ts vs) = layout_end off ts - off"
proof (induction ts arbitrary: off vs)
  case Nil
  then show ?case by simp
next
  case (Cons t ts)
  then obtain v vs' where v: "vs = v # vs'" "field_ok t v" "list_all2 field_ok ts vs'"
    by (auto simp: list_all2_Cons1)
  have "off \<le> align_up (calign t) off" by (simp add: align_up_ge)
  moreover have "align_up (calign t) off + csize t \<le>
      layout_end (align_up (calign t) off + csize t) ts" by (rule layout_end_ge)
  ultimately show ?case
    using v Cons.IH [OF v(3)] write_field_ok [OF v(2)] by simp
qed

lemma read_write_fields:
  "list_all2 field_ok ts vs \<Longrightarrow> length pre = off \<Longrightarrow>
   read_fields off ts (pre @ write_fields pad off ts vs @ rest) = vs"
proof (induction ts arbitrary: off vs pre)
  case Nil
  then show ?case by simp
next
  case (Cons t ts)
  then obtain v vs' where v: "vs = v # vs'" "field_ok t v" "list_all2 field_ok ts vs'"
    by (auto simp: list_all2_Cons1)
  let ?o = "align_up (calign t) off"
  let ?gap = "replicate (?o - off) pad"
  have o: "off \<le> ?o" by (simp add: align_up_ge)
  have len: "length (write_field t v) = csize t" and rd: "read_field t (write_field t v) = v"
    using write_field_ok [OF v(2)] by auto
  let ?pre = "pre @ ?gap @ write_field t v"
  have raw: "pre @ write_fields pad off (t # ts) vs @ rest =
      ?pre @ write_fields pad (?o + csize t) ts vs' @ rest"
    using v(1) by simp
  have "length ?pre = ?o + csize t" using o len Cons.prems(2) by simp
  note IH = Cons.IH [OF v(3) this]
  have "take (csize t) (drop ?o (pre @ write_fields pad off (t # ts) vs @ rest)) = write_field t v"
    unfolding raw using o len Cons.prems(2) by simp
  then show ?case
    using rd IH v(1) unfolding raw by (simp add: Let_def)
qed

lemma align_up_ge1: "n \<le> align_up (struct_align ts) n"
proof (rule align_up_ge)
  show "0 < struct_align ts" unfolding struct_align_def by (induction ts) auto
qed

lemma length_struct_image:
  "list_all2 field_ok ts vs \<Longrightarrow> length (struct_image pad ts vs) = struct_size ts"
  using align_up_ge1 [of "layout_end 0 ts" ts]
  by (simp add: struct_image_def length_write_fields struct_size_def)

lemma read_raw_image:
  assumes "list_all2 field_ok ts vs"
  shows "read_raw ts (struct_image pad ts vs @ rest) = Inr vs"
  using read_write_fields [OF assms, of "[]" 0 pad
      "replicate (struct_size ts - layout_end 0 ts) pad @ rest"]
    length_struct_image [OF assms, of pad]
  by (simp add: read_raw_def struct_image_def)

section \<open>The event structs\<close>

definition tcp_connect_layout :: "cty list" where
  "tcp_connect_layout =
     [CU64, CU32, CU32, CBytes 16, CBytes 16, CU16, CU16, CU16, CU16, CI32, CU64, CBytes 16,
      CU32, CU32]"

definition tcp_close_layout :: "cty list" where
  "tcp_close_layout =
     [CU64, CU32, CU32, CBytes 16, CBytes 16, CU16, CU16, CU16, CU16, CU64, CU64, CU64, CU64,
      CBytes 16, CU32, CU32]"

definition tcp_retransmit_layout :: "cty list" where
  "tcp_retransmit_layout =
     [CU64, CU32, CU32, CBytes 16, CBytes 16, CU16, CU16, CU16, CU8, CU8, CU32, CU64,
      CBytes 16, CU32, CU32]"

definition process_exec_filename_len :: nat where "process_exec_filename_len = 256"
definition open_path_len :: nat where "open_path_len = 256"

definition process_exec_layout :: "cty list" where
  "process_exec_layout =
     [CU64, CU32, CU32, CU32, CU32, CU64, CI32, CU32, CBytes 16,
      CBytes process_exec_filename_len, CBytes 32, CU64]"

definition file_open_layout :: "cty list" where
  "file_open_layout =
     [CU64, CU32, CU32, CU64, CI32, CU32, CBytes 16, CBytes open_path_len]"

lemmas layout_defs =
  tcp_connect_layout_def tcp_close_layout_def tcp_retransmit_layout_def
  process_exec_layout_def file_open_layout_def process_exec_filename_len_def open_path_len_def

lemma event_sizes:
  "struct_size tcp_connect_layout = 96" "struct_size tcp_close_layout = 112"
  "struct_size tcp_retransmit_layout = 96" "struct_size process_exec_layout = 352"
  "struct_size file_open_layout = 304"
  by (simp_all add: layout_defs struct_size_def struct_align_def align_up_def)

section \<open>Typed events\<close>

definition af_inet6 :: nat where "af_inet6 = 10"

text \<open>\<open>nul_terminated_str\<close> and the per-event copies of it, \<open>comm_str\<close>.\<close>

definition nul_terminated_str :: "u8 list \<Rightarrow> string" where
  "nul_terminated_str raw =
     (let body = takeWhile (\<lambda>b. b \<noteq> 0) raw in if utf8_valid body then of_bytes body else [])"

definition path_is_truncated :: "u8 list \<Rightarrow> bool" where
  "path_is_truncated path = (0 \<notin> set path)"

definition ip_from :: "u8 list \<Rightarrow> nat \<Rightarrow> ip_addr" where
  "ip_from raw family = (if family = af_inet6 then V6 raw else V4 (take 4 raw))"

text \<open>\<open>u16::from_be\<close> on a little-endian host swaps the two bytes.\<close>

definition from_be16 :: "nat \<Rightarrow> u16" where
  "from_be16 n = word_of_nat (n mod 256 * 256 + n div 256 mod 256)"

datatype tcp_state =
  Established | SynSent | SynRecv | FinWait1 | FinWait2 | TimeWait | Close | CloseWait |
  LastAck | Listen | Closing | UnknownState u8

definition tcp_state_from_u8 :: "u8 \<Rightarrow> tcp_state" where
  "tcp_state_from_u8 v =
     (if v = 1 then Established else if v = 2 then SynSent else if v = 3 then SynRecv
      else if v = 4 then FinWait1 else if v = 5 then FinWait2 else if v = 6 then TimeWait
      else if v = 7 then Close else if v = 8 then CloseWait else if v = 9 then LastAck
      else if v = 10 then Listen else if v = 11 then Closing else UnknownState v)"

fun tcp_state_str :: "tcp_state \<Rightarrow> string" where
  "tcp_state_str Established = ''ESTABLISHED''"
| "tcp_state_str SynSent = ''SYN_SENT''"
| "tcp_state_str SynRecv = ''SYN_RECV''"
| "tcp_state_str FinWait1 = ''FIN_WAIT1''"
| "tcp_state_str FinWait2 = ''FIN_WAIT2''"
| "tcp_state_str TimeWait = ''TIME_WAIT''"
| "tcp_state_str Close = ''CLOSE''"
| "tcp_state_str CloseWait = ''CLOSE_WAIT''"
| "tcp_state_str LastAck = ''LAST_ACK''"
| "tcp_state_str Listen = ''LISTEN''"
| "tcp_state_str Closing = ''CLOSING''"
| "tcp_state_str (UnknownState v) = ''UNKNOWN''"

record file_open_event =
  fo_observed_at_ns :: u64
  fo_pid :: u32
  fo_uid :: u32
  fo_cgroup_id :: u64
  fo_ret :: u32
  fo_flags :: u32
  fo_comm :: string
  fo_path :: string
  fo_path_truncated :: bool

record process_exec_event =
  pe_observed_at_ns :: u64
  pe_pid :: u32
  pe_tid :: u32
  pe_ppid :: u32
  pe_uid :: u32
  pe_gid :: u32
  pe_cgroup_id :: u64
  pe_ret :: u32
  pe_comm :: string
  pe_filename :: string
  pe_argv_hash :: "u8 list"
  pe_leader_start :: u64

record tcp_connect_event =
  tc_observed_at_ns :: u64
  tc_pid :: u32
  tc_tid :: u32
  tc_src_ip :: ip_addr
  tc_dst_ip :: ip_addr
  tc_src_port :: u16
  tc_dst_port :: u16
  tc_addr_family :: u16
  tc_ret :: u32
  tc_cgroup_id :: u64
  tc_comm :: string
  tc_netns :: u32

record tcp_close_event =
  tl_observed_at_ns :: u64
  tl_pid :: u32
  tl_tid :: u32
  tl_src_ip :: ip_addr
  tl_dst_ip :: ip_addr
  tl_src_port :: u16
  tl_dst_port :: u16
  tl_addr_family :: u16
  tl_bytes_sent :: u64
  tl_bytes_received :: u64
  tl_duration_ns :: u64
  tl_cgroup_id :: u64
  tl_comm :: string
  tl_netns :: u32

record tcp_retransmit_event =
  tr_observed_at_ns :: u64
  tr_pid :: u32
  tr_tid :: u32
  tr_src_ip :: ip_addr
  tr_dst_ip :: ip_addr
  tr_src_port :: u16
  tr_dst_port :: u16
  tr_addr_family :: u16
  tr_state :: tcp_state
  tr_cgroup_id :: u64
  tr_comm :: string
  tr_netns :: u32

text \<open>An \<open>i32\<close> is its bit pattern; \<open>sint\<close> reads it.\<close>

datatype kernel_event =
  ProcessExec process_exec_event | FileOpen file_open_event |
  FileOpenAttempt file_open_event | TcpConnect tcp_connect_event |
  TcpClose tcp_close_event | TcpRetransmit tcp_retransmit_event

fun event_observed_at_ns :: "kernel_event \<Rightarrow> u64" where
  "event_observed_at_ns (ProcessExec e) = pe_observed_at_ns e"
| "event_observed_at_ns (FileOpen e) = fo_observed_at_ns e"
| "event_observed_at_ns (FileOpenAttempt e) = fo_observed_at_ns e"
| "event_observed_at_ns (TcpConnect e) = tc_observed_at_ns e"
| "event_observed_at_ns (TcpClose e) = tl_observed_at_ns e"
| "event_observed_at_ns (TcpRetransmit e) = tr_observed_at_ns e"

fun event_pid :: "kernel_event \<Rightarrow> u32" where
  "event_pid (ProcessExec e) = pe_pid e"
| "event_pid (FileOpen e) = fo_pid e"
| "event_pid (FileOpenAttempt e) = fo_pid e"
| "event_pid (TcpConnect e) = tc_pid e"
| "event_pid (TcpClose e) = tl_pid e"
| "event_pid (TcpRetransmit e) = tr_pid e"

fun event_cgroup_id :: "kernel_event \<Rightarrow> u64" where
  "event_cgroup_id (ProcessExec e) = pe_cgroup_id e"
| "event_cgroup_id (FileOpen e) = fo_cgroup_id e"
| "event_cgroup_id (FileOpenAttempt e) = fo_cgroup_id e"
| "event_cgroup_id (TcpConnect e) = tc_cgroup_id e"
| "event_cgroup_id (TcpClose e) = tl_cgroup_id e"
| "event_cgroup_id (TcpRetransmit e) = tr_cgroup_id e"

definition fo_succeeded :: "file_open_event \<Rightarrow> bool" where
  "fo_succeeded e = (fo_ret e = 0)"

definition pe_succeeded :: "process_exec_event \<Rightarrow> bool" where
  "pe_succeeded e = (pe_ret e = 0)"

definition tc_succeeded :: "tcp_connect_event \<Rightarrow> bool" where
  "tc_succeeded e = (tc_ret e = 0)"

definition file_open_of :: "cval list \<Rightarrow> file_open_event" where
  "file_open_of v =
     \<lparr>fo_observed_at_ns = word_of_nat (num (v ! 0)), fo_pid = word_of_nat (num (v ! 1)),
      fo_uid = word_of_nat (num (v ! 2)), fo_cgroup_id = word_of_nat (num (v ! 3)),
      fo_ret = word_of_nat (num (v ! 4)), fo_flags = word_of_nat (num (v ! 5)),
      fo_comm = nul_terminated_str (buf (v ! 6)), fo_path = nul_terminated_str (buf (v ! 7)),
      fo_path_truncated = path_is_truncated (buf (v ! 7))\<rparr>"

definition process_exec_of :: "cval list \<Rightarrow> process_exec_event" where
  "process_exec_of v =
     \<lparr>pe_observed_at_ns = word_of_nat (num (v ! 0)), pe_pid = word_of_nat (num (v ! 1)),
      pe_tid = word_of_nat (num (v ! 7)), pe_ppid = word_of_nat (num (v ! 2)),
      pe_uid = word_of_nat (num (v ! 3)), pe_gid = word_of_nat (num (v ! 4)),
      pe_cgroup_id = word_of_nat (num (v ! 5)), pe_ret = word_of_nat (num (v ! 6)),
      pe_comm = nul_terminated_str (buf (v ! 8)),
      pe_filename = nul_terminated_str (buf (v ! 9)), pe_argv_hash = buf (v ! 10),
      pe_leader_start = word_of_nat (num (v ! 11))\<rparr>"

definition tcp_connect_of :: "cval list \<Rightarrow> tcp_connect_event" where
  "tcp_connect_of v =
     \<lparr>tc_observed_at_ns = word_of_nat (num (v ! 0)), tc_pid = word_of_nat (num (v ! 1)),
      tc_tid = word_of_nat (num (v ! 2)),
      tc_src_ip = ip_from (buf (v ! 3)) (num (v ! 7)),
      tc_dst_ip = ip_from (buf (v ! 4)) (num (v ! 7)),
      tc_src_port = word_of_nat (num (v ! 5)), tc_dst_port = from_be16 (num (v ! 6)),
      tc_addr_family = word_of_nat (num (v ! 7)), tc_ret = word_of_nat (num (v ! 9)),
      tc_cgroup_id = word_of_nat (num (v ! 10)), tc_comm = nul_terminated_str (buf (v ! 11)),
      tc_netns = word_of_nat (num (v ! 12))\<rparr>"

definition tcp_close_of :: "cval list \<Rightarrow> tcp_close_event" where
  "tcp_close_of v =
     \<lparr>tl_observed_at_ns = word_of_nat (num (v ! 0)), tl_pid = word_of_nat (num (v ! 1)),
      tl_tid = word_of_nat (num (v ! 2)),
      tl_src_ip = ip_from (buf (v ! 3)) (num (v ! 7)),
      tl_dst_ip = ip_from (buf (v ! 4)) (num (v ! 7)),
      tl_src_port = word_of_nat (num (v ! 5)), tl_dst_port = from_be16 (num (v ! 6)),
      tl_addr_family = word_of_nat (num (v ! 7)), tl_bytes_sent = word_of_nat (num (v ! 9)),
      tl_bytes_received = word_of_nat (num (v ! 10)),
      tl_duration_ns = word_of_nat (num (v ! 11)), tl_cgroup_id = word_of_nat (num (v ! 12)),
      tl_comm = nul_terminated_str (buf (v ! 13)), tl_netns = word_of_nat (num (v ! 14))\<rparr>"

definition tcp_retransmit_of :: "cval list \<Rightarrow> tcp_retransmit_event" where
  "tcp_retransmit_of v =
     \<lparr>tr_observed_at_ns = word_of_nat (num (v ! 0)), tr_pid = word_of_nat (num (v ! 1)),
      tr_tid = word_of_nat (num (v ! 2)),
      tr_src_ip = ip_from (buf (v ! 3)) (num (v ! 7)),
      tr_dst_ip = ip_from (buf (v ! 4)) (num (v ! 7)),
      tr_src_port = word_of_nat (num (v ! 5)), tr_dst_port = from_be16 (num (v ! 6)),
      tr_addr_family = word_of_nat (num (v ! 7)),
      tr_state = tcp_state_from_u8 (word_of_nat (num (v ! 8))),
      tr_cgroup_id = word_of_nat (num (v ! 11)), tr_comm = nul_terminated_str (buf (v ! 12)),
      tr_netns = word_of_nat (num (v ! 13))\<rparr>"

definition map_result :: "('a \<Rightarrow> 'b) \<Rightarrow> 'e + 'a \<Rightarrow> 'e + 'b" where
  "map_result f r = (case r of Inl e \<Rightarrow> Inl e | Inr x \<Rightarrow> Inr (f x))"

definition file_open_from_bytes :: "u8 list \<Rightarrow> decode_error + file_open_event" where
  "file_open_from_bytes raw = map_result file_open_of (read_raw file_open_layout raw)"

definition process_exec_from_bytes :: "u8 list \<Rightarrow> decode_error + process_exec_event" where
  "process_exec_from_bytes raw = map_result process_exec_of (read_raw process_exec_layout raw)"

definition tcp_connect_from_bytes :: "u8 list \<Rightarrow> decode_error + tcp_connect_event" where
  "tcp_connect_from_bytes raw = map_result tcp_connect_of (read_raw tcp_connect_layout raw)"

definition tcp_close_from_bytes :: "u8 list \<Rightarrow> decode_error + tcp_close_event" where
  "tcp_close_from_bytes raw = map_result tcp_close_of (read_raw tcp_close_layout raw)"

definition tcp_retransmit_from_bytes :: "u8 list \<Rightarrow> decode_error + tcp_retransmit_event" where
  "tcp_retransmit_from_bytes raw =
     map_result tcp_retransmit_of (read_raw tcp_retransmit_layout raw)"

section \<open>Facts about the decoders\<close>

lemma field_ok_elims:
  "field_ok CU8 v \<longleftrightarrow> (\<exists>n. v = CNum n \<and> n < 2 ^ 8)"
  "field_ok CU16 v \<longleftrightarrow> (\<exists>n. v = CNum n \<and> n < 2 ^ 16)"
  "field_ok CU32 v \<longleftrightarrow> (\<exists>n. v = CNum n \<and> n < 2 ^ 32)"
  "field_ok CI32 v \<longleftrightarrow> (\<exists>n. v = CNum n \<and> n < 2 ^ 32)"
  "field_ok CU64 v \<longleftrightarrow> (\<exists>n. v = CNum n \<and> n < 2 ^ 64)"
  "field_ok (CBytes k) v \<longleftrightarrow> (\<exists>b. v = CBuf b \<and> length b = k)"
  by (cases v; simp)+

lemma read_raw_iff:
  "read_raw ts raw = Inl e \<longleftrightarrow>
     length raw < struct_size ts \<and> e = TooShort (struct_size ts) (length raw)"
  "read_raw ts raw = Inr vs \<longleftrightarrow>
     struct_size ts \<le> length raw \<and> vs = read_fields 0 ts raw"
  by (auto simp: read_raw_def)

lemma map_result_iff:
  "map_result f r = Inl e \<longleftrightarrow> r = Inl e"
  "map_result f r = Inr y \<longleftrightarrow> (\<exists>x. r = Inr x \<and> y = f x)"
  by (auto simp: map_result_def split: sum.splits)

lemma read_fields_append:
  "layout_end off ts \<le> length raw \<Longrightarrow> read_fields off ts (raw @ rest) = read_fields off ts raw"
proof (induction off ts rule: layout_end.induct)
  case (1 off)
  then show ?case by simp
next
  case (2 off t ts)
  then have "align_up (calign t) off + csize t \<le> length raw"
    using layout_end_ge order_trans by fastforce
  with 2 show ?case by (simp add: Let_def)
qed

lemma read_raw_append:
  "struct_size ts \<le> length raw \<Longrightarrow> read_raw ts (raw @ rest) = read_raw ts raw"
  using align_up_ge1 [of "layout_end 0 ts" ts]
  by (simp add: read_raw_def read_fields_append struct_size_def)

lemma length_buf_field:
  "layout_end off ts \<le> length raw \<Longrightarrow> i < length ts \<Longrightarrow> ts ! i = CBytes n \<Longrightarrow>
   length (buf (read_fields off ts raw ! i)) = n"
proof (induction off ts arbitrary: i rule: layout_end.induct)
  case (1 off)
  then show ?case by simp
next
  case (2 off t ts)
  from 2(2) have "align_up (calign t) off + csize t \<le> length raw"
    using layout_end_ge order_trans by fastforce
  with 2 show ?case by (cases i) (simp_all add: Let_def)
qed

lemma length_buf_struct:
  "struct_size ts \<le> length raw \<Longrightarrow> i < length ts \<Longrightarrow> ts ! i = CBytes n \<Longrightarrow>
   length (buf (read_fields 0 ts raw ! i)) = n"
  using align_up_ge1 [of "layout_end 0 ts" ts] by (simp add: length_buf_field struct_size_def)

lemma length_nul_terminated_str: "length (nul_terminated_str b) \<le> length b"
  using length_takeWhile_le [of "\<lambda>x. x \<noteq> 0" b] by (simp add: nul_terminated_str_def Let_def)

lemma nul_terminated_str_of_bytes:
  "0 \<notin> set s \<Longrightarrow> utf8_valid s \<Longrightarrow> nul_terminated_str (s @ 0 # pad) = of_bytes s"
proof -
  assume nz: "0 \<notin> set s" and "utf8_valid s"
  from nz have "takeWhile (\<lambda>b. b \<noteq> 0) (s @ 0 # pad) = s" by (induction s) auto
  with \<open>utf8_valid s\<close> show ?thesis by (simp add: nul_terminated_str_def)
qed

lemma of_bytes_no_nul: "CHR 0x00 \<notin> set (nul_terminated_str b)"
proof -
  have "CHR 0x00 \<notin> set (of_bytes (takeWhile (\<lambda>x. x \<noteq> 0) b))"
  proof
    assume "CHR 0x00 \<in> set (of_bytes (takeWhile (\<lambda>x. x \<noteq> 0) b))"
    then obtain x where x: "x \<in> set (takeWhile (\<lambda>x. x \<noteq> 0) b)"
      and c: "CHR 0x00 = (char_of (unat x) :: char)"
      by (auto simp: of_bytes_def)
    from c have "(of_char (CHR 0x00) :: nat) = of_char (char_of (unat x) :: char)" by simp
    then have "unat x = 0" by simp
    moreover from x have "x \<noteq> 0" by (auto dest: set_takeWhileD)
    ultimately show False by (simp add: unat_eq_0)
  qed
  then show ?thesis by (simp add: nul_terminated_str_def Let_def)
qed

lemma length_ip_octets:
  "length raw = 16 \<Longrightarrow> (case ip_from raw f of V4 o4 \<Rightarrow> length o4 = 4 | V6 o6 \<Rightarrow> length o6 = 16)"
  by (simp add: ip_from_def)

lemma from_be16_swap: "n < 2 ^ 16 \<Longrightarrow> unat (from_be16 n) = n mod 256 * 256 + n div 256"
proof -
  assume n: "n < 2 ^ 16"
  then have "n div 256 < 256" by (simp add: less_mult_imp_div_less)
  moreover have "n mod 256 < 256" by simp
  ultimately have "n mod 256 * 256 + n div 256 mod 256 < 65536" by simp
  with \<open>n div 256 < 256\<close> show ?thesis
    by (simp add: from_be16_def unat_of_nat del: of_nat_add of_nat_mult)
qed

lemma from_be16_bytes:
  assumes "n < 2 ^ 16"
  shows "unat (from_be16 n) = be_nat (le_bytes 2 n)"
proof -
  have "le_bytes 2 n = [word_of_nat n, word_of_nat (n div 256)]"
    by (simp add: numeral_2_eq_2)
  moreover have "n div 256 < 256" using assms by (simp add: less_mult_imp_div_less)
  ultimately show ?thesis
    using assms by (simp add: from_be16_swap be_nat_def)
qed

section \<open>Properties\<close>

text \<open>
  what the kernel writes is what user space reads: for every struct layout, well-typed
  field values written in C layout with arbitrary padding and followed by arbitrary bytes
  are read back exactly, and the image has the struct's size.
\<close>

theorem struct_round_trip:
  assumes "list_all2 field_ok ts vs"
  shows "read_raw ts (struct_image pad ts vs @ rest) = Inr vs \<and>
         length (struct_image pad ts vs) = struct_size ts"
  using read_raw_image [OF assms] length_struct_image [OF assms] by blast

theorem struct_round_trip_witness:
  "list_all2 field_ok file_open_layout
     [CNum 7, CNum 42, CNum 1000, CNum 9, CNum 4294967283, CNum 0,
      CBuf (replicate 16 0x61), CBuf (replicate 256 0x62)] \<and>
   read_raw file_open_layout (struct_image 0xAA file_open_layout
     [CNum 7, CNum 42, CNum 1000, CNum 9, CNum 4294967283, CNum 0,
      CBuf (replicate 16 0x61), CBuf (replicate 256 0x62)] @ [1, 2, 3]) =
   Inr [CNum 7, CNum 42, CNum 1000, CNum 9, CNum 4294967283, CNum 0,
      CBuf (replicate 16 0x61), CBuf (replicate 256 0x62)]"
proof -
  have ok: "list_all2 field_ok file_open_layout
     [CNum 7, CNum 42, CNum 1000, CNum 9, CNum 4294967283, CNum 0,
      CBuf (replicate 16 0x61), CBuf (replicate 256 0x62)]"
    by (simp add: file_open_layout_def open_path_len_def)
  from ok struct_round_trip [OF ok] show ?thesis by blast
qed

text \<open>
  decoding is total on every byte string: each decoder fails exactly on inputs shorter
  than its struct, reporting the expected and the actual length, and otherwise succeeds.
\<close>

theorem from_bytes_total:
  "(tcp_connect_from_bytes raw = Inl e \<longleftrightarrow> length raw < 96 \<and> e = TooShort 96 (length raw)) \<and>
   (tcp_close_from_bytes raw = Inl e \<longleftrightarrow> length raw < 112 \<and> e = TooShort 112 (length raw)) \<and>
   (tcp_retransmit_from_bytes raw = Inl e \<longleftrightarrow> length raw < 96 \<and> e = TooShort 96 (length raw)) \<and>
   (process_exec_from_bytes raw = Inl e \<longleftrightarrow>
      length raw < 352 \<and> e = TooShort 352 (length raw)) \<and>
   (file_open_from_bytes raw = Inl e \<longleftrightarrow> length raw < 304 \<and> e = TooShort 304 (length raw))"
  by (simp add: tcp_connect_from_bytes_def tcp_close_from_bytes_def tcp_retransmit_from_bytes_def
      process_exec_from_bytes_def file_open_from_bytes_def map_result_iff read_raw_iff event_sizes)

end
