(* ===== verification/Normalize.thy ===== *)
theory Normalize
  imports Evidence Events
begin

text \<open>
  Normalization of typed kernel events into occurrences and evidence records
  (\<open>jalki-evidence/src/normalize.rs\<close>).  \<open>Occurrence::new\<close> draws a fresh id and the
  wall-clock time; both are arguments here.  The lemmas show that every normalised event
  passes the protocol's validation, how outcome and result follow the return value, and
  that an exec event's own labels lead back to its process identity.
\<close>

section \<open>Errno names\<close>

text \<open>
  \<open>-ret\<close> is a wrapping negation (a release build does not check it), so the name of
  \<open>i32::MIN\<close> is \<open>E-2147483648\<close>.
\<close>

definition errno_name :: "u32 \<Rightarrow> string" where
  "errno_name ret =
     (let n = sint (- ret)
      in if n = 111 then ''ECONNREFUSED''
         else if n = 110 then ''ETIMEDOUT''
         else if n = 113 then ''EHOSTUNREACH''
         else if n = 101 then ''ENETUNREACH''
         else if n = 1 then ''EPERM''
         else if n = 2 then ''ENOENT''
         else if n = 6 then ''ENXIO''
         else if n = 13 then ''EACCES''
         else if n = 20 then ''ENOTDIR''
         else if n = 21 then ''EISDIR''
         else if n = 40 then ''ELOOP''
         else CHR ''E'' # decimal_int n)"

definition show_i32 :: "u32 \<Rightarrow> string" where
  "show_i32 w = decimal_int (sint w)"

definition show_word :: "'a::len word \<Rightarrow> string" where
  "show_word w = decimal (unat w)"

section \<open>Events to occurrences\<close>

text \<open>The process block all probes fill the same way.\<close>

definition process_block ::
  "u32 \<Rightarrow> u32 option \<Rightarrow> string \<Rightarrow> u32 option \<Rightarrow> int option \<Rightarrow> process_event_data" where
  "process_block pid ppid command uid exit_code =
     \<lparr>pd_pid = pid, pd_ppid = ppid, pd_command = command, pd_args = None, pd_uid = uid,
      pd_exit_code = exit_code\<rparr>"

definition process_entity :: "u32 \<Rightarrow> string" where
  "process_entity pid = ''process:'' @ show_word pid"

definition set_process :: "process_event_data \<Rightarrow> occurrence \<Rightarrow> occurrence" where
  "set_process p occ = occ\<lparr>process_data := Some p\<rparr>"

definition set_network :: "network_event_data \<Rightarrow> occurrence \<Rightarrow> occurrence" where
  "set_network n occ = occ\<lparr>network_data := Some n\<rparr>"

definition set_keys :: "string list \<Rightarrow> occurrence \<Rightarrow> occurrence" where
  "set_keys ks occ = occ\<lparr>correlation_keys := ks\<rparr>"

definition truncated_label :: "bool \<Rightarrow> (string \<times> string) list" where
  "truncated_label t = (if t then [(''path_truncated'', ''true'')] else [])"

definition file_open_labels :: "file_open_event \<Rightarrow> (string \<times> string) list" where
  "file_open_labels e =
     [(''result'', if fo_succeeded e then ''allowed'' else ''denied'')] @
     (if fo_succeeded e then []
      else [(''errno'', errno_name (fo_ret e)), (''errno_num'', show_i32 (fo_ret e))]) @
     [(''flags'', show_word (fo_flags e)), (''cgroup_id'', show_word (fo_cgroup_id e)),
      (''coverage'', ''lsm_gated''), (''resource_ref_kind'', ''file''),
      (''resource_ref_id'', fo_path e)] @
     truncated_label (fo_path_truncated e)"

definition file_open_to_occurrence ::
  "ulid \<Rightarrow> int \<Rightarrow> string \<Rightarrow> file_open_event \<Rightarrow> occurrence" where
  "file_open_to_occurrence ident now cluster e =
     (let occ = new_occurrence ident now ''jalki/file_open'' ''kernel.file.open'';
          occ = with_severity Info occ;
          occ = with_outcome (if fo_succeeded e then Success else Failure) occ;
          occ = in_cluster cluster occ;
          occ = with_entities [process_entity (fo_pid e), ''file:'' @ fo_path e] occ;
          occ = set_process (process_block (fo_pid e) None (fo_comm e) (Some (fo_uid e)) None) occ;
          occ = insert_labels (file_open_labels e) occ
      in set_keys [process_entity (fo_pid e)] occ)"

definition open_attempt_labels :: "file_open_event \<Rightarrow> (string \<times> string) list" where
  "open_attempt_labels e =
     [(''result'', ''failed''), (''errno'', errno_name (fo_ret e)),
      (''errno_num'', show_i32 (fo_ret e)), (''cgroup_id'', show_word (fo_cgroup_id e)),
      (''requested_path'', fo_path e), (''path_resolution'', ''unresolved'')] @
     truncated_label (fo_path_truncated e)"

definition open_attempt_to_occurrence ::
  "ulid \<Rightarrow> int \<Rightarrow> string \<Rightarrow> file_open_event \<Rightarrow> occurrence" where
  "open_attempt_to_occurrence ident now cluster e =
     (let occ = new_occurrence ident now ''jalki/file_open_attempt'' ''kernel.file.open_attempt'';
          occ = with_severity Info occ;
          occ = with_outcome Failure occ;
          occ = in_cluster cluster occ;
          occ = with_entities [process_entity (fo_pid e)] occ;
          occ = set_process (process_block (fo_pid e) None (fo_comm e) (Some (fo_uid e)) None) occ;
          occ = insert_labels (open_attempt_labels e) occ
      in set_keys [process_entity (fo_pid e)] occ)"

definition process_exec_labels :: "process_exec_event \<Rightarrow> (string \<times> string) list" where
  "process_exec_labels e =
     [(''cgroup_id'', show_word (pe_cgroup_id e)), (''gid'', show_word (pe_gid e)),
      (''host_tgid'', show_word (pe_pid e)), (''host_tid'', show_word (pe_tid e))] @
     (if pe_leader_start e \<noteq> 0
      then [(''leader_start_boottime_ns'', show_word (pe_leader_start e)),
            (''runtime_identity_method'', ''task_start_boottime_btf_v1'')]
      else []) @
     [(''resource_ref_kind'', ''executable''), (''resource_ref_id'', pe_filename e),
      (''argv_hash'', ''sha256:'' @ hex_bytes (pe_argv_hash e))]"

definition process_exec_to_occurrence ::
  "ulid \<Rightarrow> int \<Rightarrow> string \<Rightarrow> process_exec_event \<Rightarrow> occurrence" where
  "process_exec_to_occurrence ident now cluster e =
     (let occ = new_occurrence ident now ''jalki/process_exec'' ''kernel.process.exec'';
          occ = with_severity Info occ;
          occ = with_outcome (if pe_succeeded e then Success else Failure) occ;
          occ = in_cluster cluster occ;
          occ = with_entities [process_entity (pe_pid e), ''executable:'' @ pe_filename e] occ;
          occ = set_process
                  (process_block (pe_pid e) (if pe_ppid e \<noteq> 0 then Some (pe_ppid e) else None)
                     (pe_filename e) (Some (pe_uid e))
                     (if pe_succeeded e then None else Some (sint (pe_ret e)))) occ;
          occ = insert_labels (process_exec_labels e) occ
      in set_keys [process_entity (pe_pid e)] occ)"

definition conn_id :: "ip_addr \<Rightarrow> u16 \<Rightarrow> ip_addr \<Rightarrow> u16 \<Rightarrow> string" where
  "conn_id src sport dst dport =
     display_ip src @ '':'' @ show_word sport @ ''->'' @ display_ip dst @ '':'' @ show_word dport"

definition tcp_network ::
  "ip_addr \<Rightarrow> ip_addr \<Rightarrow> u16 \<Rightarrow> u16 \<Rightarrow> u64 option \<Rightarrow> u64 option \<Rightarrow> network_event_data" where
  "tcp_network src dst sport dport sent received =
     \<lparr>nd_protocol = ''tcp'', nd_src_ip = display_ip src, nd_dst_ip = display_ip dst,
      nd_src_port = sport, nd_dst_port = dport, nd_direction = ''egress'',
      nd_dns_query = None, nd_http_method = None, nd_http_path = None,
      nd_http_status_code = None, nd_latency_ms = None, nd_bytes_sent = sent,
      nd_bytes_received = received, nd_rtt_baseline_ms = None, nd_rtt_current_ms = None,
      nd_retransmit_count = None\<rparr>"

definition connect_error :: "tcp_connect_event \<Rightarrow> occurrence_error" where
  "connect_error e = default_error
     \<lparr>err_code := errno_name (tc_ret e),
      err_what_failed := ''TCP connect from '' @ tc_comm e @ '' (pid '' @ show_word (tc_pid e) @
        '') to '' @ display_ip (tc_dst_ip e) @ '':'' @ show_word (tc_dst_port e),
      err_why_it_matters := Some ''Connection failure may indicate backend unreachability'',
      err_possible_causes := [''Destination host unreachable'', ''Port not listening'',
        ''Firewall blocking connection'']\<rparr>"

definition tcp_connect_to_occurrence ::
  "ulid \<Rightarrow> int \<Rightarrow> string \<Rightarrow> tcp_connect_event \<Rightarrow> occurrence" where
  "tcp_connect_to_occurrence ident now cluster e =
     (let cid = conn_id (tc_src_ip e) (tc_src_port e) (tc_dst_ip e) (tc_dst_port e);
          occ = new_occurrence ident now ''jalki/tcp_connect'' ''kernel.tcp.connect'';
          occ = with_severity (if tc_succeeded e then Info else Warning) occ;
          occ = with_outcome (if tc_succeeded e then Success else Failure) occ;
          occ = in_cluster cluster occ;
          occ = with_entities [process_entity (tc_pid e), ''connection:'' @ cid] occ;
          occ = set_network (tcp_network (tc_src_ip e) (tc_dst_ip e) (tc_src_port e)
                  (tc_dst_port e) None None) occ;
          occ = set_process (process_block (tc_pid e) None (tc_comm e) None None) occ;
          occ = insert_labels [(''cgroup_id'', show_word (tc_cgroup_id e)),
                  (''netns'', show_word (tc_netns e))] occ;
          occ = (if tc_succeeded e then occ
                 else with_error (connect_error e)
                   (insert_label ''errno_num'' (show_i32 (tc_ret e)) occ))
      in set_keys [cid] occ)"

definition tcp_close_to_occurrence ::
  "ulid \<Rightarrow> int \<Rightarrow> string \<Rightarrow> tcp_close_event \<Rightarrow> occurrence" where
  "tcp_close_to_occurrence ident now cluster e =
     (let cid = conn_id (tl_src_ip e) (tl_src_port e) (tl_dst_ip e) (tl_dst_port e);
          occ = new_occurrence ident now ''jalki/tcp_close'' ''kernel.tcp.close'';
          occ = with_severity Info occ;
          occ = with_outcome Success occ;
          occ = in_cluster cluster occ;
          occ = with_entities [process_entity (tl_pid e), ''connection:'' @ cid] occ;
          occ = set_network (tcp_network (tl_src_ip e) (tl_dst_ip e) (tl_src_port e)
                  (tl_dst_port e) (Some (tl_bytes_sent e)) (Some (tl_bytes_received e))) occ;
          occ = set_process (process_block (tl_pid e) None (tl_comm e) None None) occ;
          occ = insert_labels [(''cgroup_id'', show_word (tl_cgroup_id e)),
                  (''netns'', show_word (tl_netns e))] occ;
          occ = (if 0 < tl_duration_ns e
                 then occ\<lparr>duration_us := Some (tl_duration_ns e div 1000)\<rparr> else occ)
      in set_keys [cid] occ)"

definition tcp_retransmit_to_occurrence ::
  "ulid \<Rightarrow> int \<Rightarrow> string \<Rightarrow> tcp_retransmit_event \<Rightarrow> occurrence" where
  "tcp_retransmit_to_occurrence ident now cluster e =
     (let cid = conn_id (tr_src_ip e) (tr_src_port e) (tr_dst_ip e) (tr_dst_port e);
          occ = new_occurrence ident now ''jalki/tcp_retransmit'' ''kernel.tcp.retransmit'';
          occ = with_severity Warning occ;
          occ = with_outcome Failure occ;
          occ = in_cluster cluster occ;
          occ = with_entities [process_entity (tr_pid e), ''connection:'' @ cid] occ;
          occ = set_network (tcp_network (tr_src_ip e) (tr_dst_ip e) (tr_src_port e)
                  (tr_dst_port e) None None) occ;
          occ = set_process (process_block (tr_pid e) None (tr_comm e) None None) occ;
          occ = insert_labels [(''cgroup_id'', show_word (tr_cgroup_id e)),
                  (''netns'', show_word (tr_netns e)),
                  (''tcp_state'', tcp_state_str (tr_state e))] occ
      in set_keys [cid] occ)"

fun to_occurrence :: "ulid \<Rightarrow> int \<Rightarrow> string \<Rightarrow> kernel_event \<Rightarrow> occurrence" where
  "to_occurrence i now c (ProcessExec e) = process_exec_to_occurrence i now c e"
| "to_occurrence i now c (FileOpen e) = file_open_to_occurrence i now c e"
| "to_occurrence i now c (FileOpenAttempt e) = open_attempt_to_occurrence i now c e"
| "to_occurrence i now c (TcpConnect e) = tcp_connect_to_occurrence i now c e"
| "to_occurrence i now c (TcpClose e) = tcp_close_to_occurrence i now c e"
| "to_occurrence i now c (TcpRetransmit e) = tcp_retransmit_to_occurrence i now c e"

definition normalize ::
  "ulid \<Rightarrow> int \<Rightarrow> probe_metadata \<Rightarrow> string \<Rightarrow> kernel_event \<Rightarrow> evidence_record list" where
  "normalize ident now probe cluster e =
     [\<lparr>observed_at_ns = event_observed_at_ns e, er_pid = event_pid e,
       er_cgroup_id = event_cgroup_id e, er_probe = probe,
       er_occurrence = to_occurrence ident now cluster e, er_binding = None\<rparr>]"

section \<open>Sizes of the printed fields\<close>

lemma visible_jk: "visible (CHR ''j'')" "visible (CHR ''k'')"
  by (simp_all add: visible_def white_space_def bytes_def upt_rec char_of_def)

lemma length_decimal: "n < 10 ^ k \<Longrightarrow> 0 < k \<Longrightarrow> length (decimal n) \<le> k"
proof (induction n arbitrary: k rule: decimal.induct)
  case (1 n)
  show ?case
  proof (cases "n < 10")
    case True
    with 1(3) show ?thesis by (simp add: decimal.simps [of n])
  next
    case False
    with 1(2) obtain j where k: "k = Suc (Suc j)"
      by (cases k; cases "k - 1") (auto simp: not_less)
    with 1(2) have "n div 10 < 10 ^ Suc j" by (simp add: less_mult_imp_div_less mult.commute)
    from 1(1) [OF False this] False k show ?thesis by (simp add: decimal.simps [of n])
  qed
qed

lemma length_decimal_int: "\<bar>i\<bar> < 10 ^ k \<Longrightarrow> 0 < k \<Longrightarrow> length (decimal_int i) \<le> Suc k"
proof -
  assume i: "\<bar>i\<bar> < 10 ^ k" and k: "0 < k"
  then have "nat \<bar>i\<bar> < 10 ^ k" by (simp add: nat_less_iff)
  from length_decimal [OF this k] show ?thesis
    by (auto simp: decimal_int_def intro: le_SucI)
qed

lemma sint_u32_bounds: "\<bar>sint (w :: u32)\<bar> < 10 ^ 10"
proof -
  have "- (2 ^ 31) \<le> sint w" and "sint w < 2 ^ 31"
    using sint_ge [of w] sint_lt [of w] by simp_all
  then show ?thesis by simp
qed

lemma length_show_i32 [simp]: "length (show_i32 w) \<le> 1000"
  using length_decimal_int [OF sint_u32_bounds, of w] by (simp add: show_i32_def)

lemma length_errno_name [simp]: "length (errno_name w) \<le> 1000"
  using length_decimal_int [OF sint_u32_bounds, of "- w"] by (simp add: errno_name_def Let_def)

lemma length_show_u32 [simp]: "length (show_word (w :: u32)) \<le> 1000"
proof -
  have "unat w < 10 ^ 10" using unsigned_less [where 'a = nat, of w] by simp
  from length_decimal [OF this] show ?thesis by (simp add: show_word_def)
qed

lemma length_show_u64 [simp]: "length (show_word (w :: u64)) \<le> 1000"
proof -
  have "unat w < 10 ^ 20" using unsigned_less [where 'a = nat, of w] by simp
  from length_decimal [OF this] show ?thesis by (simp add: show_word_def)
qed

section \<open>Normalised occurrences are valid\<close>

fun event_wf :: "kernel_event \<Rightarrow> bool" where
  "event_wf (ProcessExec e) = (length (pe_filename e) \<le> 256 \<and> length (pe_argv_hash e) = 32)"
| "event_wf (FileOpen e) = (length (fo_path e) \<le> 256)"
| "event_wf (FileOpenAttempt e) = (length (fo_path e) \<le> 256)"
| "event_wf (TcpConnect e) = True"
| "event_wf (TcpClose e) = True"
| "event_wf (TcpRetransmit e) = True"

fun event_from_bytes :: "nat \<Rightarrow> u8 list \<Rightarrow> decode_error + kernel_event" where
  "event_from_bytes probe raw =
     (if probe = 0 then map_result ProcessExec (process_exec_from_bytes raw)
      else if probe = 1 then map_result FileOpen (file_open_from_bytes raw)
      else if probe = 2 then map_result FileOpenAttempt (file_open_from_bytes raw)
      else if probe = 3 then map_result TcpConnect (tcp_connect_from_bytes raw)
      else if probe = 4 then map_result TcpClose (tcp_close_from_bytes raw)
      else map_result TcpRetransmit (tcp_retransmit_from_bytes raw))"

lemma file_open_of_path:
  assumes "struct_size file_open_layout \<le> length raw"
  shows "length (fo_path (file_open_of (read_fields 0 file_open_layout raw))) \<le> 256"
proof -
  have "length (buf (read_fields 0 file_open_layout raw ! 7)) = 256"
    by (rule length_buf_struct [OF assms]) (simp_all add: file_open_layout_def open_path_len_def)
  then show ?thesis
    using length_nul_terminated_str [of "buf (read_fields 0 file_open_layout raw ! 7)"]
    by (simp add: file_open_of_def)
qed

lemma process_exec_of_sizes:
  assumes "struct_size process_exec_layout \<le> length raw"
  shows "length (pe_filename (process_exec_of (read_fields 0 process_exec_layout raw))) \<le> 256 \<and>
         length (pe_argv_hash (process_exec_of (read_fields 0 process_exec_layout raw))) = 32"
proof -
  have "length (buf (read_fields 0 process_exec_layout raw ! 9)) = 256"
    and "length (buf (read_fields 0 process_exec_layout raw ! 10)) = 32"
    by (rule length_buf_struct [OF assms];
        simp add: process_exec_layout_def process_exec_filename_len_def)+
  then show ?thesis
    using length_nul_terminated_str [of "buf (read_fields 0 process_exec_layout raw ! 9)"]
    by (simp add: process_exec_of_def)
qed

lemma event_from_bytes_wf:
  "event_from_bytes probe raw = Inr e \<Longrightarrow> event_wf e"
  using file_open_of_path [of raw] process_exec_of_sizes [of raw]
  by (auto simp: map_result_iff process_exec_from_bytes_def file_open_from_bytes_def
      tcp_connect_from_bytes_def tcp_close_from_bytes_def tcp_retransmit_from_bytes_def
      read_raw_iff split: if_splits)

lemma set_update_subset: "set (AList.update k v al) \<subseteq> insert (k, v) (set al)"
  by (induction al) auto

lemma insert_labels_bounds:
  "set (labels (insert_labels kvs occ)) \<subseteq> set kvs \<union> set (labels occ) \<and>
   length (labels (insert_labels kvs occ)) \<le> length kvs + length (labels occ)"
proof (induction kvs arbitrary: occ)
  case Nil
  then show ?case by (simp add: insert_labels_def)
next
  case (Cons kv kvs)
  obtain k v where kv: "kv = (k, v)" by force
  have *: "insert_labels (kv # kvs) occ = insert_labels kvs (insert_label k v occ)"
    by (simp add: insert_labels_def kv)
  have s: "set (labels (insert_label k v occ)) \<subseteq> insert (k, v) (set (labels occ))"
    using set_update_subset by (simp add: insert_label_def)
  show ?case
    using Cons.IH [of "insert_label k v occ"] s length_labels_insert [of k v occ]
    unfolding * unfolding kv by fastforce
qed

text \<open>The shape every \<open>to_occurrence\<close> has, and what validation needs of it.\<close>

definition label_ok :: "string \<times> string \<Rightarrow> bool" where
  "label_ok kv = (length (fst kv) \<le> 1000 \<and> length (snd kv) \<le> 1000)"

lemma occurrence_wfI:
  assumes "occ_source occ = CHR ''j'' # s" and "length s \<le> 255"
    and "occurrence_type occ = CHR ''k'' # t" and "length t \<le> 255"
    and "occ_cluster occ = cluster" and "trim cluster \<noteq> []" and "length cluster \<le> 256"
    and "occ_namespace occ = None" and "length (entity_ids occ) \<le> 100"
    and "list_all label_ok (labels occ)" and "length (labels occ) \<le> 100"
  shows "occurrence_wf occ"
  using assms trim_visible [OF visible_jk(1)] trim_visible [OF visible_jk(2)]
  by (auto simp: occurrence_wf_def label_ok_def list_all_iff)

lemmas builder_defs =
  new_occurrence_def with_severity_def with_outcome_def in_cluster_def with_entities_def
  set_process_def set_network_def set_keys_def with_error_def

lemmas projection_defs =
  process_exec_to_occurrence_def file_open_to_occurrence_def open_attempt_to_occurrence_def
  tcp_connect_to_occurrence_def tcp_close_to_occurrence_def tcp_retransmit_to_occurrence_def

lemma insert_labels_more [simp]:
  "entity_ids (insert_labels kvs occ) = entity_ids occ"
  "occ_namespace (insert_labels kvs occ) = occ_namespace occ"
  "occ_outcome (insert_labels kvs occ) = occ_outcome occ"
  "occ_severity (insert_labels kvs occ) = occ_severity occ"
  by (induction kvs arbitrary: occ) (auto simp: insert_labels_def)

lemma length_tcp_state_str: "length (tcp_state_str s) \<le> 1000"
  by (cases s) auto

lemma labels_insert_ok:
  assumes "labels occ = []" and "list_all label_ok kvs" and "length kvs \<le> 99"
  shows "list_all label_ok (labels (insert_labels kvs occ)) \<and>
         length (labels (insert_labels kvs occ)) \<le> 99"
  using insert_labels_bounds [of kvs occ] assms by (auto simp: list_all_iff)

lemma label_ok_simps:
  "label_ok (k, v) \<longleftrightarrow> length k \<le> 1000 \<and> length v \<le> 1000"
  by (simp add: label_ok_def)

lemma file_open_labels_ok:
  "length (fo_path e) \<le> 256 \<Longrightarrow>
   list_all label_ok (file_open_labels e) \<and> length (file_open_labels e) \<le> 99"
  by (simp add: file_open_labels_def truncated_label_def label_ok_simps)

lemma open_attempt_labels_ok:
  "length (fo_path e) \<le> 256 \<Longrightarrow>
   list_all label_ok (open_attempt_labels e) \<and> length (open_attempt_labels e) \<le> 99"
  by (simp add: open_attempt_labels_def truncated_label_def label_ok_simps)

lemma process_exec_labels_ok:
  "length (pe_filename e) \<le> 256 \<Longrightarrow> length (pe_argv_hash e) = 32 \<Longrightarrow>
   list_all label_ok (process_exec_labels e) \<and> length (process_exec_labels e) \<le> 99"
  by (simp add: process_exec_labels_def label_ok_simps)

lemma set_process_labels [simp]:
  "labels (set_process p occ) = labels occ" "labels (set_keys ks occ) = labels occ"
  "labels (with_error e occ) = labels occ" "labels (duration_us_update f occ) = labels occ"
  by (simp_all add: set_process_def set_keys_def with_error_def)

lemma insert_label_eq: "insert_label k v occ = insert_labels [(k, v)] occ"
  by (simp add: insert_labels_def)

lemma insert_labels_append: "insert_labels b (insert_labels a occ) = insert_labels (a @ b) occ"
  by (simp add: insert_labels_def)

lemma labels_insert_labels:
  "labels (insert_labels kvs occ) = fold (\<lambda>(k, v). AList.update k v) kvs (labels occ)"
  by (induction kvs arbitrary: occ) (auto simp: insert_labels_def insert_label_def)

lemma labels_builders [simp]:
  "labels (new_occurrence i now s t) = []" "labels (with_severity sv occ) = labels occ"
  "labels (with_outcome oc occ) = labels occ" "labels (in_cluster c occ) = labels occ"
  "labels (with_entities es occ) = labels occ" "labels (set_network n occ) = labels occ"
  by (simp_all add: builder_defs)

fun event_labels :: "kernel_event \<Rightarrow> (string \<times> string) list" where
  "event_labels (ProcessExec e) = process_exec_labels e"
| "event_labels (FileOpen e) = file_open_labels e"
| "event_labels (FileOpenAttempt e) = open_attempt_labels e"
| "event_labels (TcpConnect e) =
     [(''cgroup_id'', show_word (tc_cgroup_id e)), (''netns'', show_word (tc_netns e))] @
     (if tc_succeeded e then [] else [(''errno_num'', show_i32 (tc_ret e))])"
| "event_labels (TcpClose e) =
     [(''cgroup_id'', show_word (tl_cgroup_id e)), (''netns'', show_word (tl_netns e))]"
| "event_labels (TcpRetransmit e) =
     [(''cgroup_id'', show_word (tr_cgroup_id e)), (''netns'', show_word (tr_netns e)),
      (''tcp_state'', tcp_state_str (tr_state e))]"

lemma to_occurrence_labels:
  "labels (to_occurrence i now c e) =
   labels (insert_labels (event_labels e) (new_occurrence i now [] []))"
  by (cases e) (simp_all add: projection_defs Let_def labels_insert_labels insert_label_eq)

lemma event_labels_ok:
  "event_wf e \<Longrightarrow> list_all label_ok (event_labels e) \<and> length (event_labels e) \<le> 99"
  by (cases e) (simp_all add: process_exec_labels_ok file_open_labels_ok open_attempt_labels_ok
      label_ok_simps length_tcp_state_str)

fun event_source :: "kernel_event \<Rightarrow> string" where
  "event_source (ProcessExec e) = ''alki/process_exec''"
| "event_source (FileOpen e) = ''alki/file_open''"
| "event_source (FileOpenAttempt e) = ''alki/file_open_attempt''"
| "event_source (TcpConnect e) = ''alki/tcp_connect''"
| "event_source (TcpClose e) = ''alki/tcp_close''"
| "event_source (TcpRetransmit e) = ''alki/tcp_retransmit''"

fun event_type :: "kernel_event \<Rightarrow> string" where
  "event_type (ProcessExec e) = ''ernel.process.exec''"
| "event_type (FileOpen e) = ''ernel.file.open''"
| "event_type (FileOpenAttempt e) = ''ernel.file.open_attempt''"
| "event_type (TcpConnect e) = ''ernel.tcp.connect''"
| "event_type (TcpClose e) = ''ernel.tcp.close''"
| "event_type (TcpRetransmit e) = ''ernel.tcp.retransmit''"

lemma duration_fields [simp]:
  "occ_source (duration_us_update f occ) = occ_source occ"
  "occurrence_type (duration_us_update f occ) = occurrence_type occ"
  "occ_cluster (duration_us_update f occ) = occ_cluster occ"
  "occ_namespace (duration_us_update f occ) = occ_namespace occ"
  "entity_ids (duration_us_update f occ) = entity_ids occ"
  by simp_all

lemma to_occurrence_fields:
  "occ_source (to_occurrence i now c e) = CHR ''j'' # event_source e"
  "occurrence_type (to_occurrence i now c e) = CHR ''k'' # event_type e"
  "occ_cluster (to_occurrence i now c e) = c"
  "occ_namespace (to_occurrence i now c e) = None"
  "length (entity_ids (to_occurrence i now c e)) \<le> 2"
  by (cases e; simp add: projection_defs Let_def builder_defs)+

declare to_occurrence.simps [simp del]

lemma normalised_wf:
  assumes "event_wf e" and "trim cluster \<noteq> []" and "length cluster \<le> 256"
  shows "occurrence_wf (to_occurrence i now cluster e)"
proof (rule occurrence_wfI [where cluster = cluster])
  have "list_all label_ok (labels (to_occurrence i now cluster e)) \<and>
        length (labels (to_occurrence i now cluster e)) \<le> 99"
    unfolding to_occurrence_labels
    using event_labels_ok [OF assms(1)] by (intro labels_insert_ok) simp_all
  then show "list_all label_ok (labels (to_occurrence i now cluster e))"
    and "length (labels (to_occurrence i now cluster e)) \<le> 100" by auto
  show "length (entity_ids (to_occurrence i now cluster e)) \<le> 100"
    using to_occurrence_fields(5) [of i now cluster e] by simp
  show "length (event_source e) \<le> 255" "length (event_type e) \<le> 255"
    by (cases e; simp)+
qed (rule to_occurrence_fields assms)+

section \<open>The runtime subject of an exec event\<close>

lemma label_to_occurrence:
  "label (to_occurrence i now c e) = overlay (event_labels e) Map.empty"
proof -
  have "label (to_occurrence i now c e) =
        label (insert_labels (event_labels e) (new_occurrence i now [] []))"
    by (simp add: label_def to_occurrence_labels)
  also have "\<dots> = overlay (event_labels e) Map.empty"
    unfolding label_insert_labels by (rule arg_cong [where f = "overlay _"]) (rule ext, simp)
  finally show ?thesis .
qed

lemma opt_label_keys: "fst ` set (opt_label k v) \<subseteq> {k}"
  by (auto simp: opt_label_def split: option.splits)

definition binding_keys :: "string set" where
  "binding_keys =
     {''k8s_container_id'', ''k8s_pod_uid'', ''k8s_pod_name'', ''k8s_namespace'',
      ''k8s_service_account'', ''k8s_owner_kind'', ''k8s_owner_name'', ''k8s_owner_uid'',
      ''evidence_level'', ''runtime_binding'', ''unbound_reason''}"

lemma opt_label_subset: "k \<in> S \<Longrightarrow> fst ` set (opt_label k v) \<subseteq> S"
  using opt_label_keys [of k v] by blast

lemma binding_labels_keys: "fst ` set (binding_labels b) \<subseteq> binding_keys"
proof (cases b)
  case None
  then show ?thesis by (simp add: binding_labels_def)
next
  case (Some r)
  show ?thesis
  proof (cases r)
    case (Bound f)
    show ?thesis
      by (simp add: Some Bound binding_labels_def image_Un opt_label_subset binding_keys_def)
  next
    case (Unbound reason)
    show ?thesis by (simp add: Some Unbound binding_labels_def binding_keys_def)
  qed
qed

lemma binding_keeps:
  "k \<notin> binding_keys \<Longrightarrow> label (apply_runtime_binding b occ) k = label occ k"
  using binding_labels_keys [of b] unfolding label_apply_runtime_binding
  by (intro overlay_other) blast

lemma overlay_self: "overlay kvs m k = (case map_of (rev kvs) k of None \<Rightarrow> m k | Some v \<Rightarrow> Some v)"
  by (simp add: overlay_map_add map_add_def)

text \<open>What the subject of an exec event is, from the event and the producer alone.\<close>

definition exec_subject ::
  "(u8 list \<Rightarrow> u8 list) \<Rightarrow> producer_metadata \<Rightarrow> process_exec_event \<Rightarrow> runtime_subject option" where
  "exec_subject sha256 producer e =
     (case (pm_node_identity producer, pm_boot_id producer) of
        (Some node, Some boot) \<Rightarrow>
          (case new_subject sha256 node boot (pe_pid e) (pe_leader_start e) of
             Inl _ \<Rightarrow> None | Inr s \<Rightarrow> Some s)
      | _ \<Rightarrow> None)"

lemma new_subject_zero_start: "\<exists>err. new_subject sha256 node boot tgid 0 = Inl err"
  by (auto simp: new_subject_def split: sum.splits)

lemma parse_show_u32: "parse_uint u32_max (show_word (w :: u32)) = Some (unat w)"
  using unsigned_less [where 'a = nat, of w]
  by (simp add: show_word_def u32_max_def parse_uint_decimal)

lemma parse_show_u64: "parse_uint u64_max (show_word (w :: u64)) = Some (unat w)"
  using unsigned_less [where 'a = nat, of w]
  by (simp add: show_word_def u64_max_def parse_uint_decimal)

lemma exec_label_values:
  "overlay (process_exec_labels e) Map.empty ''host_tgid'' = Some (show_word (pe_pid e))"
  "overlay (process_exec_labels e) Map.empty ''leader_start_boottime_ns'' =
     (if pe_leader_start e = 0 then None else Some (show_word (pe_leader_start e)))"
  "overlay (process_exec_labels e) Map.empty ''runtime_identity_method'' =
     (if pe_leader_start e = 0 then None else Some identity_method_v1)"
  by (simp_all add: process_exec_labels_def identity_method_v1_def)

lemma subject_of_exec:
  assumes lab: "\<And>k. k \<in> {''host_tgid'', ''leader_start_boottime_ns'', ''runtime_identity_method''} \<Longrightarrow>
      label occ k = overlay (process_exec_labels e) Map.empty k"
  shows "subject_of_labels sha256 producer occ = exec_subject sha256 producer e"
proof (cases "pe_leader_start e = 0")
  case True
  then obtain err where "\<And>node boot. \<exists>err. new_subject sha256 node boot (pe_pid e) (pe_leader_start e) = Inl err"
    using new_subject_zero_start by metis
  then have "exec_subject sha256 producer e = None"
    by (auto simp: exec_subject_def split: option.splits sum.splits)
      (metis old.sum.distinct(1))
  with True show ?thesis
    by (simp add: subject_of_labels_def lab exec_label_values)
next
  case False
  then show ?thesis
    by (simp add: subject_of_labels_def lab exec_label_values exec_subject_def
        parse_show_u32 parse_show_u64 split: option.splits)
qed

section \<open>Properties\<close>

text \<open>
  whatever bytes the kernel delivers, an event that decodes normalises to an occurrence
  that passes the protocol's validation, for every cluster name that is not blank and at
  most 256 bytes long.
\<close>

theorem decoded_event_validates:
  assumes "event_from_bytes probe raw = Inr e" and "trim cluster \<noteq> []"
    and "length cluster \<le> 256"
  shows "validate (to_occurrence ident now cluster e) = Inr ()"
  using normalised_wf [OF event_from_bytes_wf [OF assms(1)] assms(2,3)]
  by (simp add: validate_ok_iff)

theorem decoded_event_validates_witness:
  "\<exists>e. event_from_bytes 3 (replicate 96 0x41) = Inr e \<and>
       validate (to_occurrence 5 0 ''kube-1'' e) = Inr ()"
proof -
  have d: "event_from_bytes 3 (replicate 96 0x41) = Inr
      (TcpConnect (tcp_connect_of (read_fields 0 tcp_connect_layout (replicate 96 0x41))))"
    by (simp add: tcp_connect_from_bytes_def read_raw_def event_sizes map_result_def)
  have t: "trim ''kube-1'' \<noteq> []" by (rule trim_visible [OF visible_jk(2)])
  have l: "length ''kube-1'' \<le> 256" by simp
  show ?thesis using d decoded_event_validates [OF d t l] by blast
qed

text \<open>
  the label \<open>runtime_subject_id\<close> that leaves the node on an exec record, whatever its
  binding, is the identity of that very process: it is computed from the thread-group id and
  leader start time of the event (printed into labels by normalization and parsed back by
  the projection) with the producer's node and boot identity, and it is absent when either
  is missing, malformed or the start time is zero.
\<close>

theorem exec_runtime_subject:
  "label (into_occurrence_with_metadata sha256 producer
           \<lparr>observed_at_ns = t, er_pid = pid, er_cgroup_id = cg, er_probe = probe,
            er_occurrence = to_occurrence ident now cluster (ProcessExec e),
            er_binding = binding\<rparr>) ''runtime_subject_id'' =
   map_option runtime_subject_id (exec_subject sha256 producer e)"
proof -
  let ?r = "\<lparr>observed_at_ns = t, er_pid = pid, er_cgroup_id = cg, er_probe = probe,
     er_occurrence = to_occurrence ident now cluster (ProcessExec e), er_binding = binding\<rparr>"
  let ?occ = "apply_runtime_binding binding (to_occurrence ident now cluster (ProcessExec e))"
  have s: "subject_of_labels sha256 producer ?occ = exec_subject sha256 producer e"
    by (rule subject_of_exec)
      (auto simp: binding_keeps binding_keys_def label_to_occurrence)
  have own: "label ?occ ''runtime_subject_id'' = None"
    by (simp add: binding_keeps binding_keys_def label_to_occurrence process_exec_labels_def)
  have "label (into_occurrence_with_metadata sha256 producer ?r) ''runtime_subject_id'' =
        overlay (subject_labels (exec_subject sha256 producer e)) (label ?occ) ''runtime_subject_id''"
    by (simp add: into_occurrence_with_metadata_def Let_def label_insert_labels
        label_apply_runtime_subject s metadata_labels_def)
  also have "\<dots> = map_option runtime_subject_id (exec_subject sha256 producer e)"
    by (cases "exec_subject sha256 producer e") (simp_all add: subject_labels_def own)
  finally show ?thesis .
qed

text \<open>
  the shed class of a normalised record is decided by the probe: connection closes and
  retransmissions are reliability evidence, everything else (execs, opens, failed opens,
  connects) is attribution evidence.
\<close>

theorem normalised_class:
  "map record_class (normalize ident now probe cluster e) =
   [case e of TcpClose _ \<Rightarrow> Reliability | TcpRetransmit _ \<Rightarrow> Reliability | _ \<Rightarrow> Attribution]"
  by (cases e)
    (simp_all add: normalize_def record_class_def to_occurrence_fields class_of_def
     )

end
