(* ===== verification/Spool.thy ===== *)
theory Spool
  imports Evidence
begin

text \<open>
  The on-disk backlog (\<open>jalki-evidence/src/spool.rs\<close>): length-prefixed frames, append,
  replay and compaction.  The disk is the bytes of the spool file and of the temporary file
  beside it; a plan of the operating system's answers says which call fails and how many
  bytes of a write reach the file before it does, so every crash point is a plan.
  \<open>to_vec\<close> and \<open>from_slice\<close> stand for \<open>serde_json\<close>.  The lemmas show that replay reads
  back what compaction wrote, that a torn tail costs only itself, and that compaction is
  atomic.
\<close>

section \<open>State\<close>

definition max_frame_bytes :: nat where
  "max_frame_bytes = 64 * 1024 * 1024"

record replay_report =
  rp_batches :: nat
  rp_records :: nat
  torn_tail_bytes :: nat

record spool =
  sp_max_bytes :: nat
  sp_file_bytes :: nat
  sp_disabled :: "string option"

text \<open>The path of the spool and its \<open>.compacting\<close> sibling; \<open>None\<close> is no file.\<close>

record disk =
  main_file :: "u8 list option"
  tmp_file :: "u8 list option"

text \<open>
  What the system calls of one operation answer: opening (creating) the file, writing (the
  number of bytes that get through before an error), syncing and renaming.
\<close>

record io_plan =
  open_fault :: "string option"
  write_fault :: "(nat \<times> string) option"
  sync_fault :: "string option"
  rename_fault :: "string option"

definition all_well :: io_plan where
  "all_well = \<lparr>open_fault = None, write_fault = None, sync_fault = None, rename_fault = None\<rparr>"

definition file_bytes :: "u8 list option \<Rightarrow> u8 list" where
  "file_bytes f = (case f of None \<Rightarrow> [] | Some bs \<Rightarrow> bs)"

text \<open>The bytes that reach a file, and the error if the write was cut short.\<close>

definition write_out :: "io_plan \<Rightarrow> u8 list \<Rightarrow> u8 list \<times> string option" where
  "write_out io bs =
     (case write_fault io of
        None \<Rightarrow> (bs, None)
      | Some (n, msg) \<Rightarrow> if n < length bs then (take n bs, Some msg) else (bs, None))"

definition open_spool :: "bool \<Rightarrow> nat \<Rightarrow> disk \<Rightarrow> spool option" where
  "open_spool dir_ok budget d =
     (if \<not> dir_ok then None
      else Some \<lparr>sp_max_bytes = budget, sp_file_bytes = length (file_bytes (main_file d)),
                 sp_disabled = None\<rparr>)"

section \<open>Appending\<close>

definition frame :: "u8 list \<Rightarrow> u8 list" where
  "frame body = be_bytes 4 (length body) @ body"

definition try_append ::
  "(evidence_batch \<Rightarrow> string + u8 list) \<Rightarrow> io_plan \<Rightarrow> evidence_batch \<Rightarrow> disk \<Rightarrow>
   (string + nat) \<times> disk" where
  "try_append to_vec io batch d =
     (case to_vec batch of
        Inl e \<Rightarrow> (Inl e, d)
      | Inr body \<Rightarrow>
          if u32_max < length body then (Inl ''batch exceeds frame size'', d)
          else (case open_fault io of
            Some e \<Rightarrow> (Inl e, d)
          | None \<Rightarrow>
              (case write_out io (frame body) of
                 (written, err) \<Rightarrow>
                   (let d' = d\<lparr>main_file := Some (file_bytes (main_file d) @ written)\<rparr>
                    in (case err of Some e \<Rightarrow> (Inl e, d') | None \<Rightarrow> (Inr (4 + length body), d'))))))"

definition append_spool ::
  "(evidence_batch \<Rightarrow> string + u8 list) \<Rightarrow> io_plan \<Rightarrow> evidence_batch \<Rightarrow> spool \<Rightarrow> disk \<Rightarrow>
   bool \<times> spool \<times> disk" where
  "append_spool to_vec io batch s d =
     (if sp_disabled s \<noteq> None \<or> sp_max_bytes s \<le> sp_file_bytes s then (False, s, d)
      else (case try_append to_vec io batch d of
              (Inr written, d') \<Rightarrow> (True, s\<lparr>sp_file_bytes := sp_file_bytes s + written\<rparr>, d')
            | (Inl e, d') \<Rightarrow> (False, s\<lparr>sp_disabled := Some e\<rparr>, d')))"

section \<open>Replay\<close>

text \<open>The loop: the batches read and the bytes consumed.\<close>

function replay_loop ::
  "(u8 list \<Rightarrow> evidence_batch option) \<Rightarrow> u8 list \<Rightarrow> evidence_batch list \<times> nat" where
  "replay_loop from_slice bs =
     (if length bs < 4 then ([], 0)
      else (let len = be_nat (take 4 bs); rest = drop 4 bs
            in if len = 0 \<or> max_frame_bytes < len \<or> length rest < len then ([], 0)
               else (case from_slice (take len rest) of
                       None \<Rightarrow> ([], 0)
                     | Some b \<Rightarrow>
                         (case replay_loop from_slice (drop len rest) of
                            (batches, consumed) \<Rightarrow> (b # batches, 4 + len + consumed)))))"
  by pat_completeness auto
termination
  by (relation "measure (\<lambda>(from_slice, bs). length bs)") auto

declare replay_loop.simps [simp del]

definition replay ::
  "(u8 list \<Rightarrow> evidence_batch option) \<Rightarrow> u8 list option \<Rightarrow> evidence_batch list \<times> replay_report" where
  "replay from_slice f =
     (case f of
        None \<Rightarrow> ([], \<lparr>rp_batches = 0, rp_records = 0, torn_tail_bytes = 0\<rparr>)
      | Some bs \<Rightarrow>
          (case replay_loop from_slice bs of
             (batches, consumed) \<Rightarrow>
               (batches, \<lparr>rp_batches = length batches,
                          rp_records = sum_list (map batch_len batches),
                          torn_tail_bytes = length bs - consumed\<rparr>)))"

section \<open>Compaction\<close>

text \<open>
  The frames of \<open>try_compact\<close>: a body whose length does not fit \<open>u32\<close> is skipped, one that
  does not serialize ends the compaction with an error.
\<close>

fun compact_frames ::
  "(evidence_batch \<Rightarrow> string + u8 list) \<Rightarrow> evidence_batch list \<Rightarrow> string + u8 list" where
  "compact_frames to_vec [] = Inr []"
| "compact_frames to_vec (b # bs) =
     (case to_vec b of
        Inl e \<Rightarrow> Inl e
      | Inr body \<Rightarrow>
          (case compact_frames to_vec bs of
             Inl e \<Rightarrow> Inl e
           | Inr rest \<Rightarrow> Inr (if u32_max < length body then rest else frame body @ rest)))"

text \<open>
  The temporary file is created, written through a buffer and synced before it is renamed
  over the spool.  When a batch fails to serialize, what the buffered writer has flushed of
  the earlier frames stays in the temporary file, which nothing reads; the model leaves it
  empty.
\<close>

definition try_compact ::
  "(evidence_batch \<Rightarrow> string + u8 list) \<Rightarrow> io_plan \<Rightarrow> evidence_batch list \<Rightarrow> disk \<Rightarrow>
   (string + nat) \<times> disk" where
  "try_compact to_vec io batches d =
     (case open_fault io of
        Some e \<Rightarrow> (Inl e, d)
      | None \<Rightarrow>
          (case compact_frames to_vec batches of
             Inl e \<Rightarrow> (Inl e, d\<lparr>tmp_file := Some []\<rparr>)
           | Inr content \<Rightarrow>
               (case write_out io content of
                  (written, Some e) \<Rightarrow> (Inl e, d\<lparr>tmp_file := Some written\<rparr>)
                | (written, None) \<Rightarrow>
                    (case sync_fault io of
                       Some e \<Rightarrow> (Inl e, d\<lparr>tmp_file := Some written\<rparr>)
                     | None \<Rightarrow>
                         (case rename_fault io of
                            Some e \<Rightarrow> (Inl e, d\<lparr>tmp_file := Some written\<rparr>)
                          | None \<Rightarrow> (Inr (length content),
                                     d\<lparr>main_file := Some written, tmp_file := None\<rparr>))))))"

definition compact ::
  "(evidence_batch \<Rightarrow> string + u8 list) \<Rightarrow> io_plan \<Rightarrow> evidence_batch list \<Rightarrow> spool \<Rightarrow> disk \<Rightarrow>
   bool \<times> spool \<times> disk" where
  "compact to_vec io batches s d =
     (if sp_disabled s \<noteq> None then (False, s, d)
      else (case try_compact to_vec io batches d of
              (Inr n, d') \<Rightarrow> (True, s\<lparr>sp_file_bytes := n\<rparr>, d')
            | (Inl e, d') \<Rightarrow> (False, s\<lparr>sp_disabled := Some e\<rparr>, d')))"

definition clear_spool ::
  "(evidence_batch \<Rightarrow> string + u8 list) \<Rightarrow> io_plan \<Rightarrow> spool \<Rightarrow> disk \<Rightarrow> bool \<times> spool \<times> disk" where
  "clear_spool to_vec io s d = compact to_vec io [] s d"

section \<open>Frames\<close>

text \<open>A batch that serializes to a frame replay accepts and parses back.\<close>

definition spoolable ::
  "(evidence_batch \<Rightarrow> string + u8 list) \<Rightarrow> (u8 list \<Rightarrow> evidence_batch option) \<Rightarrow>
   evidence_batch \<Rightarrow> bool" where
  "spoolable to_vec from_slice b =
     (case to_vec b of
        Inl e \<Rightarrow> False
      | Inr body \<Rightarrow> 0 < length body \<and> length body \<le> max_frame_bytes \<and> from_slice body = Some b)"

definition frames_of ::
  "(evidence_batch \<Rightarrow> string + u8 list) \<Rightarrow> evidence_batch list \<Rightarrow> u8 list" where
  "frames_of to_vec bs =
     concat (map (\<lambda>b. case to_vec b of Inl e \<Rightarrow> [] | Inr body \<Rightarrow> frame body) bs)"

lemma frame_framed: "frame body = be.framed 4 body"
  by (simp add: frame_def be.framed_def)

lemma max_frame_less: "max_frame_bytes < 256 ^ 4" and max_frame_u32: "max_frame_bytes \<le> u32_max"
  by (simp_all add: max_frame_bytes_def u32_max_def)

lemma replay_loop_frame:
  assumes "0 < length body" and "length body \<le> max_frame_bytes" and "from_slice body = Some b"
  shows "replay_loop from_slice (frame body @ rest) =
         (b # fst (replay_loop from_slice rest), length (frame body) + snd (replay_loop from_slice rest))"
proof -
  have "length body < 256 ^ 4" using assms(2) max_frame_less by linarith
  note u = be.unframe [OF this, of rest]
  have d: "drop (length body) (drop 4 (frame body @ rest)) = rest"
    by (simp add: frame_def)
  show ?thesis
    using assms u
    by (subst replay_loop.simps)
      (simp add: frame_framed [symmetric] d Let_def case_prod_unfold, simp add: frame_def)
qed

lemma frames_of_Cons:
  "frames_of to_vec (b # bs) =
   (case to_vec b of Inl e \<Rightarrow> [] | Inr body \<Rightarrow> frame body) @ frames_of to_vec bs"
  by (simp add: frames_of_def)

lemma replay_frames:
  "\<forall>b \<in> set bs. spoolable to_vec from_slice b \<Longrightarrow>
   replay_loop from_slice (frames_of to_vec bs @ rest) =
   (bs @ fst (replay_loop from_slice rest),
    length (frames_of to_vec bs) + snd (replay_loop from_slice rest))"
proof (induction bs)
  case Nil
  then show ?case by (simp add: frames_of_def)
next
  case (Cons b bs)
  then obtain body where body: "to_vec b = Inr body" "0 < length body"
    "length body \<le> max_frame_bytes" "from_slice body = Some b"
    by (auto simp: spoolable_def split: sum.splits)
  show ?case
    using replay_loop_frame [where from_slice = from_slice, OF body(2-4), of "frames_of to_vec bs @ rest"] Cons body(1)
    by (simp add: frames_of_Cons)
qed

text \<open>A frame cut anywhere before its end contributes nothing.\<close>

lemma replay_torn:
  assumes "n < length (frame body)" and "length body \<le> max_frame_bytes"
  shows "replay_loop from_slice (take n (frame body)) = ([], 0)"
proof (cases "n < 4")
  case True
  then have "length (take n (frame body)) < 4" by simp
  then show ?thesis by (subst replay_loop.simps) (simp del: length_take)
next
  case False
  then obtain m where n: "n = 4 + m" by (metis add.commute le_Suc_ex not_less)
  then have t: "take n (frame body) = be_bytes 4 (length body) @ take m body"
    by (simp add: frame_def)
  have "length body < 256 ^ 4" using assms(2) max_frame_less by linarith
  then have "be_nat (be_bytes 4 (length body)) = length body" by (rule be.dec_enc_exact)
  moreover have "m < length body" using assms(1) n by (simp add: frame_def)
  ultimately show ?thesis
    by (subst replay_loop.simps) (simp add: t)
qed

lemma frames_of_nonempty_length: "to_vec b = Inr body \<Longrightarrow> 4 \<le> length (frames_of to_vec [b])"
  by (simp add: frames_of_def frame_def)

text \<open>Any cut of a file of intact frames.\<close>

lemma replay_prefix:
  "\<forall>b \<in> set bs. spoolable to_vec from_slice b \<Longrightarrow>
   \<exists>k \<le> length bs. replay_loop from_slice (take n (frames_of to_vec bs)) =
     (take k bs, length (frames_of to_vec (take k bs))) \<and>
     length (frames_of to_vec (take k bs)) \<le> n \<and>
     (k < length bs \<longrightarrow> n < length (frames_of to_vec (take (Suc k) bs)))"
proof (induction bs arbitrary: n)
  case Nil
  then show ?case by (simp add: frames_of_def replay_loop.simps)
next
  case (Cons b bs)
  then obtain body where body: "to_vec b = Inr body" "0 < length body"
    "length body \<le> max_frame_bytes" "from_slice body = Some b"
    by (auto simp: spoolable_def split: sum.splits)
  let ?f = "frame body"
  have fs: "frames_of to_vec (b # bs) = ?f @ frames_of to_vec bs"
    using body(1) by (simp add: frames_of_Cons)
  show ?case
  proof (cases "n < length ?f")
    case True
    then have "take n (frames_of to_vec (b # bs)) = take n ?f" by (simp add: fs)
    with True replay_torn [OF True body(3)] show ?thesis
      by (intro exI [of _ 0]) (simp add: frames_of_def body(1))
  next
    case False
    then have t: "take n (frames_of to_vec (b # bs)) =
        ?f @ take (n - length ?f) (frames_of to_vec bs)" by (simp add: fs)
    from Cons.IH [of "n - length ?f"] Cons.prems obtain k where k: "k \<le> length bs"
      "replay_loop from_slice (take (n - length ?f) (frames_of to_vec bs)) =
         (take k bs, length (frames_of to_vec (take k bs)))"
      "length (frames_of to_vec (take k bs)) \<le> n - length ?f"
      "k < length bs \<longrightarrow> n - length ?f < length (frames_of to_vec (take (Suc k) bs))" by auto
    have "replay_loop from_slice (take n (frames_of to_vec (b # bs))) =
        (b # take k bs, length ?f + length (frames_of to_vec (take k bs)))"
      unfolding t using replay_loop_frame [where from_slice = from_slice, OF body(2-4)] k(2) by simp
    with False k show ?thesis
      by (intro exI [of _ "Suc k"]) (auto simp: frames_of_Cons body(1))
  qed
qed

lemma compact_frames_ok:
  "\<forall>b \<in> set bs. \<exists>body. to_vec b = Inr body \<and> length body \<le> u32_max \<Longrightarrow>
   compact_frames to_vec bs = Inr (frames_of to_vec bs)"
  by (induction bs) (auto simp: frames_of_def)

lemma spoolable_u32:
  "\<forall>b \<in> set bs. spoolable to_vec from_slice b \<Longrightarrow>
   \<forall>b \<in> set bs. \<exists>body. to_vec b = Inr body \<and> length body \<le> u32_max"
  using max_frame_u32 by (fastforce simp: spoolable_def split: sum.splits)

section \<open>Properties\<close>


definition tiny_json :: "evidence_batch \<Rightarrow> string + u8 list" where
  "tiny_json b = Inr (as_bytes (batch_id b))"

definition tiny_batch :: "string \<Rightarrow> evidence_batch" where
  "tiny_batch ident = new_batch ident (new_producer ''0.3'' ''kube'' ''node'' ''6.1'') []"

definition tiny_parse :: "u8 list \<Rightarrow> evidence_batch option" where
  "tiny_parse bs = Some (tiny_batch (of_bytes bs))"

lemma tiny_spoolable:
  "ident \<noteq> [] \<Longrightarrow> length ident \<le> 100 \<Longrightarrow> spoolable tiny_json tiny_parse (tiny_batch ident)"
  by (simp add: spoolable_def tiny_json_def tiny_parse_def tiny_batch_def max_frame_bytes_def)


text \<open>
  C30: a torn tail costs only itself: cutting a file of intact frames anywhere, replay returns
  exactly the batches whose frames are complete, and reports as torn precisely the bytes
  after the last complete frame, fewer than the next frame has.
\<close>

theorem replay_torn_tail:
  assumes "\<forall>b \<in> set bs. spoolable to_vec from_slice b" and "n \<le> length (frames_of to_vec bs)"
  shows "\<exists>k \<le> length bs.
           fst (replay from_slice (Some (take n (frames_of to_vec bs)))) = take k bs \<and>
           torn_tail_bytes (snd (replay from_slice (Some (take n (frames_of to_vec bs))))) =
             n - length (frames_of to_vec (take k bs)) \<and>
           length (frames_of to_vec (take k bs)) \<le> n \<and>
           (k < length bs \<longrightarrow> n < length (frames_of to_vec (take (Suc k) bs)))"
  using replay_prefix [OF assms(1), of n] assms(2)
  by (auto simp: replay_def)

theorem replay_torn_tail_witness:
  "\<exists>k \<le> 2. fst (replay tiny_parse (Some (take 12 (frames_of tiny_json
       [tiny_batch ''first'', tiny_batch ''second''])))) =
     take k [tiny_batch ''first'', tiny_batch ''second''] \<and> k = 1"
proof -
  let ?bs = "[tiny_batch ''first'', tiny_batch ''second'']"
  have sp: "\<forall>b \<in> set ?bs. spoolable tiny_json tiny_parse b" by (simp add: tiny_spoolable)
  have len: "length (frames_of tiny_json ?bs) = 19" "length (frames_of tiny_json (take 1 ?bs)) = 9"
    by (simp_all add: frames_of_def tiny_json_def tiny_batch_def frame_def)
  then have n: "12 \<le> length (frames_of tiny_json ?bs)" by simp
  from replay_torn_tail [OF sp n] obtain k where k: "k \<le> length ?bs"
    "fst (replay tiny_parse (Some (take 12 (frames_of tiny_json ?bs)))) = take k ?bs"
    "length (frames_of tiny_json (take k ?bs)) \<le> 12"
    "k < length ?bs \<longrightarrow> 12 < length (frames_of tiny_json (take (Suc k) ?bs))" by blast
  from k(1) have "k = 0 \<or> k = 1 \<or> k = 2" by auto
  with k(3,4) len have "k = 1" by (auto simp: frames_of_def)
  with k(2) show ?thesis by (intro exI [of _ k]) simp
qed

text \<open>
  an append extends what replay will return by exactly that batch; if the write fails at
  any byte, what replay returns is unchanged, the caller is told and the spool is off.
\<close>

theorem append_extends_replay:
  assumes "\<forall>b \<in> set (bs @ [batch]). spoolable to_vec from_slice b"
    and "file_bytes (main_file d) = frames_of to_vec bs"
    and "append_spool to_vec io batch s d = (ok, s', d')"
  shows "fst (replay from_slice (Some (file_bytes (main_file d')))) =
           (if ok then bs @ [batch] else bs) \<and>
         (ok \<or> sp_disabled s' \<noteq> None \<or> sp_max_bytes s \<le> sp_file_bytes s)"
proof -
  from assms(1) obtain body where body: "to_vec batch = Inr body" "0 < length body"
    "length body \<le> max_frame_bytes" "from_slice body = Some batch"
    by (auto simp: spoolable_def split: sum.splits)
  have fits: "\<not> u32_max < length body" using body(3) max_frame_u32 by simp
  have bs: "\<forall>b \<in> set bs. spoolable to_vec from_slice b" using assms(1) by simp
  have old: "fst (replay_loop from_slice (frames_of to_vec bs)) = bs"
    using replay_frames [OF bs, of "[]"] by (simp add: replay_loop.simps [of _ "[]"])
  have new: "fst (replay_loop from_slice (frames_of to_vec bs @ frame body)) = bs @ [batch]"
    using replay_frames [OF bs, of "frame body"] replay_loop_frame [where from_slice = from_slice, OF body(2-4), of "[]"]
    by (simp add: replay_loop.simps [of _ "[]"])
  have torn: "fst (replay_loop from_slice (frames_of to_vec bs @ take n (frame body))) = bs"
    if "n < length (frame body)" for n
    using replay_frames [OF bs, of "take n (frame body)"] replay_torn [OF that body(3)] by simp
  have rp: "fst (replay from_slice (Some x)) = fst (replay_loop from_slice x)" for x
    by (simp add: replay_def case_prod_unfold)
  show ?thesis
    using assms(2,3) fits old new torn body(1)
    unfolding rp
    by (auto simp: append_spool_def try_append_def write_out_def Let_def file_bytes_def
        split: option.splits prod.splits if_splits)
qed

theorem append_extends_replay_witness:
  "\<exists>s' d'. append_spool tiny_json all_well (tiny_batch ''b'')
       \<lparr>sp_max_bytes = 10, sp_file_bytes = 5, sp_disabled = None\<rparr>
       \<lparr>main_file = Some (frames_of tiny_json [tiny_batch ''a'']), tmp_file = None\<rparr> = (True, s', d') \<and>
     fst (replay tiny_parse (Some (file_bytes (main_file d')))) = [tiny_batch ''a'', tiny_batch ''b'']"
proof -
  let ?s = "\<lparr>sp_max_bytes = 10, sp_file_bytes = 5, sp_disabled = None\<rparr>"
  let ?d = "\<lparr>main_file = Some (frames_of tiny_json [tiny_batch ''a'']), tmp_file = None\<rparr>"
  have sp: "\<forall>b \<in> set ([tiny_batch ''a''] @ [tiny_batch ''b'']). spoolable tiny_json tiny_parse b"
    by (simp add: tiny_spoolable)
  have f: "file_bytes (main_file ?d) = frames_of tiny_json [tiny_batch ''a'']"
    by (simp add: file_bytes_def)
  obtain ok s' d' where e: "append_spool tiny_json all_well (tiny_batch ''b'') ?s ?d = (ok, s', d')"
    by (metis prod.exhaust)
  moreover have "ok"
    using e by (simp add: append_spool_def try_append_def tiny_json_def tiny_batch_def
        write_out_def all_well_def u32_max_def Let_def split: prod.splits)
  ultimately show ?thesis using append_extends_replay [OF sp f e] by simp
qed

text \<open>
  compaction, the only way the daemon writes the spool, does not look at the configured
  disk budget: its result is the same under every budget, so the file grows past
  \<open>max_bytes\<close> with the buffer.
\<close>

theorem compact_ignores_budget:
  "compact to_vec io batches (s\<lparr>sp_max_bytes := n\<rparr>) d =
     (case compact to_vec io batches s d of (ok, s', d') \<Rightarrow> (ok, s'\<lparr>sp_max_bytes := n\<rparr>, d'))"
  by (simp add: compact_def split: sum.splits prod.splits)

text \<open>
  a batch whose JSON is longer than the 64 MiB that replay accepts is still written by
  append and by compaction, and then hides itself and every later frame from replay.
\<close>

theorem oversized_frame_hides_rest:
  assumes "max_frame_bytes < length body" and "length body \<le> u32_max"
  shows "replay_loop from_slice (frame body @ rest) = ([], 0) \<and>
         compact_frames (\<lambda>b. Inr body) [batch] = Inr (frame body)"
proof -
  have "length body < 256 ^ 4" using assms(2) by (simp add: u32_max_def)
  then have "be_nat (be_bytes 4 (length body)) = length body" by (rule be.dec_enc_exact)
  then show ?thesis
    using assms by (subst replay_loop.simps) (simp add: frame_def)
qed

theorem oversized_frame_hides_rest_witness:
  "replay_loop tiny_parse (frame (replicate (64 * 1024 * 1024 + 1) 32) @
     frames_of tiny_json [tiny_batch ''a'']) = ([], 0)"
proof -
  have "max_frame_bytes < length (replicate (64 * 1024 * 1024 + 1) (32 :: u8))"
    and "length (replicate (64 * 1024 * 1024 + 1) (32 :: u8)) \<le> u32_max"
    by (simp_all add: max_frame_bytes_def u32_max_def)
  from oversized_frame_hides_rest [OF this] show ?thesis by simp
qed

end
