(* ===== verification/Sinks.thy ===== *)
theory Sinks
  imports Evidence
begin

text \<open>
  Evidence sinks (\<open>jalki-evidence/src/sink.rs\<close>): the error and result types, the NDJSON
  encodings, the pipeline sink and the composite sink.  A sink is a function on a world
  \<open>'w\<close> (the transport, a file, another sink's state); the pipeline client, file and
  standard output operations and \<open>serde_json\<close> are parameters.
\<close>

section \<open>Results and errors\<close>

record append_result =
  accepted_count :: nat
  rejected_count :: nat
  ar_sink_name :: string
  watermark :: "string option"
  warnings :: "string list"

definition append_accepted :: "string \<Rightarrow> nat \<Rightarrow> append_result" where
  "append_accepted nm n =
     \<lparr>accepted_count = n, rejected_count = 0, ar_sink_name = nm, watermark = None,
      warnings = []\<rparr>"

datatype health_status = Healthy | Degraded string | Unhealthy string

definition is_healthy :: "health_status \<Rightarrow> bool" where
  "is_healthy h = (h = Healthy)"

text \<open>The first argument of each constructor is the sink's name, the last the message.\<close>

datatype sink_error =
  SUnavailable string string | STimeout string string | SInvalidRecord string string |
  SRejected string string | SBackpressure string string | SUnauthorized string string |
  SMisconfigured string string | SPartialFailure string nat nat string |
  SUnsupported string string

fun sink_error_name :: "sink_error \<Rightarrow> string" where
  "sink_error_name (SUnavailable s m) = s"
| "sink_error_name (STimeout s m) = s"
| "sink_error_name (SInvalidRecord s m) = s"
| "sink_error_name (SRejected s m) = s"
| "sink_error_name (SBackpressure s m) = s"
| "sink_error_name (SUnauthorized s m) = s"
| "sink_error_name (SMisconfigured s m) = s"
| "sink_error_name (SPartialFailure s a r m) = s"
| "sink_error_name (SUnsupported s m) = s"

fun display_sink_error :: "sink_error \<Rightarrow> string" where
  "display_sink_error (SUnavailable s m) = ''sink '' @ s @ '' unavailable: '' @ m"
| "display_sink_error (STimeout s m) = ''sink '' @ s @ '' timed out: '' @ m"
| "display_sink_error (SInvalidRecord s m) = ''sink '' @ s @ '' rejected invalid record: '' @ m"
| "display_sink_error (SRejected s m) = ''sink '' @ s @ '' rejected batch: '' @ m"
| "display_sink_error (SBackpressure s m) = ''sink '' @ s @ '' is under backpressure: '' @ m"
| "display_sink_error (SUnauthorized s m) = ''sink '' @ s @ '' unauthorized: '' @ m"
| "display_sink_error (SMisconfigured s m) = ''sink '' @ s @ '' misconfigured: '' @ m"
| "display_sink_error (SPartialFailure s a r m) =
     ''sink '' @ s @ '' partially failed: accepted '' @ decimal a @ '', rejected '' @
     decimal r @ '': '' @ m"
| "display_sink_error (SUnsupported s m) = ''sink '' @ s @ '' unsupported: '' @ m"

section \<open>NDJSON\<close>

text \<open>\<open>json\<close> is \<open>serde_json::to_vec\<close>; \<open>Inl\<close> its error message.\<close>

fun encode_lines ::
  "(occurrence \<Rightarrow> string + u8 list) \<Rightarrow> string \<Rightarrow> occurrence list \<Rightarrow> u8 list \<Rightarrow>
   sink_error + u8 list" where
  "encode_lines json nm [] acc = Inr acc"
| "encode_lines json nm (occ # occs) acc =
     (case json occ of
        Inl msg \<Rightarrow> Inl (SInvalidRecord nm msg)
      | Inr bs \<Rightarrow> encode_lines json nm occs (acc @ bs @ [10]))"

definition encode_ndjson ::
  "(u8 list \<Rightarrow> u8 list) \<Rightarrow> (occurrence \<Rightarrow> string + u8 list) \<Rightarrow> evidence_batch \<Rightarrow> string \<Rightarrow>
   sink_error + (u8 list \<times> nat)" where
  "encode_ndjson sha256 json b nm =
     (let occs = into_occurrences sha256 b
      in case encode_lines json nm occs [] of
           Inl e \<Rightarrow> Inl e | Inr bs \<Rightarrow> Inr (bs, length occs))"

definition encode_plane_b_ndjson ::
  "(u8 list \<Rightarrow> u8 list) \<Rightarrow> (occurrence \<Rightarrow> string + u8 list) \<Rightarrow> evidence_batch \<Rightarrow> string \<Rightarrow>
   sink_error + (u8 list \<times> nat \<times> nat)" where
  "encode_plane_b_ndjson sha256 json b nm =
     (let pr = into_plane_b_projection sha256 b
      in case encode_lines json nm (occurrences pr) [] of
           Inl e \<Rightarrow> Inl e | Inr bs \<Rightarrow> Inr (bs, length (occurrences pr), total_dropped pr))"

section \<open>The pipeline sink\<close>

record pipeline_response =
  pl_accepted_count :: nat
  pl_rejected_count :: nat
  pl_checkpoint :: "string option"
  pl_warnings :: "string list"

definition pipeline_accepted :: "nat \<Rightarrow> pipeline_response" where
  "pipeline_accepted n =
     \<lparr>pl_accepted_count = n, pl_rejected_count = 0, pl_checkpoint = None, pl_warnings = []\<rparr>"

datatype pipeline_error =
  PUnavailable string | PTimeout string | PBackpressure string | PUnauthorized string |
  PRejected string | PInvalidRecord string | PMisconfigured string

fun pipeline_error_to_sink_error :: "string \<Rightarrow> pipeline_error \<Rightarrow> sink_error" where
  "pipeline_error_to_sink_error nm (PUnavailable m) = SUnavailable nm m"
| "pipeline_error_to_sink_error nm (PTimeout m) = STimeout nm m"
| "pipeline_error_to_sink_error nm (PBackpressure m) = SBackpressure nm m"
| "pipeline_error_to_sink_error nm (PUnauthorized m) = SUnauthorized nm m"
| "pipeline_error_to_sink_error nm (PRejected m) = SRejected nm m"
| "pipeline_error_to_sink_error nm (PInvalidRecord m) = SInvalidRecord nm m"
| "pipeline_error_to_sink_error nm (PMisconfigured m) = SMisconfigured nm m"

definition pipeline_result ::
  "string \<Rightarrow> nat \<Rightarrow> nat \<Rightarrow> pipeline_response \<Rightarrow> sink_error + append_result" where
  "pipeline_result nm projected dropped resp =
     (let warns = pl_warnings resp @
            (if 0 < dropped
             then [''dropped '' @ decimal dropped @ '' unbound record(s) from Plane B'']
             else []);
          accepted = min (pl_accepted_count resp) projected;
          rejected = pl_rejected_count resp + dropped
      in if 0 < pl_rejected_count resp
         then Inl (SPartialFailure nm accepted rejected ''pipeline rejected some projected records'')
         else Inr \<lparr>accepted_count = accepted, rejected_count = rejected, ar_sink_name = nm,
                   watermark = pl_checkpoint resp, warnings = warns\<rparr>)"

definition pipeline_append ::
  "(u8 list \<Rightarrow> u8 list) \<Rightarrow> (occurrence \<Rightarrow> string + u8 list) \<Rightarrow>
   (u8 list \<Rightarrow> 'w \<Rightarrow> (pipeline_error + pipeline_response) \<times> 'w) \<Rightarrow> string \<Rightarrow> evidence_batch \<Rightarrow>
   'w \<Rightarrow> (sink_error + append_result) \<times> 'w" where
  "pipeline_append sha256 json post_ndjson nm b w =
     (case encode_plane_b_ndjson sha256 json b nm of
        Inl e \<Rightarrow> (Inl e, w)
      | Inr (body, projected, dropped) \<Rightarrow>
          (case post_ndjson body w of
             (Inl err, w') \<Rightarrow> (Inl (pipeline_error_to_sink_error nm err), w')
           | (Inr resp, w') \<Rightarrow> (pipeline_result nm projected dropped resp, w')))"

section \<open>Standard output and files\<close>

text \<open>
  \<open>write_all\<close> and \<open>flush\<close> (and opening the file for append) are operations of the
  runtime on the world; \<open>Inl\<close> is the I/O error's message.
\<close>

definition stdout_append ::
  "(u8 list \<Rightarrow> u8 list) \<Rightarrow> (occurrence \<Rightarrow> string + u8 list) \<Rightarrow>
   (u8 list \<Rightarrow> 'w \<Rightarrow> (string + unit) \<times> 'w) \<Rightarrow> ('w \<Rightarrow> (string + unit) \<times> 'w) \<Rightarrow>
   evidence_batch \<Rightarrow> 'w \<Rightarrow> (sink_error + append_result) \<times> 'w" where
  "stdout_append sha256 json write_all flush b w =
     (case encode_ndjson sha256 json b ''stdout'' of
        Inl e \<Rightarrow> (Inl e, w)
      | Inr (bs, n) \<Rightarrow>
          (case write_all bs w of
             (Inl m, w) \<Rightarrow> (Inl (SUnavailable ''stdout'' m), w)
           | (Inr _, w) \<Rightarrow>
               (case flush w of
                  (Inl m, w) \<Rightarrow> (Inl (SUnavailable ''stdout'' m), w)
                | (Inr _, w) \<Rightarrow> (Inr (append_accepted ''stdout'' n), w))))"

definition file_append ::
  "(u8 list \<Rightarrow> u8 list) \<Rightarrow> (occurrence \<Rightarrow> string + u8 list) \<Rightarrow> ('w \<Rightarrow> (string + unit) \<times> 'w) \<Rightarrow>
   (u8 list \<Rightarrow> 'w \<Rightarrow> (string + unit) \<times> 'w) \<Rightarrow> ('w \<Rightarrow> (string + unit) \<times> 'w) \<Rightarrow> string \<Rightarrow>
   evidence_batch \<Rightarrow> 'w \<Rightarrow> (sink_error + append_result) \<times> 'w" where
  "file_append sha256 json open_append write_all flush path b w =
     (case encode_ndjson sha256 json b ''file'' of
        Inl e \<Rightarrow> (Inl e, w)
      | Inr (bs, n) \<Rightarrow>
          (case open_append w of
             (Inl m, w) \<Rightarrow> (Inl (SUnavailable path m), w)
           | (Inr _, w) \<Rightarrow>
               (case write_all bs w of
                  (Inl m, w) \<Rightarrow> (Inl (SUnavailable path m), w)
                | (Inr _, w) \<Rightarrow>
                    (case flush w of
                       (Inl m, w) \<Rightarrow> (Inl (SUnavailable path m), w)
                     | (Inr _, w) \<Rightarrow> (Inr (append_accepted ''file'' n), w)))))"

definition file_health ::
  "('w \<Rightarrow> (string + unit) \<times> 'w) \<Rightarrow> 'w \<Rightarrow> health_status \<times> 'w" where
  "file_health open_append w =
     (case open_append w of
        (Inr _, w) \<Rightarrow> (Healthy, w) | (Inl m, w) \<Rightarrow> (Unhealthy m, w))"

section \<open>The composite sink\<close>

record 'w sink =
  sk_name :: string
  sk_append :: "evidence_batch \<Rightarrow> 'w \<Rightarrow> (sink_error + append_result) \<times> 'w"
  sk_health :: "'w \<Rightarrow> health_status \<times> 'w"

fun append_secondaries ::
  "'w sink list \<Rightarrow> evidence_batch \<Rightarrow> append_result \<Rightarrow> 'w \<Rightarrow> append_result \<times> 'w" where
  "append_secondaries [] b res w = (res, w)"
| "append_secondaries (s # ss) b res w =
     (case sk_append s b w of
        (Inl err, w') \<Rightarrow>
          append_secondaries ss b
            (res\<lparr>warnings := warnings res @
               [''secondary sink '' @ sk_name s @ '' failed: '' @ display_sink_error err]\<rparr>) w'
      | (Inr _, w') \<Rightarrow> append_secondaries ss b res w')"

definition composite_append ::
  "'w sink \<Rightarrow> 'w sink list \<Rightarrow> evidence_batch \<Rightarrow> 'w \<Rightarrow> (sink_error + append_result) \<times> 'w" where
  "composite_append primary secondaries b w =
     (case sk_append primary b w of
        (Inl e, w') \<Rightarrow> (Inl e, w')
      | (Inr res, w') \<Rightarrow>
          (let res = res\<lparr>ar_sink_name := ''composite''\<rparr>
           in if secondaries = [] then (Inr res, w')
              else (case append_secondaries secondaries b res w' of (r, w'') \<Rightarrow> (Inr r, w''))))"

fun unhealthy_secondaries ::
  "(health_status \<Rightarrow> string) \<Rightarrow> 'w sink list \<Rightarrow> 'w \<Rightarrow> string list \<times> 'w" where
  "unhealthy_secondaries debug [] w = ([], w)"
| "unhealthy_secondaries debug (s # ss) w =
     (let (h, w) = sk_health s w;
          (rest, w) = unhealthy_secondaries debug ss w
      in ((if is_healthy h then [] else [sk_name s @ '': '' @ debug h]) @ rest, w))"

text \<open>\<open>debug\<close> is the derived \<open>Debug\<close> text of a health status.\<close>

definition composite_health ::
  "(health_status \<Rightarrow> string) \<Rightarrow> 'w sink \<Rightarrow> 'w sink list \<Rightarrow> 'w \<Rightarrow> health_status \<times> 'w" where
  "composite_health debug primary secondaries w =
     (let (h, w) = sk_health primary w;
          (warns, w) = unhealthy_secondaries debug secondaries w
      in ((case h of
             Healthy \<Rightarrow> if warns = [] then Healthy
                        else Degraded (''secondary sinks degraded: '' @ join ''; '' warns)
           | Degraded reason \<Rightarrow> Degraded (''primary degraded: '' @ reason)
           | Unhealthy reason \<Rightarrow> Unhealthy (''primary unhealthy: '' @ reason)), w))"

section \<open>NDJSON lines\<close>

lemma encode_lines_ok:
  "encode_lines json nm occs acc = Inr bs \<longleftrightarrow>
   (\<exists>js. list_all2 (\<lambda>occ j. json occ = Inr j) occs js \<and>
         bs = acc @ concat (map (\<lambda>j. j @ [10]) js))"
proof (induction occs arbitrary: acc)
  case Nil
  then show ?case by auto
next
  case (Cons occ occs)
  show ?case
  proof (cases "json occ")
    case (Inl m)
    then show ?thesis by (auto simp: list_all2_Cons1)
  next
    case (Inr j)
    then show ?thesis using Cons.IH [of "acc @ j @ [10]"] by (auto simp: list_all2_Cons1)
  qed
qed

text \<open>Splitting at the newline recovers the documents, since \<open>serde_json\<close> emits none.\<close>

fun ndjson_lines :: "u8 list \<Rightarrow> u8 list \<Rightarrow> u8 list list" where
  "ndjson_lines cur [] = []"
| "ndjson_lines cur (b # bs) =
     (if b = 10 then cur # ndjson_lines [] bs else ndjson_lines (cur @ [b]) bs)"

lemma ndjson_lines_line:
  "10 \<notin> set j \<Longrightarrow> ndjson_lines cur (j @ 10 # rest) = (cur @ j) # ndjson_lines [] rest"
  by (induction j arbitrary: cur) auto

lemma ndjson_lines_concat:
  "\<forall>j \<in> set js. 10 \<notin> set j \<Longrightarrow> ndjson_lines [] (concat (map (\<lambda>j. j @ [10]) js)) = js"
  by (induction js) (auto simp: ndjson_lines_line)

section \<open>The sink interface\<close>

text \<open>
  What the daemon relies on when it counts deliveries: a successful append accounts for at
  most the records of the batch it was given.
\<close>

locale evidence_sink =
  fixes append_batch :: "evidence_batch \<Rightarrow> 'w \<Rightarrow> (sink_error + append_result) \<times> 'w"
  assumes counts: "append_batch b w = (Inr res, w') \<Longrightarrow>
    accepted_count res + rejected_count res \<le> batch_len b"
begin

fun deliver_all :: "evidence_batch list \<Rightarrow> 'w \<Rightarrow> append_result list \<times> 'w" where
  "deliver_all [] w = ([], w)"
| "deliver_all (b # bs) w =
     (case append_batch b w of
        (Inl e, w') \<Rightarrow> ([], w')
      | (Inr r, w') \<Rightarrow> (case deliver_all bs w' of (rs, w'') \<Rightarrow> (r # rs, w'')))"

lemma deliver_all_counts:
  "sum_list (map (\<lambda>r. accepted_count r + rejected_count r) (fst (deliver_all bs w))) \<le>
   sum_list (map batch_len bs)"
proof (induction bs arbitrary: w)
  case Nil
  then show ?case by simp
next
  case (Cons b bs)
  obtain r w' where a: "append_batch b w = (r, w')" by force
  show ?case
  proof (cases r)
    case (Inl e)
    with a show ?thesis by simp
  next
    case (Inr res)
    then have "accepted_count res + rejected_count res \<le> batch_len b"
      using a counts by blast
    moreover obtain rs w'' where d: "deliver_all bs w' = (rs, w'')" by force
    moreover have "sum_list (map (\<lambda>r. accepted_count r + rejected_count r) rs) \<le>
      sum_list (map batch_len bs)" using Cons.IH [of w'] d by simp
    ultimately show ?thesis using a Inr by simp
  qed
qed

lemma secondaries_counts:
  "accepted_count (fst (append_secondaries ss b res w)) = accepted_count res \<and>
   rejected_count (fst (append_secondaries ss b res w)) = rejected_count res"
proof (induction ss b res w rule: append_secondaries.induct)
  case (1 b res w)
  then show ?case by simp
next
  case (2 s ss b res w)
  obtain r w' where "sk_append s b w = (r, w')" by force
  with 2 show ?case by (cases r) auto
qed

lemma composite_counts:
  assumes "sk_append primary = append_batch"
    and "composite_append primary secondaries b w = (Inr res, w')"
  shows "accepted_count res + rejected_count res \<le> batch_len b"
proof -
  obtain r w1 where a: "append_batch b w = (r, w1)" by force
  with assms obtain r0 where r0: "r = Inr r0"
    by (cases r) (auto simp: composite_append_def)
  from a r0 have "accepted_count r0 + rejected_count r0 \<le> batch_len b" using counts by blast
  moreover have "accepted_count res = accepted_count r0 \<and> rejected_count res = rejected_count r0"
    using assms a r0 secondaries_counts [of secondaries b "r0\<lparr>ar_sink_name := ''composite''\<rparr>" w1]
    by (auto simp: composite_append_def Let_def split: if_splits prod.splits)
  ultimately show ?thesis by simp
qed

end

lemma encode_ndjson_count:
  "encode_ndjson sha256 json b nm = Inr (bs, n) \<Longrightarrow> n = batch_len b"
  by (auto simp: encode_ndjson_def into_occurrences_def batch_len_def Let_def split: sum.splits)

interpretation stdout_sink: evidence_sink "stdout_append sha256 json write_all flush"
  for sha256 json write_all flush
  by unfold_locales
    (auto simp: stdout_append_def append_accepted_def dest!: encode_ndjson_count
      split: sum.splits prod.splits)

interpretation file_sink: evidence_sink "file_append sha256 json open_append write_all flush path"
  for sha256 json open_append write_all flush path
  by unfold_locales
    (auto simp: file_append_def append_accepted_def dest!: encode_ndjson_count
      split: sum.splits prod.splits)

lemma encode_plane_b_counts:
  "encode_plane_b_ndjson sha256 json b nm = Inr (bs, n, d) \<Longrightarrow> n + d = batch_len b"
  using projection_total [of sha256 b]
  by (auto simp: encode_plane_b_ndjson_def batch_len_def Let_def split: sum.splits)

interpretation pipeline_sink: evidence_sink "pipeline_append sha256 json post_ndjson nm"
  for sha256 json post_ndjson nm
proof unfold_locales
  fix b w res w'
  assume "pipeline_append sha256 json post_ndjson nm b w = (Inr res, w')"
  then obtain body n d resp where
    e: "encode_plane_b_ndjson sha256 json b nm = Inr (body, n, d)" and
    r: "pipeline_result nm n d resp = Inr res"
    by (auto simp: pipeline_append_def split: sum.splits prod.splits)
  from encode_plane_b_counts [OF e] r
  show "accepted_count res + rejected_count res \<le> batch_len b"
    by (auto simp: pipeline_result_def Let_def split: if_splits)
qed

text \<open>A composite of a lawful primary is lawful, whatever its secondaries do.\<close>

interpretation composite_sink: evidence_sink
  "composite_append
     \<lparr>sk_name = nm, sk_append = pipeline_append sha256 json post_ndjson nm, sk_health = health\<rparr>
     secondaries"
  for nm sha256 json post_ndjson health secondaries
  by unfold_locales (rule pipeline_sink.composite_counts [rotated], assumption, simp)

lemma encode_lines_length:
  "list_all2 (\<lambda>occ j. json occ = Inr j) occs js \<Longrightarrow> length js = length occs"
  by (simp add: list_all2_lengthD)

section \<open>Properties\<close>

text \<open>
  the pipeline sink sends a batch as the NDJSON of exactly its Plane-B projection, so no
  unbound record's content reaches the client, and a success accounts for the batch: the
  drops are the unbound records and accepted plus dropped never exceed the records given.
\<close>

theorem pipeline_append_exact:
  assumes "pipeline_append sha256 json post_ndjson nm b w = (Inr res, w')"
    and "\<And>occ j. json occ = Inr j \<Longrightarrow> 10 \<notin> set j"
  shows "\<exists>body resp. post_ndjson body w = (Inr resp, w') \<and>
           map Inr (ndjson_lines [] body) = map json (into_plane_b_occurrences sha256 b) \<and>
           rejected_count res = total_dropped (into_plane_b_projection sha256 b) \<and>
           accepted_count res + rejected_count res \<le> batch_len b"
proof -
  from assms(1) obtain body n d resp where
    e: "encode_plane_b_ndjson sha256 json b nm = Inr (body, n, d)" and
    p: "post_ndjson body w = (Inr resp, w')" and
    r: "pipeline_result nm n d resp = Inr res"
    by (auto simp: pipeline_append_def split: sum.splits prod.splits)
  let ?occs = "occurrences (into_plane_b_projection sha256 b)"
  from e obtain js where js: "list_all2 (\<lambda>occ j. json occ = Inr j) ?occs js"
    and body: "body = concat (map (\<lambda>j. j @ [10]) js)"
    and d: "d = total_dropped (into_plane_b_projection sha256 b)"
    by (auto simp: encode_plane_b_ndjson_def Let_def encode_lines_ok split: sum.splits)
  from js have "map json ?occs = map Inr js"
    by (induction rule: list_all2_induct) auto
  moreover have "\<forall>j \<in> set js. 10 \<notin> set j"
    using js assms(2) by (induction rule: list_all2_induct) auto
  ultimately have "map Inr (ndjson_lines [] body) = map json ?occs"
    by (simp add: body ndjson_lines_concat)
  moreover have "rejected_count res = d"
    using r by (auto simp: pipeline_result_def Let_def split: if_splits)
  ultimately show ?thesis
    using p d pipeline_sink.counts [OF assms(1)] by (auto simp: into_plane_b_occurrences_def)
qed

definition sample_occurrence :: occurrence where
  "sample_occurrence = new_occurrence 1 0 ''jalki/agent'' ''jalki.agent.gap''"

definition sample_batch :: evidence_batch where
  "sample_batch = new_batch ''b1'' (new_producer ''0.3'' ''kube'' ''node'' ''6.1'')
     [\<lparr>observed_at_ns = 5, er_pid = 0, er_cgroup_id = 0,
       er_probe = \<lparr>pr_probe_id = [], pr_probe_version = [], pr_probe_family = [],
         pr_hook_kind = Fentry, pr_kernel_function = []\<rparr>,
       er_occurrence = sample_occurrence, er_binding = None\<rparr>]"

lemma sample_batch_append:
  "pipeline_append id (\<lambda>occ. Inr [123, 125]) (\<lambda>body w. (Inr (pipeline_accepted 1), w + 1))
     ''pipeline'' sample_batch (0 :: nat) =
   (Inr \<lparr>accepted_count = 1, rejected_count = 0, ar_sink_name = ''pipeline'',
         watermark = None, warnings = []\<rparr>, 1)"
  by (simp add: pipeline_append_def encode_plane_b_ndjson_def into_plane_b_projection_def
      sample_batch_def new_batch_def project_record_def into_plane_b_occurrence_def
      plane_b_drop_reason_def is_agent_record_def sample_occurrence_def new_occurrence_def
      starts_with_def total_dropped_def count_reason_def pipeline_result_def
      pipeline_accepted_def Let_def window_def)

theorem pipeline_append_exact_witness:
  "\<exists>body resp. (\<lambda>body w. (Inr (pipeline_accepted 1) :: pipeline_error + _, w + 1)) body (0 :: nat) =
       (Inr resp, 1) \<and>
     map Inr (ndjson_lines [] body) =
       map (\<lambda>occ. Inr [123, 125] :: string + u8 list) (into_plane_b_occurrences id sample_batch)"
  using pipeline_append_exact [OF sample_batch_append] by fastforce

text \<open>
  the primary decides: if it fails the composite fails with the same error and no
  secondary is touched; if it succeeds the composite succeeds with the primary's counts and
  only its name and appended warnings changed, whatever the secondaries do.
\<close>

theorem composite_primary_decides:
  "case sk_append primary b w of
     (Inl e, w') \<Rightarrow> composite_append primary secondaries b w = (Inl e, w')
   | (Inr r, w') \<Rightarrow>
       (\<exists>res w'' extra. composite_append primary secondaries b w = (Inr res, w'') \<and>
          accepted_count res = accepted_count r \<and> rejected_count res = rejected_count r \<and>
          watermark res = watermark r \<and> ar_sink_name res = ''composite'' \<and>
          warnings res = warnings r @ extra \<and> length extra \<le> length secondaries)"
proof -
  have sec: "\<exists>extra. fst (append_secondaries ss b res w) = res\<lparr>warnings := warnings res @ extra\<rparr> \<and>
      length extra \<le> length ss" for ss res and w :: 'a
  proof (induction ss b res w rule: append_secondaries.induct)
    case (1 b res w)
    then show ?case by (intro exI [of _ "[]"]) simp
  next
    case (2 s ss b res w)
    obtain r w' where a: "sk_append s b w = (r, w')" by force
    show ?case
    proof (cases r)
      case (Inl e)
      from 2(1) [OF a [symmetric] Inl] a Inl show ?thesis
        by (fastforce simp: intro: le_SucI)
    next
      case (Inr x)
      from 2(2) [OF a [symmetric] Inr] a Inr show ?thesis
        by (auto intro: le_SucI)
    qed
  qed
  obtain r w' where a: "sk_append primary b w = (r, w')" by force
  show ?thesis
  proof (cases r)
    case (Inl e)
    with a show ?thesis by (simp add: composite_append_def)
  next
    case (Inr x)
    obtain res w'' where s: "append_secondaries secondaries b (x\<lparr>ar_sink_name := ''composite''\<rparr>) w' =
        (res, w'')" by force
    from sec [of secondaries "x\<lparr>ar_sink_name := ''composite''\<rparr>" w'] s obtain extra where
      "res = x\<lparr>ar_sink_name := ''composite'', warnings := warnings x @ extra\<rparr>"
      "length extra \<le> length secondaries" by auto
    with a Inr s show ?thesis by (auto simp: composite_append_def Let_def)
  qed
qed

end
