(* ===== verification/Buffer_Interface.thy ===== *)
theory Buffer_Interface
  imports Prelude "HOL-Library.Multiset" "HOL-Library.Sublist"
begin

text \<open>
  The contracts between a buffer and the loops that use it.  \<open>fifo_store\<close> is a queue
  with its content as a list; \<open>shed_store\<close> adds the operation that gives up the least
  valuable item.  What follows for any sequence of pops and sheds (order, conservation,
  which class is lost first) is proved once here and reached through the interpretations
  of the components that provide the operations.
\<close>

section \<open>Queues\<close>

locale fifo_store =
  fixes items :: "'s \<Rightarrow> 'i list"
    and push :: "'i \<Rightarrow> 's \<Rightarrow> 's"
    and pop :: "'s \<Rightarrow> ('i \<times> 's) option"
    and inv :: "'s \<Rightarrow> bool"
  assumes items_push: "items (push x s) = items s @ [x]"
    and pop_None: "pop s = None \<longleftrightarrow> items s = []"
    and pop_Some: "pop s = Some (x, s') \<Longrightarrow> items s = x # items s'"
    and inv_pop: "inv s \<Longrightarrow> pop s = Some (x, s') \<Longrightarrow> inv s'"
begin

text \<open>\<open>pops s xs s'\<close>: popping \<open>length xs\<close> times from \<open>s\<close> yields \<open>xs\<close> and leaves \<open>s'\<close>.\<close>

inductive pops :: "'s \<Rightarrow> 'i list \<Rightarrow> 's \<Rightarrow> bool" where
  pops_Nil: "pops s [] s"
| pops_Cons: "pop s = Some (x, s') \<Longrightarrow> pops s' xs s'' \<Longrightarrow> pops s (x # xs) s''"

inductive_cases pops_NilE: "pops s [] s'"
inductive_cases pops_ConsE: "pops s (x # xs) s'"

lemma pops_items: "pops s xs s' \<Longrightarrow> items s = xs @ items s'"
  by (induction rule: pops.induct) (auto dest: pop_Some)

lemma pops_inv: "pops s xs s' \<Longrightarrow> inv s \<Longrightarrow> inv s'"
  by (induction rule: pops.induct) (auto dest: inv_pop)

lemma pops_snoc: "pops s xs s' \<Longrightarrow> pop s' = Some (x, s'') \<Longrightarrow> pops s (xs @ [x]) s''"
  by (induction rule: pops.induct) (auto intro: pops.intros)

lemma pops_prefix: "pops s xs s' \<Longrightarrow> xs = take (length xs) (items s)"
  by (simp add: pops_items)

end

section \<open>Stores that shed\<close>

locale shed_store = fifo_store items push pop inv
  for items :: "'s \<Rightarrow> 'i list" and push and pop and inv +
  fixes shed :: "'s \<Rightarrow> ('i \<times> 's) option"
    and rank :: "'i \<Rightarrow> 'r :: linorder"
  assumes shed_None: "shed s = None \<longleftrightarrow> items s = []"
    and shed_Some: "shed s = Some (x, s') \<Longrightarrow>
      \<exists>as bs. items s = as @ x # bs \<and> items s' = as @ bs \<and>
              (\<forall>y \<in> set as. rank x < rank y) \<and> (\<forall>y \<in> set bs. rank x \<le> rank y)"
    and inv_shed: "inv s \<Longrightarrow> shed s = Some (x, s') \<Longrightarrow> inv s'"
begin

inductive sheds :: "'s \<Rightarrow> 'i list \<Rightarrow> 's \<Rightarrow> bool" where
  sheds_Nil: "sheds s [] s"
| sheds_Cons: "shed s = Some (x, s') \<Longrightarrow> sheds s' xs s'' \<Longrightarrow> sheds s (x # xs) s''"

inductive_cases sheds_NilE: "sheds s [] s'"
inductive_cases sheds_ConsE: "sheds s (x # xs) s'"

lemma sheds_inv: "sheds s xs s' \<Longrightarrow> inv s \<Longrightarrow> inv s'"
  by (induction rule: sheds.induct) (auto dest: inv_shed)

lemma shed_mset: "shed s = Some (x, s') \<Longrightarrow> mset (items s) = add_mset x (mset (items s'))"
  using shed_Some by fastforce

lemma sheds_mset: "sheds s xs s' \<Longrightarrow> mset (items s) = mset xs + mset (items s')"
  by (induction rule: sheds.induct) (auto dest: shed_mset)

lemma sheds_set: "sheds s xs s' \<Longrightarrow> set (items s) = set xs \<union> set (items s')"
  using sheds_mset by (metis set_mset_mset set_mset_union)

lemma sheds_length: "sheds s xs s' \<Longrightarrow> length (items s) = length xs + length (items s')"
  using sheds_mset by (metis size_mset size_union)

lemma shed_subseq: "shed s = Some (x, s') \<Longrightarrow> subseq (items s') (items s)"
  using shed_Some [of s x s'] by (metis list_emb_Cons list_emb_append_mono subseq_order.refl)

lemma sheds_subseq: "sheds s xs s' \<Longrightarrow> subseq (items s') (items s)"
  by (induction rule: sheds.induct) (auto dest: shed_subseq intro: subseq_order.order_trans)

lemma shed_least: "shed s = Some (x, s') \<Longrightarrow> y \<in> set (items s) \<Longrightarrow> rank x \<le> rank y"
  using shed_Some by fastforce

text \<open>Nothing that is kept ranks below anything that was given up.\<close>

lemma sheds_least:
  "sheds s xs s' \<Longrightarrow> x \<in> set xs \<Longrightarrow> y \<in> set (items s') \<Longrightarrow> rank x \<le> rank y"
proof (induction rule: sheds.induct)
  case (sheds_Nil s)
  then show ?case by simp
next
  case (sheds_Cons s z s1 zs s2)
  then have "y \<in> set (items s)"
    using sheds_set [OF sheds_Cons(2)] shed_mset [OF sheds_Cons(1)]
    by (metis UnCI insert_iff set_mset_add_mset_insert set_mset_mset)
  with sheds_Cons show ?case by (auto dest: shed_least)
qed

text \<open>Within one rank the oldest go first.\<close>

lemma shed_rank_order:
  assumes "shed s = Some (x, s')"
  shows "filter (\<lambda>y. rank y = r) (items s) =
         (if rank x = r then [x] else []) @ filter (\<lambda>y. rank y = r) (items s')"
proof -
  from shed_Some [OF assms] obtain as bs where *: "items s = as @ x # bs" "items s' = as @ bs"
    "\<forall>y \<in> set as. rank x < rank y" by blast
  then have "rank x = r \<Longrightarrow> filter (\<lambda>y. rank y = r) as = []"
    by (auto simp: filter_empty_conv)
  with * show ?thesis by auto
qed

lemma sheds_rank_order:
  "sheds s xs s' \<Longrightarrow>
   filter (\<lambda>y. rank y = r) (items s) =
   filter (\<lambda>y. rank y = r) xs @ filter (\<lambda>y. rank y = r) (items s')"
  by (induction rule: sheds.induct) (auto simp: shed_rank_order)

end

end
