(* ===== verification/Retry.thy ===== *)
theory Retry
  imports Sinks Buffer_Interface
begin

text \<open>
  The retry side of a sink (\<open>jalki-evidence/src/retry.rs\<close>): configuration, the jittered
  exponential back-off, the drain pacer, gap reports and the bounded retry buffer.  The
  lemmas show the delay bounds, the pacer's batch-rate bound, that the buffer's accounting
  is exact, that its bounds hold after every enqueue, that what it sheds is the oldest of
  the least valuable class, and that every record is either still held or covered by a gap
  report.
\<close>

section \<open>Configuration\<close>

record retry_buffer_config =
  max_records :: nat
  max_batches :: nat
  max_age_ms :: nat
  max_bytes :: nat

definition default_retry_config :: retry_buffer_config where
  "default_retry_config =
     \<lparr>max_records = 100000, max_batches = 2048, max_age_ms = 300000,
      max_bytes = 128 * 1024 * 1024\<rparr>"

text \<open>The environment is a partial map; \<open>usize\<close> and \<open>u64\<close> have the same range.\<close>

definition env_parse :: "(string \<rightharpoonup> string) \<Rightarrow> string \<Rightarrow> nat \<Rightarrow> nat" where
  "env_parse env key d =
     (case env key of None \<Rightarrow> d
      | Some v \<Rightarrow> (case parse_uint u64_max (trim v) of None \<Rightarrow> d | Some n \<Rightarrow> n))"

definition retry_config_from_env :: "(string \<rightharpoonup> string) \<Rightarrow> retry_buffer_config" where
  "retry_config_from_env env =
     (let d = default_retry_config
      in \<lparr>max_records = env_parse env ''JALKI_RETRY_MAX_RECORDS'' (max_records d),
          max_batches = env_parse env ''JALKI_RETRY_MAX_BATCHES'' (max_batches d),
          max_age_ms = env_parse env ''JALKI_RETRY_MAX_AGE_MS'' (max_age_ms d),
          max_bytes = env_parse env ''JALKI_RETRY_MAX_BYTES'' (max_bytes d)\<rparr>)"

section \<open>Back-off\<close>

record retry_backoff_config =
  base_ms :: nat
  max_ms :: nat

definition default_backoff_config :: retry_backoff_config where
  "default_backoff_config = \<lparr>base_ms = 250, max_ms = 30000\<rparr>"

definition normalized :: "retry_backoff_config \<Rightarrow> retry_backoff_config" where
  "normalized c =
     (let base = max (base_ms c) 1 in \<lparr>base_ms = base, max_ms = max (max_ms c) base\<rparr>)"

definition backoff_config_from_env :: "(string \<rightharpoonup> string) \<Rightarrow> retry_backoff_config" where
  "backoff_config_from_env env =
     (let d = default_backoff_config
      in normalized
           \<lparr>base_ms = env_parse env ''JALKI_RETRY_BACKOFF_BASE_MS'' (base_ms d),
            max_ms = env_parse env ''JALKI_RETRY_BACKOFF_MAX_MS'' (max_ms d)\<rparr>)"

text \<open>
  The jitter: a counter hashed under a per-process random state.  The hasher is the
  parameter \<open>hash\<close>.
\<close>

type_synonym jitter = u64

definition below :: "(u64 \<Rightarrow> u64) \<Rightarrow> jitter \<Rightarrow> nat \<Rightarrow> nat \<times> jitter" where
  "below hash counter bound =
     (let counter = counter + 1 in (unat (hash counter) mod max bound 1, counter))"

record retry_backoff =
  rb_config :: retry_backoff_config
  attempt :: nat
  rb_jitter :: jitter

definition new_backoff :: "retry_backoff_config \<Rightarrow> retry_backoff" where
  "new_backoff c = \<lparr>rb_config = normalized c, attempt = 0, rb_jitter = 0\<rparr>"

text \<open>
  \<open>1u64.checked_shl(attempt)\<close> is \<open>None\<close> from 64 on; the product saturates.
\<close>

definition ceiling_ms :: "retry_backoff \<Rightarrow> nat" where
  "ceiling_ms b =
     min (if attempt b < 64 then min (base_ms (rb_config b) * 2 ^ attempt b) u64_max
          else u64_max)
       (max_ms (rb_config b))"

definition next_delay_ms :: "(u64 \<Rightarrow> u64) \<Rightarrow> retry_backoff \<Rightarrow> nat \<times> retry_backoff" where
  "next_delay_ms hash b =
     (let ceiling = ceiling_ms b;
          half = ceiling div 2;
          (r, j) = below hash (rb_jitter b) (ceiling - half + 1)
      in (half + r, b\<lparr>attempt := min (attempt b + 1) u32_max, rb_jitter := j\<rparr>))"

definition reset_backoff :: "retry_backoff \<Rightarrow> retry_backoff" where
  "reset_backoff b = b\<lparr>attempt := 0\<rparr>"

section \<open>Drain pacing\<close>

text \<open>
  The pacer computes in \<open>f64\<close>; the model computes in the reals, so it has the algorithm's
  exact arithmetic and not the rounding of its 53-bit significands.
\<close>

record drain_pace_config =
  max_bytes_per_sec :: nat
  max_batches_per_sec :: nat
  backpressure_decrease :: real
  recovery_increase :: real
  min_scale :: real

definition default_pace_config :: drain_pace_config where
  "default_pace_config =
     \<lparr>max_bytes_per_sec = 2 * 1024 * 1024, max_batches_per_sec = 20,
      backpressure_decrease = 1 / 2, recovery_increase = 2 / 1000, min_scale = 5 / 100\<rparr>"

definition pace_config_from_env :: "(string \<rightharpoonup> string) \<Rightarrow> drain_pace_config" where
  "pace_config_from_env env =
     (let d = default_pace_config
      in d\<lparr>max_bytes_per_sec :=
             max (env_parse env ''JALKI_DRAIN_MAX_BYTES_PER_SEC'' (max_bytes_per_sec d)) 1,
           max_batches_per_sec :=
             max (env_parse env ''JALKI_DRAIN_MAX_BATCHES_PER_SEC'' (max_batches_per_sec d)) 1\<rparr>)"

datatype pace = Send | Wait nat

record drain_pacer =
  dp_config :: drain_pace_config
  dp_scale :: real
  byte_tokens :: real
  batch_tokens :: real
  last_refill_ms :: "nat option"

definition new_pacer :: "drain_pace_config \<Rightarrow> drain_pacer" where
  "new_pacer c =
     \<lparr>dp_config = c, dp_scale = 1, byte_tokens = real (max_bytes_per_sec c),
      batch_tokens = real (max_batches_per_sec c), last_refill_ms = None\<rparr>"

definition byte_rate :: "drain_pacer \<Rightarrow> real" where
  "byte_rate p = real (max_bytes_per_sec (dp_config p)) * dp_scale p"

definition batch_rate :: "drain_pacer \<Rightarrow> real" where
  "batch_rate p = real (max_batches_per_sec (dp_config p)) * dp_scale p"

definition refill :: "nat \<Rightarrow> drain_pacer \<Rightarrow> drain_pacer" where
  "refill now p =
     (let last = (case last_refill_ms p of None \<Rightarrow> now | Some t \<Rightarrow> t);
          elapsed = real (now - last) / 1000
      in p\<lparr>last_refill_ms := Some now,
           byte_tokens := min (byte_tokens p + elapsed * byte_rate p) (max (byte_rate p) 1),
           batch_tokens := min (batch_tokens p + elapsed * batch_rate p) (max (batch_rate p) 1)\<rparr>)"

definition min_positive :: real where
  "min_positive = 1 / 2 ^ 1022"

text \<open>
  \<open>poll\<close> on the refilled pacer.  A batch larger than one second of budget is let through
  whenever a batch token is there.
\<close>

definition poll_admits :: "nat \<Rightarrow> drain_pacer \<Rightarrow> bool" where
  "poll_admits n p =
     (let bytes = real n; affordable = (bytes \<le> max (byte_rate p) 1)
      in 1 \<le> batch_tokens p \<and> (bytes \<le> byte_tokens p \<or> \<not> affordable))"

definition poll_wait_ms :: "nat \<Rightarrow> drain_pacer \<Rightarrow> nat" where
  "poll_wait_ms n p =
     (let bytes = real n;
          byte_wait = (if bytes \<le> byte_tokens p then 0
                       else (bytes - byte_tokens p) / max (byte_rate p) min_positive);
          batch_wait = (if 1 \<le> batch_tokens p then 0
                        else (1 - batch_tokens p) / max (batch_rate p) min_positive);
          wait = max byte_wait batch_wait * 1000
      in nat (max 1 (min (ceiling wait) 60000)))"

definition poll :: "nat \<Rightarrow> nat \<Rightarrow> drain_pacer \<Rightarrow> pace \<times> drain_pacer" where
  "poll now n p =
     (let p = refill now p
      in if poll_admits n p
         then (Send, p\<lparr>batch_tokens := batch_tokens p - 1, byte_tokens := byte_tokens p - real n\<rparr>)
         else (Wait (poll_wait_ms n p), p))"

definition on_backpressure :: "drain_pacer \<Rightarrow> drain_pacer" where
  "on_backpressure p =
     p\<lparr>dp_scale := max (dp_scale p * backpressure_decrease (dp_config p)) (min_scale (dp_config p))\<rparr>"

definition on_delivered :: "drain_pacer \<Rightarrow> drain_pacer" where
  "on_delivered p = p\<lparr>dp_scale := min (dp_scale p + recovery_increase (dp_config p)) 1\<rparr>"

section \<open>Gap reports\<close>

record gap_report =
  cause :: string
  affected_probes :: "string list"
  dropped_records :: nat
  gap_start_ns :: u64
  gap_end_ns :: u64
  dropped_reliability :: nat
  dropped_attribution :: nat

definition has_window :: "gap_report \<Rightarrow> bool" where
  "has_window g = (gap_start_ns g \<noteq> 0 \<or> gap_end_ns g \<noteq> 0)"

definition merge :: "gap_report \<Rightarrow> gap_report \<Rightarrow> gap_report" where
  "merge self other =
     (let self' = self\<lparr>cause := if cause self \<noteq> cause other then ''multiple'' else cause self,
                      dropped_records := sat_add (dropped_records self) (dropped_records other),
                      dropped_reliability :=
                        sat_add (dropped_reliability self) (dropped_reliability other),
                      dropped_attribution :=
                        sat_add (dropped_attribution self) (dropped_attribution other)\<rparr>;
          self' = (if \<not> has_window other then self'
                   else if \<not> has_window self
                   then self'\<lparr>gap_start_ns := gap_start_ns other, gap_end_ns := gap_end_ns other\<rparr>
                   else self'\<lparr>gap_start_ns := min (gap_start_ns self) (gap_start_ns other),
                              gap_end_ns := max (gap_end_ns self) (gap_end_ns other)\<rparr>)
      in self'\<lparr>affected_probes :=
                fold push_unique (affected_probes other) (affected_probes self)\<rparr>)"

text \<open>
  \<open>into_batch\<close>: the gap as agent evidence.  The JSON array of the probes comes from
  \<open>serde_json\<close>, the parameter \<open>json_strings\<close>; ids and the clock are arguments.
\<close>

definition gap_probe :: probe_metadata where
  "gap_probe =
     \<lparr>pr_probe_id = ''jalki_agent'', pr_probe_version = ''1'', pr_probe_family = ''agent'',
      pr_hook_kind = Fentry, pr_kernel_function = ''jalki_agent_gap''\<rparr>"

definition gap_labels :: "(string list \<Rightarrow> string) \<Rightarrow> gap_report \<Rightarrow> (string \<times> string) list" where
  "gap_labels json_strings g =
     [(''cause'', cause g), (''affected_probes'', json_strings (affected_probes g)),
      (''dropped_records'', decimal (dropped_records g)),
      (''dropped_reliability'', decimal (dropped_reliability g)),
      (''dropped_attribution'', decimal (dropped_attribution g)),
      (''gap_start_ns'', decimal (unat (gap_start_ns g))),
      (''gap_end_ns'', decimal (unat (gap_end_ns g)))]"

definition gap_into_batch ::
  "(string list \<Rightarrow> string) \<Rightarrow> ulid \<Rightarrow> int \<Rightarrow> string \<Rightarrow> producer_metadata \<Rightarrow> gap_report \<Rightarrow>
   evidence_batch" where
  "gap_into_batch json_strings occ_ident now ident producer g =
     (let occ = new_occurrence occ_ident now ''jalki/agent'' ''jalki.agent.gap'';
          occ = in_cluster (pm_cluster producer) (with_severity Warning occ);
          occ = insert_labels (gap_labels json_strings g) occ
      in new_batch ident producer
           [\<lparr>observed_at_ns = gap_end_ns g, er_pid = 0, er_cgroup_id = 0, er_probe = gap_probe,
             er_occurrence = occ, er_binding = None\<rparr>])"

text \<open>The occurrence types of a group of records, each once, in order of first sight.\<close>

definition affected_types :: "evidence_record list \<Rightarrow> string list" where
  "affected_types records =
     fold push_unique (map (\<lambda>r. occurrence_type (er_occurrence r)) records) []"

record gap_scan =
  gs_reliability :: nat
  gs_attribution :: nat
  gs_window :: "(u64 \<times> u64) option"

definition gap_scan_step :: "evidence_record \<Rightarrow> gap_scan \<Rightarrow> gap_scan" where
  "gap_scan_step r s =
     (let s = (case record_class r of
                 Reliability \<Rightarrow> s\<lparr>gs_reliability := gs_reliability s + 1\<rparr>
               | Attribution \<Rightarrow> s\<lparr>gs_attribution := gs_attribution s + 1\<rparr>);
          stamp = observed_at_ns r
      in if stamp \<noteq> 0 then s\<lparr>gs_window := window_step stamp (gs_window s)\<rparr> else s)"

definition gap_for_records :: "string \<Rightarrow> evidence_record list \<Rightarrow> gap_report" where
  "gap_for_records why records =
     (let s = fold gap_scan_step records
                \<lparr>gs_reliability = 0, gs_attribution = 0, gs_window = None\<rparr>;
          (lo, hi) = (case gs_window s of None \<Rightarrow> (0, 0) | Some w \<Rightarrow> w)
      in \<lparr>cause = why, affected_probes = affected_types records,
          dropped_records = length records, gap_start_ns = lo, gap_end_ns = hi,
          dropped_reliability = gs_reliability s, dropped_attribution = gs_attribution s\<rparr>)"

definition gap_for_batch :: "string \<Rightarrow> evidence_batch \<Rightarrow> gap_report" where
  "gap_for_batch why b =
     (gap_for_records why (eb_records b))
       \<lparr>gap_start_ns := observed_at_min b, gap_end_ns := observed_at_max b\<rparr>"

definition gap_for_shed :: "string \<Rightarrow> evidence_class \<Rightarrow> evidence_batch \<Rightarrow> gap_report" where
  "gap_for_shed why cls b =
     (let n = batch_len b
      in \<lparr>cause = why, affected_probes = affected_types (eb_records b), dropped_records = n,
          gap_start_ns = observed_at_min b, gap_end_ns = observed_at_max b,
          dropped_reliability = (case cls of Reliability \<Rightarrow> n | Attribution \<Rightarrow> 0),
          dropped_attribution = (case cls of Attribution \<Rightarrow> n | Reliability \<Rightarrow> 0)\<rparr>)"

section \<open>The retry buffer\<close>

text \<open>
  \<open>split_by_class\<close> builds up to two batches, each with a fresh id: \<open>ids 0\<close>, \<open>ids 1\<close>.
\<close>

definition split_by_class ::
  "(nat \<Rightarrow> string) \<Rightarrow> evidence_batch \<Rightarrow> (evidence_batch \<times> evidence_class) list" where
  "split_by_class ids b =
     (let reliability = filter (\<lambda>r. record_class r = Reliability) (eb_records b);
          attribution = filter (\<lambda>r. record_class r = Attribution) (eb_records b)
      in (if reliability \<noteq> []
          then [(new_batch (ids 0) (eb_producer b) reliability, Reliability)] else []) @
         (if attribution \<noteq> []
          then [(new_batch (ids 1) (eb_producer b) attribution, Attribution)] else []))"

record buffered_batch =
  bb_batch :: evidence_batch
  enqueued_at_ms :: nat
  bb_bytes :: nat
  bb_class :: evidence_class

record retry_buffer =
  rt_config :: retry_buffer_config
  rt_batches :: "buffered_batch list"
  rt_records :: nat
  rt_bytes :: nat

definition new_retry_buffer :: "retry_buffer_config \<Rightarrow> retry_buffer" where
  "new_retry_buffer c = \<lparr>rt_config = c, rt_batches = [], rt_records = 0, rt_bytes = 0\<rparr>"

definition push_part :: "buffered_batch \<Rightarrow> retry_buffer \<Rightarrow> retry_buffer" where
  "push_part bb b =
     b\<lparr>rt_records := rt_records b + batch_len (bb_batch bb), rt_bytes := rt_bytes b + bb_bytes bb,
       rt_batches := rt_batches b @ [bb]\<rparr>"

fun position :: "('a \<Rightarrow> bool) \<Rightarrow> 'a list \<Rightarrow> nat option" where
  "position p [] = None"
| "position p (x # xs) = (if p x then Some 0 else map_option Suc (position p xs))"

definition remove_nth :: "nat \<Rightarrow> 'a list \<Rightarrow> 'a list" where
  "remove_nth i xs = take i xs @ drop (Suc i) xs"

definition forget_part :: "buffered_batch \<Rightarrow> retry_buffer \<Rightarrow> retry_buffer" where
  "forget_part bb b =
     b\<lparr>rt_records := rt_records b - batch_len (bb_batch bb), rt_bytes := rt_bytes b - bb_bytes bb\<rparr>"

definition shed_one :: "retry_buffer \<Rightarrow> (buffered_batch \<times> retry_buffer) option" where
  "shed_one b =
     (case (case position (\<lambda>x. bb_class x = Reliability) (rt_batches b) of
              Some i \<Rightarrow> Some i
            | None \<Rightarrow> if rt_batches b = [] then None else Some 0) of
        None \<Rightarrow> None
      | Some i \<Rightarrow>
          (let dropped = rt_batches b ! i
           in Some (dropped, forget_part dropped (b\<lparr>rt_batches := remove_nth i (rt_batches b)\<rparr>))))"

definition pop_front :: "retry_buffer \<Rightarrow> (buffered_batch \<times> retry_buffer) option" where
  "pop_front b =
     (case rt_batches b of [] \<Rightarrow> None
      | x # xs \<Rightarrow> Some (x, forget_part x (b\<lparr>rt_batches := xs\<rparr>)))"

lemma remove_nth_length: "i < length xs \<Longrightarrow> length (remove_nth i xs) = length xs - 1"
  by (simp add: remove_nth_def)

lemma position_Some: "position p xs = Some i \<Longrightarrow> i < length xs \<and> p (xs ! i) \<and> (\<forall>j < i. \<not> p (xs ! j))"
  by (induction xs arbitrary: i) (auto split: if_splits simp: less_Suc_eq_0_disj)

lemma position_None: "position p xs = None \<longleftrightarrow> (\<forall>x \<in> set xs. \<not> p x)"
  by (induction xs) auto

lemma shed_one_length:
  "shed_one b = Some (d, b') \<Longrightarrow> length (rt_batches b') < length (rt_batches b)"
  by (auto simp: shed_one_def forget_part_def remove_nth_def Let_def
      dest!: position_Some split: option.splits if_splits)

text \<open>
  The two \<open>while\<close> loops that shed (\<open>enqueue\<close> and \<open>shed_to\<close>) differ in their condition and
  in the cause they report.
\<close>

function shed_while ::
  "string \<Rightarrow> (retry_buffer \<Rightarrow> bool) \<Rightarrow> retry_buffer \<Rightarrow> gap_report list \<times> retry_buffer" where
  "shed_while why over b =
     (if over b then
        (case shed_one b of
           Some (dropped, b') \<Rightarrow>
             (case shed_while why over b' of
                (gaps, b'') \<Rightarrow> (gap_for_shed why (bb_class dropped) (bb_batch dropped) # gaps, b''))
         | None \<Rightarrow> ([], b))
      else ([], b))"
  by pat_completeness auto
termination
  by (relation "measure (\<lambda>(why, over, b). length (rt_batches b))")
    (auto dest: shed_one_length)

declare shed_while.simps [simp del]

definition over_budget :: "retry_buffer \<Rightarrow> bool" where
  "over_budget b =
     (max_records (rt_config b) < rt_records b \<or>
      max_batches (rt_config b) < length (rt_batches b) \<or>
      max_bytes (rt_config b) < rt_bytes b)"

definition buffer_part ::
  "heap_sizes \<Rightarrow> nat \<Rightarrow> evidence_batch \<times> evidence_class \<Rightarrow> buffered_batch" where
  "buffer_part hs now part =
     \<lparr>bb_batch = fst part, enqueued_at_ms = now, bb_bytes = approx_bytes hs (fst part),
      bb_class = snd part\<rparr>"

definition enqueue ::
  "heap_sizes \<Rightarrow> (nat \<Rightarrow> string) \<Rightarrow> evidence_batch \<Rightarrow> nat \<Rightarrow> retry_buffer \<Rightarrow>
   gap_report list \<times> retry_buffer" where
  "enqueue hs ids batch now b =
     (let b = fold push_part (map (buffer_part hs now) (split_by_class ids batch)) b
      in shed_while ''retry_buffer_overflow'' over_budget b)"

definition shed_to :: "nat \<Rightarrow> retry_buffer \<Rightarrow> gap_report list \<times> retry_buffer" where
  "shed_to target b = shed_while ''memory_pressure'' (\<lambda>b. target < rt_bytes b) b"

definition expired :: "nat \<Rightarrow> retry_buffer \<Rightarrow> bool" where
  "expired now b =
     (case rt_batches b of [] \<Rightarrow> False
      | x # xs \<Rightarrow> max_age_ms (rt_config b) < now - enqueued_at_ms x)"

function drop_expired :: "nat \<Rightarrow> retry_buffer \<Rightarrow> gap_report list \<times> retry_buffer" where
  "drop_expired now b =
     (if \<not> expired now b then ([], b)
      else (case pop_front b of
              Some (dropped, b') \<Rightarrow>
                (case drop_expired now b' of
                   (gaps, b'') \<Rightarrow>
                     (gap_for_shed ''retry_buffer_expired'' (bb_class dropped) (bb_batch dropped)
                        # gaps, b''))
            | None \<Rightarrow> ([], b)))"
  by pat_completeness auto
termination
  by (relation "measure (\<lambda>(now, b). length (rt_batches b))")
    (auto simp: pop_front_def forget_part_def split: list.splits)

declare drop_expired.simps [simp del]

definition oldest_age_ms :: "nat \<Rightarrow> retry_buffer \<Rightarrow> nat option" where
  "oldest_age_ms now b =
     (case rt_batches b of [] \<Rightarrow> None | x # _ \<Rightarrow> Some (now - enqueued_at_ms x))"

definition iter_batches :: "retry_buffer \<Rightarrow> evidence_batch list" where
  "iter_batches b = map bb_batch (rt_batches b)"

definition front :: "retry_buffer \<Rightarrow> evidence_batch option" where
  "front b = (case rt_batches b of [] \<Rightarrow> None | x # _ \<Rightarrow> Some (bb_batch x))"

definition pop_delivered :: "retry_buffer \<Rightarrow> (evidence_batch \<times> retry_buffer) option" where
  "pop_delivered b = map_option (\<lambda>(x, b'). (bb_batch x, b')) (pop_front b)"

fun should_retry :: "sink_error \<Rightarrow> bool" where
  "should_retry (SUnavailable _ _) = True"
| "should_retry (STimeout _ _) = True"
| "should_retry (SBackpressure _ _) = True"
| "should_retry _ = False"

section \<open>The back-off schedule\<close>

text \<open>What the back-off relies on: a draw below the bound.\<close>

locale jitter_source =
  fixes draw :: "'j \<Rightarrow> nat \<Rightarrow> nat \<times> 'j"
  assumes draw_below: "0 < n \<Longrightarrow> fst (draw j n) < n"
begin

lemma equal_jitter:
  "c div 2 \<le> c div 2 + fst (draw j (c - c div 2 + 1)) \<and>
   c div 2 + fst (draw j (c - c div 2 + 1)) \<le> c"
  using draw_below [of "c - c div 2 + 1" j] by simp

end

interpretation hashed: jitter_source "below hash" for hash
  by unfold_locales (simp add: below_def Let_def)

lemma next_delay_bounds:
  "ceiling_ms b div 2 \<le> fst (next_delay_ms hash b) \<and>
   fst (next_delay_ms hash b) \<le> ceiling_ms b"
  using hashed.equal_jitter [of "ceiling_ms b" hash "rb_jitter b"]
  by (simp add: next_delay_ms_def Let_def case_prod_unfold)

lemma next_delay_state [simp]:
  "attempt (snd (next_delay_ms hash b)) = min (attempt b + 1) u32_max"
  "rb_config (snd (next_delay_ms hash b)) = rb_config b"
  by (simp_all add: next_delay_ms_def Let_def split: prod.splits)

definition backoff_wf :: "retry_backoff \<Rightarrow> bool" where
  "backoff_wf b =
     (1 \<le> base_ms (rb_config b) \<and> base_ms (rb_config b) \<le> max_ms (rb_config b) \<and>
      max_ms (rb_config b) \<le> u64_max \<and> attempt b \<le> u32_max)"

lemma backoff_wf_new: "base_ms c \<le> u64_max \<Longrightarrow> max_ms c \<le> u64_max \<Longrightarrow> backoff_wf (new_backoff c)"
  by (simp add: backoff_wf_def new_backoff_def normalized_def Let_def u64_max_def)

lemma backoff_wf_next: "backoff_wf b \<Longrightarrow> backoff_wf (snd (next_delay_ms hash b))"
  by (simp add: backoff_wf_def)

text \<open>Saturation only happens above the cap, so the ceiling is the plain doubling.\<close>

lemma ceiling_ms_eq:
  assumes "backoff_wf b"
  shows "ceiling_ms b = min (base_ms (rb_config b) * 2 ^ attempt b) (max_ms (rb_config b))"
proof (cases "attempt b < 64")
  case True
  with assms show ?thesis by (auto simp: ceiling_ms_def backoff_wf_def min_def)
next
  case False
  then have "(2 :: nat) ^ 64 \<le> 2 ^ attempt b" by (intro power_increasing) auto
  also have "\<dots> \<le> base_ms (rb_config b) * 2 ^ attempt b"
    using assms by (simp add: backoff_wf_def)
  finally have "u64_max \<le> base_ms (rb_config b) * 2 ^ attempt b" by (simp add: u64_max_def)
  with assms False show ?thesis by (auto simp: ceiling_ms_def backoff_wf_def min_def)
qed

fun fail_times :: "(u64 \<Rightarrow> u64) \<Rightarrow> nat \<Rightarrow> retry_backoff \<Rightarrow> retry_backoff" where
  "fail_times hash 0 b = b"
| "fail_times hash (Suc n) b = fail_times hash n (snd (next_delay_ms hash b))"

lemma fail_times_state:
  "rb_config (fail_times hash n b) = rb_config b \<and>
   (attempt b + n \<le> u32_max \<longrightarrow> attempt (fail_times hash n b) = attempt b + n) \<and>
   (backoff_wf b \<longrightarrow> backoff_wf (fail_times hash n b))"
  by (induction n arbitrary: b) (auto simp: backoff_wf_next)

section \<open>The drain pacer\<close>

definition pace_config_ok :: "drain_pace_config \<Rightarrow> bool" where
  "pace_config_ok c =
     (1 \<le> max_bytes_per_sec c \<and> 1 \<le> max_batches_per_sec c \<and> 0 \<le> backpressure_decrease c \<and>
      backpressure_decrease c \<le> 1 \<and> 0 \<le> recovery_increase c \<and> 0 < min_scale c \<and>
      min_scale c \<le> 1)"

definition pacer_wf :: "drain_pacer \<Rightarrow> bool" where
  "pacer_wf p =
     (pace_config_ok (dp_config p) \<and> min_scale (dp_config p) \<le> dp_scale p \<and> dp_scale p \<le> 1 \<and>
      0 \<le> batch_tokens p \<and> batch_tokens p \<le> real (max_batches_per_sec (dp_config p)))"

lemma pacer_wf_new: "pace_config_ok c \<Longrightarrow> pacer_wf (new_pacer c)"
  by (simp add: pacer_wf_def new_pacer_def pace_config_ok_def)

lemma default_pace_config_ok: "pace_config_ok default_pace_config"
  by (simp add: pace_config_ok_def default_pace_config_def)

lemma pace_config_from_env_ok: "pace_config_ok (pace_config_from_env env)"
  by (simp add: pace_config_ok_def pace_config_from_env_def default_pace_config_def Let_def)

lemma batch_rate_bounds:
  "pacer_wf p \<Longrightarrow> 0 \<le> batch_rate p \<and> batch_rate p \<le> real (max_batches_per_sec (dp_config p))"
  by (auto simp: pacer_wf_def pace_config_ok_def batch_rate_def mult_left_le)

lemma refill_fields [simp]:
  "dp_config (refill now p) = dp_config p" "dp_scale (refill now p) = dp_scale p"
  "last_refill_ms (refill now p) = Some now"
  by (simp_all add: refill_def Let_def)

lemma refill_wf: "pacer_wf p \<Longrightarrow> pacer_wf (refill now p)"
proof -
  assume p: "pacer_wf p"
  from batch_rate_bounds [OF p] have r: "0 \<le> batch_rate p"
    "batch_rate p \<le> real (max_batches_per_sec (dp_config p))" by auto
  have "0 \<le> batch_tokens (refill now p)"
    using p r by (simp add: refill_def Let_def pacer_wf_def)
  moreover have "batch_tokens (refill now p) \<le> max (batch_rate p) 1"
    by (simp add: refill_def Let_def)
  moreover have "max (batch_rate p) 1 \<le> real (max_batches_per_sec (dp_config p))"
    using p r by (simp add: pacer_wf_def pace_config_ok_def)
  ultimately have "batch_tokens (refill now p) \<le> real (max_batches_per_sec (dp_config p))"
    by (rule_tac order_trans)
  with \<open>0 \<le> batch_tokens (refill now p)\<close> p show ?thesis by (simp add: pacer_wf_def)
qed

lemma poll_state:
  "snd (poll now n p) =
   (case fst (poll now n p) of
      Send \<Rightarrow> (refill now p)\<lparr>batch_tokens := batch_tokens (refill now p) - 1,
                            byte_tokens := byte_tokens (refill now p) - real n\<rparr>
    | Wait ms \<Rightarrow> refill now p)"
  by (simp add: poll_def Let_def)

lemma poll_Send: "fst (poll now n p) = Send \<Longrightarrow> 1 \<le> batch_tokens (refill now p)"
  by (auto simp: poll_def poll_admits_def Let_def split: if_splits)

lemma poll_wf:
  assumes "pacer_wf p"
  shows "pacer_wf (snd (poll now n p))"
proof (cases "poll_admits n (refill now p)")
  case True
  then have "1 \<le> batch_tokens (refill now p)" by (simp add: poll_admits_def Let_def)
  with True refill_wf [OF assms, of now] show ?thesis by (simp add: poll_def pacer_wf_def Let_def)
next
  case False
  with refill_wf [OF assms, of now] show ?thesis by (simp add: poll_def Let_def)
qed

lemma clamp_ms: "1 \<le> nat (max 1 (min z 60000)) \<and> nat (max 1 (min z 60000)) \<le> 60000" for z :: int
  by auto

lemma poll_wait_bounds:
  assumes "fst (poll now n p) = Wait ms"
  shows "1 \<le> ms \<and> ms \<le> 60000"
proof -
  from assms have "ms = poll_wait_ms n (refill now p)"
    by (simp add: poll_def Let_def split: if_splits)
  moreover have "1 \<le> poll_wait_ms n q \<and> poll_wait_ms n q \<le> 60000" for q
    unfolding poll_wait_ms_def Let_def by (rule clamp_ms)
  ultimately show ?thesis by simp
qed

lemma backpressure_wf: "pacer_wf p \<Longrightarrow> pacer_wf (on_backpressure p)"
proof -
  assume p: "pacer_wf p"
  then have "dp_scale p * backpressure_decrease (dp_config p) \<le> 1 * 1"
    by (intro mult_mono) (auto simp: pacer_wf_def pace_config_ok_def)
  with p show ?thesis by (auto simp: pacer_wf_def on_backpressure_def pace_config_ok_def)
qed

lemma delivered_wf: "pacer_wf p \<Longrightarrow> pacer_wf (on_delivered p)"
  by (auto simp: pacer_wf_def on_delivered_def pace_config_ok_def)

text \<open>A run of the drain: polls at given times, feedback in between.\<close>

datatype drain_step = Poll nat nat | Backpressure | Delivered

fun drain_run :: "drain_step list \<Rightarrow> drain_pacer \<Rightarrow> nat \<times> drain_pacer" where
  "drain_run [] p = (0, p)"
| "drain_run (Poll now n # ss) p =
     (let (r, p') = poll now n p; (k, p'') = drain_run ss p'
      in ((if r = Send then 1 else 0) + k, p''))"
| "drain_run (Backpressure # ss) p = drain_run ss (on_backpressure p)"
| "drain_run (Delivered # ss) p = drain_run ss (on_delivered p)"

fun times_from :: "nat \<Rightarrow> drain_step list \<Rightarrow> bool" where
  "times_from t [] = True"
| "times_from t (Poll now n # ss) = (t \<le> now \<and> times_from now ss)"
| "times_from t (Backpressure # ss) = times_from t ss"
| "times_from t (Delivered # ss) = times_from t ss"

fun end_time :: "nat \<Rightarrow> drain_step list \<Rightarrow> nat" where
  "end_time t [] = t"
| "end_time t (Poll now n # ss) = end_time now ss"
| "end_time t (Backpressure # ss) = end_time t ss"
| "end_time t (Delivered # ss) = end_time t ss"

lemma end_time_ge: "times_from t ss \<Longrightarrow> t \<le> end_time t ss"
  by (induction t ss rule: times_from.induct) auto

lemma refill_tokens:
  assumes "pacer_wf p" "last_refill_ms p = Some t" "t \<le> now"
  shows "batch_tokens (refill now p) \<le>
    batch_tokens p + real (max_batches_per_sec (dp_config p)) * real (now - t) / 1000"
proof -
  have "real (now - t) / 1000 * batch_rate p \<le>
        real (now - t) / 1000 * real (max_batches_per_sec (dp_config p))"
    using batch_rate_bounds [OF assms(1)] by (intro mult_left_mono) auto
  then show ?thesis using assms(2,3) by (simp add: refill_def Let_def mult.commute)
qed

lemma drain_run_rate:
  "pacer_wf p \<Longrightarrow> last_refill_ms p = Some t \<Longrightarrow> times_from t ss \<Longrightarrow>
   real (fst (drain_run ss p)) \<le> batch_tokens p +
     real (max_batches_per_sec (dp_config p)) * real (end_time t ss - t) / 1000"
proof (induction ss arbitrary: p t)
  case Nil
  then show ?case by (simp add: pacer_wf_def)
next
  case (Cons s ss)
  show ?case
  proof (cases s)
    case (Poll now n)
    obtain r p' where r: "poll now n p = (r, p')" by force
    let ?R = "real (max_batches_per_sec (dp_config p))"
    have t: "t \<le> now" "times_from now ss" using Cons.prems(3) Poll by auto
    have p': "pacer_wf p'" using poll_wf [OF Cons.prems(1), of now n] r by simp
    have st: "p' = (case r of Send \<Rightarrow> (refill now p)\<lparr>batch_tokens := batch_tokens (refill now p) - 1,
               byte_tokens := byte_tokens (refill now p) - real n\<rparr> | Wait ms \<Rightarrow> refill now p)"
      using poll_state [of now n p] r by simp
    have last: "last_refill_ms p' = Some now" and cfg: "dp_config p' = dp_config p"
      and tok: "batch_tokens p' = batch_tokens (refill now p) - (if r = Send then 1 else 0)"
      unfolding st by (auto split: pace.splits)
    from Cons.IH [OF p' last t(2)] have IH: "real (fst (drain_run ss p')) \<le>
        batch_tokens p' + ?R * real (end_time now ss - now) / 1000" by (simp add: cfg)
    have "?R * real (now - t) / 1000 + ?R * real (end_time now ss - now) / 1000 =
          ?R * real (end_time now ss - t) / 1000"
      using t(1) end_time_ge [OF t(2)] by (simp add: field_simps of_nat_diff)
    with IH tok refill_tokens [OF Cons.prems(1,2) t(1)] r Poll show ?thesis
      by (auto split: prod.splits)
  next
    case Backpressure
    have "batch_tokens (on_backpressure p) = batch_tokens p"
      "dp_config (on_backpressure p) = dp_config p"
      "last_refill_ms (on_backpressure p) = last_refill_ms p"
      by (simp_all add: on_backpressure_def)
    with Cons.IH [OF backpressure_wf [OF Cons.prems(1)]] Cons.prems Backpressure
    show ?thesis by simp
  next
    case Delivered
    have "batch_tokens (on_delivered p) = batch_tokens p"
      "dp_config (on_delivered p) = dp_config p"
      "last_refill_ms (on_delivered p) = last_refill_ms p"
      by (simp_all add: on_delivered_def)
    with Cons.IH [OF delivered_wf [OF Cons.prems(1)]] Cons.prems Delivered
    show ?thesis by simp
  qed
qed

section \<open>Gap reports\<close>

lemma merge_counts:
  "dropped_records (merge a b) = sat_add (dropped_records a) (dropped_records b)"
  "dropped_reliability (merge a b) = sat_add (dropped_reliability a) (dropped_reliability b)"
  "dropped_attribution (merge a b) = sat_add (dropped_attribution a) (dropped_attribution b)"
  by (simp_all add: merge_def Let_def)

lemma merge_cause:
  "cause (merge a b) = (if cause a = cause b then cause a else ''multiple'')"
  by (simp add: merge_def Let_def)

lemma set_fold_push_unique: "set (fold push_unique xs acc) = set acc \<union> set xs"
  by (induction xs arbitrary: acc) auto

lemma distinct_fold_push_unique: "distinct acc \<Longrightarrow> distinct (fold push_unique xs acc)"
  by (induction xs arbitrary: acc) auto

lemma merge_probes: "set (affected_probes (merge a b)) = set (affected_probes a) \<union> set (affected_probes b)"
  by (simp add: merge_def Let_def set_fold_push_unique)

lemma merge_distinct: "distinct (affected_probes a) \<Longrightarrow> distinct (affected_probes (merge a b))"
  by (simp add: merge_def Let_def distinct_fold_push_unique)

text \<open>A gap covers an instant when it has a window and the instant lies in it.\<close>

definition covers :: "gap_report \<Rightarrow> u64 \<Rightarrow> bool" where
  "covers g t = (has_window g \<and> gap_start_ns g \<le> t \<and> t \<le> gap_end_ns g)"

lemma merge_window:
  "gap_start_ns (merge a b) =
     (if \<not> has_window b then gap_start_ns a else if \<not> has_window a then gap_start_ns b
      else min (gap_start_ns a) (gap_start_ns b))"
  "gap_end_ns (merge a b) =
     (if \<not> has_window b then gap_end_ns a else if \<not> has_window a then gap_end_ns b
      else max (gap_end_ns a) (gap_end_ns b))"
  by (simp_all add: merge_def Let_def)

definition window_ok :: "gap_report \<Rightarrow> bool" where
  "window_ok g = (gap_start_ns g \<le> gap_end_ns g)"

lemma has_window_end: "window_ok g \<Longrightarrow> has_window g \<longleftrightarrow> gap_end_ns g \<noteq> 0"
  by (auto simp: window_ok_def has_window_def)

lemma merge_window_ok: "window_ok a \<Longrightarrow> window_ok b \<Longrightarrow> window_ok (merge a b)"
  by (auto simp: window_ok_def merge_window min_def max_def)

lemma merge_has_window:
  "window_ok a \<Longrightarrow> window_ok b \<Longrightarrow> has_window (merge a b) \<longleftrightarrow> has_window a \<or> has_window b"
  using merge_window_ok [of a b]
  by (simp add: has_window_end merge_window) (simp add: max_def)

lemma merge_covers:
  "window_ok a \<Longrightarrow> window_ok b \<Longrightarrow> covers a t \<or> covers b t \<Longrightarrow> covers (merge a b) t"
  using merge_has_window [of a b]
  by (auto simp: covers_def merge_window min_le_iff_disj le_max_iff_disj)

lemma affected_types_set:
  "set (affected_types rs) = (\<lambda>r. occurrence_type (er_occurrence r)) ` set rs"
  by (simp add: affected_types_def set_fold_push_unique)

lemma affected_types_distinct: "distinct (affected_types rs)"
  by (simp add: affected_types_def distinct_fold_push_unique)

definition of_class :: "evidence_class \<Rightarrow> evidence_record list \<Rightarrow> nat" where
  "of_class c rs = length (filter (\<lambda>r. record_class r = c) rs)"

lemma of_class_Cons:
  "of_class c (r # rs) = (if record_class r = c then 1 else 0) + of_class c rs"
  by (simp add: of_class_def)

lemma of_class_total: "of_class Reliability rs + of_class Attribution rs = length rs"
  by (induction rs) (auto simp: of_class_def)

lemma gap_scan_fold:
  "gs_reliability (fold gap_scan_step rs s) = gs_reliability s + of_class Reliability rs \<and>
   gs_attribution (fold gap_scan_step rs s) = gs_attribution s + of_class Attribution rs \<and>
   gs_window (fold gap_scan_step rs s) =
     fold window_step (filter (\<lambda>t. t \<noteq> 0) (map observed_at_ns rs)) (gs_window s)"
proof (induction rs arbitrary: s)
  case Nil
  then show ?case by (simp add: of_class_def)
next
  case (Cons r rs)
  show ?case
    using Cons.IH [of "gap_scan_step r s"]
    by (cases "record_class r") (auto simp: gap_scan_step_def Let_def of_class_Cons)
qed

lemma gap_for_records_fields:
  "cause (gap_for_records why rs) = why"
  "dropped_records (gap_for_records why rs) = length rs"
  "dropped_reliability (gap_for_records why rs) = of_class Reliability rs"
  "dropped_attribution (gap_for_records why rs) = of_class Attribution rs"
  "affected_probes (gap_for_records why rs) = affected_types rs"
  by (simp_all add: gap_for_records_def Let_def gap_scan_fold split: prod.splits)

lemma gap_for_records_window:
  "(gap_start_ns (gap_for_records why rs), gap_end_ns (gap_for_records why rs)) =
   (case window (filter (\<lambda>t. t \<noteq> 0) (map observed_at_ns rs)) of None \<Rightarrow> (0, 0) | Some w \<Rightarrow> w)"
  by (simp add: gap_for_records_def Let_def gap_scan_fold window_def split: prod.splits)

lemma gap_for_records_covers:
  assumes "r \<in> set rs" and "observed_at_ns r \<noteq> 0"
  shows "covers (gap_for_records why rs) (observed_at_ns r)"
proof -
  let ?ts = "filter (\<lambda>t. t \<noteq> 0) (map observed_at_ns rs)"
  have m: "observed_at_ns r \<in> set ?ts" using assms by auto
  then have ne: "?ts \<noteq> []" by (metis list.set(1) empty_iff)
  then have w: "gap_start_ns (gap_for_records why rs) = Min (set ?ts)"
    "gap_end_ns (gap_for_records why rs) = Max (set ?ts)"
    using gap_for_records_window [of why rs] by (simp_all add: window_eq)
  have "Min (set ?ts) \<le> observed_at_ns r" "observed_at_ns r \<le> Max (set ?ts)"
    using m by (auto intro: Min_le Max_ge)
  moreover from this assms(2) have "Max (set ?ts) \<noteq> 0" by (metis word_le_0_iff)
  ultimately show ?thesis using w by (simp add: covers_def has_window_def)
qed

lemma gap_for_shed_fields [simp]:
  "cause (gap_for_shed why c b) = why"
  "dropped_records (gap_for_shed why c b) = batch_len b"
  "affected_probes (gap_for_shed why c b) = affected_types (eb_records b)"
  "gap_start_ns (gap_for_shed why c b) = observed_at_min b"
  "gap_end_ns (gap_for_shed why c b) = observed_at_max b"
  by (simp_all add: gap_for_shed_def Let_def)

section \<open>The retry buffer as a shedding store\<close>

lemma shed_one_None: "shed_one b = None \<longleftrightarrow> rt_batches b = []"
  by (auto simp: shed_one_def Let_def dest: position_Some split: option.splits if_splits)

lemma shed_one_Some:
  assumes "shed_one b = Some (x, b')"
  shows "\<exists>as bs. rt_batches b = as @ x # bs \<and> b' = forget_part x (b\<lparr>rt_batches := as @ bs\<rparr>) \<and>
          (\<forall>y \<in> set as. bb_class x < bb_class y) \<and> (\<forall>y \<in> set bs. bb_class x \<le> bb_class y)"
proof (cases "position (\<lambda>x. bb_class x = Reliability) (rt_batches b)")
  case None
  with assms have "rt_batches b \<noteq> []" and x: "x = rt_batches b ! 0"
    and b': "b' = forget_part x (b\<lparr>rt_batches := remove_nth 0 (rt_batches b)\<rparr>)"
    by (auto simp: shed_one_def Let_def split: if_splits)
  then obtain bs where bs: "rt_batches b = x # bs" by (cases "rt_batches b") auto
  from None have "\<forall>y \<in> set (rt_batches b). bb_class y = Attribution"
    by (auto simp: position_None)
  with bs b' show ?thesis
    by (intro exI [of _ "[]"] exI [of _ bs]) (auto simp: remove_nth_def)
next
  case (Some i)
  with assms have x: "x = rt_batches b ! i"
    and b': "b' = forget_part x (b\<lparr>rt_batches := remove_nth i (rt_batches b)\<rparr>)"
    by (auto simp: shed_one_def Let_def)
  from position_Some [OF Some] have i: "i < length (rt_batches b)"
    and c: "bb_class x = Reliability"
    and before: "\<forall>j < i. bb_class (rt_batches b ! j) = Attribution" using x by auto
  have "\<forall>y \<in> set (take i (rt_batches b)). bb_class y = Attribution"
    using before i by (auto simp: in_set_conv_nth)
  moreover have "rt_batches b = take i (rt_batches b) @ x # drop (Suc i) (rt_batches b)"
    using i x by (simp add: id_take_nth_drop)
  ultimately show ?thesis
    using b' c
    by (intro exI [of _ "take i (rt_batches b)"] exI [of _ "drop (Suc i) (rt_batches b)"])
      (auto simp: remove_nth_def less_evidence_class_def less_eq_evidence_class_def)
qed

lemma shed_one_split:
  assumes "shed_one b = Some (x, b')"
  shows "\<exists>as bs. rt_batches b = as @ x # bs \<and> rt_batches b' = as @ bs \<and>
          (\<forall>y \<in> set as. bb_class x < bb_class y) \<and> (\<forall>y \<in> set bs. bb_class x \<le> bb_class y)"
proof -
  from shed_one_Some [OF assms] obtain as bs where "rt_batches b = as @ x # bs"
    and "b' = forget_part x (b\<lparr>rt_batches := as @ bs\<rparr>)" and "\<forall>y \<in> set as. bb_class x < bb_class y"
    and "\<forall>y \<in> set bs. bb_class x \<le> bb_class y" by blast
  then show ?thesis by (intro exI [of _ as] exI [of _ bs]) (simp add: forget_part_def)
qed

text \<open>The accounting the code keeps in \<open>records\<close> and \<open>bytes\<close>.\<close>

definition accounted :: "heap_sizes \<Rightarrow> retry_buffer \<Rightarrow> bool" where
  "accounted hs b =
     (rt_records b = sum_list (map (\<lambda>x. batch_len (bb_batch x)) (rt_batches b)) \<and>
      rt_bytes b = sum_list (map bb_bytes (rt_batches b)) \<and>
      (\<forall>x \<in> set (rt_batches b). bb_bytes x = approx_bytes hs (bb_batch x) \<and>
         eb_records (bb_batch x) \<noteq> [] \<and>
         (\<forall>r \<in> set (eb_records (bb_batch x)). record_class r = bb_class x)))"

lemma accounted_new: "accounted hs (new_retry_buffer c)"
  by (simp add: accounted_def new_retry_buffer_def)

lemma accounted_forget:
  "accounted hs b \<Longrightarrow> rt_batches b = as @ x # bs \<Longrightarrow>
   accounted hs (forget_part x (b\<lparr>rt_batches := as @ bs\<rparr>))"
  by (auto simp: accounted_def forget_part_def)

lemma forget_part_fields [simp]:
  "rt_batches (forget_part x b) = rt_batches b" "rt_config (forget_part x b) = rt_config b"
  by (simp_all add: forget_part_def)

lemma pop_front_Some:
  "pop_front b = Some (x, b') \<Longrightarrow>
   \<exists>bs. rt_batches b = x # bs \<and> b' = forget_part x (b\<lparr>rt_batches := bs\<rparr>)"
  by (auto simp: pop_front_def split: list.splits)

interpretation rt: shed_store rt_batches push_part pop_front "accounted hs" shed_one bb_class
  for hs
proof unfold_locales
  show "rt_batches (push_part x s) = rt_batches s @ [x]" for x s
    by (simp add: push_part_def)
  show "pop_front s = None \<longleftrightarrow> rt_batches s = []" for s
    by (simp add: pop_front_def split: list.splits)
  show "pop_front s = Some (x, s') \<Longrightarrow> rt_batches s = x # rt_batches s'" for s x s'
    by (auto dest: pop_front_Some)
  show "accounted hs s \<Longrightarrow> pop_front s = Some (x, s') \<Longrightarrow> accounted hs s'" for s x s'
    using accounted_forget [of hs s "[]" x] by (auto dest!: pop_front_Some)
  show "shed_one s = None \<longleftrightarrow> rt_batches s = []" for s
    by (rule shed_one_None)
  show "shed_one s = Some (x, s') \<Longrightarrow> \<exists>as bs. rt_batches s = as @ x # bs \<and>
     rt_batches s' = as @ bs \<and> (\<forall>y \<in> set as. bb_class x < bb_class y) \<and>
     (\<forall>y \<in> set bs. bb_class x \<le> bb_class y)" for s x s'
    by (rule shed_one_split)
  show "accounted hs s \<Longrightarrow> shed_one s = Some (x, s') \<Longrightarrow> accounted hs s'" for s x s'
    by (drule shed_one_Some) (auto intro: accounted_forget)
qed

definition shed_gap :: "string \<Rightarrow> buffered_batch \<Rightarrow> gap_report" where
  "shed_gap why x = gap_for_shed why (bb_class x) (bb_batch x)"

text \<open>Both shedding loops are runs of \<open>shed_one\<close> reported batch by batch.\<close>

lemma shed_while_sheds:
  "shed_while why over b = (gaps, b') \<Longrightarrow>
   \<exists>xs. rt.sheds b xs b' \<and> gaps = map (shed_gap why) xs \<and>
        (over b' \<longrightarrow> rt_batches b' = []) \<and> rt_config b' = rt_config b"
proof (induction why over b arbitrary: gaps b' rule: shed_while.induct)
  case (1 why over b)
  show ?case
  proof (cases "over b")
    case False
    with 1(2) show ?thesis
      by (intro exI [of _ "[]"]) (auto simp: shed_while.simps [of why over b] intro: rt.sheds_Nil)
  next
    case over: True
    show ?thesis
    proof (cases "shed_one b")
      case None
      with 1(2) over show ?thesis
        by (intro exI [of _ "[]"])
          (auto simp: shed_while.simps [of why over b] shed_one_None intro: rt.sheds_Nil)
    next
      case (Some p)
      obtain x b1 where p: "p = (x, b1)" by force
      obtain gs b2 where r: "shed_while why over b1 = (gs, b2)" by force
      from 1(1) [OF over Some p [symmetric] r] obtain xs where
        xs: "rt.sheds b1 xs b2" "gs = map (shed_gap why) xs" "over b2 \<longrightarrow> rt_batches b2 = []"
          "rt_config b2 = rt_config b1" by blast
      from 1(2) over Some p r have g: "gaps = shed_gap why x # gs" "b' = b2"
        by (auto simp: shed_while.simps [of why over b] shed_gap_def)
      have "rt_config b1 = rt_config b"
        using Some p by (auto dest!: shed_one_Some)
      with xs g Some p show ?thesis
        by (intro exI [of _ "x # xs"]) (auto intro: rt.sheds_Cons)
    qed
  qed
qed

lemma drop_expired_pops:
  "drop_expired now b = (gaps, b') \<Longrightarrow>
   \<exists>xs. rt.pops b xs b' \<and> gaps = map (shed_gap ''retry_buffer_expired'') xs \<and>
        \<not> expired now b' \<and> rt_config b' = rt_config b \<and>
        (\<forall>x \<in> set xs. max_age_ms (rt_config b) < now - enqueued_at_ms x)"
proof (induction now b arbitrary: gaps b' rule: drop_expired.induct)
  case (1 now b)
  show ?case
  proof (cases "expired now b")
    case False
    with 1(2) show ?thesis
      by (intro exI [of _ "[]"]) (auto simp: drop_expired.simps [of now b] intro: rt.pops_Nil)
  next
    case e: True
    then obtain p where pf: "pop_front b = Some p"
      by (auto simp: expired_def pop_front_def split: list.splits)
    obtain x b1 where p: "p = (x, b1)" by force
    obtain gs b2 where r: "drop_expired now b1 = (gs, b2)" by force
    have ne: "\<not> \<not> expired now b" using e by simp
    from pop_front_Some [OF pf [unfolded p]] have cfg: "rt_config b1 = rt_config b"
      and old: "max_age_ms (rt_config b) < now - enqueued_at_ms x"
      using e by (auto simp: expired_def)
    from 1(1) [OF ne pf p [symmetric] r] obtain xs where
      xs: "rt.pops b1 xs b2" "gs = map (shed_gap ''retry_buffer_expired'') xs"
        "\<not> expired now b2" "rt_config b2 = rt_config b1"
        "\<forall>x \<in> set xs. max_age_ms (rt_config b1) < now - enqueued_at_ms x" by blast
    from 1(2) e pf p r have g: "gaps = shed_gap ''retry_buffer_expired'' x # gs" "b' = b2"
      by (auto simp: drop_expired.simps [of now b] shed_gap_def)
    show ?thesis
      using xs g cfg old pf p by (intro exI [of _ "x # xs"]) (auto intro: rt.pops_Cons)
  qed
qed

section \<open>Splitting by class\<close>

lemma split_by_class_mem:
  "(pb, c) \<in> set (split_by_class ids b) \<Longrightarrow>
   eb_records pb = filter (\<lambda>r. record_class r = c) (eb_records b) \<and> eb_records pb \<noteq> [] \<and>
   eb_producer pb = eb_producer b"
  by (auto simp: split_by_class_def Let_def split: if_splits)

lemma mset_split_by_class:
  "mset (concat (map (\<lambda>p. eb_records (fst p)) (split_by_class ids b))) = mset (eb_records b)"
proof -
  have "mset (filter (\<lambda>r. record_class r = Reliability) rs) +
        mset (filter (\<lambda>r. record_class r = Attribution) rs) = mset rs" for rs
    by (induction rs) auto
  moreover have "concat (map (\<lambda>p. eb_records (fst p)) (split_by_class ids b)) =
      filter (\<lambda>r. record_class r = Reliability) (eb_records b) @
      filter (\<lambda>r. record_class r = Attribution) (eb_records b)"
    by (simp add: split_by_class_def Let_def)
  ultimately show ?thesis by simp
qed

lemma split_by_class_length: "length (split_by_class ids b) \<le> 2"
  by (simp add: split_by_class_def Let_def)

section \<open>Conservation\<close>

definition held :: "buffered_batch list \<Rightarrow> evidence_record list" where
  "held xs = concat (map (\<lambda>x. eb_records (bb_batch x)) xs)"

lemma length_held: "length (held xs) = sum_list (map (\<lambda>x. batch_len (bb_batch x)) xs)"
  by (induction xs) (auto simp: held_def batch_len_def)

lemma mset_held: "mset (held xs) = sum_mset (image_mset (\<lambda>x. mset (eb_records (bb_batch x))) (mset xs))"
  by (induction xs) (auto simp: held_def)

lemma held_append [simp]: "held (xs @ ys) = held xs @ held ys"
  by (simp add: held_def)

lemma fold_push_part:
  "rt_batches (fold push_part xs b) = rt_batches b @ xs \<and> rt_config (fold push_part xs b) = rt_config b"
  by (induction xs arbitrary: b) (auto simp: push_part_def)

lemma accounted_push:
  "accounted hs b \<Longrightarrow> bb_bytes x = approx_bytes hs (bb_batch x) \<Longrightarrow> eb_records (bb_batch x) \<noteq> [] \<Longrightarrow>
   (\<forall>r \<in> set (eb_records (bb_batch x)). record_class r = bb_class x) \<Longrightarrow>
   accounted hs (push_part x b)"
  by (auto simp: accounted_def push_part_def)

lemma accounted_parts:
  "accounted hs b \<Longrightarrow> set ps \<subseteq> set (split_by_class ids batch) \<Longrightarrow>
   accounted hs (fold push_part (map (buffer_part hs now) ps) b)"
proof (induction ps arbitrary: b)
  case Nil
  then show ?case by simp
next
  case (Cons p ps)
  obtain pb c where p: "p = (pb, c)" by force
  from Cons.prems(2) p have "(pb, c) \<in> set (split_by_class ids batch)" by simp
  from split_by_class_mem [OF this] have "accounted hs (push_part (buffer_part hs now p) b)"
    using Cons.prems(1) by (intro accounted_push) (auto simp: buffer_part_def p)
  with Cons show ?case by simp
qed

lemma held_parts:
  "mset (held (map (buffer_part hs now) (split_by_class ids batch))) = mset (eb_records batch)"
  using mset_split_by_class [of ids batch] by (simp add: held_def comp_def buffer_part_def)

text \<open>What a list of shed batches means for the reports made of it.\<close>

definition sum_gaps :: "(gap_report \<Rightarrow> nat) \<Rightarrow> gap_report list \<Rightarrow> nat" where
  "sum_gaps f gs = sum_list (map f gs)"

definition one_class :: "buffered_batch \<Rightarrow> bool" where
  "one_class x =
     (eb_records (bb_batch x) \<noteq> [] \<and>
      (\<forall>r \<in> set (eb_records (bb_batch x)). record_class r = bb_class x))"

lemma accounted_one_class: "accounted hs b \<Longrightarrow> x \<in> set (rt_batches b) \<Longrightarrow> one_class x"
  by (simp add: accounted_def one_class_def)

lemma shed_gap_counts:
  assumes "one_class x"
  shows "dropped_records (shed_gap why x) = length (eb_records (bb_batch x))"
    and "dropped_reliability (shed_gap why x) = of_class Reliability (eb_records (bb_batch x))"
    and "dropped_attribution (shed_gap why x) = of_class Attribution (eb_records (bb_batch x))"
proof -
  have "filter (\<lambda>r. record_class r = c) (eb_records (bb_batch x)) =
        (if bb_class x = c then eb_records (bb_batch x) else [])" for c
    using assms by (auto simp: one_class_def filter_empty_conv intro: filter_True)
  then show "dropped_reliability (shed_gap why x) = of_class Reliability (eb_records (bb_batch x))"
    and "dropped_attribution (shed_gap why x) = of_class Attribution (eb_records (bb_batch x))"
    by (cases "bb_class x"; simp add: shed_gap_def gap_for_shed_def of_class_def batch_len_def Let_def)+
qed (simp add: shed_gap_def batch_len_def)

lemma of_class_append: "of_class c (xs @ ys) = of_class c xs + of_class c ys"
  by (simp add: of_class_def)

lemma sum_gaps_held:
  assumes "\<forall>x \<in> set xs. one_class x"
  shows "sum_gaps dropped_records (map (shed_gap why) xs) = length (held xs) \<and>
         sum_gaps dropped_reliability (map (shed_gap why) xs) = of_class Reliability (held xs) \<and>
         sum_gaps dropped_attribution (map (shed_gap why) xs) = of_class Attribution (held xs)"
  using assms
proof (induction xs)
  case Nil
  then show ?case by (simp add: sum_gaps_def held_def of_class_def)
next
  case (Cons x xs)
  then have "one_class x" by simp
  note c = shed_gap_counts [OF this, of why]
  from Cons c show ?case by (simp add: sum_gaps_def held_def of_class_append)
qed

text \<open>The batches' windows are those of their records, as \<open>EvidenceBatch::new\<close> makes them.\<close>

definition windowed :: "evidence_batch \<Rightarrow> bool" where
  "windowed b =
     (\<forall>r \<in> set (eb_records b). observed_at_min b \<le> observed_at_ns r \<and>
                               observed_at_ns r \<le> observed_at_max b)"

lemma windowed_new_batch: "windowed (new_batch i p rs)"
proof (cases "rs = []")
  case True
  then show ?thesis by (simp add: windowed_def)
next
  case False
  then show ?thesis using new_batch_window [OF False, of i p]
    by (auto simp: windowed_def)
qed

lemma split_windowed: "p \<in> set (split_by_class ids b) \<Longrightarrow> windowed (fst p)"
  by (auto simp: split_by_class_def Let_def windowed_new_batch split: if_splits)

definition buffer_inv :: "heap_sizes \<Rightarrow> retry_buffer \<Rightarrow> bool" where
  "buffer_inv hs b = (accounted hs b \<and> (\<forall>x \<in> set (rt_batches b). windowed (bb_batch x)))"

lemma buffer_inv_new: "buffer_inv hs (new_retry_buffer c)"
  by (simp add: buffer_inv_def accounted_new) (simp add: new_retry_buffer_def)

lemma sheds_buffer_inv: "rt.sheds b xs b' \<Longrightarrow> buffer_inv hs b \<Longrightarrow> buffer_inv hs b'"
  using rt.sheds_inv rt.sheds_set by (fastforce simp: buffer_inv_def)

lemma pops_buffer_inv: "rt.pops b xs b' \<Longrightarrow> buffer_inv hs b \<Longrightarrow> buffer_inv hs b'"
  using rt.pops_inv rt.pops_items by (fastforce simp: buffer_inv_def)

lemma enqueue_sheds:
  assumes "enqueue hs ids batch now b = (gaps, b')"
  obtains xs where
    "rt.sheds (fold push_part (map (buffer_part hs now) (split_by_class ids batch)) b) xs b'"
    "gaps = map (shed_gap ''retry_buffer_overflow'') xs"
    "over_budget b' \<longrightarrow> rt_batches b' = []" "rt_config b' = rt_config b"
  using assms shed_while_sheds [of "''retry_buffer_overflow''" over_budget
      "fold push_part (map (buffer_part hs now) (split_by_class ids batch)) b" gaps b']
    fold_push_part by (auto simp: enqueue_def Let_def)

lemma enqueue_start_inv:
  assumes "buffer_inv hs b"
  shows "buffer_inv hs (fold push_part (map (buffer_part hs now) (split_by_class ids batch)) b)"
  using assms accounted_parts [of hs b "split_by_class ids batch" ids batch now]
    split_windowed [of _ ids batch]
  by (auto simp: buffer_inv_def fold_push_part buffer_part_def)

lemma enqueue_inv:
  "buffer_inv hs b \<Longrightarrow> enqueue hs ids batch now b = (gaps, b') \<Longrightarrow> buffer_inv hs b'"
  by (metis enqueue_sheds enqueue_start_inv sheds_buffer_inv)

lemma accounted_empty: "accounted hs b \<Longrightarrow> rt_batches b = [] \<Longrightarrow> rt_records b = 0 \<and> rt_bytes b = 0"
  by (simp add: accounted_def)

section \<open>Properties\<close>

text \<open>
  after any number of consecutive failures the next delay lies between half the ceiling
  and the ceiling, the ceiling being the base doubled once per failure up to the cap: the
  saturating arithmetic never wraps and the draw never comes back near zero.
\<close>

theorem backoff_schedule:
  assumes "backoff_wf b" and "attempt b = 0" and "n \<le> u32_max"
  shows "let ceiling = min (base_ms (rb_config b) * 2 ^ n) (max_ms (rb_config b));
             delay = fst (next_delay_ms hash (fail_times hash n b))
         in ceiling div 2 \<le> delay \<and> delay \<le> ceiling"
proof -
  let ?b = "fail_times hash n b"
  have "rb_config ?b = rb_config b" "attempt ?b = n" "backoff_wf ?b"
    using fail_times_state [of hash n b] assms by auto
  then show ?thesis
    using next_delay_bounds [of ?b hash] ceiling_ms_eq [of ?b] by (simp add: Let_def)
qed

theorem backoff_schedule_witness:
  "backoff_wf (new_backoff default_backoff_config) \<and>
   (let delay = fst (next_delay_ms id (fail_times id 3 (new_backoff default_backoff_config)))
    in 1000 \<le> delay \<and> delay \<le> 2000)"
proof -
  have w: "backoff_wf (new_backoff default_backoff_config)"
    by (rule backoff_wf_new) (simp_all add: default_backoff_config_def u64_max_def)
  have a: "attempt (new_backoff default_backoff_config) = 0" by (simp add: new_backoff_def)
  have n: "(3 :: nat) \<le> u32_max" by (simp add: u32_max_def)
  show ?thesis
    using w backoff_schedule [OF w a n, of id]
    by (simp add: new_backoff_def default_backoff_config_def normalized_def Let_def)
qed

text \<open>
  the pacer bounds the drain: over any run of polls and of feedback from the sink, the
  batches let through are at most one second's burst plus the configured rate times the time
  that passed.
\<close>

theorem drain_batch_rate:
  assumes "pacer_wf p" and "last_refill_ms p = Some t" and "times_from t ss"
  shows "real (fst (drain_run ss p)) \<le>
         real (max_batches_per_sec (dp_config p)) * (1 + real (end_time t ss - t) / 1000)"
proof -
  have "batch_tokens p \<le> real (max_batches_per_sec (dp_config p))"
    using assms(1) by (simp add: pacer_wf_def)
  then have "batch_tokens p + real (max_batches_per_sec (dp_config p)) * real (end_time t ss - t) / 1000
      \<le> real (max_batches_per_sec (dp_config p)) * (1 + real (end_time t ss - t) / 1000)"
    by (simp add: algebra_simps)
  with drain_run_rate [OF assms] show ?thesis by linarith
qed

theorem drain_batch_rate_witness:
  "pacer_wf (refill 0 (new_pacer default_pace_config)) \<and>
   real (fst (drain_run [Poll 0 10, Delivered, Poll 500 10, Backpressure, Poll 1000 10]
     (refill 0 (new_pacer default_pace_config)))) \<le> 40"
proof -
  let ?p = "refill 0 (new_pacer default_pace_config)"
  have w: "pacer_wf ?p" by (intro refill_wf pacer_wf_new default_pace_config_ok)
  have l: "last_refill_ms ?p = Some 0" by simp
  have t: "times_from 0 [Poll 0 10, Delivered, Poll 500 10, Backpressure, Poll 1000 10]" by simp
  have c: "max_batches_per_sec (dp_config ?p) = 20"
    by (simp add: new_pacer_def default_pace_config_def)
  show ?thesis using w drain_batch_rate [OF w l t] c by simp
qed

lemma oversized_admitted:
  "1 \<le> batch_tokens (refill t p) \<Longrightarrow> max (byte_rate p) 1 < real n \<Longrightarrow>
   poll t n p = (Send, (refill t p)\<lparr>batch_tokens := batch_tokens (refill t p) - 1,
                                    byte_tokens := byte_tokens (refill t p) - real n\<rparr>)"
  by (auto simp: poll_def poll_admits_def Let_def byte_rate_def)

lemma oversized_run:
  "last_refill_ms p = Some t \<or> last_refill_ms p = None \<Longrightarrow> max (byte_rate p) 1 < real n \<Longrightarrow>
   real k \<le> batch_tokens p \<Longrightarrow> batch_tokens p \<le> max (batch_rate p) 1 \<Longrightarrow>
   fst (drain_run (replicate k (Poll t n)) p) = k"
proof (induction k arbitrary: p)
  case 0
  then show ?case by simp
next
  case (Suc k)
  have tok: "batch_tokens (refill t p) = batch_tokens p"
    using Suc.prems(1,4) by (auto simp: refill_def Let_def)
  with Suc.prems(3) have "1 \<le> batch_tokens (refill t p)" by simp
  note o = oversized_admitted [OF this Suc.prems(2)]
  let ?q = "snd (poll t n p)"
  have "fst (drain_run (replicate k (Poll t n)) ?q) = k"
    using Suc.prems tok by (intro Suc.IH) (simp_all add: o byte_rate_def batch_rate_def)
  with o show ?case by (simp add: Let_def case_prod_unfold)
qed

text \<open>
  the byte rate has no such bound, although the comment says the average still holds: a
  batch larger than one second's budget is admitted on batch tokens alone, so under the
  default configuration (2 MiB/s) twenty batches of 100 MiB go out in the same millisecond.
\<close>

theorem drain_byte_rate_unbounded:
  "fst (drain_run (replicate 20 (Poll 0 (100 * 1024 * 1024))) (new_pacer default_pace_config)) = 20"
  by (rule oversized_run)
    (simp_all add: new_pacer_def default_pace_config_def byte_rate_def batch_rate_def)

text \<open>
  merging gap reports loses nothing: the counters add up (saturating), the probes are
  united without duplicates, every instant covered by either report is covered by the
  result, and the cause is kept exactly when both agree.
\<close>

theorem merge_covers_both:
  assumes "window_ok a" and "window_ok b" and "distinct (affected_probes a)"
  shows "window_ok (merge a b) \<and> (\<forall>t. covers a t \<or> covers b t \<longrightarrow> covers (merge a b) t) \<and>
         set (affected_probes (merge a b)) = set (affected_probes a) \<union> set (affected_probes b) \<and>
         distinct (affected_probes (merge a b)) \<and>
         dropped_records (merge a b) = min (dropped_records a + dropped_records b) usize_max \<and>
         cause (merge a b) = (if cause a = cause b then cause a else ''multiple'')"
  using assms merge_window_ok merge_covers merge_probes merge_distinct
  by (simp add: merge_counts merge_cause sat_add_def)

theorem merge_covers_both_witness:
  "covers (merge (gap_for_records ''overflow'' []) (gap_for_records ''expired'' [\<lparr>observed_at_ns = 9,
     er_pid = 1, er_cgroup_id = 0, er_probe = gap_probe, er_occurrence = sample_occurrence,
     er_binding = None\<rparr>])) 9"
proof -
  let ?r = "\<lparr>observed_at_ns = 9, er_pid = 1, er_cgroup_id = 0, er_probe = gap_probe,
     er_occurrence = sample_occurrence, er_binding = None\<rparr>"
  let ?a = "gap_for_records ''overflow'' []" and ?b = "gap_for_records ''expired'' [?r]"
  have w: "window_ok ?a" "window_ok ?b"
    using gap_for_records_window [of "''overflow''" "[]"]
      gap_for_records_window [of "''expired''" "[?r]"]
    by (simp_all add: window_ok_def window_def)
  have d: "distinct (affected_probes ?a)"
    by (simp add: gap_for_records_fields affected_types_distinct)
  have "covers ?b 9" using gap_for_records_covers [of ?r "[?r]" "''expired''"] by simp
  with merge_covers_both [OF w d] show ?thesis by blast
qed

text \<open>
  C26: enqueueing keeps the buffer's exact accounting and ends inside all three budgets,
  however large the batch: a batch that does not fit is shed itself.
\<close>

theorem enqueue_bounded:
  assumes "buffer_inv hs b" and "enqueue hs ids batch now b = (gaps, b')"
  shows "buffer_inv hs b' \<and> rt_records b' \<le> max_records (rt_config b) \<and>
         length (rt_batches b') \<le> max_batches (rt_config b) \<and> rt_bytes b' \<le> max_bytes (rt_config b)"
proof -
  from enqueue_sheds [OF assms(2)] have o: "over_budget b' \<longrightarrow> rt_batches b' = []"
    and c: "rt_config b' = rt_config b" by metis+
  have inv: "buffer_inv hs b'" by (rule enqueue_inv [OF assms])
  have "\<not> over_budget b'"
  proof (cases "rt_batches b' = []")
    case True
    with accounted_empty [of hs b'] inv show ?thesis by (simp add: over_budget_def buffer_inv_def)
  next
    case False
    with o show ?thesis by blast
  qed
  with inv c show ?thesis by (auto simp: over_budget_def)
qed

definition unit_sizes :: heap_sizes where
  "unit_sizes = \<lparr>capacity = length, json_len = (\<lambda>_. Some 100)\<rparr>"

theorem enqueue_bounded_witness:
  "buffer_inv unit_sizes (new_retry_buffer \<lparr>max_records = 0, max_batches = 9, max_age_ms = 5,
     max_bytes = 900\<rparr>) \<and>
   (\<exists>gaps b'. enqueue unit_sizes (\<lambda>_. ''i'') sample_batch 3 (new_retry_buffer
      \<lparr>max_records = 0, max_batches = 9, max_age_ms = 5, max_bytes = 900\<rparr>) = (gaps, b') \<and>
      rt_records b' \<le> 0)"
proof -
  let ?c = "\<lparr>max_records = 0, max_batches = 9, max_age_ms = 5, max_bytes = 900\<rparr>"
  obtain gaps b' where e: "enqueue unit_sizes (\<lambda>_. ''i'') sample_batch 3 (new_retry_buffer ?c) =
    (gaps, b')" by force
  have i: "buffer_inv unit_sizes (new_retry_buffer ?c)" by (rule buffer_inv_new)
  show ?thesis using i e enqueue_bounded [OF i e] by (auto simp: new_retry_buffer_def)
qed

text \<open>
  C3: no record disappears silently at the retry buffer: what was held plus what arrived is
  what is still held plus what the gap reports count, in total and per class, and each lost
  record's observation time lies in the window of one of the reports.
\<close>

theorem enqueue_conserves:
  assumes "buffer_inv hs b" and "enqueue hs ids batch now b = (gaps, b')"
  shows "\<exists>lost. mset (held (rt_batches b)) + mset (eb_records batch) =
                 mset (held (rt_batches b')) + mset lost \<and>
           sum_gaps dropped_records gaps = length lost \<and>
           sum_gaps dropped_reliability gaps = of_class Reliability lost \<and>
           sum_gaps dropped_attribution gaps = of_class Attribution lost \<and>
           (\<forall>r \<in> set lost. \<exists>g \<in> set gaps.
              gap_start_ns g \<le> observed_at_ns r \<and> observed_at_ns r \<le> gap_end_ns g)"
proof -
  let ?b0 = "fold push_part (map (buffer_part hs now) (split_by_class ids batch)) b"
  from enqueue_sheds [OF assms(2)] obtain xs where xs: "rt.sheds ?b0 xs b'"
    and gaps: "gaps = map (shed_gap ''retry_buffer_overflow'') xs" by metis
  have inv0: "buffer_inv hs ?b0" by (rule enqueue_start_inv [OF assms(1)])
  have sub: "set xs \<subseteq> set (rt_batches ?b0)" using rt.sheds_set [OF xs] by auto
  have one: "\<forall>x \<in> set xs. one_class x"
    using sub inv0 accounted_one_class by (auto simp: buffer_inv_def)
  have "mset (held (rt_batches ?b0)) = mset (held xs) + mset (held (rt_batches b'))"
    using rt.sheds_mset [OF xs] by (simp add: mset_held)
  moreover have "mset (held (rt_batches ?b0)) = mset (held (rt_batches b)) + mset (eb_records batch)"
    by (simp add: fold_push_part held_parts)
  moreover have "\<forall>r \<in> set (held xs). \<exists>g \<in> set gaps.
      gap_start_ns g \<le> observed_at_ns r \<and> observed_at_ns r \<le> gap_end_ns g"
    using sub inv0
    by (fastforce simp: gaps held_def shed_gap_def buffer_inv_def windowed_def)
  ultimately show ?thesis
    using sum_gaps_held [OF one, of "''retry_buffer_overflow''"]
    by (intro exI [of _ "held xs"]) (simp add: gaps add.commute)
qed

theorem enqueue_conserves_witness:
  "\<exists>gaps b' lost. enqueue unit_sizes (\<lambda>_. ''i'') sample_batch 3 (new_retry_buffer
      \<lparr>max_records = 0, max_batches = 9, max_age_ms = 5, max_bytes = 900\<rparr>) = (gaps, b') \<and>
     mset (eb_records sample_batch) = mset (held (rt_batches b')) + mset lost \<and>
     sum_gaps dropped_records gaps = length lost"
proof -
  let ?c = "\<lparr>max_records = 0, max_batches = 9, max_age_ms = 5, max_bytes = 900\<rparr>"
  obtain gaps b' where e: "enqueue unit_sizes (\<lambda>_. ''i'') sample_batch 3 (new_retry_buffer ?c) =
    (gaps, b')" by force
  have i: "buffer_inv unit_sizes (new_retry_buffer ?c)" by (rule buffer_inv_new)
  have h: "held (rt_batches (new_retry_buffer ?c)) = []" by (simp add: new_retry_buffer_def held_def)
  from enqueue_conserves [OF i e] e h show ?thesis by auto
qed

text \<open>
  C8: shedding under memory pressure ends at the target, gives up reliability evidence first
  (nothing still held ranks below anything given up), oldest first within a class, and
  leaves the delivery order of what remains untouched.
\<close>

theorem shed_to_order:
  assumes "buffer_inv hs b" and "shed_to target b = (gaps, b')"
  shows "\<exists>xs. gaps = map (shed_gap ''memory_pressure'') xs \<and> rt_bytes b' \<le> target \<and>
           buffer_inv hs b' \<and>
           (\<forall>x \<in> set xs. \<forall>y \<in> set (rt_batches b'). bb_class x \<le> bb_class y) \<and>
           (\<forall>c. filter (\<lambda>x. bb_class x = c) (rt_batches b) =
                filter (\<lambda>x. bb_class x = c) xs @ filter (\<lambda>x. bb_class x = c) (rt_batches b')) \<and>
           subseq (rt_batches b') (rt_batches b)"
proof -
  from shed_while_sheds [OF assms(2) [unfolded shed_to_def]] obtain xs where
    xs: "rt.sheds b xs b'" and gaps: "gaps = map (shed_gap ''memory_pressure'') xs"
    and stop: "target < rt_bytes b' \<longrightarrow> rt_batches b' = []" by auto
  have inv: "buffer_inv hs b'" by (rule sheds_buffer_inv [OF xs assms(1)])
  have "rt_bytes b' \<le> target"
  proof (cases "rt_batches b' = []")
    case True
    with accounted_empty [of hs b'] inv show ?thesis by (simp add: buffer_inv_def)
  next
    case False
    with stop show ?thesis by (simp add: not_less)
  qed
  then show ?thesis
    using xs gaps inv rt.sheds_least [OF xs] rt.sheds_rank_order [OF xs] rt.sheds_subseq [OF xs]
    by blast
qed

definition sample_buffer :: retry_buffer where
  "sample_buffer =
     fold push_part (map (buffer_part unit_sizes 3) (split_by_class (\<lambda>_. ''i'') sample_batch))
       (new_retry_buffer default_retry_config)"

lemma sample_buffer_inv: "buffer_inv unit_sizes sample_buffer"
  unfolding sample_buffer_def by (intro enqueue_start_inv buffer_inv_new)

lemma sample_batch_class: "map record_class (eb_records sample_batch) = [Attribution]"
  by (simp add: sample_batch_def sample_occurrence_def record_class_def class_of_def
      new_occurrence_def)

lemma sample_buffer_batches:
  "length (rt_batches sample_buffer) = 1 \<and> map enqueued_at_ms (rt_batches sample_buffer) = [3] \<and>
   rt_config sample_buffer = default_retry_config"
  using sample_batch_class
  by (auto simp: sample_buffer_def fold_push_part split_by_class_def Let_def buffer_part_def
      new_retry_buffer_def filter_empty_conv)

theorem shed_to_order_witness:
  "length (rt_batches sample_buffer) = 1 \<and>
   (\<exists>gaps b'. shed_to 0 sample_buffer = (gaps, b') \<and> rt_bytes b' \<le> 0 \<and>
      subseq (rt_batches b') (rt_batches sample_buffer))"
proof -
  obtain gaps b' where e: "shed_to 0 sample_buffer = (gaps, b')" by force
  show ?thesis
    using e shed_to_order [OF sample_buffer_inv e] sample_buffer_batches by blast
qed

text \<open>
  expiry drops exactly a prefix of the queue, each dropped batch is older than the limit
  and reported, and when batches were enqueued at non-decreasing times nothing older than
  the limit is left.
\<close>

theorem drop_expired_exact:
  assumes "drop_expired now b = (gaps, b')" and "sorted (map enqueued_at_ms (rt_batches b))"
  shows "\<exists>xs. rt_batches b = xs @ rt_batches b' \<and>
           gaps = map (shed_gap ''retry_buffer_expired'') xs \<and>
           (\<forall>x \<in> set xs. max_age_ms (rt_config b) < now - enqueued_at_ms x) \<and>
           (\<forall>x \<in> set (rt_batches b'). now - enqueued_at_ms x \<le> max_age_ms (rt_config b))"
proof -
  from drop_expired_pops [OF assms(1)] obtain xs where xs: "rt.pops b xs b'"
    and gaps: "gaps = map (shed_gap ''retry_buffer_expired'') xs"
    and young: "\<not> expired now b'" "rt_config b' = rt_config b"
    and old: "\<forall>x \<in> set xs. max_age_ms (rt_config b) < now - enqueued_at_ms x" by blast
  have split: "rt_batches b = xs @ rt_batches b'" by (rule rt.pops_items [OF xs])
  have "\<forall>x \<in> set (rt_batches b'). now - enqueued_at_ms x \<le> max_age_ms (rt_config b)"
  proof (cases "rt_batches b'")
    case Nil
    then show ?thesis by simp
  next
    case (Cons y ys)
    have "\<forall>x \<in> set (y # ys). enqueued_at_ms y \<le> enqueued_at_ms x"
      using assms(2) split Cons by (auto simp: sorted_append)
    moreover have "now - enqueued_at_ms y \<le> max_age_ms (rt_config b)"
      using young Cons by (simp add: expired_def not_less)
    ultimately show ?thesis unfolding Cons by (meson diff_le_mono2 order_trans)
  qed
  with split gaps old show ?thesis by blast
qed

theorem drop_expired_exact_witness:
  "\<exists>gaps b'. drop_expired 400000 sample_buffer = (gaps, b') \<and> rt_batches b' = [] \<and>
     length gaps = 1"
proof -
  obtain gaps b' where e: "drop_expired 400000 sample_buffer = (gaps, b')" by force
  have s: "sorted (map enqueued_at_ms (rt_batches sample_buffer))"
    using sample_buffer_batches by simp
  from drop_expired_exact [OF e s] obtain xs where xs: "rt_batches sample_buffer = xs @ rt_batches b'"
    and g: "gaps = map (shed_gap ''retry_buffer_expired'') xs"
    and young: "\<forall>x \<in> set (rt_batches b'). 400000 - enqueued_at_ms x \<le> max_age_ms default_retry_config"
    using sample_buffer_batches by auto
  from xs sample_buffer_batches have "\<forall>x \<in> set (rt_batches b'). enqueued_at_ms x = 3"
    by (metis UnCI list.set_map image_eqI map_append set_append set_ConsD set_map singletonD
        empty_set list.simps(15))
  with young have "rt_batches b' = []"
    by (cases "rt_batches b'") (auto simp: default_retry_config_def)
  with xs g sample_buffer_batches e show ?thesis by auto
qed

text \<open>The record of a gap and its projection.\<close>

lemma gap_batch_projection:
  fixes js i now ident producer g
  defines "b \<equiv> gap_into_batch js i now ident producer g"
  obtains r occ where "eb_records b = [r]" "into_plane_b_occurrences sha256 b = [occ]"
    "record_class r = Attribution" "occurrence_type occ = ''jalki.agent.gap''"
    "same_identity occ (er_occurrence r)" "observed_at_ns r = gap_end_ns g"
    "er_occurrence r = insert_labels (gap_labels js g)
       (in_cluster (pm_cluster producer) (with_severity Warning
         (new_occurrence i now ''jalki/agent'' ''jalki.agent.gap'')))"
    "label occ = overlay (metadata_labels producer r) (overlay (gap_labels js g) Map.empty)"
proof -
  obtain r where r: "eb_records b = [r]" "observed_at_ns r = gap_end_ns g" and bind: "er_binding r = None"
    and occ: "er_occurrence r = insert_labels (gap_labels js g)
        (in_cluster (pm_cluster producer) (with_severity Warning
          (new_occurrence i now ''jalki/agent'' ''jalki.agent.gap'')))"
    by (simp add: b_def gap_into_batch_def Let_def)
  have prod: "eb_producer b = producer" by (simp add: b_def gap_into_batch_def Let_def)
  have otype: "occurrence_type (er_occurrence r) = ''jalki.agent.gap''"
    by (simp add: occ in_cluster_def with_severity_def new_occurrence_def)
  have lab: "label (er_occurrence r) = overlay (gap_labels js g) Map.empty"
    by (simp add: occ label_insert_labels in_cluster_def with_severity_def)
       (simp add: label_def new_occurrence_def)
  have net: "network_data (er_occurrence r) = None"
    by (simp add: occ in_cluster_def with_severity_def new_occurrence_def)
  have keep: "plane_b_drop_reason r = None"
    by (simp add: plane_b_drop_reason_def is_agent_record_def otype starts_with_def)
  let ?o = "neutralize_for_plane_b (into_occurrence_with_metadata sha256 producer r)"
  have out: "into_plane_b_occurrences sha256 b = [?o]"
    using keep r prod
    by (simp add: into_plane_b_occurrences_def into_plane_b_projection_def project_record_None)
  have subj: "subject_of_labels sha256 producer (er_occurrence r) = None"
    by (simp add: subject_of_labels_def lab gap_labels_def)
  have same: "same_identity (into_occurrence_with_metadata sha256 producer r) (er_occurrence r)"
    by (rule same_identity_metadata)
  then have "label ?o = label (into_occurrence_with_metadata sha256 producer r)"
    using net by (simp add: neutralize_for_plane_b_def same_identity_def Let_def)
       (simp add: label_def)
  also have "\<dots> = overlay (metadata_labels producer r) (overlay (gap_labels js g) Map.empty)"
    by (simp add: into_occurrence_with_metadata_def Let_def label_insert_labels bind
        apply_runtime_binding_def apply_runtime_subject_def subj lab)
  finally have "label ?o = overlay (metadata_labels producer r) (overlay (gap_labels js g) Map.empty)" .
  moreover have "record_class r = Attribution" by (simp add: record_class_def otype class_of_def)
  moreover have "same_identity ?o (er_occurrence r)" by (simp add: neutralize_identity same)
  moreover from this have "occurrence_type ?o = ''jalki.agent.gap''"
    using otype by (simp add: same_identity_def)
  ultimately show thesis using that r out occ by blast
qed

text \<open>
  a gap report always gets through: the batch it becomes projects to one Plane-B
  occurrence although it has no binding, which carries the cause, all three counters and
  the window, and its record is attribution evidence, the class shed last.
\<close>

theorem gap_evidence_survives:
  "\<exists>occ. into_plane_b_occurrences sha256 (gap_into_batch js i now ident producer g) = [occ] \<and>
         occurrence_type occ = ''jalki.agent.gap'' \<and> label occ ''cause'' = Some (cause g) \<and>
         label occ ''dropped_records'' = Some (decimal (dropped_records g)) \<and>
         label occ ''dropped_reliability'' = Some (decimal (dropped_reliability g)) \<and>
         label occ ''dropped_attribution'' = Some (decimal (dropped_attribution g)) \<and>
         label occ ''gap_start_ns'' = Some (decimal (unat (gap_start_ns g))) \<and>
         label occ ''gap_end_ns'' = Some (decimal (unat (gap_end_ns g))) \<and>
         map record_class (eb_records (gap_into_batch js i now ident producer g)) = [Attribution]"
proof -
  obtain r occ where g: "eb_records (gap_into_batch js i now ident producer g) = [r]"
    "into_plane_b_occurrences sha256 (gap_into_batch js i now ident producer g) = [occ]"
    "record_class r = Attribution" "occurrence_type occ = ''jalki.agent.gap''"
    and lab: "label occ = overlay (metadata_labels producer r) (overlay (gap_labels js g) Map.empty)"
    by (rule gap_batch_projection)
  have "label occ k = overlay (gap_labels js g) Map.empty k" if "k \<in> fst ` set (gap_labels js g)" for k
    unfolding lab using that by (intro overlay_other) (auto simp: gap_labels_def metadata_labels_def)
  with g show ?thesis by (auto simp: gap_labels_def)
qed

end
