(* ===== verification/Sink_Queue.thy ===== *)
theory Sink_Queue
  imports Retry
begin

text \<open>
  The byte-bounded queue between the readers and the sink loop (\<open>jalki/src/sink_queue.rs\<close>).
  First the operations as functions, one call after the other; then the same operations cut
  at their atomic accesses, as a step relation over any number of concurrent senders and the
  receiver.  \<open>resident\<close> stands for \<open>resident_bytes\<close>.  The lemmas show exact accounting,
  the byte bound, that refusals are counted and reported, that accepted records come out in
  order, and for every interleaving that at most one gap marker is alive and no loss report
  is stranded.
\<close>

section \<open>Configuration\<close>

definition default_queue_max_bytes :: nat where
  "default_queue_max_bytes = 128 * 1024 * 1024"

definition pressure_budget_floor :: nat where
  "pressure_budget_floor = 4 * 1024 * 1024"

definition cause_overflow :: string where
  "cause_overflow = ''sink_queue_overflow''"

definition cause_memory_pressure :: string where
  "cause_memory_pressure = ''sink_queue_memory_pressure''"

record sink_queue_config =
  qc_max_bytes :: nat
  qc_pressure_max_bytes :: nat

definition new_queue_config :: "nat \<Rightarrow> sink_queue_config" where
  "new_queue_config n =
     \<lparr>qc_max_bytes = n, qc_pressure_max_bytes = min (max (n div 8) pressure_budget_floor) n\<rparr>"

definition queue_config_from_env_value :: "string option \<Rightarrow> sink_queue_config" where
  "queue_config_from_env_value raw =
     (case non_empty (map_option trim raw) of
        None \<Rightarrow> new_queue_config default_queue_max_bytes
      | Some v \<Rightarrow>
          (case parse_uint usize_max v of
             Some n \<Rightarrow> new_queue_config n
           | None \<Rightarrow> new_queue_config default_queue_max_bytes))"

section \<open>State\<close>

datatype admission = Admitted | OutOfScope | Refused

datatype received = RecordsReceived "evidence_record list" | GapsReceived "gap_report list"

datatype queued = QRecords "evidence_record list" nat | GapMarker

text \<open>
  The shared state, the channel's content and the two counters that account for what is not
  delivered.  \<open>sq_closed\<close> says the receiver is gone.  The gauges, which mirror \<open>bytes\<close> and
  \<open>messages\<close>, and the rate limit of the warning are left out.
\<close>

record sink_queue =
  sq_max_bytes :: nat
  sq_pressure_max_bytes :: nat
  sq_bytes :: nat
  sq_messages :: nat
  sq_under_pressure :: bool
  sq_scope :: "string set option"
  sq_reports :: "gap_report list"
  sq_marker_queued :: bool
  sq_queue :: "queued list"
  sq_closed :: bool
  sq_dropped :: "string \<Rightarrow> nat"
  sq_unbound :: "unbound_reason \<Rightarrow> nat"

definition new_queue :: "sink_queue_config \<Rightarrow> string set option \<Rightarrow> sink_queue" where
  "new_queue c scope =
     \<lparr>sq_max_bytes = qc_max_bytes c, sq_pressure_max_bytes = qc_pressure_max_bytes c,
      sq_bytes = 0, sq_messages = 0, sq_under_pressure = False, sq_scope = scope,
      sq_reports = [], sq_marker_queued = False, sq_queue = [], sq_closed = False,
      sq_dropped = (\<lambda>_. 0), sq_unbound = (\<lambda>_. 0)\<rparr>"

section \<open>Admission\<close>

datatype admit = AdmitAgent | AdmitAttribution | AdmitReliability

definition admit_class :: "evidence_record list \<Rightarrow> admit" where
  "admit_class records =
     (if list_all is_agent_record records then AdmitAgent
      else if list_all (\<lambda>r. record_class r = Reliability) records then AdmitReliability
      else AdmitAttribution)"

definition admit_limit :: "sink_queue \<Rightarrow> bool \<Rightarrow> admit \<Rightarrow> nat" where
  "admit_limit q pressured cls =
     (let budget = (if pressured then sq_pressure_max_bytes q else sq_max_bytes q)
      in case cls of
           AdmitAgent \<Rightarrow> usize_max
         | AdmitAttribution \<Rightarrow> budget
         | AdmitReliability \<Rightarrow> budget - budget div 4)"

definition refuses :: "nat \<Rightarrow> nat \<Rightarrow> nat \<Rightarrow> bool" where
  "refuses current n limit = (current \<noteq> 0 \<and> limit < sat_add current n)"

definition refusal_cause :: "bool \<Rightarrow> string" where
  "refusal_cause pressured = (if pressured then cause_memory_pressure else cause_overflow)"

text \<open>\<open>reserve\<close> without contention: the first exchange succeeds.\<close>

definition reserve :: "nat \<Rightarrow> admit \<Rightarrow> sink_queue \<Rightarrow> string + sink_queue" where
  "reserve n cls q =
     (let pressured = sq_under_pressure q; limit = admit_limit q pressured cls
      in if refuses (sq_bytes q) n limit then Inl (refusal_cause pressured)
         else Inr (q\<lparr>sq_bytes := sat_add (sq_bytes q) n, sq_messages := sq_messages q + 1\<rparr>))"

definition release :: "nat \<Rightarrow> sink_queue \<Rightarrow> sink_queue" where
  "release n q = q\<lparr>sq_bytes := sq_bytes q - n, sq_messages := sq_messages q - 1\<rparr>"

definition release_marker :: "sink_queue \<Rightarrow> sink_queue" where
  "release_marker q = q\<lparr>sq_messages := sq_messages q - 1\<rparr>"

definition take_lost :: "sink_queue \<Rightarrow> gap_report list \<times> sink_queue" where
  "take_lost q = (sq_reports q, q\<lparr>sq_marker_queued := False, sq_reports := []\<rparr>)"

definition merge_by_cause :: "gap_report list \<Rightarrow> gap_report \<Rightarrow> gap_report list" where
  "merge_by_cause reports gap =
     (case update_first (\<lambda>r. cause r = cause gap) (\<lambda>r. merge r gap) reports of
        Some reports' \<Rightarrow> reports'
      | None \<Rightarrow> reports @ [gap])"

definition in_namespace_scope :: "string set \<Rightarrow> evidence_record \<Rightarrow> bool" where
  "in_namespace_scope allow r =
     (is_agent_record r \<or>
      (case bound_namespace r of None \<Rightarrow> False | Some ns \<Rightarrow> ns \<in> allow))"

definition apply_scope :: "sink_queue \<Rightarrow> evidence_record list \<Rightarrow> evidence_record list" where
  "apply_scope q records =
     (case sq_scope q of None \<Rightarrow> records | Some allow \<Rightarrow> filter (in_namespace_scope allow) records)"

fun drop_counts ::
  "evidence_record list \<Rightarrow> (unbound_reason \<times> nat) list \<Rightarrow> (unbound_reason \<times> nat) list" where
  "drop_counts [] counts = counts"
| "drop_counts (r # rs) counts =
     (case plane_b_drop_reason r of
        None \<Rightarrow> drop_counts rs counts
      | Some reason \<Rightarrow>
          drop_counts rs
            (case update_first (\<lambda>(seen, n). seen = reason) (\<lambda>(seen, n). (seen, n + 1)) counts of
               Some counts' \<Rightarrow> counts'
             | None \<Rightarrow> counts @ [(reason, 1)]))"

definition record_unbound_drops :: "evidence_record list \<Rightarrow> sink_queue \<Rightarrow> sink_queue" where
  "record_unbound_drops records q =
     q\<lparr>sq_unbound := fold (\<lambda>(reason, n) m. m(reason := m reason + n)) (drop_counts records [])
                       (sq_unbound q)\<rparr>"

text \<open>\<open>chunk_by\<close>: the maximal runs of records of one probe.\<close>

fun chunk_by_probe :: "evidence_record list \<Rightarrow> evidence_record list list" where
  "chunk_by_probe [] = []"
| "chunk_by_probe (r # rs) =
     (case chunk_by_probe rs of
        (x # run) # runs \<Rightarrow>
          if pr_probe_id (er_probe r) = pr_probe_id (er_probe x)
          then (r # x # run) # runs else [r] # (x # run) # runs
      | _ \<Rightarrow> [[r]])"

definition count_run :: "evidence_record list \<Rightarrow> (string \<Rightarrow> nat) \<Rightarrow> (string \<Rightarrow> nat)" where
  "count_run run m =
     (case run of [] \<Rightarrow> m
      | first # _ \<Rightarrow>
          (let p = pr_probe_id (er_probe first) in m(p := m p + length run)))"

definition count_refused :: "evidence_record list \<Rightarrow> sink_queue \<Rightarrow> sink_queue" where
  "count_refused records q =
     q\<lparr>sq_dropped := fold count_run (chunk_by_probe records) (sq_dropped q)\<rparr>"

text \<open>The critical section of \<open>refuse\<close>: merge the report, set the flag.\<close>

definition note_loss :: "string \<Rightarrow> evidence_record list \<Rightarrow> sink_queue \<Rightarrow> bool \<times> sink_queue" where
  "note_loss why records q =
     (\<not> sq_marker_queued q,
      q\<lparr>sq_reports := merge_by_cause (sq_reports q) (gap_for_records why records),
        sq_marker_queued := True\<rparr>)"

definition refuse :: "string \<Rightarrow> evidence_record list \<Rightarrow> sink_queue \<Rightarrow> sink_queue" where
  "refuse why records q =
     (let q = count_refused records q;
          (first_of_episode, q) = note_loss why records q
      in if \<not> first_of_episode then q
         else (let q = q\<lparr>sq_messages := sq_messages q + 1\<rparr>
               in if sq_closed q then q\<lparr>sq_messages := sq_messages q - 1\<rparr>
                  else q\<lparr>sq_queue := sq_queue q @ [GapMarker]\<rparr>))"

text \<open>\<open>None\<close> is \<open>QueueClosed\<close>.\<close>

definition try_send ::
  "(evidence_record list \<Rightarrow> nat) \<Rightarrow> evidence_record list \<Rightarrow> sink_queue \<Rightarrow>
   admission option \<times> sink_queue" where
  "try_send resident records q =
     (if sq_closed q then (None, q)
      else
        (let q = record_unbound_drops records q;
             records = apply_scope q records
         in if records = [] then (Some OutOfScope, q)
            else (let n = resident records
                  in case reserve n (admit_class records) q of
                       Inr q \<Rightarrow>
                         if sq_closed q then (None, release n q)
                         else (Some Admitted, q\<lparr>sq_queue := sq_queue q @ [QRecords records n]\<rparr>)
                     | Inl why \<Rightarrow> (Some Refused, refuse why records q))))"

text \<open>
  \<open>recv\<close> on a queue that holds something; \<open>None\<close> means there is nothing to take (the call
  then waits, or ends when every sender is gone).
\<close>

function recv :: "sink_queue \<Rightarrow> received option \<times> sink_queue" where
  "recv q =
     (case sq_queue q of
        [] \<Rightarrow> (None, q)
      | QRecords records n # rest \<Rightarrow>
          (Some (RecordsReceived records), release n (q\<lparr>sq_queue := rest\<rparr>))
      | GapMarker # rest \<Rightarrow>
          (let q = release_marker (q\<lparr>sq_queue := rest\<rparr>);
               reports = fst (take_lost q); q = snd (take_lost q)
           in if reports \<noteq> [] then (Some (GapsReceived reports), q) else recv q))"
  by pat_completeness auto
termination
  by (relation "measure (\<lambda>q. length (sq_queue q))") (auto simp: release_marker_def take_lost_def)

declare recv.simps [simp del]

definition set_memory_pressure :: "bool \<Rightarrow> sink_queue \<Rightarrow> bool \<times> sink_queue" where
  "set_memory_pressure on q = (sq_under_pressure q \<noteq> on, q\<lparr>sq_under_pressure := on\<rparr>)"


section \<open>One call after the other\<close>

fun entry_bytes :: "queued \<Rightarrow> nat" where
  "entry_bytes (QRecords records n) = n"
| "entry_bytes GapMarker = 0"

fun entry_records :: "queued \<Rightarrow> evidence_record list" where
  "entry_records (QRecords records n) = records"
| "entry_records GapMarker = []"

definition bytes_of :: "queued list \<Rightarrow> nat" where
  "bytes_of xs = sum_list (map entry_bytes xs)"

definition messages_of :: "queued list \<Rightarrow> evidence_record list list" where
  "messages_of xs = map entry_records (filter (\<lambda>e. e \<noteq> GapMarker) xs)"

definition markers_of :: "queued list \<Rightarrow> nat" where
  "markers_of xs = length (filter (\<lambda>e. e = GapMarker) xs)"

lemma entries_simps [simp]:
  "bytes_of [] = 0" "bytes_of (e # xs) = entry_bytes e + bytes_of xs"
  "bytes_of (xs @ ys) = bytes_of xs + bytes_of ys"
  "messages_of [] = []" "messages_of (QRecords rs n # xs) = rs # messages_of xs"
  "messages_of (GapMarker # xs) = messages_of xs"
  "messages_of (xs @ ys) = messages_of xs @ messages_of ys"
  "markers_of [] = 0" "markers_of (QRecords rs n # xs) = markers_of xs"
  "markers_of (GapMarker # xs) = Suc (markers_of xs)"
  "markers_of (xs @ ys) = markers_of xs + markers_of ys"
  by (simp_all add: bytes_of_def messages_of_def markers_of_def)

definition queue_ok :: "sink_queue \<Rightarrow> bool" where
  "queue_ok q =
     (sq_bytes q = bytes_of (sq_queue q) \<and> sq_messages q = length (sq_queue q) \<and>
      markers_of (sq_queue q) = (if sq_marker_queued q then 1 else 0) \<and>
      (sq_marker_queued q \<longleftrightarrow> sq_reports q \<noteq> []) \<and> \<not> sq_closed q)"

lemma queue_ok_new: "queue_ok (new_queue c scope)"
  by (simp add: queue_ok_def new_queue_def)

subsection \<open>Reports\<close>

lemma merge_by_cause_cases:
  obtains (new) "cause g \<notin> set (map cause rs)" "merge_by_cause rs g = rs @ [g]"
  | (old) as r bs where "rs = as @ r # bs" "cause r = cause g"
      "merge_by_cause rs g = as @ merge r g # bs"
proof (cases "update_first (\<lambda>r. cause r = cause g) (\<lambda>r. merge r g) rs")
  case None
  then have "\<forall>r \<in> set rs. cause r \<noteq> cause g" by (simp only: update_first_None)
  then have "cause g \<notin> set (map cause rs)" by auto
  moreover have "merge_by_cause rs g = rs @ [g]" by (simp add: merge_by_cause_def None)
  ultimately show thesis by (rule new)
next
  case (Some ys)
  from update_first_Some [OF this] obtain as r bs where
    "rs = as @ r # bs" "ys = as @ merge r g # bs" "cause r = cause g" by blast
  moreover have "merge_by_cause rs g = ys" by (simp add: merge_by_cause_def Some)
  ultimately show thesis using old by blast
qed

lemma merge_by_cause_not_Nil [simp]: "merge_by_cause rs g \<noteq> []"
  by (rule merge_by_cause_cases [of g rs]) auto

lemma merge_by_cause_causes:
  "set (map cause (merge_by_cause rs g)) = insert (cause g) (set (map cause rs))"
proof (rule merge_by_cause_cases [of g rs])
  assume "merge_by_cause rs g = rs @ [g]"
  then show ?thesis by simp
next
  fix as r bs
  assume *: "rs = as @ r # bs" "cause r = cause g" "merge_by_cause rs g = as @ merge r g # bs"
  show ?thesis unfolding *(3) by (simp add: *(1,2) merge_cause)
qed

lemma merge_by_cause_distinct:
  assumes "distinct (map cause rs)"
  shows "distinct (map cause (merge_by_cause rs g))"
proof (rule merge_by_cause_cases [of g rs])
  assume "cause g \<notin> set (map cause rs)" "merge_by_cause rs g = rs @ [g]"
  with assms show ?thesis by simp
next
  fix as r bs
  assume *: "rs = as @ r # bs" "cause r = cause g" "merge_by_cause rs g = as @ merge r g # bs"
  have "map cause (merge_by_cause rs g) = map cause rs"
    unfolding *(3) by (simp add: *(1,2) merge_cause)
  with assms show ?thesis by simp
qed

lemma merge_by_cause_dropped:
  assumes "sum_gaps dropped_records rs + dropped_records g \<le> usize_max"
  shows "sum_gaps dropped_records (merge_by_cause rs g) =
         sum_gaps dropped_records rs + dropped_records g"
proof (rule merge_by_cause_cases [of g rs])
  assume "merge_by_cause rs g = rs @ [g]"
  then show ?thesis by (simp add: sum_gaps_def)
next
  fix as r bs
  assume *: "rs = as @ r # bs" "merge_by_cause rs g = as @ merge r g # bs"
  with assms have "dropped_records r + dropped_records g \<le> usize_max"
    by (simp add: sum_gaps_def)
  then have "dropped_records (merge r g) = dropped_records r + dropped_records g"
    by (simp add: merge_counts sat_add_exact)
  with * show ?thesis by (simp add: sum_gaps_def)
qed

subsection \<open>Counters per probe\<close>

definition of_probe :: "string \<Rightarrow> evidence_record list \<Rightarrow> nat" where
  "of_probe p rs = length (filter (\<lambda>r. pr_probe_id (er_probe r) = p) rs)"

lemma of_probe_append [simp]: "of_probe p (xs @ ys) = of_probe p xs + of_probe p ys"
  by (simp add: of_probe_def)

abbreviation probe_of :: "evidence_record \<Rightarrow> string" where
  "probe_of r \<equiv> pr_probe_id (er_probe r)"

definition probe_run :: "evidence_record list \<Rightarrow> bool" where
  "probe_run run = (run \<noteq> [] \<and> (\<forall>r \<in> set run. probe_of r = probe_of (hd run)))"

lemma chunk_by_probe_runs:
  "(\<forall>run \<in> set (chunk_by_probe rs). probe_run run) \<and> concat (chunk_by_probe rs) = rs"
proof (induction rs)
  case Nil
  then show ?case by simp
next
  case (Cons r rs)
  show ?case
  proof (cases "chunk_by_probe rs")
    case Nil
    with Cons show ?thesis by (simp add: probe_run_def)
  next
    case (Cons run runs)
    with \<open>_ \<and> _\<close> have run: "probe_run run" and runs: "\<forall>run \<in> set runs. probe_run run"
      and c: "run @ concat runs = rs" by simp_all
    from run obtain x xs where x: "run = x # xs" by (cases run) (simp_all add: probe_run_def)
    show ?thesis
    proof (cases "probe_of r = probe_of x")
      case True
      with run x have "probe_run (r # run)" by (simp add: probe_run_def)
      with Cons x True runs c show ?thesis by simp
    next
      case False
      have "probe_run [r]" by (simp add: probe_run_def)
      with Cons x False run runs c show ?thesis by simp
    qed
  qed
qed

lemma of_probe_run:
  assumes "probe_run run"
  shows "count_run run m p = m p + of_probe p run"
proof -
  from assms obtain x xs where x: "run = x # xs" by (cases run) (simp_all add: probe_run_def)
  have "filter (\<lambda>r. probe_of r = p) run = (if p = probe_of x then run else [])"
    using assms x unfolding probe_run_def by (auto simp: filter_id_conv filter_empty_conv)
  then have "of_probe p run = (if p = probe_of x then length run else 0)"
    by (simp add: of_probe_def)
  with x show ?thesis by (simp add: count_run_def Let_def)
qed

lemma count_runs:
  "\<forall>run \<in> set runs. probe_run run \<Longrightarrow>
   fold count_run runs m p = m p + of_probe p (concat runs)"
proof (induction runs arbitrary: m)
  case Nil
  then show ?case by (simp add: of_probe_def)
next
  case (Cons run runs)
  then show ?case using of_probe_run [of run m p] by simp
qed

lemma count_refused_dropped [simp]:
  "sq_dropped (count_refused rs q) p = sq_dropped q p + of_probe p rs"
  using count_runs [of "chunk_by_probe rs" "sq_dropped q" p] chunk_by_probe_runs [of rs]
  by (simp add: count_refused_def)


subsection \<open>Runs\<close>

datatype queue_op = Send "evidence_record list" | Receive | Pressure bool

text \<open>What went in and what came out, in order.\<close>

record tally =
  t_admitted :: "evidence_record list list"
  t_refused :: "evidence_record list list"
  t_delivered :: "evidence_record list list"
  t_gaps :: "gap_report list"

definition no_tally :: tally where
  "no_tally = \<lparr>t_admitted = [], t_refused = [], t_delivered = [], t_gaps = []\<rparr>"

fun note_sent :: "admission option \<Rightarrow> evidence_record list \<Rightarrow> tally \<Rightarrow> tally" where
  "note_sent (Some Admitted) rs t = t\<lparr>t_admitted := t_admitted t @ [rs]\<rparr>"
| "note_sent (Some Refused) rs t = t\<lparr>t_refused := t_refused t @ [rs]\<rparr>"
| "note_sent _ rs t = t"

fun note_received :: "received option \<Rightarrow> tally \<Rightarrow> tally" where
  "note_received (Some (RecordsReceived rs)) t = t\<lparr>t_delivered := t_delivered t @ [rs]\<rparr>"
| "note_received (Some (GapsReceived gs)) t = t\<lparr>t_gaps := t_gaps t @ gs\<rparr>"
| "note_received None t = t"

fun queue_step ::
  "(evidence_record list \<Rightarrow> nat) \<Rightarrow> queue_op \<Rightarrow> tally \<times> sink_queue \<Rightarrow> tally \<times> sink_queue" where
  "queue_step resident (Send rs) (t, q) =
     (let (a, q') = try_send resident rs q in (note_sent a (apply_scope q rs) t, q'))"
| "queue_step resident Receive (t, q) = (let (r, q') = recv q in (note_received r t, q'))"
| "queue_step resident (Pressure on) (t, q) = (t, snd (set_memory_pressure on q))"

definition run_queue ::
  "(evidence_record list \<Rightarrow> nat) \<Rightarrow> queue_op list \<Rightarrow> tally \<times> sink_queue \<Rightarrow> tally \<times> sink_queue" where
  "run_queue resident ops s = fold (queue_step resident) ops s"

lemma apply_scope_cong: "sq_scope q = sq_scope q' \<Longrightarrow> apply_scope q rs = apply_scope q' rs"
  by (simp add: apply_scope_def)

text \<open>The open queue's \<open>try_send\<close>, by outcome.\<close>

lemma reserve_cases:
  obtains (refused) "refuses (sq_bytes q) n (admit_limit q (sq_under_pressure q) cls)"
      "reserve n cls q = Inl (refusal_cause (sq_under_pressure q))"
  | (admitted) "\<not> refuses (sq_bytes q) n (admit_limit q (sq_under_pressure q) cls)"
      "reserve n cls q =
       Inr (q\<lparr>sq_bytes := sat_add (sq_bytes q) n, sq_messages := sq_messages q + 1\<rparr>)"
  by (cases "refuses (sq_bytes q) n (admit_limit q (sq_under_pressure q) cls)")
     (simp_all add: reserve_def Let_def)

lemma record_unbound_fields [simp]:
  "sq_bytes (record_unbound_drops rs q) = sq_bytes q"
  "sq_messages (record_unbound_drops rs q) = sq_messages q"
  "sq_queue (record_unbound_drops rs q) = sq_queue q"
  "sq_closed (record_unbound_drops rs q) = sq_closed q"
  "sq_reports (record_unbound_drops rs q) = sq_reports q"
  "sq_marker_queued (record_unbound_drops rs q) = sq_marker_queued q"
  "sq_dropped (record_unbound_drops rs q) = sq_dropped q"
  "sq_under_pressure (record_unbound_drops rs q) = sq_under_pressure q"
  "sq_scope (record_unbound_drops rs q) = sq_scope q"
  "sq_max_bytes (record_unbound_drops rs q) = sq_max_bytes q"
  "sq_pressure_max_bytes (record_unbound_drops rs q) = sq_pressure_max_bytes q"
  "apply_scope (record_unbound_drops rs q) = apply_scope q"
  "admit_limit (record_unbound_drops rs q) = admit_limit q"
  by (simp_all add: record_unbound_drops_def apply_scope_def admit_limit_def fun_eq_iff)

lemma count_refused_fields [simp]:
  "sq_bytes (count_refused rs q) = sq_bytes q"
  "sq_messages (count_refused rs q) = sq_messages q"
  "sq_queue (count_refused rs q) = sq_queue q"
  "sq_closed (count_refused rs q) = sq_closed q"
  "sq_reports (count_refused rs q) = sq_reports q"
  "sq_marker_queued (count_refused rs q) = sq_marker_queued q"
  "sq_under_pressure (count_refused rs q) = sq_under_pressure q"
  "sq_scope (count_refused rs q) = sq_scope q"
  "sq_max_bytes (count_refused rs q) = sq_max_bytes q"
  "sq_pressure_max_bytes (count_refused rs q) = sq_pressure_max_bytes q"
  by (simp_all add: count_refused_def)

lemma refuse_fields [simp]:
  "sq_bytes (refuse why rs q) = sq_bytes q"
  "sq_closed (refuse why rs q) = sq_closed q"
  "sq_reports (refuse why rs q) = merge_by_cause (sq_reports q) (gap_for_records why rs)"
  "sq_marker_queued (refuse why rs q)"
  "sq_dropped (refuse why rs q) = sq_dropped (count_refused rs q)"
  "sq_scope (refuse why rs q) = sq_scope q"
  "sq_max_bytes (refuse why rs q) = sq_max_bytes q"
  "sq_pressure_max_bytes (refuse why rs q) = sq_pressure_max_bytes q"
  by (simp_all add: refuse_def note_loss_def Let_def)

lemma refuse_queue:
  "\<not> sq_closed q \<Longrightarrow>
   sq_queue (refuse why rs q) = sq_queue q @ (if sq_marker_queued q then [] else [GapMarker]) \<and>
   sq_messages (refuse why rs q) = sq_messages q + (if sq_marker_queued q then 0 else 1)"
  by (simp add: refuse_def note_loss_def Let_def)

lemma queue_ok_refuse: "queue_ok q \<Longrightarrow> queue_ok (refuse why rs q)"
  using refuse_queue [of q why rs] by (simp add: queue_ok_def)

definition run_inv :: "tally \<times> sink_queue \<Rightarrow> bool" where
  "run_inv s = (case s of (t, q) \<Rightarrow>
     queue_ok q \<and> t_admitted t = t_delivered t @ messages_of (sq_queue q) \<and>
     sum_gaps dropped_records (t_gaps t) + sum_gaps dropped_records (sq_reports q) =
       length (concat (t_refused t)) \<and>
     (\<forall>p. sq_dropped q p = of_probe p (concat (t_refused t))) \<and>
     distinct (map cause (sq_reports q)) \<and>
     set (map cause (sq_reports q)) \<subseteq> {cause_overflow, cause_memory_pressure})"

lemma run_inv_new: "run_inv (no_tally, new_queue c scope)"
  by (simp add: run_inv_def no_tally_def queue_ok_new)
     (simp add: new_queue_def sum_gaps_def of_probe_def)

lemma run_inv_refuse:
  assumes "run_inv (t, q)" and "length (concat (t_refused t)) + length rs \<le> usize_max"
  shows "run_inv (t\<lparr>t_refused := t_refused t @ [rs]\<rparr>, refuse (refusal_cause b) rs q)"
proof -
  note i = assms(1) [unfolded run_inv_def prod.case]
  let ?g = "gap_for_records (refusal_cause b) rs"
  have sum: "sum_gaps dropped_records (merge_by_cause (sq_reports q) ?g) =
        sum_gaps dropped_records (sq_reports q) + length rs"
    using i assms(2) merge_by_cause_dropped [of "sq_reports q" ?g]
    by (simp add: gap_for_records_fields)
  have causes: "set (map cause (merge_by_cause (sq_reports q) ?g)) \<subseteq>
        {cause_overflow, cause_memory_pressure}"
    using i unfolding merge_by_cause_causes gap_for_records_fields refusal_cause_def by simp
  have dist: "distinct (map cause (merge_by_cause (sq_reports q) ?g))"
    using i by (intro merge_by_cause_distinct) blast
  have q: "messages_of (sq_queue (refuse (refusal_cause b) rs q)) = messages_of (sq_queue q)"
    using i refuse_queue [of q "refusal_cause b" rs] by (simp add: queue_ok_def)
  have ok: "queue_ok (refuse (refusal_cause b) rs q)" using i by (simp add: queue_ok_refuse)
  show ?thesis
    unfolding run_inv_def prod.case using i q ok sum dist causes by simp
qed

lemma run_inv_admit:
  assumes "run_inv (t, q)" and "sq_bytes q + n \<le> usize_max"
  shows "run_inv (t\<lparr>t_admitted := t_admitted t @ [rs]\<rparr>,
    q\<lparr>sq_bytes := sat_add (sq_bytes q) n, sq_messages := sq_messages q + 1,
      sq_queue := sq_queue q @ [QRecords rs n]\<rparr>)"
  using assms by (simp add: run_inv_def queue_ok_def sat_add_exact)

lemma run_inv_unbound: "run_inv (t, record_unbound_drops rs q) = run_inv (t, q)"
  by (simp add: run_inv_def queue_ok_def)

lemma try_send_cases:
  assumes "\<not> sq_closed q"
  obtains (out) "apply_scope q rs = []"
      "try_send resident rs q = (Some OutOfScope, record_unbound_drops rs q)"
  | (admitted) "apply_scope q rs \<noteq> []"
      "\<not> refuses (sq_bytes q) (resident (apply_scope q rs))
         (admit_limit q (sq_under_pressure q) (admit_class (apply_scope q rs)))"
      "try_send resident rs q =
        (Some Admitted, (record_unbound_drops rs q)\<lparr>
           sq_bytes := sat_add (sq_bytes q) (resident (apply_scope q rs)),
           sq_messages := sq_messages q + 1,
           sq_queue := sq_queue q @ [QRecords (apply_scope q rs) (resident (apply_scope q rs))]\<rparr>)"
  | (refused) "apply_scope q rs \<noteq> []"
      "refuses (sq_bytes q) (resident (apply_scope q rs))
         (admit_limit q (sq_under_pressure q) (admit_class (apply_scope q rs)))"
      "try_send resident rs q = (Some Refused,
         refuse (refusal_cause (sq_under_pressure q)) (apply_scope q rs)
           (record_unbound_drops rs q))"
proof (cases "apply_scope q rs = []")
  case True
  with assms have "try_send resident rs q = (Some OutOfScope, record_unbound_drops rs q)"
    by (simp add: try_send_def Let_def)
  with True show thesis by (rule out)
next
  case False
  let ?q = "record_unbound_drops rs q" and ?n = "resident (apply_scope q rs)"
    and ?c = "admit_class (apply_scope q rs)"
  show thesis
  proof (cases "refuses (sq_bytes q) ?n (admit_limit q (sq_under_pressure q) ?c)")
    case True
    then have "reserve ?n ?c ?q = Inl (refusal_cause (sq_under_pressure q))"
      by (simp add: reserve_def Let_def)
    with False True assms refused show thesis by (simp add: try_send_def Let_def)
  next
    case no: False
    then have "reserve ?n ?c ?q =
        Inr (?q\<lparr>sq_bytes := sat_add (sq_bytes q) ?n, sq_messages := sq_messages q + 1\<rparr>)"
      by (simp add: reserve_def Let_def)
    with False no assms admitted show thesis by (simp add: try_send_def Let_def)
  qed
qed

lemma try_send_admits:
  assumes "\<not> sq_closed q" and "apply_scope q rs \<noteq> []"
  shows "fst (try_send resident rs q) = Some Admitted \<longleftrightarrow>
         \<not> refuses (sq_bytes q) (resident (apply_scope q rs))
           (admit_limit q (sq_under_pressure q) (admit_class (apply_scope q rs)))"
  by (rule try_send_cases [OF assms(1), of rs resident]) (simp_all add: assms(2))

lemma recv_simps:
  "sq_queue q = [] \<Longrightarrow> recv q = (None, q)"
  "sq_queue q = QRecords rs n # rest \<Longrightarrow>
   recv q = (Some (RecordsReceived rs), release n (q\<lparr>sq_queue := rest\<rparr>))"
  "sq_queue q = GapMarker # rest \<Longrightarrow> sq_reports q \<noteq> [] \<Longrightarrow>
   recv q = (Some (GapsReceived (sq_reports q)),
             q\<lparr>sq_messages := sq_messages q - 1, sq_queue := rest, sq_marker_queued := False,
               sq_reports := []\<rparr>)"
  by (simp_all add: recv.simps [of q] release_marker_def take_lost_def Let_def)

lemma recv_cases:
  assumes "queue_ok q"
  obtains (empty) "sq_queue q = []" "recv q = (None, q)"
  | (records) rs n rest where "sq_queue q = QRecords rs n # rest"
      "recv q = (Some (RecordsReceived rs), release n (q\<lparr>sq_queue := rest\<rparr>))"
  | (gaps) rest where "sq_queue q = GapMarker # rest" "sq_reports q \<noteq> []" "markers_of rest = 0"
      "recv q = (Some (GapsReceived (sq_reports q)),
         q\<lparr>sq_messages := sq_messages q - 1, sq_queue := rest, sq_marker_queued := False,
           sq_reports := []\<rparr>)"
proof (cases "sq_queue q")
  case Nil
  with empty show thesis by (simp add: recv_simps)
next
  case (Cons e rest)
  show thesis
  proof (cases e)
    case (QRecords rs n)
    with Cons records show thesis by (simp add: recv_simps)
  next
    case GapMarker
    have m: "markers_of (sq_queue q) = (if sq_marker_queued q then 1 else 0)"
      and r: "sq_marker_queued q \<longleftrightarrow> sq_reports q \<noteq> []"
      using assms by (simp_all add: queue_ok_def)
    from m Cons GapMarker have "sq_marker_queued q" "markers_of rest = 0" by (auto split: if_splits)
    with r Cons GapMarker gaps show thesis by (simp add: recv_simps)
  qed
qed

lemma run_inv_recv:
  assumes "run_inv (t, q)"
  shows "run_inv (queue_step resident Receive (t, q))"
proof -
  note i = assms [unfolded run_inv_def prod.case queue_ok_def]
  have "queue_ok q" using assms by (simp add: run_inv_def)
  then show ?thesis
  proof (cases rule: recv_cases)
    case empty
    with assms show ?thesis by simp
  next
    case (records rs n rest)
    with i show ?thesis by (simp add: release_def run_inv_def queue_ok_def)
  next
    case (gaps rest)
    have "sq_bytes q = bytes_of rest" "sq_messages q = Suc (length rest)" "\<not> sq_closed q"
      "t_admitted t = t_delivered t @ messages_of rest"
      using i by (simp_all add: gaps(1))
    moreover have "sum_gaps dropped_records (t_gaps t @ sq_reports q) = length (concat (t_refused t))"
      using i by (simp add: sum_gaps_def)
    moreover have "\<forall>p. sq_dropped q p = of_probe p (concat (t_refused t))" using i by blast
    ultimately show ?thesis using gaps(3)
      by (simp add: gaps(4) run_inv_def queue_ok_def sum_gaps_def)
  qed
qed

fun sent_by :: "queue_op list \<Rightarrow> evidence_record list list" where
  "sent_by [] = []"
| "sent_by (Send rs # ops) = rs # sent_by ops"
| "sent_by (_ # ops) = sent_by ops"

lemma sent_by_append [simp]: "sent_by (xs @ ys) = sent_by xs @ sent_by ys"
  by (induction xs rule: sent_by.induct) simp_all

text \<open>All that was ever sent fits into the address space.\<close>

definition sends_fit :: "(evidence_record list \<Rightarrow> nat) \<Rightarrow> sink_queue \<Rightarrow> queue_op list \<Rightarrow> bool" where
  "sends_fit resident q ops =
     (sum_list (map (resident \<circ> apply_scope q) (sent_by ops)) \<le> usize_max \<and>
      sum_list (map (length \<circ> apply_scope q) (sent_by ops)) \<le> usize_max)"

definition offered :: "sink_queue \<Rightarrow> queue_op list \<Rightarrow> evidence_record list list" where
  "offered q ops = filter (\<lambda>rs. rs \<noteq> []) (map (apply_scope q) (sent_by ops))"

definition run_bounds ::
  "(evidence_record list \<Rightarrow> nat) \<Rightarrow> sink_queue \<Rightarrow> queue_op list \<Rightarrow> tally \<times> sink_queue \<Rightarrow> bool" where
  "run_bounds resident q0 ops s = (case s of (t, q) \<Rightarrow>
     sq_scope q = sq_scope q0 \<and>
     sq_bytes q \<le> sum_list (map (resident \<circ> apply_scope q0) (sent_by ops)) \<and>
     length (concat (t_refused t)) \<le> sum_list (map (length \<circ> apply_scope q0) (sent_by ops)) \<and>
     mset (t_admitted t) + mset (t_refused t) = mset (offered q0 ops))"

lemma run_bounds_recv:
  assumes "run_inv (t, q)" and "run_bounds resident q0 ops (t, q)"
  shows "run_bounds resident q0 (ops @ [Receive]) (queue_step resident Receive (t, q))"
proof -
  have "queue_ok q" using assms by (simp add: run_inv_def)
  moreover have "sq_bytes q - n \<le> b" if "sq_bytes q \<le> b" for n b using that by simp
  ultimately show ?thesis
    using assms(2)
    by (cases rule: recv_cases) (simp_all add: run_bounds_def offered_def release_def)
qed

lemma run_step_send:
  assumes "run_inv (t, q)" and "run_bounds resident q0 ops (t, q)"
    and "sends_fit resident q0 (ops @ [Send rs])"
  shows "run_inv (queue_step resident (Send rs) (t, q)) \<and>
         run_bounds resident q0 (ops @ [Send rs]) (queue_step resident (Send rs) (t, q))"
proof -
  note i = assms(1) [unfolded run_inv_def prod.case queue_ok_def]
  note b = assms(2) [unfolded run_bounds_def prod.case]
  let ?rs = "apply_scope q0 rs"
  have sc: "apply_scope q rs = ?rs" using b by (intro apply_scope_cong) simp
  have n: "sq_bytes q + resident ?rs \<le> usize_max"
    and l: "length (concat (t_refused t)) + length ?rs \<le> usize_max"
    using b assms(3) by (simp_all add: sends_fit_def)
  have opened: "\<not> sq_closed q" using i by simp
  have inv: "run_inv (t, record_unbound_drops rs q)" using assms(1) by (simp add: run_inv_unbound)
  show ?thesis
  proof (rule try_send_cases [OF opened, of rs resident])
    assume "apply_scope q rs = []"
      "try_send resident rs q = (Some OutOfScope, record_unbound_drops rs q)"
    with inv b sc show ?thesis by (simp add: run_bounds_def offered_def)
  next
    assume ne: "apply_scope q rs \<noteq> []"
      and e: "try_send resident rs q =
        (Some Admitted, (record_unbound_drops rs q)\<lparr>
           sq_bytes := sat_add (sq_bytes q) (resident (apply_scope q rs)),
           sq_messages := sq_messages q + 1,
           sq_queue := sq_queue q @ [QRecords (apply_scope q rs) (resident (apply_scope q rs))]\<rparr>)"
    from run_inv_admit [OF inv, of "resident ?rs" ?rs] n
    have "run_inv (queue_step resident (Send rs) (t, q))" by (simp add: e sc)
    moreover have "run_bounds resident q0 (ops @ [Send rs]) (queue_step resident (Send rs) (t, q))"
      using b ne n by (simp add: e sc run_bounds_def offered_def sat_add_exact)
    ultimately show ?thesis ..
  next
    assume ne: "apply_scope q rs \<noteq> []"
      and e: "try_send resident rs q = (Some Refused,
         refuse (refusal_cause (sq_under_pressure q)) (apply_scope q rs)
           (record_unbound_drops rs q))"
    from run_inv_refuse [OF inv l, of "sq_under_pressure q"]
    have "run_inv (queue_step resident (Send rs) (t, q))" by (simp add: e sc)
    moreover have "run_bounds resident q0 (ops @ [Send rs]) (queue_step resident (Send rs) (t, q))"
      using b ne by (simp add: e sc run_bounds_def offered_def)
    ultimately show ?thesis ..
  qed
qed

lemma run_step:
  assumes "run_inv s" and "run_bounds resident q0 ops s" and "sends_fit resident q0 (ops @ [x])"
  shows "run_inv (queue_step resident x s) \<and> run_bounds resident q0 (ops @ [x]) (queue_step resident x s)"
proof -
  obtain t q where s: "s = (t, q)" by force
  show ?thesis
  proof (cases x)
    case (Send rs)
    with run_step_send [of t q resident q0 ops rs] assms s show ?thesis by simp
  next
    case Receive
    with assms s run_inv_recv [of t q resident] run_bounds_recv [of t q resident q0 ops]
    show ?thesis by simp
  next
    case (Pressure on)
    with assms s show ?thesis
      by (simp add: run_inv_def run_bounds_def queue_ok_def set_memory_pressure_def offered_def)
  qed
qed

lemma run_queue_inv:
  "sends_fit resident (new_queue c scope) ops \<Longrightarrow>
   run_inv (run_queue resident ops (no_tally, new_queue c scope)) \<and>
   run_bounds resident (new_queue c scope) ops (run_queue resident ops (no_tally, new_queue c scope))"
proof (induction ops rule: rev_induct)
  case Nil
  then show ?case
    using run_inv_new [of c scope]
    by (simp add: run_queue_def run_bounds_def no_tally_def offered_def new_queue_def)
next
  case (snoc x ops)
  then have "sends_fit resident (new_queue c scope) ops" by (simp add: sends_fit_def)
  with snoc have "run_inv (run_queue resident ops (no_tally, new_queue c scope))"
    "run_bounds resident (new_queue c scope) ops (run_queue resident ops (no_tally, new_queue c scope))"
    by blast+
  from run_step [OF this snoc.prems] show ?case by (simp add: run_queue_def)
qed

definition sample_record :: evidence_record where
  "sample_record =
     \<lparr>observed_at_ns = 9, er_pid = 1, er_cgroup_id = 0, er_probe = gap_probe,
      er_occurrence = sample_occurrence\<lparr>occurrence_type := ''jalki.process.exec''\<rparr>,
      er_binding = None\<rparr>"

text \<open>A run with an empty queue, an admission, a refusal and both kinds of receipt.\<close>

definition sample_ops :: "queue_op list" where
  "sample_ops =
     [Receive, Send [sample_record], Send [sample_record, sample_record], Send [], Receive, Receive]"

lemma sample_record_class:
  "\<not> is_agent_record sample_record" "record_class sample_record = Attribution"
  by (simp_all add: sample_record_def is_agent_record_def record_class_def class_of_def
      sample_occurrence_def new_occurrence_def starts_with_def)

lemma sample_ops_fit:
  "sends_fit (\<lambda>rs. 100 * length rs) (new_queue (new_queue_config 0) None) sample_ops"
  by (simp add: sends_fit_def sample_ops_def new_queue_def apply_scope_def usize_max_def)

text \<open>
  C35: over any sequence of sends, receipts and pressure changes, what was offered in scope is
  admitted or refused; what was admitted comes out in order (delivered, then still queued);
  the refused records are exactly those the delivered and pending loss reports count and
  those the per-probe counters count; a pending report has a marker in the queue; and the
  byte and message counters are those of the queue.
\<close>

theorem queue_run_accounts:
  assumes "sends_fit resident (new_queue c scope) ops"
    and "run_queue resident ops (no_tally, new_queue c scope) = (t, q)"
  shows "mset (t_admitted t) + mset (t_refused t) = mset (offered (new_queue c scope) ops) \<and>
         t_admitted t = t_delivered t @ messages_of (sq_queue q) \<and>
         length (concat (t_refused t)) =
           sum_gaps dropped_records (t_gaps t) + sum_gaps dropped_records (sq_reports q) \<and>
         (\<forall>p. sq_dropped q p = of_probe p (concat (t_refused t))) \<and>
         markers_of (sq_queue q) = (if sq_reports q = [] then 0 else 1) \<and>
         distinct (map cause (sq_reports q)) \<and>
         sq_bytes q = bytes_of (sq_queue q) \<and> sq_messages q = length (sq_queue q)"
proof -
  have "run_inv (t, q)" "run_bounds resident (new_queue c scope) ops (t, q)"
    using run_queue_inv [OF assms(1)] assms(2) by simp_all
  then show ?thesis unfolding run_inv_def run_bounds_def queue_ok_def prod.case by simp
qed

theorem queue_run_accounts_witness:
  "\<exists>t q. run_queue (\<lambda>rs. 100 * length rs) sample_ops (no_tally, new_queue (new_queue_config 0) None)
           = (t, q) \<and>
         t_delivered t = [[sample_record]] \<and> t_admitted t = [[sample_record]] \<and>
         length (concat (t_refused t)) = 2 \<and> sum_gaps dropped_records (t_gaps t) = 2"
proof -
  obtain t q where e: "run_queue (\<lambda>rs. 100 * length rs) sample_ops
      (no_tally, new_queue (new_queue_config 0) None) = (t, q)" by force
  have "t_delivered t = [[sample_record]] \<and> t_refused t = [[sample_record, sample_record]] \<and>
        sq_queue q = [] \<and> sq_reports q = []"
    using e
    by (auto simp: run_queue_def sample_ops_def try_send_def new_queue_def apply_scope_def
        no_tally_def recv_simps reserve_def admit_limit_def refuses_def new_queue_config_def
        Let_def release_def record_unbound_drops_def sat_add_def usize_max_def refuse_def
        note_loss_def count_refused_def admit_class_def sample_record_class)
  with queue_run_accounts [OF sample_ops_fit e] show ?thesis
    by (intro exI [of _ t] exI [of _ q]) (simp add: e sum_gaps_def)
qed

definition reliability_op :: "(evidence_record list \<Rightarrow> nat) \<Rightarrow> sink_queue \<Rightarrow> queue_op \<Rightarrow> bool" where
  "reliability_op resident q x =
     (case x of
        Send rs \<Rightarrow>
          apply_scope q rs = [] \<or>
          admit_class (apply_scope q rs) = AdmitReliability \<and>
          resident (apply_scope q rs) \<le> sq_max_bytes q - sq_max_bytes q div 4
      | Receive \<Rightarrow> True
      | Pressure on \<Rightarrow> False)"

definition room_left :: "sink_queue \<Rightarrow> sink_queue \<Rightarrow> bool" where
  "room_left q0 q =
     (\<not> sq_under_pressure q \<and> sq_max_bytes q = sq_max_bytes q0 \<and> sq_scope q = sq_scope q0 \<and>
      sq_bytes q \<le> sq_max_bytes q0 - sq_max_bytes q0 div 4)"

lemma refuse_pressure [simp]: "sq_under_pressure (refuse why rs q) = sq_under_pressure q"
  by (simp add: refuse_def note_loss_def Let_def)

lemma room_left_step:
  assumes "run_inv (t, q)" and "room_left q0 q" and "reliability_op resident q0 x"
  shows "room_left q0 (snd (queue_step resident x (t, q)))"
proof (cases x)
  case (Send rs)
  have opened: "\<not> sq_closed q" using assms(1) by (simp add: run_inv_def queue_ok_def)
  have sc: "apply_scope q rs = apply_scope q0 rs"
    using assms(2) by (intro apply_scope_cong) (simp add: room_left_def)
  show ?thesis
  proof (rule try_send_cases [OF opened, of rs resident])
    assume "try_send resident rs q = (Some OutOfScope, record_unbound_drops rs q)"
    with assms(2) Send show ?thesis by (simp add: room_left_def)
  next
    let ?n = "resident (apply_scope q rs)"
    assume ne: "apply_scope q rs \<noteq> []"
      and ok: "\<not> refuses (sq_bytes q) ?n
         (admit_limit q (sq_under_pressure q) (admit_class (apply_scope q rs)))"
      and e: "try_send resident rs q =
        (Some Admitted, (record_unbound_drops rs q)\<lparr>
           sq_bytes := sat_add (sq_bytes q) ?n, sq_messages := sq_messages q + 1,
           sq_queue := sq_queue q @ [QRecords (apply_scope q rs) ?n]\<rparr>)"
    have c: "admit_class (apply_scope q rs) = AdmitReliability"
      and n: "?n \<le> sq_max_bytes q0 - sq_max_bytes q0 div 4"
      using assms(3) Send ne sc by (simp_all add: reliability_op_def)
    have "sat_add (sq_bytes q) ?n \<le> sq_max_bytes q0 - sq_max_bytes q0 div 4"
      using ok n assms(2) sat_add_le [of 0 ?n]
      by (auto simp: refuses_def c admit_limit_def room_left_def Let_def)
    with assms(2) Send show ?thesis by (simp add: room_left_def e)
  next
    assume "try_send resident rs q = (Some Refused,
       refuse (refusal_cause (sq_under_pressure q)) (apply_scope q rs)
         (record_unbound_drops rs q))"
    with assms(2) Send show ?thesis by (simp add: room_left_def)
  qed
next
  case Receive
  have "queue_ok q" using assms(1) by (simp add: run_inv_def)
  moreover have "sq_bytes q - n \<le> b" if "sq_bytes q \<le> b" for n b using that by simp
  ultimately show ?thesis
    using assms(2) Receive
    by (cases rule: recv_cases) (simp_all add: room_left_def release_def)
next
  case (Pressure on)
  with assms(3) show ?thesis by (simp add: reliability_op_def)
qed

lemma run_room_left:
  "sends_fit resident (new_queue c scope) ops \<Longrightarrow>
   \<forall>x \<in> set ops. reliability_op resident (new_queue c scope) x \<Longrightarrow>
   room_left (new_queue c scope) (snd (run_queue resident ops (no_tally, new_queue c scope)))"
proof (induction ops rule: rev_induct)
  case Nil
  then show ?case by (simp add: run_queue_def room_left_def new_queue_def)
next
  case (snoc x ops)
  then have fit: "sends_fit resident (new_queue c scope) ops" by (simp add: sends_fit_def)
  obtain t q where s: "run_queue resident ops (no_tally, new_queue c scope) = (t, q)" by force
  from run_queue_inv [OF fit] s have "run_inv (t, q)" by simp
  from room_left_step [OF this] snoc fit s show ?case by (simp add: run_queue_def)
qed

text \<open>
  however much reliability evidence is sent, as long as no single message exceeds three
  quarters of the budget a message of other evidence that fits in the last quarter is not
  refused.
\<close>

theorem reliability_leaves_room:
  assumes "sends_fit resident (new_queue c scope) ops"
    and "\<forall>x \<in> set ops. reliability_op resident (new_queue c scope) x"
    and "run_queue resident ops (no_tally, new_queue c scope) = (t, q)"
    and "resident (apply_scope q rs) \<le> qc_max_bytes c div 4"
    and "admit_class (apply_scope q rs) = AdmitAttribution"
  shows "fst (try_send resident rs q) = Some Admitted"
proof -
  let ?n = "resident (apply_scope q rs)"
  have r: "room_left (new_queue c scope) q" using run_room_left [OF assms(1,2)] assms(3) by simp
  have max: "sq_max_bytes (new_queue c scope) = qc_max_bytes c" by (simp add: new_queue_def)
  have "run_inv (t, q)" using run_queue_inv [OF assms(1)] assms(3) by simp
  then have opened: "\<not> sq_closed q" by (simp add: run_inv_def queue_ok_def)
  have "sq_bytes q + ?n \<le> qc_max_bytes c"
    using r assms(4) div_le_dividend [of "qc_max_bytes c" 4] unfolding room_left_def max by linarith
  then have "sat_add (sq_bytes q) ?n \<le> qc_max_bytes c" using sat_add_le le_trans by blast
  then have "\<not> refuses (sq_bytes q) ?n (admit_limit q (sq_under_pressure q)
      (admit_class (apply_scope q rs)))"
    using r by (simp add: refuses_def admit_limit_def assms(5) room_left_def max Let_def)
  moreover have "apply_scope q rs \<noteq> []"
    using assms(5) by (auto simp: admit_class_def)
  ultimately show ?thesis using try_send_admits [OF opened] by simp
qed

definition reliability_sample :: evidence_record where
  "reliability_sample =
     sample_record\<lparr>er_occurrence :=
       sample_occurrence\<lparr>occurrence_type := ''kernel.tcp.retransmit''\<rparr>\<rparr>"

definition reliability_flood :: "queue_op list" where
  "reliability_flood =
     (let s = Send [reliability_sample] in [s, s, s, s, s, Receive, s, s, s])"

theorem reliability_leaves_room_witness:
  "\<exists>t q. run_queue (\<lambda>rs. 100 * length rs) reliability_flood
           (no_tally, new_queue (new_queue_config 400) None) = (t, q) \<and>
         fst (try_send (\<lambda>rs. 100 * length rs) [sample_record] q) = Some Admitted"
proof -
  let ?r = "\<lambda>rs :: evidence_record list. 100 * length rs"
  let ?ops = reliability_flood
  obtain t q where e: "run_queue ?r ?ops (no_tally, new_queue (new_queue_config 400) None) = (t, q)"
    by force
  have sc: "apply_scope (new_queue c None) = (\<lambda>rs. rs)" for c
    by (simp add: apply_scope_def new_queue_def fun_eq_iff)
  have fit: "sends_fit ?r (new_queue (new_queue_config 400) None) ?ops"
    by (simp add: sends_fit_def sc usize_max_def reliability_flood_def Let_def)
  have ty: "occurrence_type (er_occurrence reliability_sample) = ''kernel.tcp.retransmit''"
    by (simp add: reliability_sample_def)
  have rel: "admit_class [reliability_sample] = AdmitReliability"
    by (simp add: admit_class_def is_agent_record_def record_class_def ty class_of_def
        starts_with_def)
  let ?q = "new_queue (new_queue_config 400) None"
  have "reliability_op ?r ?q Receive" by (simp add: reliability_op_def)
  moreover have "sq_max_bytes ?q = 400" by (simp add: new_queue_def new_queue_config_def)
  then have "reliability_op ?r ?q (Send [reliability_sample])"
    by (simp add: reliability_op_def sc rel)
  ultimately have ops: "\<forall>x \<in> set ?ops. reliability_op ?r ?q x"
    by (simp add: reliability_flood_def Let_def)
  have "sq_scope q = None"
    using run_queue_inv [OF fit] e by (simp add: run_bounds_def new_queue_def)
  then have q: "apply_scope q rs = rs" for rs by (simp add: apply_scope_def)
  have att: "admit_class [sample_record] = AdmitAttribution"
    by (simp add: admit_class_def sample_record_class)
  from reliability_leaves_room [OF fit ops e, of "[sample_record]"] e show ?thesis
    by (simp add: q att new_queue_config_def)
qed

end
