(* ===== verification/Queue_Interleaving.thy ===== *)
theory Queue_Interleaving
  imports Sink_Queue
begin

text \<open>
  \<open>SinkQueueSender::try_send\<close> and \<open>SinkQueueReceiver::recv\<close> cut at their accesses to shared
  memory (\<open>jalki/src/sink_queue.rs\<close>): any number of senders and the receiver take steps in any
  order.  A step is one atomic operation (a load, one compare-and-exchange attempt, one
  \<open>fetch_add\<close> or \<open>fetch_sub\<close>, one critical section of the \<open>lost\<close> mutex, one channel send or
  receive).  The compare-and-exchange may fail for no reason.  The receiver may be dropped at
  any time it is not inside \<open>recv\<close>; the channel's content then stays in the state, unread.

  The last part shows that a send run without interference is the sequential \<open>try_send\<close>.
\<close>

section \<open>Where a thread is\<close>

text \<open>
  Each constructor says what the sender does next: load the pressure flag, load \<open>bytes\<close>, check
  and exchange, count the message, send it; give back bytes and message when the channel is
  closed; count the refused records, merge the loss report, count the marker, send it, or give
  its count back.
\<close>

datatype sender =
    Idle
  | LoadPressure "evidence_record list" nat
  | LoadBytes "evidence_record list" nat bool
  | Exchange "evidence_record list" nat bool nat
  | CountMessage "evidence_record list" nat
  | SendMessage "evidence_record list" nat
  | ReleaseBytes "evidence_record list" nat
  | ReleaseMessage
  | CountRefused string "evidence_record list"
  | NoteLoss string "evidence_record list"
  | CountMarker
  | SendMarker
  | ReleaseMarker

datatype receiver =
    Waiting
  | GotRecords "evidence_record list" nat
  | ReleasedBytes "evidence_record list"
  | GotMarker
  | TakeLost

type_synonym sender_config = "sender \<times> tally \<times> sink_queue"
type_synonym receiver_config = "receiver \<times> tally \<times> sink_queue"

section \<open>Steps\<close>

inductive sender_step ::
  "(evidence_record list \<Rightarrow> nat) \<Rightarrow> sender_config \<Rightarrow> sender_config \<Rightarrow> bool"
  for resident where
  closed: "sq_closed q \<Longrightarrow> sender_step resident (Idle, t, q) (Idle, t, q)"
| out_of_scope: "\<not> sq_closed q \<Longrightarrow> apply_scope q rs = [] \<Longrightarrow>
    sender_step resident (Idle, t, q) (Idle, t, record_unbound_drops rs q)"
| start: "\<not> sq_closed q \<Longrightarrow> apply_scope q rs = kept \<Longrightarrow> kept \<noteq> [] \<Longrightarrow>
    sender_step resident (Idle, t, q)
      (LoadPressure kept (resident kept), t, record_unbound_drops rs q)"
| load_pressure: "sender_step resident (LoadPressure rs n, t, q)
      (LoadBytes rs n (sq_under_pressure q), t, q)"
| load_bytes: "sender_step resident (LoadBytes rs n b, t, q) (Exchange rs n b (sq_bytes q), t, q)"
| refuse: "refuses current n (admit_limit q b (admit_class rs)) \<Longrightarrow>
    sender_step resident (Exchange rs n b current, t, q)
      (CountRefused (refusal_cause b) rs, t, q)"
| retry: "\<not> refuses current n (admit_limit q b (admit_class rs)) \<Longrightarrow>
    sender_step resident (Exchange rs n b current, t, q) (Exchange rs n b (sq_bytes q), t, q)"
| claim: "\<not> refuses current n (admit_limit q b (admit_class rs)) \<Longrightarrow> sq_bytes q = current \<Longrightarrow>
    sender_step resident (Exchange rs n b current, t, q)
      (CountMessage rs n, t, q\<lparr>sq_bytes := sat_add current n\<rparr>)"
| count_message: "sender_step resident (CountMessage rs n, t, q)
      (SendMessage rs n, t, q\<lparr>sq_messages := sq_messages q + 1\<rparr>)"
| send_message: "\<not> sq_closed q \<Longrightarrow>
    sender_step resident (SendMessage rs n, t, q)
      (Idle, t\<lparr>t_admitted := t_admitted t @ [rs]\<rparr>,
       q\<lparr>sq_queue := sq_queue q @ [QRecords rs n]\<rparr>)"
| send_fails: "sq_closed q \<Longrightarrow>
    sender_step resident (SendMessage rs n, t, q) (ReleaseBytes rs n, t, q)"
| release_bytes: "sender_step resident (ReleaseBytes rs n, t, q)
      (ReleaseMessage, t, q\<lparr>sq_bytes := sq_bytes q - n\<rparr>)"
| release_message: "sender_step resident (ReleaseMessage, t, q)
      (Idle, t, q\<lparr>sq_messages := sq_messages q - 1\<rparr>)"
| count_refused: "sender_step resident (CountRefused why rs, t, q)
      (NoteLoss why rs, t, count_refused rs q)"
| note_first: "\<not> sq_marker_queued q \<Longrightarrow>
    sender_step resident (NoteLoss why rs, t, q)
      (CountMarker, t\<lparr>t_refused := t_refused t @ [rs]\<rparr>, snd (note_loss why rs q))"
| note_more: "sq_marker_queued q \<Longrightarrow>
    sender_step resident (NoteLoss why rs, t, q)
      (Idle, t\<lparr>t_refused := t_refused t @ [rs]\<rparr>, snd (note_loss why rs q))"
| count_marker: "sender_step resident (CountMarker, t, q)
      (SendMarker, t, q\<lparr>sq_messages := sq_messages q + 1\<rparr>)"
| send_marker: "\<not> sq_closed q \<Longrightarrow>
    sender_step resident (SendMarker, t, q) (Idle, t, q\<lparr>sq_queue := sq_queue q @ [GapMarker]\<rparr>)"
| marker_fails: "sq_closed q \<Longrightarrow> sender_step resident (SendMarker, t, q) (ReleaseMarker, t, q)"
| release_marker: "sender_step resident (ReleaseMarker, t, q)
      (Idle, t, q\<lparr>sq_messages := sq_messages q - 1\<rparr>)"

inductive receiver_step :: "receiver_config \<Rightarrow> receiver_config \<Rightarrow> bool" where
  take_records: "\<not> sq_closed q \<Longrightarrow> sq_queue q = QRecords rs n # rest \<Longrightarrow>
    receiver_step (Waiting, t, q) (GotRecords rs n, t, q\<lparr>sq_queue := rest\<rparr>)"
| take_marker: "\<not> sq_closed q \<Longrightarrow> sq_queue q = GapMarker # rest \<Longrightarrow>
    receiver_step (Waiting, t, q) (GotMarker, t, q\<lparr>sq_queue := rest\<rparr>)"
| received_bytes: "receiver_step (GotRecords rs n, t, q)
    (ReleasedBytes rs, t, q\<lparr>sq_bytes := sq_bytes q - n\<rparr>)"
| received_message: "receiver_step (ReleasedBytes rs, t, q)
    (Waiting, t\<lparr>t_delivered := t_delivered t @ [rs]\<rparr>, q\<lparr>sq_messages := sq_messages q - 1\<rparr>)"
| received_marker: "receiver_step (GotMarker, t, q)
    (TakeLost, t, q\<lparr>sq_messages := sq_messages q - 1\<rparr>)"
| take_reports: "receiver_step (TakeLost, t, q)
    (Waiting, t\<lparr>t_gaps := t_gaps t @ fst (take_lost q)\<rparr>, snd (take_lost q))"

inductive_cases sender_idleE: "sender_step resident (Idle, t, q) c"
inductive_cases sender_exchangeE: "sender_step resident (Exchange rs n b cur, t, q) c"
inductive_cases receiver_takeE: "receiver_step (TakeLost, t, q) c"
inductive_simps sender_done_simps:
  "sender_step resident (ReleaseMessage, t, q) c"
  "sender_step resident (LoadPressure rs n, t, q) c"

section \<open>The system\<close>

record queue_system =
  qs_senders :: "sender list"
  qs_receiver :: receiver
  qs_tally :: tally
  qs_queue :: sink_queue

inductive system_step ::
  "(evidence_record list \<Rightarrow> nat) \<Rightarrow> queue_system \<Rightarrow> queue_system \<Rightarrow> bool"
  for resident where
  by_sender: "qs_senders s = ps @ p # ps' \<Longrightarrow>
    sender_step resident (p, qs_tally s, qs_queue s) (p', t, q) \<Longrightarrow>
    system_step resident s
      (s\<lparr>qs_senders := ps @ p' # ps', qs_tally := t, qs_queue := q\<rparr>)"
| by_receiver: "receiver_step (qs_receiver s, qs_tally s, qs_queue s) (r, t, q) \<Longrightarrow>
    system_step resident s (s\<lparr>qs_receiver := r, qs_tally := t, qs_queue := q\<rparr>)"
| pressure: "system_step resident s
    (s\<lparr>qs_queue := snd (set_memory_pressure on (qs_queue s))\<rparr>)"
| drop_receiver: "qs_receiver s = Waiting \<Longrightarrow>
    system_step resident s (s\<lparr>qs_queue := (qs_queue s)\<lparr>sq_closed := True\<rparr>\<rparr>)"

definition initial_system :: "nat \<Rightarrow> sink_queue_config \<Rightarrow> string set option \<Rightarrow> queue_system" where
  "initial_system k c scope =
     \<lparr>qs_senders = replicate k Idle, qs_receiver = Waiting, qs_tally = no_tally,
      qs_queue = new_queue c scope\<rparr>"

section \<open>What is in flight\<close>

text \<open>The messages whose bytes are reserved, with those bytes.\<close>

fun entry_flight :: "queued \<Rightarrow> (evidence_record list \<times> nat) multiset" where
  "entry_flight (QRecords rs n) = {#(rs, n)#}"
| "entry_flight GapMarker = {#}"

fun sender_flight :: "sender \<Rightarrow> (evidence_record list \<times> nat) multiset" where
  "sender_flight (CountMessage rs n) = {#(rs, n)#}"
| "sender_flight (SendMessage rs n) = {#(rs, n)#}"
| "sender_flight (ReleaseBytes rs n) = {#(rs, n)#}"
| "sender_flight _ = {#}"

fun receiver_flight :: "receiver \<Rightarrow> (evidence_record list \<times> nat) multiset" where
  "receiver_flight (GotRecords rs n) = {#(rs, n)#}"
| "receiver_flight _ = {#}"

definition in_flight :: "queue_system \<Rightarrow> (evidence_record list \<times> nat) multiset" where
  "in_flight s =
     sum_list (map entry_flight (sq_queue (qs_queue s))) +
     sum_list (map sender_flight (qs_senders s)) + receiver_flight (qs_receiver s)"

definition flight_bytes :: "(evidence_record list \<times> nat) multiset \<Rightarrow> nat" where
  "flight_bytes f = sum_mset (image_mset snd f)"

text \<open>What has been counted into \<open>messages\<close> and not yet out of it.\<close>

fun sender_messages :: "sender \<Rightarrow> nat" where
  "sender_messages (SendMessage rs n) = 1"
| "sender_messages (ReleaseBytes rs n) = 1"
| "sender_messages ReleaseMessage = 1"
| "sender_messages SendMarker = 1"
| "sender_messages ReleaseMarker = 1"
| "sender_messages _ = 0"

fun receiver_messages :: "receiver \<Rightarrow> nat" where
  "receiver_messages (GotRecords rs n) = 1"
| "receiver_messages (ReleasedBytes rs) = 1"
| "receiver_messages GotMarker = 1"
| "receiver_messages _ = 0"

definition live_messages :: "queue_system \<Rightarrow> nat" where
  "live_messages s =
     length (sq_queue (qs_queue s)) + sum_list (map sender_messages (qs_senders s)) +
     receiver_messages (qs_receiver s)"

text \<open>The markers between the refusal that decided to send one and the taking of the reports.\<close>

fun sender_markers :: "sender \<Rightarrow> nat" where
  "sender_markers CountMarker = 1"
| "sender_markers SendMarker = 1"
| "sender_markers _ = 0"

fun receiver_markers :: "receiver \<Rightarrow> nat" where
  "receiver_markers GotMarker = 1"
| "receiver_markers TakeLost = 1"
| "receiver_markers _ = 0"

definition live_markers :: "queue_system \<Rightarrow> nat" where
  "live_markers s =
     markers_of (sq_queue (qs_queue s)) + sum_list (map sender_markers (qs_senders s)) +
     receiver_markers (qs_receiver s)"

text \<open>
  The reachable states.  The messages in flight are live memory, so their bytes together never
  exceed the address space.
\<close>

inductive reachable ::
  "(evidence_record list \<Rightarrow> nat) \<Rightarrow> nat \<Rightarrow> sink_queue_config \<Rightarrow> string set option \<Rightarrow>
   queue_system \<Rightarrow> bool"
  for resident k c scope where
  init: "reachable resident k c scope (initial_system k c scope)"
| step: "reachable resident k c scope s \<Longrightarrow> system_step resident s s' \<Longrightarrow>
    flight_bytes (in_flight s') \<le> usize_max \<Longrightarrow> reachable resident k c scope s'"

section \<open>Invariants\<close>

text \<open>
  Each invariant equates a shared counter with what the threads and the channel hold.  The
  step lemmas give it for one thread, with everything else as \<open>x\<close>.
\<close>

lemma flight_bytes_simps [simp]:
  "flight_bytes {#} = 0" "flight_bytes (a + b) = flight_bytes a + flight_bytes b"
  "flight_bytes {#m#} = snd m" "flight_bytes (add_mset m a) = snd m + flight_bytes a"
  by (simp_all add: flight_bytes_def)

abbreviation queue_flight :: "sink_queue \<Rightarrow> (evidence_record list \<times> nat) multiset" where
  "queue_flight q \<equiv> sum_list (map entry_flight (sq_queue q))"

lemma note_loss_fields [simp]:
  "sq_bytes (snd (note_loss why rs q)) = sq_bytes q"
  "sq_messages (snd (note_loss why rs q)) = sq_messages q"
  "sq_queue (snd (note_loss why rs q)) = sq_queue q"
  "sq_closed (snd (note_loss why rs q)) = sq_closed q"
  "sq_reports (snd (note_loss why rs q)) = merge_by_cause (sq_reports q) (gap_for_records why rs)"
  "sq_marker_queued (snd (note_loss why rs q))"
  "sq_dropped (snd (note_loss why rs q)) = sq_dropped q"
  "sq_scope (snd (note_loss why rs q)) = sq_scope q"
  "sq_max_bytes (snd (note_loss why rs q)) = sq_max_bytes q"
  "sq_pressure_max_bytes (snd (note_loss why rs q)) = sq_pressure_max_bytes q"
  by (simp_all add: note_loss_def)

lemma take_lost_fields [simp]:
  "fst (take_lost q) = sq_reports q"
  "sq_bytes (snd (take_lost q)) = sq_bytes q"
  "sq_messages (snd (take_lost q)) = sq_messages q"
  "sq_queue (snd (take_lost q)) = sq_queue q"
  "sq_closed (snd (take_lost q)) = sq_closed q"
  "sq_reports (snd (take_lost q)) = []"
  "\<not> sq_marker_queued (snd (take_lost q))"
  "sq_dropped (snd (take_lost q)) = sq_dropped q"
  "sq_scope (snd (take_lost q)) = sq_scope q"
  "sq_max_bytes (snd (take_lost q)) = sq_max_bytes q"
  "sq_pressure_max_bytes (snd (take_lost q)) = sq_pressure_max_bytes q"
  by (simp_all add: take_lost_def)

lemma exchange_flight [dest]: "Exchange rs n b current = p \<Longrightarrow> sender_flight p = {#}"
  by auto

lemma sender_bytes:
  "sender_step resident c c' \<Longrightarrow> c = (p, t, q) \<Longrightarrow> c' = (p', t', q') \<Longrightarrow>
   sq_bytes q = flight_bytes (queue_flight q + sender_flight p) + x \<Longrightarrow>
   flight_bytes (queue_flight q' + sender_flight p') + x \<le> usize_max \<Longrightarrow>
   sq_bytes q' = flight_bytes (queue_flight q' + sender_flight p') + x"
  by (induction rule: sender_step.induct) (auto simp: sat_add_exact)

lemma receiver_bytes:
  "receiver_step c c' \<Longrightarrow> c = (r, t, q) \<Longrightarrow> c' = (r', t', q') \<Longrightarrow>
   sq_bytes q = flight_bytes (queue_flight q + receiver_flight r) + x \<Longrightarrow>
   sq_bytes q' = flight_bytes (queue_flight q' + receiver_flight r') + x"
  by (induction rule: receiver_step.induct) auto

lemma sender_count:
  "sender_step resident c c' \<Longrightarrow> c = (p, t, q) \<Longrightarrow> c' = (p', t', q') \<Longrightarrow>
   sq_messages q = length (sq_queue q) + sender_messages p + x \<Longrightarrow>
   sq_messages q' = length (sq_queue q') + sender_messages p' + x"
  by (induction rule: sender_step.induct) auto

lemma receiver_count:
  "receiver_step c c' \<Longrightarrow> c = (r, t, q) \<Longrightarrow> c' = (r', t', q') \<Longrightarrow>
   sq_messages q = length (sq_queue q) + receiver_messages r + x \<Longrightarrow>
   sq_messages q' = length (sq_queue q') + receiver_messages r' + x"
  by (induction rule: receiver_step.induct) auto

definition marker_inv :: "nat \<Rightarrow> sink_queue \<Rightarrow> bool" where
  "marker_inv live q =
     ((sq_marker_queued q \<longleftrightarrow> sq_reports q \<noteq> []) \<and>
      live \<le> (if sq_marker_queued q then 1 else 0) \<and>
      (\<not> sq_closed q \<longrightarrow> live = (if sq_marker_queued q then 1 else 0)))"

lemma sender_marker:
  "sender_step resident c c' \<Longrightarrow> c = (p, t, q) \<Longrightarrow> c' = (p', t', q') \<Longrightarrow>
   marker_inv (markers_of (sq_queue q) + sender_markers p + x) q \<Longrightarrow>
   marker_inv (markers_of (sq_queue q') + sender_markers p' + x) q'"
  by (induction rule: sender_step.induct) (auto simp: marker_inv_def split: if_splits)

lemma receiver_marker:
  "receiver_step c c' \<Longrightarrow> c = (r, t, q) \<Longrightarrow> c' = (r', t', q') \<Longrightarrow>
   marker_inv (markers_of (sq_queue q) + receiver_markers r + x) q \<Longrightarrow>
   marker_inv (markers_of (sq_queue q') + receiver_markers r' + x) q'"
  by (induction rule: receiver_step.induct) (auto simp: marker_inv_def split: if_splits)

section \<open>Invariants of the system\<close>

definition senders_sum :: "(sender \<Rightarrow> 'a :: comm_monoid_add) \<Rightarrow> sender list \<Rightarrow> 'a" where
  "senders_sum f ps = sum_list (map f ps)"

lemma senders_sum_split [simp]:
  "senders_sum f (ps @ p # ps') = f p + senders_sum f (ps @ ps')"
  by (simp add: senders_sum_def ac_simps)

lemma senders_sum_idle [simp]: "f Idle = 0 \<Longrightarrow> senders_sum f (replicate k Idle) = 0"
  by (induction k) (simp_all add: senders_sum_def)

lemma marker_inv_close: "marker_inv live q \<Longrightarrow> marker_inv live (q\<lparr>sq_closed := True\<rparr>)"
  by (auto simp: marker_inv_def)

lemma marker_inv_pressure: "marker_inv live (q\<lparr>sq_under_pressure := b\<rparr>) = marker_inv live q"
  by (simp add: marker_inv_def)

definition system_ok :: "queue_system \<Rightarrow> bool" where
  "system_ok s =
     (sq_bytes (qs_queue s) = flight_bytes (in_flight s) \<and>
      sq_messages (qs_queue s) = live_messages s \<and>
      marker_inv (live_markers s) (qs_queue s))"

lemma in_flight_sum:
  "in_flight s = queue_flight (qs_queue s) + receiver_flight (qs_receiver s) +
     senders_sum sender_flight (qs_senders s)"
  by (simp add: in_flight_def senders_sum_def ac_simps)

lemma live_messages_sum:
  "live_messages s = length (sq_queue (qs_queue s)) + receiver_messages (qs_receiver s) +
     senders_sum sender_messages (qs_senders s)"
  by (simp add: live_messages_def senders_sum_def)

lemma live_markers_sum:
  "live_markers s = markers_of (sq_queue (qs_queue s)) + receiver_markers (qs_receiver s) +
     senders_sum sender_markers (qs_senders s)"
  by (simp add: live_markers_def senders_sum_def)

lemmas system_sums = in_flight_sum live_messages_sum live_markers_sum

lemma system_ok_step:
  assumes "system_step resident s s'" and "system_ok s" and "flight_bytes (in_flight s') \<le> usize_max"
  shows "system_ok s'"
  using assms
proof (induction rule: system_step.induct)
  case (by_sender s ps p ps' p' t q)
  let ?r = "qs_receiver s" and ?q = "qs_queue s"
  note ok = by_sender(3) [unfolded system_ok_def system_sums by_sender(1) senders_sum_split]
  have "sq_bytes ?q = flight_bytes (queue_flight ?q + sender_flight p) +
      flight_bytes (receiver_flight ?r + senders_sum sender_flight (ps @ ps'))"
    using ok by simp
  from sender_bytes [OF by_sender(2) refl refl this] by_sender(4)
  have b: "sq_bytes q = flight_bytes (queue_flight q + sender_flight p') +
      flight_bytes (receiver_flight ?r + senders_sum sender_flight (ps @ ps'))"
    by (simp add: system_sums)
  have "sq_messages ?q = length (sq_queue ?q) + sender_messages p +
      (receiver_messages ?r + senders_sum sender_messages (ps @ ps'))"
    using ok by simp
  note m = sender_count [OF by_sender(2) refl refl this]
  have "marker_inv (markers_of (sq_queue ?q) + sender_markers p +
      (receiver_markers ?r + senders_sum sender_markers (ps @ ps'))) ?q"
    using ok by (simp add: ac_simps)
  note k = sender_marker [OF by_sender(2) refl refl this]
  from b m k show ?case by (simp add: system_ok_def system_sums ac_simps)
next
  case (by_receiver s r t q)
  let ?q = "qs_queue s"
  note ok = by_receiver(2) [unfolded system_ok_def system_sums]
  have "sq_bytes ?q = flight_bytes (queue_flight ?q + receiver_flight (qs_receiver s)) +
      flight_bytes (senders_sum sender_flight (qs_senders s))"
    using ok by simp
  note b = receiver_bytes [OF by_receiver(1) refl refl this]
  note m = receiver_count [OF by_receiver(1) refl refl]
  note k = receiver_marker [OF by_receiver(1) refl refl]
  from b m k ok show ?case by (simp add: system_ok_def system_sums)
next
  case (pressure s on)
  then show ?case
    by (simp add: system_ok_def system_sums set_memory_pressure_def marker_inv_pressure)
next
  case (drop_receiver s)
  then show ?case by (simp add: system_ok_def system_sums marker_inv_close)
qed

lemma reachable_ok: "reachable resident k c scope s \<Longrightarrow> system_ok s"
proof (induction rule: reachable.induct)
  case init
  show ?case
    by (simp add: system_ok_def system_sums initial_system_def new_queue_def marker_inv_def)
next
  case (step s s')
  then show ?case by (blast intro: system_ok_step)
qed

subsection \<open>The byte bound\<close>

definition not_agent :: "evidence_record list \<times> nat \<Rightarrow> bool" where
  "not_agent m = (\<not> list_all is_agent_record (fst m))"

definition evidence_bytes :: "(evidence_record list \<times> nat) multiset \<Rightarrow> nat" where
  "evidence_bytes f = flight_bytes (filter_mset not_agent f)"

definition bounded_flight :: "nat \<Rightarrow> (evidence_record list \<times> nat) multiset \<Rightarrow> bool" where
  "bounded_flight m f = (evidence_bytes f \<le> m \<or> (\<exists>x \<in># f. not_agent x \<and> evidence_bytes f = snd x))"

lemma evidence_bytes_add [simp]:
  "evidence_bytes (add_mset x f) = (if not_agent x then snd x else 0) + evidence_bytes f"
  "evidence_bytes {#} = 0"
  by (simp_all add: evidence_bytes_def)

lemma evidence_bytes_le: "evidence_bytes f \<le> flight_bytes f"
  by (induction f) simp_all

lemma evidence_bytes_mem: "x \<in># f \<Longrightarrow> not_agent x \<Longrightarrow> snd x \<le> evidence_bytes f"
proof -
  assume "x \<in># f" "not_agent x"
  then obtain g where "f = add_mset x g" by (meson mset_add)
  with \<open>not_agent x\<close> show ?thesis by simp
qed

lemma admit_limit_le:
  assumes "sq_pressure_max_bytes q \<le> sq_max_bytes q" and "not_agent (rs, n)"
  shows "admit_limit q b (admit_class rs) \<le> sq_max_bytes q"
  using assms by (auto simp: admit_limit_def admit_class_def not_agent_def Let_def)

lemma bounded_flight_remove:
  assumes "bounded_flight m (add_mset x f)"
  shows "bounded_flight m f"
proof (cases "evidence_bytes (add_mset x f) \<le> m")
  case True
  then show ?thesis by (simp add: bounded_flight_def)
next
  case False
  with assms obtain y where y: "y \<in># add_mset x f" "not_agent y"
    "evidence_bytes (add_mset x f) = snd y"
    unfolding bounded_flight_def by blast
  show ?thesis
  proof (cases "y = x")
    case True
    with y have "evidence_bytes f = 0" by simp
    then show ?thesis by (simp add: bounded_flight_def)
  next
    case False
    with y(1) have mem: "y \<in># f" by simp
    from evidence_bytes_mem [OF mem y(2)] y(3) have "evidence_bytes f = snd y" by simp
    with mem y(2) show ?thesis by (auto simp: bounded_flight_def)
  qed
qed

lemma bounded_flight_add:
  assumes "bounded_flight (sq_max_bytes q) f"
    and "\<not> refuses (flight_bytes f) n (admit_limit q b (admit_class rs))"
    and "flight_bytes f + n \<le> usize_max" and "sq_pressure_max_bytes q \<le> sq_max_bytes q"
  shows "bounded_flight (sq_max_bytes q) (add_mset (rs, n) f)"
proof (cases "not_agent (rs, n)")
  case False
  with assms(1) show ?thesis by (auto simp: bounded_flight_def)
next
  case True
  show ?thesis
  proof (cases "flight_bytes f = 0")
    case True
    with evidence_bytes_le [of f] \<open>not_agent (rs, n)\<close> show ?thesis
      by (simp add: bounded_flight_def)
  next
    case False
    with assms(2,3) have "flight_bytes f + n \<le> admit_limit q b (admit_class rs)"
      by (simp add: refuses_def sat_add_exact)
    also have "\<dots> \<le> sq_max_bytes q" by (rule admit_limit_le [OF assms(4) True])
    finally show ?thesis
      using evidence_bytes_le [of f] True by (simp add: bounded_flight_def)
  qed
qed

text \<open>A step moves messages, adds one that was not refused, or takes one out.\<close>

lemma sender_flight_change:
  "sender_step resident c c' \<Longrightarrow> c = (p, t, q) \<Longrightarrow> c' = (p', t', q') \<Longrightarrow>
   sq_max_bytes q' = sq_max_bytes q \<and> sq_pressure_max_bytes q' = sq_pressure_max_bytes q \<and>
   (queue_flight q' + sender_flight p' = queue_flight q + sender_flight p \<or>
    (\<exists>x. queue_flight q + sender_flight p = add_mset x (queue_flight q' + sender_flight p')) \<or>
    (\<exists>rs n b. queue_flight q' + sender_flight p' =
                add_mset (rs, n) (queue_flight q + sender_flight p) \<and>
              \<not> refuses (sq_bytes q) n (admit_limit q b (admit_class rs))))"
  by (induction rule: sender_step.induct) auto

lemma receiver_flight_change:
  "receiver_step c c' \<Longrightarrow> c = (r, t, q) \<Longrightarrow> c' = (r', t', q') \<Longrightarrow>
   sq_max_bytes q' = sq_max_bytes q \<and> sq_pressure_max_bytes q' = sq_pressure_max_bytes q \<and>
   (queue_flight q' + receiver_flight r' = queue_flight q + receiver_flight r \<or>
    (\<exists>x. queue_flight q + receiver_flight r = add_mset x (queue_flight q' + receiver_flight r')))"
  by (induction rule: receiver_step.induct) auto


lemma bounded_flight_step:
  assumes "system_step resident s s'" and "system_ok s"
    and "flight_bytes (in_flight s') \<le> usize_max"
    and "sq_pressure_max_bytes (qs_queue s) \<le> sq_max_bytes (qs_queue s)"
    and "bounded_flight (sq_max_bytes (qs_queue s)) (in_flight s)"
  shows "bounded_flight (sq_max_bytes (qs_queue s')) (in_flight s') \<and>
         sq_max_bytes (qs_queue s') = sq_max_bytes (qs_queue s) \<and>
         sq_pressure_max_bytes (qs_queue s') = sq_pressure_max_bytes (qs_queue s)"
  using assms
proof (induction rule: system_step.induct)
  case (by_sender s ps p ps' p' t q)
  let ?q = "qs_queue s"
  let ?x = "receiver_flight (qs_receiver s) + senders_sum sender_flight (ps @ ps')"
  have f: "in_flight s = queue_flight ?q + sender_flight p + ?x"
    by (simp add: in_flight_sum by_sender(1))
  have f': "in_flight (s\<lparr>qs_senders := ps @ p' # ps', qs_tally := t, qs_queue := q\<rparr>) =
      queue_flight q + sender_flight p' + ?x"
    by (simp add: in_flight_sum)
  have b: "sq_bytes ?q = flight_bytes (in_flight s)" using by_sender(3) by (simp add: system_ok_def)
  note c = sender_flight_change [OF by_sender(2) refl refl]
  consider (same) "queue_flight q + sender_flight p' = queue_flight ?q + sender_flight p"
    | (out) y where "in_flight s = add_mset y (queue_flight q + sender_flight p' + ?x)"
    | (new) rs n b where "queue_flight q + sender_flight p' + ?x = add_mset (rs, n) (in_flight s)"
        "\<not> refuses (flight_bytes (in_flight s)) n (admit_limit ?q b (admit_class rs))"
    using c f b by auto
  then have "bounded_flight (sq_max_bytes ?q) (queue_flight q + sender_flight p' + ?x)"
  proof cases
    case same
    with by_sender(6) f show ?thesis by simp
  next
    case (out y)
    with by_sender(6) bounded_flight_remove show ?thesis by simp
  next
    case (new rs n b)
    have "flight_bytes (in_flight s) + n \<le> usize_max"
      using by_sender(4) unfolding f' new(1) by simp
    from bounded_flight_add [OF by_sender(6) new(2) this by_sender(5)] new(1) show ?thesis by simp
  qed
  with c f' show ?case by simp
next
  case (by_receiver s r t q)
  let ?q = "qs_queue s" and ?x = "senders_sum sender_flight (qs_senders s)"
  have f: "in_flight s = queue_flight ?q + receiver_flight (qs_receiver s) + ?x"
    by (simp add: in_flight_sum)
  have f': "in_flight (s\<lparr>qs_receiver := r, qs_tally := t, qs_queue := q\<rparr>) =
      queue_flight q + receiver_flight r + ?x"
    by (simp add: in_flight_sum)
  note c = receiver_flight_change [OF by_receiver(1) refl refl]
  consider (same) "queue_flight q + receiver_flight r + ?x = in_flight s"
    | (out) y where "in_flight s = add_mset y (queue_flight q + receiver_flight r + ?x)"
    using c f by auto
  then have "bounded_flight (sq_max_bytes ?q) (queue_flight q + receiver_flight r + ?x)"
    using by_receiver(5) bounded_flight_remove by cases auto
  with c f' show ?case by simp
next
  case (pressure s on)
  then show ?case by (simp add: in_flight_sum set_memory_pressure_def)
next
  case (drop_receiver s)
  then show ?case by (simp add: in_flight_sum)
qed

lemma reachable_bounded:
  "reachable resident k c scope s \<Longrightarrow> qc_pressure_max_bytes c \<le> qc_max_bytes c \<Longrightarrow>
   sq_max_bytes (qs_queue s) = qc_max_bytes c \<and>
   sq_pressure_max_bytes (qs_queue s) = qc_pressure_max_bytes c \<and>
   bounded_flight (qc_max_bytes c) (in_flight s)"
proof (induction rule: reachable.induct)
  case init
  show ?case
    by (simp add: initial_system_def new_queue_def in_flight_sum bounded_flight_def)
next
  case (step s s')
  note b = bounded_flight_step [OF step(2) reachable_ok [OF step(1)] step(3)]
  from b step have max: "sq_max_bytes (qs_queue s') = qc_max_bytes c" by simp
  from b step show ?case unfolding max [symmetric] by simp
qed


subsection \<open>Order and accounting\<close>

fun receiver_records :: "receiver \<Rightarrow> evidence_record list list" where
  "receiver_records (GotRecords rs n) = [rs]"
| "receiver_records (ReleasedBytes rs) = [rs]"
| "receiver_records _ = []"

fun sender_refused :: "string \<Rightarrow> sender \<Rightarrow> nat" where
  "sender_refused p (NoteLoss why rs) = of_probe p rs"
| "sender_refused p _ = 0"

definition in_order :: "receiver \<Rightarrow> tally \<Rightarrow> sink_queue \<Rightarrow> bool" where
  "in_order r t q =
     (t_admitted t = t_delivered t @ receiver_records r @ messages_of (sq_queue q))"

definition losses_ok :: "tally \<Rightarrow> sink_queue \<Rightarrow> bool" where
  "losses_ok t q =
     (length (concat (t_refused t)) \<le> usize_max \<longrightarrow>
      sum_gaps dropped_records (t_gaps t) + sum_gaps dropped_records (sq_reports q) =
        length (concat (t_refused t)))"

definition counted_ok :: "(string \<Rightarrow> nat) \<Rightarrow> tally \<Rightarrow> sink_queue \<Rightarrow> bool" where
  "counted_ok pending t q = (\<forall>p. sq_dropped q p = of_probe p (concat (t_refused t)) + pending p)"

lemma sum_gaps_append [simp]: "sum_gaps f (xs @ ys) = sum_gaps f xs + sum_gaps f ys"
  by (simp add: sum_gaps_def)

lemma sum_gaps_Nil [simp]: "sum_gaps f [] = 0"
  by (simp add: sum_gaps_def)

lemma losses_ok_note:
  assumes "losses_ok t q"
  shows "losses_ok (t\<lparr>t_refused := t_refused t @ [rs]\<rparr>) (snd (note_loss why rs q))"
proof (cases "length (concat (t_refused t)) + length rs \<le> usize_max")
  case True
  with assms have "sum_gaps dropped_records (t_gaps t) + sum_gaps dropped_records (sq_reports q) =
      length (concat (t_refused t))"
    by (simp add: losses_ok_def)
  with True merge_by_cause_dropped [of "sq_reports q" "gap_for_records why rs"]
  show ?thesis by (simp add: losses_ok_def gap_for_records_fields)
next
  case False
  then show ?thesis by (simp add: losses_ok_def)
qed

lemma sender_losses:
  "sender_step resident c c' \<Longrightarrow> c = (p, t, q) \<Longrightarrow> c' = (p', t', q') \<Longrightarrow>
   losses_ok t q \<Longrightarrow> losses_ok t' q'"
  by (induction rule: sender_step.induct) (auto simp: losses_ok_note, simp_all add: losses_ok_def)

lemma receiver_losses:
  "receiver_step c c' \<Longrightarrow> c = (r, t, q) \<Longrightarrow> c' = (r', t', q') \<Longrightarrow>
   losses_ok t q \<Longrightarrow> losses_ok t' q'"
  by (induction rule: receiver_step.induct) (auto simp: losses_ok_def)

lemma sender_counted:
  "sender_step resident c c' \<Longrightarrow> c = (p, t, q) \<Longrightarrow> c' = (p', t', q') \<Longrightarrow>
   counted_ok (\<lambda>k. sender_refused k p + x k) t q \<Longrightarrow>
   counted_ok (\<lambda>k. sender_refused k p' + x k) t' q'"
  by (induction rule: sender_step.induct) (auto simp: counted_ok_def)

lemma receiver_counted:
  "receiver_step c c' \<Longrightarrow> c = (r, t, q) \<Longrightarrow> c' = (r', t', q') \<Longrightarrow>
   counted_ok x t q \<Longrightarrow> counted_ok x t' q'"
  by (induction rule: receiver_step.induct) (auto simp: counted_ok_def)

lemma sender_order:
  "sender_step resident c c' \<Longrightarrow> c = (p, t, q) \<Longrightarrow> c' = (p', t', q') \<Longrightarrow>
   in_order r t q \<Longrightarrow> in_order r t' q'"
  by (induction rule: sender_step.induct) (auto simp: in_order_def)

lemma receiver_order:
  "receiver_step c c' \<Longrightarrow> c = (r, t, q) \<Longrightarrow> c' = (r', t', q') \<Longrightarrow>
   in_order r t q \<Longrightarrow> in_order r' t' q'"
  by (induction rule: receiver_step.induct) (auto simp: in_order_def)

definition accounts_ok :: "queue_system \<Rightarrow> bool" where
  "accounts_ok s =
     (in_order (qs_receiver s) (qs_tally s) (qs_queue s) \<and>
      losses_ok (qs_tally s) (qs_queue s) \<and>
      counted_ok (\<lambda>k. senders_sum (sender_refused k) (qs_senders s)) (qs_tally s) (qs_queue s))"

lemma accounts_ok_step:
  "system_step resident s s' \<Longrightarrow> accounts_ok s \<Longrightarrow> accounts_ok s'"
proof (induction rule: system_step.induct)
  case (by_sender s ps p ps' p' t q)
  note a = by_sender(3) [unfolded accounts_ok_def by_sender(1) senders_sum_split]
  from a sender_order [OF by_sender(2) refl refl] sender_losses [OF by_sender(2) refl refl]
    sender_counted [OF by_sender(2) refl refl]
  show ?case by (simp add: accounts_ok_def)
next
  case (by_receiver s r t q)
  from by_receiver(2) receiver_order [OF by_receiver(1) refl refl]
    receiver_losses [OF by_receiver(1) refl refl] receiver_counted [OF by_receiver(1) refl refl]
  show ?case by (simp add: accounts_ok_def)
next
  case (pressure s on)
  then show ?case
    by (simp add: accounts_ok_def in_order_def losses_ok_def counted_ok_def
        set_memory_pressure_def)
next
  case (drop_receiver s)
  then show ?case by (simp add: accounts_ok_def in_order_def losses_ok_def counted_ok_def)
qed

lemma reachable_accounts: "reachable resident k c scope s \<Longrightarrow> accounts_ok s"
proof (induction rule: reachable.induct)
  case init
  show ?case
    by (simp add: accounts_ok_def initial_system_def new_queue_def no_tally_def in_order_def
        losses_ok_def counted_ok_def of_probe_def)
next
  case (step s s')
  then show ?case by (blast intro: accounts_ok_step)
qed


section \<open>A send on its own\<close>

lemma rtranclp_step: "r a b \<Longrightarrow> r\<^sup>*\<^sup>* b c \<Longrightarrow> r\<^sup>*\<^sup>* a c"
  by (rule converse_rtranclp_into_rtranclp)

lemma solo_refuse:
  "(sender_step resident)\<^sup>*\<^sup>* (CountRefused why rs, t, q)
     (Idle, t\<lparr>t_refused := t_refused t @ [rs]\<rparr>, refuse why rs q)"
proof -
  let ?q1 = "count_refused rs q" and ?t = "t\<lparr>t_refused := t_refused t @ [rs]\<rparr>"
  let ?q2 = "snd (note_loss why rs ?q1)"
  let ?q3 = "?q2\<lparr>sq_messages := sq_messages ?q2 + 1\<rparr>"
  note S = sender_step.intros
  have "sender_step resident (CountRefused why rs, t, q) (NoteLoss why rs, t, ?q1)" by (rule S)
  moreover have "(sender_step resident)\<^sup>*\<^sup>* (NoteLoss why rs, t, ?q1) (Idle, ?t, refuse why rs q)"
  proof (cases "sq_marker_queued q")
    case True
    then have "sender_step resident (NoteLoss why rs, t, ?q1) (Idle, ?t, ?q2)"
      by (intro S) simp
    moreover have "refuse why rs q = ?q2" using True by (simp add: refuse_def note_loss_def)
    ultimately show ?thesis by simp
  next
    case False
    then have a: "sender_step resident (NoteLoss why rs, t, ?q1) (CountMarker, ?t, ?q2)"
      by (intro S) simp
    have b: "sender_step resident (CountMarker, ?t, ?q2) (SendMarker, ?t, ?q3)" by (rule S)
    have c: "(sender_step resident)\<^sup>*\<^sup>* (SendMarker, ?t, ?q3) (Idle, ?t, refuse why rs q)"
    proof (cases "sq_closed q")
      case True
      then have "sender_step resident (SendMarker, ?t, ?q3) (ReleaseMarker, ?t, ?q3)"
        by (intro S) simp
      moreover have "sender_step resident (ReleaseMarker, ?t, ?q3)
          (Idle, ?t, ?q3\<lparr>sq_messages := sq_messages ?q3 - 1\<rparr>)" by (rule S)
      moreover have "refuse why rs q = ?q3\<lparr>sq_messages := sq_messages ?q3 - 1\<rparr>"
        using True False by (simp add: refuse_def note_loss_def Let_def)
      ultimately show ?thesis by (simp add: rtranclp_step)
    next
      case open_queue: False
      then have "sender_step resident (SendMarker, ?t, ?q3)
          (Idle, ?t, ?q3\<lparr>sq_queue := sq_queue ?q3 @ [GapMarker]\<rparr>)"
        by (intro S) simp
      moreover have "refuse why rs q = ?q3\<lparr>sq_queue := sq_queue ?q3 @ [GapMarker]\<rparr>"
        using open_queue False by (simp add: refuse_def note_loss_def Let_def)
      ultimately show ?thesis by simp
    qed
    from a b c show ?thesis by (meson rtranclp_step)
  qed
  ultimately show ?thesis by (rule rtranclp_step)
qed


lemma solo_reserve:
  assumes "reserve n (admit_class rs) q = Inr q'"
  shows "(sender_step resident)\<^sup>*\<^sup>* (LoadPressure rs n, t, q) (SendMessage rs n, t, q')"
proof -
  let ?b = "sq_under_pressure q" and ?q = "q\<lparr>sq_bytes := sat_add (sq_bytes q) n\<rparr>"
  note S = sender_step.intros
  from assms have no: "\<not> refuses (sq_bytes q) n (admit_limit q ?b (admit_class rs))"
    and q': "q' = ?q\<lparr>sq_messages := sq_messages ?q + 1\<rparr>"
    by (simp_all add: reserve_def Let_def split: if_splits)
  have "sender_step resident (LoadPressure rs n, t, q) (LoadBytes rs n ?b, t, q)" by (rule S)
  moreover have "sender_step resident (LoadBytes rs n ?b, t, q) (Exchange rs n ?b (sq_bytes q), t, q)"
    by (rule S)
  moreover have "sender_step resident (Exchange rs n ?b (sq_bytes q), t, q) (CountMessage rs n, t, ?q)"
    by (rule claim [OF no refl])
  moreover have "sender_step resident (CountMessage rs n, t, ?q) (SendMessage rs n, t, q')"
    unfolding q' by (rule S)
  ultimately show ?thesis by (simp add: rtranclp_step)
qed

lemma solo_refused:
  assumes "reserve n (admit_class rs) q = Inl why"
  shows "(sender_step resident)\<^sup>*\<^sup>* (LoadPressure rs n, t, q) (CountRefused why rs, t, q)"
proof -
  let ?b = "sq_under_pressure q"
  note S = sender_step.intros
  from assms have yes: "refuses (sq_bytes q) n (admit_limit q ?b (admit_class rs))"
    and why: "why = refusal_cause ?b"
    by (simp_all add: reserve_def Let_def split: if_splits)
  have "sender_step resident (LoadPressure rs n, t, q) (LoadBytes rs n ?b, t, q)" by (rule S)
  moreover have "sender_step resident (LoadBytes rs n ?b, t, q) (Exchange rs n ?b (sq_bytes q), t, q)"
    by (rule S)
  moreover have "sender_step resident (Exchange rs n ?b (sq_bytes q), t, q) (CountRefused why rs, t, q)"
    unfolding why by (rule sender_step.refuse [OF yes])
  ultimately show ?thesis by (simp add: rtranclp_step)
qed

text \<open>
  run without interference, the atomic steps of a send are the function \<open>try_send\<close>: same
  state, same outcome.
\<close>

theorem solo_try_send:
  "(sender_step resident)\<^sup>*\<^sup>* (Idle, t, q)
     (Idle, note_sent (fst (try_send resident rs q)) (apply_scope q rs) t,
      snd (try_send resident rs q))"
proof (cases "sq_closed q")
  case True
  then show ?thesis by (simp add: try_send_def)
next
  case opened: False
  let ?q = "record_unbound_drops rs q" and ?rs = "apply_scope q rs"
  show ?thesis
  proof (cases "?rs = []")
    case True
    with opened have "sender_step resident (Idle, t, q) (Idle, t, ?q)" by (rule out_of_scope)
    with True opened show ?thesis by (simp add: try_send_def Let_def)
  next
    case ne: False
    let ?n = "resident ?rs"
    have start: "sender_step resident (Idle, t, q) (LoadPressure ?rs ?n, t, ?q)"
      by (rule sender_step.start [OF opened refl ne])
    show ?thesis
    proof (cases "reserve ?n (admit_class ?rs) ?q")
      case (Inl why)
      have "(sender_step resident)\<^sup>*\<^sup>* (LoadPressure ?rs ?n, t, ?q)
          (Idle, t\<lparr>t_refused := t_refused t @ [?rs]\<rparr>, Sink_Queue.refuse why ?rs ?q)"
        using solo_refused [OF Inl] solo_refuse by (rule rtranclp_trans)
      with start have "(sender_step resident)\<^sup>*\<^sup>* (Idle, t, q)
          (Idle, t\<lparr>t_refused := t_refused t @ [?rs]\<rparr>, Sink_Queue.refuse why ?rs ?q)"
        by (rule rtranclp_step)
      with Inl opened ne show ?thesis by (simp add: try_send_def Let_def)
    next
      case (Inr q')
      then have open': "\<not> sq_closed q'"
        using opened by (auto simp: reserve_def Let_def split: if_splits)
      then have "sender_step resident (SendMessage ?rs ?n, t, q')
          (Idle, t\<lparr>t_admitted := t_admitted t @ [?rs]\<rparr>,
           q'\<lparr>sq_queue := sq_queue q' @ [QRecords ?rs ?n]\<rparr>)"
        by (rule send_message)
      with solo_reserve [OF Inr] have "(sender_step resident)\<^sup>*\<^sup>* (LoadPressure ?rs ?n, t, ?q)
          (Idle, t\<lparr>t_admitted := t_admitted t @ [?rs]\<rparr>,
           q'\<lparr>sq_queue := sq_queue q' @ [QRecords ?rs ?n]\<rparr>)"
        by (rule rtranclp.rtrancl_into_rtrancl)
      with start have "(sender_step resident)\<^sup>*\<^sup>* (Idle, t, q)
          (Idle, t\<lparr>t_admitted := t_admitted t @ [?rs]\<rparr>,
           q'\<lparr>sq_queue := sq_queue q' @ [QRecords ?rs ?n]\<rparr>)"
        by (rule rtranclp_step)
      with Inr opened open' ne show ?thesis by (simp add: try_send_def Let_def)
    qed
  qed
qed

section \<open>Every interleaving\<close>

text \<open>A subtraction that would wrap below zero.\<close>

definition underflows :: "queue_system \<Rightarrow> bool" where
  "underflows s =
     ((\<exists>p \<in> set (qs_senders s).
         (case p of ReleaseBytes rs n \<Rightarrow> sq_bytes (qs_queue s) < n
          | ReleaseMessage \<Rightarrow> sq_messages (qs_queue s) = 0
          | ReleaseMarker \<Rightarrow> sq_messages (qs_queue s) = 0 | _ \<Rightarrow> False)) \<or>
      (case qs_receiver s of GotRecords rs n \<Rightarrow> sq_bytes (qs_queue s) < n
       | ReleasedBytes rs \<Rightarrow> sq_messages (qs_queue s) = 0
       | GotMarker \<Rightarrow> sq_messages (qs_queue s) = 0 | _ \<Rightarrow> False))"

lemma sender_no_underflow:
  assumes "system_ok s" and "p \<in> set (qs_senders s)"
  shows "flight_bytes (sender_flight p) \<le> sq_bytes (qs_queue s) \<and>
         sender_messages p \<le> sq_messages (qs_queue s)"
proof -
  from assms(2) obtain ps ps' where "qs_senders s = ps @ p # ps'" by (meson split_list)
  with assms(1) show ?thesis by (simp add: system_ok_def system_sums)
qed

lemma no_underflow:
  assumes "system_ok s"
  shows "\<not> underflows s"
proof -
  have "\<not> (case p of ReleaseBytes rs n \<Rightarrow> sq_bytes (qs_queue s) < n
          | ReleaseMessage \<Rightarrow> sq_messages (qs_queue s) = 0
          | ReleaseMarker \<Rightarrow> sq_messages (qs_queue s) = 0 | _ \<Rightarrow> False)"
    if "p \<in> set (qs_senders s)" for p
    using sender_no_underflow [OF assms that] by (cases p) auto
  moreover have "flight_bytes (receiver_flight (qs_receiver s)) \<le> sq_bytes (qs_queue s)"
    "receiver_messages (qs_receiver s) \<le> sq_messages (qs_queue s)"
    using assms by (simp_all add: system_ok_def system_sums)
  then have "\<not> (case qs_receiver s of GotRecords rs n \<Rightarrow> sq_bytes (qs_queue s) < n
       | ReleasedBytes rs \<Rightarrow> sq_messages (qs_queue s) = 0
       | GotMarker \<Rightarrow> sq_messages (qs_queue s) = 0 | _ \<Rightarrow> False)"
    by (cases "qs_receiver s") auto
  ultimately show ?thesis unfolding underflows_def by blast
qed


subsection \<open>A race\<close>

text \<open>
  Two senders find the queue empty under a budget of zero; one claims it, the other's exchange
  fails, finds the queue taken and reports its record as lost.
\<close>

lemma reachable_by_sender:
  assumes "reachable R k c sc \<lparr>qs_senders = ps @ p # ps', qs_receiver = r, qs_tally = t, qs_queue = q\<rparr>"
    and "sender_step R (p, t, q) (p', t', q')"
    and "flight_bytes (in_flight \<lparr>qs_senders = ps @ p' # ps', qs_receiver = r, qs_tally = t',
           qs_queue = q'\<rparr>) \<le> usize_max"
  shows "reachable R k c sc \<lparr>qs_senders = ps @ p' # ps', qs_receiver = r, qs_tally = t', qs_queue = q'\<rparr>"
proof -
  let ?s = "\<lparr>qs_senders = ps @ p # ps', qs_receiver = r, qs_tally = t, qs_queue = q\<rparr>"
  have "system_step R ?s (?s\<lparr>qs_senders := ps @ p' # ps', qs_tally := t', qs_queue := q'\<rparr>)"
    using assms(2) by (intro by_sender [of _ ps p ps']) simp_all
  then show ?thesis using reachable.step [OF assms(1)] assms(3) by simp
qed

definition race_start :: sink_queue where
  "race_start =
     record_unbound_drops [sample_record]
       (record_unbound_drops [sample_record] (new_queue (new_queue_config 0) None))"

definition race_queue :: sink_queue where
  "race_queue = snd (note_loss cause_overflow [sample_record]
     (count_refused [sample_record] (race_start\<lparr>sq_bytes := 100, sq_messages := 1,
        sq_queue := [QRecords [sample_record] 100]\<rparr>)))"

definition race_tally :: tally where
  "race_tally = no_tally\<lparr>t_admitted := [[sample_record]], t_refused := [[sample_record]]\<rparr>"

definition race_system :: queue_system where
  "race_system = \<lparr>qs_senders = [Idle, CountMarker], qs_receiver = Waiting,
     qs_tally = race_tally, qs_queue = race_queue\<rparr>"

lemma race_start_fields [simp]:
  "sq_bytes race_start = 0" "sq_messages race_start = 0" "sq_queue race_start = []"
  "\<not> sq_closed race_start" "\<not> sq_under_pressure race_start" "\<not> sq_marker_queued race_start"
  "sq_max_bytes race_start = 0" "sq_reports race_start = []"
  by (simp_all add: race_start_def) (simp_all add: new_queue_def new_queue_config_def)

lemma sample_admit_class: "admit_class [sample_record] = AdmitAttribution"
  by (simp add: admit_class_def sample_record_class)

abbreviation race_state :: "sender \<Rightarrow> sender \<Rightarrow> tally \<Rightarrow> sink_queue \<Rightarrow> queue_system" where
  "race_state p p' t q \<equiv> \<lparr>qs_senders = [p, p'], qs_receiver = Waiting, qs_tally = t, qs_queue = q\<rparr>"

abbreviation race_reachable :: "queue_system \<Rightarrow> bool" where
  "race_reachable \<equiv> reachable (\<lambda>_. 100) 2 (new_queue_config 0) None"

lemma race_first:
  assumes "race_reachable (race_state p p2 t q)" and "sender_step (\<lambda>_. 100) (p, t, q) (p', t', q')"
    and "flight_bytes (queue_flight q' + sender_flight p' + sender_flight p2) \<le> usize_max"
  shows "race_reachable (race_state p' p2 t' q')"
  using reachable_by_sender [of "\<lambda>_. 100" 2 "new_queue_config 0" None "[]" p "[p2]"] assms
  by (simp add: in_flight_def add_ac)

lemma race_second:
  assumes "race_reachable (race_state p2 p t q)" and "sender_step (\<lambda>_. 100) (p, t, q) (p', t', q')"
    and "flight_bytes (queue_flight q' + sender_flight p2 + sender_flight p') \<le> usize_max"
  shows "race_reachable (race_state p2 p' t' q')"
  using reachable_by_sender [of "\<lambda>_. 100" 2 "new_queue_config 0" None "[p2]" p "[]"] assms
  by (simp add: in_flight_def add_ac)

lemma race_both_load:
  "race_reachable (race_state (Exchange [sample_record] 100 False 0)
     (Exchange [sample_record] 100 False 0) no_tally race_start)"
proof -
  let ?q = "new_queue (new_queue_config 0) None"
  let ?q1 = "record_unbound_drops [sample_record] ?q"
  note S = sender_step.intros
  have q [simp]: "\<not> sq_closed ?q" "apply_scope ?q = (\<lambda>rs. rs)" "sq_queue ?q = []"
    by (simp_all add: new_queue_def apply_scope_def fun_eq_iff)
  have "race_reachable (race_state Idle Idle no_tally ?q)"
    using reachable.init [of "\<lambda>_. 100" 2 "new_queue_config 0" None]
    by (simp add: initial_system_def numeral_2_eq_2)
  from race_first [OF this S(3) [where rs = "[sample_record]" and kept = "[sample_record]"]]
  have "race_reachable (race_state (LoadPressure [sample_record] 100) Idle no_tally ?q1)"
    by (simp add: usize_max_def)
  from race_second [OF this S(3) [where rs = "[sample_record]" and kept = "[sample_record]"]]
  have "race_reachable (race_state (LoadPressure [sample_record] 100)
      (LoadPressure [sample_record] 100) no_tally race_start)"
    by (simp add: usize_max_def race_start_def)
  from race_first [OF this S(4)]
  have "race_reachable (race_state (LoadBytes [sample_record] 100 False)
      (LoadPressure [sample_record] 100) no_tally race_start)" by simp
  from race_second [OF this S(4)]
  have "race_reachable (race_state (LoadBytes [sample_record] 100 False)
      (LoadBytes [sample_record] 100 False) no_tally race_start)" by simp
  from race_first [OF this S(5)]
  have "race_reachable (race_state (Exchange [sample_record] 100 False 0)
      (LoadBytes [sample_record] 100 False) no_tally race_start)" by simp
  from race_second [OF this S(5)] show ?thesis by simp
qed

lemma race_reaches: "race_reachable race_system"
proof -
  let ?q1 = "race_start\<lparr>sq_bytes := 100\<rparr>"
  let ?q2 = "?q1\<lparr>sq_messages := 1\<rparr>"
  let ?q3 = "?q2\<lparr>sq_queue := [QRecords [sample_record] 100]\<rparr>"
  let ?E = "Exchange [sample_record] 100 False" and ?t = "no_tally\<lparr>t_admitted := [[sample_record]]\<rparr>"
  note S = sender_step.intros
  have u: "100 \<le> usize_max" by (simp add: usize_max_def)
  have no: "\<not> refuses 0 n l" for n l by (simp add: refuses_def)
  have l: "admit_limit q False AdmitAttribution = sq_max_bytes q" for q
    by (simp add: admit_limit_def)
  have yes: "refuses 100 100 (admit_limit ?q1 False (admit_class [sample_record]))"
    by (simp add: refuses_def sample_admit_class l sat_add_def usize_max_def)
  have "race_reachable (race_state (CountMessage [sample_record] 100) (?E 0) no_tally ?q1)"
    using race_first [OF race_both_load claim [OF no]] u by (simp add: sat_add_def)
  from race_second [OF this retry [OF no]]
  have "race_reachable (race_state (CountMessage [sample_record] 100) (?E 100) no_tally ?q1)"
    using u by simp
  from race_second [OF this sender_step.refuse [OF yes]]
  have "race_reachable (race_state (CountMessage [sample_record] 100)
      (CountRefused cause_overflow [sample_record]) no_tally ?q1)"
    using u by (simp add: refusal_cause_def)
  from race_first [OF this S(9)]
  have "race_reachable (race_state (SendMessage [sample_record] 100)
      (CountRefused cause_overflow [sample_record]) no_tally ?q2)"
    using u by simp
  from race_first [OF this S(10)]
  have "race_reachable (race_state Idle (CountRefused cause_overflow [sample_record]) ?t ?q3)"
    using u by (simp add: no_tally_def)
  from race_second [OF this S(14)]
  have "race_reachable (race_state Idle (NoteLoss cause_overflow [sample_record]) ?t
      (count_refused [sample_record] ?q3))"
    using u by simp
  from race_second [OF this S(15)] show ?thesis
    using u by (simp add: race_system_def race_tally_def race_queue_def no_tally_def)
qed


subsection \<open>Properties\<close>

text \<open>
  C27: in every interleaving of senders and receiver, failed exchanges and a dropped receiver
  included, the byte counter is exactly the bytes of the messages in flight and the message
  counter exactly the messages and markers in flight, and no subtraction wraps below zero.
\<close>

theorem queue_counters_exact:
  assumes "reachable resident k c scope s"
  shows "sq_bytes (qs_queue s) = flight_bytes (in_flight s) \<and>
         sq_messages (qs_queue s) = live_messages s \<and> \<not> underflows s"
  using reachable_ok [OF assms] no_underflow by (simp add: system_ok_def)

theorem queue_counters_exact_witness:
  "reachable (\<lambda>_. 100) 2 (new_queue_config 0) None race_system \<and>
   in_flight race_system = {#([sample_record], 100)#} \<and> sq_bytes (qs_queue race_system) = 100"
proof -
  have f: "in_flight race_system = {#([sample_record], 100)#}"
    by (simp add: in_flight_def race_system_def race_queue_def)
  with queue_counters_exact [OF race_reaches] race_reaches show ?thesis by simp
qed

text \<open>
  C9: in every interleaving the messages in flight that are not the agent's own hold at most
  the budget, or are worth a single message's bytes; so racing senders never overrun it.
\<close>

theorem queue_byte_bound:
  assumes "reachable resident k c scope s" and "qc_pressure_max_bytes c \<le> qc_max_bytes c"
  shows "evidence_bytes (in_flight s) \<le> qc_max_bytes c \<or>
         (\<exists>x \<in># in_flight s. not_agent x \<and> evidence_bytes (in_flight s) = snd x)"
  using reachable_bounded [OF assms] by (simp add: bounded_flight_def)

theorem queue_byte_bound_witness:
  "reachable (\<lambda>_. 100) 2 (new_queue_config 0) None race_system \<and>
   qc_pressure_max_bytes (new_queue_config 0) \<le> qc_max_bytes (new_queue_config 0) \<and>
   (evidence_bytes (in_flight race_system) \<le> 0 \<or>
    (\<exists>x \<in># in_flight race_system. evidence_bytes (in_flight race_system) = snd x))"
proof -
  have c: "qc_pressure_max_bytes (new_queue_config 0) \<le> qc_max_bytes (new_queue_config 0)"
    and z: "qc_max_bytes (new_queue_config 0) = 0"
    by (simp_all add: new_queue_config_def)
  from queue_byte_bound [OF race_reaches c] race_reaches c z show ?thesis by auto
qed

text \<open>
  C18: in every interleaving there is at most one marker between the refusal that sends it and
  the receiver that takes the reports, while the receiver lives there is one exactly when
  reports are pending (so none is stranded), and a receiver that took a marker finds reports.
\<close>

theorem one_marker_none_stranded:
  assumes "reachable resident k c scope s"
  shows "live_markers s \<le> 1 \<and>
         (\<not> sq_closed (qs_queue s) \<longrightarrow>
            live_markers s = (if sq_reports (qs_queue s) = [] then 0 else 1)) \<and>
         (qs_receiver s = TakeLost \<longrightarrow> sq_reports (qs_queue s) \<noteq> [])"
proof -
  have m: "marker_inv (live_markers s) (qs_queue s)"
    using reachable_ok [OF assms] by (simp add: system_ok_def)
  moreover have "qs_receiver s = TakeLost \<Longrightarrow> live_markers s \<noteq> 0"
    by (simp add: live_markers_def)
  ultimately show ?thesis by (auto simp: marker_inv_def split: if_splits)
qed

theorem one_marker_none_stranded_witness:
  "reachable (\<lambda>_. 100) 2 (new_queue_config 0) None race_system \<and>
   sq_reports (qs_queue race_system) \<noteq> [] \<and> live_markers race_system = 1"
proof -
  have "sq_reports (qs_queue race_system) \<noteq> []" "\<not> sq_closed (qs_queue race_system)"
    by (simp_all add: race_system_def race_queue_def)
  with one_marker_none_stranded [OF race_reaches] race_reaches show ?thesis by simp
qed

text \<open>
  C22: in every interleaving the messages admitted leave in the order they were sent (delivered,
  then being received, then queued); the records refused are those of the delivered and pending
  loss reports; and when no sender is between counting and reporting, the per-probe counters
  are exactly the refused records.
\<close>

theorem queue_accounts_interleaved:
  assumes "reachable resident k c scope s"
    and "length (concat (t_refused (qs_tally s))) \<le> usize_max"
  shows "t_admitted (qs_tally s) =
           t_delivered (qs_tally s) @ receiver_records (qs_receiver s) @
           messages_of (sq_queue (qs_queue s)) \<and>
         length (concat (t_refused (qs_tally s))) =
           sum_gaps dropped_records (t_gaps (qs_tally s)) +
           sum_gaps dropped_records (sq_reports (qs_queue s)) \<and>
         sq_dropped (qs_queue s) p =
           of_probe p (concat (t_refused (qs_tally s))) +
           sum_list (map (sender_refused p) (qs_senders s))"
  using reachable_accounts [OF assms(1)] assms(2)
  by (simp add: accounts_ok_def in_order_def losses_ok_def counted_ok_def senders_sum_def)

theorem queue_accounts_interleaved_witness:
  "reachable (\<lambda>_. 100) 2 (new_queue_config 0) None race_system \<and>
   sum_gaps dropped_records (sq_reports (qs_queue race_system)) = 1 \<and>
   messages_of (sq_queue (qs_queue race_system)) = [[sample_record]]"
proof -
  have t: "t_refused (qs_tally race_system) = [[sample_record]]"
    "t_delivered (qs_tally race_system) = []" "t_gaps (qs_tally race_system) = []"
    "t_admitted (qs_tally race_system) = [[sample_record]]" "qs_receiver race_system = Waiting"
    by (simp_all add: race_system_def race_tally_def no_tally_def)
  then have "length (concat (t_refused (qs_tally race_system))) \<le> usize_max"
    by (simp add: usize_max_def)
  from queue_accounts_interleaved [OF race_reaches this] t race_reaches show ?thesis by simp
qed

end
