(* ===== verification/Container_Ref.thy ===== *)
theory Container_Ref
  imports Evidence
begin

text \<open>
  Container identities from cgroup paths and Kubernetes status values
  (\<open>jalki-enrich/src/lib.rs\<close>).  The file system is an argument: \<open>read\<close> is
  \<open>fs::read_to_string\<close>, a \<open>dir_node\<close> is what a scan of one directory returns.  The lemmas
  show that every identity is 64 lower-case hexadecimal digits, that the cgroup path and the
  Kubernetes value of one container give the same reference, and that the scan by inode finds
  a directory exactly when there is one.
\<close>

section \<open>Container ids\<close>

definition container_id_len :: nat where
  "container_id_len = 64"

datatype container_runtime = Containerd | Crio | Docker

fun container_runtime_str :: "container_runtime \<Rightarrow> string" where
  "container_runtime_str Containerd = ''containerd''"
| "container_runtime_str Crio = ''cri-o''"
| "container_runtime_str Docker = ''docker''"

record container_ref =
  cr_runtime :: container_runtime
  cr_id :: string

datatype parse_container_error = NoContainerId | InvalidContainerId string

definition is_container_id :: "string \<Rightarrow> bool" where
  "is_container_id v = (length v = container_id_len \<and> list_all is_ascii_hexdigit v)"

definition validate_container_id ::
  "string \<Rightarrow> container_runtime \<Rightarrow> parse_container_error + container_ref" where
  "validate_container_id v runtime =
     (if \<not> is_container_id v then Inl (InvalidContainerId v)
      else Inr \<lparr>cr_runtime = runtime, cr_id = to_ascii_lowercase v\<rparr>)"

section \<open>Cgroup paths\<close>

definition scope_prefixes :: "(string \<times> container_runtime) list" where
  "scope_prefixes = [(''cri-containerd-'', Containerd), (''crio-'', Crio), (''docker-'', Docker)]"

text \<open>The inner \<open>for\<close> loop: the first prefix the segment has.\<close>

fun scope_ref ::
  "string \<Rightarrow> (string \<times> container_runtime) list \<Rightarrow> (parse_container_error + container_ref) option" where
  "scope_ref segment [] = None"
| "scope_ref segment ((prefix, runtime) # ps) =
     (case strip_prefix prefix segment of
        Some rest \<Rightarrow>
          Some (validate_container_id
                 (case strip_suffix ''.scope'' rest of Some v \<Rightarrow> v | None \<Rightarrow> rest) runtime)
      | None \<Rightarrow> scope_ref segment ps)"

text \<open>One segment's answer; \<open>None\<close> goes on to the next.\<close>

definition segment_ref ::
  "string \<Rightarrow> string \<Rightarrow> (parse_container_error + container_ref) option" where
  "segment_ref path raw =
     (let segment = trim raw
      in if segment = [] then None
         else (case scope_ref segment scope_prefixes of
                 Some r \<Rightarrow> Some r
               | None \<Rightarrow>
                   if is_container_id segment
                   then Some (Inr \<lparr>cr_runtime = (if contains path ''/docker/'' then Docker
                                                 else Containerd),
                                   cr_id = to_ascii_lowercase segment\<rparr>)
                   else None))"

fun first_segment_ref ::
  "string \<Rightarrow> string list \<Rightarrow> parse_container_error + container_ref" where
  "first_segment_ref path [] = Inl NoContainerId"
| "first_segment_ref path (s # ss) =
     (case segment_ref path s of Some r \<Rightarrow> r | None \<Rightarrow> first_segment_ref path ss)"

definition parse_container_ref :: "string \<Rightarrow> parse_container_error + container_ref" where
  "parse_container_ref path = first_segment_ref path (rev (split_on CHR ''/'' path))"

section \<open>Kubernetes values\<close>

definition parse_k8s_container_id :: "string \<Rightarrow> parse_container_error + container_ref" where
  "parse_k8s_container_id v =
     (case split_once ''://'' v of
        Some (scheme, rest) \<Rightarrow>
          validate_container_id rest
            (if scheme = ''containerd'' then Containerd
             else if scheme = ''cri-o'' \<or> scheme = ''crio'' then Crio
             else if scheme = ''docker'' then Docker else Containerd)
      | None \<Rightarrow> validate_container_id v Containerd)"

section \<open>\<open>/proc/<pid>/cgroup\<close>\<close>

datatype resolve_proc_error =
    InvalidPid
  | ProcIo string string
  | NoCgroupPath string
  | ProcUnbound string parse_container_error

text \<open>\<open>dir.join(part)\<close> for a relative part.\<close>

definition path_join :: "string \<Rightarrow> string \<Rightarrow> string" where
  "path_join dir part =
     (if dir = [] \<or> last dir = CHR ''/'' then dir @ part else dir @ ''/'' @ part)"

text \<open>
  \<open>str::lines\<close>: the pieces between line feeds, a last empty one dropped, each without the
  carriage return that ended it.
\<close>

definition strip_cr :: "string \<Rightarrow> string" where
  "strip_cr s = (if s \<noteq> [] \<and> last s = CHR 0x0D then butlast s else s)"

definition text_lines :: "string \<Rightarrow> string list" where
  "text_lines s =
     (let ps = split_on CHR 0x0A s; l = last ps
      in map strip_cr (butlast ps) @ (if l = [] then [] else [l]))"

text \<open>\<open>line.rsplit_once(':')\<close>, its second part.\<close>

definition after_last :: "char \<Rightarrow> string \<Rightarrow> string option" where
  "after_last d s = (if d \<in> set s then Some (last (split_on d s)) else None)"

text \<open>The loop over the lines: \<open>saw_path\<close> and \<open>first_error\<close> are its state.\<close>

fun scan_proc_lines ::
  "bool \<Rightarrow> parse_container_error option \<Rightarrow> string list \<Rightarrow>
   (bool \<times> parse_container_error option) + container_ref" where
  "scan_proc_lines saw err [] = Inl (saw, err)"
| "scan_proc_lines saw err (line # ls) =
     (case after_last CHR '':'' line of
        None \<Rightarrow> scan_proc_lines saw err ls
      | Some p \<Rightarrow>
          if p = [] then scan_proc_lines saw err ls
          else (case parse_container_ref p of
                  Inr c \<Rightarrow> Inr c
                | Inl e \<Rightarrow> scan_proc_lines True (case err of None \<Rightarrow> Some e | Some e' \<Rightarrow> Some e') ls))"

definition resolve_container_ref_from_procfs ::
  "(string \<Rightarrow> string + string) \<Rightarrow> string \<Rightarrow> nat \<Rightarrow> resolve_proc_error + container_ref" where
  "resolve_container_ref_from_procfs read proc_root pid =
     (if pid = 0 then Inl InvalidPid
      else (let path = path_join (path_join proc_root (decimal pid)) ''cgroup''
            in case read path of
                 Inl e \<Rightarrow> Inl (ProcIo path e)
               | Inr contents \<Rightarrow>
                   (case scan_proc_lines False None (text_lines contents) of
                      Inr c \<Rightarrow> Inr c
                    | Inl (saw, Some e) \<Rightarrow> Inl (ProcUnbound path e)
                    | Inl (saw, None) \<Rightarrow>
                        if saw then Inl (ProcUnbound path NoContainerId)
                        else Inl (NoCgroupPath path))))"

section \<open>The scan of cgroupfs\<close>

text \<open>
  What the file system answers for one directory: \<open>metadata\<close> fails, \<open>read_dir\<close> fails, or an
  inode and the entries in the order they are listed.  An entry fails, its type cannot be
  read, it is not a directory, or it is one.
\<close>

datatype dir_node = NoMetadata string | NoListing u64 string | Dir u64 "dir_entry list"
  and dir_entry = BadEntry string | BadType string string | NotDir string | SubDir string dir_node

datatype resolve_cgroup_error =
    CgroupIo string string
  | NotFound u64
  | CgroupUnbound u64 string parse_container_error

fun find_dir_by_inode :: "string \<Rightarrow> u64 \<Rightarrow> dir_node \<Rightarrow> resolve_cgroup_error + string"
  and find_in_entries :: "string \<Rightarrow> u64 \<Rightarrow> dir_entry list \<Rightarrow> resolve_cgroup_error + string" where
  "find_dir_by_inode dir ino (NoMetadata e) = Inl (CgroupIo dir e)"
| "find_dir_by_inode dir ino (NoListing i e) = (if i = ino then Inr dir else Inl (CgroupIo dir e))"
| "find_dir_by_inode dir ino (Dir i es) = (if i = ino then Inr dir else find_in_entries dir ino es)"
| "find_in_entries dir ino [] = Inl (NotFound ino)"
| "find_in_entries dir ino (BadEntry e # es) = Inl (CgroupIo dir e)"
| "find_in_entries dir ino (BadType name e # es) = Inl (CgroupIo (path_join dir name) e)"
| "find_in_entries dir ino (NotDir name # es) = find_in_entries dir ino es"
| "find_in_entries dir ino (SubDir name d # es) =
     (case find_dir_by_inode (path_join dir name) ino d of
        Inr found \<Rightarrow> Inr found
      | Inl (NotFound _) \<Rightarrow> find_in_entries dir ino es
      | Inl err \<Rightarrow> Inl err)"

text \<open>\<open>lossy\<close> is \<open>to_string_lossy\<close>, the identity on UTF-8.\<close>

definition resolve_container_ref_from_cgroupfs ::
  "(string \<Rightarrow> string) \<Rightarrow> string \<Rightarrow> dir_node \<Rightarrow> u64 \<Rightarrow> resolve_cgroup_error + container_ref" where
  "resolve_container_ref_from_cgroupfs lossy dir fs cgroup_id =
     (case find_dir_by_inode dir cgroup_id fs of
        Inl e \<Rightarrow> Inl e
      | Inr matched \<Rightarrow>
          (case parse_container_ref (lossy matched) of
             Inr c \<Rightarrow> Inr c
           | Inl source \<Rightarrow> Inl (CgroupUnbound cgroup_id matched source)))"

section \<open>Identities are canonical\<close>

definition canonical_ref :: "container_ref \<Rightarrow> bool" where
  "canonical_ref c = (is_container_id (cr_id c) \<and> to_ascii_lowercase (cr_id c) = cr_id c)"

lemma hexdigit_lower [simp]: "is_ascii_hexdigit (to_ascii_lower c) = is_ascii_hexdigit c"
proof -
  have "of_char c < (256 :: nat)" by simp
  then show ?thesis by (auto simp: is_ascii_hexdigit_def to_ascii_lower_def Let_def)
qed

lemma is_container_id_lower [simp]: "is_container_id (to_ascii_lowercase v) = is_container_id v"
  by (simp add: is_container_id_def list_all_iff) (simp add: to_ascii_lowercase_def)

lemma validate_Inr:
  "validate_container_id v runtime = Inr c \<longleftrightarrow>
   is_container_id v \<and> c = \<lparr>cr_runtime = runtime, cr_id = to_ascii_lowercase v\<rparr>"
  by (auto simp: validate_container_id_def)

lemma validate_canonical: "validate_container_id v runtime = Inr c \<Longrightarrow> canonical_ref c"
  by (auto simp: validate_Inr canonical_ref_def)

lemma scope_ref_canonical: "scope_ref segment ps = Some (Inr c) \<Longrightarrow> canonical_ref c"
  by (induction segment ps rule: scope_ref.induct)
     (auto split: option.splits dest: validate_canonical)

lemma segment_ref_canonical: "segment_ref path raw = Some (Inr c) \<Longrightarrow> canonical_ref c"
  by (auto simp: segment_ref_def Let_def canonical_ref_def split: option.splits if_splits
      dest: scope_ref_canonical [unfolded canonical_ref_def])

lemma first_segment_canonical: "first_segment_ref path ss = Inr c \<Longrightarrow> canonical_ref c"
  by (induction path ss rule: first_segment_ref.induct)
     (auto split: option.splits dest: segment_ref_canonical)

lemma parse_container_ref_canonical: "parse_container_ref path = Inr c \<Longrightarrow> canonical_ref c"
  unfolding parse_container_ref_def by (rule first_segment_canonical)

lemma scan_proc_canonical: "scan_proc_lines saw err ls = Inr c \<Longrightarrow> canonical_ref c"
  by (induction saw err ls rule: scan_proc_lines.induct)
     (auto split: option.splits if_splits sum.splits dest: parse_container_ref_canonical)

lemma procfs_canonical:
  "resolve_container_ref_from_procfs read proc_root pid = Inr c \<Longrightarrow> canonical_ref c"
  by (auto simp: resolve_container_ref_from_procfs_def Let_def split: if_splits sum.splits
      option.splits dest: scan_proc_canonical)

lemma cgroupfs_canonical:
  "resolve_container_ref_from_cgroupfs lossy dir fs cgroup_id = Inr c \<Longrightarrow> canonical_ref c"
  by (auto simp: resolve_container_ref_from_cgroupfs_def split: sum.splits
      dest: parse_container_ref_canonical)

lemma k8s_canonical: "parse_k8s_container_id v = Inr c \<Longrightarrow> canonical_ref c"
  by (auto simp: parse_k8s_container_id_def split: option.splits dest: validate_canonical)

section \<open>Both names of a container agree\<close>

lemma split_on_snoc:
  "d \<notin> set t \<Longrightarrow> split_on d (s @ d # t) = split_on d s @ [t]"
proof (induction s)
  case Nil
  have "d \<notin> set t \<Longrightarrow> split_on d t = [t]" by (induction t) auto
  with Nil show ?case by simp
next
  case (Cons c s)
  then show ?case by (cases "split_on d s") auto
qed

lemma contains_append: "contains (p @ s @ r) s"
proof (induction p)
  case Nil
  have "starts_with x s \<Longrightarrow> contains x s" for x by (cases x) (auto simp: starts_with_def)
  then show ?case by simp
next
  case (Cons c p)
  then show ?case by simp
qed

lemma strip_prefix_append [simp]: "strip_prefix p (p @ r) = Some r"
  by (simp add: strip_prefix_def)

lemma strip_suffix_append [simp]: "strip_suffix s (r @ s) = Some r"
  by (simp add: strip_suffix_def ends_with_def)

lemma container_id_chars:
  assumes "is_container_id v" and "c \<in> set v"
  shows "visible c \<and> c \<noteq> CHR ''/'' \<and> c \<noteq> CHR '':''"
proof -
  have h: "is_ascii_hexdigit c" using assms by (simp add: is_container_id_def list_all_iff)
  then have "visible c" by (intro visible_ascii) (auto simp: is_ascii_hexdigit_def Let_def)
  moreover from h have "c \<noteq> CHR ''/''" "c \<noteq> CHR '':''"
    by (auto simp: is_ascii_hexdigit_def Let_def)
  ultimately show ?thesis by simp
qed

lemma container_id_not_Nil: "is_container_id v \<Longrightarrow> v \<noteq> []"
  by (auto simp: is_container_id_def container_id_len_def)

lemma parse_last_segment:
  assumes "CHR ''/'' \<notin> set s"
  shows "parse_container_ref (dir @ ''/'' @ s) =
    (case segment_ref (dir @ ''/'' @ s) s of Some r \<Rightarrow> r
     | None \<Rightarrow> first_segment_ref (dir @ ''/'' @ s) (rev (split_on CHR ''/'' dir)))"
proof -
  have "split_on CHR ''/'' (dir @ ''/'' @ s) = split_on CHR ''/'' dir @ [s]"
    using split_on_snoc [OF assms, of dir] by simp
  then show ?thesis
    unfolding parse_container_ref_def by (simp only: rev_append rev.simps append.simps
        first_segment_ref.simps)
qed

text \<open>The three pairs of a Kubernetes scheme and a systemd scope prefix.\<close>

definition scope_schemes :: "(string \<times> string \<times> container_runtime) list" where
  "scope_schemes =
     [(''containerd'', ''cri-containerd-'', Containerd), (''cri-o'', ''crio-'', Crio),
      (''docker'', ''docker-'', Docker)]"

lemma visible_samples: "visible CHR ''c''" "visible CHR ''d''" "visible CHR ''e''"
  by (simp_all add: visible_ascii)

lemma scope_segment:
  assumes "(scheme, prefix, runtime) \<in> set scope_schemes" and "is_container_id v"
  shows "segment_ref path (prefix @ v @ ''.scope'') =
         Some (Inr \<lparr>cr_runtime = runtime, cr_id = to_ascii_lowercase v\<rparr>)"
proof -
  have "trim (prefix @ v @ ''.scope'') = prefix @ v @ ''.scope''"
    using assms(1) trim_id [of "hd prefix" "tl prefix @ v @ ''.scope''"] visible_samples
    by (auto simp: scope_schemes_def)
  moreover have "scope_ref (prefix @ v @ ''.scope'') scope_prefixes =
      Some (validate_container_id v runtime)"
    using assms(1) strip_suffix_append [of "''.scope''" v]
      strip_prefix_append [of prefix "v @ ''.scope''"]
    by (auto simp: scope_schemes_def scope_prefixes_def strip_prefix_def starts_with_def)
  ultimately show ?thesis
    using assms by (auto simp: segment_ref_def Let_def validate_container_id_def scope_schemes_def)
qed

lemma bare_segment:
  assumes "is_container_id v"
  shows "segment_ref path v =
         Some (Inr \<lparr>cr_runtime = (if contains path ''/docker/'' then Docker else Containerd),
                    cr_id = to_ascii_lowercase v\<rparr>)"
proof -
  from container_id_not_Nil [OF assms] obtain c s where v: "v = c # s" by (cases v) auto
  have "visible c" "visible (last (c # s))"
    using container_id_chars [OF assms] v last_in_set [of "c # s"] by auto
  then have "trim v = v" unfolding v by (rule trim_id)
  moreover have hex: "\<forall>c \<in> set v. is_ascii_hexdigit c"
    using assms by (simp add: is_container_id_def list_all_iff)
  have no: "\<not> starts_with v (p :: string)" if "c \<in> set p" "\<not> is_ascii_hexdigit c" for p c
    using hex that by (auto simp: starts_with_iff_append)
  have "scope_ref v scope_prefixes = None"
    using no [of "CHR ''r''"] no [of "CHR ''-''"]
    by (simp add: scope_prefixes_def strip_prefix_def is_ascii_hexdigit_def Let_def)
  ultimately show ?thesis using assms v by (simp add: segment_ref_def Let_def)
qed

section \<open>The scan by inode\<close>

text \<open>The directories of a tree in the order of the scan, with their inodes.\<close>

fun dirs_of :: "string \<Rightarrow> dir_node \<Rightarrow> (string \<times> u64) list"
  and entry_dirs :: "string \<Rightarrow> dir_entry list \<Rightarrow> (string \<times> u64) list" where
  "dirs_of dir (NoMetadata e) = []"
| "dirs_of dir (NoListing i e) = [(dir, i)]"
| "dirs_of dir (Dir i es) = (dir, i) # entry_dirs dir es"
| "entry_dirs dir [] = []"
| "entry_dirs dir (SubDir name d # es) = dirs_of (path_join dir name) d @ entry_dirs dir es"
| "entry_dirs dir (_ # es) = entry_dirs dir es"

fun readable :: "dir_node \<Rightarrow> bool" and entries_readable :: "dir_entry list \<Rightarrow> bool" where
  "readable (Dir i es) = entries_readable es"
| "readable _ = False"
| "entries_readable [] = True"
| "entries_readable (NotDir name # es) = entries_readable es"
| "entries_readable (SubDir name d # es) = (readable d \<and> entries_readable es)"
| "entries_readable (_ # es) = False"

lemma find_dir_found:
  "find_dir_by_inode dir ino d = Inr p \<Longrightarrow> (p, ino) \<in> set (dirs_of dir d)"
  "find_in_entries dir ino es = Inr p \<Longrightarrow> (p, ino) \<in> set (entry_dirs dir es)"
  by (induction dir ino d and dir ino es rule: find_dir_by_inode_find_in_entries.induct)
     (auto split: if_splits sum.splits resolve_cgroup_error.splits)

lemma find_dir_not_found:
  "find_dir_by_inode dir ino d = Inl (NotFound i) \<Longrightarrow>
     i = ino \<and> (\<forall>q. (q, ino) \<notin> set (dirs_of dir d))"
  "find_in_entries dir ino es = Inl (NotFound i) \<Longrightarrow>
     i = ino \<and> (\<forall>q. (q, ino) \<notin> set (entry_dirs dir es))"
  by (induction dir ino d and dir ino es arbitrary: i and i
      rule: find_dir_by_inode_find_in_entries.induct)
     (auto split: if_splits sum.splits resolve_cgroup_error.splits)

lemma find_dir_readable:
  "readable d \<Longrightarrow> find_dir_by_inode dir ino d \<noteq> Inl (CgroupIo p e) \<and>
                   find_dir_by_inode dir ino d \<noteq> Inl (CgroupUnbound j q u)"
  "entries_readable es \<Longrightarrow> find_in_entries dir ino es \<noteq> Inl (CgroupIo p e) \<and>
                            find_in_entries dir ino es \<noteq> Inl (CgroupUnbound j q u)"
  by (induction dir ino d and dir ino es rule: find_dir_by_inode_find_in_entries.induct)
     (auto split: if_splits sum.splits resolve_cgroup_error.splits)

lemma split_once_scheme:
  "CHR '':'' \<notin> set scheme \<Longrightarrow> split_once ''://'' (scheme @ ''://'' @ v) = Some (scheme, v)"
  by (induction scheme) (auto simp: starts_with_def)

lemma k8s_scheme:
  "(scheme, prefix, runtime) \<in> set scope_schemes \<Longrightarrow> is_container_id v \<Longrightarrow>
   parse_k8s_container_id (scheme @ ''://'' @ v) =
     Inr \<lparr>cr_runtime = runtime, cr_id = to_ascii_lowercase v\<rparr>"
  using split_once_scheme [of scheme v]
  by (auto simp: parse_k8s_container_id_def scope_schemes_def validate_container_id_def)

lemma scope_path:
  assumes "(scheme, prefix, runtime) \<in> set scope_schemes" and "is_container_id v"
  shows "parse_container_ref (dir @ ''/'' @ prefix @ v @ ''.scope'') =
         Inr \<lparr>cr_runtime = runtime, cr_id = to_ascii_lowercase v\<rparr>"
proof -
  have "CHR ''/'' \<notin> set (prefix @ v @ ''.scope'')"
    using assms(1) container_id_chars [OF assms(2)] by (auto simp: scope_schemes_def)
  from parse_last_segment [OF this] scope_segment [OF assms] show ?thesis by simp
qed

lemma docker_path:
  assumes "is_container_id v"
  shows "parse_container_ref ((dir @ ''/docker'') @ ''/'' @ v) =
         Inr \<lparr>cr_runtime = Docker, cr_id = to_ascii_lowercase v\<rparr>"
proof -
  have s: "CHR ''/'' \<notin> set v" using container_id_chars [OF assms] by blast
  have "contains ((dir @ ''/docker'') @ ''/'' @ v) ''/docker/''"
    using contains_append [of dir "''/docker/''" v] by simp
  then show ?thesis
    unfolding parse_last_segment [OF s] bare_segment [OF assms] by simp
qed

section \<open>Properties\<close>

text \<open>
  a container named by the cgroup paths of the supported runtimes (systemd scopes under
  any parent directory, and Docker's cgroupfs layout) and by the Kubernetes status value
  resolves to one and the same reference, whatever the case of the id's digits, so the two
  sides of the binding meet.
\<close>

theorem cgroup_path_meets_k8s:
  assumes "is_container_id v" and "(scheme, prefix, runtime) \<in> set scope_schemes"
  shows "parse_container_ref (dir @ ''/'' @ prefix @ v @ ''.scope'') =
           Inr \<lparr>cr_runtime = runtime, cr_id = to_ascii_lowercase v\<rparr> \<and>
         parse_k8s_container_id (scheme @ ''://'' @ to_ascii_lowercase v) =
           parse_container_ref (dir @ ''/'' @ prefix @ v @ ''.scope'') \<and>
         parse_container_ref ((dir @ ''/docker'') @ ''/'' @ v) =
           parse_k8s_container_id (''docker://'' @ to_ascii_lowercase v)"
proof -
  have v': "is_container_id (to_ascii_lowercase v)" using assms(1) by simp
  have "(''docker'', ''docker-'', Docker) \<in> set scope_schemes" by (simp add: scope_schemes_def)
  from k8s_scheme [OF this v'] k8s_scheme [OF assms(2) v'] scope_path [OF assms(2,1)]
    docker_path [OF assms(1)]
  show ?thesis by simp
qed

definition sample_container_id :: string where
  "sample_container_id = concat (replicate 4 ''0123456789ABCDEF'')"

theorem cgroup_path_meets_k8s_witness:
  "is_container_id sample_container_id \<and>
   parse_container_ref (''/kubepods.slice'' @ ''/'' @ ''crio-'' @ sample_container_id @ ''.scope'') =
     Inr \<lparr>cr_runtime = Crio, cr_id = concat (replicate 4 ''0123456789abcdef'')\<rparr>"
proof -
  have i: "is_container_id sample_container_id"
    by code_simp
  have l: "to_ascii_lowercase sample_container_id = concat (replicate 4 ''0123456789abcdef'')"
    by code_simp
  have m: "(''cri-o'', ''crio-'', Crio) \<in> set scope_schemes" by (simp add: scope_schemes_def)
  from cgroup_path_meets_k8s [OF i m, of "''/kubepods.slice''"] i l show ?thesis by simp
qed

text \<open>
  the scan of cgroupfs returns a directory of the tree with the wanted inode; it answers
  "not found" only when no directory it could see has that inode; and where every directory
  can be read it fails in no other way.
\<close>

theorem find_dir_exact:
  "(find_dir_by_inode dir ino d = Inr p \<longrightarrow> (p, ino) \<in> set (dirs_of dir d)) \<and>
   (find_dir_by_inode dir ino d = Inl (NotFound i) \<longrightarrow>
      i = ino \<and> (\<forall>q. (q, ino) \<notin> set (dirs_of dir d))) \<and>
   (readable d \<longrightarrow> find_dir_by_inode dir ino d \<noteq> Inl (CgroupIo q e))"
proof (intro conjI impI)
  show "(p, ino) \<in> set (dirs_of dir d)" if "find_dir_by_inode dir ino d = Inr p"
    using that by (rule find_dir_found(1))
next
  assume "find_dir_by_inode dir ino d = Inl (NotFound i)"
  note n = find_dir_not_found(1) [OF this]
  show "i = ino" using n ..
  show "\<forall>q. (q, ino) \<notin> set (dirs_of dir d)" using n ..
next
  show "find_dir_by_inode dir ino d \<noteq> Inl (CgroupIo q e)" if "readable d"
    using find_dir_readable(1) [OF that] ..
qed

definition sample_tree :: dir_node where
  "sample_tree = Dir 1 [NotDir ''tasks'', SubDir ''a'' (Dir 2 []), SubDir ''b'' (Dir 3 [])]"

theorem find_dir_exact_witness:
  "find_dir_by_inode ''/c'' 3 sample_tree = Inr ''/c/b'' \<and> readable sample_tree \<and>
   (''/c/b'', 3) \<in> set (dirs_of ''/c'' sample_tree) \<and>
   (\<forall>q. (q, 9) \<notin> set (dirs_of ''/c'' sample_tree))"
proof -
  have f: "find_dir_by_inode ''/c'' 3 sample_tree = Inr ''/c/b''"
    and n: "find_dir_by_inode ''/c'' 9 sample_tree = Inl (NotFound 9)"
    and r: "readable sample_tree"
    by (simp_all add: sample_tree_def path_join_def)
  from find_dir_exact [of "''/c''" 3 sample_tree "''/c/b''"] f
  have "(''/c/b'', 3) \<in> set (dirs_of ''/c'' sample_tree)" by simp
  moreover from find_dir_exact [of "''/c''" 9 sample_tree _ 9] n
  have "\<forall>q. (q, 9) \<notin> set (dirs_of ''/c'' sample_tree)" by simp
  ultimately show ?thesis using f r by simp
qed

end
