(* ===== verification/Binding_Cache.thy ===== *)
theory Binding_Cache
  imports Container_Ref "HOL-Library.AList"
begin

text \<open>
  The cache from container ids to pods (\<open>BindingCache\<close> in \<open>jalki-enrich/src/lib.rs\<close>).  A
  \<open>HashMap\<close> is an association list with distinct keys, its \<open>len\<close> the list's length.  The
  lemmas show that the first-in first-out index is exactly the cached ids, that the capacity
  holds after every operation, and that every binding is one its pod's index lists.
\<close>

section \<open>Data\<close>

definition default_binding_cache_max_containers :: nat where
  "default_binding_cache_max_containers = 100000"

record workload_owner =
  wo_kind :: string
  wo_name :: string
  wo_uid :: string

record pod_metadata =
  md_pod_uid :: string
  md_pod_name :: string
  md_namespace :: string
  md_service_account :: "string option"
  md_owner :: "workload_owner option"

record container_status_snapshot =
  cs_container_id :: string

record pod_snapshot =
  ps_pod_uid :: string
  ps_pod_name :: string
  ps_namespace :: string
  ps_service_account :: "string option"
  ps_owner :: "workload_owner option"
  ps_containers :: "container_status_snapshot list"

definition metadata :: "pod_snapshot \<Rightarrow> pod_metadata" where
  "metadata p =
     \<lparr>md_pod_uid = ps_pod_uid p, md_pod_name = ps_pod_name p, md_namespace = ps_namespace p,
      md_service_account = ps_service_account p, md_owner = ps_owner p\<rparr>"

record cache_update =
  cu_upserted :: nat
  cu_removed :: nat
  cu_ignored :: nat

datatype binding = BoundTo string pod_metadata binding_provenance | NotBound unbound_reason

fun into_runtime_binding :: "binding \<Rightarrow> runtime_binding" where
  "into_runtime_binding (BoundTo cid md prov) =
     Bound \<lparr>bf_container_id = cid, bf_pod_uid = Some (md_pod_uid md),
            bf_pod_name = Some (md_pod_name md), bf_namespace = Some (md_namespace md),
            bf_service_account = md_service_account md,
            bf_owner_kind = map_option wo_kind (md_owner md),
            bf_owner_name = map_option wo_name (md_owner md),
            bf_owner_uid = map_option wo_uid (md_owner md), bf_provenance = prov\<rparr>"
| "into_runtime_binding (NotBound reason) = Unbound reason"

record binding_cache =
  by_container_id :: "(string \<times> pod_metadata) list"
  by_pod_uid :: "(string \<times> string list) list"
  insertion_order :: "string list"
  max_containers :: nat
  bc_hits :: u64
  bc_misses :: u64

definition with_max_containers :: "nat \<Rightarrow> binding_cache" where
  "with_max_containers n =
     \<lparr>by_container_id = [], by_pod_uid = [], insertion_order = [], max_containers = n,
      bc_hits = 0, bc_misses = 0\<rparr>"

section \<open>Operations\<close>

definition insert_container :: "string \<Rightarrow> pod_metadata \<Rightarrow> binding_cache \<Rightarrow> binding_cache" where
  "insert_container cid md c =
     (let cid = to_ascii_lowercase cid;
          is_new = (map_of (by_container_id c) cid = None);
          c = c\<lparr>by_container_id := AList.update cid md (by_container_id c)\<rparr>
      in if is_new then c\<lparr>insertion_order := insertion_order c @ [cid]\<rparr> else c)"

definition remove_from_pod_index ::
  "string \<Rightarrow> (string \<times> string list) list \<Rightarrow> (string \<times> string list) list" where
  "remove_from_pod_index cid pods =
     filter (\<lambda>(uid, ids). ids \<noteq> [])
       (map (\<lambda>(uid, ids). (uid, filter (\<lambda>i. i \<noteq> cid) ids)) pods)"

text \<open>The \<open>while\<close> loop of \<open>evict_to_capacity\<close>, ending when the index is empty.\<close>

fun evict_loop :: "string list \<Rightarrow> binding_cache \<Rightarrow> nat \<times> binding_cache" where
  "evict_loop [] c = (0, c\<lparr>insertion_order := []\<rparr>)"
| "evict_loop (cid # order) c =
     (if length (by_container_id c) \<le> max_containers c
      then (0, c\<lparr>insertion_order := cid # order\<rparr>)
      else if map_of (by_container_id c) cid = None then evict_loop order c
      else (case evict_loop order
              (c\<lparr>by_container_id := AList.delete cid (by_container_id c),
                 by_pod_uid := remove_from_pod_index cid (by_pod_uid c)\<rparr>) of
              (n, c') \<Rightarrow> (n + 1, c')))"

definition evict_to_capacity :: "binding_cache \<Rightarrow> nat \<times> binding_cache" where
  "evict_to_capacity c =
     (if max_containers c = 0
      then (length (by_container_id c),
            c\<lparr>by_container_id := [], by_pod_uid := [], insertion_order := []\<rparr>)
      else evict_loop (insertion_order c) c)"

definition upsert :: "string \<Rightarrow> pod_metadata \<Rightarrow> binding_cache \<Rightarrow> binding_cache" where
  "upsert cid md c = snd (evict_to_capacity (insert_container cid md c))"

definition remove :: "string \<Rightarrow> binding_cache \<Rightarrow> pod_metadata option \<times> binding_cache" where
  "remove cid c =
     (let cid = to_ascii_lowercase cid
      in case map_of (by_container_id c) cid of
           None \<Rightarrow> (None, c)
         | Some md \<Rightarrow>
             (Some md,
              c\<lparr>by_container_id := AList.delete cid (by_container_id c),
                by_pod_uid := remove_from_pod_index cid (by_pod_uid c),
                insertion_order := filter (\<lambda>i. i \<noteq> cid) (insertion_order c)\<rparr>))"

text \<open>The loop of \<open>remove_pod\<close>: the containers left and how many were there.\<close>

fun remove_ids ::
  "string list \<Rightarrow> (string \<times> pod_metadata) list \<Rightarrow> nat \<times> (string \<times> pod_metadata) list" where
  "remove_ids [] cs = (0, cs)"
| "remove_ids (i # ids) cs =
     (if map_of cs i = None then remove_ids ids cs
      else (case remove_ids ids (AList.delete i cs) of (n, cs') \<Rightarrow> (n + 1, cs')))"

definition remove_pod :: "string \<Rightarrow> binding_cache \<Rightarrow> cache_update \<times> binding_cache" where
  "remove_pod uid c =
     (case map_of (by_pod_uid c) uid of
        None \<Rightarrow> (\<lparr>cu_upserted = 0, cu_removed = 0, cu_ignored = 0\<rparr>, c)
      | Some ids \<Rightarrow>
          (case remove_ids ids (by_container_id c) of
             (n, cs) \<Rightarrow>
               (\<lparr>cu_upserted = 0, cu_removed = n, cu_ignored = 0\<rparr>,
                c\<lparr>by_container_id := cs, by_pod_uid := AList.delete uid (by_pod_uid c),
                  insertion_order := filter (\<lambda>i. i \<notin> set ids) (insertion_order c)\<rparr>)))"

text \<open>The loop over the containers of a snapshot: update counts, ids so far, cache.\<close>

definition snapshot_container ::
  "pod_metadata \<Rightarrow> container_status_snapshot \<Rightarrow> cache_update \<times> string list \<times> binding_cache \<Rightarrow>
   cache_update \<times> string list \<times> binding_cache" where
  "snapshot_container md container s =
     (case s of (u, ids, c) \<Rightarrow>
        (case parse_k8s_container_id (cs_container_id container) of
           Inr r \<Rightarrow> (u\<lparr>cu_upserted := cu_upserted u + 1\<rparr>, ids @ [cr_id r],
                     insert_container (cr_id r) md c)
         | Inl e \<Rightarrow> (u\<lparr>cu_ignored := cu_ignored u + 1\<rparr>, ids, c)))"

definition apply_pod_snapshot :: "pod_snapshot \<Rightarrow> binding_cache \<Rightarrow> cache_update \<times> binding_cache" where
  "apply_pod_snapshot pod c =
     (let (u, c) = remove_pod (ps_pod_uid pod) c;
          (u, ids, c) = fold (snapshot_container (metadata pod)) (ps_containers pod) (u, [], c);
          c = (if ids \<noteq> [] then c\<lparr>by_pod_uid := AList.update (ps_pod_uid pod) ids (by_pod_uid c)\<rparr>
               else c);
          (n, c) = evict_to_capacity c
      in (u\<lparr>cu_removed := cu_removed u + n\<rparr>, c))"

definition bind_container ::
  "string \<Rightarrow> binding_provenance \<Rightarrow> binding_cache \<Rightarrow> binding \<times> binding_cache" where
  "bind_container cid prov c =
     (let cid = to_ascii_lowercase cid
      in case map_of (by_container_id c) cid of
           Some md \<Rightarrow> (BoundTo cid md prov, c\<lparr>bc_hits := bc_hits c + 1\<rparr>)
         | None \<Rightarrow> (NotBound CacheMiss, c\<lparr>bc_misses := bc_misses c + 1\<rparr>))"

section \<open>The first-in first-out index\<close>

definition cache_wf :: "binding_cache \<Rightarrow> bool" where
  "cache_wf c =
     (distinct (map fst (by_container_id c)) \<and> distinct (insertion_order c) \<and>
      set (insertion_order c) = fst ` set (by_container_id c) \<and>
      distinct (map fst (by_pod_uid c)))"

lemma cache_wf_new: "cache_wf (with_max_containers n)"
  by (simp add: cache_wf_def with_max_containers_def)

lemma cache_wf_length: "cache_wf c \<Longrightarrow> length (insertion_order c) = length (by_container_id c)"
  unfolding cache_wf_def by (metis distinct_card length_map list.set_map)

lemma map_of_None_key: "map_of xs k = None \<longleftrightarrow> k \<notin> fst ` set xs"
  by (rule map_of_eq_None_iff)

lemma cache_wf_insert: "cache_wf c \<Longrightarrow> cache_wf (insert_container cid md c)"
  by (auto simp: cache_wf_def insert_container_def Let_def map_of_None_key dom_update
      distinct_update)

lemma delete_filter: "AList.delete k xs = filter (\<lambda>x. fst x \<noteq> k) xs"
  by (simp add: AList.delete_eq case_prod_unfold) (metis (no_types, lifting) filter_cong)

lemma keys_filter: "fst ` {x \<in> set xs. fst x \<notin> A} = fst ` set xs - A"
  by auto

lemma delete_absent: "map_of xs k = None \<Longrightarrow> AList.delete k xs = xs"
  by (simp add: map_of_None_key)

lemma remove_ids_filter: "snd (remove_ids ids cs) = filter (\<lambda>x. fst x \<notin> set ids) cs"
proof (induction ids cs rule: remove_ids.induct)
  case (1 cs)
  then show ?case by simp
next
  case (2 i ids cs)
  show ?case
  proof (cases "map_of cs i = None")
    case True
    then have "filter (\<lambda>x. fst x \<notin> set ids) cs = filter (\<lambda>x. fst x \<notin> set (i # ids)) cs"
      by (intro filter_cong) (auto simp: map_of_None_key)
    with 2(1) True show ?thesis by simp
  next
    case False
    then obtain md where md: "map_of cs i = Some md" by blast
    from 2(2) [OF False] have "snd (remove_ids (i # ids) cs) =
        filter (\<lambda>x. fst x \<notin> set ids) (AList.delete i cs)"
      by (simp add: md case_prod_unfold)
    also have "\<dots> = filter (\<lambda>x. fst x \<notin> set (i # ids)) cs"
      by (auto simp: delete_filter intro: filter_cong)
    finally show ?thesis .
  qed
qed

lemma remove_ids_count: "length cs = fst (remove_ids ids cs) + length (snd (remove_ids ids cs))"
  if "distinct (map fst cs)"
  using that
proof (induction ids cs rule: remove_ids.induct)
  case (2 i ids cs)
  show ?case
  proof (cases "map_of cs i")
    case None
    with 2 show ?thesis by simp
  next
    case (Some md)
    then have "i \<in> set (map fst cs)" by (metis list.set_map map_of_None_key option.distinct(1))
    then have "length cs = Suc (length (AList.delete i cs))"
    proof -
      have "length (AList.delete i cs) = length (remove1 i (map fst cs))"
        using 2(3) by (metis delete_keys distinct_remove1_removeAll length_map)
      also have "\<dots> = length cs - 1"
        using \<open>i \<in> set (map fst cs)\<close> by (simp add: length_remove1)
      finally show ?thesis using \<open>i \<in> set (map fst cs)\<close> by (cases cs) simp_all
    qed
    moreover have "distinct (map fst (AList.delete i cs))" using 2(3) by (rule distinct_delete)
    ultimately show ?thesis using 2(2) [OF _ ] Some by (simp add: case_prod_unfold)
  qed
qed simp

lemma remove_pod_fields:
  "by_container_id (snd (remove_pod uid c)) =
     (case map_of (by_pod_uid c) uid of None \<Rightarrow> by_container_id c
      | Some ids \<Rightarrow> filter (\<lambda>x. fst x \<notin> set ids) (by_container_id c))"
  "by_pod_uid (snd (remove_pod uid c)) = AList.delete uid (by_pod_uid c)"
  "insertion_order (snd (remove_pod uid c)) =
     (case map_of (by_pod_uid c) uid of None \<Rightarrow> insertion_order c
      | Some ids \<Rightarrow> filter (\<lambda>i. i \<notin> set ids) (insertion_order c))"
  "max_containers (snd (remove_pod uid c)) = max_containers c"
  by (cases "map_of (by_pod_uid c) uid";
      simp add: remove_pod_def case_prod_unfold remove_ids_filter delete_absent)+

lemma map_of_pod_index:
  "distinct (map fst pods) \<Longrightarrow>
   map_of (remove_from_pod_index cid pods) uid =
     (case map_of pods uid of None \<Rightarrow> None
      | Some ids \<Rightarrow> if filter (\<lambda>i. i \<noteq> cid) ids = [] then None
                    else Some (filter (\<lambda>i. i \<noteq> cid) ids))"
proof (induction pods)
  case Nil
  then show ?case by (simp add: remove_from_pod_index_def)
next
  case (Cons p pods)
  obtain u ids where p: "p = (u, ids)" by force
  have new: "map_of pods u = None" using Cons(2) by (simp add: p map_of_None_key)
  have "remove_from_pod_index cid (p # pods) =
      (if filter (\<lambda>i. i \<noteq> cid) ids = [] then [] else [(u, filter (\<lambda>i. i \<noteq> cid) ids)]) @
      remove_from_pod_index cid pods"
    by (simp add: remove_from_pod_index_def p)
  then show ?case using Cons new by (cases "uid = u") (simp_all add: p split: option.splits)
qed

lemma pod_index_keys: "fst ` set (remove_from_pod_index cid pods) \<subseteq> fst ` set pods"
  by (force simp: remove_from_pod_index_def)

lemma distinct_pod_index:
  "distinct (map fst pods) \<Longrightarrow> distinct (map fst (remove_from_pod_index cid pods))"
proof (induction pods)
  case (Cons p pods)
  then show ?case using pod_index_keys [of cid pods]
    by (cases p) (auto simp: remove_from_pod_index_def)
qed (simp add: remove_from_pod_index_def)

lemma cache_wf_remove_pod:
  assumes "cache_wf c"
  shows "cache_wf (snd (remove_pod uid c))"
proof (cases "map_of (by_pod_uid c) uid")
  case None
  with assms show ?thesis by (simp add: remove_pod_def)
next
  case (Some ids)
  have "distinct (map fst (filter (\<lambda>x. fst x \<notin> set ids) (by_container_id c)))"
    using assms by (simp add: cache_wf_def distinct_map_filter)
  with assms Some show ?thesis
    by (simp add: cache_wf_def remove_pod_fields keys_filter distinct_delete) blast
qed


lemma evict_loop_spec:
  assumes "distinct (map fst (by_container_id c))" and "distinct order"
    and "set order = fst ` set (by_container_id c)" and "distinct (map fst (by_pod_uid c))"
    and "evict_loop order c = (n, c')"
  shows "n = length order - max_containers c \<and> insertion_order c' = drop n order \<and>
         by_container_id c' = filter (\<lambda>x. fst x \<notin> set (take n order)) (by_container_id c) \<and>
         by_pod_uid c' = fold remove_from_pod_index (take n order) (by_pod_uid c) \<and>
         max_containers c' = max_containers c"
  using assms
proof (induction order c arbitrary: n c' rule: evict_loop.induct)
  case (1 c)
  then show ?case by (auto split: prod.splits)
next
  case (2 cid order c)
  have len: "length (by_container_id c) = Suc (length order)"
    using 2(3-5) by (metis distinct_card length_Cons length_map list.set_map)
  show ?case
  proof (cases "length (by_container_id c) \<le> max_containers c")
    case True
    with 2(7) len show ?thesis by auto
  next
    case False
    have "cid \<in> fst ` set (by_container_id c)" using 2(5) by (metis list.set_intros(1))
    then have some: "map_of (by_container_id c) cid \<noteq> None" by (simp add: map_of_None_key)
    let ?c = "c\<lparr>by_container_id := AList.delete cid (by_container_id c),
                 by_pod_uid := remove_from_pod_index cid (by_pod_uid c)\<rparr>"
    obtain m c1 where e: "evict_loop order ?c = (m, c1)" by force
    from 2(7) False some e have n: "n = Suc m" "c' = c1" by auto
    have keys: "fst ` set (by_container_id ?c) = fst ` set (by_container_id c) - {cid}"
      by (auto simp: delete_filter)
    have d: "distinct (map fst (by_container_id ?c))" using 2(3) by (simp add: distinct_delete)
    have o: "set order = fst ` set (by_container_id ?c)"
      unfolding keys 2(5) [symmetric] using 2(4) by auto
    have p: "distinct (map fst (by_pod_uid ?c))" using 2(6) by (simp add: distinct_pod_index)
    have "distinct order" using 2(4) by simp
    from 2(2) [OF False some d this o p e]
    have ih: "m = length order - max_containers c" "insertion_order c1 = drop m order"
      "by_container_id c1 = filter (\<lambda>x. fst x \<notin> set (take m order)) (AList.delete cid (by_container_id c))"
      "by_pod_uid c1 = fold remove_from_pod_index (take m order)
         (remove_from_pod_index cid (by_pod_uid c))"
      "max_containers c1 = max_containers c" by simp_all
    have "filter (\<lambda>x. fst x \<notin> set (take m order)) (AList.delete cid (by_container_id c)) =
        filter (\<lambda>x. fst x \<notin> set (take n (cid # order))) (by_container_id c)"
      by (simp add: delete_filter n)
    moreover have a: "length (cid # order) - max_containers c = n" using ih(1) n False len by simp
    ultimately show ?thesis unfolding a using ih(2-5) by (simp add: n)
  qed
qed

lemma evict_to_capacity_spec:
  assumes "cache_wf c" and "evict_to_capacity c = (n, c')"
  shows "n = length (insertion_order c) - max_containers c \<and>
         insertion_order c' = drop n (insertion_order c) \<and>
         by_container_id c' =
           filter (\<lambda>x. fst x \<notin> set (take n (insertion_order c))) (by_container_id c) \<and>
         max_containers c' = max_containers c"
proof (cases "max_containers c = 0")
  case True
  have "\<forall>x \<in> set (by_container_id c). fst x \<in> set (insertion_order c)"
    using assms(1) by (simp add: cache_wf_def)
  with True assms(2) cache_wf_length [OF assms(1)] show ?thesis
    by (auto simp: evict_to_capacity_def filter_empty_conv)
next
  case False
  with assms evict_loop_spec [of c "insertion_order c" n c'] show ?thesis
    by (simp add: evict_to_capacity_def cache_wf_def)
qed

lemma fold_pod_index_distinct:
  "distinct (map fst pods) \<Longrightarrow> distinct (map fst (fold remove_from_pod_index ids pods))"
  by (induction ids arbitrary: pods) (simp_all add: distinct_pod_index)

lemma evict_pods:
  assumes "cache_wf c" and "evict_to_capacity c = (n, c')"
  shows "by_pod_uid c' =
           (if max_containers c = 0 then []
            else fold remove_from_pod_index (take n (insertion_order c)) (by_pod_uid c))"
  using assms evict_loop_spec [of c "insertion_order c" n c']
  by (auto simp: evict_to_capacity_def cache_wf_def)

lemma cache_wf_evict:
  assumes "cache_wf c" and "evict_to_capacity c = (n, c')"
  shows "cache_wf c' \<and> length (by_container_id c') \<le> max_containers c'"
proof -
  note e = evict_to_capacity_spec [OF assms]
  let ?o = "insertion_order c" and ?cs = "by_container_id c"
  have w: "distinct (map fst ?cs)" "distinct ?o" "set ?o = fst ` set ?cs"
    "distinct (map fst (by_pod_uid c))"
    using assms(1) by (simp_all add: cache_wf_def)
  have split: "set ?o = set (take n ?o) \<union> set (drop n ?o)" "set (take n ?o) \<inter> set (drop n ?o) = {}"
    using w(2) by (metis append_take_drop_id set_append, metis append_take_drop_id distinct_append)
  have "set (drop n ?o) = fst ` set ?cs - set (take n ?o)" using split w(3) by blast
  moreover have "distinct (map fst (by_pod_uid c'))"
    unfolding evict_pods [OF assms] using w(4) by (simp add: fold_pod_index_distinct)
  ultimately have wf: "cache_wf c'"
    using e w by (simp add: cache_wf_def distinct_map_filter keys_filter)
  have "length (insertion_order c') \<le> max_containers c'" using e by simp
  with cache_wf_length [OF wf] wf show ?thesis by simp
qed

section \<open>What a snapshot stores\<close>

fun container_ids :: "container_status_snapshot list \<Rightarrow> string list" where
  "container_ids [] = []"
| "container_ids (k # ks) =
     (case parse_k8s_container_id (cs_container_id k) of
        Inr r \<Rightarrow> cr_id r # container_ids ks
      | Inl e \<Rightarrow> container_ids ks)"

definition listed_ids :: "pod_snapshot \<Rightarrow> string list" where
  "listed_ids pod = container_ids (ps_containers pod)"

abbreviation lookup :: "binding_cache \<Rightarrow> string \<Rightarrow> pod_metadata option" where
  "lookup c \<equiv> map_of (by_container_id c)"

abbreviation pod_ids :: "binding_cache \<Rightarrow> string \<Rightarrow> string list option" where
  "pod_ids c \<equiv> map_of (by_pod_uid c)"

lemma insert_container_fields [simp]:
  "lookup (insert_container cid md c) = (lookup c)(to_ascii_lowercase cid \<mapsto> md)"
  "by_pod_uid (insert_container cid md c) = by_pod_uid c"
  "max_containers (insert_container cid md c) = max_containers c"
  by (simp_all add: insert_container_def Let_def update_conv')

lemma insert_container_order:
  "insertion_order (insert_container cid md c) =
     insertion_order c @ (if lookup c (to_ascii_lowercase cid) = None then [to_ascii_lowercase cid] else [])"
  by (simp add: insert_container_def Let_def)

fun insert_ids :: "pod_metadata \<Rightarrow> string list \<Rightarrow> binding_cache \<Rightarrow> binding_cache" where
  "insert_ids md [] c = c"
| "insert_ids md (i # ids) c = insert_ids md ids (insert_container i md c)"

lemma snapshot_fold:
  "fold (snapshot_container md) ks (u, ids, c) = (u', ids', c') \<Longrightarrow>
   ids' = ids @ container_ids ks \<and> c' = insert_ids md (container_ids ks) c \<and>
   cu_removed u' = cu_removed u"
proof (induction ks arbitrary: u ids c)
  case Nil
  then show ?case by simp
next
  case (Cons k ks)
  show ?case
  proof (cases "parse_k8s_container_id (cs_container_id k)")
    case (Inl x)
    with Cons.prems Cons.IH [of "u\<lparr>cu_ignored := cu_ignored u + 1\<rparr>" ids c] show ?thesis
      by (simp add: snapshot_container_def)
  next
    case (Inr r)
    with Cons.prems Cons.IH [of "u\<lparr>cu_upserted := cu_upserted u + 1\<rparr>" "ids @ [cr_id r]"
        "insert_container (cr_id r) md c"]
    show ?thesis by (simp add: snapshot_container_def)
  qed
qed

lemma insert_ids_fields:
  "lookup (insert_ids md ids c) i =
     (if i \<in> to_ascii_lowercase ` set ids then Some md else lookup c i)"
  "by_pod_uid (insert_ids md ids c) = by_pod_uid c"
  "max_containers (insert_ids md ids c) = max_containers c"
  by (induction md ids c rule: insert_ids.induct) auto

lemma cache_wf_insert_ids: "cache_wf c \<Longrightarrow> cache_wf (insert_ids md ids c)"
  by (induction md ids c rule: insert_ids.induct) (auto intro: cache_wf_insert)

lemma insert_ids_order:
  "\<exists>news. insertion_order (insert_ids md ids c) = insertion_order c @ news \<and>
          set news = to_ascii_lowercase ` set ids - dom (lookup c)"
proof (induction md ids c rule: insert_ids.induct)
  case (1 md c)
  then show ?case by simp
next
  case (2 md i ids c)
  let ?i = "to_ascii_lowercase i"
  from 2 obtain news where
    n: "insertion_order (insert_ids md ids (insert_container i md c)) =
        insertion_order (insert_container i md c) @ news"
      "set news = to_ascii_lowercase ` set ids - dom (lookup (insert_container i md c))"
    by blast
  show ?case
    by (rule exI [of _ "(if lookup c ?i = None then [?i] else []) @ news"])
       (use n in \<open>auto simp: insert_container_order\<close>)
qed

lemma container_ids_canonical: "i \<in> set (container_ids ks) \<Longrightarrow> to_ascii_lowercase i = i"
  by (induction ks rule: container_ids.induct)
     (auto split: sum.splits dest: k8s_canonical simp: canonical_ref_def)

lemma listed_ids_canonical: "i \<in> set (listed_ids pod) \<Longrightarrow> to_ascii_lowercase i = i"
  unfolding listed_ids_def by (rule container_ids_canonical)

lemma listed_ids_lower [simp]: "to_ascii_lowercase ` set (listed_ids pod) = set (listed_ids pod)"
  using listed_ids_canonical by (force intro: image_eqI)

text \<open>The cache before the eviction that ends a snapshot.\<close>

definition snapshot_stored :: "pod_snapshot \<Rightarrow> binding_cache \<Rightarrow> binding_cache" where
  "snapshot_stored pod c =
     (let c = insert_ids (metadata pod) (listed_ids pod) (snd (remove_pod (ps_pod_uid pod) c))
      in if listed_ids pod \<noteq> []
         then c\<lparr>by_pod_uid := AList.update (ps_pod_uid pod) (listed_ids pod) (by_pod_uid c)\<rparr> else c)"

lemma apply_pod_snapshot_eq:
  "snd (apply_pod_snapshot pod c) = snd (evict_to_capacity (snapshot_stored pod c))"
proof -
  obtain u c1 where r: "remove_pod (ps_pod_uid pod) c = (u, c1)" by force
  obtain u' ids c2 where f: "fold (snapshot_container (metadata pod)) (ps_containers pod) (u, [], c1) =
      (u', ids, c2)" by (metis prod_cases3)
  have "ids = listed_ids pod" "c2 = insert_ids (metadata pod) (listed_ids pod) c1"
    using snapshot_fold [OF f] by (simp_all add: listed_ids_def)
  then show ?thesis
    by (simp add: apply_pod_snapshot_def snapshot_stored_def r f Let_def case_prod_unfold)
qed


section \<open>Every binding is listed by its pod\<close>

definition bindings_listed :: "binding_cache \<Rightarrow> bool" where
  "bindings_listed c =
     (\<forall>i md. lookup c i = Some md \<longrightarrow>
        (\<exists>ids. pod_ids c (md_pod_uid md) = Some ids \<and> i \<in> set ids))"

lemma bindings_listed_new: "bindings_listed (with_max_containers n)"
  by (simp add: bindings_listed_def with_max_containers_def)

lemma lookup_filter:
  "map_of (filter (\<lambda>x. fst x \<notin> A) xs) i = (if i \<in> A then None else map_of xs i)"
  by (induction xs) auto

lemma lookup_remove_pod:
  "lookup (snd (remove_pod uid c)) i =
     (case pod_ids c uid of None \<Rightarrow> lookup c i
      | Some ids \<Rightarrow> if i \<in> set ids then None else lookup c i)"
  by (simp add: remove_pod_fields lookup_filter split: option.splits)

lemma pod_ids_remove_pod:
  "pod_ids (snd (remove_pod uid c)) u = (if u = uid then None else pod_ids c u)"
  by (simp add: remove_pod_fields delete_conv')

lemma remove_pod_unbinds:
  assumes "bindings_listed c" and "lookup (snd (remove_pod uid c)) i = Some md"
  shows "lookup c i = Some md \<and> md_pod_uid md \<noteq> uid"
proof -
  have l: "lookup c i = Some md"
    using assms(2) by (simp add: lookup_remove_pod split: option.splits if_splits)
  with assms(1) obtain ids where ids: "pod_ids c (md_pod_uid md) = Some ids" "i \<in> set ids"
    unfolding bindings_listed_def by blast
  have "md_pod_uid md \<noteq> uid" using assms(2) ids by (auto simp: lookup_remove_pod)
  with l show ?thesis ..
qed

lemma bindings_listed_remove_pod:
  assumes "bindings_listed c"
  shows "bindings_listed (snd (remove_pod uid c))"
  unfolding bindings_listed_def
proof (intro allI impI)
  fix i md assume "lookup (snd (remove_pod uid c)) i = Some md"
  from remove_pod_unbinds [OF assms this] assms
  show "\<exists>ids. pod_ids (snd (remove_pod uid c)) (md_pod_uid md) = Some ids \<and> i \<in> set ids"
    by (auto simp: bindings_listed_def pod_ids_remove_pod)
qed

lemma fold_pod_index:
  "distinct (map fst pods) \<Longrightarrow> map_of pods u = Some ids \<Longrightarrow> i \<in> set ids \<Longrightarrow> i \<notin> set gone \<Longrightarrow>
   \<exists>ids'. map_of (fold remove_from_pod_index gone pods) u = Some ids' \<and> i \<in> set ids'"
proof (induction gone arbitrary: pods ids)
  case Nil
  then show ?case by simp
next
  case (Cons g gone)
  let ?ids = "filter (\<lambda>j. j \<noteq> g) ids"
  have "i \<in> set ?ids" using Cons.prems by simp
  then have "map_of (remove_from_pod_index g pods) u = Some ?ids"
    using Cons.prems by (auto simp: map_of_pod_index filter_empty_conv)
  from Cons.IH [OF distinct_pod_index [OF Cons.prems(1)] this \<open>i \<in> set ?ids\<close>] Cons.prems(4)
  show ?case by simp
qed

lemma bindings_listed_evict:
  assumes "cache_wf c" and "bindings_listed c" and "evict_to_capacity c = (n, c')"
  shows "bindings_listed c'"
proof (cases "max_containers c = 0")
  case True
  with assms(3) show ?thesis by (auto simp: evict_to_capacity_def bindings_listed_def)
next
  case False
  note e = evict_to_capacity_spec [OF assms(1,3)] and p = evict_pods [OF assms(1,3)]
  have d: "distinct (map fst (by_pod_uid c))" using assms(1) by (simp add: cache_wf_def)
  show ?thesis
    unfolding bindings_listed_def
  proof (intro allI impI)
    fix i md assume "lookup c' i = Some md"
    then have i: "lookup c i = Some md" "i \<notin> set (take n (insertion_order c))"
      using e by (auto simp: lookup_filter split: if_splits)
    from i(1) assms(2) obtain ids where "pod_ids c (md_pod_uid md) = Some ids" "i \<in> set ids"
      by (auto simp: bindings_listed_def)
    from fold_pod_index [OF d this i(2)] p False
    show "\<exists>ids. pod_ids c' (md_pod_uid md) = Some ids \<and> i \<in> set ids" by simp
  qed
qed

lemma metadata_uid [simp]: "md_pod_uid (metadata pod) = ps_pod_uid pod"
  by (simp add: metadata_def)

lemma snapshot_stored_lookup:
  "lookup (snapshot_stored pod c) i =
     (if i \<in> set (listed_ids pod) then Some (metadata pod)
      else lookup (snd (remove_pod (ps_pod_uid pod) c)) i)"
  by (simp add: snapshot_stored_def Let_def insert_ids_fields)

lemma snapshot_stored_pods:
  "pod_ids (snapshot_stored pod c) u =
     (if u = ps_pod_uid pod then (if listed_ids pod = [] then None else Some (listed_ids pod))
      else pod_ids c u)"
  by (simp add: snapshot_stored_def Let_def insert_ids_fields update_conv' pod_ids_remove_pod)

lemma bindings_listed_stored:
  assumes "bindings_listed c"
  shows "bindings_listed (snapshot_stored pod c)"
  unfolding bindings_listed_def
proof (intro allI impI)
  fix i md assume l: "lookup (snapshot_stored pod c) i = Some md"
  show "\<exists>ids. pod_ids (snapshot_stored pod c) (md_pod_uid md) = Some ids \<and> i \<in> set ids"
  proof (cases "i \<in> set (listed_ids pod)")
    case True
    with l have "md = metadata pod" by (simp add: snapshot_stored_lookup)
    moreover have "listed_ids pod \<noteq> []" using True by auto
    ultimately show ?thesis using True by (simp add: snapshot_stored_pods)
  next
    case False
    with l have "lookup (snd (remove_pod (ps_pod_uid pod) c)) i = Some md"
      by (simp add: snapshot_stored_lookup)
    from remove_pod_unbinds [OF assms this] assms show ?thesis
      by (auto simp: snapshot_stored_pods bindings_listed_def)
  qed
qed

lemma cache_wf_stored: "cache_wf c \<Longrightarrow> cache_wf (snapshot_stored pod c)"
proof -
  assume "cache_wf c"
  then have "cache_wf (insert_ids (metadata pod) (listed_ids pod) (snd (remove_pod (ps_pod_uid pod) c)))"
    by (intro cache_wf_insert_ids cache_wf_remove_pod)
  then show ?thesis
    by (cases "listed_ids pod = []")
       (simp_all add: snapshot_stored_def Let_def cache_wf_def distinct_update)
qed

section \<open>Operations in sequence\<close>

text \<open>What the watcher and the readers do with the cache.\<close>

datatype cache_op =
    Snapshot pod_snapshot
  | RemovePod string
  | RemoveContainer string
  | BindContainer string binding_provenance

fun cache_step :: "cache_op \<Rightarrow> binding_cache \<Rightarrow> binding_cache" where
  "cache_step (Snapshot pod) c = snd (apply_pod_snapshot pod c)"
| "cache_step (RemovePod uid) c = snd (remove_pod uid c)"
| "cache_step (RemoveContainer cid) c = snd (remove cid c)"
| "cache_step (BindContainer cid prov) c = snd (bind_container cid prov c)"

definition cache_ok :: "binding_cache \<Rightarrow> bool" where
  "cache_ok c =
     (cache_wf c \<and> bindings_listed c \<and> length (by_container_id c) \<le> max_containers c)"

lemma cache_ok_new: "cache_ok (with_max_containers n)"
  by (simp add: cache_ok_def cache_wf_new bindings_listed_new) (simp add: with_max_containers_def)

lemma cache_ok_remove_pod: "cache_ok c \<Longrightarrow> cache_ok (snd (remove_pod uid c))"
proof -
  assume ok: "cache_ok c"
  have "length (by_container_id (snd (remove_pod uid c))) \<le> length (by_container_id c)"
    by (simp add: remove_pod_fields split: option.splits)
  with ok show ?thesis
    by (simp add: cache_ok_def cache_wf_remove_pod bindings_listed_remove_pod remove_pod_fields(4))
qed

lemma cache_ok_snapshot:
  assumes "cache_ok c"
  shows "cache_ok (snd (apply_pod_snapshot pod c)) \<and>
         max_containers (snd (apply_pod_snapshot pod c)) = max_containers c"
proof -
  obtain n c' where e: "evict_to_capacity (snapshot_stored pod c) = (n, c')" by force
  have wf: "cache_wf (snapshot_stored pod c)" and l: "bindings_listed (snapshot_stored pod c)"
    using assms by (simp_all add: cache_ok_def cache_wf_stored bindings_listed_stored)
  have "max_containers (snapshot_stored pod c) = max_containers c"
    by (simp add: snapshot_stored_def Let_def insert_ids_fields remove_pod_fields)
  with cache_wf_evict [OF wf e] bindings_listed_evict [OF wf l e] evict_to_capacity_spec [OF wf e]
  show ?thesis by (simp add: apply_pod_snapshot_eq e cache_ok_def)
qed

lemma cache_ok_remove: "cache_ok c \<Longrightarrow> cache_ok (snd (remove cid c))"
proof (cases "lookup c (to_ascii_lowercase cid)")
  case None
  assume "cache_ok c"
  with None show ?thesis by (simp add: remove_def Let_def)
next
  case (Some md)
  assume ok: "cache_ok c"
  let ?i = "to_ascii_lowercase cid"
  let ?c = "c\<lparr>by_container_id := AList.delete ?i (by_container_id c),
              by_pod_uid := remove_from_pod_index ?i (by_pod_uid c),
              insertion_order := filter (\<lambda>i. i \<noteq> ?i) (insertion_order c)\<rparr>"
  have r: "snd (remove cid c) = ?c" using Some by (simp add: remove_def Let_def)
  have d: "distinct (map fst (by_pod_uid c))" using ok by (simp add: cache_ok_def cache_wf_def)
  have "cache_wf ?c"
    using ok by (auto simp: cache_ok_def cache_wf_def delete_filter distinct_map_filter
        distinct_pod_index)
  moreover have "bindings_listed ?c"
    unfolding bindings_listed_def
  proof (intro allI impI)
    fix i md assume "lookup ?c i = Some md"
    then have i: "lookup c i = Some md" "i \<noteq> ?i" by (auto simp: delete_conv' split: if_splits)
    with ok obtain ids where "pod_ids c (md_pod_uid md) = Some ids" "i \<in> set ids"
      unfolding cache_ok_def bindings_listed_def by blast
    from fold_pod_index [OF d this, of "[?i]"] i(2)
    show "\<exists>ids. pod_ids ?c (md_pod_uid md) = Some ids \<and> i \<in> set ids" by simp
  qed
  moreover have "length (by_container_id ?c) \<le> max_containers ?c"
    using ok length_delete_le [of ?i "by_container_id c"] by (simp add: cache_ok_def)
  ultimately show ?thesis by (simp add: r cache_ok_def)
qed

lemma bind_container_fields [simp]:
  "by_container_id (snd (bind_container cid prov c)) = by_container_id c"
  "by_pod_uid (snd (bind_container cid prov c)) = by_pod_uid c"
  "insertion_order (snd (bind_container cid prov c)) = insertion_order c"
  "max_containers (snd (bind_container cid prov c)) = max_containers c"
  by (simp_all add: bind_container_def Let_def split: option.splits)

lemma cache_ok_bind: "cache_ok (snd (bind_container cid prov c)) = cache_ok c"
  unfolding cache_ok_def cache_wf_def bindings_listed_def bind_container_fields ..

lemma cache_ok_step:
  "cache_ok c \<Longrightarrow> cache_ok (cache_step x c) \<and> max_containers (cache_step x c) = max_containers c"
proof (cases x)
  case (RemoveContainer cid)
  assume "cache_ok c"
  moreover have "max_containers (snd (remove cid c)) = max_containers c"
    by (simp add: remove_def Let_def split: option.splits)
  ultimately show ?thesis using RemoveContainer by (simp add: cache_ok_remove)
next
  case (BindContainer cid prov)
  assume "cache_ok c"
  with BindContainer show ?thesis by (simp add: cache_ok_bind)
qed (simp_all add: cache_ok_snapshot cache_ok_remove_pod remove_pod_fields(4))

lemma cache_ok_run:
  "cache_ok c \<Longrightarrow> cache_ok (fold cache_step xs c) \<and>
                   max_containers (fold cache_step xs c) = max_containers c"
  by (induction xs arbitrary: c) (simp_all add: cache_ok_step)

definition run_cache :: "nat \<Rightarrow> cache_op list \<Rightarrow> binding_cache" where
  "run_cache n xs = fold cache_step xs (with_max_containers n)"

lemma run_cache_ok: "cache_ok (run_cache n xs) \<and> max_containers (run_cache n xs) = n"
  using cache_ok_run [OF cache_ok_new, of xs n]
  by (simp add: run_cache_def) (simp add: with_max_containers_def)

lemma snapshot_stored_order:
  "insertion_order (snapshot_stored pod c) =
   insertion_order (insert_ids (metadata pod) (listed_ids pod) (snd (remove_pod (ps_pod_uid pod) c)))"
  by (simp add: snapshot_stored_def Let_def)

text \<open>What is bound after a snapshot was listed by it or is an older binding of another pod.\<close>

lemma snapshot_lookup:
  assumes "cache_ok c" and "lookup (snd (apply_pod_snapshot pod c)) i = Some md"
  shows "i \<in> set (listed_ids pod) \<and> md = metadata pod \<or>
         lookup c i = Some md \<and> md_pod_uid md \<noteq> ps_pod_uid pod"
proof -
  obtain n c' where e: "evict_to_capacity (snapshot_stored pod c) = (n, c')" by force
  have wf: "cache_wf (snapshot_stored pod c)" using assms(1) by (simp add: cache_ok_def cache_wf_stored)
  have "lookup (snapshot_stored pod c) i = Some md"
    using assms(2) evict_to_capacity_spec [OF wf e]
    by (simp add: apply_pod_snapshot_eq e lookup_filter split: if_splits)
  then show ?thesis
    using remove_pod_unbinds [of c "ps_pod_uid pod" i md] assms(1)
    by (auto simp: snapshot_stored_lookup cache_ok_def split: if_splits)
qed

text \<open>
  The containers a snapshot adds survive its eviction: they are at the young end of the index.
\<close>

lemma snapshot_binds_fresh:
  assumes "cache_ok c" and "i \<in> set (listed_ids pod)"
    and "length (remdups (listed_ids pod)) \<le> max_containers c"
    and "\<forall>j \<in> set (listed_ids pod). lookup (snd (remove_pod (ps_pod_uid pod) c)) j = None"
  shows "lookup (snd (apply_pod_snapshot pod c)) i = Some (metadata pod)"
proof -
  let ?c1 = "snd (remove_pod (ps_pod_uid pod) c)" and ?s = "snapshot_stored pod c"
  obtain n c' where e: "evict_to_capacity ?s = (n, c')" by force
  have wf: "cache_wf ?s" using assms(1) by (simp add: cache_ok_def cache_wf_stored)
  note spec = evict_to_capacity_spec [OF wf e]
  obtain news where o: "insertion_order ?s = insertion_order ?c1 @ news"
    and news: "set news = set (listed_ids pod) - dom (lookup ?c1)"
    using insert_ids_order [of "metadata pod" "listed_ids pod" ?c1]
    unfolding snapshot_stored_order listed_ids_lower by blast
  have all: "set news = set (listed_ids pod)" using news assms(4) by auto
  have dist: "distinct news" "set (insertion_order ?c1) \<inter> set news = {}"
    using wf o by (auto simp: cache_wf_def)
  have "length news = card (set (listed_ids pod))" using dist(1) all by (metis distinct_card)
  then have len: "length news \<le> max_containers c" using assms(3) by (simp add: length_remdups_card_conv)
  have m: "max_containers ?s = max_containers c"
    by (simp add: snapshot_stored_def Let_def insert_ids_fields remove_pod_fields)
  have "n \<le> length (insertion_order ?c1)" using spec len o m by simp
  then have "take n (insertion_order ?s) = take n (insertion_order ?c1)" by (simp add: o)
  then have "i \<notin> set (take n (insertion_order ?s))"
    using dist(2) all assms(2) by (metis IntI empty_iff in_set_takeD)
  with spec assms(2) have "lookup c' i = Some (metadata pod)"
    by (simp add: lookup_filter snapshot_stored_lookup)
  then show ?thesis by (simp add: apply_pod_snapshot_eq e)
qed

section \<open>Properties\<close>

text \<open>
  whatever sequence of snapshots, deletions and lookups the cache sees, it never holds
  more than its capacity, its first-in first-out index is exactly the cached container ids
  without duplicates (no entry is left behind for a removed container), and every bound
  container is listed in the index of the pod it is bound to, so that pod's deletion or
  next snapshot removes it.
\<close>

theorem cache_consistent:
  "length (by_container_id (run_cache n xs)) \<le> n \<and> distinct (insertion_order (run_cache n xs)) \<and>
   set (insertion_order (run_cache n xs)) = dom (lookup (run_cache n xs)) \<and>
   (\<forall>i. case lookup (run_cache n xs) i of
          None \<Rightarrow> True
        | Some md \<Rightarrow> i \<in> set (the (pod_ids (run_cache n xs) (md_pod_uid md))))"
proof -
  let ?c = "run_cache n xs"
  have ok: "cache_wf ?c" "bindings_listed ?c" "length (by_container_id ?c) \<le> n"
    using run_cache_ok [of n xs] by (simp_all add: cache_ok_def)
  from ok(1) have "distinct (insertion_order ?c)" "set (insertion_order ?c) = dom (lookup ?c)"
    by (simp_all add: cache_wf_def dom_map_of_conv_image_fst)
  moreover have "case lookup ?c i of None \<Rightarrow> True
      | Some md \<Rightarrow> i \<in> set (the (pod_ids ?c (md_pod_uid md)))" for i
    using ok(2) unfolding bindings_listed_def by (cases "lookup ?c i") fastforce+
  ultimately show ?thesis using ok(3) by blast
qed

text \<open>
  after a pod's snapshot, each container it lists binds to that pod, whatever the case of
  the id, with the pod's own fields in the evidence, provided the containers fit the capacity
  and none is bound to another pod; and no other container binds to the pod any more.
\<close>

theorem snapshot_binds:
  assumes "length (remdups (listed_ids pod)) \<le> n"
    and "\<forall>j \<in> set (listed_ids pod).
           lookup (snd (remove_pod (ps_pod_uid pod) (run_cache n xs))) j = None"
  shows "(\<forall>cid. to_ascii_lowercase cid \<in> set (listed_ids pod) \<longrightarrow>
            into_runtime_binding (fst (bind_container cid prov (run_cache n (xs @ [Snapshot pod])))) =
              Bound \<lparr>bf_container_id = to_ascii_lowercase cid, bf_pod_uid = Some (ps_pod_uid pod),
                     bf_pod_name = Some (ps_pod_name pod), bf_namespace = Some (ps_namespace pod),
                     bf_service_account = ps_service_account pod,
                     bf_owner_kind = map_option wo_kind (ps_owner pod),
                     bf_owner_name = map_option wo_name (ps_owner pod),
                     bf_owner_uid = map_option wo_uid (ps_owner pod), bf_provenance = prov\<rparr>) \<and>
         (\<forall>i md. lookup (run_cache n (xs @ [Snapshot pod])) i = Some md \<longrightarrow>
            md_pod_uid md = ps_pod_uid pod \<longrightarrow> i \<in> set (listed_ids pod) \<and> md = metadata pod)"
proof -
  let ?c = "run_cache n xs" and ?c' = "run_cache n (xs @ [Snapshot pod])"
  have c': "?c' = snd (apply_pod_snapshot pod ?c)" by (simp add: run_cache_def)
  have ok: "cache_ok ?c" and max: "max_containers ?c = n" using run_cache_ok by auto
  have binds: "lookup ?c' i = Some (metadata pod)" if "i \<in> set (listed_ids pod)" for i
    unfolding c' using snapshot_binds_fresh [OF ok that _ assms(2)] assms(1) max by simp
  have only: "i \<in> set (listed_ids pod) \<and> md = metadata pod"
    if l: "lookup ?c' i = Some md" and u: "md_pod_uid md = ps_pod_uid pod" for i md
    using snapshot_lookup [OF ok l [unfolded c']] u by auto
  from binds only show ?thesis
    by (simp add: bind_container_def Let_def metadata_def)
qed

definition sample_pod :: pod_snapshot where
  "sample_pod =
     \<lparr>ps_pod_uid = ''pod-uid-1'', ps_pod_name = ''runner-1'', ps_namespace = ''default'',
      ps_service_account = Some ''builder'', ps_owner = None,
      ps_containers = [\<lparr>cs_container_id = ''containerd://'' @ sample_container_id\<rparr>,
                       \<lparr>cs_container_id = ''containerd://not-a-container''\<rparr>]\<rparr>"

lemma sample_pod_ids: "listed_ids sample_pod = [to_ascii_lowercase sample_container_id]"
  by code_simp

theorem snapshot_binds_witness:
  "fst (bind_container sample_container_id Observed (run_cache 1 ([] @ [Snapshot sample_pod]))) \<noteq>
     NotBound CacheMiss \<and>
   lookup (snd (remove_pod ''pod-uid-1'' (run_cache 1 []))) (to_ascii_lowercase sample_container_id) =
     None"
proof -
  have e: "lookup (snd (remove_pod (ps_pod_uid sample_pod) (run_cache 1 []))) j = None" for j
    by (simp add: run_cache_def with_max_containers_def remove_pod_def)
  have len: "length (remdups (listed_ids sample_pod)) \<le> 1" by (simp add: sample_pod_ids)
  from snapshot_binds [OF len, of "[]" Observed] e
  have "into_runtime_binding (fst (bind_container sample_container_id Observed
      (run_cache 1 ([] @ [Snapshot sample_pod])))) \<noteq> Unbound CacheMiss"
    by (simp add: sample_pod_ids)
  with e show ?thesis by (auto simp: sample_pod_def)
qed

end
