(* ===== verification/Pod_Watch.thy ===== *)
theory Pod_Watch
  imports Binding_Cache
begin

text \<open>
  The pod watcher that keeps the binding cache current (\<open>jalki/src/kube_watch.rs\<close>) and the
  resolver that binds a record to its container (\<open>jalki/src/enrich.rs\<close>).  The Kubernetes
  objects carry the fields the code reads.  The lemmas show that a cached binding is always
  that of the newest snapshot of a pod the API server still lists, that nothing is missing
  while the containers fit, and that a process in a pod's container binds to that pod.
\<close>

section \<open>Pods\<close>

record owner_reference =
  or_kind :: string
  or_name :: string
  or_uid :: string
  or_controller :: "bool option"

record pod_status =
  st_containers :: "string option list option"
  st_init_containers :: "string option list option"
  st_ephemeral_containers :: "string option list option"

record pod =
  po_uid :: "string option"
  po_name :: "string option"
  po_namespace :: "string option"
  po_owner_references :: "owner_reference list option"
  po_spec :: "string option option"
  po_status :: "pod_status option"

definition controlling_owner :: "pod \<Rightarrow> workload_owner option" where
  "controlling_owner p =
     (case po_owner_references p of
        None \<Rightarrow> None
      | Some refs \<Rightarrow>
          (case find (\<lambda>r. case or_controller r of None \<Rightarrow> False | Some b \<Rightarrow> b) refs of
             None \<Rightarrow> None
           | Some r \<Rightarrow>
               if or_kind r = [] \<or> or_name r = [] \<or> or_uid r = [] then None
               else Some \<lparr>wo_kind = or_kind r, wo_name = or_name r, wo_uid = or_uid r\<rparr>))"

fun with_container_id :: "string option list \<Rightarrow> container_status_snapshot list" where
  "with_container_id [] = []"
| "with_container_id (None # ss) = with_container_id ss"
| "with_container_id (Some cid # ss) = \<lparr>cs_container_id = cid\<rparr> # with_container_id ss"

definition collect_container_statuses ::
  "container_status_snapshot list \<Rightarrow> string option list option \<Rightarrow> container_status_snapshot list" where
  "collect_container_statuses out statuses =
     (case statuses of None \<Rightarrow> out | Some ss \<Rightarrow> out @ with_container_id ss)"

definition pod_to_snapshot :: "pod \<Rightarrow> pod_snapshot option" where
  "pod_to_snapshot p =
     (case (po_uid p, po_name p, po_namespace p) of
        (Some uid, Some name, Some ns) \<Rightarrow>
          Some \<lparr>ps_pod_uid = uid, ps_pod_name = name, ps_namespace = ns,
                ps_service_account = (case po_spec p of None \<Rightarrow> None | Some sa \<Rightarrow> sa),
                ps_owner = controlling_owner p,
                ps_containers =
                  (case po_status p of
                     None \<Rightarrow> []
                   | Some st \<Rightarrow>
                       collect_container_statuses
                         (collect_container_statuses
                           (collect_container_statuses [] (st_containers st))
                           (st_init_containers st))
                         (st_ephemeral_containers st))\<rparr>
      | _ \<Rightarrow> None)"

section \<open>The watcher\<close>

datatype pod_event = Init | InitApply pod | InitDone | Apply pod | Delete pod | WatchError

text \<open>The two sets are lists without duplicates.\<close>

record watcher =
  wa_cache :: binding_cache
  wa_known :: "string list"
  wa_init_seen :: "string list option"

definition new_watcher :: "nat \<Rightarrow> watcher" where
  "new_watcher n = \<lparr>wa_cache = with_max_containers n, wa_known = [], wa_init_seen = None\<rparr>"

definition apply_pod_to_cache :: "pod \<Rightarrow> binding_cache \<Rightarrow> string option \<times> binding_cache" where
  "apply_pod_to_cache p c =
     (case pod_to_snapshot p of
        None \<Rightarrow> (None, c)
      | Some snapshot \<Rightarrow> (Some (ps_pod_uid snapshot), snd (apply_pod_snapshot snapshot c)))"

definition remove_pod_from_cache :: "string \<Rightarrow> binding_cache \<Rightarrow> binding_cache" where
  "remove_pod_from_cache uid c = snd (remove_pod uid c)"

definition forget_stale :: "string list \<Rightarrow> watcher \<Rightarrow> watcher" where
  "forget_stale stale w =
     fold (\<lambda>uid w. w\<lparr>wa_cache := remove_pod_from_cache uid (wa_cache w),
                     wa_known := removeAll uid (wa_known w)\<rparr>) stale w"

fun watch_step :: "pod_event \<Rightarrow> watcher \<Rightarrow> watcher" where
  "watch_step Init w = w\<lparr>wa_init_seen := Some []\<rparr>"
| "watch_step (InitApply p) w =
     (case apply_pod_to_cache p (wa_cache w) of
        (None, c) \<Rightarrow> w\<lparr>wa_cache := c\<rparr>
      | (Some uid, c) \<Rightarrow>
          w\<lparr>wa_cache := c, wa_init_seen := map_option (List.insert uid) (wa_init_seen w),
            wa_known := List.insert uid (wa_known w)\<rparr>)"
| "watch_step InitDone w =
     (case wa_init_seen w of
        None \<Rightarrow> w
      | Some seen \<Rightarrow>
          forget_stale (filter (\<lambda>u. u \<notin> set seen) (wa_known w)) (w\<lparr>wa_init_seen := None\<rparr>))"
| "watch_step (Apply p) w =
     (case apply_pod_to_cache p (wa_cache w) of
        (None, c) \<Rightarrow> w\<lparr>wa_cache := c\<rparr>
      | (Some uid, c) \<Rightarrow> w\<lparr>wa_cache := c, wa_known := List.insert uid (wa_known w)\<rparr>)"
| "watch_step (Delete p) w =
     (case po_uid p of
        None \<Rightarrow> w
      | Some uid \<Rightarrow> w\<lparr>wa_cache := remove_pod_from_cache uid (wa_cache w),
                     wa_known := removeAll uid (wa_known w)\<rparr>)"
| "watch_step WatchError w = w"

definition run_watcher :: "nat \<Rightarrow> pod_event list \<Rightarrow> watcher" where
  "run_watcher n evs = fold watch_step evs (new_watcher n)"

section \<open>The resolver\<close>

definition cgroup_fallback_memo_max :: nat where
  "cgroup_fallback_memo_max = 8192"

text \<open>\<open>NoopEnricher\<close>.\<close>

definition noop_resolve :: "u64 \<Rightarrow> runtime_binding" where
  "noop_resolve cgroup_id = (if cgroup_id = 0 then Unbound NoCgroup else Unbound CacheMiss)"

text \<open>\<open>CachedEnricher\<close>: the roots, the shared cache, and the memo of cgroup scans.\<close>

record cached_enricher =
  en_cgroup_root :: string
  en_proc_root :: string
  en_cache :: binding_cache
  en_memo :: "(u64 \<times> container_ref option) list"

definition with_roots :: "string \<Rightarrow> string \<Rightarrow> binding_cache \<Rightarrow> cached_enricher" where
  "with_roots cgroup_dir proc_dir c =
     \<lparr>en_cgroup_root = cgroup_dir, en_proc_root = proc_dir, en_cache = c, en_memo = []\<rparr>"

definition resolve_from_cgroupfs_fallback ::
  "(string \<Rightarrow> string) \<Rightarrow> dir_node \<Rightarrow> u64 \<Rightarrow> cached_enricher \<Rightarrow>
   (unbound_reason + container_ref option) \<times> cached_enricher" where
  "resolve_from_cgroupfs_fallback lossy fs cgroup_id e =
     (case map_of (en_memo e) cgroup_id of
        Some c \<Rightarrow> (Inr c, e)
      | None \<Rightarrow>
          (let resolved =
             (case resolve_container_ref_from_cgroupfs lossy (en_cgroup_root e) fs cgroup_id of
                Inr c \<Rightarrow> Some (Some c)
              | Inl (CgroupUnbound _ _ _) \<Rightarrow> Some None
              | Inl _ \<Rightarrow> None)
           in case resolved of
                None \<Rightarrow> (Inl CacheMiss, e)
              | Some r \<Rightarrow>
                  (Inr r,
                   e\<lparr>en_memo := AList.update cgroup_id r
                       (if cgroup_fallback_memo_max \<le> length (en_memo e) then [] else en_memo e)\<rparr>)))"

definition enricher_bind ::
  "container_ref \<Rightarrow> binding_provenance \<Rightarrow> cached_enricher \<Rightarrow> runtime_binding \<times> cached_enricher" where
  "enricher_bind container prov e =
     (case bind_container (cr_id container) prov (en_cache e) of
        (b, c) \<Rightarrow> (into_runtime_binding b, e\<lparr>en_cache := c\<rparr>))"

definition resolve ::
  "(string \<Rightarrow> string + string) \<Rightarrow> (string \<Rightarrow> string) \<Rightarrow> dir_node \<Rightarrow> u64 \<Rightarrow> u32 \<Rightarrow> cached_enricher \<Rightarrow>
   runtime_binding \<times> cached_enricher" where
  "resolve read lossy fs cgroup_id pid e =
     (if cgroup_id = 0 then (Unbound NoCgroup, e)
      else (case resolve_container_ref_from_procfs read (en_proc_root e) (unat pid) of
              Inr c \<Rightarrow> enricher_bind c Observed e
            | Inl _ \<Rightarrow>
                (case resolve_from_cgroupfs_fallback lossy fs cgroup_id e of
                   (Inr (Some c), e) \<Rightarrow> enricher_bind c DerivedFromCache e
                 | (Inr None, e) \<Rightarrow> (Unbound HostProcess, e)
                 | (Inl reason, e) \<Rightarrow> (Unbound reason, e))))"

definition bind_record ::
  "(string \<Rightarrow> string + string) \<Rightarrow> (string \<Rightarrow> string) \<Rightarrow> dir_node \<Rightarrow> evidence_record \<Rightarrow>
   cached_enricher \<Rightarrow> evidence_record \<times> cached_enricher" where
  "bind_record read lossy fs r e =
     (case resolve read lossy fs (er_cgroup_id r) (er_pid r) e of
        (b, e) \<Rightarrow> (with_runtime_binding b r, e))"

section \<open>What the API server said\<close>

text \<open>
  The specification of the watcher: the newest snapshot of every pod that was applied and
  neither deleted nor missing from a completed relist.
\<close>

record pods_spec =
  sp_pods :: "string \<rightharpoonup> pod_snapshot"
  sp_seen :: "string set option"

fun spec_step :: "pod_event \<Rightarrow> pods_spec \<Rightarrow> pods_spec" where
  "spec_step Init s = s\<lparr>sp_seen := Some {}\<rparr>"
| "spec_step (InitApply p) s =
     (case pod_to_snapshot p of
        None \<Rightarrow> s
      | Some snap \<Rightarrow> s\<lparr>sp_pods := (sp_pods s)(ps_pod_uid snap \<mapsto> snap),
                      sp_seen := map_option (insert (ps_pod_uid snap)) (sp_seen s)\<rparr>)"
| "spec_step InitDone s =
     (case sp_seen s of None \<Rightarrow> s
      | Some seen \<Rightarrow> s\<lparr>sp_pods := sp_pods s |` seen, sp_seen := None\<rparr>)"
| "spec_step (Apply p) s =
     (case pod_to_snapshot p of
        None \<Rightarrow> s | Some snap \<Rightarrow> s\<lparr>sp_pods := (sp_pods s)(ps_pod_uid snap \<mapsto> snap)\<rparr>)"
| "spec_step (Delete p) s =
     (case po_uid p of None \<Rightarrow> s | Some uid \<Rightarrow> s\<lparr>sp_pods := (sp_pods s)(uid := None)\<rparr>)"
| "spec_step WatchError s = s"

definition listed_pods :: "pod_event list \<Rightarrow> pods_spec" where
  "listed_pods evs = fold spec_step evs \<lparr>sp_pods = Map.empty, sp_seen = None\<rparr>"

text \<open>A cache against the pods: what it binds and indexes comes from them.\<close>

definition cache_sound :: "binding_cache \<Rightarrow> (string \<rightharpoonup> pod_snapshot) \<Rightarrow> bool" where
  "cache_sound c pods =
     (cache_ok c \<and> (\<forall>u s. pods u = Some s \<longrightarrow> ps_pod_uid s = u) \<and>
      (\<forall>i md. lookup c i = Some md \<longrightarrow>
         (\<exists>s. pods (md_pod_uid md) = Some s \<and> md = metadata s \<and> i \<in> set (listed_ids s))) \<and>
      (\<forall>u ids. pod_ids c u = Some ids \<longrightarrow>
         (\<exists>s. pods u = Some s \<and> set ids \<subseteq> set (listed_ids s))))"

definition cache_complete :: "binding_cache \<Rightarrow> (string \<rightharpoonup> pod_snapshot) \<Rightarrow> bool" where
  "cache_complete c pods =
     (\<forall>u s i. pods u = Some s \<longrightarrow> i \<in> set (listed_ids s) \<longrightarrow> lookup c i = Some (metadata s))"

text \<open>All containers of the pods fit, and no two pods list the same one.\<close>

definition all_ids :: "(string \<rightharpoonup> pod_snapshot) \<Rightarrow> string set" where
  "all_ids pods = (\<Union>s \<in> ran pods. set (listed_ids s))"

definition pods_fit :: "nat \<Rightarrow> (string \<rightharpoonup> pod_snapshot) \<Rightarrow> bool" where
  "pods_fit n pods =
     (finite (all_ids pods) \<and> card (all_ids pods) \<le> n \<and>
      (\<forall>u s v s' i. pods u = Some s \<longrightarrow> pods v = Some s' \<longrightarrow>
         i \<in> set (listed_ids s) \<longrightarrow> i \<in> set (listed_ids s') \<longrightarrow> u = v))"

lemma all_idsI: "pods u = Some s \<Longrightarrow> i \<in> set (listed_ids s) \<Longrightarrow> i \<in> all_ids pods"
  by (auto simp: all_ids_def intro: ranI)

lemma cache_soundD:
  assumes "cache_sound c pods"
  shows "cache_ok c"
    and "pods u = Some s \<Longrightarrow> ps_pod_uid s = u"
    and "lookup c i = Some md \<Longrightarrow>
         \<exists>s. pods (md_pod_uid md) = Some s \<and> md = metadata s \<and> i \<in> set (listed_ids s)"
    and "pod_ids c u = Some ids \<Longrightarrow> \<exists>s. pods u = Some s \<and> set ids \<subseteq> set (listed_ids s)"
  using assms unfolding cache_sound_def by blast+

lemma cache_completeD:
  "cache_complete c pods \<Longrightarrow> pods u = Some s \<Longrightarrow> i \<in> set (listed_ids s) \<Longrightarrow>
   lookup c i = Some (metadata s)"
  unfolding cache_complete_def by blast

lemma pods_fit_disjoint:
  "pods_fit n pods \<Longrightarrow> pods u = Some s \<Longrightarrow> pods v = Some s' \<Longrightarrow>
   i \<in> set (listed_ids s) \<Longrightarrow> i \<in> set (listed_ids s') \<Longrightarrow> u = v"
  unfolding pods_fit_def by blast

lemma pods_fit_mono:
  assumes "pods_fit n pods" and "\<forall>u s. pods' u = Some s \<longrightarrow> pods u = Some s"
  shows "pods_fit n pods'"
proof -
  have "all_ids pods' \<subseteq> all_ids pods" using assms(2) by (fastforce simp: all_ids_def ran_def)
  with assms(1) have "finite (all_ids pods')" "card (all_ids pods') \<le> n"
    unfolding pods_fit_def by (auto intro: finite_subset dest: card_mono)
  moreover have "u = v" if "pods' u = Some s" "pods' v = Some s'" "i \<in> set (listed_ids s)"
    "i \<in> set (listed_ids s')" for u s v s' i
    using pods_fit_disjoint [OF assms(1)] that assms(2) by blast
  ultimately show ?thesis unfolding pods_fit_def by blast
qed

subsection \<open>Removing a pod\<close>

lemma sound_remove:
  assumes "cache_sound c pods"
  shows "cache_sound (snd (remove_pod uid c)) (pods(uid := None))"
proof -
  let ?c = "snd (remove_pod uid c)"
  have ok: "cache_ok ?c" using cache_soundD(1) [OF assms] by (rule cache_ok_remove_pod)
  have l: "\<exists>s. (pods(uid := None)) (md_pod_uid md) = Some s \<and> md = metadata s \<and> i \<in> set (listed_ids s)"
    if "lookup ?c i = Some md" for i md
  proof -
    have "bindings_listed c" using cache_soundD(1) [OF assms] by (simp add: cache_ok_def)
    from remove_pod_unbinds [OF this that] cache_soundD(3) [OF assms, of i md] show ?thesis by simp
  qed
  have p: "\<exists>s. (pods(uid := None)) u = Some s \<and> set ids \<subseteq> set (listed_ids s)"
    if "pod_ids ?c u = Some ids" for u ids
    using that cache_soundD(4) [OF assms, of u ids] by (simp add: pod_ids_remove_pod split: if_splits)
  have "ps_pod_uid s = u" if "(pods(uid := None)) u = Some s" for u s
    using that cache_soundD(2) [OF assms, of u s] by (simp split: if_splits)
  with ok l p show ?thesis unfolding cache_sound_def by blast
qed

lemma complete_remove:
  assumes "cache_sound c pods" and "cache_complete c pods" and "pods_fit n pods"
  shows "cache_complete (snd (remove_pod uid c)) (pods(uid := None))"
  unfolding cache_complete_def
proof (intro allI impI)
  fix u s i assume s: "(pods(uid := None)) u = Some s" and i: "i \<in> set (listed_ids s)"
  then have u: "u \<noteq> uid" "pods u = Some s" by (auto split: if_splits)
  then have "lookup c i = Some (metadata s)" using assms(2) i by (simp add: cache_complete_def)
  moreover have "i \<notin> set ids" if "pod_ids c uid = Some ids" for ids
    using cache_soundD(4) [OF assms(1) that] pods_fit_disjoint [OF assms(3) u(2) _ i] u(1) by blast
  ultimately show "lookup (snd (remove_pod uid c)) i = Some (metadata s)"
    by (simp add: lookup_remove_pod split: option.splits)
qed

subsection \<open>Applying a snapshot\<close>

lemma fold_pod_index_subset:
  "distinct (map fst pods) \<Longrightarrow> map_of (fold remove_from_pod_index gone pods) u = Some ids' \<Longrightarrow>
   \<exists>ids. map_of pods u = Some ids \<and> set ids' \<subseteq> set ids"
proof (induction gone arbitrary: pods)
  case Nil
  then show ?case by simp
next
  case (Cons g gone)
  from Cons.IH [OF distinct_pod_index [OF Cons.prems(1)]] Cons.prems(2)
  obtain ids where "map_of (remove_from_pod_index g pods) u = Some ids" "set ids' \<subseteq> set ids" by auto
  moreover from this(1) Cons.prems(1) obtain js where "map_of pods u = Some js" "set ids \<subseteq> set js"
    by (cases "map_of pods u") (auto simp: map_of_pod_index simp del: map_of_eq_Some_iff split: if_splits)
  ultimately show ?case by blast
qed

lemma snapshot_pods:
  assumes "cache_ok c" and "pod_ids (snd (apply_pod_snapshot snap c)) u = Some ids"
  shows "u = ps_pod_uid snap \<and> set ids \<subseteq> set (listed_ids snap) \<or>
         u \<noteq> ps_pod_uid snap \<and> (\<exists>ids'. pod_ids c u = Some ids' \<and> set ids \<subseteq> set ids')"
proof -
  let ?s = "snapshot_stored snap c"
  obtain n c' where e: "evict_to_capacity ?s = (n, c')" by force
  have wf: "cache_wf ?s" using assms(1) by (simp add: cache_ok_def cache_wf_stored)
  have "\<exists>ids'. pod_ids ?s u = Some ids' \<and> set ids \<subseteq> set ids'"
    using assms(2) evict_pods [OF wf e] fold_pod_index_subset [of "by_pod_uid ?s"] wf
    by (auto simp: apply_pod_snapshot_eq e cache_wf_def split: if_splits)
  then show ?thesis by (auto simp: snapshot_stored_pods split: if_splits)
qed

lemma sound_snapshot:
  assumes "cache_sound c pods"
  shows "cache_sound (snd (apply_pod_snapshot snap c)) (pods(ps_pod_uid snap \<mapsto> snap))"
proof -
  let ?c = "snd (apply_pod_snapshot snap c)" and ?pods = "pods(ps_pod_uid snap \<mapsto> snap)"
  note ok = cache_soundD(1) [OF assms]
  have l: "\<exists>s. ?pods (md_pod_uid md) = Some s \<and> md = metadata s \<and> i \<in> set (listed_ids s)"
    if "lookup ?c i = Some md" for i md
    using snapshot_lookup [OF ok that] cache_soundD(3) [OF assms, of i md] by auto
  have p: "\<exists>s. ?pods u = Some s \<and> set ids \<subseteq> set (listed_ids s)" if "pod_ids ?c u = Some ids" for u ids
    using snapshot_pods [OF ok that] cache_soundD(4) [OF assms, of u] by fastforce
  have "ps_pod_uid s = u" if "?pods u = Some s" for u s
    using that cache_soundD(2) [OF assms, of u s] by (auto split: if_splits)
  with l p cache_ok_snapshot [OF ok] show ?thesis unfolding cache_sound_def by blast
qed

lemma complete_snapshot:
  assumes "cache_sound c pods" and "cache_complete c pods" and "pods_fit n pods"
    and "pods_fit n (pods(ps_pod_uid snap \<mapsto> snap))" and "max_containers c = n"
  shows "cache_complete (snd (apply_pod_snapshot snap c)) (pods(ps_pod_uid snap \<mapsto> snap))"
proof -
  let ?u = "ps_pod_uid snap" and ?s = "snapshot_stored snap c"
  let ?pods = "pods(?u \<mapsto> snap)" and ?rest = "snd (remove_pod ?u c)"
  note ok = cache_soundD(1) [OF assms(1)]
  obtain k c' where e: "evict_to_capacity ?s = (k, c')" by force
  have wf: "cache_wf ?s" using ok by (simp add: cache_ok_def cache_wf_stored)
  note spec = evict_to_capacity_spec [OF wf e]
  have rest: "cache_complete ?rest (pods(?u := None))"
    by (rule complete_remove [OF assms(1-3)])
  have stored: "lookup ?s i = Some (metadata s)"
    if "?pods u = Some s" "i \<in> set (listed_ids s)" for u s i
  proof (cases "u = ?u")
    case True
    with that show ?thesis by (simp add: snapshot_stored_lookup)
  next
    case False
    with that have "(pods(?u := None)) u = Some s" by simp
    from cache_completeD [OF rest this that(2)] have "lookup ?rest i = Some (metadata s)" .
    moreover have "i \<notin> set (listed_ids snap)"
      using pods_fit_disjoint [OF assms(4) that(1) _ that(2), of ?u snap] False by auto
    ultimately show ?thesis by (simp add: snapshot_stored_lookup)
  qed
  have "dom (lookup ?s) \<subseteq> all_ids ?pods"
  proof
    fix i assume "i \<in> dom (lookup ?s)"
    then obtain md where i: "lookup ?s i = Some md" by blast
    show "i \<in> all_ids ?pods"
    proof (cases "i \<in> set (listed_ids snap)")
      case True
      then show ?thesis by (intro all_idsI [of ?pods ?u snap]) simp_all
    next
      case False
      with i have "lookup ?rest i = Some md" by (simp add: snapshot_stored_lookup)
      from cache_soundD(3) [OF sound_remove [OF assms(1)] this] obtain s where
        "(pods(?u := None)) (md_pod_uid md) = Some s" "i \<in> set (listed_ids s)" by blast
      then have "?pods (md_pod_uid md) = Some s" "i \<in> set (listed_ids s)"
        by (auto split: if_splits)
      then show ?thesis by (rule all_idsI)
    qed
  qed
  then have "card (dom (lookup ?s)) \<le> n"
    using assms(4) unfolding pods_fit_def by (meson card_mono le_trans)
  moreover have "card (dom (lookup ?s)) = length (insertion_order ?s)"
    using wf by (metis cache_wf_def distinct_card dom_map_of_conv_image_fst)
  moreover have "max_containers ?s = n"
    using assms(5) by (simp add: snapshot_stored_def Let_def insert_ids_fields remove_pod_fields)
  ultimately have "k = 0" using spec by simp
  then have "lookup c' i = lookup ?s i" for i using spec by simp
  then show ?thesis
    using stored by (simp add: cache_complete_def apply_pod_snapshot_eq e)
qed

subsection \<open>Events\<close>

definition watcher_sound :: "nat \<Rightarrow> watcher \<Rightarrow> pods_spec \<Rightarrow> bool" where
  "watcher_sound n w s =
     (cache_sound (wa_cache w) (sp_pods s) \<and> max_containers (wa_cache w) = n \<and>
      set (wa_known w) = dom (sp_pods s) \<and> map_option set (wa_init_seen w) = sp_seen s)"

definition restrict_away :: "string list \<Rightarrow> (string \<rightharpoonup> pod_snapshot) \<Rightarrow> (string \<rightharpoonup> pod_snapshot)" where
  "restrict_away us pods = pods |` (- set us)"

lemma restrict_away_Cons: "restrict_away (u # us) pods = restrict_away us (pods(u := None))"
  by (auto simp: restrict_away_def restrict_map_def fun_eq_iff)

lemma max_containers_remove_from_cache [simp]:
  "max_containers (remove_pod_from_cache uid c) = max_containers c"
  by (simp add: remove_pod_from_cache_def remove_pod_fields)

lemma forget_stale_sound:
  "cache_sound (wa_cache w) pods \<Longrightarrow> set (wa_known w) = dom pods \<Longrightarrow>
   cache_sound (wa_cache (forget_stale us w)) (restrict_away us pods) \<and>
   set (wa_known (forget_stale us w)) = dom (restrict_away us pods) \<and>
   max_containers (wa_cache (forget_stale us w)) = max_containers (wa_cache w) \<and>
   wa_init_seen (forget_stale us w) = wa_init_seen w"
proof (induction us arbitrary: w pods)
  case Nil
  then show ?case by (simp add: forget_stale_def restrict_away_def)
next
  case (Cons u us)
  let ?w = "w\<lparr>wa_cache := remove_pod_from_cache u (wa_cache w), wa_known := removeAll u (wa_known w)\<rparr>"
  have "cache_sound (wa_cache ?w) (pods(u := None))"
    using sound_remove [OF Cons.prems(1)] by (simp add: remove_pod_from_cache_def)
  moreover have "set (wa_known ?w) = dom (pods(u := None))" using Cons.prems(2) by auto
  ultimately have ih: "cache_sound (wa_cache (forget_stale us ?w)) (restrict_away us (pods(u := None))) \<and>
     set (wa_known (forget_stale us ?w)) = dom (restrict_away us (pods(u := None))) \<and>
     max_containers (wa_cache (forget_stale us ?w)) = max_containers (wa_cache ?w) \<and>
     wa_init_seen (forget_stale us ?w) = wa_init_seen ?w"
    by (rule Cons.IH)
  have "forget_stale (u # us) w = forget_stale us ?w" by (simp add: forget_stale_def)
  with ih show ?case by (simp add: restrict_away_Cons)
qed

lemma forget_stale_complete:
  "cache_sound (wa_cache w) pods \<Longrightarrow> cache_complete (wa_cache w) pods \<Longrightarrow> pods_fit n pods \<Longrightarrow>
   cache_complete (wa_cache (forget_stale us w)) (restrict_away us pods)"
proof (induction us arbitrary: w pods)
  case Nil
  then show ?case by (simp add: forget_stale_def restrict_away_def)
next
  case (Cons u us)
  let ?w = "w\<lparr>wa_cache := remove_pod_from_cache u (wa_cache w), wa_known := removeAll u (wa_known w)\<rparr>"
  have "cache_sound (wa_cache ?w) (pods(u := None))"
    using sound_remove [OF Cons.prems(1)] by (simp add: remove_pod_from_cache_def)
  moreover have "cache_complete (wa_cache ?w) (pods(u := None))"
    using complete_remove [OF Cons.prems] by (simp add: remove_pod_from_cache_def)
  moreover have "pods_fit n (pods(u := None))"
    using Cons.prems(3) by (rule pods_fit_mono) (simp split: if_splits)
  ultimately have "cache_complete (wa_cache (forget_stale us ?w)) (restrict_away us (pods(u := None)))"
    by (rule Cons.IH)
  then show ?case by (simp add: restrict_away_Cons) (simp add: forget_stale_def)
qed

lemma stale_restrict:
  "set known = dom pods \<Longrightarrow> restrict_away (filter (\<lambda>u. u \<notin> set seen) known) pods = pods |` set seen"
  by (auto simp: restrict_away_def restrict_map_def fun_eq_iff)

lemma watcher_sound_step:
  assumes "watcher_sound n w s"
  shows "watcher_sound n (watch_step ev w) (spec_step ev s)"
proof -
  note w = assms [unfolded watcher_sound_def]
  have ok: "cache_ok (wa_cache w)" using w cache_soundD(1) by blast
  have snap: "cache_sound (snd (apply_pod_snapshot sn (wa_cache w)))
      ((sp_pods s)(ps_pod_uid sn \<mapsto> sn)) \<and>
      max_containers (snd (apply_pod_snapshot sn (wa_cache w))) = n" for sn
    using sound_snapshot w cache_ok_snapshot [OF ok, of sn] by blast
  show ?thesis
  proof (cases ev)
    case (InitApply p)
    show ?thesis
    proof (cases "pod_to_snapshot p")
      case None
      with InitApply w show ?thesis by (simp add: apply_pod_to_cache_def watcher_sound_def)
    next
      case (Some sn)
      have "map_option set (map_option (List.insert (ps_pod_uid sn)) (wa_init_seen w)) =
          map_option (insert (ps_pod_uid sn)) (map_option set (wa_init_seen w))"
        by (simp add: option.map_comp comp_def)
      moreover have "\<dots> = map_option (insert (ps_pod_uid sn)) (sp_seen s)" using w by metis
      moreover have "set (wa_known w) = dom (sp_pods s)" using w by blast
      ultimately show ?thesis using InitApply Some snap [of sn]
        by (simp add: apply_pod_to_cache_def watcher_sound_def)
    qed
  next
    case (Apply p)
    show ?thesis
    proof (cases "pod_to_snapshot p")
      case None
      with Apply w show ?thesis by (simp add: apply_pod_to_cache_def watcher_sound_def)
    next
      case (Some sn)
      with Apply w snap [of sn] show ?thesis by (simp add: apply_pod_to_cache_def watcher_sound_def)
    qed
  next
    case InitDone
    show ?thesis
    proof (cases "wa_init_seen w")
      case None
      with InitDone assms show ?thesis by (auto simp: watcher_sound_def)
    next
      case (Some seen)
      let ?w = "w\<lparr>wa_init_seen := None\<rparr>"
      have "cache_sound (wa_cache ?w) (sp_pods s)" "set (wa_known ?w) = dom (sp_pods s)"
        using w by simp_all
      note f = forget_stale_sound [OF this, of "filter (\<lambda>u. u \<notin> set seen) (wa_known w)"]
      have "restrict_away (filter (\<lambda>u. u \<notin> set seen) (wa_known w)) (sp_pods s) = sp_pods s |` set seen"
        using w by (intro stale_restrict) simp
      moreover have "sp_seen s = Some (set seen)" using w Some by auto
      ultimately show ?thesis using f w InitDone Some by (simp add: watcher_sound_def)
    qed
  next
    case (Delete p)
    show ?thesis
    proof (cases "po_uid p")
      case None
      with Delete assms show ?thesis by simp
    next
      case (Some uid)
      have "cache_sound (wa_cache w) (sp_pods s)" using w by blast
      from sound_remove [OF this, of uid] have
        "cache_sound (remove_pod_from_cache uid (wa_cache w)) ((sp_pods s)(uid := None))"
        by (simp add: remove_pod_from_cache_def)
      with Delete Some w show ?thesis by (auto simp: watcher_sound_def)
    qed
  qed (use w in \<open>simp_all add: watcher_sound_def\<close>)
qed

lemma watcher_sound_run: "watcher_sound n (run_watcher n evs) (listed_pods evs)"
proof (induction evs rule: rev_induct)
  case Nil
  show ?case
    by (simp add: run_watcher_def listed_pods_def new_watcher_def watcher_sound_def cache_sound_def
        cache_ok_new) (simp add: with_max_containers_def)
next
  case (snoc ev evs)
  from watcher_sound_step [OF this, of ev] show ?case
    by (simp add: run_watcher_def listed_pods_def)
qed

lemma watcher_complete_step:
  assumes "watcher_sound n w s" and "cache_complete (wa_cache w) (sp_pods s)"
    and "pods_fit n (sp_pods s)" and "pods_fit n (sp_pods (spec_step ev s))"
  shows "cache_complete (wa_cache (watch_step ev w)) (sp_pods (spec_step ev s))"
proof -
  note w = assms(1) [unfolded watcher_sound_def]
  have cs: "cache_sound (wa_cache w) (sp_pods s)" and max: "max_containers (wa_cache w) = n"
    using w by blast+
  note snap = complete_snapshot [OF cs assms(2,3) _ max]
  show ?thesis
  proof (cases ev)
    case (InitApply p)
    with snap assms(2,4) show ?thesis
      by (cases "pod_to_snapshot p") (simp_all add: apply_pod_to_cache_def)
  next
    case (Apply p)
    with snap assms(2,4) show ?thesis
      by (cases "pod_to_snapshot p") (simp_all add: apply_pod_to_cache_def)
  next
    case InitDone
    show ?thesis
    proof (cases "wa_init_seen w")
      case None
      with w InitDone assms(2) show ?thesis by auto
    next
      case (Some seen)
      let ?w = "w\<lparr>wa_init_seen := None\<rparr>"
      have "cache_sound (wa_cache ?w) (sp_pods s)" "cache_complete (wa_cache ?w) (sp_pods s)"
        using cs assms(2) by simp_all
      note f = forget_stale_complete [OF this assms(3), of "filter (\<lambda>u. u \<notin> set seen) (wa_known w)"]
      have "restrict_away (filter (\<lambda>u. u \<notin> set seen) (wa_known w)) (sp_pods s) = sp_pods s |` set seen"
        using w by (intro stale_restrict) simp
      moreover have "sp_seen s = Some (set seen)" using w Some by auto
      ultimately show ?thesis using f InitDone Some by simp
    qed
  next
    case (Delete p)
    with complete_remove [OF cs assms(2,3)] assms(2) show ?thesis
      by (cases "po_uid p") (simp_all add: remove_pod_from_cache_def)
  qed (use assms(2) in simp_all)
qed

lemma watcher_complete_run:
  "\<forall>k \<le> length evs. pods_fit n (sp_pods (listed_pods (take k evs))) \<Longrightarrow>
   cache_complete (wa_cache (run_watcher n evs)) (sp_pods (listed_pods evs))"
proof (induction evs rule: rev_induct)
  case Nil
  show ?case by (simp add: cache_complete_def listed_pods_def)
next
  case (snoc ev evs)
  have prefix: "pods_fit n (sp_pods (listed_pods (take k evs)))" if "k \<le> length evs" for k
    using snoc.prems that by (auto dest: spec [of _ k])
  have "pods_fit n (sp_pods (listed_pods evs))" using prefix [of "length evs"] by simp
  moreover have "pods_fit n (sp_pods (listed_pods (evs @ [ev])))"
    using snoc.prems [rule_format, of "Suc (length evs)"] by simp
  ultimately show ?case
    using watcher_complete_step [OF watcher_sound_run [of n evs] snoc.IH, of ev] prefix
    by (simp add: run_watcher_def listed_pods_def)
qed

section \<open>The memo of cgroup scans\<close>

definition scan_answer ::
  "(string \<Rightarrow> string) \<Rightarrow> string \<Rightarrow> dir_node \<Rightarrow> u64 \<Rightarrow> unbound_reason + container_ref option" where
  "scan_answer lossy dir fs cgroup_id =
     (case resolve_container_ref_from_cgroupfs lossy dir fs cgroup_id of
        Inr c \<Rightarrow> Inr (Some c)
      | Inl (CgroupUnbound _ _ _) \<Rightarrow> Inr None
      | Inl _ \<Rightarrow> Inl CacheMiss)"

definition memo_ok :: "(string \<Rightarrow> string) \<Rightarrow> dir_node \<Rightarrow> cached_enricher \<Rightarrow> bool" where
  "memo_ok lossy fs e =
     (length (en_memo e) \<le> cgroup_fallback_memo_max \<and>
      (\<forall>k r. map_of (en_memo e) k = Some r \<longrightarrow> scan_answer lossy (en_cgroup_root e) fs k = Inr r))"

lemma length_update_le: "length (AList.update k v xs) \<le> Suc (length xs)"
  by (induction xs) auto

lemma fallback_cases:
  obtains (hit) r where "map_of (en_memo e) k = Some r"
      "resolve_from_cgroupfs_fallback lossy fs k e = (Inr r, e)"
  | (scan) r where "map_of (en_memo e) k = None" "scan_answer lossy (en_cgroup_root e) fs k = Inr r"
      "resolve_from_cgroupfs_fallback lossy fs k e =
       (Inr r, e\<lparr>en_memo := AList.update k r
          (if cgroup_fallback_memo_max \<le> length (en_memo e) then [] else en_memo e)\<rparr>)"
  | (miss) "map_of (en_memo e) k = None" "scan_answer lossy (en_cgroup_root e) fs k = Inl CacheMiss"
      "resolve_from_cgroupfs_fallback lossy fs k e = (Inl CacheMiss, e)"
proof (cases "map_of (en_memo e) k")
  case None
  note defs = resolve_from_cgroupfs_fallback_def scan_answer_def Let_def
  show thesis
  proof (cases "resolve_container_ref_from_cgroupfs lossy (en_cgroup_root e) fs k")
    case (Inr c)
    with None scan show thesis by (simp add: defs)
  next
    case (Inl err)
    with None scan miss show thesis by (cases err) (simp_all add: defs)
  qed
next
  case (Some r)
  with hit show thesis by (simp add: resolve_from_cgroupfs_fallback_def)
qed

lemma memo_ok_step:
  assumes "memo_ok lossy fs e"
  shows "fst (resolve_from_cgroupfs_fallback lossy fs k e) = scan_answer lossy (en_cgroup_root e) fs k \<and>
         memo_ok lossy fs (snd (resolve_from_cgroupfs_fallback lossy fs k e)) \<and>
         en_cgroup_root (snd (resolve_from_cgroupfs_fallback lossy fs k e)) = en_cgroup_root e"
proof (cases rule: fallback_cases [of e k lossy fs])
  case (hit r)
  with assms show ?thesis by (simp add: memo_ok_def del: map_of_eq_Some_iff)
next
  case (scan r)
  let ?m = "if cgroup_fallback_memo_max \<le> length (en_memo e) then [] else en_memo e"
  have "length (AList.update k r ?m) \<le> cgroup_fallback_memo_max"
    using length_update_le [of k r "en_memo e"] length_update_le [of k r "[]"]
    by (auto simp: cgroup_fallback_memo_max_def)
  moreover have "scan_answer lossy (en_cgroup_root e) fs j = Inr x"
    if "map_of (AList.update k r ?m) j = Some x" for j x
    using that assms scan(2) by (auto simp: update_conv' memo_ok_def split: if_splits)
  ultimately show ?thesis using scan by (simp add: memo_ok_def)
next
  case miss
  with assms show ?thesis by simp
qed

fun fallback_run ::
  "(string \<Rightarrow> string) \<Rightarrow> dir_node \<Rightarrow> u64 list \<Rightarrow> cached_enricher \<Rightarrow>
   (unbound_reason + container_ref option) list \<times> cached_enricher" where
  "fallback_run lossy fs [] e = ([], e)"
| "fallback_run lossy fs (k # ks) e =
     (case resolve_from_cgroupfs_fallback lossy fs k e of
        (r, e) \<Rightarrow> (case fallback_run lossy fs ks e of (rs, e) \<Rightarrow> (r # rs, e)))"

lemma fallback_run_ok:
  "memo_ok lossy fs e \<Longrightarrow>
   fst (fallback_run lossy fs ks e) = map (scan_answer lossy (en_cgroup_root e) fs) ks \<and>
   memo_ok lossy fs (snd (fallback_run lossy fs ks e))"
proof (induction ks arbitrary: e)
  case (Cons k ks)
  obtain r e1 where k: "resolve_from_cgroupfs_fallback lossy fs k e = (r, e1)" by force
  obtain rs e2 where ks: "fallback_run lossy fs ks e1 = (rs, e2)" by force
  from memo_ok_step [OF Cons.prems, of k] k
  have "r = scan_answer lossy (en_cgroup_root e) fs k" "memo_ok lossy fs e1"
    "en_cgroup_root e1 = en_cgroup_root e" by simp_all
  with Cons.IH [of e1] k ks show ?case by simp
qed simp

section \<open>Properties\<close>

text \<open>
  the cache never serves a stale identity.  After any sequence of watch events, whatever
  container is bound is bound to a pod the API server last said exists (applied, not deleted,
  not missing from a completed relist), with exactly the fields of that pod's newest snapshot,
  and that snapshot lists the container; and the cache stays within its capacity.
\<close>

theorem no_stale_binding:
  "length (by_container_id (wa_cache (run_watcher n evs))) \<le> n \<and>
   (\<forall>(i, md) \<in> set (by_container_id (wa_cache (run_watcher n evs))).
      case sp_pods (listed_pods evs) (md_pod_uid md) of
        None \<Rightarrow> False
      | Some s \<Rightarrow> md = metadata s \<and> i \<in> set (listed_ids s))"
proof -
  let ?c = "wa_cache (run_watcher n evs)"
  have s: "cache_sound ?c (sp_pods (listed_pods evs))" and m: "max_containers ?c = n"
    using watcher_sound_run [of n evs] by (simp_all add: watcher_sound_def)
  have "cache_ok ?c" by (rule cache_soundD(1) [OF s])
  then have len: "length (by_container_id ?c) \<le> n" and d: "distinct (map fst (by_container_id ?c))"
    using m by (simp_all add: cache_ok_def cache_wf_def)
  have "case sp_pods (listed_pods evs) (md_pod_uid md) of None \<Rightarrow> False
      | Some s \<Rightarrow> md = metadata s \<and> i \<in> set (listed_ids s)"
    if "(i, md) \<in> set (by_container_id ?c)" for i md
  proof -
    have "lookup ?c i = Some md" using d that by (rule map_of_is_SomeI)
    from cache_soundD(3) [OF s this] show ?thesis by auto
  qed
  with len show ?thesis by blast
qed

definition sample_k8s_pod :: pod where
  "sample_k8s_pod =
     \<lparr>po_uid = Some ''pod-uid-1'', po_name = Some ''runner-1'', po_namespace = Some ''default'',
      po_owner_references = None, po_spec = Some (Some ''builder''),
      po_status = Some \<lparr>st_containers = Some [Some (''containerd://'' @ sample_container_id),
                                             Some ''containerd://not-a-container''],
                        st_init_containers = None, st_ephemeral_containers = Some [None]\<rparr>\<rparr>"

lemma sample_k8s_snapshot: "pod_to_snapshot sample_k8s_pod = Some sample_pod"
  by (simp add: sample_k8s_pod_def pod_to_snapshot_def sample_pod_def
      collect_container_statuses_def controlling_owner_def)

definition sample_events :: "pod_event list" where
  "sample_events = [Init, InitApply sample_k8s_pod, InitDone]"

lemma sample_listed: "sp_pods (listed_pods sample_events) = [''pod-uid-1'' \<mapsto> sample_pod]"
  by (simp add: sample_events_def listed_pods_def sample_k8s_snapshot)
     (auto simp: sample_pod_def restrict_map_def fun_eq_iff)

lemma sample_single_fit: "pods_fit 1 [u \<mapsto> sample_pod]"
  by (simp add: pods_fit_def all_ids_def sample_pod_ids)

lemma sample_fit:
  "\<forall>k \<le> length sample_events. pods_fit 1 (sp_pods (listed_pods (take k sample_events)))"
proof (intro allI impI)
  fix k assume "k \<le> length sample_events"
  then have "k = 0 \<or> k = 1 \<or> k = 2 \<or> k = 3" by (auto simp: sample_events_def)
  moreover have "pods_fit 1 Map.empty" by (simp add: pods_fit_def all_ids_def)
  moreover have "sp_pods (listed_pods (take 2 sample_events)) = [''pod-uid-1'' \<mapsto> sample_pod]"
    by (simp add: sample_events_def listed_pods_def sample_k8s_snapshot) (simp add: sample_pod_def)
  moreover have "take 3 sample_events = sample_events" by (simp add: sample_events_def)
  moreover have "sp_pods (listed_pods (take 0 sample_events)) = Map.empty"
    "sp_pods (listed_pods (take 1 sample_events)) = Map.empty"
    by (simp_all add: sample_events_def listed_pods_def)
  ultimately show "pods_fit 1 (sp_pods (listed_pods (take k sample_events)))"
    using sample_listed sample_single_fit by fastforce
qed

theorem no_stale_binding_witness:
  "length (by_container_id (wa_cache (run_watcher 1 sample_events))) \<le> 1 \<and>
   set (by_container_id (wa_cache (run_watcher 1 sample_events))) \<subseteq>
     {(i, md). md_pod_uid md = ''pod-uid-1'' \<and> i = to_ascii_lowercase sample_container_id}"
proof -
  have "md_pod_uid md = ''pod-uid-1'' \<and> i = to_ascii_lowercase sample_container_id"
    if "(i, md) \<in> set (by_container_id (wa_cache (run_watcher 1 sample_events)))" for i md
    using conjunct2 [OF no_stale_binding [of 1 sample_events], THEN bspec, OF that]
    by (simp add: sample_listed sample_pod_ids split: if_splits)
  with conjunct1 [OF no_stale_binding [of 1 sample_events]] show ?thesis by blast
qed

text \<open>
  C31: while the containers of the listed pods fit the capacity and no two pods list the same
  container, the cache is exactly the map the API server's state describes: an id is bound to
  a pod's fields precisely when that pod's newest snapshot lists it.
\<close>

theorem watcher_refines_pods:
  assumes "\<forall>k \<le> length evs. pods_fit n (sp_pods (listed_pods (take k evs)))"
  shows "lookup (wa_cache (run_watcher n evs)) i = Some md \<longleftrightarrow>
         (\<exists>u s. sp_pods (listed_pods evs) u = Some s \<and> i \<in> set (listed_ids s) \<and> md = metadata s)"
proof
  assume l: "lookup (wa_cache (run_watcher n evs)) i = Some md"
  have "cache_sound (wa_cache (run_watcher n evs)) (sp_pods (listed_pods evs))"
    using watcher_sound_run [of n evs] by (simp add: watcher_sound_def)
  from cache_soundD(3) [OF this l]
  show "\<exists>u s. sp_pods (listed_pods evs) u = Some s \<and> i \<in> set (listed_ids s) \<and> md = metadata s"
    by blast
next
  assume "\<exists>u s. sp_pods (listed_pods evs) u = Some s \<and> i \<in> set (listed_ids s) \<and> md = metadata s"
  then show "lookup (wa_cache (run_watcher n evs)) i = Some md"
    using cache_completeD [OF watcher_complete_run [OF assms]] by blast
qed

theorem watcher_refines_pods_witness:
  "lookup (wa_cache (run_watcher 1 sample_events)) (to_ascii_lowercase sample_container_id) =
   Some (metadata sample_pod)"
proof -
  have "sp_pods (listed_pods sample_events) ''pod-uid-1'' = Some sample_pod"
    by (simp add: sample_listed)
  moreover have "to_ascii_lowercase sample_container_id \<in> set (listed_ids sample_pod)"
    by (simp add: sample_pod_ids)
  ultimately show ?thesis using watcher_refines_pods [OF sample_fit] by blast
qed


definition sample_process_record :: evidence_record where
  "sample_process_record =
     \<lparr>observed_at_ns = 9, er_pid = 1234, er_cgroup_id = 7,
      er_probe = \<lparr>pr_probe_id = ''process_exec'', pr_probe_version = ''1'',
                  pr_probe_family = ''process'', pr_hook_kind = Tracepoint,
                  pr_kernel_function = ''sched_process_exec''\<rparr>,
      er_occurrence = new_occurrence 1 0 ''jalki/agent'' ''kernel.process.exec'', er_binding = None\<rparr>"

definition sample_proc_read :: "string \<Rightarrow> string + string" where
  "sample_proc_read path =
     (if path = ''/proc/1234/cgroup''
      then Inr (''0::/kubepods.slice/cri-containerd-'' @ sample_container_id @ ''.scope'')
      else Inl ''not found'')"

lemma sample_proc_resolves:
  "resolve_container_ref_from_procfs sample_proc_read ''/proc'' 1234 =
   Inr \<lparr>cr_runtime = Containerd, cr_id = to_ascii_lowercase sample_container_id\<rparr>"
  by code_simp


text \<open>
  the memo of cgroup scans is transparent and bounded: while the cgroup tree stays the
  same, any sequence of fallback resolutions answers what the scan itself would answer each
  time, and the memo never exceeds its limit.
\<close>

theorem memo_transparent:
  "fst (fallback_run lossy fs ks (with_roots cgroup_dir proc_dir c)) =
     map (scan_answer lossy cgroup_dir fs) ks \<and>
   length (en_memo (snd (fallback_run lossy fs ks (with_roots cgroup_dir proc_dir c)))) \<le>
     cgroup_fallback_memo_max"
proof -
  have "memo_ok lossy fs (with_roots cgroup_dir proc_dir c)"
    by (simp add: memo_ok_def with_roots_def)
  from fallback_run_ok [OF this, of ks] show ?thesis by (simp add: memo_ok_def with_roots_def)
qed

end
