(* ===== verification/Sink_Loop.thy ===== *)
theory Sink_Loop
  imports Sink_Queue Spool
begin

text \<open>
  The sink loop (\<open>run_sink_loop\<close> and its helpers in \<open>jalki/src/runtime.rs\<close>): what it does
  with a message from the reader queue, what it does when the retry timer fires, how it starts
  from the spool and how it drains at shutdown.  The sink is the parameter \<open>le_append\<close> on a
  world \<open>'w\<close>; ids, the wall clock, the JSON array of a gap report, the serializer of the
  spool and the jitter's hasher are the other parameters.  Deadlines and \<open>now_ms\<close> are
  milliseconds since \<open>retry_clock_start\<close>.  Log lines and the binding-cache gauges are left
  out.
\<close>

section \<open>State\<close>

record pending_gaps =
  in_flight :: "evidence_batch option"
  queued_gaps :: "gap_report list"

definition no_gaps :: pending_gaps where
  "no_gaps = \<lparr>in_flight = None, queued_gaps = []\<rparr>"

definition merge_gap :: "gap_report \<Rightarrow> pending_gaps \<Rightarrow> pending_gaps" where
  "merge_gap g pg = pg\<lparr>queued_gaps := merge_by_cause (queued_gaps pg) g\<rparr>"

definition extend_gaps :: "gap_report list \<Rightarrow> pending_gaps \<Rightarrow> pending_gaps" where
  "extend_gaps gs pg = fold merge_gap gs pg"

definition front_gap ::
  "(gap_report \<Rightarrow> evidence_batch) \<Rightarrow> pending_gaps \<Rightarrow> evidence_batch option \<times> pending_gaps" where
  "front_gap into_batch pg =
     (let pg = (if in_flight pg = None \<and> queued_gaps pg \<noteq> []
                then pg\<lparr>in_flight := Some (into_batch (hd (queued_gaps pg))),
                        queued_gaps := tl (queued_gaps pg)\<rparr>
                else pg)
      in (in_flight pg, pg))"

definition pop_gap :: "pending_gaps \<Rightarrow> pending_gaps" where
  "pop_gap pg = pg\<lparr>in_flight := None\<rparr>"

definition gaps_empty :: "pending_gaps \<Rightarrow> bool" where
  "gaps_empty pg = (in_flight pg = None \<and> queued_gaps pg = [])"

definition gaps_len :: "pending_gaps \<Rightarrow> nat" where
  "gaps_len pg = (if in_flight pg = None then 0 else 1) + length (queued_gaps pg)"

text \<open>The gauges and the counter the loop writes.\<close>

record loop_metrics =
  lm_sink_errors :: nat
  lm_memory_usage_ratio :: real
  lm_memory_ceiling_no_shed :: bool
  lm_queued_batches :: nat
  lm_queued_records :: nat
  lm_queued_bytes :: nat
  lm_oldest_age_seconds :: real
  lm_spool_bytes :: nat

definition zero_metrics :: loop_metrics where
  "zero_metrics =
     \<lparr>lm_sink_errors = 0, lm_memory_usage_ratio = 0, lm_memory_ceiling_no_shed = False,
      lm_queued_batches = 0, lm_queued_records = 0, lm_queued_bytes = 0,
      lm_oldest_age_seconds = 0, lm_spool_bytes = 0\<rparr>"

text \<open>
  What became of a batch the sink has answered for good: evidence it took, gap evidence it
  took, gap evidence it refused for good.  The list of outcomes is a history: nothing the loop
  decides depends on it.
\<close>

datatype loop_outcome =
  Delivered evidence_batch | GapDelivered evidence_batch | GapAbandoned evidence_batch

text \<open>
  What surrounds the loop.  \<open>le_limit\<close> is \<open>None\<close> when no memory limit could be established;
  ids are drawn in order, the \<open>n\<close>-th being \<open>le_id n\<close>.
\<close>

record 'w loop_env =
  le_append :: "evidence_batch \<Rightarrow> 'w \<Rightarrow> (sink_error + append_result) \<times> 'w"
  le_sizes :: heap_sizes
  le_hash :: "u64 \<Rightarrow> u64"
  le_json :: "string list \<Rightarrow> string"
  le_producer :: producer_metadata
  le_id :: "nat \<Rightarrow> string"
  le_ulid :: "nat \<Rightarrow> ulid"
  le_wall_clock :: "nat \<Rightarrow> int"
  le_to_vec :: "evidence_batch \<Rightarrow> string + u8 list"
  le_limit :: "nat option"
  le_high_watermark :: real

record 'w sink_loop =
  sl_sink :: 'w
  sl_queue :: sink_queue
  sl_retry :: retry_buffer
  sl_backoff :: retry_backoff
  sl_pacer :: drain_pacer
  sl_gaps :: pending_gaps
  sl_ceiling :: bool
  sl_spool :: "spool option"
  sl_disk :: disk
  sl_next_retry :: "nat option"
  sl_metrics :: loop_metrics
  sl_fresh :: nat
  sl_outcomes :: "loop_outcome list"

text \<open>
  One pass through an arm of the \<open>select!\<close>: the clock when it starts and when it schedules
  the next retry, the memory in use as read from the cgroup (\<open>None\<close>: the file is gone), and
  the operating system's answers to the spool's calls.
\<close>

record pass =
  ps_now :: nat
  ps_later :: nat
  ps_memory :: "nat option"
  ps_io :: io_plan

section \<open>Memory pressure\<close>

definition default_memory_high_watermark :: real where
  "default_memory_high_watermark = 8 / 10"

definition memory_shed_fraction :: real where
  "memory_shed_fraction = 1 / 2"

definition queue_pressure_release_margin :: real where
  "queue_pressure_release_margin = 5 / 100"

text \<open>\<open>parse_f64\<close> is \<open>str::parse::<f64>\<close>.\<close>

definition memory_high_watermark :: "(string \<Rightarrow> real option) \<Rightarrow> (string \<rightharpoonup> string) \<Rightarrow> real" where
  "memory_high_watermark parse_f64 env =
     (case env ''JALKI_MEMORY_HIGH_WATERMARK'' of
        None \<Rightarrow> default_memory_high_watermark
      | Some v \<Rightarrow>
          (case parse_f64 (trim v) of
             None \<Rightarrow> default_memory_high_watermark
           | Some x \<Rightarrow> if 0 < x \<and> x \<le> 1 then x else default_memory_high_watermark))"

definition memory_ratio :: "nat \<Rightarrow> nat option \<Rightarrow> real option" where
  "memory_ratio limit current = map_option (\<lambda>c. real c / real limit) current"

definition queue_pressured :: "real \<Rightarrow> real \<Rightarrow> bool \<Rightarrow> bool" where
  "queue_pressured high ratio already =
     (let release_at = high - min queue_pressure_release_margin (high / 2)
      in if already then release_at \<le> ratio else high \<le> ratio)"

definition shed_under_memory_pressure ::
  "nat \<Rightarrow> real \<Rightarrow> nat option \<Rightarrow> 'w sink_loop \<Rightarrow> 'w sink_loop" where
  "shed_under_memory_pressure limit high current st =
     (case memory_ratio limit current of
        None \<Rightarrow> st
      | Some ratio \<Rightarrow>
          (let m = (sl_metrics st)\<lparr>lm_memory_usage_ratio := ratio\<rparr>;
               q = snd (set_memory_pressure
                     (queue_pressured high ratio (sq_under_pressure (sl_queue st))) (sl_queue st));
               queue_excess = sq_bytes q - sq_pressure_max_bytes q;
               freeable = sat_add (rt_bytes (sl_retry st)) queue_excess;
               buffer_fraction = real freeable / real limit;
               doomed = (high \<le> ratio \<and> high \<le> ratio - buffer_fraction);
               st = st\<lparr>sl_metrics := m\<lparr>lm_memory_ceiling_no_shed := doomed\<rparr>, sl_queue := q,
                       sl_ceiling := doomed\<rparr>
           in if ratio < high \<or> rt_batches (sl_retry st) = [] then st
              else (let target = nat \<lfloor>real (rt_bytes (sl_retry st)) * memory_shed_fraction\<rfloor>;
                        (gaps, rb) = shed_to target (sl_retry st)
                    in st\<lparr>sl_retry := rb, sl_gaps := extend_gaps gaps (sl_gaps st)\<rparr>)))"

section \<open>Scheduling\<close>

definition has_backlog :: "'w sink_loop \<Rightarrow> bool" where
  "has_backlog st = (rt_batches (sl_retry st) \<noteq> [] \<or> \<not> gaps_empty (sl_gaps st))"

definition backlog_len :: "'w sink_loop \<Rightarrow> nat" where
  "backlog_len st = length (rt_batches (sl_retry st)) + gaps_len (sl_gaps st)"

definition schedule_retry ::
  "(u64 \<Rightarrow> u64) \<Rightarrow> nat \<Rightarrow> nat option \<Rightarrow> 'w sink_loop \<Rightarrow> 'w sink_loop" where
  "schedule_retry hash later current st =
     (if \<not> has_backlog st
      then st\<lparr>sl_backoff := reset_backoff (sl_backoff st), sl_next_retry := None\<rparr>
      else (case current of
              Some deadline \<Rightarrow> st\<lparr>sl_next_retry := Some deadline\<rparr>
            | None \<Rightarrow>
                (case next_delay_ms hash (sl_backoff st) of
                   (delay, b) \<Rightarrow> st\<lparr>sl_backoff := b, sl_next_retry := Some (later + delay)\<rparr>)))"

section \<open>Helpers\<close>

fun terminal_gap_cause :: "sink_error \<Rightarrow> string" where
  "terminal_gap_cause (SInvalidRecord _ _) = ''sink_invalid_record''"
| "terminal_gap_cause (SRejected _ _) = ''sink_rejected''"
| "terminal_gap_cause (SUnauthorized _ _) = ''sink_unauthorized''"
| "terminal_gap_cause (SMisconfigured _ _) = ''sink_misconfigured''"
| "terminal_gap_cause (SPartialFailure _ _ _ _) = ''sink_partial_failure''"
| "terminal_gap_cause (SUnsupported _ _) = ''sink_unsupported''"
| "terminal_gap_cause (SUnavailable _ _) = ''sink_retryable_failure''"
| "terminal_gap_cause (STimeout _ _) = ''sink_retryable_failure''"
| "terminal_gap_cause (SBackpressure _ _) = ''sink_retryable_failure''"

definition record_sink_error :: "'w sink_loop \<Rightarrow> 'w sink_loop" where
  "record_sink_error st =
     st\<lparr>sl_metrics := (sl_metrics st)\<lparr>lm_sink_errors := lm_sink_errors (sl_metrics st) + 1\<rparr>\<rparr>"

definition send_batch ::
  "'w loop_env \<Rightarrow> evidence_batch \<Rightarrow> 'w sink_loop \<Rightarrow> (sink_error + append_result) \<times> 'w sink_loop" where
  "send_batch env b st =
     (case le_append env b (sl_sink st) of (r, w) \<Rightarrow> (r, st\<lparr>sl_sink := w\<rparr>))"

definition gap_batch :: "'w loop_env \<Rightarrow> nat \<Rightarrow> gap_report \<Rightarrow> evidence_batch" where
  "gap_batch env i g =
     gap_into_batch (le_json env) (le_ulid env i) (le_wall_clock env i) (le_id env i)
       (le_producer env) g"

text \<open>\<open>pending_gaps.extend(retry_buffer.enqueue(batch, now_ms))\<close>\<close>

definition buffer_batch ::
  "'w loop_env \<Rightarrow> nat \<Rightarrow> evidence_batch \<Rightarrow> 'w sink_loop \<Rightarrow> 'w sink_loop" where
  "buffer_batch env now b st =
     (case enqueue (le_sizes env) (\<lambda>k. le_id env (sl_fresh st + k)) b now (sl_retry st) of
        (gaps, rb) \<Rightarrow>
          st\<lparr>sl_retry := rb, sl_gaps := extend_gaps gaps (sl_gaps st), sl_fresh := sl_fresh st + 2\<rparr>)"

text \<open>\<open>pending_gaps.extend(retry_buffer.drop_expired(now_ms))\<close>\<close>

definition age_out :: "nat \<Rightarrow> 'w sink_loop \<Rightarrow> 'w sink_loop" where
  "age_out now st =
     (case drop_expired now (sl_retry st) of
        (gaps, rb) \<Rightarrow> st\<lparr>sl_retry := rb, sl_gaps := extend_gaps gaps (sl_gaps st)\<rparr>)"

definition sync_spool :: "'w loop_env \<Rightarrow> io_plan \<Rightarrow> 'w sink_loop \<Rightarrow> 'w sink_loop" where
  "sync_spool env io st =
     (case sl_spool st of
        None \<Rightarrow> st
      | Some s \<Rightarrow>
          if sp_disabled s \<noteq> None then st
          else (case compact (le_to_vec env) io (iter_batches (sl_retry st)) s (sl_disk st) of
                  (ok, s', d) \<Rightarrow>
                    st\<lparr>sl_spool := Some s', sl_disk := d,
                       sl_metrics := (sl_metrics st)\<lparr>lm_spool_bytes := sp_file_bytes s'\<rparr>\<rparr>))"

definition publish_backlog_metrics :: "nat \<Rightarrow> 'w sink_loop \<Rightarrow> 'w sink_loop" where
  "publish_backlog_metrics now st =
     st\<lparr>sl_metrics := (sl_metrics st)
         \<lparr>lm_queued_batches := length (rt_batches (sl_retry st)),
          lm_queued_records := rt_records (sl_retry st),
          lm_queued_bytes := rt_bytes (sl_retry st),
          lm_oldest_age_seconds :=
            (case oldest_age_ms now (sl_retry st) of None \<Rightarrow> 0 | Some ms \<Rightarrow> real ms / 1000)\<rparr>\<rparr>"

section \<open>Draining\<close>

datatype drain_outcome = Empty | Paced nat | SinkRefused

text \<open>The gap report to send next, an id drawn for it.\<close>

definition next_gap :: "'w loop_env \<Rightarrow> 'w sink_loop \<Rightarrow> evidence_batch option \<times> 'w sink_loop" where
  "next_gap env st =
     (case front_gap (gap_batch env (sl_fresh st)) (sl_gaps st) of
        (b, pg) \<Rightarrow> (b, st\<lparr>sl_gaps := pg, sl_fresh := sl_fresh st + 1\<rparr>))"

definition poll_batch :: "'w loop_env \<Rightarrow> nat \<Rightarrow> evidence_batch \<Rightarrow> 'w sink_loop \<Rightarrow> pace \<times> 'w sink_loop" where
  "poll_batch env now b st =
     (case poll now (approx_bytes (le_sizes env) b) (sl_pacer st) of
        (p, pacer) \<Rightarrow> (p, st\<lparr>sl_pacer := pacer\<rparr>))"

text \<open>What a refusal does to the pacer and the error counter.\<close>

definition note_refusal :: "sink_error \<Rightarrow> 'w sink_loop \<Rightarrow> 'w sink_loop" where
  "note_refusal err st =
     record_sink_error
       (case err of
          SBackpressure _ _ \<Rightarrow> st\<lparr>sl_pacer := on_backpressure (sl_pacer st)\<rparr>
        | _ \<Rightarrow> st)"

definition gap_done :: "loop_outcome \<Rightarrow> 'w sink_loop \<Rightarrow> 'w sink_loop" where
  "gap_done out st =
     st\<lparr>sl_gaps := pop_gap (sl_gaps st), sl_outcomes := sl_outcomes st @ [out]\<rparr>"

text \<open>
  The first loop of \<open>flush_retry_buffer\<close>; \<open>None\<close> when it runs to its end.  One turn of it
  answers with how the flush ends, or with the state of the next turn.
\<close>

definition flush_gap_turn ::
  "'w loop_env \<Rightarrow> nat \<Rightarrow> evidence_batch \<Rightarrow> 'w sink_loop \<Rightarrow> drain_outcome option \<times> 'w sink_loop" where
  "flush_gap_turn env now b st =
     (case poll_batch env now b st of
        (pace.Wait ms, st) \<Rightarrow> (Some (Paced ms), st)
      | (pace.Send, st) \<Rightarrow>
          (case send_batch env b st of
             (Inr res, st) \<Rightarrow>
               (None, gap_done (GapDelivered b) (st\<lparr>sl_pacer := on_delivered (sl_pacer st)\<rparr>))
           | (Inl err, st) \<Rightarrow>
               (let st = note_refusal err st
                in if should_retry err then (Some SinkRefused, st)
                   else (None, gap_done (GapAbandoned b) st))))"

lemma pace_fields [simp]:
  "poll_batch env now b st = (p, st') \<Longrightarrow> sl_gaps st' = sl_gaps st"
  "poll_batch env now b st = (p, st') \<Longrightarrow> sl_retry st' = sl_retry st"
  "poll_batch env now b st = (p, st') \<Longrightarrow> sl_outcomes st' = sl_outcomes st"
  by (auto simp: poll_batch_def split: prod.splits)

lemma send_batch_fields [simp]:
  "send_batch env b st = (r, st') \<Longrightarrow> sl_gaps st' = sl_gaps st"
  "send_batch env b st = (r, st') \<Longrightarrow> sl_retry st' = sl_retry st"
  "send_batch env b st = (r, st') \<Longrightarrow> sl_outcomes st' = sl_outcomes st"
  by (auto simp: send_batch_def split: prod.splits)

lemma note_refusal_fields [simp]:
  "sl_gaps (note_refusal err st) = sl_gaps st"
  "sl_retry (note_refusal err st) = sl_retry st"
  "sl_outcomes (note_refusal err st) = sl_outcomes st"
  by (cases err; simp add: note_refusal_def record_sink_error_def)+

lemma next_gap_len: "next_gap env st = (b, st') \<Longrightarrow> gaps_len (sl_gaps st') = gaps_len (sl_gaps st)"
  by (auto simp: next_gap_def front_gap_def gaps_len_def Let_def split: if_splits)

lemma next_gap_in_flight: "next_gap env st = (b, st') \<Longrightarrow> in_flight (sl_gaps st') = b"
  by (auto simp: next_gap_def front_gap_def Let_def split: if_splits)

lemma gap_turn_len:
  "flush_gap_turn env now b st = (None, st') \<Longrightarrow> in_flight (sl_gaps st) = Some b \<Longrightarrow>
   gaps_len (sl_gaps st') < gaps_len (sl_gaps st)"
  by (auto simp: flush_gap_turn_def gap_done_def pop_gap_def gaps_len_def Let_def
      split: prod.splits pace.splits sum.splits if_splits)

lemma gap_loop_len:
  "(Some b, st') = next_gap env st \<Longrightarrow> (None, st'') = flush_gap_turn env now b st' \<Longrightarrow>
   gaps_len (sl_gaps st'') < gaps_len (sl_gaps st)"
  by (metis gap_turn_len next_gap_in_flight next_gap_len)

function flush_gaps ::
  "'w loop_env \<Rightarrow> nat \<Rightarrow> 'w sink_loop \<Rightarrow> drain_outcome option \<times> 'w sink_loop" where
  "flush_gaps env now st =
     (case next_gap env st of
        (None, st') \<Rightarrow> (None, st')
      | (Some b, st') \<Rightarrow>
          (case flush_gap_turn env now b st' of
             (Some out, st'') \<Rightarrow> (Some out, st'')
           | (None, st'') \<Rightarrow> flush_gaps env now st''))"
  by pat_completeness auto
termination
  by (relation "measure (\<lambda>(env, now, st). gaps_len (sl_gaps st))")
    (auto intro: gap_loop_len)

declare flush_gaps.simps [simp del]

text \<open>
  The second loop.  A batch the sink refuses for good leaves the buffer and becomes a gap.
\<close>

definition deliver_front :: "evidence_batch \<Rightarrow> 'w sink_loop \<Rightarrow> 'w sink_loop" where
  "deliver_front b st =
     st\<lparr>sl_pacer := on_delivered (sl_pacer st),
        sl_retry := (case pop_delivered (sl_retry st) of None \<Rightarrow> sl_retry st | Some (_, rb) \<Rightarrow> rb),
        sl_outcomes := sl_outcomes st @ [Delivered b]\<rparr>"

definition refuse_front :: "sink_error \<Rightarrow> 'w sink_loop \<Rightarrow> 'w sink_loop" where
  "refuse_front err st =
     (case pop_delivered (sl_retry st) of
        None \<Rightarrow> st
      | Some (dropped, rb) \<Rightarrow>
          st\<lparr>sl_retry := rb,
             sl_gaps := merge_gap (gap_for_batch (terminal_gap_cause err) dropped) (sl_gaps st)\<rparr>)"

definition flush_batch_turn ::
  "'w loop_env \<Rightarrow> nat \<Rightarrow> evidence_batch \<Rightarrow> 'w sink_loop \<Rightarrow> drain_outcome option \<times> 'w sink_loop" where
  "flush_batch_turn env now b st =
     (case poll_batch env now b st of
        (pace.Wait ms, st) \<Rightarrow> (Some (Paced ms), st)
      | (pace.Send, st) \<Rightarrow>
          (case send_batch env b st of
             (Inr res, st) \<Rightarrow> (None, deliver_front b st)
           | (Inl err, st) \<Rightarrow>
               (let st = note_refusal err st
                in if should_retry err then (Some SinkRefused, st)
                   else (Some SinkRefused, refuse_front err st))))"

lemma pop_delivered_length:
  "pop_delivered rb = Some (b, rb') \<Longrightarrow> length (rt_batches rb) = Suc (length (rt_batches rb'))"
  by (auto simp: pop_delivered_def dest!: pop_front_Some)

lemma front_pop: "front rb = Some b \<Longrightarrow> \<exists>rb'. pop_delivered rb = Some (b, rb')"
  by (auto simp: front_def pop_delivered_def pop_front_def split: list.splits)

lemma batch_turn_len:
  assumes "front (sl_retry st) = Some b" and "(None, st') = flush_batch_turn env now b st"
  shows "length (rt_batches (sl_retry st')) < length (rt_batches (sl_retry st))"
proof -
  obtain rb where "pop_delivered (sl_retry st) = Some (b, rb)" using front_pop [OF assms(1)] by blast
  with pop_delivered_length [OF this] assms(2) show ?thesis
    by (auto simp: flush_batch_turn_def deliver_front_def Let_def
        split: prod.splits pace.splits sum.splits if_splits)
qed

function flush_batches ::
  "'w loop_env \<Rightarrow> nat \<Rightarrow> 'w sink_loop \<Rightarrow> drain_outcome \<times> 'w sink_loop" where
  "flush_batches env now st =
     (case front (sl_retry st) of
        None \<Rightarrow> (Empty, st)
      | Some b \<Rightarrow>
          (case flush_batch_turn env now b st of
             (Some ended, st') \<Rightarrow> (ended, st')
           | (None, st') \<Rightarrow> flush_batches env now st'))"
  by pat_completeness auto
termination
  by (relation "measure (\<lambda>(env, now, st). length (rt_batches (sl_retry st)))")
    (auto intro: batch_turn_len)

declare flush_batches.simps [simp del]

definition flush_retry_buffer ::
  "'w loop_env \<Rightarrow> nat \<Rightarrow> 'w sink_loop \<Rightarrow> drain_outcome \<times> 'w sink_loop" where
  "flush_retry_buffer env now st =
     (case flush_gaps env now st of
        (Some ended, st') \<Rightarrow> (ended, st')
      | (None, st') \<Rightarrow> flush_batches env now st')"

section \<open>The arms of the loop\<close>

text \<open>\<open>reports.into_iter().flat_map(|gap| gap.into_batch(..).records)\<close>, ids drawn from \<open>i\<close> on.\<close>

fun gap_records :: "'w loop_env \<Rightarrow> nat \<Rightarrow> gap_report list \<Rightarrow> evidence_record list" where
  "gap_records env i [] = []"
| "gap_records env i (g # gs) = eb_records (gap_batch env i g) @ gap_records env (Suc i) gs"

text \<open>A batch of fresh records, delivered at once when nothing waits before it.\<close>

definition take_records ::
  "'w loop_env \<Rightarrow> nat \<Rightarrow> evidence_record list \<Rightarrow> 'w sink_loop \<Rightarrow> 'w sink_loop" where
  "take_records env now records st =
     (let batch = new_batch (le_id env (sl_fresh st)) (le_producer env) records;
          st = st\<lparr>sl_fresh := sl_fresh st + 1\<rparr>
      in if \<not> has_backlog st
         then (case send_batch env batch st of
                 (Inr res, st) \<Rightarrow>
                   st\<lparr>sl_backoff := reset_backoff (sl_backoff st),
                      sl_outcomes := sl_outcomes st @ [Delivered batch]\<rparr>
               | (Inl err, st) \<Rightarrow>
                   (let st = record_sink_error st
                    in if should_retry err then buffer_batch env now batch st
                       else st\<lparr>sl_gaps := merge_gap (gap_for_batch (terminal_gap_cause err) batch)
                                           (sl_gaps st)\<rparr>))
         else buffer_batch env now batch st)"

definition take_reports ::
  "'w loop_env \<Rightarrow> gap_report list \<Rightarrow> 'w sink_loop \<Rightarrow> 'w sink_loop" where
  "take_reports env reports st =
     (if has_backlog st then st\<lparr>sl_gaps := extend_gaps reports (sl_gaps st)\<rparr>
      else
        (let i = sl_fresh st;
             records = gap_records env i reports;
             batch = new_batch (le_id env (i + length reports)) (le_producer env) records;
             st = st\<lparr>sl_fresh := i + length reports + 1\<rparr>
         in case send_batch env batch st of
              (Inl err, st) \<Rightarrow>
                (let st = record_sink_error st
                 in st\<lparr>sl_gaps := (sl_gaps st)\<lparr>in_flight := Some batch\<rparr>\<rparr>)
            | (Inr res, st) \<Rightarrow>
                st\<lparr>sl_backoff := reset_backoff (sl_backoff st),
                   sl_outcomes := sl_outcomes st @ [GapDelivered batch]\<rparr>))"

definition take_message ::
  "'w loop_env \<Rightarrow> nat \<Rightarrow> received \<Rightarrow> 'w sink_loop \<Rightarrow> 'w sink_loop" where
  "take_message env now msg st =
     (case msg of
        RecordsReceived records \<Rightarrow>
          if records = [] then st else take_records env now records st
      | GapsReceived reports \<Rightarrow> take_reports env reports st)"

text \<open>What both arms end with before they schedule.\<close>

definition end_of_pass :: "'w loop_env \<Rightarrow> pass \<Rightarrow> 'w sink_loop \<Rightarrow> 'w sink_loop" where
  "end_of_pass env ps st =
     publish_backlog_metrics (ps_now ps)
       (sync_spool env (ps_io ps)
         (case le_limit env of
            None \<Rightarrow> st
          | Some limit \<Rightarrow>
              shed_under_memory_pressure limit (le_high_watermark env) (ps_memory ps) st))"

definition received_arm ::
  "'w loop_env \<Rightarrow> pass \<Rightarrow> received \<Rightarrow> 'w sink_loop \<Rightarrow> 'w sink_loop" where
  "received_arm env ps msg st =
     (let st = age_out (ps_now ps) st;
          st = take_message env (ps_now ps) msg st;
          st = end_of_pass env ps st
      in schedule_retry (le_hash env) (ps_later ps) (sl_next_retry st) st)"

definition timer_arm :: "'w loop_env \<Rightarrow> pass \<Rightarrow> 'w sink_loop \<Rightarrow> 'w sink_loop" where
  "timer_arm env ps st =
     (let st = age_out (ps_now ps) st;
          before = backlog_len st;
          (ended, st) = flush_retry_buffer env (ps_now ps) st;
          st = (if backlog_len st < before then st\<lparr>sl_backoff := reset_backoff (sl_backoff st)\<rparr>
                else st);
          st = end_of_pass env ps st
      in case ended of
           Paced ms \<Rightarrow> st\<lparr>sl_next_retry := Some (ps_later ps + ms)\<rparr>
         | _ \<Rightarrow> schedule_retry (le_hash env) (ps_later ps) None st)"

text \<open>
  One iteration of the \<open>select!\<close>: a message is taken from the queue, or the timer's deadline
  has passed.  \<open>Offer\<close> is a reader's \<open>try_send\<close>.  Which of two ready arms runs is free.
\<close>

datatype loop_event = Offer "evidence_record list" | Poll_queue pass | Poll_timer pass

definition receive_step :: "'w loop_env \<Rightarrow> pass \<Rightarrow> 'w sink_loop \<Rightarrow> 'w sink_loop" where
  "receive_step env ps st =
     (case recv (sl_queue st) of
        (None, q) \<Rightarrow> st\<lparr>sl_queue := q\<rparr>
      | (Some msg, q) \<Rightarrow> received_arm env ps msg (st\<lparr>sl_queue := q\<rparr>))"

definition timer_step :: "'w loop_env \<Rightarrow> pass \<Rightarrow> 'w sink_loop \<Rightarrow> 'w sink_loop" where
  "timer_step env ps st =
     (case sl_next_retry st of
        None \<Rightarrow> st
      | Some deadline \<Rightarrow> if deadline \<le> ps_now ps then timer_arm env ps st else st)"

section \<open>Start and shutdown\<close>

text \<open>
  The state before the loop: what a previous process had spooled is enqueued at time 0 and the
  spool rewritten.  No retry is scheduled.
\<close>

definition initial_loop ::
  "retry_buffer_config \<Rightarrow> retry_backoff_config \<Rightarrow> drain_pace_config \<Rightarrow> spool option \<Rightarrow> disk \<Rightarrow>
   sink_queue \<Rightarrow> 'w \<Rightarrow> 'w sink_loop" where
  "initial_loop rc bc pc sp d q w =
     \<lparr>sl_sink = w, sl_queue = q, sl_retry = new_retry_buffer rc, sl_backoff = new_backoff bc,
      sl_pacer = new_pacer pc, sl_gaps = no_gaps, sl_ceiling = False, sl_spool = sp, sl_disk = d,
      sl_next_retry = None, sl_metrics = zero_metrics, sl_fresh = 0, sl_outcomes = []\<rparr>"

definition replay_spool ::
  "'w loop_env \<Rightarrow> (u8 list \<Rightarrow> evidence_batch option) \<Rightarrow> io_plan \<Rightarrow> 'w sink_loop \<Rightarrow> 'w sink_loop" where
  "replay_spool env from_slice io st =
     (case sl_spool st of
        None \<Rightarrow> st
      | Some s \<Rightarrow>
          (let batches = fst (replay from_slice (main_file (sl_disk st)));
               st = fold (buffer_batch env 0) batches st;
               (ok, s', d) = compact (le_to_vec env) io (iter_batches (sl_retry st)) s (sl_disk st)
           in st\<lparr>sl_spool := Some s', sl_disk := d\<rparr>))"

text \<open>
  The loop after the queue has closed: it ends when nothing is left or a pass changes neither
  length.  A paced pass sleeps at most a second and goes on; \<open>lag k\<close> is what the \<open>k\<close>-th turn
  takes beyond its sleep.  Not returning is \<open>None\<close>.
\<close>

definition shutdown_lengths :: "'w sink_loop \<Rightarrow> nat \<times> nat" where
  "shutdown_lengths st = (length (rt_batches (sl_retry st)), gaps_len (sl_gaps st))"

partial_function (option) shutdown_drain ::
  "'w loop_env \<Rightarrow> (nat \<Rightarrow> nat) \<Rightarrow> nat \<Rightarrow> nat \<Rightarrow> 'w sink_loop \<Rightarrow> 'w sink_loop option" where
  "shutdown_drain env lag k now st =
     (if \<not> has_backlog st then Some st
      else
        (case flush_retry_buffer env now st of
           (ended, st') \<Rightarrow>
             (case ended of
                Paced ms \<Rightarrow> shutdown_drain env lag (Suc k) (now + min ms 1000 + lag k) st'
              | _ \<Rightarrow>
                  (let st' = publish_backlog_metrics (now + lag k) st'
                   in if shutdown_lengths st' = shutdown_lengths st then Some st'
                      else shutdown_drain env lag (Suc k) (now + lag k) st'))))"

definition shutdown ::
  "'w loop_env \<Rightarrow> (nat \<Rightarrow> nat) \<Rightarrow> nat \<Rightarrow> io_plan \<Rightarrow> 'w sink_loop \<Rightarrow> 'w sink_loop option" where
  "shutdown env lag now io st = map_option (sync_spool env io) (shutdown_drain env lag 0 now st)"

section \<open>Conservation\<close>

fun delivered_by :: "loop_outcome \<Rightarrow> evidence_record list" where
  "delivered_by (Delivered b) = eb_records b"
| "delivered_by _ = []"

definition delivered_records :: "loop_outcome list \<Rightarrow> evidence_record list" where
  "delivered_records outs = concat (map delivered_by outs)"

text \<open>What a record of gap evidence reports: its \<open>dropped_records\<close> label.\<close>

definition reported_by :: "evidence_record \<Rightarrow> nat" where
  "reported_by r =
     (case label (er_occurrence r) ''dropped_records'' of
        None \<Rightarrow> 0
      | Some v \<Rightarrow> (case parse_uint usize_max v of None \<Rightarrow> 0 | Some n \<Rightarrow> n))"

definition reported_in :: "evidence_batch \<Rightarrow> nat" where
  "reported_in b = sum_list (map reported_by (eb_records b))"

fun reported_to_sink :: "loop_outcome \<Rightarrow> nat" where
  "reported_to_sink (GapDelivered b) = reported_in b"
| "reported_to_sink _ = 0"

fun reports_abandoned :: "loop_outcome \<Rightarrow> nat" where
  "reports_abandoned (GapAbandoned b) = reported_in b"
| "reports_abandoned _ = 0"

definition pending_reported :: "pending_gaps \<Rightarrow> nat" where
  "pending_reported pg =
     sum_gaps dropped_records (queued_gaps pg) +
     (case in_flight pg of None \<Rightarrow> 0 | Some b \<Rightarrow> reported_in b)"

definition answered_reported :: "loop_outcome list \<Rightarrow> nat" where
  "answered_reported outs =
     sum_list (map reported_to_sink outs) + sum_list (map reports_abandoned outs)"

text \<open>
  \<open>rs\<close> are the records the loop has taken in and \<open>n\<close> the losses reported to it.
\<close>

definition balanced :: "heap_sizes \<Rightarrow> evidence_record list \<Rightarrow> nat \<Rightarrow> 'w sink_loop \<Rightarrow> bool" where
  "balanced hs rs n st =
     (buffer_inv hs (sl_retry st) \<and>
      (\<exists>lost. mset rs = mset (delivered_records (sl_outcomes st)) +
                 mset (held (rt_batches (sl_retry st))) + mset lost \<and>
              length lost + n = pending_reported (sl_gaps st) + answered_reported (sl_outcomes st)))"

lemma outcomes_append [simp]:
  "delivered_records (outs @ [x]) = delivered_records outs @ delivered_by x"
  "answered_reported (outs @ [x]) = answered_reported outs + reported_to_sink x + reports_abandoned x"
  by (simp_all add: delivered_records_def answered_reported_def)

lemma reported_gap_batch:
  assumes "dropped_records g \<le> usize_max"
  shows "reported_in (gap_batch env i g) = dropped_records g"
  using assms
  by (simp add: reported_in_def gap_batch_def gap_into_batch_def reported_by_def
      label_insert_labels gap_labels_def parse_uint_decimal Let_def)

lemma pending_merge:
  assumes "pending_reported pg + dropped_records g \<le> usize_max"
  shows "pending_reported (merge_gap g pg) = pending_reported pg + dropped_records g"
  using assms merge_by_cause_dropped [of "queued_gaps pg" g]
  by (simp add: pending_reported_def merge_gap_def)

lemma pending_extend:
  "pending_reported pg + sum_gaps dropped_records gs \<le> usize_max \<Longrightarrow>
   pending_reported (extend_gaps gs pg) = pending_reported pg + sum_gaps dropped_records gs"
proof (induction gs arbitrary: pg)
  case Nil
  then show ?case by (simp add: extend_gaps_def sum_gaps_def)
next
  case (Cons g gs)
  then have "pending_reported (merge_gap g pg) = pending_reported pg + dropped_records g"
    by (intro pending_merge) (simp add: sum_gaps_def)
  with Cons show ?case by (simp add: extend_gaps_def sum_gaps_def)
qed

text \<open>
  The one argument behind every operation on records: what comes in and what was held is
  delivered, held or lost, and the losses are reported.
\<close>

lemma balanced_move:
  assumes "balanced hs rs n st" and "buffer_inv hs (sl_retry st')"
    and "mset (held (rt_batches (sl_retry st))) + mset arrived =
         mset sent + mset (held (rt_batches (sl_retry st'))) + mset gone"
    and "sl_gaps st' = extend_gaps gs (sl_gaps st)" and "sum_gaps dropped_records gs = length gone"
    and "delivered_records (sl_outcomes st') = delivered_records (sl_outcomes st) @ sent"
    and "answered_reported (sl_outcomes st') = answered_reported (sl_outcomes st)"
    and "length (rs @ arrived) + n \<le> usize_max"
  shows "balanced hs (rs @ arrived) n st'"
proof -
  from assms(1) obtain lost where lost: "mset rs = mset (delivered_records (sl_outcomes st)) +
      mset (held (rt_batches (sl_retry st))) + mset lost"
    and count: "length lost + n = pending_reported (sl_gaps st) + answered_reported (sl_outcomes st)"
    by (auto simp: balanced_def)
  have all: "mset (rs @ arrived) = mset (delivered_records (sl_outcomes st')) +
      mset (held (rt_batches (sl_retry st'))) + mset (lost @ gone)"
    using lost assms(3,6) by (simp add: ac_simps)
  then have "size (mset (lost @ gone)) \<le> size (mset (rs @ arrived))" by simp
  then have "length lost + length gone \<le> length (rs @ arrived)"
    unfolding size_mset by simp
  then have "pending_reported (sl_gaps st) + sum_gaps dropped_records gs \<le> usize_max"
    using count assms(5,8) by linarith
  from pending_extend [OF this] have "length (lost @ gone) + n =
      pending_reported (sl_gaps st') + answered_reported (sl_outcomes st')"
    using count assms(4,5,7) by simp
  with all assms(2) show ?thesis unfolding balanced_def by blast
qed

lemma balanced_cong:
  "sl_retry st' = sl_retry st \<Longrightarrow> sl_gaps st' = sl_gaps st \<Longrightarrow> sl_outcomes st' = sl_outcomes st \<Longrightarrow>
   balanced hs rs n st' = balanced hs rs n st"
  by (simp add: balanced_def)

lemma balanced_bound:
  "balanced hs rs n st \<Longrightarrow>
   pending_reported (sl_gaps st) + answered_reported (sl_outcomes st) \<le> length rs + n"
proof -
  assume "balanced hs rs n st"
  then obtain lost where l: "mset rs = mset (delivered_records (sl_outcomes st)) +
      mset (held (rt_batches (sl_retry st))) + mset lost"
    and c: "length lost + n = pending_reported (sl_gaps st) + answered_reported (sl_outcomes st)"
    by (auto simp: balanced_def)
  from l have "size (mset rs) = size (mset (delivered_records (sl_outcomes st)) +
      mset (held (rt_batches (sl_retry st))) + mset lost)" by simp
  with c show ?thesis unfolding size_union size_mset by linarith
qed

lemma balanced_same:
  assumes "balanced hs rs n st" and "sl_retry st' = sl_retry st"
    and "delivered_records (sl_outcomes st') = delivered_records (sl_outcomes st)"
    and "pending_reported (sl_gaps st') + answered_reported (sl_outcomes st') =
         pending_reported (sl_gaps st) + answered_reported (sl_outcomes st) + m"
  shows "balanced hs rs (n + m) st'"
proof -
  from assms(1) obtain lost where
    "mset rs = mset (delivered_records (sl_outcomes st)) +
       mset (held (rt_batches (sl_retry st))) + mset lost"
    "length lost + n = pending_reported (sl_gaps st) + answered_reported (sl_outcomes st)"
    "buffer_inv hs (sl_retry st)" by (auto simp: balanced_def)
  with assms(2-4) show ?thesis unfolding balanced_def by (intro conjI exI [of _ lost]) simp_all
qed

lemmas balanced_same0 = balanced_same [where m = 0, simplified]

lemma balanced_next_gap:
  assumes "balanced hs rs n st" and "next_gap env st = (b, st')" and "length rs + n \<le> usize_max"
  shows "balanced hs rs n st'"
proof (rule balanced_same0 [OF assms(1)])
  have "pending_reported (sl_gaps st) \<le> usize_max"
    using balanced_bound [OF assms(1)] assms(3) by linarith
  then have "queued_gaps (sl_gaps st) = g # gs \<Longrightarrow> dropped_records g \<le> usize_max" for g gs
    by (simp add: pending_reported_def sum_gaps_def)
  then have "pending_reported (sl_gaps st') = pending_reported (sl_gaps st)"
    using assms(2)
    by (auto simp: next_gap_def front_gap_def pending_reported_def sum_gaps_def
        neq_Nil_conv reported_gap_batch Let_def split: if_splits)
  moreover have "sl_retry st' = sl_retry st \<and> sl_outcomes st' = sl_outcomes st"
    using assms(2) by (auto simp: next_gap_def split: prod.splits)
  ultimately show "sl_retry st' = sl_retry st"
    "delivered_records (sl_outcomes st') = delivered_records (sl_outcomes st)"
    "pending_reported (sl_gaps st') + answered_reported (sl_outcomes st') =
     pending_reported (sl_gaps st) + answered_reported (sl_outcomes st)" by simp_all
qed

lemma balanced_gap_turn:
  assumes "balanced hs rs n st" and "in_flight (sl_gaps st) = Some b"
    and "flush_gap_turn env now b st = (ended, st')"
  shows "balanced hs rs n st'"
proof (rule balanced_same0 [OF assms(1)])
  show "sl_retry st' = sl_retry st"
    "delivered_records (sl_outcomes st') = delivered_records (sl_outcomes st)"
    using assms(3)
    by (auto simp: flush_gap_turn_def gap_done_def Let_def
        split: prod.splits pace.splits sum.splits if_splits)
  show "pending_reported (sl_gaps st') + answered_reported (sl_outcomes st') =
        pending_reported (sl_gaps st) + answered_reported (sl_outcomes st)"
    using assms(2,3)
    by (auto simp: flush_gap_turn_def gap_done_def pop_gap_def pending_reported_def Let_def
        split: prod.splits pace.splits sum.splits if_splits)
qed

lemma pop_delivered_Some:
  assumes "pop_delivered rb = Some (b, rb')"
  obtains x where "pop_front rb = Some (x, rb')" "b = bb_batch x"
    "rt_batches rb = x # rt_batches rb'" "rt_config rb' = rt_config rb"
proof -
  from assms obtain x where x: "pop_front rb = Some (x, rb')" "b = bb_batch x"
    by (auto simp: pop_delivered_def)
  with pop_front_Some [OF x(1)] that show thesis by auto
qed

lemma pop_buffer_inv:
  "buffer_inv hs rb \<Longrightarrow> pop_front rb = Some (x, rb') \<Longrightarrow> buffer_inv hs rb'"
  using pops_buffer_inv rt.pops.intros by blast

lemma gap_for_batch_dropped: "dropped_records (gap_for_batch why b) = length (eb_records b)"
  by (simp add: gap_for_batch_def gap_for_records_fields)

lemma balanced_batch_turn:
  assumes "balanced hs rs n st" and "front (sl_retry st) = Some b"
    and "flush_batch_turn env now b st = (ended, st')" and "length rs + n \<le> usize_max"
  shows "balanced hs rs n st'"
proof -
  obtain rb where p: "pop_delivered (sl_retry st) = Some (b, rb)"
    using front_pop [OF assms(2)] by blast
  from p obtain x where x: "pop_front (sl_retry st) = Some (x, rb)" "b = bb_batch x"
    "rt_batches (sl_retry st) = x # rt_batches rb" by (rule pop_delivered_Some)
  have inv: "buffer_inv hs rb" using assms(1) x(1) pop_buffer_inv by (auto simp: balanced_def)
  have held: "held (rt_batches (sl_retry st)) = eb_records b @ held (rt_batches rb)"
    by (simp add: held_def x)
  consider (kept) "sl_retry st' = sl_retry st" "sl_gaps st' = sl_gaps st"
      "sl_outcomes st' = sl_outcomes st"
    | (sent) "sl_retry st' = rb" "sl_gaps st' = sl_gaps st"
      "sl_outcomes st' = sl_outcomes st @ [Delivered b]"
    | (lost) why where "sl_retry st' = rb" "sl_outcomes st' = sl_outcomes st"
      "sl_gaps st' = merge_gap (gap_for_batch why b) (sl_gaps st)"
    using assms(3) p
    by (auto simp: flush_batch_turn_def deliver_front_def refuse_front_def Let_def
        split: prod.splits pace.splits sum.splits if_splits)
  then show ?thesis
  proof cases
    case kept
    with assms(1) balanced_cong show ?thesis by metis
  next
    case sent
    with balanced_move [OF assms(1), of st' "[]" "eb_records b" "[]" "[]"] inv held assms(4)
    show ?thesis by (simp add: extend_gaps_def sum_gaps_def)
  next
    case lost
    with balanced_move [OF assms(1), of st' "[]" "[]" "eb_records b" "[gap_for_batch why b]"]
      inv held assms(4)
    show ?thesis by (simp add: extend_gaps_def sum_gaps_def gap_for_batch_dropped)
  qed
qed

text \<open>Whatever every turn of the drain keeps, the drain keeps.\<close>

lemma flush_gaps_keeps:
  assumes "flush_gaps env now st = (ended, st')" and "P st"
    and "\<And>st b st'. P st \<Longrightarrow> next_gap env st = (b, st') \<Longrightarrow> P st'"
    and "\<And>st b e st'. P st \<Longrightarrow> in_flight (sl_gaps st) = Some b \<Longrightarrow>
           flush_gap_turn env now b st = (e, st') \<Longrightarrow> P st'"
  shows "P st'"
  using assms
proof (induction env now st arbitrary: ended st' rule: flush_gaps.induct)
  case (1 env now st)
  obtain b st1 where n: "next_gap env st = (b, st1)" by force
  have p1: "P st1" by (rule 1(4) [OF 1(3) n])
  show ?case
  proof (cases b)
    case None
    with 1(2) n p1 show ?thesis by (simp add: flush_gaps.simps [of env now st])
  next
    case (Some x)
    obtain e2 st2 where t: "flush_gap_turn env now x st1 = (e2, st2)" by force
    have "in_flight (sl_gaps st1) = Some x" using next_gap_in_flight [OF n] Some by simp
    from 1(5) [OF p1 this t] have p2: "P st2" .
    show ?thesis
    proof (cases e2)
      case None
      with 1(2) n Some t have "flush_gaps env now st2 = (ended, st')"
        by (simp add: flush_gaps.simps [of env now st])
      from 1(1) [OF n [symmetric] Some t [symmetric] None this p2 1(4,5)] show ?thesis .
    next
      case (Some y)
      with 1(2) n \<open>b = Some x\<close> t p2 show ?thesis by (simp add: flush_gaps.simps [of env now st])
    qed
  qed
qed

lemma flush_batches_keeps:
  assumes "flush_batches env now st = (ended, st')" and "P st"
    and "\<And>st b e st'. P st \<Longrightarrow> front (sl_retry st) = Some b \<Longrightarrow>
           flush_batch_turn env now b st = (e, st') \<Longrightarrow> P st'"
  shows "P st'"
  using assms
proof (induction env now st arbitrary: ended st' rule: flush_batches.induct)
  case (1 env now st)
  show ?case
  proof (cases "front (sl_retry st)")
    case None
    with 1(2,3) show ?thesis by (simp add: flush_batches.simps [of env now st])
  next
    case (Some b)
    obtain e2 st2 where t: "flush_batch_turn env now b st = (e2, st2)" by force
    have p2: "P st2" by (rule 1(4) [OF 1(3) Some t])
    show ?thesis
    proof (cases e2)
      case None
      with 1(2) Some t have "flush_batches env now st2 = (ended, st')"
        by (simp add: flush_batches.simps [of env now st])
      from 1(1) [OF Some t [symmetric] None this p2 1(4)] show ?thesis .
    next
      case (Some y)
      with 1(2) \<open>front (sl_retry st) = Some b\<close> t p2 show ?thesis
        by (simp add: flush_batches.simps [of env now st])
    qed
  qed
qed

lemma flush_keeps:
  assumes "flush_retry_buffer env now st = (ended, st')" and "P st"
    and "\<And>st b st'. P st \<Longrightarrow> next_gap env st = (b, st') \<Longrightarrow> P st'"
    and "\<And>st b e st'. P st \<Longrightarrow> in_flight (sl_gaps st) = Some b \<Longrightarrow>
           flush_gap_turn env now b st = (e, st') \<Longrightarrow> P st'"
    and "\<And>st b e st'. P st \<Longrightarrow> front (sl_retry st) = Some b \<Longrightarrow>
           flush_batch_turn env now b st = (e, st') \<Longrightarrow> P st'"
  shows "P st'"
proof -
  obtain e1 st1 where f: "flush_gaps env now st = (e1, st1)" by force
  have "P st1" by (rule flush_gaps_keeps [where P = P, OF f assms(2-4)])
  with f assms(1) flush_batches_keeps [where P = P, OF _ _ assms(5)] show ?thesis
    by (auto simp: flush_retry_buffer_def split: option.splits)
qed

lemma balanced_flush:
  assumes "flush_retry_buffer env now st = (ended, st')" and "balanced hs rs n st"
    and "length rs + n \<le> usize_max"
  shows "balanced hs rs n st'"
  by (rule flush_keeps [where P = "balanced hs rs n", OF assms(1,2)])
    (blast intro: balanced_next_gap balanced_gap_turn balanced_batch_turn assms(3))+

lemma held_sheds:
  "rt.sheds rb xs rb' \<Longrightarrow>
   mset (held (rt_batches rb)) = mset (held xs) + mset (held (rt_batches rb'))"
  using rt.sheds_mset by (fastforce simp: mset_held)

lemma shed_gaps_dropped:
  assumes "set xs \<subseteq> set (rt_batches rb)" and "buffer_inv hs rb"
  shows "sum_gaps dropped_records (map (shed_gap why) xs) = length (held xs)"
  using sum_gaps_held [of xs why] assms accounted_one_class by (auto simp: buffer_inv_def)

lemma balanced_buffer_batch:
  assumes "balanced hs rs n st" and "hs = le_sizes env"
    and "length (rs @ eb_records b) + n \<le> usize_max"
  shows "balanced hs (rs @ eb_records b) n (buffer_batch env now b st)"
proof -
  obtain gaps rb where e: "enqueue hs (\<lambda>k. le_id env (sl_fresh st + k)) b now (sl_retry st) =
      (gaps, rb)" by force
  let ?b0 = "fold push_part (map (buffer_part hs now)
      (split_by_class (\<lambda>k. le_id env (sl_fresh st + k)) b)) (sl_retry st)"
  have inv: "buffer_inv hs (sl_retry st)" using assms(1) by (simp add: balanced_def)
  then have inv0: "buffer_inv hs ?b0" by (rule enqueue_start_inv)
  from enqueue_sheds [OF e] obtain xs where xs: "rt.sheds ?b0 xs rb"
    and gaps: "gaps = map (shed_gap ''retry_buffer_overflow'') xs" by metis
  have "set xs \<subseteq> set (rt_batches ?b0)" using rt.sheds_set [OF xs] by auto
  then have "sum_gaps dropped_records gaps = length (held xs)"
    unfolding gaps by (rule shed_gaps_dropped [OF _ inv0])
  moreover have "mset (held (rt_batches (sl_retry st))) + mset (eb_records b) =
      mset [] + mset (held (rt_batches rb)) + mset (held xs)"
    using held_sheds [OF xs] by (simp add: fold_push_part held_parts)
  moreover have "buffer_inv hs rb" by (rule enqueue_inv [OF inv e])
  ultimately show ?thesis
    using balanced_move [OF assms(1), of "buffer_batch env now b st" "eb_records b" "[]" "held xs" gaps]
      assms(3) e by (simp add: buffer_batch_def assms(2) [symmetric])
qed

lemma balanced_age_out:
  assumes "balanced hs rs n st" and "length rs + n \<le> usize_max"
  shows "balanced hs rs n (age_out now st)"
proof -
  obtain gaps rb where e: "drop_expired now (sl_retry st) = (gaps, rb)" by force
  have inv: "buffer_inv hs (sl_retry st)" using assms(1) by (simp add: balanced_def)
  from drop_expired_pops [OF e] obtain xs where xs: "rt.pops (sl_retry st) xs rb"
    and gaps: "gaps = map (shed_gap ''retry_buffer_expired'') xs" by blast
  have split: "rt_batches (sl_retry st) = xs @ rt_batches rb" by (rule rt.pops_items [OF xs])
  then have "sum_gaps dropped_records gaps = length (held xs)"
    unfolding gaps by (intro shed_gaps_dropped [OF _ inv]) simp
  then show ?thesis
    using balanced_move [OF assms(1), of "age_out now st" "[]" "[]" "held xs" gaps]
      pops_buffer_inv [OF xs inv] assms(2) e split
    by (simp add: age_out_def)
qed

lemma balanced_pressure:
  assumes "balanced hs rs n st" and "length rs + n \<le> usize_max"
  shows "balanced hs rs n (shed_under_memory_pressure limit high current st)"
proof (cases "memory_ratio limit current")
  case None
  with assms(1) show ?thesis by (simp add: shed_under_memory_pressure_def)
next
  case (Some ratio)
  let ?st' = "shed_under_memory_pressure limit high current st"
  have inv: "buffer_inv hs (sl_retry st)" using assms(1) by (simp add: balanced_def)
  let ?t = "nat \<lfloor>real (rt_bytes (sl_retry st)) * memory_shed_fraction\<rfloor>"
  obtain gaps rb where e: "shed_to ?t (sl_retry st) = (gaps, rb)" by force
  from shed_while_sheds [OF e [unfolded shed_to_def]] obtain xs where
    xs: "rt.sheds (sl_retry st) xs rb" and gaps: "gaps = map (shed_gap ''memory_pressure'') xs"
    by auto
  have sub: "set xs \<subseteq> set (rt_batches (sl_retry st))" using rt.sheds_set [OF xs] by auto
  have dropped: "sum_gaps dropped_records gaps = length (held xs)"
    unfolding gaps by (rule shed_gaps_dropped [OF sub inv])
  have outs: "sl_outcomes ?st' = sl_outcomes st"
    using Some e by (simp add: shed_under_memory_pressure_def Let_def)
  show ?thesis
  proof (cases "ratio < high \<or> rt_batches (sl_retry st) = []")
    case True
    with Some have "sl_retry ?st' = sl_retry st" "sl_gaps ?st' = sl_gaps st"
      by (simp_all add: shed_under_memory_pressure_def Let_def)
    with assms(1) outs balanced_cong show ?thesis by metis
  next
    case False
    with Some e have "sl_retry ?st' = rb" "sl_gaps ?st' = extend_gaps gaps (sl_gaps st)"
      by (simp_all add: shed_under_memory_pressure_def Let_def)
    with balanced_move [OF assms(1), of ?st' "[]" "[]" "held xs" gaps] outs dropped assms(2)
      held_sheds [OF xs] sheds_buffer_inv [OF xs inv]
    show ?thesis by simp
  qed
qed

lemma sync_spool_fields [simp]:
  "sl_retry (sync_spool env io st) = sl_retry st" "sl_gaps (sync_spool env io st) = sl_gaps st"
  "sl_outcomes (sync_spool env io st) = sl_outcomes st"
  "sl_queue (sync_spool env io st) = sl_queue st"
  "sl_next_retry (sync_spool env io st) = sl_next_retry st"
  "sl_backoff (sync_spool env io st) = sl_backoff st"
  "sl_pacer (sync_spool env io st) = sl_pacer st"
  by (auto simp: sync_spool_def split: option.splits prod.splits)

lemma publish_fields [simp]:
  "sl_retry (publish_backlog_metrics now st) = sl_retry st"
  "sl_gaps (publish_backlog_metrics now st) = sl_gaps st"
  "sl_outcomes (publish_backlog_metrics now st) = sl_outcomes st"
  "sl_queue (publish_backlog_metrics now st) = sl_queue st"
  "sl_next_retry (publish_backlog_metrics now st) = sl_next_retry st"
  "sl_backoff (publish_backlog_metrics now st) = sl_backoff st"
  "sl_pacer (publish_backlog_metrics now st) = sl_pacer st"
  "sl_spool (publish_backlog_metrics now st) = sl_spool st"
  "sl_disk (publish_backlog_metrics now st) = sl_disk st"
  by (simp_all add: publish_backlog_metrics_def)

lemma schedule_fields [simp]:
  "sl_retry (schedule_retry hash later cur st) = sl_retry st"
  "sl_gaps (schedule_retry hash later cur st) = sl_gaps st"
  "sl_outcomes (schedule_retry hash later cur st) = sl_outcomes st"
  "sl_queue (schedule_retry hash later cur st) = sl_queue st"
  "sl_spool (schedule_retry hash later cur st) = sl_spool st"
  "sl_disk (schedule_retry hash later cur st) = sl_disk st"
  by (auto simp: schedule_retry_def split: option.splits prod.splits)

lemma balanced_irrelevant [simp]:
  "balanced hs rs n (sync_spool env io st) = balanced hs rs n st"
  "balanced hs rs n (publish_backlog_metrics now st) = balanced hs rs n st"
  "balanced hs rs n (schedule_retry hash later cur st) = balanced hs rs n st"
  "balanced hs rs n (record_sink_error st) = balanced hs rs n st"
  "balanced hs rs n (st\<lparr>sl_backoff := b\<rparr>) = balanced hs rs n st"
  "balanced hs rs n (st\<lparr>sl_fresh := f\<rparr>) = balanced hs rs n st"
  "balanced hs rs n (st\<lparr>sl_next_retry := nr\<rparr>) = balanced hs rs n st"
  "balanced hs rs n (st\<lparr>sl_queue := q\<rparr>) = balanced hs rs n st"
  "balanced hs rs n (st\<lparr>sl_sink := w\<rparr>) = balanced hs rs n st"
  by (simp_all add: balanced_def record_sink_error_def)

lemma balanced_end_of_pass:
  "balanced hs rs n st \<Longrightarrow> length rs + n \<le> usize_max \<Longrightarrow> balanced hs rs n (end_of_pass env ps st)"
  by (simp add: end_of_pass_def balanced_pressure split: option.splits)

lemma balanced_take_records:
  assumes "balanced hs rs n st" and "hs = le_sizes env"
    and "length (rs @ records) + n \<le> usize_max"
  shows "balanced hs (rs @ records) n (take_records env now records st)"
proof -
  let ?b = "new_batch (le_id env (sl_fresh st)) (le_producer env) records"
  let ?st = "st\<lparr>sl_fresh := sl_fresh st + 1\<rparr>"
  have records: "eb_records ?b = records" by simp
  have st: "balanced hs rs n ?st" using assms(1) by simp
  obtain r st1 where s: "send_batch env ?b ?st = (r, st1)" by force
  have st1: "balanced hs rs n st1"
    using st s balanced_cong [of st1 ?st] by simp
  note buf = balanced_buffer_batch [OF _ assms(2), of rs n _ ?b now, unfolded records]
  show ?thesis
  proof (cases "has_backlog ?st")
    case True
    then have "take_records env now records st = buffer_batch env now ?b ?st"
      by (simp add: take_records_def Let_def)
    with buf [OF st] assms(3) show ?thesis by simp
  next
    case idle: False
    show ?thesis
    proof (cases r)
      case (Inr res)
      with idle s have "take_records env now records st =
          st1\<lparr>sl_backoff := reset_backoff (sl_backoff st1),
              sl_outcomes := sl_outcomes st1 @ [Delivered ?b]\<rparr>"
        by (simp add: take_records_def Let_def)
      with balanced_move [OF st1, of "take_records env now records st" records records "[]" "[]"]
        st1 assms(3) show ?thesis
        by (simp add: extend_gaps_def sum_gaps_def balanced_def)
    next
      case (Inl err)
      show ?thesis
      proof (cases "should_retry err")
        case True
        with idle s Inl have "take_records env now records st =
            buffer_batch env now ?b (record_sink_error st1)"
          by (simp add: take_records_def Let_def)
        with buf [of "record_sink_error st1"] st1 assms(3) show ?thesis by simp
      next
        case False
        let ?g = "gap_for_batch (terminal_gap_cause err) ?b"
        from False idle s Inl have "take_records env now records st =
            (record_sink_error st1)\<lparr>sl_gaps := merge_gap ?g (sl_gaps st1)\<rparr>"
          by (simp add: take_records_def record_sink_error_def Let_def)
        with balanced_move [OF st1, of "take_records env now records st" records "[]" records "[?g]"]
          st1 assms(3) show ?thesis
          by (simp add: extend_gaps_def sum_gaps_def balanced_def gap_for_batch_dropped
              record_sink_error_def)
      qed
    qed
  qed
qed

lemma gap_records_reported:
  "sum_gaps dropped_records gs \<le> usize_max \<Longrightarrow>
   sum_list (map reported_by (gap_records env i gs)) = sum_gaps dropped_records gs"
proof (induction env i gs rule: gap_records.induct)
  case (1 env i)
  then show ?case by (simp add: sum_gaps_def)
next
  case (2 env i g gs)
  then show ?case using reported_gap_batch [of g env i]
    by (simp add: sum_gaps_def reported_in_def)
qed

lemma balanced_take_reports:
  assumes "balanced hs rs n st" and "length rs + n + sum_gaps dropped_records gs \<le> usize_max"
  shows "balanced hs rs (n + sum_gaps dropped_records gs) (take_reports env gs st)"
proof -
  let ?n = "sum_gaps dropped_records gs"
  let ?b = "new_batch (le_id env (sl_fresh st + length gs)) (le_producer env)
    (gap_records env (sl_fresh st) gs)"
  have b: "reported_in ?b = ?n"
    using assms(2) by (simp add: reported_in_def gap_records_reported)
  have ext: "pending_reported (extend_gaps gs (sl_gaps st)) = pending_reported (sl_gaps st) + ?n"
    using balanced_bound [OF assms(1)] assms(2) by (intro pending_extend) linarith
  obtain r st1 where s: "send_batch env ?b (st\<lparr>sl_fresh := sl_fresh st + length gs + 1\<rparr>) = (r, st1)"
    by force
  then have st1: "sl_retry st1 = sl_retry st" "sl_gaps st1 = sl_gaps st"
    "sl_outcomes st1 = sl_outcomes st" by simp_all
  show ?thesis
  proof (rule balanced_same [OF assms(1)])
    show "sl_retry (take_reports env gs st) = sl_retry st"
      and "delivered_records (sl_outcomes (take_reports env gs st)) =
        delivered_records (sl_outcomes st)"
      using s st1 by (auto simp: take_reports_def record_sink_error_def Let_def split: sum.splits)
    have empty: "\<not> has_backlog st \<Longrightarrow> pending_reported (sl_gaps st) = 0"
      by (simp add: has_backlog_def gaps_empty_def pending_reported_def sum_gaps_def)
    then show "pending_reported (sl_gaps (take_reports env gs st)) +
        answered_reported (sl_outcomes (take_reports env gs st)) =
        pending_reported (sl_gaps st) + answered_reported (sl_outcomes st) + ?n"
      using s st1 ext b
      by (auto simp: take_reports_def record_sink_error_def Let_def pending_reported_def
          has_backlog_def gaps_empty_def split: sum.splits)
  qed
qed

end
