(* ===== verification/Loop_Pipeline.thy ===== *)
theory Loop_Pipeline
  imports Sink_Loop
begin

text \<open>
  The reader queue and the sink loop together: any interleaving of the readers' offers with
  the passes of the loop.  The lemmas carry the accounts of both halves through a run; the
  properties say that no record leaves the pipeline unaccounted for, that the retry timer is
  armed exactly while something waits, and that a restart gets back what the spool holds.
\<close>

section \<open>The arms keep the accounts\<close>

fun received_records :: "received \<Rightarrow> evidence_record list" where
  "received_records (RecordsReceived rs) = rs"
| "received_records (GapsReceived gs) = []"

fun received_reports :: "received \<Rightarrow> gap_report list" where
  "received_reports (RecordsReceived rs) = []"
| "received_reports (GapsReceived gs) = gs"

lemma balanced_take_message:
  assumes "balanced (le_sizes env) rs n st"
    and "length (rs @ received_records msg) + n + sum_gaps dropped_records (received_reports msg)
         \<le> usize_max"
  shows "balanced (le_sizes env) (rs @ received_records msg)
           (n + sum_gaps dropped_records (received_reports msg)) (take_message env now msg st)"
proof (cases msg)
  case (RecordsReceived records)
  with assms balanced_take_records [OF assms(1) refl, of records now] show ?thesis
    by (cases "records = []") (simp_all add: take_message_def sum_gaps_def)
next
  case (GapsReceived gs)
  with assms balanced_take_reports [OF assms(1), of gs] show ?thesis
    by (simp add: take_message_def)
qed

lemma balanced_received_arm:
  assumes "balanced (le_sizes env) rs n st"
    and "length (rs @ received_records msg) + n + sum_gaps dropped_records (received_reports msg)
         \<le> usize_max"
  shows "balanced (le_sizes env) (rs @ received_records msg)
           (n + sum_gaps dropped_records (received_reports msg)) (received_arm env ps msg st)"
proof -
  have "balanced (le_sizes env) rs n (age_out (ps_now ps) st)"
    using assms by (intro balanced_age_out) simp_all
  from balanced_take_message [OF this assms(2)] show ?thesis
    using assms(2) by (simp add: received_arm_def Let_def balanced_end_of_pass)
qed

lemma balanced_timer_arm:
  assumes "balanced (le_sizes env) rs n st" and "length rs + n \<le> usize_max"
  shows "balanced (le_sizes env) rs n (timer_arm env ps st)"
proof -
  obtain ended st1 where f: "flush_retry_buffer env (ps_now ps) (age_out (ps_now ps) st) = (ended, st1)"
    by force
  have "balanced (le_sizes env) rs n st1"
    using assms by (intro balanced_flush [OF f] balanced_age_out)
  then have "balanced (le_sizes env) rs n (end_of_pass env ps
      (if backlog_len st1 < backlog_len (age_out (ps_now ps) st)
       then st1\<lparr>sl_backoff := reset_backoff (sl_backoff st1)\<rparr> else st1))"
    using assms(2) by (intro balanced_end_of_pass) simp_all
  with f show ?thesis by (cases ended) (simp_all add: timer_arm_def Let_def)
qed

section \<open>What the passes leave alone\<close>

lemma age_out_fields [simp]:
  "sl_queue (age_out now st) = sl_queue st" "sl_next_retry (age_out now st) = sl_next_retry st"
  "sl_outcomes (age_out now st) = sl_outcomes st" "sl_spool (age_out now st) = sl_spool st"
  "sl_disk (age_out now st) = sl_disk st" "sl_pacer (age_out now st) = sl_pacer st"
  by (simp_all add: age_out_def split: prod.splits)

lemma buffer_batch_fields [simp]:
  "sl_queue (buffer_batch env now b st) = sl_queue st"
  "sl_next_retry (buffer_batch env now b st) = sl_next_retry st"
  "sl_outcomes (buffer_batch env now b st) = sl_outcomes st"
  "sl_spool (buffer_batch env now b st) = sl_spool st"
  "sl_disk (buffer_batch env now b st) = sl_disk st"
  "sl_pacer (buffer_batch env now b st) = sl_pacer st"
  by (simp_all add: buffer_batch_def split: prod.splits)

lemma record_sink_error_fields [simp]:
  "sl_queue (record_sink_error st) = sl_queue st"
  "sl_next_retry (record_sink_error st) = sl_next_retry st"
  "sl_spool (record_sink_error st) = sl_spool st" "sl_disk (record_sink_error st) = sl_disk st"
  "sl_pacer (record_sink_error st) = sl_pacer st"
  by (simp_all add: record_sink_error_def)

lemma send_batch_queue [simp]:
  "send_batch env b st = (r, st') \<Longrightarrow> sl_queue st' = sl_queue st"
  "send_batch env b st = (r, st') \<Longrightarrow> sl_next_retry st' = sl_next_retry st"
  "send_batch env b st = (r, st') \<Longrightarrow> sl_spool st' = sl_spool st"
  "send_batch env b st = (r, st') \<Longrightarrow> sl_disk st' = sl_disk st"
  "send_batch env b st = (r, st') \<Longrightarrow> sl_pacer st' = sl_pacer st"
  by (auto simp: send_batch_def split: prod.splits)

text \<open>The part of the state only the start and the end of a pass touch.\<close>

definition frame_of :: "'w sink_loop \<Rightarrow> sink_queue \<times> nat option \<times> spool option \<times> disk" where
  "frame_of st = (sl_queue st, sl_next_retry st, sl_spool st, sl_disk st)"

lemma frame_take_message: "frame_of (take_message env now msg st) = frame_of st"
  by (auto simp: take_message_def take_records_def take_reports_def frame_of_def Let_def
      split: received.splits prod.splits sum.splits)

lemma pace_queue [simp]:
  "poll_batch env now b st = (p, st') \<Longrightarrow> sl_queue st' = sl_queue st"
  "poll_batch env now b st = (p, st') \<Longrightarrow> sl_next_retry st' = sl_next_retry st"
  "poll_batch env now b st = (p, st') \<Longrightarrow> sl_spool st' = sl_spool st"
  "poll_batch env now b st = (p, st') \<Longrightarrow> sl_disk st' = sl_disk st"
  by (auto simp: poll_batch_def split: prod.splits)

lemma note_refusal_queue [simp]:
  "sl_queue (note_refusal err st) = sl_queue st"
  "sl_next_retry (note_refusal err st) = sl_next_retry st"
  "sl_spool (note_refusal err st) = sl_spool st" "sl_disk (note_refusal err st) = sl_disk st"
  by (cases err; simp add: note_refusal_def record_sink_error_def)+

lemma frame_gap_turn: "flush_gap_turn env now b st = (e, st') \<Longrightarrow> frame_of st' = frame_of st"
  by (auto simp: flush_gap_turn_def gap_done_def frame_of_def Let_def
      split: prod.splits pace.splits sum.splits if_splits)

lemma frame_batch_turn: "flush_batch_turn env now b st = (e, st') \<Longrightarrow> frame_of st' = frame_of st"
  by (auto simp: flush_batch_turn_def deliver_front_def refuse_front_def frame_of_def Let_def
      split: prod.splits pace.splits sum.splits if_splits option.splits)

lemma frame_next_gap: "next_gap env st = (b, st') \<Longrightarrow> frame_of st' = frame_of st"
  by (auto simp: next_gap_def frame_of_def split: prod.splits)

lemma frame_flush:
  assumes "flush_retry_buffer env now st = (e, st')"
  shows "frame_of st' = frame_of st"
  by (rule flush_keeps [where P = "\<lambda>s. frame_of s = frame_of st", OF assms refl])
    (metis frame_next_gap frame_gap_turn frame_batch_turn)+

lemma pressure_queue:
  "\<exists>on. sl_queue (shed_under_memory_pressure limit high current st) =
     snd (set_memory_pressure on (sl_queue st))"
proof (cases "memory_ratio limit current")
  case None
  then show ?thesis
    by (intro exI [of _ "sq_under_pressure (sl_queue st)"])
      (simp add: shed_under_memory_pressure_def set_memory_pressure_def)
next
  case (Some ratio)
  then show ?thesis
    by (intro exI [of _ "queue_pressured high ratio (sq_under_pressure (sl_queue st))"])
      (simp add: shed_under_memory_pressure_def Let_def split: prod.splits)
qed

lemma end_of_pass_queue:
  "\<exists>on. sl_queue (end_of_pass env ps st) = snd (set_memory_pressure on (sl_queue st))"
proof (cases "le_limit env")
  case None
  then show ?thesis
    by (intro exI [of _ "sq_under_pressure (sl_queue st)"])
      (simp add: end_of_pass_def set_memory_pressure_def)
next
  case (Some limit)
  with pressure_queue show ?thesis by (simp add: end_of_pass_def)
qed

lemma received_arm_queue:
  "\<exists>on. sl_queue (received_arm env ps msg st) = snd (set_memory_pressure on (sl_queue st))"
  using end_of_pass_queue [of env ps "take_message env (ps_now ps) msg (age_out (ps_now ps) st)"]
    frame_take_message [of env "ps_now ps" msg "age_out (ps_now ps) st"]
  by (simp add: received_arm_def frame_of_def Let_def)

lemma timer_arm_queue:
  "\<exists>on. sl_queue (timer_arm env ps st) = snd (set_memory_pressure on (sl_queue st))"
proof -
  obtain ended st1 where f: "flush_retry_buffer env (ps_now ps) (age_out (ps_now ps) st) = (ended, st1)"
    by force
  let ?st2 = "if backlog_len st1 < backlog_len (age_out (ps_now ps) st)
    then st1\<lparr>sl_backoff := reset_backoff (sl_backoff st1)\<rparr> else st1"
  have "sl_queue ?st2 = sl_queue st" using frame_flush [OF f] by (simp add: frame_of_def)
  moreover have "sl_queue (timer_arm env ps st) = sl_queue (end_of_pass env ps ?st2)"
    using f by (cases ended) (simp_all add: timer_arm_def Let_def)
  ultimately show ?thesis using end_of_pass_queue [of env ps ?st2] by simp
qed

section \<open>Runs of the pipeline\<close>

text \<open>The tally is the history of the queue; the state is the loop's.\<close>

fun pipeline_step ::
  "(evidence_record list \<Rightarrow> nat) \<Rightarrow> 'w loop_env \<Rightarrow> loop_event \<Rightarrow> tally \<times> 'w sink_loop \<Rightarrow>
   tally \<times> 'w sink_loop" where
  "pipeline_step resident env (Offer rs) (t, st) =
     (case try_send resident rs (sl_queue st) of
        (a, q) \<Rightarrow> (note_sent a (apply_scope (sl_queue st) rs) t, st\<lparr>sl_queue := q\<rparr>))"
| "pipeline_step resident env (Poll_queue ps) (t, st) =
     (note_received (fst (recv (sl_queue st))) t, receive_step env ps st)"
| "pipeline_step resident env (Poll_timer ps) (t, st) = (t, timer_step env ps st)"

definition run_pipeline ::
  "(evidence_record list \<Rightarrow> nat) \<Rightarrow> 'w loop_env \<Rightarrow> loop_event list \<Rightarrow> tally \<times> 'w sink_loop \<Rightarrow>
   tally \<times> 'w sink_loop" where
  "run_pipeline resident env evs s = fold (pipeline_step resident env) evs s"

fun offers :: "loop_event list \<Rightarrow> evidence_record list list" where
  "offers [] = []"
| "offers (Offer rs # evs) = rs # offers evs"
| "offers (_ # evs) = offers evs"

lemma offers_append [simp]: "offers (xs @ ys) = offers xs @ offers ys"
  by (induction xs rule: offers.induct) simp_all

text \<open>The start: what the spool held is enqueued, the queue is fresh.\<close>

definition start_loop ::
  "'w loop_env \<Rightarrow> (u8 list \<Rightarrow> evidence_batch option) \<Rightarrow> io_plan \<Rightarrow> retry_buffer_config \<Rightarrow>
   retry_backoff_config \<Rightarrow> drain_pace_config \<Rightarrow> spool option \<Rightarrow> disk \<Rightarrow> sink_queue \<Rightarrow> 'w \<Rightarrow>
   'w sink_loop" where
  "start_loop env from_slice io rc bc pc sp d q w =
     replay_spool env from_slice io (initial_loop rc bc pc sp d q w)"

definition recovered_records ::
  "(u8 list \<Rightarrow> evidence_batch option) \<Rightarrow> spool option \<Rightarrow> disk \<Rightarrow> evidence_record list" where
  "recovered_records from_slice sp d =
     (case sp of None \<Rightarrow> []
      | Some _ \<Rightarrow> concat (map eb_records (fst (replay from_slice (main_file d)))))"

lemma balanced_initial: "balanced hs [] 0 (initial_loop rc bc pc sp d q w)"
  by (simp add: balanced_def initial_loop_def buffer_inv_new [unfolded new_retry_buffer_def] delivered_records_def
      answered_reported_def pending_reported_def no_gaps_def sum_gaps_def new_retry_buffer_def
      held_def)

lemma balanced_enqueue_all:
  "balanced (le_sizes env) rs n st \<Longrightarrow>
   length (rs @ concat (map eb_records bs)) + n \<le> usize_max \<Longrightarrow>
   balanced (le_sizes env) (rs @ concat (map eb_records bs)) n (fold (buffer_batch env now) bs st)"
proof (induction bs arbitrary: rs st)
  case Nil
  then show ?case by simp
next
  case (Cons b bs)
  then have "balanced (le_sizes env) (rs @ eb_records b) n (buffer_batch env now b st)"
    by (intro balanced_buffer_batch) simp_all
  from Cons.IH [OF this] Cons.prems(2) show ?case by simp
qed

lemma buffer_all_fields [simp]:
  "sl_queue (fold (buffer_batch env now) bs st) = sl_queue st"
  "sl_next_retry (fold (buffer_batch env now) bs st) = sl_next_retry st"
  "sl_spool (fold (buffer_batch env now) bs st) = sl_spool st"
  "sl_disk (fold (buffer_batch env now) bs st) = sl_disk st"
  "sl_outcomes (fold (buffer_batch env now) bs st) = sl_outcomes st"
  "sl_pacer (fold (buffer_batch env now) bs st) = sl_pacer st"
  by (induction bs arbitrary: st) simp_all

lemma balanced_spool [simp]:
  "balanced hs rs n (st\<lparr>sl_spool := sp, sl_disk := d\<rparr>) = balanced hs rs n st"
  by (simp add: balanced_def)

lemma balanced_start:
  assumes "length (recovered_records from_slice sp d) \<le> usize_max"
  shows "balanced (le_sizes env) (recovered_records from_slice sp d) 0
           (start_loop env from_slice io rc bc pc sp d q w)"
proof (cases sp)
  case None
  then show ?thesis
    using balanced_initial [of "le_sizes env" rc bc pc sp d q w]
    by (simp add: start_loop_def replay_spool_def recovered_records_def initial_loop_def)
next
  case (Some s)
  let ?bs = "fst (replay from_slice (main_file d))"
  have "balanced (le_sizes env) ([] @ concat (map eb_records ?bs)) 0
      (fold (buffer_batch env 0) ?bs (initial_loop rc bc pc sp d q w))"
    using assms Some
    by (intro balanced_enqueue_all balanced_initial) (simp add: recovered_records_def)
  moreover have "sl_spool (initial_loop rc bc pc sp d q w) = Some s"
    "sl_disk (initial_loop rc bc pc sp d q w) = d"
    using Some by (simp_all add: initial_loop_def)
  ultimately show ?thesis
    using Some
    by (simp add: start_loop_def replay_spool_def recovered_records_def Let_def split: prod.splits)
qed

lemma start_queue: "sl_queue (start_loop env from_slice io rc bc pc sp d q w) = q"
proof -
  have "sl_queue (initial_loop rc bc pc sp d q w) = q" by (simp add: initial_loop_def)
  then show ?thesis
    by (simp add: start_loop_def replay_spool_def Let_def split: option.splits prod.splits)
qed

text \<open>The accounts of both halves.\<close>

definition sends :: "loop_event list \<Rightarrow> queue_op list" where
  "sends evs = map Send (offers evs)"

lemma sent_by_sends [simp]: "sent_by (map Send rss) = rss"
  by (induction rss) simp_all

lemma run_bounds_cong:
  "sent_by ops = sent_by ops' \<Longrightarrow> run_bounds resident q0 ops s = run_bounds resident q0 ops' s"
  by (simp add: run_bounds_def offered_def)

definition pipeline_inv ::
  "(evidence_record list \<Rightarrow> nat) \<Rightarrow> heap_sizes \<Rightarrow> evidence_record list \<Rightarrow> sink_queue \<Rightarrow>
   loop_event list \<Rightarrow> tally \<times> 'w sink_loop \<Rightarrow> bool" where
  "pipeline_inv resident hs recovered q0 evs s = (case s of (t, st) \<Rightarrow>
     run_inv (t, sl_queue st) \<and> run_bounds resident q0 (sends evs) (t, sl_queue st) \<and>
     balanced hs (recovered @ concat (t_delivered t)) (sum_gaps dropped_records (t_gaps t)) st)"

lemma run_inv_pressure [simp]:
  "run_inv (t, snd (set_memory_pressure on q)) = run_inv (t, q)"
  "run_bounds resident q0 ops (t, snd (set_memory_pressure on q)) =
   run_bounds resident q0 ops (t, q)"
  by (simp_all add: run_inv_def run_bounds_def queue_ok_def set_memory_pressure_def)

definition everything_fits ::
  "(evidence_record list \<Rightarrow> nat) \<Rightarrow> evidence_record list \<Rightarrow> sink_queue \<Rightarrow> loop_event list \<Rightarrow> bool" where
  "everything_fits resident recovered q0 evs =
     (sends_fit resident q0 (sends evs) \<and>
      length recovered + sum_list (map (length \<circ> apply_scope q0) (offers evs)) \<le> usize_max)"

lemma everything_fits_prefix:
  "everything_fits resident recovered q0 (evs @ [ev]) \<Longrightarrow>
   everything_fits resident recovered q0 evs"
  by (simp add: everything_fits_def sends_fit_def sends_def)

lemma length_concat_offered:
  "length (concat (filter (\<lambda>rs. rs \<noteq> []) xss)) = sum_list (map length xss)"
  by (induction xss) simp_all

lemma concat_offered: "concat (filter (\<lambda>rs. rs \<noteq> []) xss) = concat xss"
  by (induction xss) simp_all

lemma mset_concat_lists: "mset xss + mset yss = mset zss \<Longrightarrow>
  mset (concat xss) + mset (concat yss) = mset (concat zss)"
  by (metis concat_append mset_append mset_concat sum_mset_sum_list mset_map)

lemma pipeline_total:
  assumes "run_inv (t, q)" and "run_bounds resident q0 (sends evs) (t, q)"
    and "everything_fits resident recovered q0 evs"
  shows "length recovered + length (concat (t_delivered t)) +
         length (concat (messages_of (sq_queue q))) +
         (sum_gaps dropped_records (t_gaps t) + sum_gaps dropped_records (sq_reports q)) \<le> usize_max"
proof -
  have a: "t_admitted t = t_delivered t @ messages_of (sq_queue q)"
    and r: "sum_gaps dropped_records (t_gaps t) + sum_gaps dropped_records (sq_reports q) =
      length (concat (t_refused t))"
    using assms(1) by (simp_all add: run_inv_def)
  have "mset (t_admitted t) + mset (t_refused t) = mset (offered q0 (sends evs))"
    using assms(2) by (simp add: run_bounds_def)
  then have "size (mset (concat (t_admitted t)) + mset (concat (t_refused t))) =
      size (mset (concat (offered q0 (sends evs))))" using mset_concat_lists by metis
  then have "length (concat (t_admitted t)) + length (concat (t_refused t)) =
      sum_list (map length (map (apply_scope q0) (offers evs)))"
    unfolding size_union size_mset offered_def length_concat_offered by (simp add: sends_def)
  with assms(3) show ?thesis by (simp add: everything_fits_def a r)
qed

lemma pipeline_inv_step:
  assumes "pipeline_inv resident (le_sizes env) recovered q0 evs s"
    and "everything_fits resident recovered q0 (evs @ [ev])"
  shows "pipeline_inv resident (le_sizes env) recovered q0 (evs @ [ev])
           (pipeline_step resident env ev s)"
proof -
  obtain t st where s: "s = (t, st)" by force
  have i: "run_inv (t, sl_queue st)" "run_bounds resident q0 (sends evs) (t, sl_queue st)"
    and b: "balanced (le_sizes env) (recovered @ concat (t_delivered t))
              (sum_gaps dropped_records (t_gaps t)) st"
    using assms(1) s by (simp_all add: pipeline_inv_def)
  have fits: "everything_fits resident recovered q0 evs" by (rule everything_fits_prefix [OF assms(2)])
  show ?thesis
  proof (cases ev)
    case (Offer rs)
    have fit: "sends_fit resident q0 (sends evs @ [Send rs])"
      using assms(2) Offer by (simp add: everything_fits_def sends_def)
    obtain a q where e: "try_send resident rs (sl_queue st) = (a, q)" by force
    let ?t = "note_sent a (apply_scope (sl_queue st) rs) t"
    have same: "t_delivered ?t = t_delivered t \<and> t_gaps ?t = t_gaps t"
      by (induction a "apply_scope (sl_queue st) rs" t rule: note_sent.induct) simp_all
    from run_step_send [OF i fit] e have "run_inv (?t, q)"
      "run_bounds resident q0 (sends evs @ [Send rs]) (?t, q)" by (simp_all add: Let_def)
    with same b s Offer e show ?thesis by (simp add: pipeline_inv_def sends_def)
  next
    case (Poll_timer ps)
    have len: "length (recovered @ concat (t_delivered t)) + sum_gaps dropped_records (t_gaps t)
        \<le> usize_max" using pipeline_total [OF i fits] by simp
    obtain on where q: "sl_queue (timer_arm env ps st) = snd (set_memory_pressure on (sl_queue st))"
      using timer_arm_queue by blast
    have "balanced (le_sizes env) (recovered @ concat (t_delivered t))
        (sum_gaps dropped_records (t_gaps t)) (timer_step env ps st)"
      using b balanced_timer_arm [OF b len] by (simp add: timer_step_def split: option.splits)
    moreover have "run_inv (t, sl_queue (timer_step env ps st)) \<and>
        run_bounds resident q0 (sends evs) (t, sl_queue (timer_step env ps st))"
      using i q by (simp add: timer_step_def split: option.splits)
    ultimately show ?thesis using s Poll_timer by (simp add: pipeline_inv_def sends_def)
  next
    case (Poll_queue ps)
    obtain r q where e: "recv (sl_queue st) = (r, q)" by force
    let ?t = "note_received r t"
    have i': "run_inv (?t, q)" using run_inv_recv [OF i(1), of resident] e by (simp add: Let_def)
    have b': "run_bounds resident q0 (sends evs) (?t, q)"
      using run_bounds_recv [OF i] e
        run_bounds_cong [of "sends evs @ [Receive]" "sends evs" resident q0]
      by (simp add: Let_def)
    have tot: "length (recovered @ concat (t_delivered ?t)) + sum_gaps dropped_records (t_gaps ?t)
        \<le> usize_max" using pipeline_total [OF i' b' fits] by simp
    have "run_inv (?t, sl_queue (receive_step env ps st)) \<and>
        run_bounds resident q0 (sends evs) (?t, sl_queue (receive_step env ps st)) \<and>
        balanced (le_sizes env) (recovered @ concat (t_delivered ?t))
          (sum_gaps dropped_records (t_gaps ?t)) (receive_step env ps st)"
    proof (cases r)
      case None
      with e i' b' b show ?thesis by (simp add: receive_step_def)
    next
      case (Some msg)
      let ?st = "st\<lparr>sl_queue := q\<rparr>"
      have n: "concat (t_delivered ?t) = concat (t_delivered t) @ received_records msg"
        "sum_gaps dropped_records (t_gaps ?t) =
         sum_gaps dropped_records (t_gaps t) + sum_gaps dropped_records (received_reports msg)"
        using Some by (cases msg; simp add: sum_gaps_def)+
      have "balanced (le_sizes env) (recovered @ concat (t_delivered t))
          (sum_gaps dropped_records (t_gaps t)) ?st" using b by simp
      from balanced_received_arm [OF this, of msg ps] tot
      have "balanced (le_sizes env) (recovered @ concat (t_delivered ?t))
          (sum_gaps dropped_records (t_gaps ?t)) (received_arm env ps msg ?st)"
        unfolding n by simp
      moreover obtain on where "sl_queue (received_arm env ps msg ?st) =
          snd (set_memory_pressure on q)"
        using received_arm_queue [of env ps msg ?st] by auto
      ultimately show ?thesis using e Some i' b' by (simp add: receive_step_def)
    qed
    with s Poll_queue e show ?thesis by (simp add: pipeline_inv_def sends_def)
  qed
qed

lemma run_pipeline_inv:
  assumes "everything_fits resident recovered (new_queue c scope) evs"
    and "sl_queue st0 = new_queue c scope" and "balanced (le_sizes env) recovered 0 st0"
  shows "pipeline_inv resident (le_sizes env) recovered (new_queue c scope) evs
           (run_pipeline resident env evs (no_tally, st0))"
  using assms(1)
proof (induction evs rule: rev_induct)
  case Nil
  have "t_delivered no_tally = []" "t_gaps no_tally = []" by (simp_all add: no_tally_def)
  then show ?case
    using run_inv_new [of c scope] assms(2,3) run_queue_inv [of resident c scope "[]"]
    by (simp add: pipeline_inv_def run_pipeline_def sends_def sum_gaps_def sends_fit_def
        run_queue_def)
next
  case (snoc ev evs)
  from pipeline_inv_step [OF snoc.IH [OF everything_fits_prefix [OF snoc.prems]] snoc.prems]
  show ?case by (simp add: run_pipeline_def)
qed

section \<open>The timer\<close>

definition timer_armed :: "'w sink_loop \<Rightarrow> bool" where
  "timer_armed st = (sl_next_retry st \<noteq> None)"

lemma has_backlog_cong:
  "sl_retry st' = sl_retry st \<Longrightarrow> sl_gaps st' = sl_gaps st \<Longrightarrow> has_backlog st' = has_backlog st"
  by (simp add: has_backlog_def)

lemma schedule_armed:
  "timer_armed (schedule_retry hash later cur st) = has_backlog st"
  "has_backlog (schedule_retry hash later cur st) = has_backlog st"
  by (auto simp: schedule_retry_def timer_armed_def has_backlog_def
      split: option.splits prod.splits)

lemma merge_gap_not_empty: "\<not> gaps_empty (merge_gap g pg)"
  by (simp add: merge_gap_def gaps_empty_def)

lemma extend_not_empty: "gaps_empty (extend_gaps gs pg) \<longleftrightarrow> gs = [] \<and> gaps_empty pg"
proof (cases gs rule: rev_cases)
  case Nil
  then show ?thesis by (simp add: extend_gaps_def)
next
  case (snoc hs g)
  then show ?thesis by (simp add: extend_gaps_def merge_gap_not_empty)
qed

lemma backlog_pressure: 
  "has_backlog (shed_under_memory_pressure limit high current st) = has_backlog st"
proof (cases "memory_ratio limit current")
  case None
  then show ?thesis by (simp add: shed_under_memory_pressure_def)
next
  case (Some ratio)
  let ?st' = "shed_under_memory_pressure limit high current st"
  show ?thesis
  proof (cases "ratio < high \<or> rt_batches (sl_retry st) = []")
    case True
    with Some show ?thesis
      by (intro has_backlog_cong) (simp_all add: shed_under_memory_pressure_def Let_def)
  next
    case False
    let ?t = "nat \<lfloor>real (rt_bytes (sl_retry st)) * memory_shed_fraction\<rfloor>"
    obtain gaps rb where e: "shed_to ?t (sl_retry st) = (gaps, rb)" by force
    from shed_while_sheds [OF e [unfolded shed_to_def]] obtain xs where
      xs: "rt.sheds (sl_retry st) xs rb" and gaps: "gaps = map (shed_gap ''memory_pressure'') xs"
      by auto
    have "sl_retry ?st' = rb" "sl_gaps ?st' = extend_gaps gaps (sl_gaps st)"
      using Some False e by (simp_all add: shed_under_memory_pressure_def Let_def)
    moreover have "rt_batches rb \<noteq> [] \<or> xs \<noteq> []"
      using rt.sheds_length [OF xs] False by auto
    ultimately show ?thesis using False by (auto simp: has_backlog_def extend_not_empty gaps)
  qed
qed

lemma backlog_end_of_pass [simp]: "has_backlog (end_of_pass env ps st) = has_backlog st"
  using backlog_pressure by (auto simp: end_of_pass_def has_backlog_def split: option.splits)

lemma flush_paced_backlog:
  assumes "flush_retry_buffer env now st = (Paced ms, st')"
  shows "has_backlog st'"
proof -
  have gaps: "flush_gaps env now st = (Some (Paced ms), st') \<Longrightarrow> in_flight (sl_gaps st') \<noteq> None" for st
  proof (induction env now st arbitrary: st' rule: flush_gaps.induct)
    case (1 env now st)
    obtain b st1 where n: "next_gap env st = (b, st1)" by force
    obtain x where b: "b = Some x" using 1(2) n by (cases b) (simp_all add: flush_gaps.simps [of env now st])
    obtain e2 st2 where t: "flush_gap_turn env now x st1 = (e2, st2)" by force
    show ?case
    proof (cases e2)
      case None
      with 1(2) n b t have "flush_gaps env now st2 = (Some (Paced ms), st')"
        by (simp add: flush_gaps.simps [of env now st])
      from 1(1) [OF n [symmetric] b t [symmetric] None this] show ?thesis .
    next
      case (Some y)
      with 1(2) n b t have "flush_gap_turn env now x st1 = (Some (Paced ms), st')"
        by (simp add: flush_gaps.simps [of env now st])
      then have "sl_gaps st' = sl_gaps st1"
        by (auto simp: flush_gap_turn_def Let_def split: prod.splits pace.splits sum.splits if_splits)
      with next_gap_in_flight [OF n] b show ?thesis by simp
    qed
  qed
  have bats: "flush_batches env now st = (Paced ms, st') \<Longrightarrow> rt_batches (sl_retry st') \<noteq> []" for st
  proof (induction env now st arbitrary: st' rule: flush_batches.induct)
    case (1 env now st)
    obtain b where b: "front (sl_retry st) = Some b"
      using 1(2) by (cases "front (sl_retry st)") (simp_all add: flush_batches.simps [of env now st])
    obtain e2 st2 where t: "flush_batch_turn env now b st = (e2, st2)" by force
    show ?case
    proof (cases e2)
      case None
      with 1(2) b t have "flush_batches env now st2 = (Paced ms, st')"
        by (simp add: flush_batches.simps [of env now st])
      from 1(1) [OF b t [symmetric] None this] show ?thesis .
    next
      case (Some y)
      with 1(2) b t have "flush_batch_turn env now b st = (Some (Paced ms), st')"
        by (simp add: flush_batches.simps [of env now st])
      then have "sl_retry st' = sl_retry st"
        by (auto simp: flush_batch_turn_def Let_def split: prod.splits pace.splits sum.splits if_splits)
      with b show ?thesis by (auto simp: front_def split: list.splits)
    qed
  qed
  from assms gaps bats show ?thesis
    by (auto simp: flush_retry_buffer_def has_backlog_def gaps_empty_def split: prod.splits option.splits)
qed

lemma received_arm_armed:
  "timer_armed (received_arm env ps msg st) = has_backlog (received_arm env ps msg st)"
  by (simp add: received_arm_def schedule_armed Let_def)

lemma timer_arm_armed: "timer_armed (timer_arm env ps st) = has_backlog (timer_arm env ps st)"
proof -
  obtain ended st1 where f: "flush_retry_buffer env (ps_now ps) (age_out (ps_now ps) st) = (ended, st1)"
    by force
  let ?st2 = "if backlog_len st1 < backlog_len (age_out (ps_now ps) st)
    then st1\<lparr>sl_backoff := reset_backoff (sl_backoff st1)\<rparr> else st1"
  have same: "has_backlog ?st2 = has_backlog st1" by (intro has_backlog_cong) simp_all
  show ?thesis
  proof (cases ended)
    case (Paced ms)
    with f have "timer_arm env ps st = (end_of_pass env ps ?st2)\<lparr>sl_next_retry := Some (ps_later ps + ms)\<rparr>"
      by (simp add: timer_arm_def Let_def)
    moreover have "has_backlog (end_of_pass env ps ?st2)"
      using flush_paced_backlog [of env "ps_now ps" "age_out (ps_now ps) st" ms st1] f Paced same by simp
    ultimately show ?thesis by (simp add: timer_armed_def has_backlog_def)
  qed (use f in \<open>simp_all add: timer_arm_def schedule_armed Let_def\<close>)
qed

lemma armed_queue [simp]:
  "timer_armed (st\<lparr>sl_queue := q\<rparr>) = timer_armed st"
  "has_backlog (st\<lparr>sl_queue := q\<rparr>) = has_backlog st"
  by (simp_all add: timer_armed_def has_backlog_def)

lemma armed_step:
  assumes "timer_armed st = has_backlog st"
  shows "timer_armed (snd (pipeline_step resident env ev (t, st))) =
         has_backlog (snd (pipeline_step resident env ev (t, st)))"
proof (cases ev)
  case (Offer rs)
  then show ?thesis using assms by (simp split: prod.splits)
next
  case (Poll_queue ps)
  then show ?thesis using assms
    by (auto simp: receive_step_def received_arm_armed split: prod.splits option.splits)
next
  case (Poll_timer ps)
  then show ?thesis using assms
    by (auto simp: timer_step_def timer_arm_armed split: option.splits)
qed

lemma armed_run:
  "timer_armed st = has_backlog st \<Longrightarrow>
   timer_armed (snd (run_pipeline resident env evs (t, st))) =
   has_backlog (snd (run_pipeline resident env evs (t, st)))"
proof (induction evs rule: rev_induct)
  case Nil
  then show ?case by (simp add: run_pipeline_def)
next
  case (snoc ev evs)
  obtain t1 st1 where e: "run_pipeline resident env evs (t, st) = (t1, st1)" by force
  with snoc have "timer_armed st1 = has_backlog st1" by simp
  from armed_step [OF this, of resident env ev t1] e show ?case by (simp add: run_pipeline_def)
qed

lemma start_unarmed: "\<not> timer_armed (start_loop env from_slice io rc bc pc sp d q w)"
proof -
  have "sl_next_retry (initial_loop rc bc pc sp d q w) = None" by (simp add: initial_loop_def)
  then show ?thesis
    by (simp add: timer_armed_def start_loop_def replay_spool_def Let_def
        split: option.splits prod.splits)
qed

lemma timers_idle:
  "\<not> timer_armed st \<Longrightarrow> run_pipeline resident env (map Poll_timer pss) (t, st) = (t, st)"
  by (induction pss) (simp_all add: run_pipeline_def timer_step_def timer_armed_def)

section \<open>The spool\<close>

definition spool_current :: "(evidence_batch \<Rightarrow> string + u8 list) \<Rightarrow> 'w sink_loop \<Rightarrow> bool" where
  "spool_current to_vec st =
     (\<forall>s. sl_spool st = Some s \<longrightarrow> sp_disabled s = None \<longrightarrow>
        (\<exists>content. compact_frames to_vec (iter_batches (sl_retry st)) = Inr content \<and>
                   main_file (sl_disk st) = Some content))"

lemma compact_current:
  assumes "compact to_vec io bs s d = (ok, s', d')" and "sp_disabled s' = None"
  shows "\<exists>content. compact_frames to_vec bs = Inr content \<and> main_file d' = Some content"
  using assms
  by (auto simp: compact_def try_compact_def write_out_def
      split: if_splits option.splits prod.splits sum.splits)

lemma spool_current_cong:
  "sl_spool st' = sl_spool st \<Longrightarrow> sl_disk st' = sl_disk st \<Longrightarrow> sl_retry st' = sl_retry st \<Longrightarrow>
   spool_current to_vec st' = spool_current to_vec st"
  by (simp add: spool_current_def)

lemma sync_current: "spool_current (le_to_vec env) (sync_spool env io st)"
proof (cases "sl_spool st")
  case None
  then show ?thesis by (simp add: spool_current_def sync_spool_def)
next
  case (Some s)
  show ?thesis
  proof (cases "sp_disabled s")
    case None
    obtain ok s' d' where c: "compact (le_to_vec env) io (iter_batches (sl_retry st)) s (sl_disk st)
        = (ok, s', d')" by (metis prod_cases3)
    with Some None compact_current [OF c] show ?thesis
      by (simp add: spool_current_def sync_spool_def)
  qed (use Some in \<open>simp add: spool_current_def sync_spool_def\<close>)
qed

lemma end_of_pass_current: "spool_current (le_to_vec env) (end_of_pass env ps st)"
  unfolding end_of_pass_def
  by (subst spool_current_cong [OF publish_fields(8,9,1)]) (rule sync_current)

lemma received_arm_current: "spool_current (le_to_vec env) (received_arm env ps msg st)"
  unfolding received_arm_def Let_def
  by (subst spool_current_cong [OF schedule_fields(5,6,1)]) (rule end_of_pass_current)

lemma timer_arm_current: "spool_current (le_to_vec env) (timer_arm env ps st)"
proof -
  obtain ended st1 where f: "flush_retry_buffer env (ps_now ps) (age_out (ps_now ps) st) = (ended, st1)"
    by force
  let ?st3 = "end_of_pass env ps (if backlog_len st1 < backlog_len (age_out (ps_now ps) st)
    then st1\<lparr>sl_backoff := reset_backoff (sl_backoff st1)\<rparr> else st1)"
  have "sl_spool (timer_arm env ps st) = sl_spool ?st3 \<and> sl_disk (timer_arm env ps st) = sl_disk ?st3 \<and>
      sl_retry (timer_arm env ps st) = sl_retry ?st3"
    using f by (cases ended) (simp_all add: timer_arm_def Let_def)
  with end_of_pass_current spool_current_cong show ?thesis by metis
qed

lemma start_current:
  "spool_current (le_to_vec env) (start_loop env from_slice io rc bc pc sp d q w)"
proof (cases sp)
  case None
  then show ?thesis
    by (simp add: spool_current_def start_loop_def replay_spool_def initial_loop_def)
next
  case (Some s)
  let ?st = "initial_loop rc bc pc (Some s) d q w"
  let ?st1 = "fold (buffer_batch env 0) (fst (replay from_slice (main_file d))) ?st"
  have i: "sl_spool ?st = Some s" "sl_disk ?st = d" by (simp_all add: initial_loop_def)
  obtain ok s' d' where c: "compact (le_to_vec env) io (iter_batches (sl_retry ?st1)) s d
      = (ok, s', d')" by (metis prod_cases3)
  have "start_loop env from_slice io rc bc pc (Some s) d q w =
      ?st1\<lparr>sl_spool := Some s', sl_disk := d'\<rparr>"
    using c i by (simp add: start_loop_def replay_spool_def Let_def)
  then show ?thesis using compact_current [OF c] Some by (simp add: spool_current_def)
qed

lemma current_step:
  assumes "spool_current (le_to_vec env) st"
  shows "spool_current (le_to_vec env) (snd (pipeline_step resident env ev (t, st)))"
proof -
  have q: "spool_current (le_to_vec env) (st\<lparr>sl_queue := q\<rparr>)" for q
    using assms by (simp add: spool_current_def)
  show ?thesis
    using assms q by (cases ev)
      (auto simp: receive_step_def timer_step_def received_arm_current timer_arm_current
        split: prod.splits option.splits)
qed

lemma current_run:
  "spool_current (le_to_vec env) st \<Longrightarrow>
   spool_current (le_to_vec env) (snd (run_pipeline resident env evs (t, st)))"
proof (induction evs rule: rev_induct)
  case Nil
  then show ?case by (simp add: run_pipeline_def)
next
  case (snoc ev evs)
  obtain t1 st1 where e: "run_pipeline resident env evs (t, st) = (t1, st1)" by force
  with snoc have "spool_current (le_to_vec env) st1" by simp
  from current_step [OF this, where resident = resident and ev = ev and t = t1] e show ?case by (simp add: run_pipeline_def)
qed

lemma buffer_nothing:
  assumes "eb_records b = []" and "sl_retry st = new_retry_buffer rc"
  shows "sl_retry (buffer_batch env now b st) = new_retry_buffer rc \<and>
         sl_gaps (buffer_batch env now b st) = sl_gaps st"
proof -
  have "split_by_class ids b = []" for ids by (simp add: split_by_class_def assms(1))
  moreover have "\<not> over_budget (new_retry_buffer rc)"
    by (simp add: over_budget_def new_retry_buffer_def)
  ultimately show ?thesis
    by (simp add: buffer_batch_def enqueue_def assms(2) shed_while.simps extend_gaps_def)
qed

lemma buffer_nothings:
  "concat (map eb_records bs) = [] \<Longrightarrow> sl_retry st = new_retry_buffer rc \<Longrightarrow>
   sl_retry (fold (buffer_batch env now) bs st) = new_retry_buffer rc \<and>
   sl_gaps (fold (buffer_batch env now) bs st) = sl_gaps st"
  by (induction bs arbitrary: st) (simp_all add: buffer_nothing)

lemma start_idle:
  assumes "recovered_records from_slice sp d = []"
  shows "\<not> has_backlog (start_loop env from_slice io rc bc pc sp d q w)"
proof -
  let ?st = "initial_loop rc bc pc sp d q w"
  have i: "sl_retry ?st = new_retry_buffer rc" "sl_gaps ?st = no_gaps" "sl_spool ?st = sp"
    "sl_disk ?st = d" by (simp_all add: initial_loop_def)
  have "sl_retry (start_loop env from_slice io rc bc pc sp d q w) = new_retry_buffer rc \<and>
      sl_gaps (start_loop env from_slice io rc bc pc sp d q w) = no_gaps"
  proof (cases sp)
    case None
    with i show ?thesis by (simp add: start_loop_def replay_spool_def)
  next
    case (Some s)
    with assms have "concat (map eb_records (fst (replay from_slice (main_file d)))) = []"
      by (simp add: recovered_records_def)
    from buffer_nothings [OF this i(1), of env 0] Some i show ?thesis
      by (simp add: start_loop_def replay_spool_def Let_def split: prod.splits)
  qed
  then show ?thesis by (simp add: has_backlog_def new_retry_buffer_def no_gaps_def gaps_empty_def)
qed

lemma start_busy:
  assumes "recovered_records from_slice sp d \<noteq> []"
    and "length (recovered_records from_slice sp d) \<le> usize_max"
  shows "has_backlog (start_loop env from_slice io rc bc pc sp d q w)"
proof (rule ccontr)
  let ?st = "start_loop env from_slice io rc bc pc sp d q w"
  assume "\<not> has_backlog ?st"
  then have "held (rt_batches (sl_retry ?st)) = []" "pending_reported (sl_gaps ?st) = 0"
    by (simp_all add: has_backlog_def held_def gaps_empty_def pending_reported_def sum_gaps_def)
  moreover have "sl_outcomes (initial_loop rc bc pc sp d q w) = []" by (simp add: initial_loop_def)
  then have "sl_outcomes ?st = []"
    by (simp add: start_loop_def replay_spool_def Let_def split: option.splits prod.splits)
  ultimately show False
    using balanced_start [OF assms(2), of env io rc bc pc q w] assms(1)
    by (simp add: balanced_def delivered_records_def answered_reported_def)
qed

section \<open>Properties\<close>

text \<open>
  C1: no record leaves the pipeline unaccounted for, whatever the sink answers, however the
  readers' offers, the queue's and the timer's passes interleave, whatever memory pressure and
  spool failures occur: the records offered in scope and those recovered from the spool are
  the ones the sink accepted, those in the retry buffer, those in the queue, and lost ones;
  and the lost ones are exactly counted by the reports waiting at the queue, the reports
  pending in the loop, the gap evidence the sink accepted and the gap evidence it refused for
  good.
\<close>

theorem pipeline_conserves:
  assumes "everything_fits resident (recovered_records from_slice sp d) (new_queue c scope) evs"
    and "run_pipeline resident env evs
           (no_tally, start_loop env from_slice io rc bc pc sp d (new_queue c scope) w) = (t, st)"
  shows "\<exists>lost.
     mset (recovered_records from_slice sp d) +
       mset (concat (map (apply_scope (new_queue c scope)) (offers evs))) =
     mset (delivered_records (sl_outcomes st)) + mset (held (rt_batches (sl_retry st))) +
       mset (concat (messages_of (sq_queue (sl_queue st)))) + mset lost \<and>
     length lost =
       sum_gaps dropped_records (sq_reports (sl_queue st)) + pending_reported (sl_gaps st) +
       sum_list (map reported_to_sink (sl_outcomes st)) +
       sum_list (map reports_abandoned (sl_outcomes st))"
proof -
  let ?q0 = "new_queue c scope" and ?rec = "recovered_records from_slice sp d"
  have "length ?rec \<le> usize_max" using assms(1) by (simp add: everything_fits_def)
  from run_pipeline_inv [OF assms(1) start_queue balanced_start [OF this], of env io rc bc pc w] assms(2)
  have i: "run_inv (t, sl_queue st)" "run_bounds resident ?q0 (sends evs) (t, sl_queue st)"
    and b: "balanced (le_sizes env) (?rec @ concat (t_delivered t))
              (sum_gaps dropped_records (t_gaps t)) st"
    by (simp_all add: pipeline_inv_def)
  from b obtain lost where l: "mset (?rec @ concat (t_delivered t)) =
      mset (delivered_records (sl_outcomes st)) + mset (held (rt_batches (sl_retry st))) + mset lost"
    and n: "length lost + sum_gaps dropped_records (t_gaps t) =
      pending_reported (sl_gaps st) + answered_reported (sl_outcomes st)"
    by (auto simp: balanced_def)
  have a: "t_admitted t = t_delivered t @ messages_of (sq_queue (sl_queue st))"
    and r: "sum_gaps dropped_records (t_gaps t) + sum_gaps dropped_records (sq_reports (sl_queue st)) =
      length (concat (t_refused t))"
    using i(1) by (simp_all add: run_inv_def)
  have "mset (t_admitted t) + mset (t_refused t) = mset (offered ?q0 (sends evs))"
    using i(2) by (simp add: run_bounds_def)
  from mset_concat_lists [OF this]
  have "mset (concat (map (apply_scope ?q0) (offers evs))) =
      mset (concat (t_delivered t)) + mset (concat (messages_of (sq_queue (sl_queue st)))) +
      mset (concat (t_refused t))"
    by (simp add: a offered_def sends_def concat_offered del: mset_concat)
  then show ?thesis
    using l n r by (intro exI [of _ "lost @ concat (t_refused t)"])
      (simp add: answered_reported_def ac_simps del: mset_concat)
qed

definition sample_env :: "nat loop_env" where
  "sample_env =
     \<lparr>le_append = (\<lambda>b n. if n = 0 then (Inl (SUnavailable ''s'' ''down''), 1)
                        else (Inr (append_accepted ''s'' (batch_len b)), n + 1)),
      le_sizes = unit_sizes, le_hash = (\<lambda>x. x), le_json = concat,
      le_producer = new_producer ''0.3'' ''kube'' ''node'' ''6.1'', le_id = (\<lambda>n. ''id''),
      le_ulid = (\<lambda>n. 7), le_wall_clock = (\<lambda>n. 0), le_to_vec = (\<lambda>b. Inl ''off''), le_limit = None,
      le_high_watermark = 1\<rparr>"

definition pass_at :: "nat \<Rightarrow> pass" where
  "pass_at n = \<lparr>ps_now = n, ps_later = n, ps_memory = None, ps_io = all_well\<rparr>"

definition sample_start :: "nat \<Rightarrow> nat sink_loop" where
  "sample_start w = start_loop sample_env (\<lambda>_. None) all_well default_retry_config
     default_backoff_config default_pace_config None \<lparr>main_file = None, tmp_file = None\<rparr>
     (new_queue (new_queue_config 0) None) w"

lemma sample_start_fields:
  "sl_queue (sample_start w) = new_queue (new_queue_config 0) None"
  "sl_retry (sample_start w) = new_retry_buffer default_retry_config"
  "sl_gaps (sample_start w) = no_gaps" "sl_sink (sample_start w) = w" "sl_outcomes (sample_start w) = []"
  by (simp_all add: sample_start_def start_loop_def replay_spool_def initial_loop_def)

definition sample_queue :: sink_queue where
  "sample_queue = snd (try_send (\<lambda>rs. 100 * length rs) [sample_record] (new_queue (new_queue_config 0) None))"

lemma sample_queue_recv:
  "recv sample_queue = (Some (RecordsReceived [sample_record]), release 100 (sample_queue\<lparr>sq_queue := []\<rparr>))"
  "fst (try_send (\<lambda>rs. 100 * length rs) [sample_record] (new_queue (new_queue_config 0) None)) = Some Admitted"
  by (simp_all add: sample_queue_def  try_send_def new_queue_def apply_scope_def recv_simps reserve_def 
       admit_limit_def refuses_def new_queue_config_def
        Let_def record_unbound_drops_def sat_add_def usize_max_def admit_class_def sample_record_class)

lemma sample_env_send: "send_batch sample_env b st =
   (if sl_sink st = 0 then (Inl (SUnavailable ''s'' ''down''), st\<lparr>sl_sink := 1\<rparr>) else
     (Inr (append_accepted ''s'' (batch_len b)), st\<lparr>sl_sink := sl_sink st + 1\<rparr>))"
  by (simp add: send_batch_def sample_env_def)

lemma age_out_empty: "rt_batches (sl_retry st) = [] \<Longrightarrow> age_out now st = st"
  by (simp add: age_out_def drop_expired.simps [of now "sl_retry st"] expired_def extend_gaps_def)

lemma sample_env_fields:
  "le_limit sample_env = None" "le_id sample_env n = ''id''"
  by (simp_all add: sample_env_def)

lemma sample_delivers:
  "sl_outcomes (receive_step sample_env (pass_at 5) ((sample_start 1)\<lparr>sl_queue := sample_queue\<rparr>)) =
    [Delivered (new_batch ''id'' (le_producer sample_env) [sample_record])]"
  by (simp add: receive_step_def sample_queue_recv received_arm_def age_out_empty sample_start_fields
      new_retry_buffer_def take_message_def take_records_def has_backlog_def gaps_empty_def no_gaps_def
      sample_env_send Let_def end_of_pass_def sample_env_fields)

definition sample_run :: "loop_event list" where
  "sample_run = [Offer [sample_record], Poll_queue (pass_at 5)]"

lemma scope_off: "apply_scope (new_queue c None) = (\<lambda>rs. rs)"
  by (simp add: apply_scope_def new_queue_def fun_eq_iff)

theorem pipeline_conserves_witness:
  "\<exists>t st. run_pipeline (\<lambda>rs. 100 * length rs) sample_env sample_run (no_tally, sample_start 1) = (t, st) \<and>
     delivered_records (sl_outcomes st) = [sample_record] \<and>
     held (rt_batches (sl_retry st)) = [] \<and> pending_reported (sl_gaps st) = 0"
proof -
  let ?s = "run_pipeline (\<lambda>rs. 100 * length rs) sample_env sample_run (no_tally, sample_start 1)"
  obtain t st where e: "?s = (t, st)" by force
  have fits: "everything_fits (\<lambda>rs. 100 * length rs)
      (recovered_records (\<lambda>_. None) None \<lparr>main_file = None, tmp_file = None\<rparr>)
      (new_queue (new_queue_config 0) None) sample_run"
    by (simp add: everything_fits_def recovered_records_def sends_fit_def sends_def sample_run_def
        scope_off usize_max_def)
  have "sl_outcomes (snd ?s) = [Delivered (new_batch ''id'' (le_producer sample_env) [sample_record])]"
    using sample_delivers
    by (simp add: run_pipeline_def sample_run_def sample_start_fields sample_queue_def case_prod_unfold)
  then have o: "sl_outcomes st = [Delivered (new_batch ''id'' (le_producer sample_env) [sample_record])]"
    unfolding e by simp
  then have d: "delivered_records (sl_outcomes st) = [sample_record]"
    by (simp add: delivered_records_def)
  from pipeline_conserves [OF fits e [unfolded sample_start_def]] obtain lost where
    "mset [sample_record] = mset (delivered_records (sl_outcomes st)) +
       mset (held (rt_batches (sl_retry st))) +
       mset (concat (messages_of (sq_queue (sl_queue st)))) + mset lost"
    "length lost = sum_gaps dropped_records (sq_reports (sl_queue st)) + pending_reported (sl_gaps st) +
       sum_list (map reported_to_sink (sl_outcomes st)) + sum_list (map reports_abandoned (sl_outcomes st))"
    by (auto simp: recovered_records_def scope_off sample_run_def simp del: mset_concat)
  with d e show ?thesis by simp
qed



text \<open>
  recovered evidence waits for traffic.  After a restart with something to deliver nothing
  is scheduled, so however much time passes and however often the timer is polled, not one
  batch of what was recovered is sent until a reader's message arrives.
\<close>

theorem recovered_backlog_unscheduled:
  assumes "recovered_records from_slice sp d \<noteq> []"
    and "length (recovered_records from_slice sp d) \<le> usize_max"
    and "start_loop env from_slice io rc bc pc sp d q w = st"
  shows "has_backlog st \<and> run_pipeline resident env (map Poll_timer pss) (t, st) = (t, st)"
  unfolding assms(3) [symmetric]
  by (intro conjI start_busy [OF assms(1,2)] timers_idle [OF start_unarmed])

definition one_frame :: disk where
  "one_frame = \<lparr>main_file = Some (frame [1]), tmp_file = None\<rparr>"

definition one_spool :: spool where
  "one_spool = \<lparr>sp_max_bytes = 100, sp_file_bytes = 5, sp_disabled = None\<rparr>"

lemma one_frame_replayed:
  "recovered_records (\<lambda>_. Some sample_batch) (Some one_spool) one_frame = eb_records sample_batch"
proof -
  have "fst (replay_loop (\<lambda>_. Some sample_batch) (frame [1] @ [])) = [sample_batch]"
    by (subst replay_loop_frame) (simp_all add: max_frame_bytes_def replay_loop.simps)
  then show ?thesis
    by (simp add: recovered_records_def replay_def one_frame_def case_prod_unfold)
qed

theorem recovered_backlog_unscheduled_witness:
  "\<exists>st. start_loop sample_env (\<lambda>_. Some sample_batch) all_well default_retry_config
          default_backoff_config default_pace_config (Some one_spool) one_frame
          (new_queue (new_queue_config 0) None) 1 = st \<and>
        has_backlog st \<and>
        run_pipeline length sample_env (map Poll_timer [pass_at 5, pass_at 900000]) (no_tally, st) =
          (no_tally, st)"
proof -
  have l: "length (eb_records sample_batch) = 1" by (simp add: sample_batch_def)
  then have "eb_records sample_batch \<noteq> []" "length (eb_records sample_batch) \<le> usize_max"
    by (auto simp: usize_max_def)
  then have "recovered_records (\<lambda>_. Some sample_batch) (Some one_spool) one_frame \<noteq> []"
    "length (recovered_records (\<lambda>_. Some sample_batch) (Some one_spool) one_frame) \<le> usize_max"
    unfolding one_frame_replayed .
  note r = recovered_backlog_unscheduled [OF this refl]
  show ?thesis by (intro exI conjI) (rule refl, rule conjunct1 [OF r], rule conjunct2 [OF r])
qed


text \<open>A spool whose serializer knows one batch.\<close>

definition one_batch_to_vec :: "evidence_batch \<Rightarrow> string + u8 list" where
  "one_batch_to_vec b = Inr [1]"


end
