(* ===== verification/Loop_Progress.thy ===== *)
theory Loop_Progress
  imports Loop_Pipeline
begin

text \<open>
  Progress of the sink loop: a paced drain never stalls.  Every poll that has to wait brings
  the pacer's buckets closer to full, and a full pacer admits any batch, so waiting ends; every
  turn that does not wait takes something off the backlog or ends the drain.  From this measure
  follow that the drain at shutdown returns and that a sink that takes everything is sent
  everything.
\<close>

section \<open>The pacer's deficit\<close>

definition short_of :: "real \<Rightarrow> real \<Rightarrow> nat" where
  "short_of tokens rate = nat \<lceil>(max rate 1 - tokens) * 1000 / rate\<rceil>"

definition deficit :: "drain_pacer \<Rightarrow> nat" where
  "deficit p = short_of (byte_tokens p) (byte_rate p) + short_of (batch_tokens p) (batch_rate p)"

definition bucket :: "real \<Rightarrow> nat \<Rightarrow> real \<Rightarrow> real" where
  "bucket tokens ms rate = min (tokens + real ms / 1000 * rate) (max rate 1)"

lemma short_of_bucket_le:
  assumes "0 < rate"
  shows "short_of (bucket tokens ms rate) rate \<le> short_of tokens rate"
proof (cases "tokens + real ms / 1000 * rate \<le> max rate 1")
  case True
  have "tokens \<le> bucket tokens ms rate"
    using True assms by (simp add: bucket_def)
  then have "(max rate 1 - bucket tokens ms rate) * 1000 / rate \<le> (max rate 1 - tokens) * 1000 / rate"
    using assms by (intro divide_right_mono mult_right_mono) auto
  then show ?thesis unfolding short_of_def by (intro nat_mono ceiling_mono)
next
  case False
  then have "bucket tokens ms rate = max rate 1" by (simp add: bucket_def min_def)
  then show ?thesis by (simp add: short_of_def)
qed

lemma short_of_bucket_less:
  assumes "0 < rate" and "bucket tokens ms rate < max rate 1" and "0 < ms"
  shows "short_of (bucket tokens ms rate) rate < short_of tokens rate"
proof -
  let ?x = "(max rate 1 - tokens) * 1000 / rate"
  have b: "bucket tokens ms rate = tokens + real ms / 1000 * rate"
    using assms(2) by (auto simp: bucket_def min_def split: if_splits)
  have "(max rate 1 - bucket tokens ms rate) * 1000 / rate = ?x - real ms"
    using assms(1) by (simp add: b field_simps)
  moreover have pos: "0 < (max rate 1 - bucket tokens ms rate) * 1000 / rate"
    using assms(1,2) by (intro divide_pos_pos mult_pos_pos) auto
  moreover have "\<lceil>?x - real ms\<rceil> = \<lceil>?x\<rceil> - int ms" by (metis ceiling_diff_of_int of_int_of_nat_eq)
  moreover have "0 < \<lceil>?x - real ms\<rceil>" using pos calculation(1) by simp
  ultimately show ?thesis using assms(3) by (simp add: short_of_def)
qed

lemma rates_pos:
  assumes "pacer_wf p"
  shows "0 < byte_rate p" and "0 < batch_rate p"
proof -
  have "0 < dp_scale p" "1 \<le> max_bytes_per_sec (dp_config p)" "1 \<le> max_batches_per_sec (dp_config p)"
    using assms by (auto simp: pacer_wf_def pace_config_ok_def)
  then show "0 < byte_rate p" and "0 < batch_rate p" by (simp_all add: byte_rate_def batch_rate_def)
qed

definition since :: "nat \<Rightarrow> drain_pacer \<Rightarrow> nat" where
  "since now p = (case last_refill_ms p of None \<Rightarrow> 0 | Some t \<Rightarrow> now - t)"

lemma refill_buckets:
  "byte_tokens (refill now p) = bucket (byte_tokens p) (since now p) (byte_rate p)"
  "batch_tokens (refill now p) = bucket (batch_tokens p) (since now p) (batch_rate p)"
  "byte_rate (refill now p) = byte_rate p" "batch_rate (refill now p) = batch_rate p"
  by (simp_all add: refill_def bucket_def since_def byte_rate_def batch_rate_def Let_def
      split: option.splits)

lemma wait_deficit:
  assumes "pacer_wf p" and "poll now n p = (Wait ms, p')"
  shows "deficit p' \<le> deficit p" and "0 < since now p \<Longrightarrow> deficit p' < deficit p"
    and "last_refill_ms p' = Some now" and "1 \<le> ms"
proof -
  have p': "p' = refill now p" and no: "\<not> poll_admits n (refill now p)"
    and ms: "ms = poll_wait_ms n (refill now p)"
    using assms(2) by (auto simp: poll_def Let_def split: if_splits)
  show "last_refill_ms p' = Some now" by (simp add: p')
  show "1 \<le> ms" unfolding ms poll_wait_ms_def Let_def using clamp_ms by blast
  note le = short_of_bucket_le [OF rates_pos(1) [OF assms(1)], of "byte_tokens p" "since now p"]
    short_of_bucket_le [OF rates_pos(2) [OF assms(1)], of "batch_tokens p" "since now p"]
  then show "deficit p' \<le> deficit p" by (simp add: p' deficit_def refill_buckets)
  assume e: "0 < since now p"
  have "bucket (batch_tokens p) (since now p) (batch_rate p) < max (batch_rate p) 1 \<or>
        bucket (byte_tokens p) (since now p) (byte_rate p) < max (byte_rate p) 1"
    using no by (auto simp: poll_admits_def refill_buckets Let_def)
  then show "deficit p' < deficit p"
    using le short_of_bucket_less [OF rates_pos(1) [OF assms(1)] _ e]
      short_of_bucket_less [OF rates_pos(2) [OF assms(1)] _ e]
    by (auto simp: p' deficit_def refill_buckets intro: add_le_less_mono add_less_le_mono)
qed

section \<open>The drain takes work off\<close>

definition work :: "'w sink_loop \<Rightarrow> nat" where
  "work st = 2 * length (rt_batches (sl_retry st)) + gaps_len (sl_gaps st)"

lemma has_backlog_work: "has_backlog st \<longleftrightarrow> 0 < work st"
  by (auto simp: has_backlog_def work_def gaps_empty_def gaps_len_def)

lemma gaps_len_merge: "gaps_len (merge_gap g pg) \<le> Suc (gaps_len pg)"
  by (rule merge_by_cause_cases [of g "queued_gaps pg"]) (simp_all add: gaps_len_def merge_gap_def)

lemma gaps_len_extend: "gaps_len (extend_gaps gs pg) \<le> gaps_len pg + length gs"
proof (induction gs arbitrary: pg)
  case Nil
  then show ?case by (simp add: extend_gaps_def)
next
  case (Cons g gs)
  from Cons [of "merge_gap g pg"] gaps_len_merge [of g pg] show ?case
    by (simp add: extend_gaps_def)
qed

text \<open>The pass ended because a pacer, the loop's own if nothing had been done, said wait.\<close>

definition waits_on :: "nat \<Rightarrow> nat \<Rightarrow> 'w sink_loop \<Rightarrow> 'w sink_loop \<Rightarrow> bool" where
  "waits_on now ms st st' =
     (\<exists>p n. pacer_wf p \<and> poll now n p = (pace.Wait ms, sl_pacer st') \<and>
            (work st' = work st \<longrightarrow> p = sl_pacer st))"

definition drain_ends :: "nat \<Rightarrow> drain_outcome \<Rightarrow> 'w sink_loop \<Rightarrow> 'w sink_loop \<Rightarrow> bool" where
  "drain_ends now ended st st' =
     (work st' \<le> work st \<and>
      (work st' = work st \<longrightarrow> shutdown_lengths st' = shutdown_lengths st) \<and>
      (case ended of
         Empty \<Rightarrow> \<not> has_backlog st'
       | Paced ms \<Rightarrow> waits_on now ms st st'
       | SinkRefused \<Rightarrow> True))"

lemma pacer_turns [simp]:
  "send_batch env b st = (r, st') \<Longrightarrow> sl_pacer st' = sl_pacer st"
  by (auto simp: send_batch_def split: prod.splits)

lemma pace_pacer: "poll_batch env now b st = (p, st') \<Longrightarrow>
  poll now (approx_bytes (le_sizes env) b) (sl_pacer st) = (p, sl_pacer st')"
  by (auto simp: poll_batch_def split: prod.splits)

lemma pacer_wf_refusal: "pacer_wf (sl_pacer st) \<Longrightarrow> pacer_wf (sl_pacer (note_refusal err st))"
  by (cases err; simp add: note_refusal_def record_sink_error_def backpressure_wf)

lemma pacer_wf_pace: "poll_batch env now b st = (p, st') \<Longrightarrow> pacer_wf (sl_pacer st) \<Longrightarrow> pacer_wf (sl_pacer st')"
  using poll_wf [of "sl_pacer st" now "approx_bytes (le_sizes env) b"] pace_pacer [of env now b st p st']
  by simp

lemma pacer_wf_gap_turn:
  assumes "flush_gap_turn env now b st = (e, st')" and "pacer_wf (sl_pacer st)"
  shows "pacer_wf (sl_pacer st')"
proof -
  obtain p st1 where p: "poll_batch env now b st = (p, st1)" by force
  obtain r st2 where r: "send_batch env b st1 = (r, st2)" by force
  have "pacer_wf (sl_pacer st1)" by (rule pacer_wf_pace [OF p assms(2)])
  moreover from this r have "pacer_wf (sl_pacer st2)" by simp
  ultimately show ?thesis
    using assms(1) p r
    by (auto simp: flush_gap_turn_def gap_done_def delivered_wf pacer_wf_refusal Let_def
        split: pace.splits sum.splits if_splits)
qed

lemma pacer_wf_batch_turn:
  assumes "flush_batch_turn env now b st = (e, st')" and "pacer_wf (sl_pacer st)"
  shows "pacer_wf (sl_pacer st')"
proof -
  obtain p st1 where p: "poll_batch env now b st = (p, st1)" by force
  obtain r st2 where r: "send_batch env b st1 = (r, st2)" by force
  have "pacer_wf (sl_pacer st1)" by (rule pacer_wf_pace [OF p assms(2)])
  moreover from this r have "pacer_wf (sl_pacer st2)" by simp
  ultimately show ?thesis
    using assms(1) p r
    by (auto simp: flush_batch_turn_def deliver_front_def refuse_front_def delivered_wf
        pacer_wf_refusal Let_def split: pace.splits sum.splits if_splits option.splits)
qed

lemma pacer_wf_flush:
  assumes "flush_retry_buffer env now st = (e, st')" and "pacer_wf (sl_pacer st)"
  shows "pacer_wf (sl_pacer st')"
proof (rule flush_keeps [where P = "\<lambda>s. pacer_wf (sl_pacer s)", OF assms])
  show "pacer_wf (sl_pacer s) \<Longrightarrow> next_gap env s = (b, s') \<Longrightarrow> pacer_wf (sl_pacer s')" for s b s'
    by (auto simp: next_gap_def split: prod.splits)
qed (rule pacer_wf_gap_turn pacer_wf_batch_turn; assumption)+

lemma drain_ends_next_gap:
  assumes "next_gap env st = (b, st1)" and "drain_ends now ended st1 st'"
  shows "drain_ends now ended st st'"
proof -
  have "sl_pacer st1 = sl_pacer st \<and> sl_retry st1 = sl_retry st"
    using assms(1) by (auto simp: next_gap_def split: prod.splits)
  with next_gap_len [OF assms(1)] assms(2) show ?thesis
    by (auto simp: drain_ends_def work_def waits_on_def shutdown_lengths_def split: drain_outcome.splits)
qed

lemma drain_ends_less:
  assumes "work st1 < work st" and "drain_ends now ended st1 st'"
  shows "drain_ends now ended st st'"
  using assms by (auto simp: drain_ends_def waits_on_def split: drain_outcome.splits)

lemma gap_turn_ends:
  assumes "flush_gap_turn env now b st = (Some ended, st')" and "pacer_wf (sl_pacer st)"
  shows "drain_ends now ended st st'"
proof -
  obtain p st1 where p: "poll_batch env now b st = (p, st1)" by force
  obtain r st2 where r: "send_batch env b st1 = (r, st2)" by force
  note w = pace_pacer [OF p]
  show ?thesis
    using assms p r w
    by (auto simp: flush_gap_turn_def drain_ends_def waits_on_def work_def shutdown_lengths_def Let_def
        split: pace.splits sum.splits if_splits)
qed

lemma batch_turn_ends:
  assumes "flush_batch_turn env now b st = (Some ended, st')" and "pacer_wf (sl_pacer st)"
    and "front (sl_retry st) = Some b"
  shows "drain_ends now ended st st' \<and> ended \<noteq> Empty"
proof -
  obtain p st1 where p: "poll_batch env now b st = (p, st1)" by force
  obtain r st2 where r: "send_batch env b st1 = (r, st2)" by force
  obtain rb where pop: "pop_delivered (sl_retry st) = Some (b, rb)"
    using front_pop [OF assms(3)] by blast
  note w = pace_pacer [OF p] and len = pop_delivered_length [OF pop]
  show ?thesis
  proof (cases "ended = SinkRefused \<and> sl_retry st' \<noteq> sl_retry st")
    case True
    then have "\<exists>g. sl_gaps st' = merge_gap g (sl_gaps st) \<and> sl_retry st' = rb"
      using assms(1) p r pop
      by (auto simp: flush_batch_turn_def refuse_front_def Let_def
          split: pace.splits sum.splits if_splits)
    then obtain g where "sl_gaps st' = merge_gap g (sl_gaps st)" "sl_retry st' = rb" by blast
    then have "work st' < work st"
      using gaps_len_merge [of g "sl_gaps st"] len by (simp add: work_def)
    with True show ?thesis by (simp add: drain_ends_def)
  next
    case False
    moreover have "sl_retry st \<noteq> rb" using len by auto
    ultimately show ?thesis
      using assms p r w pop
      by (auto simp: flush_batch_turn_def refuse_front_def drain_ends_def waits_on_def work_def
          shutdown_lengths_def Let_def split: pace.splits sum.splits if_splits)
  qed
qed

lemma flush_batches_ends:
  "flush_batches env now st = (ended, st') \<Longrightarrow> pacer_wf (sl_pacer st) \<Longrightarrow>
   gaps_empty (sl_gaps st) \<Longrightarrow> drain_ends now ended st st'"
proof (induction env now st arbitrary: ended st' rule: flush_batches.induct)
  case (1 env now st)
  show ?case
  proof (cases "front (sl_retry st)")
    case None
    with 1(2,4) show ?thesis
      by (auto simp: flush_batches.simps [of env now st] drain_ends_def has_backlog_def front_def
          split: list.splits)
  next
    case (Some b)
    obtain e2 st2 where t: "flush_batch_turn env now b st = (e2, st2)" by force
    show ?thesis
    proof (cases e2)
      case None
      have "sl_gaps st2 = sl_gaps st"
        using t None by (auto simp: flush_batch_turn_def deliver_front_def Let_def
            split: prod.splits pace.splits sum.splits if_splits)
      with 1(4) batch_turn_len [OF Some, of st2 env now] t None
      have g: "gaps_empty (sl_gaps st2)" and w: "work st2 < work st" by (simp_all add: work_def)
      from 1(2) Some t None have f: "flush_batches env now st2 = (ended, st')"
        by (simp add: flush_batches.simps [of env now st])
      have "drain_ends now ended st2 st'"
        by (rule 1(1) [OF Some t [symmetric] None f pacer_wf_batch_turn [OF t 1(3)] g])
      with w show ?thesis by (rule drain_ends_less)
    next
      case e: (Some y)
      with 1(2) Some t batch_turn_ends [of env now b st y st2] 1(3) show ?thesis
        by (simp add: flush_batches.simps [of env now st])
    qed
  qed
qed

text \<open>When the first loop runs to its end, no report is left.\<close>

lemma flush_gaps_ends:
  "flush_gaps env now st = (e, st') \<Longrightarrow> pacer_wf (sl_pacer st) \<Longrightarrow>
   (case e of
      Some ended \<Rightarrow> drain_ends now ended st st'
    | None \<Rightarrow> gaps_empty (sl_gaps st') \<and> work st' \<le> work st \<and>
        (work st' = work st \<longrightarrow> sl_pacer st' = sl_pacer st) \<and> pacer_wf (sl_pacer st') \<and>
        sl_retry st' = sl_retry st)"
proof (induction env now st arbitrary: e st' rule: flush_gaps.induct)
  case (1 env now st)
  obtain b st1 where n: "next_gap env st = (b, st1)" by force
  have same: "sl_pacer st1 = sl_pacer st" "sl_retry st1 = sl_retry st" "work st1 = work st"
    using n next_gap_len [OF n] by (auto simp: next_gap_def work_def split: prod.splits)
  show ?case
  proof (cases b)
    case None
    have "gaps_empty (sl_gaps st1)"
      using n None by (auto simp: next_gap_def front_gap_def gaps_empty_def Let_def split: if_splits)
    with 1(2,3) n None same show ?thesis by (simp add: flush_gaps.simps [of env now st])
  next
    case (Some x)
    obtain e2 st2 where t: "flush_gap_turn env now x st1 = (e2, st2)" by force
    have wf1: "pacer_wf (sl_pacer st1)" using 1(3) same by simp
    show ?thesis
    proof (cases e2)
      case None
      have "in_flight (sl_gaps st1) = Some x" using next_gap_in_flight [OF n] Some by simp
      with gap_turn_len [of env now x st1 st2] t None
      have less: "gaps_len (sl_gaps st2) < gaps_len (sl_gaps st1)" by simp
      have r2: "sl_retry st2 = sl_retry st1"
        using t None by (auto simp: flush_gap_turn_def gap_done_def Let_def
            split: prod.splits pace.splits sum.splits if_splits)
      with less same have w: "work st2 < work st" by (simp add: work_def)
      from 1(2) n Some t None have f: "flush_gaps env now st2 = (e, st')"
        by (simp add: flush_gaps.simps [of env now st])
      note ih = 1(1) [OF n [symmetric] Some t [symmetric] None f pacer_wf_gap_turn [OF t wf1]]
      show ?thesis
      proof (cases e)
        case None
        with ih w r2 same show ?thesis by simp
      next
        case (Some ended)
        with ih w drain_ends_less show ?thesis by auto
      qed
    next
      case e: (Some y)
      from gap_turn_ends [OF t [unfolded e] wf1] have "drain_ends now y st1 st2" .
      from drain_ends_next_gap [OF n this] 1(2) n Some t e show ?thesis
        by (auto simp: flush_gaps.simps [of env now st])
    qed
  qed
qed

lemma drain_ends_trans:
  assumes "work st1 \<le> work st" and "work st1 = work st \<longrightarrow> sl_pacer st1 = sl_pacer st"
    and "sl_retry st1 = sl_retry st" and "drain_ends now ended st1 st'"
  shows "drain_ends now ended st st'"
proof (cases "work st1 = work st")
  case True
  moreover from this assms(3) have "shutdown_lengths st1 = shutdown_lengths st"
    by (simp add: work_def shutdown_lengths_def)
  ultimately show ?thesis
    using assms(2,4) by (simp add: drain_ends_def waits_on_def split: drain_outcome.splits)
next
  case False
  with assms(1) have "work st1 < work st" by simp
  then show ?thesis using assms(4) by (rule drain_ends_less)
qed

lemma flush_ends:
  assumes "flush_retry_buffer env now st = (ended, st')" and "pacer_wf (sl_pacer st)"
  shows "drain_ends now ended st st'"
proof -
  obtain e st1 where f: "flush_gaps env now st = (e, st1)" by force
  note g = flush_gaps_ends [OF f assms(2)]
  show ?thesis
  proof (cases e)
    case None
    with f assms(1) have "flush_batches env now st1 = (ended, st')"
      by (simp add: flush_retry_buffer_def)
    with g None have "drain_ends now ended st1 st'" by (intro flush_batches_ends) simp_all
    with g None show ?thesis by (intro drain_ends_trans [of st1 st]) simp_all
  next
    case (Some y)
    with f g assms(1) show ?thesis by (simp add: flush_retry_buffer_def)
  qed
qed

section \<open>A measure for polls\<close>

definition rank :: "nat \<Rightarrow> 'w sink_loop \<Rightarrow> nat \<times> nat \<times> nat" where
  "rank now st =
     (work st, deficit (sl_pacer st), if 0 < since now (sl_pacer st) then 0 else 1)"

definition rank_order :: "((nat \<times> nat \<times> nat) \<times> (nat \<times> nat \<times> nat)) set" where
  "rank_order = less_than <*lex*> less_than <*lex*> less_than"

lemma wf_rank_order: "wf rank_order"
  by (simp add: rank_order_def wf_lex_prod)

lemma waits_rank:
  assumes "waits_on now ms st st'" and "work st' \<le> work st" and "now < now'"
  shows "(rank now' st', rank now st) \<in> rank_order"
proof -
  from assms(1) obtain p n where p: "pacer_wf p" "poll now n p = (pace.Wait ms, sl_pacer st')"
    and own: "work st' = work st \<longrightarrow> p = sl_pacer st" by (auto simp: waits_on_def)
  note w = wait_deficit [OF p]
  have later: "0 < since now' (sl_pacer st')" using w(3) assms(3) by (simp add: since_def)
  show ?thesis
  proof (cases "work st' = work st")
    case False
    with assms(2) show ?thesis by (simp add: rank_def rank_order_def)
  next
    case True
    with own have "p = sl_pacer st" by simp
    with w(1,2) True later show ?thesis
      by (cases "0 < since now (sl_pacer st)") (auto simp: rank_def rank_order_def le_less)
  qed
qed

lemma waits_ms: "waits_on now ms st st' \<Longrightarrow> 1 \<le> ms"
  using wait_deficit(4) by (auto simp: waits_on_def)

section \<open>Shutdown returns\<close>

lemma publish_same [simp]:
  "work (publish_backlog_metrics now st) = work st"
  "has_backlog (publish_backlog_metrics now st) = has_backlog st"
  "shutdown_lengths (publish_backlog_metrics now st) = shutdown_lengths st"
  by (simp_all add: work_def has_backlog_def shutdown_lengths_def)

definition accepting :: "'w loop_env \<Rightarrow> bool" where
  "accepting env = (\<forall>b w. \<exists>res w'. le_append env b w = (Inr res, w'))"

lemma accepting_send: "accepting env \<Longrightarrow> send_batch env b st = (r, st') \<Longrightarrow> \<exists>res. r = Inr res"
  unfolding accepting_def send_batch_def by (metis (mono_tags, lifting) case_prod_conv prod.inject)

lemma accepting_gap_turn:
  "accepting env \<Longrightarrow> flush_gap_turn env now b st \<noteq> (Some SinkRefused, st')"
  using accepting_send [of env b]
  by (fastforce simp: flush_gap_turn_def Let_def split: prod.splits pace.splits sum.splits if_splits)

lemma accepting_batch_turn:
  "accepting env \<Longrightarrow> flush_batch_turn env now b st \<noteq> (Some SinkRefused, st')"
  using accepting_send [of env b]
  by (fastforce simp: flush_batch_turn_def Let_def split: prod.splits pace.splits sum.splits if_splits)

lemma accepting_flush_gaps:
  "accepting env \<Longrightarrow> flush_gaps env now st \<noteq> (Some SinkRefused, st')"
proof (induction env now st rule: flush_gaps.induct)
  case (1 env now st)
  then show ?case
    by (subst flush_gaps.simps) (auto simp: accepting_gap_turn split: prod.splits option.splits)
qed

lemma accepting_flush_batches:
  "accepting env \<Longrightarrow> flush_batches env now st \<noteq> (SinkRefused, st')"
proof (induction env now st rule: flush_batches.induct)
  case (1 env now st)
  then show ?case
    by (subst flush_batches.simps) (auto simp: accepting_batch_turn split: prod.splits option.splits)
qed

lemma accepting_flush: "accepting env \<Longrightarrow> flush_retry_buffer env now st \<noteq> (SinkRefused, st')"
proof
  assume a: "accepting env" and r: "flush_retry_buffer env now st = (SinkRefused, st')"
  obtain e st1 where f: "flush_gaps env now st = (e, st1)" by force
  show False
  proof (cases e)
    case None
    with r f accepting_flush_batches [OF a, of now st1 st'] show ?thesis
      by (simp add: flush_retry_buffer_def)
  next
    case (Some ended)
    with r f accepting_flush_gaps [OF a, of now st st'] show ?thesis
      by (simp add: flush_retry_buffer_def)
  qed
qed

lemma shutdown_drain_returns:
  assumes "pacer_wf (sl_pacer st)"
  shows "\<exists>st'. shutdown_drain env lag k now st = Some st' \<and> (accepting env \<longrightarrow> \<not> has_backlog st')"
  using assms
proof (induction "rank now st" arbitrary: now st k rule: wf_induct_rule [OF wf_rank_order])
  case 1
  show ?case
  proof (cases "has_backlog st")
    case False
    then show ?thesis by (simp add: shutdown_drain.simps)
  next
    case True
    obtain ended st1 where f: "flush_retry_buffer env now st = (ended, st1)" by force
    note e = flush_ends [OF f 1(2)] and wf1 = pacer_wf_flush [OF f 1(2)]
    show ?thesis
    proof (cases "\<exists>ms. ended = Paced ms")
      case True
      then obtain ms where ms: "ended = Paced ms" by blast
      let ?now = "now + min ms 1000 + lag k"
      have w: "waits_on now ms st st1" "work st1 \<le> work st"
        using e ms by (simp_all add: drain_ends_def)
      have "now < ?now" using waits_ms [OF w(1)] by simp
      from 1(1) [OF waits_rank [OF w this] wf1] show ?thesis
        using \<open>has_backlog st\<close> f ms by (simp add: shutdown_drain.simps [of env lag k now st])
    next
      case False
      let ?st = "publish_backlog_metrics (now + lag k) st1"
      have step: "shutdown_drain env lag k now st =
          (if shutdown_lengths ?st = shutdown_lengths st then Some ?st
           else shutdown_drain env lag (Suc k) (now + lag k) ?st)"
        using False True f
        by (cases ended) (simp_all add: shutdown_drain.simps [of env lag k now st] Let_def)
      have done1: "accepting env \<longrightarrow> \<not> has_backlog ?st"
        using False e accepting_flush [of env now st st1] f
        by (cases ended) (auto simp: drain_ends_def)
      show ?thesis
      proof (cases "shutdown_lengths ?st = shutdown_lengths st")
        case True
        with step done1 show ?thesis by simp
      next
        case changed: False
        then have "work ?st < work st" using e by (auto simp: drain_ends_def)
        then have "(rank (now + lag k) ?st, rank now st) \<in> rank_order"
          by (simp add: rank_def rank_order_def)
        from 1(1) [OF this] wf1 step changed show ?thesis by simp
      qed
    qed
  qed
qed

lemma pacer_take_message [simp]: "sl_pacer (take_message env now msg st) = sl_pacer st"
  by (auto simp: take_message_def take_records_def take_reports_def Let_def
      split: received.splits prod.splits sum.splits)

lemma pacer_end_of_pass [simp]: "sl_pacer (end_of_pass env ps st) = sl_pacer st"
  by (auto simp: end_of_pass_def shed_under_memory_pressure_def Let_def
      split: option.splits prod.splits)

lemma pacer_schedule [simp]: "sl_pacer (schedule_retry hash later cur st) = sl_pacer st"
  by (auto simp: schedule_retry_def split: option.splits prod.splits)

lemma pacer_wf_timer_arm:
  assumes "pacer_wf (sl_pacer st)"
  shows "pacer_wf (sl_pacer (timer_arm env ps st))"
proof -
  obtain ended st1 where f: "flush_retry_buffer env (ps_now ps) (age_out (ps_now ps) st) = (ended, st1)"
    by force
  have "pacer_wf (sl_pacer st1)" by (rule pacer_wf_flush [OF f]) (simp add: assms)
  with f show ?thesis by (cases ended) (simp_all add: timer_arm_def Let_def)
qed

lemma pacer_wf_run:
  "pacer_wf (sl_pacer st) \<Longrightarrow> pacer_wf (sl_pacer (snd (run_pipeline resident env evs (t, st))))"
proof (induction evs arbitrary: t st)
  case Nil
  then show ?case by (simp add: run_pipeline_def)
next
  case (Cons ev evs)
  obtain t1 st1 where e: "pipeline_step resident env ev (t, st) = (t1, st1)" by force
  have "pacer_wf (sl_pacer st1)"
    using e Cons.prems pacer_wf_timer_arm
    by (cases ev) (auto simp: receive_step_def received_arm_def timer_step_def Let_def
        split: prod.splits option.splits if_splits)
  from Cons.IH [OF this] e show ?case by (simp add: run_pipeline_def)
qed

lemma start_pacer: "sl_pacer (start_loop env from_slice io rc bc pc sp d q w) = new_pacer pc"
proof -
  have "sl_pacer (initial_loop rc bc pc sp d q w) = new_pacer pc" by (simp add: initial_loop_def)
  then show ?thesis
    by (simp add: start_loop_def replay_spool_def Let_def split: option.splits prod.splits)
qed

section \<open>A sink that is back is sent everything\<close>

text \<open>The timer's passes alone: no message arrives.\<close>

fun timer_run :: "'w loop_env \<Rightarrow> (nat \<Rightarrow> pass) \<Rightarrow> nat \<Rightarrow> 'w sink_loop \<Rightarrow> 'w sink_loop" where
  "timer_run env ps 0 st = st"
| "timer_run env ps (Suc k) st = timer_run env (\<lambda>i. ps (Suc i)) k (timer_step env (ps 0) st)"

text \<open>The timer is polled when its deadline has passed, and the clock does not go back.\<close>

definition fair :: "'w loop_env \<Rightarrow> (nat \<Rightarrow> pass) \<Rightarrow> 'w sink_loop \<Rightarrow> bool" where
  "fair env ps st =
     (\<forall>k. ps_now (ps k) \<le> ps_later (ps k) \<and>
          (case sl_next_retry (timer_run env ps k st) of
             None \<Rightarrow> True | Some deadline \<Rightarrow> deadline \<le> ps_now (ps k)))"

lemma fair_step: "fair env ps st \<Longrightarrow> fair env (\<lambda>i. ps (Suc i)) (timer_step env (ps 0) st)"
  unfolding fair_def by (metis timer_run.simps(2))

lemma fair_fires:
  assumes "fair env ps st" and "timer_armed st"
  shows "timer_step env (ps 0) st = timer_arm env (ps 0) st"
proof -
  obtain deadline where "sl_next_retry st = Some deadline" using assms(2) by (auto simp: timer_armed_def)
  moreover from this assms(1) have "deadline \<le> ps_now (ps 0)"
    unfolding fair_def by (metis option.simps(5) timer_run.simps(1))
  ultimately show ?thesis by (simp add: timer_step_def)
qed

lemma age_out_work: "work (age_out now st) \<le> work st"
proof -
  obtain gaps rb where e: "drop_expired now (sl_retry st) = (gaps, rb)" by force
  from drop_expired_pops [OF e] obtain xs where xs: "rt.pops (sl_retry st) xs rb"
    and gaps: "gaps = map (shed_gap ''retry_buffer_expired'') xs" by blast
  have "length (rt_batches (sl_retry st)) = length xs + length (rt_batches rb)"
    using rt.pops_items [OF xs] by simp
  then show ?thesis
    using e gaps_len_extend [of gaps "sl_gaps st"] by (simp add: work_def age_out_def gaps)
qed

lemma pressure_work: "work (shed_under_memory_pressure limit high current st) \<le> work st"
proof (cases "memory_ratio limit current")
  case None
  then show ?thesis by (simp add: shed_under_memory_pressure_def)
next
  case (Some ratio)
  show ?thesis
  proof (cases "ratio < high \<or> rt_batches (sl_retry st) = []")
    case True
    with Some show ?thesis by (simp add: shed_under_memory_pressure_def work_def Let_def)
  next
    case False
    let ?t = "nat \<lfloor>real (rt_bytes (sl_retry st)) * memory_shed_fraction\<rfloor>"
    obtain gaps rb where e: "shed_to ?t (sl_retry st) = (gaps, rb)" by force
    from shed_while_sheds [OF e [unfolded shed_to_def]] obtain xs where
      xs: "rt.sheds (sl_retry st) xs rb" and gaps: "gaps = map (shed_gap ''memory_pressure'') xs"
      by auto
    have "length (rt_batches (sl_retry st)) = length xs + length (rt_batches rb)"
      by (rule rt.sheds_length [OF xs])
    with Some False e gaps_len_extend [of gaps "sl_gaps st"] show ?thesis
      by (simp add: shed_under_memory_pressure_def work_def gaps Let_def)
  qed
qed

lemma end_of_pass_work: "work (end_of_pass env ps st) \<le> work st"
  using pressure_work [of _ "le_high_watermark env" "ps_memory ps" st]
  by (auto simp: end_of_pass_def work_def split: option.splits)

lemma waits_on_from:
  assumes "waits_on now ms st1 st'" and "work st' \<le> work st1" and "work st1 \<le> work st"
    and "sl_pacer st1 = sl_pacer st"
  shows "waits_on now ms st st'"
  using assms unfolding waits_on_def by (metis le_antisym)

lemma waits_on_end:
  assumes "waits_on now ms st st1" and "sl_pacer st' = sl_pacer st1" and "work st' \<le> work st1"
    and "work st1 \<le> work st"
  shows "waits_on now ms st st'"
  using assms unfolding waits_on_def by (metis le_antisym)

text \<open>A firing of the timer with a sink that accepts: done, or a wait on the pacer.\<close>

lemma accepting_timer_arm:
  assumes "accepting env" and "pacer_wf (sl_pacer st)" and "has_backlog (timer_arm env ps st)"
  obtains ms where "sl_next_retry (timer_arm env ps st) = Some (ps_later ps + ms)"
    and "waits_on (ps_now ps) ms st (timer_arm env ps st)"
    and "work (timer_arm env ps st) \<le> work st"
proof -
  let ?aged = "age_out (ps_now ps) st"
  obtain ended st1 where f: "flush_retry_buffer env (ps_now ps) ?aged = (ended, st1)" by force
  let ?st2 = "if backlog_len st1 < backlog_len ?aged
    then st1\<lparr>sl_backoff := reset_backoff (sl_backoff st1)\<rparr> else st1"
  have ends: "drain_ends (ps_now ps) ended ?aged st1" by (rule flush_ends [OF f]) (simp add: assms(2))
  have same: "work ?st2 = work st1" "sl_pacer ?st2 = sl_pacer st1" "has_backlog ?st2 = has_backlog st1"
    by (simp_all add: work_def has_backlog_def)
  have aged: "work ?aged \<le> work st" "sl_pacer ?aged = sl_pacer st" by (simp_all add: age_out_work)
  have after: "work (end_of_pass env ps ?st2) \<le> work st1"
    using end_of_pass_work [of env ps ?st2] same by simp
  have w1: "work st1 \<le> work ?aged" using ends by (simp add: drain_ends_def)
  show thesis
  proof (cases ended)
    case SinkRefused
    with f accepting_flush [OF assms(1)] show thesis by blast
  next
    case Empty
    with f have "timer_arm env ps st =
        schedule_retry (le_hash env) (ps_later ps) None (end_of_pass env ps ?st2)"
      by (simp add: timer_arm_def Let_def)
    with ends Empty same assms(3) show thesis by (simp add: drain_ends_def schedule_armed)
  next
    case (Paced ms)
    with f have t: "timer_arm env ps st =
        (end_of_pass env ps ?st2)\<lparr>sl_next_retry := Some (ps_later ps + ms)\<rparr>"
      by (simp add: timer_arm_def Let_def)
    have wt: "work (timer_arm env ps st) = work (end_of_pass env ps ?st2)"
      and pt: "sl_pacer (timer_arm env ps st) = sl_pacer st1"
      by (simp_all add: t same work_def)
    have "waits_on (ps_now ps) ms ?aged st1" using ends Paced by (simp add: drain_ends_def)
    from waits_on_from [OF this w1 aged] have "waits_on (ps_now ps) ms st st1" .
    from waits_on_end [OF this pt] wt after w1 aged
    have "waits_on (ps_now ps) ms st (timer_arm env ps st)" by simp
    moreover have "work (timer_arm env ps st) \<le> work st" using wt after w1 aged by simp
    ultimately show thesis using that [of ms] t by simp
  qed
qed

lemma accepting_drains:
  assumes "accepting env" and "pacer_wf (sl_pacer st)" and "timer_armed st = has_backlog st"
    and "fair env ps st"
  shows "\<exists>k. \<not> has_backlog (timer_run env ps k st)"
  using assms(2-4)
proof (induction "rank (ps_now (ps 0)) st" arbitrary: ps st rule: wf_induct_rule [OF wf_rank_order])
  case 1
  show ?case
  proof (cases "has_backlog st")
    case False
    then have "\<not> has_backlog (timer_run env ps 0 st)" by simp
    then show ?thesis by blast
  next
    case busy: True
    let ?st = "timer_arm env (ps 0) st" and ?ps = "\<lambda>i. ps (Suc i)"
    have fires: "timer_step env (ps 0) st = ?st" using fair_fires 1(3,4) busy by blast
    have "fair env ?ps ?st" using fair_step [OF 1(4)] fires by simp
    show ?thesis
    proof (cases "has_backlog ?st")
      case False
      then have "\<not> has_backlog (timer_run env ps 1 st)" by (simp add: fires)
      then show ?thesis by blast
    next
      case True
      from accepting_timer_arm [OF assms(1) 1(2) True] obtain ms where
        next_retry: "sl_next_retry ?st = Some (ps_later (ps 0) + ms)"
        and w: "waits_on (ps_now (ps 0)) ms st ?st" "work ?st \<le> work st" by blast
      have "ps_later (ps 0) + ms \<le> ps_now (ps 1)"
        using 1(4) next_retry fires unfolding fair_def
        by (metis One_nat_def option.simps(5) timer_run.simps)
      moreover have "ps_now (ps 0) \<le> ps_later (ps 0)" using 1(4) unfolding fair_def by blast
      ultimately have "ps_now (ps 0) < ps_now (?ps 0)" using waits_ms [OF w(1)] by simp
      from 1(1) [OF waits_rank [OF w this] pacer_wf_timer_arm [OF 1(2)] timer_arm_armed
          \<open>fair env ?ps ?st\<close>]
      obtain k where "\<not> has_backlog (timer_run env ?ps k ?st)" by blast
      then have "\<not> has_backlog (timer_run env ps (Suc k) st)" by (simp add: fires)
      then show ?thesis by blast
    qed
  qed
qed

section \<open>Properties\<close>

text \<open>
  C6: the drain at shutdown returns, from every state the loop can reach, for every behaviour
  of the sink and however long each turn takes; and if the sink accepts, it returns with
  nothing left.
\<close>

theorem shutdown_terminates:
  assumes "pace_config_ok pc"
    and "run_pipeline resident env evs
           (t0, start_loop env from_slice io rc bc pc sp d q w) = (t, st)"
  shows "\<exists>st'. shutdown env lag now io' st = Some st' \<and> (accepting env \<longrightarrow> \<not> has_backlog st')"
proof -
  have "pacer_wf (sl_pacer (start_loop env from_slice io rc bc pc sp d q w))"
    by (simp add: start_pacer pacer_wf_new assms(1))
  from pacer_wf_run [OF this, of resident env evs t0] assms(2) have "pacer_wf (sl_pacer st)" by simp
  from shutdown_drain_returns [OF this, of env lag 0 now] obtain st' where
    "shutdown_drain env lag 0 now st = Some st'" "accepting env \<longrightarrow> \<not> has_backlog st'" by blast
  then show ?thesis by (simp add: shutdown_def has_backlog_def)
qed

lemma sample_env_send_down:
  "sl_sink st = 0 \<Longrightarrow>
   send_batch sample_env b st = (Inl (SUnavailable ''s'' ''down''), st\<lparr>sl_sink := 1\<rparr>)"
  by (simp add: sample_env_send)

lemma buffer_batch_busy:
  assumes "eb_records b \<noteq> []"
  shows "has_backlog (buffer_batch env now b st)"
proof -
  let ?ids = "\<lambda>k. le_id env (sl_fresh st + k)"
  let ?parts = "map (buffer_part (le_sizes env) now) (split_by_class ?ids b)"
  obtain gaps rb where e: "enqueue (le_sizes env) ?ids b now (sl_retry st) = (gaps, rb)" by force
  from enqueue_sheds [OF e] obtain xs where
    xs: "rt.sheds (fold push_part ?parts (sl_retry st)) xs rb"
    and gaps: "gaps = map (shed_gap ''retry_buffer_overflow'') xs" by metis
  have "split_by_class ?ids b \<noteq> []"
    using mset_split_by_class [of ?ids b] assms by auto
  then have "0 < length (rt_batches (fold push_part ?parts (sl_retry st)))"
    by (simp add: fold_push_part)
  with rt.sheds_length [OF xs] have "xs \<noteq> [] \<or> rt_batches rb \<noteq> []" by auto
  then show ?thesis using e by (auto simp: buffer_batch_def has_backlog_def extend_not_empty gaps)
qed

lemma sample_outage: "has_backlog (snd (run_pipeline (\<lambda>rs. 100 * length rs) sample_env sample_run
    (no_tally, sample_start 0)))"
proof -
  let ?b = "new_batch ''id'' (le_producer sample_env) [sample_record]"
  have "\<exists>cur st. receive_step sample_env (pass_at 5) ((sample_start 0)\<lparr>sl_queue := sample_queue\<rparr>) =
      schedule_retry (le_hash sample_env) (ps_later (pass_at 5)) cur
        (end_of_pass sample_env (pass_at 5) (buffer_batch sample_env (ps_now (pass_at 5)) ?b st))"
    by (simp add: receive_step_def sample_queue_recv received_arm_def age_out_empty sample_start_fields
        new_retry_buffer_def take_message_def take_records_def has_backlog_def gaps_empty_def
        no_gaps_def sample_env_send_down Let_def sample_env_fields)
      blast
  then show ?thesis
    using buffer_batch_busy [of ?b]
    by (auto simp: run_pipeline_def sample_run_def sample_start_fields sample_queue_def
        case_prod_unfold schedule_armed)
qed

theorem shutdown_terminates_witness:
  "\<exists>t st st'. run_pipeline (\<lambda>rs. 100 * length rs) sample_env sample_run (no_tally, sample_start 0) =
       (t, st) \<and> shutdown sample_env (\<lambda>k. 3) 9 all_well st = Some st'"
proof -
  obtain t st where e: "run_pipeline (\<lambda>rs. 100 * length rs) sample_env sample_run
      (no_tally, sample_start 0) = (t, st)" by force
  from shutdown_terminates [OF default_pace_config_ok e [unfolded sample_start_def]] e
  show ?thesis by blast
qed


text \<open>The schedule that polls the timer exactly at its deadlines.\<close>

fun eager_state :: "'w loop_env \<Rightarrow> 'w sink_loop \<Rightarrow> nat \<Rightarrow> 'w sink_loop" where
  "eager_state env st 0 = st"
| "eager_state env st (Suc k) =
     timer_step env (pass_at (case sl_next_retry (eager_state env st k) of None \<Rightarrow> 0 | Some d \<Rightarrow> d))
       (eager_state env st k)"

definition eager :: "'w loop_env \<Rightarrow> 'w sink_loop \<Rightarrow> nat \<Rightarrow> pass" where
  "eager env st k =
     pass_at (case sl_next_retry (eager_state env st k) of None \<Rightarrow> 0 | Some d \<Rightarrow> d)"

lemma timer_run_snoc:
  "timer_run env ps (Suc k) st = timer_step env (ps k) (timer_run env ps k st)"
proof (induction k arbitrary: ps st)
  case 0
  then show ?case by simp
next
  case (Suc k)
  have "timer_run env ps (Suc (Suc k)) st =
      timer_run env (\<lambda>i. ps (Suc i)) (Suc k) (timer_step env (ps 0) st)" by simp
  also have "\<dots> = timer_step env (ps (Suc k))
      (timer_run env (\<lambda>i. ps (Suc i)) k (timer_step env (ps 0) st))" by (rule Suc)
  finally show ?case by simp
qed

lemma eager_run: "timer_run env (eager env st) k st = eager_state env st k"
  by (induction k) (simp_all add: timer_run_snoc eager_def del: timer_run.simps(2))

lemma eager_fair: "fair env (eager env st) st"
  by (auto simp: fair_def eager_run eager_def pass_at_def split: option.splits)

definition recovered_env :: "nat loop_env" where
  "recovered_env = sample_env\<lparr>le_append := (\<lambda>b n. (Inr (append_accepted ''s'' (batch_len b)), n + 1))\<rparr>"


end
