(* ===== verification/Btf.thy ===== *)
theory Btf
  imports Byte_Codec Text_Format
begin

text \<open>
  BTF type resolution (\<open>jalki-codegen/src/btf.rs\<close>): the parser of the type and string sections,
  and the lookups the program generator makes in the parsed data.  A slice out of range is the
  panic it is in the source.  The two recursive lookups take the depth of recursion they may use
  and return \<open>None\<close> beyond it, as a thread that runs out of stack does.

  The first group of lemmas shows that the parser reads back every well-formed type section, so
  that each type keeps its index; the second that member lookup finds exactly the members the
  declarative relation \<open>has_member\<close> admits; the third that data whose by-value references are
  well founded is resolved within the depth of that order.
\<close>

section \<open>Data\<close>

datatype codegen_error =
    Function_Not_Found string
  | Struct_Not_Found string
  | Field_Not_Found string string
  | Btf_Type string
  | Unsupported_Type string
  | Elf string
  | Program_Too_Large nat nat
  | Stack_Overflow nat

text \<open>How a call ends early: with an error, or by panicking on a slice out of range.\<close>

datatype btf_stop = Failed codegen_error | Panicked

definition btf_magic :: nat where "btf_magic = 0xEB9F"

definition kind_int :: u32 where "kind_int = 1"
definition kind_ptr :: u32 where "kind_ptr = 2"
definition kind_struct :: u32 where "kind_struct = 4"
definition kind_union :: u32 where "kind_union = 5"
definition kind_enum :: u32 where "kind_enum = 6"
definition kind_typedef :: u32 where "kind_typedef = 8"
definition kind_volatile :: u32 where "kind_volatile = 9"
definition kind_const :: u32 where "kind_const = 10"
definition kind_restrict :: u32 where "kind_restrict = 11"
definition kind_func :: u32 where "kind_func = 12"
definition kind_func_proto :: u32 where "kind_func_proto = 13"
definition kind_enum64 :: u32 where "kind_enum64 = 19"

lemmas kind_defs =
  kind_int_def kind_ptr_def kind_struct_def kind_union_def kind_enum_def kind_typedef_def
  kind_volatile_def kind_const_def kind_restrict_def kind_func_def kind_func_proto_def
  kind_enum64_def

record btf_member =
  bm_name_off :: u32
  bm_type_id :: u32
  bm_offset_bits :: u32

record btf_param =
  bp_name_off :: u32
  bp_type_id :: u32

datatype type_extra =
    No_Extra
  | Members "btf_member list"
  | Params "btf_param list"
  | Int_Data u32

record btf_type_entry =
  bt_name_off :: u32
  bt_kind :: u32
  bt_vlen :: u32
  bt_size_or_type :: u32
  bt_extra :: type_extra

record btf_data =
  btf_types :: "btf_type_entry list"
  btf_strings :: "u8 list"
  func_index :: "string \<rightharpoonup> u32"
  struct_index :: "string \<rightharpoonup> u32"

record function_param =
  fp_name :: string
  fp_type_id :: u32

record function_signature =
  fs_name :: string
  fs_params :: "function_param list"
  fs_return_type_id :: u32

datatype field_type = FT_U8 | FT_U16 | FT_U32 | FT_U64 | FT_I32 | FT_I64

fun field_type_size :: "field_type \<Rightarrow> nat" where
  "field_type_size FT_U8 = 1"
| "field_type_size FT_U16 = 2"
| "field_type_size FT_U32 = 4"
| "field_type_size FT_I32 = 4"
| "field_type_size FT_U64 = 8"
| "field_type_size FT_I64 = 8"

record resolved_field =
  rf_name :: string
  rf_offset_bytes :: u32
  rf_size :: nat
  rf_field_type :: field_type

datatype pointee_kind = Pointee_Struct string u32 | Pointee_Other

section \<open>Parsing\<close>

definition read_u32 :: "u8 list \<Rightarrow> nat \<Rightarrow> u32" where
  "read_u32 data pos = of_nat (le_nat (take 4 (drop pos data)))"

fun parse_members :: "u8 list \<Rightarrow> nat \<Rightarrow> nat \<Rightarrow> btf_member list \<Rightarrow> codegen_error + btf_member list \<times> nat" where
  "parse_members data 0 pos members = Inr (members, pos)"
| "parse_members data (Suc n) pos members =
     (if length data < pos + 12 then Inl (Btf_Type ''truncated member'')
      else parse_members data n (pos + 12)
             (members @
              [\<lparr>bm_name_off = read_u32 data pos, bm_type_id = read_u32 data (pos + 4),
                bm_offset_bits = read_u32 data (pos + 8)\<rparr>]))"

fun parse_params :: "u8 list \<Rightarrow> nat \<Rightarrow> nat \<Rightarrow> btf_param list \<Rightarrow> codegen_error + btf_param list \<times> nat" where
  "parse_params data 0 pos params = Inr (params, pos)"
| "parse_params data (Suc n) pos params =
     (if length data < pos + 8 then Inl (Btf_Type ''truncated param'')
      else parse_params data n (pos + 8)
             (params @ [\<lparr>bp_name_off = read_u32 data pos, bp_type_id = read_u32 data (pos + 4)\<rparr>]))"

text \<open>What follows the twelve-byte header of a type, by its kind.\<close>

definition parse_extra :: "u8 list \<Rightarrow> u32 \<Rightarrow> u32 \<Rightarrow> nat \<Rightarrow> codegen_error + type_extra \<times> nat" where
  "parse_extra data kind vlen pos =
     (if kind = 0 then Inr (No_Extra, pos)
      else if kind = kind_int then
        if length data < pos + 4 then Inl (Btf_Type ''truncated INT'')
        else Inr (Int_Data (read_u32 data pos), pos + 4)
      else if kind = kind_ptr then Inr (No_Extra, pos)
      else if kind = 3 then Inr (No_Extra, pos + 12)
      else if kind = kind_struct \<or> kind = kind_union then
        case parse_members data (unat vlen) pos [] of
          Inl e \<Rightarrow> Inl e
        | Inr (members, pos') \<Rightarrow> Inr (Members members, pos')
      else if kind = kind_enum then Inr (No_Extra, pos + unat vlen * 8)
      else if kind = 7 then Inr (No_Extra, pos)
      else if kind = kind_typedef \<or> kind = kind_volatile \<or> kind = kind_const \<or> kind = kind_restrict
      then Inr (No_Extra, pos)
      else if kind = kind_func then Inr (No_Extra, pos)
      else if kind = kind_func_proto then
        case parse_params data (unat vlen) pos [] of
          Inl e \<Rightarrow> Inl e
        | Inr (params, pos') \<Rightarrow> Inr (Params params, pos')
      else if kind = 14 then Inr (No_Extra, pos + 4)
      else if kind = 15 then Inr (No_Extra, pos + unat vlen * 12)
      else if kind = 16 then Inr (No_Extra, pos)
      else if kind = 17 then Inr (No_Extra, pos + 4)
      else if kind = 18 then Inr (No_Extra, pos)
      else if kind = kind_enum64 then Inr (No_Extra, pos + unat vlen * 12)
      else Inr (No_Extra, pos))"

lemma parse_members_pos: "parse_members data n pos ms = Inr (ms', p) \<Longrightarrow> pos \<le> p"
  by (induction data n pos ms rule: parse_members.induct) (auto split: if_splits)

lemma parse_params_pos: "parse_params data n pos ps = Inr (ps', p) \<Longrightarrow> pos \<le> p"
  by (induction data n pos ps rule: parse_params.induct) (auto split: if_splits)

lemma parse_extra_pos: "parse_extra data kind vlen pos = Inr (extra, p) \<Longrightarrow> pos \<le> p"
  unfolding parse_extra_def
  by (auto split: if_splits sum.splits prod.splits dest: parse_members_pos parse_params_pos)

function parse_types_from ::
  "u8 list \<Rightarrow> nat \<Rightarrow> btf_type_entry list \<Rightarrow> codegen_error + btf_type_entry list" where
  "parse_types_from data pos types =
     (if pos + 12 \<le> length data then
        let info = read_u32 data (pos + 4);
            kind = drop_bit 24 info AND 0x1f;
            vlen = info AND 0xffff
        in case parse_extra data kind vlen (pos + 12) of
             Inl e \<Rightarrow> Inl e
           | Inr (extra, pos') \<Rightarrow>
               parse_types_from data pos'
                 (types @
                  [\<lparr>bt_name_off = read_u32 data pos, bt_kind = kind, bt_vlen = vlen,
                    bt_size_or_type = read_u32 data (pos + 8), bt_extra = extra\<rparr>])
      else Inr types)"
  by pat_completeness auto
termination
proof (relation "measure (\<lambda>(data, pos, types). length data - pos)", goal_cases)
  case 1
  then show ?case by simp
next
  case (2 data pos types info kind vlen y extra pos')
  then have "pos + 12 \<le> pos'" by (metis parse_extra_pos)
  with 2 show ?case by simp
qed

declare parse_types_from.simps [simp del]

definition parse_types :: "u8 list \<Rightarrow> codegen_error + btf_type_entry list" where
  "parse_types data = parse_types_from data 0 []"

definition string_at :: "u8 list \<Rightarrow> u32 \<Rightarrow> string" where
  "string_at strings pos =
     (if length strings \<le> unat pos then []
      else let raw = takeWhile (\<lambda>b. b \<noteq> 0) (drop (unat pos) strings)
           in if utf8_valid raw then of_bytes raw else [])"

text \<open>\<open>&data[from..from + len]\<close>: a panic when it does not fit.\<close>

definition slice :: "u8 list \<Rightarrow> nat \<Rightarrow> nat \<Rightarrow> btf_stop + u8 list" where
  "slice data from len =
     (if from + len \<le> length data then Inr (take len (drop from data)) else Inl Panicked)"

definition index_type ::
  "u8 list \<Rightarrow> btf_type_entry \<Rightarrow> u32 \<Rightarrow> (string \<rightharpoonup> u32) \<times> (string \<rightharpoonup> u32) \<Rightarrow>
   (string \<rightharpoonup> u32) \<times> (string \<rightharpoonup> u32)" where
  "index_type strings ty type_id idx =
     (let name = string_at strings (bt_name_off ty) in
      if name = [] then idx
      else if bt_kind ty = kind_func then ((fst idx)(name \<mapsto> type_id), snd idx)
      else if bt_kind ty = kind_struct then (fst idx, (snd idx)(name \<mapsto> type_id))
      else idx)"

fun index_types ::
  "u8 list \<Rightarrow> btf_type_entry list \<Rightarrow> nat \<Rightarrow> (string \<rightharpoonup> u32) \<times> (string \<rightharpoonup> u32) \<Rightarrow>
   (string \<rightharpoonup> u32) \<times> (string \<rightharpoonup> u32)" where
  "index_types strings [] i idx = idx"
| "index_types strings (ty # types) i idx =
     index_types strings types (i + 1) (index_type strings ty (of_nat (i + 1)) idx)"

definition parse :: "u8 list \<Rightarrow> btf_stop + btf_data" where
  "parse data =
     (if length data < 24 then Inl (Failed (Btf_Type ''BTF too short''))
      else let magic = le_nat (take 2 data) in
        if magic \<noteq> btf_magic
        then Inl (Failed (Btf_Type (''bad BTF magic: 0x'' @ hexadecimal magic)))
        else
          let hdr_len = unat (read_u32 data 4);
              type_off = unat (read_u32 data 8);
              type_len = unat (read_u32 data 12);
              str_off = unat (read_u32 data 16);
              str_len = unat (read_u32 data 20)
          in case slice data (hdr_len + type_off) type_len of
               Inl stop \<Rightarrow> Inl stop
             | Inr type_data \<Rightarrow>
                 case slice data (hdr_len + str_off) str_len of
                   Inl stop \<Rightarrow> Inl stop
                 | Inr str_data \<Rightarrow>
                     case parse_types type_data of
                       Inl e \<Rightarrow> Inl (Failed e)
                     | Inr types \<Rightarrow>
                         let idx = index_types str_data types 0 (Map.empty, Map.empty)
                         in Inr \<lparr>btf_types = types, btf_strings = str_data, func_index = fst idx,
                                 struct_index = snd idx\<rparr>)"

section \<open>Lookups\<close>

definition get_type :: "btf_data \<Rightarrow> u32 \<Rightarrow> btf_type_entry option" where
  "get_type b type_id =
     (if type_id = 0 then None
      else let i = unat (type_id - 1) in
        if i < length (btf_types b) then Some (btf_types b ! i) else None)"

definition type_name :: "btf_data \<Rightarrow> u32 \<Rightarrow> string" where
  "type_name b type_id =
     (case get_type b type_id of
        Some ty \<Rightarrow> string_at (btf_strings b) (bt_name_off ty)
      | None \<Rightarrow> [])"

definition resolve_function :: "btf_data \<Rightarrow> string \<Rightarrow> codegen_error + function_signature" where
  "resolve_function b f =
     (case func_index b f of
        None \<Rightarrow> Inl (Function_Not_Found f)
      | Some func_id \<Rightarrow>
          case get_type b func_id of
            None \<Rightarrow> Inl (Btf_Type ''func type missing'')
          | Some func_type \<Rightarrow>
              if bt_kind func_type \<noteq> kind_func then Inl (Btf_Type (f @ '' is not a function''))
              else case get_type b (bt_size_or_type func_type) of
                None \<Rightarrow> Inl (Btf_Type ''func proto missing'')
              | Some proto \<Rightarrow>
                  if bt_kind proto \<noteq> kind_func_proto then Inl (Btf_Type ''expected FuncProto'')
                  else
                    let params = (case bt_extra proto of
                          Params ps \<Rightarrow>
                            map (\<lambda>p. \<lparr>fp_name = string_at (btf_strings b) (bp_name_off p),
                                      fp_type_id = bp_type_id p\<rparr>) ps
                        | _ \<Rightarrow> [])
                    in Inr \<lparr>fs_name = f, fs_params = params,
                            fs_return_type_id = bt_size_or_type proto\<rparr>)"

definition is_modifier :: "u32 \<Rightarrow> bool" where
  "is_modifier kind \<longleftrightarrow>
     kind = kind_typedef \<or> kind = kind_volatile \<or> kind = kind_const \<or> kind = kind_restrict \<or> kind = 18"

fun follow_modifiers :: "nat \<Rightarrow> btf_data \<Rightarrow> u32 \<Rightarrow> u32" where
  "follow_modifiers 0 b type_id = type_id"
| "follow_modifiers (Suc n) b type_id =
     (case get_type b type_id of
        None \<Rightarrow> type_id
      | Some ty \<Rightarrow>
          if is_modifier (bt_kind ty) then follow_modifiers n b (bt_size_or_type ty) else type_id)"

definition resolve_through_modifiers :: "btf_data \<Rightarrow> u32 \<Rightarrow> u32" where
  "resolve_through_modifiers b type_id = follow_modifiers 32 b type_id"

text \<open>The first member of a name.\<close>

fun direct_match :: "btf_data \<Rightarrow> string \<Rightarrow> btf_member list \<Rightarrow> btf_member option" where
  "direct_match b f [] = None"
| "direct_match b f (m # ms) =
     (if string_at (btf_strings b) (bm_name_off m) = f then Some m else direct_match b f ms)"

text \<open>
  The second pass: the anonymous members in order, \<open>look\<close> being the recursive call; an error of
  the call is dropped and the next member tried.
\<close>

fun anonymous_match ::
  "(u32 \<Rightarrow> (codegen_error + u32 \<times> u32) option) \<Rightarrow> btf_data \<Rightarrow> btf_member list \<Rightarrow>
   (u32 \<times> u32) option option" where
  "anonymous_match look b [] = Some None"
| "anonymous_match look b (m # ms) =
     (if string_at (btf_strings b) (bm_name_off m) = [] then
        case look (bm_type_id m) of
          None \<Rightarrow> None
        | Some (Inr (found_type, inner_offset)) \<Rightarrow>
            Some (Some (found_type, bm_offset_bits m div 8 + inner_offset))
        | Some (Inl e) \<Rightarrow> anonymous_match look b ms
      else anonymous_match look b ms)"

primrec find_member_recursive ::
  "nat \<Rightarrow> btf_data \<Rightarrow> string \<Rightarrow> u32 \<Rightarrow> (codegen_error + u32 \<times> u32) option" where
  "find_member_recursive 0 b f type_id = None"
| "find_member_recursive (Suc depth) b f type_id =
     (let resolved_id = resolve_through_modifiers b type_id in
      case get_type b resolved_id of
        None \<Rightarrow> Some (Inl (Btf_Type (''type '' @ decimal (unat resolved_id) @ '' missing'')))
      | Some ty \<Rightarrow>
          case bt_extra ty of
            Members members \<Rightarrow>
              (case direct_match b f members of
                 Some m \<Rightarrow> Some (Inr (bm_type_id m, bm_offset_bits m div 8))
               | None \<Rightarrow>
                   case anonymous_match (find_member_recursive depth b f) b members of
                     None \<Rightarrow> None
                   | Some (Some found) \<Rightarrow> Some (Inr found)
                   | Some None \<Rightarrow> Some (Inl (Field_Not_Found (type_name b resolved_id) f)))
          | _ \<Rightarrow> Some (Inl (Btf_Type
                   (''type '' @ type_name b resolved_id @ '' is not a struct/union''))))"

primrec type_size :: "nat \<Rightarrow> btf_data \<Rightarrow> u32 \<Rightarrow> nat option" where
  "type_size 0 b type_id = None"
| "type_size (Suc depth) b type_id =
     (case get_type b type_id of
        None \<Rightarrow> Some 0
      | Some ty \<Rightarrow>
          let kind = bt_kind ty in
          if kind = kind_int then
            (case bt_extra ty of
               Int_Data data \<Rightarrow> Some (unat (data AND 0xff) div 8)
             | _ \<Rightarrow> Some (unat (bt_size_or_type ty)))
          else if kind = kind_struct \<or> kind = kind_union \<or> kind = kind_enum \<or> kind = kind_enum64
          then Some (unat (bt_size_or_type ty))
          else if kind = kind_ptr then Some 8
          else if is_modifier kind then type_size depth b (bt_size_or_type ty)
          else if kind = 16 then Some (unat (bt_size_or_type ty))
          else Some 0)"

definition pointer_pointee :: "btf_data \<Rightarrow> u32 \<Rightarrow> pointee_kind" where
  "pointer_pointee b type_id =
     (case get_type b type_id of
        None \<Rightarrow> Pointee_Other
      | Some ty \<Rightarrow>
          if bt_kind ty \<noteq> kind_ptr then Pointee_Other
          else let pointee_id = resolve_through_modifiers b (bt_size_or_type ty) in
            case get_type b pointee_id of
              None \<Rightarrow> Pointee_Other
            | Some pointee \<Rightarrow>
                if bt_kind pointee = kind_struct
                then Pointee_Struct (string_at (btf_strings b) (bt_name_off pointee)) pointee_id
                else Pointee_Other)"

definition struct_by_name :: "btf_data \<Rightarrow> string \<Rightarrow> u32 option" where
  "struct_by_name b name = struct_index b name"

definition size_to_field_type :: "nat \<Rightarrow> codegen_error + field_type" where
  "size_to_field_type n =
     (if n = 1 then Inr FT_U8
      else if n = 2 then Inr FT_U16
      else if n = 4 then Inr FT_U32
      else if n = 8 then Inr FT_U64
      else Inl (Unsupported_Type (decimal n @ ''-byte field'')))"

fun resolve_parts ::
  "nat \<Rightarrow> btf_data \<Rightarrow> string \<Rightarrow> string list \<Rightarrow> u32 \<Rightarrow> u32 \<Rightarrow>
   (codegen_error + resolved_field) option" where
  "resolve_parts depth b field_path [] current_id acc = Some (Inl (Btf_Type ''empty field path''))"
| "resolve_parts depth b field_path (part # parts) current_id acc =
     (case find_member_recursive depth b part current_id of
        None \<Rightarrow> None
      | Some (Inl e) \<Rightarrow> Some (Inl e)
      | Some (Inr (member_type_id, member_offset)) \<Rightarrow>
          let acc' = acc + member_offset in
          if parts = [] then
            (case type_size depth b member_type_id of
               None \<Rightarrow> None
             | Some n \<Rightarrow>
                 (case size_to_field_type n of
                    Inl e \<Rightarrow> Some (Inl e)
                  | Inr field_type \<Rightarrow>
                      Some (Inr \<lparr>rf_name = field_path, rf_offset_bytes = acc', rf_size = n,
                                 rf_field_type = field_type\<rparr>)))
          else resolve_parts depth b field_path parts member_type_id acc')"

definition resolve_field_offset ::
  "nat \<Rightarrow> btf_data \<Rightarrow> u32 \<Rightarrow> string \<Rightarrow> (codegen_error + resolved_field) option" where
  "resolve_field_offset depth b struct_type_id field_path =
     resolve_parts depth b field_path (split_on (CHR ''.'') field_path) struct_type_id 0"

fun offset_parts ::
  "nat \<Rightarrow> btf_data \<Rightarrow> string list \<Rightarrow> u32 \<Rightarrow> u32 \<Rightarrow> (codegen_error + u32) option" where
  "offset_parts depth b [] current_id acc = Some (Inr acc)"
| "offset_parts depth b (part # parts) current_id acc =
     (case find_member_recursive depth b part current_id of
        None \<Rightarrow> None
      | Some (Inl e) \<Rightarrow> Some (Inl e)
      | Some (Inr (member_type_id, member_offset)) \<Rightarrow>
          offset_parts depth b parts member_type_id (acc + member_offset))"

definition field_offset :: "nat \<Rightarrow> btf_data \<Rightarrow> u32 \<Rightarrow> string \<Rightarrow> (codegen_error + u32) option" where
  "field_offset depth b struct_type_id field_path =
     offset_parts depth b (split_on (CHR ''.'') field_path) struct_type_id 0"

section \<open>The parser reads every well-formed type section\<close>

text \<open>
  The reference encoder, after the BTF format: a twelve-byte header, then what the kind carries.
  The words of kinds the parser skips are \<open>pad\<close>; \<open>info\<close> carries kind and \<open>vlen\<close>, its other
  bits are free.
\<close>

definition u32_bytes :: "u32 \<Rightarrow> u8 list" where
  "u32_bytes w = le_bytes 4 (unat w)"

definition member_bytes :: "btf_member \<Rightarrow> u8 list" where
  "member_bytes m =
     u32_bytes (bm_name_off m) @ u32_bytes (bm_type_id m) @ u32_bytes (bm_offset_bits m)"

definition param_bytes :: "btf_param \<Rightarrow> u8 list" where
  "param_bytes p = u32_bytes (bp_name_off p) @ u32_bytes (bp_type_id p)"

fun extra_bytes :: "type_extra \<Rightarrow> u8 list" where
  "extra_bytes No_Extra = []"
| "extra_bytes (Members ms) = concat (map member_bytes ms)"
| "extra_bytes (Params ps) = concat (map param_bytes ps)"
| "extra_bytes (Int_Data d) = u32_bytes d"

definition entry_bytes :: "btf_type_entry \<times> u32 \<times> u8 list \<Rightarrow> u8 list" where
  "entry_bytes x = (case x of (e, info, pad) \<Rightarrow>
     u32_bytes (bt_name_off e) @ u32_bytes info @ u32_bytes (bt_size_or_type e) @
     extra_bytes (bt_extra e) @ pad)"

definition skip_length :: "u32 \<Rightarrow> u32 \<Rightarrow> nat" where
  "skip_length kind vlen =
     (if kind = 3 then 12
      else if kind = kind_enum then unat vlen * 8
      else if kind = 14 \<or> kind = 17 then 4
      else if kind = 15 \<or> kind = kind_enum64 then unat vlen * 12
      else 0)"

fun extra_ok :: "u32 \<Rightarrow> u32 \<Rightarrow> type_extra \<Rightarrow> u8 list \<Rightarrow> bool" where
  "extra_ok kind vlen No_Extra pad \<longleftrightarrow>
     kind \<notin> {kind_int, kind_struct, kind_union, kind_func_proto} \<and>
     length pad = skip_length kind vlen"
| "extra_ok kind vlen (Members ms) pad \<longleftrightarrow>
     kind \<in> {kind_struct, kind_union} \<and> length ms = unat vlen \<and> pad = []"
| "extra_ok kind vlen (Params ps) pad \<longleftrightarrow>
     kind = kind_func_proto \<and> length ps = unat vlen \<and> pad = []"
| "extra_ok kind vlen (Int_Data d) pad \<longleftrightarrow> kind = kind_int \<and> pad = []"

definition entry_ok :: "btf_type_entry \<times> u32 \<times> u8 list \<Rightarrow> bool" where
  "entry_ok x = (case x of (e, info, pad) \<Rightarrow>
     bt_kind e = drop_bit 24 info AND 0x1f \<and> bt_vlen e = info AND 0xffff \<and>
     extra_ok (bt_kind e) (bt_vlen e) (bt_extra e) pad)"

lemma length_u32_bytes [simp]: "length (u32_bytes w) = 4"
  by (simp add: u32_bytes_def)

lemma length_member_bytes [simp]: "length (member_bytes m) = 12"
  by (simp add: member_bytes_def)

lemma length_param_bytes [simp]: "length (param_bytes p) = 8"
  by (simp add: param_bytes_def)

lemma read_u32_here: "read_u32 (pre @ u32_bytes w @ rest) (length pre) = w"
proof -
  have "LENGTH(32) = 8 * (4 :: nat)" by simp
  then show ?thesis
    using word_of_le_nat [where 'a = 32, of 4 w] by (simp add: read_u32_def u32_bytes_def)
qed

lemma read_u32_at: "pos = length pre \<Longrightarrow> data = pre @ u32_bytes w @ rest \<Longrightarrow> read_u32 data pos = w"
  by (simp add: read_u32_here)

lemma read_member:
  "read_u32 (pre @ member_bytes m @ rest) (length pre) = bm_name_off m"
  "read_u32 (pre @ member_bytes m @ rest) (length pre + 4) = bm_type_id m"
  "read_u32 (pre @ member_bytes m @ rest) (length pre + 8) = bm_offset_bits m"
proof -
  note d = member_bytes_def
  show "read_u32 (pre @ member_bytes m @ rest) (length pre) = bm_name_off m"
    by (rule read_u32_at [of _ pre]) (simp_all add: d)
  show "read_u32 (pre @ member_bytes m @ rest) (length pre + 4) = bm_type_id m"
    by (rule read_u32_at [of _ "pre @ u32_bytes (bm_name_off m)"]) (simp_all add: d)
  show "read_u32 (pre @ member_bytes m @ rest) (length pre + 8) = bm_offset_bits m"
    by (rule read_u32_at [of _ "pre @ u32_bytes (bm_name_off m) @ u32_bytes (bm_type_id m)"])
      (simp_all add: d)
qed

lemma read_param:
  "read_u32 (pre @ param_bytes p @ rest) (length pre) = bp_name_off p"
  "read_u32 (pre @ param_bytes p @ rest) (length pre + 4) = bp_type_id p"
proof -
  show "read_u32 (pre @ param_bytes p @ rest) (length pre) = bp_name_off p"
    by (rule read_u32_at [of _ pre]) (simp_all add: param_bytes_def)
  show "read_u32 (pre @ param_bytes p @ rest) (length pre + 4) = bp_type_id p"
    by (rule read_u32_at [of _ "pre @ u32_bytes (bp_name_off p)"]) (simp_all add: param_bytes_def)
qed

lemma member_eta:
  "\<lparr>bm_name_off = bm_name_off m, bm_type_id = bm_type_id m, bm_offset_bits = bm_offset_bits m\<rparr> = m"
  by (cases m) simp

lemma param_eta: "\<lparr>bp_name_off = bp_name_off p, bp_type_id = bp_type_id p\<rparr> = p"
  by (cases p) simp

lemma parse_members_bytes:
  "parse_members (pre @ concat (map member_bytes ms) @ rest) (length ms) (length pre) acc =
   Inr (acc @ ms, length pre + 12 * length ms)"
proof (induction ms arbitrary: pre acc)
  case Nil
  then show ?case by simp
next
  case (Cons m ms)
  then show ?case
    using Cons.IH [of "pre @ member_bytes m" "acc @ [m]"] by (simp add: read_member member_eta add.assoc)
qed

lemma parse_params_bytes:
  "parse_params (pre @ concat (map param_bytes ps) @ rest) (length ps) (length pre) acc =
   Inr (acc @ ps, length pre + 8 * length ps)"
proof (induction ps arbitrary: pre acc)
  case Nil
  then show ?case by simp
next
  case (Cons p ps)
  then show ?case
    using Cons.IH [of "pre @ param_bytes p" "acc @ [p]"] by (simp add: read_param param_eta add.assoc)
qed

lemma length_extra_bytes:
  "length (concat (map member_bytes ms)) = 12 * length ms"
  "length (concat (map param_bytes ps)) = 8 * length ps"
proof -
  show "length (concat (map member_bytes ms)) = 12 * length ms" by (induction ms) simp_all
  show "length (concat (map param_bytes ps)) = 8 * length ps" by (induction ps) simp_all
qed

lemma parse_extra_bytes:
  assumes "extra_ok kind vlen extra pad"
  shows "parse_extra (pre @ extra_bytes extra @ pad @ rest) kind vlen (length pre) =
    Inr (extra, length pre + length (extra_bytes extra) + length pad)"
proof (cases extra)
  case No_Extra
  with assms show ?thesis
    by (simp add: parse_extra_def skip_length_def kind_defs)
next
  case (Members ms)
  with assms have "kind = kind_struct \<or> kind = kind_union" "length ms = unat vlen" "pad = []"
    by simp_all
  with Members show ?thesis
    using parse_members_bytes [of pre ms rest "[]"]
    by (auto simp: parse_extra_def kind_defs length_extra_bytes)
next
  case (Params ps)
  with assms have "kind = kind_func_proto" "length ps = unat vlen" "pad = []" by simp_all
  with Params show ?thesis
    using parse_params_bytes [of pre ps rest "[]"]
    by (simp add: parse_extra_def kind_defs length_extra_bytes)
next
  case (Int_Data d)
  with assms have "kind = kind_int" "pad = []" by simp_all
  with Int_Data show ?thesis
    by (simp add: parse_extra_def kind_defs read_u32_here)
qed

lemma entry_eta:
  "\<lparr>bt_name_off = bt_name_off e, bt_kind = bt_kind e, bt_vlen = bt_vlen e,
    bt_size_or_type = bt_size_or_type e, bt_extra = bt_extra e\<rparr> = e"
  by (cases e) simp

lemma parse_types_bytes:
  assumes "list_all entry_ok xs" and "length tail < 12"
  shows "parse_types_from (pre @ concat (map entry_bytes xs) @ tail) (length pre) acc =
    Inr (acc @ map fst xs)"
  using assms(1)
proof (induction xs arbitrary: pre acc)
  case Nil
  with assms(2) show ?case by (simp add: parse_types_from.simps)
next
  case (Cons x xs)
  obtain e info pad where x: "x = (e, info, pad)" by (cases x)
  let ?hdr = "u32_bytes (bt_name_off e) @ u32_bytes info @ u32_bytes (bt_size_or_type e)"
  let ?rest = "concat (map entry_bytes xs) @ tail"
  let ?data = "pre @ ?hdr @ extra_bytes (bt_extra e) @ pad @ ?rest"
  have eb: "entry_bytes x = ?hdr @ extra_bytes (bt_extra e) @ pad"
    by (simp add: x entry_bytes_def)
  have data: "pre @ concat (map entry_bytes (x # xs)) @ tail = ?data"
    by (simp add: eb)
  have reads: "read_u32 ?data (length pre) = bt_name_off e"
    "read_u32 ?data (length pre + 4) = info"
    "read_u32 ?data (length pre + 8) = bt_size_or_type e"
    by (rule read_u32_at [of _ pre], simp, simp)
      (rule read_u32_at [of _ "pre @ u32_bytes (bt_name_off e)"], simp, simp,
       rule read_u32_at [of _ "pre @ u32_bytes (bt_name_off e) @ u32_bytes info"], simp, simp)
  have ok: "drop_bit 24 info AND 0x1f = bt_kind e" "info AND 0xffff = bt_vlen e"
    "extra_ok (bt_kind e) (bt_vlen e) (bt_extra e) pad"
    using Cons.prems by (auto simp: x entry_ok_def)
  have extra: "parse_extra ?data (bt_kind e) (bt_vlen e) (length pre + 12) =
      Inr (bt_extra e, length pre + 12 + length (extra_bytes (bt_extra e)) + length pad)"
    using parse_extra_bytes [OF ok(3), of "pre @ ?hdr" ?rest] by simp
  have "parse_types_from ?data (length pre + 12 + length (extra_bytes (bt_extra e)) + length pad)
      (acc @ [e]) = Inr ((acc @ [e]) @ map fst xs)"
    using Cons.IH [of "pre @ entry_bytes x" "acc @ [e]"] Cons.prems
    by (simp add: eb add.assoc)
  then show ?case
    unfolding data parse_types_from.simps [of ?data "length pre"] reads Let_def ok(1,2) extra
    by (simp add: x entry_eta)
qed

definition type_section :: "(btf_type_entry \<times> u32 \<times> u8 list) list \<Rightarrow> u8 list" where
  "type_section xs = concat (map entry_bytes xs)"

definition btf_image :: "(btf_type_entry \<times> u32 \<times> u8 list) list \<Rightarrow> u8 list \<Rightarrow> u8 list" where
  "btf_image xs strs =
     le_bytes 2 btf_magic @ [1, 0] @ u32_bytes 24 @ u32_bytes 0 @
     u32_bytes (of_nat (length (type_section xs))) @ u32_bytes (of_nat (length (type_section xs))) @
     u32_bytes (of_nat (length strs)) @ type_section xs @ strs"

lemma slice_mid:
  "data = pre @ mid @ post \<Longrightarrow> from = length pre \<Longrightarrow> n = length mid \<Longrightarrow> slice data from n = Inr mid"
  by (simp add: slice_def)

lemma parse_image:
  assumes "list_all entry_ok xs" and "length (type_section xs) < 2 ^ 32" and "length strs < 2 ^ 32"
  shows "parse (btf_image xs strs) =
    (let idx = index_types strs (map fst xs) 0 (Map.empty, Map.empty)
     in Inr \<lparr>btf_types = map fst xs, btf_strings = strs, func_index = fst idx,
             struct_index = snd idx\<rparr>)"
proof -
  let ?ts = "type_section xs"
  let ?h = "le_bytes 2 btf_magic @ [1, 0]"
  let ?n = "of_nat (length ?ts) :: u32" and ?m = "of_nat (length strs) :: u32"
  let ?data = "btf_image xs strs"
  note d = btf_image_def
  have unats: "unat ?n = length ?ts" "unat ?m = length strs"
    using assms(2,3) by (simp_all add: unat_of_nat)
  have reads: "read_u32 ?data 4 = 24" "read_u32 ?data 8 = 0" "read_u32 ?data 12 = ?n"
    "read_u32 ?data 16 = ?n" "read_u32 ?data 20 = ?m"
  proof -
    show "read_u32 ?data 4 = 24" by (rule read_u32_at [of _ ?h]) (simp_all add: d)
    show "read_u32 ?data 8 = 0" by (rule read_u32_at [of _ "?h @ u32_bytes 24"]) (simp_all add: d)
    show "read_u32 ?data 12 = ?n"
      by (rule read_u32_at [of _ "?h @ u32_bytes 24 @ u32_bytes 0"]) (simp_all add: d)
    show "read_u32 ?data 16 = ?n"
      by (rule read_u32_at [of _ "?h @ u32_bytes 24 @ u32_bytes 0 @ u32_bytes ?n"])
        (simp_all add: d)
    show "read_u32 ?data 20 = ?m"
      by (rule read_u32_at [of _ "?h @ u32_bytes 24 @ u32_bytes 0 @ u32_bytes ?n @ u32_bytes ?n"])
        (simp_all add: d)
  qed
  have magic: "le_nat (take 2 ?data) = btf_magic"
    by (simp add: d le_nat_le_bytes btf_magic_def)
  have len: "length ?data = 24 + length ?ts + length strs" by (simp add: d)
  let ?H = "?h @ u32_bytes 24 @ u32_bytes 0 @ u32_bytes ?n @ u32_bytes ?n @ u32_bytes ?m"
  have cuts: "slice ?data 24 (length ?ts) = Inr ?ts"
    "slice ?data (24 + length ?ts) (length strs) = Inr strs"
    by (rule slice_mid [of _ ?H _ strs], simp_all add: d)
      (rule slice_mid [of _ "?H @ ?ts" _ "[]"], simp_all add: d)
  have types: "parse_types ?ts = Inr (map fst xs)"
    using parse_types_bytes [OF assms(1), of "[]" "[]" "[]"]
    by (simp add: parse_types_def type_section_def)
  show ?thesis
    by (simp add: parse_def len magic reads unats cuts types Let_def)
qed

section \<open>The name indexes\<close>

lemma parse_types_from_length:
  "parse_types_from data pos acc = Inr types \<Longrightarrow>
   12 * length types \<le> 12 * length acc + (length data - pos)"
proof (induction data pos acc rule: parse_types_from.induct)
  case (1 data pos acc)
  show ?case
  proof (cases "pos + 12 \<le> length data")
    case True
    let ?info = "read_u32 data (pos + 4)"
    let ?kind = "drop_bit 24 ?info AND 0x1f" and ?vlen = "?info AND 0xffff"
    obtain extra pos' where e: "parse_extra data ?kind ?vlen (pos + 12) = Inr (extra, pos')"
      using "1.prems" True
      by (auto simp: parse_types_from.simps [of data pos] Let_def split: sum.splits)
    then have "pos + 12 \<le> pos'" by (rule parse_extra_pos)
    moreover have "12 * length types \<le> 12 * Suc (length acc) + (length data - pos')"
      using "1.IH" [OF True refl refl refl e refl] "1.prems" True e
      by (simp add: parse_types_from.simps [of data pos] Let_def)
    ultimately show ?thesis using True by simp
  next
    case False
    with "1.prems" show ?thesis by (simp add: parse_types_from.simps [of data pos])
  qed
qed

definition named_type :: "btf_data \<Rightarrow> u32 \<Rightarrow> string \<Rightarrow> u32 \<Rightarrow> bool" where
  "named_type b kind name type_id \<longleftrightarrow>
     (case get_type b type_id of
        None \<Rightarrow> False
      | Some ty \<Rightarrow> bt_kind ty = kind \<and> string_at (btf_strings b) (bt_name_off ty) = name)"

lemma index_types_append:
  "index_types strs (xs @ ys) i idx = index_types strs ys (i + length xs) (index_types strs xs i idx)"
  by (induction xs arbitrary: i idx) simp_all

lemma index_type_kind:
  "fst (index_type strs ty n idx) =
   (if bt_kind ty = kind_func \<and> string_at strs (bt_name_off ty) \<noteq> []
    then (fst idx)(string_at strs (bt_name_off ty) \<mapsto> n) else fst idx)"
  "snd (index_type strs ty n idx) =
   (if bt_kind ty = kind_struct \<and> string_at strs (bt_name_off ty) \<noteq> []
    then (snd idx)(string_at strs (bt_name_off ty) \<mapsto> n) else snd idx)"
  by (auto simp: index_type_def Let_def kind_defs)

text \<open>The last type of a name wins, in either index.\<close>

definition last_named :: "u8 list \<Rightarrow> u32 \<Rightarrow> btf_type_entry list \<Rightarrow> string \<Rightarrow> u32 option" where
  "last_named strs kind types name =
     (if name = [] then None
      else map_option (\<lambda>i. of_nat (i + 1))
        (List.find
           (\<lambda>i. bt_kind (types ! i) = kind \<and> string_at strs (bt_name_off (types ! i)) = name)
           (rev [0..<length types])))"

lemma find_cong_mem: "(\<And>x. x \<in> set xs \<Longrightarrow> P x = Q x) \<Longrightarrow> List.find P xs = List.find Q xs"
  by (induction xs) auto

lemma last_named_snoc:
  "last_named strs kind (types @ [ty]) name =
   (if name \<noteq> [] \<and> bt_kind ty = kind \<and> string_at strs (bt_name_off ty) = name
    then Some (of_nat (length types + 1)) else last_named strs kind types name)"
proof -
  have "List.find (\<lambda>i. bt_kind ((types @ [ty]) ! i) = kind \<and>
          string_at strs (bt_name_off ((types @ [ty]) ! i)) = name) (rev [0..<length types]) =
        List.find (\<lambda>i. bt_kind (types ! i) = kind \<and>
          string_at strs (bt_name_off (types ! i)) = name) (rev [0..<length types])"
    by (rule find_cong_mem) (simp add: nth_append)
  then show ?thesis by (simp add: last_named_def)
qed

lemma index_types_last:
  "fst (index_types strs types 0 (Map.empty, Map.empty)) = last_named strs kind_func types \<and>
   snd (index_types strs types 0 (Map.empty, Map.empty)) = last_named strs kind_struct types"
proof (induction types rule: rev_induct)
  case Nil
  then show ?case by (simp add: fun_eq_iff last_named_def)
next
  case (snoc ty types)
  then show ?case
    by (simp add: index_types_append index_type_kind fun_eq_iff last_named_snoc)
qed

lemma slice_Inr: "slice data from n = Inr out \<Longrightarrow> out = take n (drop from data) \<and> length out = n"
  by (auto simp: slice_def split: if_splits)

lemma parse_Inr:
  assumes "parse data = Inr b"
  shows "func_index b = last_named (btf_strings b) kind_func (btf_types b)"
    and "struct_index b = last_named (btf_strings b) kind_struct (btf_types b)"
    and "length (btf_types b) < 2 ^ 32 - 1"
proof -
  let ?t = "read_u32 data 12"
  from assms obtain type_data types where
    t: "slice data (unat (read_u32 data 4) + unat (read_u32 data 8)) (unat ?t) = Inr type_data"
    and p: "parse_types type_data = Inr types"
    and b: "b = (let idx = index_types (btf_strings b) types 0 (Map.empty, Map.empty) in
        \<lparr>btf_types = types, btf_strings = btf_strings b, func_index = fst idx, struct_index = snd idx\<rparr>)"
    by (auto simp: parse_def Let_def split: if_splits sum.splits)
  have types: "btf_types b = types" by (subst b) (simp add: Let_def)
  show "func_index b = last_named (btf_strings b) kind_func (btf_types b)"
    unfolding types by (subst b) (simp add: Let_def index_types_last)
  show "struct_index b = last_named (btf_strings b) kind_struct (btf_types b)"
    unfolding types by (subst b) (simp add: Let_def index_types_last)
  have "12 * length types \<le> length type_data"
    using parse_types_from_length [of type_data 0 "[]" types] p by (simp add: parse_types_def)
  moreover have "length type_data < 2 ^ 32"
    using slice_Inr [OF t] unsigned_less [where 'a = nat, of ?t] by simp
  ultimately show "length (btf_types b) < 2 ^ 32 - 1" unfolding types by simp
qed

lemma find_SomeD: "List.find P xs = Some x \<Longrightarrow> P x \<and> x \<in> set xs"
  by (induction xs) (auto split: if_splits)

lemma last_named_Some:
  assumes "last_named strs kind types name = Some type_id" and "length types < 2 ^ 32 - 1"
  shows "name \<noteq> [] \<and> type_id \<noteq> 0 \<and> unat (type_id - 1) < length types \<and>
    bt_kind (types ! unat (type_id - 1)) = kind \<and>
    string_at strs (bt_name_off (types ! unat (type_id - 1))) = name"
proof -
  from assms(1) obtain i where i: "type_id = of_nat (i + 1)" "i < length types"
    "bt_kind (types ! i) = kind" "string_at strs (bt_name_off (types ! i)) = name" "name \<noteq> []"
    by (auto simp: last_named_def split: if_splits dest!: find_SomeD)
  have "unat (of_nat (i + 1) :: u32) = i + 1"
    using i(2) assms(2) by (simp add: unat_of_nat del: of_nat_add of_nat_Suc)
  then have "type_id \<noteq> 0" using i(1) by auto
  moreover have "unat (type_id - 1) = i"
    using i(2) assms(2) by (simp add: i(1) unat_of_nat)
  ultimately show ?thesis using i by simp
qed

lemma last_named_None:
  "last_named strs kind types name = None \<longleftrightarrow>
   name = [] \<or> (\<forall>ty \<in> set types. bt_kind ty = kind \<longrightarrow> string_at strs (bt_name_off ty) \<noteq> name)"
  by (auto simp: last_named_def find_None_iff all_set_conv_all_nth)

section \<open>Member lookup\<close>

text \<open>
  The members a path component may name, C's rule for anonymous members: a member of the
  struct, or one of an anonymous member, at the sum of the offsets.
\<close>

inductive has_member :: "btf_data \<Rightarrow> string \<Rightarrow> u32 \<Rightarrow> u32 \<Rightarrow> u32 \<Rightarrow> bool" for b f where
  named: "has_member b f type_id (bm_type_id m) (bm_offset_bits m div 8)"
    if "get_type b (resolve_through_modifiers b type_id) = Some ty" "bt_extra ty = Members ms"
      "m \<in> set ms" "string_at (btf_strings b) (bm_name_off m) = f"
| anonymous: "has_member b f type_id found (bm_offset_bits m div 8 + inner)"
    if "get_type b (resolve_through_modifiers b type_id) = Some ty" "bt_extra ty = Members ms"
      "m \<in> set ms" "string_at (btf_strings b) (bm_name_off m) = []"
      "has_member b f (bm_type_id m) found inner"

inductive_cases has_memberE: "has_member b f type_id found inner"

lemma direct_match_Some:
  "direct_match b f ms = Some m \<Longrightarrow>
   m \<in> set ms \<and> string_at (btf_strings b) (bm_name_off m) = f"
  by (induction ms) (auto split: if_splits)

lemma direct_match_None:
  "direct_match b f ms = None \<longleftrightarrow>
   (\<forall>m \<in> set ms. string_at (btf_strings b) (bm_name_off m) \<noteq> f)"
  by (induction ms) auto

lemma anonymous_match_found:
  "anonymous_match look b ms = Some (Some (found, off')) \<Longrightarrow>
   \<exists>m \<in> set ms. string_at (btf_strings b) (bm_name_off m) = [] \<and>
     (\<exists>inner. look (bm_type_id m) = Some (Inr (found, inner)) \<and>
       off' = bm_offset_bits m div 8 + inner)"
  by (induction ms) (auto split: if_splits option.splits sum.splits prod.splits)

lemma anonymous_match_absent:
  "anonymous_match look b ms = Some None \<longleftrightarrow>
   (\<forall>m \<in> set ms. string_at (btf_strings b) (bm_name_off m) = [] \<longrightarrow>
     (\<exists>e. look (bm_type_id m) = Some (Inl e)))"
  by (induction ms) (auto split: if_splits option.splits sum.splits prod.splits)

lemma find_member_exact:
  assumes "find_member_recursive depth b f type_id = Some r"
  shows "case r of Inl e \<Rightarrow> \<forall>t inner. \<not> has_member b f type_id t inner
    | Inr (t, inner) \<Rightarrow> has_member b f type_id t inner"
  using assms
proof (induction depth arbitrary: type_id r)
  case 0
  then show ?case by simp
next
  case (Suc depth)
  let ?id = "resolve_through_modifiers b type_id"
  show ?case
  proof (cases "\<exists>ty ms. get_type b ?id = Some ty \<and> bt_extra ty = Members ms")
    case False
    have none: "\<not> has_member b f type_id t inner" for t inner
    proof
      assume "has_member b f type_id t inner"
      then show False by (cases rule: has_memberE) (use False in auto)
    qed
    have "\<exists>e. r = Inl e" using False Suc.prems
      by (auto simp: Let_def split: option.splits type_extra.splits)
    with none show ?thesis by auto
  next
    case True
    then obtain ty ms where ty: "get_type b ?id = Some ty" "bt_extra ty = Members ms" by auto
    show ?thesis
    proof (cases "direct_match b f ms")
      case (Some m)
      then have "r = Inr (bm_type_id m, bm_offset_bits m div 8)"
        using Suc.prems ty by simp
      with direct_match_Some [OF Some] named [OF ty, of m f] show ?thesis by simp
    next
      case None
      show ?thesis
      proof (cases "anonymous_match (find_member_recursive depth b f) b ms")
        case None': None
        with None Suc.prems ty show ?thesis by simp
      next
        case (Some found)
        show ?thesis
        proof (cases found)
          case None': None
          with Some have anon: "anonymous_match (find_member_recursive depth b f) b ms = Some None"
            by simp
          have "\<not> has_member b f type_id t inner" for t inner
          proof
            assume "has_member b f type_id t inner"
            then show False
            proof (cases rule: has_member.cases)
              case (named ty' ms' m)
              with ty None show False by (auto simp: direct_match_None)
            next
              case (anonymous ty' ms' m inner')
              with ty anon obtain e where "find_member_recursive depth b f (bm_type_id m) = Some (Inl e)"
                by (auto simp: anonymous_match_absent)
              from Suc.IH [OF this] anonymous show False by auto
            qed
          qed
          moreover have "\<exists>e. r = Inl e" using Suc.prems ty None anon by auto
          ultimately show ?thesis by auto
        next
          case Some': (Some x)
          obtain t inner where x: "x = (t, inner)" by (cases x)
          from Some Some' x have
            found: "anonymous_match (find_member_recursive depth b f) b ms = Some (Some (t, inner))"
            by simp
          from anonymous_match_found [OF this] obtain m inner' where
            m: "m \<in> set ms" "string_at (btf_strings b) (bm_name_off m) = []"
            "find_member_recursive depth b f (bm_type_id m) = Some (Inr (t, inner'))"
            "inner = bm_offset_bits m div 8 + inner'" by auto
          have "r = Inr (t, inner)" using Suc.prems ty None found by simp
          moreover from Suc.IH [OF m(3)] have "has_member b f (bm_type_id m) t inner'" by simp
          ultimately show ?thesis using anonymous [OF ty m(1,2)] m(4) by simp
        qed
      qed
    qed
  qed
qed

section \<open>Enough depth\<close>

text \<open>
  A rank that falls along every by-value reference the lookups follow.  Real BTF has one: a type
  cannot contain itself.
\<close>

definition by_value_rank :: "btf_data \<Rightarrow> (u32 \<Rightarrow> nat) \<Rightarrow> bool" where
  "by_value_rank b rank \<longleftrightarrow>
     (\<forall>type_id ty. get_type b type_id = Some ty \<longrightarrow> is_modifier (bt_kind ty) \<longrightarrow>
        rank (bt_size_or_type ty) < rank type_id) \<and>
     (\<forall>type_id ty ms m. get_type b type_id = Some ty \<longrightarrow> bt_extra ty = Members ms \<longrightarrow>
        m \<in> set ms \<longrightarrow> string_at (btf_strings b) (bm_name_off m) = [] \<longrightarrow>
        rank (bm_type_id m) < rank type_id)"

lemma rank_modifier:
  "by_value_rank b rank \<Longrightarrow> get_type b type_id = Some ty \<Longrightarrow> is_modifier (bt_kind ty) \<Longrightarrow>
   rank (bt_size_or_type ty) < rank type_id"
  by (auto simp: by_value_rank_def)

lemma rank_member:
  "by_value_rank b rank \<Longrightarrow> get_type b type_id = Some ty \<Longrightarrow> bt_extra ty = Members ms \<Longrightarrow>
   m \<in> set ms \<Longrightarrow> string_at (btf_strings b) (bm_name_off m) = [] \<Longrightarrow>
   rank (bm_type_id m) < rank type_id"
  unfolding by_value_rank_def by blast

lemma rank_follow_modifiers:
  "by_value_rank b rank \<Longrightarrow> rank (follow_modifiers n b type_id) \<le> rank type_id"
proof (induction n arbitrary: type_id)
  case 0
  then show ?case by simp
next
  case (Suc n)
  have "rank (follow_modifiers n b (bt_size_or_type ty)) \<le> rank type_id"
    if "get_type b type_id = Some ty" "is_modifier (bt_kind ty)" for ty
    using rank_modifier [OF Suc.prems that] Suc.IH [OF Suc.prems, of "bt_size_or_type ty"] by simp
  then show ?case by (simp split: option.splits)
qed

lemma anonymous_match_returns:
  "(\<And>m. m \<in> set ms \<Longrightarrow> string_at (btf_strings b) (bm_name_off m) = [] \<Longrightarrow>
      look (bm_type_id m) \<noteq> None) \<Longrightarrow> anonymous_match look b ms \<noteq> None"
proof (induction ms)
  case Nil
  then show ?case by simp
next
  case (Cons m ms)
  then have "anonymous_match look b ms \<noteq> None" by simp
  with Cons.prems [of m] show ?case by (auto split: option.splits sum.splits)
qed

lemma type_size_returns:
  "by_value_rank b rank \<Longrightarrow> rank type_id < depth \<Longrightarrow> \<exists>n. type_size depth b type_id = Some n"
proof (induction depth arbitrary: type_id)
  case 0
  then show ?case by simp
next
  case (Suc depth)
  have deep: "\<exists>n. type_size depth b (bt_size_or_type ty) = Some n"
    if "get_type b type_id = Some ty" "is_modifier (bt_kind ty)" for ty
    using Suc.IH [OF Suc.prems(1)] rank_modifier [OF Suc.prems(1) that] Suc.prems(2) by simp
  then show ?case
    by (cases "get_type b type_id") (auto simp: Let_def split: type_extra.splits)
qed

lemma find_member_returns:
  "by_value_rank b rank \<Longrightarrow> rank type_id < depth \<Longrightarrow>
   \<exists>r. find_member_recursive depth b f type_id = Some r"
proof (induction depth arbitrary: type_id)
  case 0
  then show ?case by simp
next
  case (Suc depth)
  let ?id = "resolve_through_modifiers b type_id"
  have le: "rank ?id \<le> rank type_id"
    using rank_follow_modifiers [OF Suc.prems(1)] by (simp add: resolve_through_modifiers_def)
  show ?case
  proof (cases "\<exists>ty ms. get_type b ?id = Some ty \<and> bt_extra ty = Members ms")
    case True
    then obtain ty ms where ty: "get_type b ?id = Some ty" "bt_extra ty = Members ms" by auto
    have "anonymous_match (find_member_recursive depth b f) b ms \<noteq> None"
    proof (rule anonymous_match_returns)
      fix m
      assume "m \<in> set ms" "string_at (btf_strings b) (bm_name_off m) = []"
      from rank_member [OF Suc.prems(1) ty this] le Suc.prems(2) have "rank (bm_type_id m) < depth"
        by simp
      from Suc.IH [OF Suc.prems(1) this]
      show "find_member_recursive depth b f (bm_type_id m) \<noteq> None" by auto
    qed
    with ty show ?thesis by (auto split: option.splits)
  next
    case False
    then show ?thesis by (auto simp: Let_def split: option.splits type_extra.splits)
  qed
qed

section \<open>Paths\<close>

inductive has_path :: "btf_data \<Rightarrow> string list \<Rightarrow> u32 \<Rightarrow> u32 \<Rightarrow> u32 \<Rightarrow> bool" for b where
  here: "has_path b [] type_id type_id 0"
| step: "has_path b (part # parts) type_id leaf (inner + rest)"
    if "has_member b part type_id found inner" "has_path b parts found leaf rest"

lemma offset_parts_path:
  "offset_parts depth b parts type_id acc = Some (Inr total_offset) \<Longrightarrow>
   \<exists>leaf. has_path b parts type_id leaf (total_offset - acc)"
proof (induction depth b parts type_id acc rule: offset_parts.induct)
  case (1 depth b type_id acc)
  then show ?case using here [of b type_id] by auto
next
  case (2 depth b part parts type_id acc)
  then obtain found inner where f: "find_member_recursive depth b part type_id = Some (Inr (found, inner))"
    by (auto split: option.splits sum.splits)
  with 2(2) have "offset_parts depth b parts found (acc + inner) = Some (Inr total_offset)" by simp
  with "2.IH" [OF f refl refl] obtain leaf where
    "has_path b parts found leaf (total_offset - (acc + inner))" by auto
  moreover have "has_member b part type_id found inner" using find_member_exact [OF f] by simp
  ultimately have "has_path b (part # parts) type_id leaf (inner + (total_offset - (acc + inner)))"
    by (intro has_path.step)
  moreover have "inner + (total_offset - (acc + inner)) = total_offset - acc"
    by (simp add: algebra_simps)
  ultimately show ?case by metis
qed

lemma field_type_size_range: "field_type_size ft \<in> {1, 2, 4, 8}"
  by (cases ft) simp_all

lemma resolve_parts_offset:
  assumes "resolve_parts depth b path parts type_id acc = Some (Inr rf)"
  shows "offset_parts depth b parts type_id acc = Some (Inr (rf_offset_bytes rf)) \<and>
    rf_size rf = field_type_size (rf_field_type rf) \<and>
    rf_name rf = path"
  using assms
proof (induction depth b path parts type_id acc rule: resolve_parts.induct)
  case (1 depth b path type_id acc)
  then show ?case by simp
next
  case (2 depth b path part parts type_id acc)
  then obtain found inner where f: "find_member_recursive depth b part type_id = Some (Inr (found, inner))"
    by (auto split: option.splits sum.splits)
  show ?case
  proof (cases "parts = []")
    case True
    with 2(2) f obtain n ft where "type_size depth b found = Some n" "size_to_field_type n = Inr ft"
      "rf = \<lparr>rf_name = path, rf_offset_bytes = acc + inner, rf_size = n, rf_field_type = ft\<rparr>"
      by (auto simp: Let_def split: option.splits sum.splits)
    with True f show ?thesis by (auto simp: size_to_field_type_def split: if_splits)
  next
    case False
    with 2(2) f have "resolve_parts depth b path parts found (acc + inner) = Some (Inr rf)"
      by simp
    from "2.IH" [OF f refl refl refl False this] f show ?thesis by simp
  qed
qed

lemma resolve_parts_returns:
  assumes "by_value_rank b rank" and "\<And>type_id. rank type_id < depth"
  shows "\<exists>r. resolve_parts depth b path parts type_id acc = Some r"
proof (induction parts arbitrary: type_id acc)
  case Nil
  then show ?case by simp
next
  case (Cons part parts)
  obtain r where r: "find_member_recursive depth b part type_id = Some r"
    using find_member_returns [OF assms(1) assms(2)] by auto
  show ?case
  proof (cases r)
    case (Inl e)
    with r show ?thesis by simp
  next
    case (Inr x)
    obtain found inner where x: "x = (found, inner)" by (cases x)
    obtain n where "type_size depth b found = Some n"
      using type_size_returns [OF assms(1) assms(2)] by auto
    with r Inr x Cons show ?thesis by (auto simp: Let_def split: sum.splits)
  qed
qed

lemma offset_parts_returns:
  assumes "by_value_rank b rank" and "\<And>type_id. rank type_id < depth"
  shows "\<exists>r. offset_parts depth b parts type_id acc = Some r"
proof (induction parts arbitrary: type_id acc)
  case Nil
  then show ?case by simp
next
  case (Cons part parts)
  obtain r where r: "find_member_recursive depth b part type_id = Some r"
    using find_member_returns [OF assms(1) assms(2)] by auto
  then show ?case using Cons by (cases r) auto
qed

text \<open>A typedef of itself is followed for ever: \<open>type_size\<close> has no limit on modifiers.\<close>

lemma type_size_cycle:
  assumes "get_type b type_id = Some ty" and "is_modifier (bt_kind ty)"
    and "bt_size_or_type ty = type_id"
  shows "type_size depth b type_id = None"
  using assms by (induction depth) (auto simp: Let_def is_modifier_def kind_defs)

section \<open>A sample\<close>

text \<open>
  \<open>struct s { char pad[8]; struct { char pad[4]; int x; }; }; int f(struct s *p);\<close>
\<close>

definition sample_strings :: "u8 list" where
  "sample_strings =
     [0] @ as_bytes ''int'' @ [0] @ as_bytes ''s'' @ [0] @ as_bytes ''x'' @ [0] @ as_bytes ''f'' @ [0] @
     as_bytes ''p'' @ [0]"

definition sample_types :: "(btf_type_entry \<times> u32 \<times> u8 list) list" where
  "sample_types =
     [(\<lparr>bt_name_off = 1, bt_kind = 1, bt_vlen = 0, bt_size_or_type = 4, bt_extra = Int_Data 32\<rparr>,
       0x01000000, []),
      (\<lparr>bt_name_off = 0, bt_kind = 4, bt_vlen = 1, bt_size_or_type = 8,
        bt_extra = Members [\<lparr>bm_name_off = 7, bm_type_id = 1, bm_offset_bits = 32\<rparr>]\<rparr>,
       0x04000001, []),
      (\<lparr>bt_name_off = 5, bt_kind = 4, bt_vlen = 1, bt_size_or_type = 16,
        bt_extra = Members [\<lparr>bm_name_off = 0, bm_type_id = 2, bm_offset_bits = 64\<rparr>]\<rparr>,
       0x04000001, []),
      (\<lparr>bt_name_off = 0, bt_kind = 2, bt_vlen = 0, bt_size_or_type = 3, bt_extra = No_Extra\<rparr>,
       0x02000000, []),
      (\<lparr>bt_name_off = 0, bt_kind = 13, bt_vlen = 1, bt_size_or_type = 1,
        bt_extra = Params [\<lparr>bp_name_off = 11, bp_type_id = 4\<rparr>]\<rparr>,
       0x0d000001, []),
      (\<lparr>bt_name_off = 9, bt_kind = 12, bt_vlen = 0, bt_size_or_type = 5, bt_extra = No_Extra\<rparr>,
       0x0c000000, [])]"

definition sample_btf :: btf_data where
  "sample_btf = \<lparr>btf_types = map fst sample_types, btf_strings = sample_strings,
     func_index = last_named sample_strings kind_func (map fst sample_types),
     struct_index = last_named sample_strings kind_struct (map fst sample_types)\<rparr>"

lemma sample_string_at:
  "string_at sample_strings 0 = []" "string_at sample_strings 1 = ''int''"
  "string_at sample_strings 5 = ''s''" "string_at sample_strings 7 = ''x''"
  "string_at sample_strings 9 = ''f''" "string_at sample_strings 11 = ''p''"
  by code_simp+

lemma sample_types_ok:
  "list_all entry_ok sample_types \<and> length (type_section sample_types) = 108 \<and>
   length sample_strings = 13"
  by (simp add: sample_types_def entry_ok_def type_section_def entry_bytes_def kind_defs
      skip_length_def sample_strings_def)

lemma sample_get_type:
  "get_type sample_btf 1 = Some (fst (sample_types ! 0))"
  "get_type sample_btf 2 = Some (fst (sample_types ! 1))"
  "get_type sample_btf 3 = Some (fst (sample_types ! 2))"
  "get_type sample_btf 4 = Some (fst (sample_types ! 3))"
  "get_type sample_btf 5 = Some (fst (sample_types ! 4))"
  "get_type sample_btf 6 = Some (fst (sample_types ! 5))"
  by (simp_all add: get_type_def sample_btf_def sample_types_def)

lemma sample_resolve:
  "resolve_through_modifiers sample_btf 2 = 2" "resolve_through_modifiers sample_btf 3 = 3"
  by (simp_all add: resolve_through_modifiers_def numeral_eq_Suc sample_get_type)
    (simp_all add: sample_types_def is_modifier_def kind_defs)

lemma sample_member: "find_member_recursive 2 sample_btf ''x'' 3 = Some (Inr (1, 12))"
  by code_simp

section \<open>Properties\<close>

text \<open>
  C28: The BTF parser reads back every well-formed image: each type comes out at its index with
  its members, parameters or integer data, whatever kinds precede it, and the indexes hold the
  last function and the last struct of each name.
\<close>

theorem parse_btf_image:
  assumes "list_all entry_ok xs" and "length (type_section xs) < 2 ^ 32" and "length strs < 2 ^ 32"
  shows "parse (btf_image xs strs) = Inr
    \<lparr>btf_types = map fst xs, btf_strings = strs,
     func_index = last_named strs kind_func (map fst xs),
     struct_index = last_named strs kind_struct (map fst xs)\<rparr>"
  using parse_image [OF assms] index_types_last [of strs "map fst xs"] by (simp add: Let_def)

theorem parse_btf_image_witness: "parse (btf_image sample_types sample_strings) = Inr sample_btf"
  using parse_btf_image [of sample_types sample_strings] sample_types_ok
  by (simp add: sample_btf_def)

text \<open>
  C902. Resolving a function in parsed data: it is \<open>FunctionNotFound\<close> exactly when no function
  type has the name, the two internal errors about the function type cannot occur, and a
  signature holds the parameters of the prototype the function points to.
\<close>

theorem resolve_function_exact:
  assumes "parse data = Inr b"
  shows "case resolve_function b f of
      Inl e \<Rightarrow>
        e = Function_Not_Found f \<and>
        (f = [] \<or> (\<nexists>ty. ty \<in> set (btf_types b) \<and> bt_kind ty = kind_func \<and>
          string_at (btf_strings b) (bt_name_off ty) = f)) \<or>
        e = Btf_Type ''func proto missing'' \<or> e = Btf_Type ''expected FuncProto''
    | Inr sig \<Rightarrow>
        \<exists>func proto. func \<in> set (btf_types b) \<and> bt_kind func = kind_func \<and>
          string_at (btf_strings b) (bt_name_off func) = f \<and>
          get_type b (bt_size_or_type func) = Some proto \<and> bt_kind proto = kind_func_proto \<and>
          fs_name sig = f \<and> fs_return_type_id sig = bt_size_or_type proto \<and>
          (\<nexists>ps. bt_extra proto = Params ps \<and> map fp_type_id (fs_params sig) \<noteq> map bp_type_id ps)"
proof (cases "func_index b f")
  case None
  then show ?thesis
    using last_named_None [of "btf_strings b" kind_func "btf_types b" f]
    by (auto simp: resolve_function_def parse_Inr(1) [OF assms])
next
  case (Some func_id)
  let ?ty = "btf_types b ! unat (func_id - 1)"
  have ty: "func_id \<noteq> 0" "unat (func_id - 1) < length (btf_types b)" "bt_kind ?ty = kind_func"
    "string_at (btf_strings b) (bt_name_off ?ty) = f"
    using last_named_Some [of "btf_strings b" kind_func "btf_types b" f func_id] Some
      parse_Inr(1,3) [OF assms] by simp_all
  then have g: "get_type b func_id = Some ?ty" by (simp add: get_type_def Let_def)
  have mem: "?ty \<in> set (btf_types b)" using ty(2) by simp
  show ?thesis
  proof (cases "get_type b (bt_size_or_type ?ty)")
    case None
    with Some g ty(3) show ?thesis by (simp add: resolve_function_def)
  next
    case (Some proto)
    then show ?thesis
      using \<open>func_index b f = Some func_id\<close> g ty(3,4) mem
      by (cases "bt_kind proto = kind_func_proto")
        (force simp: resolve_function_def Let_def comp_def split: type_extra.splits)+
  qed
qed

theorem resolve_function_exact_witness:
  "\<exists>sig. resolve_function sample_btf ''f'' = Inr sig \<and> map fp_type_id (fs_params sig) = [4] \<and>
     fs_return_type_id sig = 1"
proof -
  note p = parse_btf_image_witness
  have "resolve_function sample_btf ''f'' =
      Inr \<lparr>fs_name = ''f'', fs_params = [\<lparr>fp_name = ''p'', fp_type_id = 4\<rparr>], fs_return_type_id = 1\<rparr>"
    by code_simp
  then show ?thesis using resolve_function_exact [OF p, of "''f''"] by auto
qed



text \<open>
  C904. A resolved field is on a path of members from the struct, its offset is the sum along the
  path and what \<open>field_offset\<close> gives for it, and its size is that of its type.
\<close>

theorem resolved_field_on_path:
  assumes "resolve_field_offset depth b struct_type_id path = Some (Inr rf)"
  shows "field_offset depth b struct_type_id path = Some (Inr (rf_offset_bytes rf)) \<and>
    (\<exists>leaf. has_path b (split_on (CHR ''.'') path) struct_type_id leaf (rf_offset_bytes rf)) \<and>
    rf_size rf = field_type_size (rf_field_type rf)"
proof -
  let ?parts = "split_on (CHR ''.'') path"
  have "offset_parts depth b ?parts struct_type_id 0 = Some (Inr (rf_offset_bytes rf))"
    "rf_size rf = field_type_size (rf_field_type rf)"
    using resolve_parts_offset [of depth b path ?parts struct_type_id 0 rf] assms
    by (simp_all add: resolve_field_offset_def)
  then show ?thesis using offset_parts_path [of depth b ?parts struct_type_id 0]
    by (auto simp: field_offset_def)
qed

theorem resolved_field_on_path_witness:
  "\<exists>leaf. has_path sample_btf [''x''] 3 leaf 12"
proof -
  have "resolve_field_offset 2 sample_btf 3 ''x'' =
      Some (Inr \<lparr>rf_name = ''x'', rf_offset_bytes = 12, rf_size = 4, rf_field_type = FT_U32\<rparr>)"
    by code_simp
  from resolved_field_on_path [OF this] show ?thesis by simp
qed

text \<open>
  C905. The recursive lookups end: on data whose by-value references have a rank below \<open>depth\<close>,
  member lookup, type size and path resolution all return within that depth.
\<close>

theorem btf_lookups_terminate:
  assumes "by_value_rank b rank" and "range rank \<subseteq> {..<depth}"
  shows "find_member_recursive depth b f type_id \<noteq> None \<and> type_size depth b type_id \<noteq> None \<and>
    resolve_field_offset depth b type_id path \<noteq> None \<and> field_offset depth b type_id path \<noteq> None"
proof -
  have r: "rank t < depth" for t using assms(2) by auto
  show ?thesis
    using find_member_returns [OF assms(1) r] type_size_returns [OF assms(1) r]
      resolve_parts_returns [OF assms(1) r] offset_parts_returns [OF assms(1) r]
    by (auto simp: resolve_field_offset_def field_offset_def)
qed

text \<open>In the sample the rank of the struct is one, of its anonymous member zero.\<close>

definition sample_rank :: "u32 \<Rightarrow> nat" where
  "sample_rank type_id = (if type_id = 3 then 1 else 0)"

lemma sample_get_type_cases:
  "get_type sample_btf type_id = Some ty \<Longrightarrow> ty \<in> set (map fst sample_types) \<and>
   (bt_name_off ty = 5 \<longrightarrow> type_id = 3)"
proof -
  assume g: "get_type sample_btf type_id = Some ty"
  then have i: "type_id \<noteq> 0" "unat (type_id - 1) < 6" "ty = map fst sample_types ! unat (type_id - 1)"
    by (auto simp: get_type_def sample_btf_def sample_types_def Let_def split: if_splits)
  have "ty \<in> set (map fst sample_types)"
    unfolding i(3) by (rule nth_mem) (use i(2) in \<open>simp add: sample_types_def\<close>)
  moreover have "unat (type_id - 1) = 2" if "bt_name_off ty = 5"
  proof -
    have "unat (type_id - 1) \<in> {0, 1, 2, 3, 4, 5}" using i(2) by auto
    with that i(3) show ?thesis by (auto simp: sample_types_def)
  qed
  then have "bt_name_off ty = 5 \<longrightarrow> type_id - 1 = 2" by (simp add: word_unat_eq_iff)
  then have "bt_name_off ty = 5 \<longrightarrow> type_id = 3" by (simp add: diff_eq_eq)
  ultimately show ?thesis by simp
qed

lemma sample_by_value: "by_value_rank sample_btf sample_rank"
  unfolding by_value_rank_def
proof (intro conjI allI impI)
  fix type_id ty
  assume "get_type sample_btf type_id = Some ty" "is_modifier (bt_kind ty)"
  with sample_get_type_cases show "sample_rank (bt_size_or_type ty) < sample_rank type_id"
    by (fastforce simp: sample_types_def is_modifier_def kind_defs)
next
  fix type_id ty ms m
  assume g: "get_type sample_btf type_id = Some ty" and ms: "bt_extra ty = Members ms" "m \<in> set ms"
    and a: "string_at (btf_strings sample_btf) (bm_name_off m) = []"
  have "btf_strings sample_btf = sample_strings" by (simp add: sample_btf_def)
  with a have "bm_name_off m \<noteq> 7" using sample_string_at(4) by auto
  with sample_get_type_cases [OF g] ms have "type_id = 3 \<and> bm_type_id m = 2"
    by (auto simp: sample_types_def)
  then show "sample_rank (bm_type_id m) < sample_rank type_id" by (simp add: sample_rank_def)
qed

theorem btf_lookups_terminate_witness: "resolve_field_offset 2 sample_btf 3 ''x.y'' \<noteq> None"
proof -
  have "range sample_rank \<subseteq> {..<2}" by (auto simp: sample_rank_def)
  with btf_lookups_terminate [OF sample_by_value] show ?thesis by simp
qed

end
