(* ===== verification/Bpf_Insn.thy ===== *)
theory Bpf_Insn
  imports Byte_Codec
begin

text \<open>
  BPF instructions (\<open>jalki-codegen/src/insn.rs\<close>): the eight-byte instruction, its encoding and
  the constructors the program generator uses.  \<open>i16\<close> and \<open>i32\<close> are words read with
  \<open>sint\<close>.  The lemmas show that the encoding is injective: the instructions, their registers
  and their fields come back from the bytes.
\<close>

type_synonym i16 = "16 word"
type_synonym i32 = "32 word"

record bpf_insn =
  bi_code :: u8
  bi_regs :: u8
  bi_off :: i16
  bi_imm :: i32

definition insn :: "u8 \<Rightarrow> u8 \<Rightarrow> u8 \<Rightarrow> i16 \<Rightarrow> i32 \<Rightarrow> bpf_insn" where
  "insn code dst src off imm =
     \<lparr>bi_code = code, bi_regs = (push_bit 4 src) OR (dst AND 0xf), bi_off = off, bi_imm = imm\<rparr>"

definition to_bytes :: "bpf_insn \<Rightarrow> u8 list" where
  "to_bytes i =
     [bi_code i, bi_regs i] @ le_bytes 2 (unat (bi_off i)) @ le_bytes 4 (unat (bi_imm i))"

section \<open>Opcode components\<close>

definition bpf_ld :: u8 where "bpf_ld = 0x00"
definition bpf_ldx :: u8 where "bpf_ldx = 0x01"
definition bpf_st :: u8 where "bpf_st = 0x02"
definition bpf_stx :: u8 where "bpf_stx = 0x03"
definition bpf_alu :: u8 where "bpf_alu = 0x04"
definition bpf_jmp :: u8 where "bpf_jmp = 0x05"
definition bpf_alu64 :: u8 where "bpf_alu64 = 0x07"

definition bpf_w :: u8 where "bpf_w = 0x00"
definition bpf_h :: u8 where "bpf_h = 0x08"
definition bpf_b :: u8 where "bpf_b = 0x10"
definition bpf_dw :: u8 where "bpf_dw = 0x18"

definition bpf_imm :: u8 where "bpf_imm = 0x00"
definition bpf_mem :: u8 where "bpf_mem = 0x60"

definition bpf_mov :: u8 where "bpf_mov = 0xb0"
definition bpf_add :: u8 where "bpf_add = 0x00"
definition bpf_rsh :: u8 where "bpf_rsh = 0x70"
definition bpf_and :: u8 where "bpf_and = 0x50"

definition bpf_k :: u8 where "bpf_k = 0x00"
definition bpf_x :: u8 where "bpf_x = 0x08"

definition bpf_ja :: u8 where "bpf_ja = 0x00"
definition bpf_jeq :: u8 where "bpf_jeq = 0x10"
definition bpf_jne :: u8 where "bpf_jne = 0x50"
definition bpf_exit :: u8 where "bpf_exit = 0x90"
definition bpf_call :: u8 where "bpf_call = 0x80"

definition bpf_pseudo_map_fd :: u8 where "bpf_pseudo_map_fd = 1"

lemmas opcode_defs =
  bpf_ld_def bpf_ldx_def bpf_st_def bpf_stx_def bpf_alu_def bpf_jmp_def bpf_alu64_def bpf_w_def
  bpf_h_def bpf_b_def bpf_dw_def bpf_imm_def bpf_mem_def bpf_mov_def bpf_add_def bpf_rsh_def
  bpf_and_def bpf_k_def bpf_x_def bpf_ja_def bpf_jeq_def bpf_jne_def bpf_exit_def bpf_call_def
  bpf_pseudo_map_fd_def

abbreviation "R0 \<equiv> 0 :: u8"
abbreviation "R1 \<equiv> 1 :: u8"
abbreviation "R2 \<equiv> 2 :: u8"
abbreviation "R3 \<equiv> 3 :: u8"
abbreviation "R4 \<equiv> 4 :: u8"
abbreviation "R6 \<equiv> 6 :: u8"
abbreviation "R7 \<equiv> 7 :: u8"
abbreviation "R10 \<equiv> 10 :: u8"

definition func_map_lookup_elem :: i32 where "func_map_lookup_elem = 1"
definition func_ktime_get_ns :: i32 where "func_ktime_get_ns = 5"
definition func_get_current_pid_tgid :: i32 where "func_get_current_pid_tgid = 14"
definition func_get_current_comm :: i32 where "func_get_current_comm = 16"
definition func_probe_read_kernel :: i32 where "func_probe_read_kernel = 113"
definition func_ringbuf_output :: i32 where "func_ringbuf_output = 130"

section \<open>Constructors\<close>

definition mov64_imm :: "u8 \<Rightarrow> i32 \<Rightarrow> bpf_insn" where
  "mov64_imm dst imm = insn (bpf_alu64 OR bpf_mov OR bpf_k) dst 0 0 imm"

definition mov64_reg :: "u8 \<Rightarrow> u8 \<Rightarrow> bpf_insn" where
  "mov64_reg dst src = insn (bpf_alu64 OR bpf_mov OR bpf_x) dst src 0 0"

definition add64_imm :: "u8 \<Rightarrow> i32 \<Rightarrow> bpf_insn" where
  "add64_imm dst imm = insn (bpf_alu64 OR bpf_add OR bpf_k) dst 0 0 imm"

definition rsh64_imm :: "u8 \<Rightarrow> i32 \<Rightarrow> bpf_insn" where
  "rsh64_imm dst imm = insn (bpf_alu64 OR bpf_rsh OR bpf_k) dst 0 0 imm"

definition and32_imm :: "u8 \<Rightarrow> i32 \<Rightarrow> bpf_insn" where
  "and32_imm dst imm = insn (bpf_alu OR bpf_and OR bpf_k) dst 0 0 imm"

definition ldx_dw :: "u8 \<Rightarrow> u8 \<Rightarrow> i16 \<Rightarrow> bpf_insn" where
  "ldx_dw dst src off = insn (bpf_ldx OR bpf_mem OR bpf_dw) dst src off 0"

definition ldx_w :: "u8 \<Rightarrow> u8 \<Rightarrow> i16 \<Rightarrow> bpf_insn" where
  "ldx_w dst src off = insn (bpf_ldx OR bpf_mem OR bpf_w) dst src off 0"

definition ldx_h :: "u8 \<Rightarrow> u8 \<Rightarrow> i16 \<Rightarrow> bpf_insn" where
  "ldx_h dst src off = insn (bpf_ldx OR bpf_mem OR bpf_h) dst src off 0"

definition ldx_b :: "u8 \<Rightarrow> u8 \<Rightarrow> i16 \<Rightarrow> bpf_insn" where
  "ldx_b dst src off = insn (bpf_ldx OR bpf_mem OR bpf_b) dst src off 0"

definition stx_dw :: "u8 \<Rightarrow> u8 \<Rightarrow> i16 \<Rightarrow> bpf_insn" where
  "stx_dw dst src off = insn (bpf_stx OR bpf_mem OR bpf_dw) dst src off 0"

definition stx_w :: "u8 \<Rightarrow> u8 \<Rightarrow> i16 \<Rightarrow> bpf_insn" where
  "stx_w dst src off = insn (bpf_stx OR bpf_mem OR bpf_w) dst src off 0"

definition stx_h :: "u8 \<Rightarrow> u8 \<Rightarrow> i16 \<Rightarrow> bpf_insn" where
  "stx_h dst src off = insn (bpf_stx OR bpf_mem OR bpf_h) dst src off 0"

definition stx_b :: "u8 \<Rightarrow> u8 \<Rightarrow> i16 \<Rightarrow> bpf_insn" where
  "stx_b dst src off = insn (bpf_stx OR bpf_mem OR bpf_b) dst src off 0"

definition st_w :: "u8 \<Rightarrow> i16 \<Rightarrow> i32 \<Rightarrow> bpf_insn" where
  "st_w dst off imm = insn (bpf_st OR bpf_mem OR bpf_w) dst 0 off imm"

definition st_dw :: "u8 \<Rightarrow> i16 \<Rightarrow> i32 \<Rightarrow> bpf_insn" where
  "st_dw dst off imm = insn (bpf_st OR bpf_mem OR bpf_dw) dst 0 off imm"

definition call :: "i32 \<Rightarrow> bpf_insn" where
  "call helper = insn (bpf_jmp OR bpf_call) 0 0 0 helper"

definition ja :: "i16 \<Rightarrow> bpf_insn" where
  "ja off = insn (bpf_jmp OR bpf_ja) 0 0 off 0"

definition jeq_imm :: "u8 \<Rightarrow> i32 \<Rightarrow> i16 \<Rightarrow> bpf_insn" where
  "jeq_imm dst imm off = insn (bpf_jmp OR bpf_jeq OR bpf_k) dst 0 off imm"

definition jne_imm :: "u8 \<Rightarrow> i32 \<Rightarrow> i16 \<Rightarrow> bpf_insn" where
  "jne_imm dst imm off = insn (bpf_jmp OR bpf_jne OR bpf_k) dst 0 off imm"

definition exit_insn :: bpf_insn where
  "exit_insn = insn (bpf_jmp OR bpf_exit) 0 0 0 0"

definition ld_map_fd :: "u8 \<Rightarrow> bpf_insn list" where
  "ld_map_fd dst =
     [insn (bpf_ld OR bpf_dw OR bpf_imm) dst bpf_pseudo_map_fd 0 0, insn 0 0 0 0 0]"

definition encode :: "bpf_insn list \<Rightarrow> u8 list" where
  "encode insns = concat (map to_bytes insns)"

section \<open>Decoding\<close>

text \<open>The reference: the instruction format of \<open>linux/bpf.h\<close>, read back field by field.\<close>

definition dst_reg :: "bpf_insn \<Rightarrow> u8" where
  "dst_reg i = bi_regs i AND 0xf"

definition src_reg :: "bpf_insn \<Rightarrow> u8" where
  "src_reg i = drop_bit 4 (bi_regs i)"

definition decode_insn :: "u8 list \<Rightarrow> bpf_insn" where
  "decode_insn bs =
     \<lparr>bi_code = bs ! 0, bi_regs = bs ! 1, bi_off = of_nat (le_nat (take 2 (drop 2 bs))),
      bi_imm = of_nat (le_nat (take 4 (drop 4 bs)))\<rparr>"

function decode :: "u8 list \<Rightarrow> bpf_insn list" where
  "decode bs = (if length bs < 8 then [] else decode_insn (take 8 bs) # decode (drop 8 bs))"
  by pat_completeness auto
termination by (relation "measure length") auto

declare decode.simps [simp del]

lemma length_to_bytes [simp]: "length (to_bytes i) = 8"
  by (simp add: to_bytes_def)

lemma length_encode: "length (encode insns) = 8 * length insns"
  by (induction insns) (simp_all add: encode_def)

lemma decode_to_bytes: "decode_insn (to_bytes i) = i"
proof -
  have "le_bytes 2 n = [le_bytes 2 n ! 0, le_bytes 2 n ! 1]" for n :: nat
    by (simp add: numeral_2_eq_2)
  have d: "take 2 (drop 2 (to_bytes i)) = le_bytes 2 (unat (bi_off i))"
    "take 4 (drop 4 (to_bytes i)) = le_bytes 4 (unat (bi_imm i))"
    by (simp_all add: to_bytes_def)
  have "unat (bi_off i) < 256 ^ 2" "unat (bi_imm i) < 256 ^ 4"
    using unsigned_less [of "bi_off i"] unsigned_less [of "bi_imm i"] by simp_all
  then show ?thesis
    by (simp add: decode_insn_def d le_nat_le_bytes) (simp add: to_bytes_def)
qed

lemma decode_encode: "decode (encode insns) = insns"
proof (induction insns)
  case Nil
  then show ?case by (simp add: encode_def decode.simps)
next
  case (Cons i insns)
  have "encode (i # insns) = to_bytes i @ encode insns" by (simp add: encode_def)
  with Cons show ?case by (simp add: decode.simps [of "to_bytes i @ _"] decode_to_bytes)
qed

lemma bit_below:
  assumes "(x :: u8) < 16" and "bit x n"
  shows "n < 4"
proof -
  have "take_bit 4 x = x"
    using assms(1)
    by (simp add: word_unat_eq_iff unsigned_take_bit_eq take_bit_nat_eq_self word_less_nat_alt)
  with assms(2) have "bit (take_bit 4 x) n" by simp
  then show ?thesis by (simp add: bit_take_bit_iff)
qed

lemma regs_insn:
  assumes "dst < 16" and "src < 16"
  shows "dst_reg (insn code dst src off imm) = dst" and "src_reg (insn code dst src off imm) = src"
proof -
  have m: "(0xf :: u8) = mask 4" by (simp add: mask_eq_exp_minus_1)
  note b = bit_below [OF assms(1)] bit_below [OF assms(2)]
  show "dst_reg (insn code dst src off imm) = dst"
    unfolding dst_reg_def insn_def m bpf_insn.simps
    by (rule bit_word_eqI) (auto simp: bit_simps dest: b)
  show "src_reg (insn code dst src off imm) = src"
    unfolding src_reg_def insn_def m bpf_insn.simps
    by (rule bit_word_eqI) (auto simp: bit_simps dest: b)
qed

end
