(* ===== verification/Bpf_Program.thy ===== *)
theory Bpf_Program
  imports Btf Bpf_Insn
begin

text \<open>
  The program builder (\<open>jalki-codegen/src/program.rs\<close>): the layout of the event struct, the
  reads of the requested fields, and the instructions that filter the agent's own process, zero
  and fill the event on the stack and hand it to the ring buffer.  The instruction vector is built
  by the same pushes, the \<open>truncate\<close> and the \<open>insert\<close> of the source included, and every
  relocation is recorded where the source records it.

  The lemmas show that the layout is contiguous behind the header, that the event and the lookup
  key stay inside the stack frame with no offset wrapping, and where the jumps, the map loads and
  the relocations are.
\<close>

section \<open>Data\<close>

definition max_stack :: nat where "max_stack = 512"

definition map_idx_pid_filter :: nat where "map_idx_pid_filter = 0"
definition map_idx_ringbuf :: nat where "map_idx_ringbuf = 1"
definition map_idx_ringbuf_drops :: nat where "map_idx_ringbuf_drops = 2"

record field_layout =
  fl_name :: string
  fl_offset :: nat
  fl_size :: nat
  fl_field_type :: field_type

record generated_program =
  gp_instructions :: "bpf_insn list"
  gp_relocations :: "(nat \<times> nat) list"
  gp_field_layout :: "field_layout list"
  gp_event_size :: nat
  gp_map_name :: string

datatype attach_type = Fentry | Fexit

record probe_spec =
  ps_function :: string
  ps_attachment :: attach_type
  ps_fields :: "string list"
  ps_event_type :: string

datatype field_read =
    Comm nat
  | Return_Value nat u32
  | Direct_Arg nat u32 nat
  | Probe_Read_Kernel nat u32 u32 nat field_type

section \<open>The layout\<close>

text \<open>The state of the loop over the requested fields: layout, reads and next offset.\<close>

record plan =
  pl_layout :: "field_layout list"
  pl_reads :: "field_read list"
  pl_offset :: nat

definition header_plan :: plan where
  "header_plan =
     \<lparr>pl_layout =
        [\<lparr>fl_name = ''timestamp_ns'', fl_offset = 0, fl_size = 8, fl_field_type = FT_U64\<rparr>,
         \<lparr>fl_name = ''pid'', fl_offset = 8, fl_size = 4, fl_field_type = FT_U32\<rparr>,
         \<lparr>fl_name = ''tid'', fl_offset = 12, fl_size = 4, fl_field_type = FT_U32\<rparr>],
      pl_reads = [], pl_offset = 16\<rparr>"

definition plan_push :: "string \<Rightarrow> nat \<Rightarrow> field_type \<Rightarrow> (nat \<Rightarrow> field_read) \<Rightarrow> plan \<Rightarrow> plan" where
  "plan_push name n ft mk_read pl =
     \<lparr>pl_layout = pl_layout pl @
        [\<lparr>fl_name = name, fl_offset = pl_offset pl, fl_size = n, fl_field_type = ft\<rparr>],
      pl_reads = pl_reads pl @ [mk_read (pl_offset pl)],
      pl_offset = pl_offset pl + n\<rparr>"

fun find_param :: "string \<Rightarrow> function_param list \<Rightarrow> nat \<Rightarrow> (nat \<times> function_param) option" where
  "find_param name [] i = None"
| "find_param name (p # ps) i = (if fp_name p = name then Some (i, p) else find_param name ps (i + 1))"

definition scalar_type :: "nat \<Rightarrow> field_type option" where
  "scalar_type n =
     (if n = 1 then Some FT_U8 else if n = 2 then Some FT_U16 else if n = 4 then Some FT_U32
      else if n = 8 then Some FT_U64 else None)"

definition plan_param ::
  "nat \<Rightarrow> probe_spec \<Rightarrow> btf_data \<Rightarrow> function_signature \<Rightarrow> string \<Rightarrow> plan \<Rightarrow>
   (codegen_error + plan) option" where
  "plan_param depth spec b sig other pl =
     (let (param_name, field_path) =
        (case split_once ''.'' other of Some (p, f) \<Rightarrow> (p, Some f) | None \<Rightarrow> (other, None))
      in case find_param param_name (fs_params sig) 0 of
           None \<Rightarrow> Some (Inl (Field_Not_Found (ps_function spec) param_name))
         | Some (param_idx, param) \<Rightarrow>
             (case field_path of
                Some path \<Rightarrow>
                  (case pointer_pointee b (fp_type_id param) of
                     Pointee_Other \<Rightarrow>
                       Some (Inl (Btf_Type
                         (''param '' @ [CHR 0x27] @ param_name @ [CHR 0x27] @
                          '' is not a pointer to struct'')))
                   | Pointee_Struct name struct_type_id \<Rightarrow>
                       (case resolve_field_offset depth b struct_type_id path of
                          None \<Rightarrow> None
                        | Some (Inl e) \<Rightarrow> Some (Inl e)
                        | Some (Inr rf) \<Rightarrow>
                            Some (Inr (plan_push other (rf_size rf) (rf_field_type rf)
                              (\<lambda>pos. Probe_Read_Kernel pos (of_nat param_idx) (rf_offset_bytes rf)
                                 (rf_size rf) (rf_field_type rf)) pl))))
              | None \<Rightarrow>
                  (case type_size depth b (fp_type_id param) of
                     None \<Rightarrow> None
                   | Some n \<Rightarrow>
                       (case scalar_type n of
                          None \<Rightarrow> Some (Inl (Unsupported_Type
                            (''param '' @ param_name @ '' has unsupported size '' @ decimal n)))
                        | Some ft \<Rightarrow>
                            Some (Inr (plan_push other n ft
                              (\<lambda>pos. Direct_Arg pos (of_nat param_idx) n) pl))))))"

definition plan_field ::
  "nat \<Rightarrow> probe_spec \<Rightarrow> btf_data \<Rightarrow> function_signature \<Rightarrow> string \<Rightarrow> plan \<Rightarrow>
   (codegen_error + plan) option" where
  "plan_field depth spec b sig field_name pl =
     (if field_name \<in> {''pid'', ''tid'', ''timestamp_ns''} then Some (Inr pl)
      else if field_name = ''comm'' then Some (Inr (plan_push ''comm'' 16 FT_U8 Comm pl))
      else if field_name = ''ret'' then
        if ps_attachment spec \<noteq> Fexit
        then Some (Inl (Btf_Type ''ret is only available for fexit probes''))
        else Some (Inr (plan_push ''ret'' 4 FT_I32
               (\<lambda>pos. Return_Value pos (of_nat (length (fs_params sig)))) pl))
      else plan_param depth spec b sig field_name pl)"

fun plan_fields ::
  "nat \<Rightarrow> probe_spec \<Rightarrow> btf_data \<Rightarrow> function_signature \<Rightarrow> string list \<Rightarrow> plan \<Rightarrow>
   (codegen_error + plan) option" where
  "plan_fields depth spec b sig [] pl = Some (Inr pl)"
| "plan_fields depth spec b sig (f # fs) pl =
     (case plan_field depth spec b sig f pl of
        None \<Rightarrow> None
      | Some (Inl e) \<Rightarrow> Some (Inl e)
      | Some (Inr pl') \<Rightarrow> plan_fields depth spec b sig fs pl')"

section \<open>The instructions\<close>

definition pid_key_off :: i32 where "pid_key_off = -4"

definition event_base_off :: "nat \<Rightarrow> i32" where
  "event_base_off event_size = - (4 + of_nat event_size)"

text \<open>\<open>as i16\<close> of an \<open>i32\<close>.\<close>

definition to_i16 :: "i32 \<Rightarrow> i16" where
  "to_i16 w = ucast w"

definition field_off :: "nat \<Rightarrow> nat \<Rightarrow> i32" where
  "field_off event_size event_offset = event_base_off event_size + of_nat event_offset"

definition map_relocation :: "bpf_insn list \<Rightarrow> nat \<Rightarrow> nat \<times> nat" where
  "map_relocation insns map_index = (length insns, map_index)"

text \<open>
  The filter on the agent's own processes.  The first version is pushed, cut back by four
  instructions and followed by the second, whose map load is the one relocated.
\<close>

definition self_filter :: "bpf_insn list \<times> (nat \<times> nat) list" where
  "self_filter =
     (let insns =
        [call func_get_current_pid_tgid, mov64_reg R6 R0, mov64_reg R1 R6, rsh64_imm R1 32,
         stx_w R10 R1 (to_i16 pid_key_off)];
          insns = insns @ ld_map_fd R1;
          insns = insns @ [mov64_reg R2 R10, add64_imm R2 pid_key_off, call func_map_lookup_elem];
          insns = insns @ [jne_imm R0 0 2, ja 1, mov64_imm R0 0];
          insns = take (length insns - 4) insns;
          relocs = [map_relocation insns map_idx_pid_filter];
          insns = insns @ ld_map_fd R1;
          insns = insns @ [mov64_reg R2 R10, add64_imm R2 pid_key_off, call func_map_lookup_elem];
          insns = insns @ [jeq_imm R0 0 2, mov64_imm R0 0, exit_insn]
      in (insns, relocs))"

text \<open>The two loops that zero the event, eight and then four bytes at a time.\<close>

function zero_dw :: "i16 \<Rightarrow> nat \<Rightarrow> bpf_insn list \<times> i16 \<times> nat" where
  "zero_dw zero_off remaining =
     (if 8 \<le> remaining then
        let (insns, rest) = zero_dw (zero_off + 8) (remaining - 8)
        in (st_dw R10 zero_off 0 # insns, rest)
      else ([], zero_off, remaining))"
  by pat_completeness auto
termination by (relation "measure snd") auto

function zero_w :: "i16 \<Rightarrow> nat \<Rightarrow> bpf_insn list" where
  "zero_w zero_off remaining =
     (if 4 \<le> remaining then st_w R10 zero_off 0 # zero_w (zero_off + 4) (remaining - 4) else [])"
  by pat_completeness auto
termination by (relation "measure snd") auto

declare zero_dw.simps [simp del] zero_w.simps [simp del]

definition zero_event :: "nat \<Rightarrow> bpf_insn list" where
  "zero_event event_size =
     (let (insns, zero_off, remaining) = zero_dw (to_i16 (event_base_off event_size)) event_size
      in insns @ zero_w zero_off remaining)"

definition fill_header :: "nat \<Rightarrow> bpf_insn list" where
  "fill_header event_size =
     [call func_ktime_get_ns, stx_dw R10 R0 (to_i16 (event_base_off event_size)),
      mov64_reg R1 R6, rsh64_imm R1 32, stx_w R10 R1 (to_i16 (event_base_off event_size + 8)),
      mov64_reg R1 R6, and32_imm R1 (-1), stx_w R10 R1 (to_i16 (event_base_off event_size + 12))]"

text \<open>\<open>(*arg_index as i16) * 8\<close>.\<close>

definition ctx_off :: "u32 \<Rightarrow> i16" where
  "ctx_off arg_index = ucast arg_index * 8"

fun emit_read :: "nat \<Rightarrow> field_read \<Rightarrow> codegen_error + bpf_insn list" where
  "emit_read event_size (Comm event_offset) =
     Inr [mov64_reg R1 R10, add64_imm R1 (field_off event_size event_offset), mov64_imm R2 16,
          call func_get_current_comm]"
| "emit_read event_size (Return_Value event_offset arg_index) =
     Inr [ldx_dw R1 R7 (ctx_off arg_index),
          stx_w R10 R1 (to_i16 (field_off event_size event_offset))]"
| "emit_read event_size (Direct_Arg event_offset arg_index n) =
     (let load = ldx_dw R1 R7 (ctx_off arg_index);
          off' = to_i16 (field_off event_size event_offset)
      in if n = 8 then Inr [load, stx_dw R10 R1 off']
         else if n = 4 then Inr [load, stx_w R10 R1 off']
         else if n = 2 then Inr [load, stx_h R10 R1 off']
         else if n = 1 then Inr [load, stx_b R10 R1 off']
         else Inl (Unsupported_Type (decimal n @ ''-byte direct'')))"
| "emit_read event_size (Probe_Read_Kernel event_offset arg_index struct_offset n ft) =
     Inr [mov64_reg R1 R10, add64_imm R1 (field_off event_size event_offset),
          mov64_imm R2 (of_nat n), ldx_dw R3 R7 (ctx_off arg_index),
          add64_imm R3 struct_offset, call func_probe_read_kernel]"

fun emit_reads :: "nat \<Rightarrow> field_read list \<Rightarrow> codegen_error + bpf_insn list" where
  "emit_reads event_size [] = Inr []"
| "emit_reads event_size (r # rs) =
     (case emit_read event_size r of
        Inl e \<Rightarrow> Inl e
      | Inr is \<Rightarrow>
          (case emit_reads event_size rs of Inl e \<Rightarrow> Inl e | Inr is' \<Rightarrow> Inr (is @ is')))"

definition output_event ::
  "nat \<Rightarrow> bpf_insn list \<times> (nat \<times> nat) list \<Rightarrow> bpf_insn list \<times> (nat \<times> nat) list" where
  "output_event event_size st =
     (let (insns, relocs) = st;
          relocs = relocs @ [map_relocation insns map_idx_ringbuf];
          insns = insns @ ld_map_fd R1;
          insns = insns @
            [mov64_reg R2 R10, add64_imm R2 (event_base_off event_size),
             mov64_imm R3 (of_nat event_size), mov64_imm R4 0, call func_ringbuf_output,
             jeq_imm R0 0 10, st_w R10 (to_i16 pid_key_off) 0];
          relocs = relocs @ [map_relocation insns map_idx_ringbuf_drops];
          insns = insns @ ld_map_fd R1;
          insns = insns @
            [mov64_reg R2 R10, add64_imm R2 pid_key_off, call func_map_lookup_elem,
             jeq_imm R0 0 3, ldx_dw R1 R0 0, add64_imm R1 1, stx_dw R0 R1 0,
             mov64_imm R0 0, exit_insn]
      in (insns, relocs))"

definition build_program ::
  "nat \<Rightarrow> field_read list \<Rightarrow> codegen_error + bpf_insn list \<times> (nat \<times> nat) list" where
  "build_program event_size reads =
     (let (insns, relocs) = self_filter;
          insns = insns @ zero_event event_size @ fill_header event_size;
          insns = mov64_reg R7 R1 # insns;
          relocs = map (\<lambda>(pos, map_index). (pos + 1, map_index)) relocs
      in case emit_reads event_size reads of
           Inl e \<Rightarrow> Inl e
         | Inr is \<Rightarrow> Inr (output_event event_size (insns @ is, relocs)))"

text \<open>\<open>function.to_uppercase().replace("_SKB", "")\<close>, kernel symbols being ASCII.\<close>

definition to_ascii_upper :: "char \<Rightarrow> char" where
  "to_ascii_upper c = (if of_char c \<in> {97..122 :: nat} then char_of (of_char c - 32 :: nat) else c)"

function remove_all :: "string \<Rightarrow> string \<Rightarrow> string" where
  "remove_all pat s =
     (case s of [] \<Rightarrow> []
      | c # cs \<Rightarrow>
          if pat \<noteq> [] \<and> starts_with s pat then remove_all pat (drop (length pat) s)
          else c # remove_all pat cs)"
  by pat_completeness auto
termination by (relation "measure (length \<circ> snd)") auto

declare remove_all.simps [simp del]

definition event_map_name :: "string \<Rightarrow> string" where
  "event_map_name f = remove_all ''_SKB'' (map to_ascii_upper f) @ ''_EVENTS''"

definition align8 :: "nat \<Rightarrow> nat" where
  "align8 n = (n + 7) div 8 * 8"

definition generate :: "nat \<Rightarrow> probe_spec \<Rightarrow> btf_data \<Rightarrow> (codegen_error + generated_program) option" where
  "generate depth spec b =
     (case resolve_function b (ps_function spec) of
        Inl e \<Rightarrow> Some (Inl e)
      | Inr sig \<Rightarrow>
          (case plan_fields depth spec b sig (ps_fields spec) header_plan of
             None \<Rightarrow> None
           | Some (Inl e) \<Rightarrow> Some (Inl e)
           | Some (Inr pl) \<Rightarrow>
               let event_size = align8 (pl_offset pl);
                   stack_needed = event_size + 4
               in if stack_needed > max_stack then Some (Inl (Stack_Overflow stack_needed))
                  else (case build_program event_size (pl_reads pl) of
                          Inl e \<Rightarrow> Some (Inl e)
                        | Inr (insns, relocs) \<Rightarrow>
                            if length insns > 4096
                            then Some (Inl (Program_Too_Large (length insns) 4096))
                            else Some (Inr
                              \<lparr>gp_instructions = insns, gp_relocations = relocs,
                               gp_field_layout = pl_layout pl, gp_event_size = event_size,
                               gp_map_name = event_map_name (ps_function spec)\<rparr>))))"

section \<open>The layout is contiguous\<close>

fun read_pos :: "field_read \<Rightarrow> nat" where
  "read_pos (Comm pos) = pos"
| "read_pos (Return_Value pos i) = pos"
| "read_pos (Direct_Arg pos i n) = pos"
| "read_pos (Probe_Read_Kernel pos i d n ft) = pos"

fun read_size :: "field_read \<Rightarrow> nat" where
  "read_size (Comm pos) = 16"
| "read_size (Return_Value pos i) = 4"
| "read_size (Direct_Arg pos i n) = n"
| "read_size (Probe_Read_Kernel pos i d n ft) = n"

text \<open>
  The argument of the probed function a read takes, below the count of them; the return value
  follows the arguments, on exit only.
\<close>

fun read_ok :: "attach_type \<Rightarrow> nat \<Rightarrow> field_read \<Rightarrow> bool" where
  "read_ok att n (Comm pos) = True"
| "read_ok att n (Return_Value pos i) = (att = Fexit \<and> i = of_nat n)"
| "read_ok att n (Direct_Arg pos i k) = (unat i < n \<and> k \<in> {1, 2, 4, 8})"
| "read_ok att n (Probe_Read_Kernel pos i d k ft) = (unat i < n \<and> k \<in> {1, 2, 4, 8})"

text \<open>Entries of the given starts and sizes that tile \<open>from\<close> up to \<open>to\<close>.\<close>

fun tiles :: "nat \<Rightarrow> (nat \<times> nat) list \<Rightarrow> nat \<Rightarrow> bool" where
  "tiles from [] to \<longleftrightarrow> from = to"
| "tiles from ((pos, n) # rest) to \<longleftrightarrow> pos = from \<and> 0 < n \<and> tiles (from + n) rest to"

definition layout_spans :: "field_layout list \<Rightarrow> (nat \<times> nat) list" where
  "layout_spans = map (\<lambda>f. (fl_offset f, fl_size f))"

definition read_spans :: "field_read list \<Rightarrow> (nat \<times> nat) list" where
  "read_spans = map (\<lambda>r. (read_pos r, read_size r))"

lemma tiles_append: "tiles a (xs @ ys) b \<longleftrightarrow> (\<exists>m. tiles a xs m \<and> tiles m ys b)"
  by (induction xs arbitrary: a) auto

lemma tiles_le: "tiles a xs b \<Longrightarrow> a \<le> b"
  by (induction xs arbitrary: a) (auto, fastforce)

lemma tiles_mem: "tiles a xs b \<Longrightarrow> (pos, n) \<in> set xs \<Longrightarrow> a \<le> pos \<and> pos + n \<le> b"
proof (induction xs arbitrary: a)
  case Nil
  then show ?case by simp
next
  case (Cons x xs)
  obtain p k where x: "x = (p, k)" by (cases x)
  from Cons.prems(1) have t: "tiles (a + k) xs b" "p = a" by (simp_all add: x)
  show ?case
  proof (cases "(pos, n) = x")
    case True
    with x t tiles_le [OF t(1)] show ?thesis by simp
  next
    case False
    with Cons.prems(2) have "(pos, n) \<in> set xs" by simp
    from Cons.IH [OF t(1) this] show ?thesis by simp
  qed
qed

lemma tiles_distinct: "tiles a xs b \<Longrightarrow> distinct (map fst xs) \<and> (\<forall>x \<in> set xs. a \<le> fst x)"
proof (induction xs arbitrary: a)
  case Nil
  then show ?case by simp
next
  case (Cons x xs)
  obtain p k where x: "x = (p, k)" by (cases x)
  with Cons.prems have t: "tiles (a + k) xs b" "p = a" "0 < k" by simp_all
  from Cons.IH [OF t(1)] t show ?case by (fastforce simp: x)
qed

text \<open>What planning keeps: the header, then one entry and one read for each span.\<close>

definition plan_ok :: "attach_type \<Rightarrow> nat \<Rightarrow> plan \<Rightarrow> bool" where
  "plan_ok att n pl \<longleftrightarrow>
     take 3 (pl_layout pl) = pl_layout header_plan \<and>
     layout_spans (drop 3 (pl_layout pl)) = read_spans (pl_reads pl) \<and>
     tiles 16 (read_spans (pl_reads pl)) (pl_offset pl) \<and>
     list_all (read_ok att n) (pl_reads pl)"

lemma plan_ok_header: "plan_ok att n header_plan"
  by (simp add: plan_ok_def header_plan_def layout_spans_def read_spans_def)

lemma plan_ok_push:
  assumes "plan_ok att n pl" and "read_pos (mk_read (pl_offset pl)) = pl_offset pl"
    and "read_size (mk_read (pl_offset pl)) = k" and "0 < k" and "read_ok att n (mk_read (pl_offset pl))"
  shows "plan_ok att n (plan_push name k ft mk_read pl)"
proof -
  have len: "length (pl_layout header_plan) = 3" by (simp add: header_plan_def)
  have "length (take 3 (pl_layout pl)) = 3"
    using assms(1) len by (simp add: plan_ok_def)
  then have "3 \<le> length (pl_layout pl)" by simp
  then show ?thesis
    using assms
    by (simp add: plan_ok_def plan_push_def layout_spans_def read_spans_def tiles_append)
qed

lemma find_param_Some:
  "find_param name ps i = Some (j, p) \<Longrightarrow> i \<le> j \<and> j < i + length ps \<and> ps ! (j - i) = p \<and> fp_name p = name"
proof (induction ps arbitrary: i)
  case Nil
  then show ?case by simp
next
  case (Cons q ps)
  show ?case
  proof (cases "fp_name q = name")
    case True
    with Cons.prems show ?thesis by simp
  next
    case False
    with Cons.prems Cons.IH [of "i + 1"] have "i + 1 \<le> j \<and> j < i + 1 + length ps \<and>
        ps ! (j - (i + 1)) = p \<and> fp_name p = name" by simp
    moreover from this have "Suc i \<le> j" by simp
    then have "j - i = Suc (j - (i + 1))" by simp
    ultimately show ?thesis by simp
  qed
qed

lemma scalar_type_Some: "scalar_type n = Some ft \<Longrightarrow> n \<in> {1, 2, 4, 8} \<and> field_type_size ft = n"
  by (auto simp: scalar_type_def split: if_splits)

lemma resolve_field_size:
  "resolve_field_offset depth b t path = Some (Inr rf) \<Longrightarrow>
   rf_size rf = field_type_size (rf_field_type rf)"
  using resolve_parts_offset by (simp add: resolve_field_offset_def)

lemma plan_param_ok:
  assumes "plan_param depth spec b sig other pl = Some (Inr pl')"
    and "plan_ok (ps_attachment spec) (length (fs_params sig)) pl" and "length (fs_params sig) < 2 ^ 32"
  shows "plan_ok (ps_attachment spec) (length (fs_params sig)) pl'"
proof -
  obtain param_name field_path where s:
    "(case split_once ''.'' other of Some (p, f) \<Rightarrow> (p, Some f) | None \<Rightarrow> (other, None)) =
      (param_name, field_path)" by (rule prod.exhaust)
  from assms(1) s obtain i p where ip: "find_param param_name (fs_params sig) 0 = Some (i, p)"
    by (auto simp: plan_param_def split: option.splits)
  have i: "unat (of_nat i :: u32) < length (fs_params sig)"
    using find_param_Some [OF ip] assms(3) by (simp add: unat_of_nat)
  show ?thesis
  proof (cases field_path)
    case (Some path)
    with assms(1) s ip obtain rf t where
      rf: "resolve_field_offset depth b t path = Some (Inr rf)" and
      pl': "pl' = plan_push other (rf_size rf) (rf_field_type rf)
        (\<lambda>pos. Probe_Read_Kernel pos (of_nat i) (rf_offset_bytes rf) (rf_size rf) (rf_field_type rf)) pl"
      by (auto simp: plan_param_def split: pointee_kind.splits option.splits sum.splits)
    have "rf_size rf \<in> {1, 2, 4, 8}"
      using resolve_field_size [OF rf] field_type_size_range by metis
    then show ?thesis unfolding pl' using i assms(2) by (intro plan_ok_push) auto
  next
    case None
    with assms(1) s ip obtain n ft where n: "scalar_type n = Some ft" and
      pl': "pl' = plan_push other n ft (\<lambda>pos. Direct_Arg pos (of_nat i) n) pl"
      by (auto simp: plan_param_def split: option.splits)
    show ?thesis unfolding pl' using i assms(2) scalar_type_Some [OF n]
      by (intro plan_ok_push) auto
  qed
qed

lemma plan_field_ok:
  assumes "plan_field depth spec b sig f pl = Some (Inr pl')"
    and "plan_ok (ps_attachment spec) (length (fs_params sig)) pl" and "length (fs_params sig) < 2 ^ 32"
  shows "plan_ok (ps_attachment spec) (length (fs_params sig)) pl'"
proof -
  consider "f \<in> {''pid'', ''tid'', ''timestamp_ns''}" | "f = ''comm''" | "f = ''ret''"
    | "f \<notin> {''pid'', ''tid'', ''timestamp_ns'', ''comm'', ''ret''}" by blast
  then show ?thesis
  proof cases
    case 1
    with assms(1,2) show ?thesis by (auto simp: plan_field_def)
  next
    case 2
    with assms(1) have "pl' = plan_push ''comm'' 16 FT_U8 Comm pl" by (simp add: plan_field_def)
    then show ?thesis using plan_ok_push [OF assms(2), of Comm 16] by simp
  next
    case 3
    with assms(1) have "ps_attachment spec = Fexit" and
      "pl' = plan_push ''ret'' 4 FT_I32 (\<lambda>pos. Return_Value pos (of_nat (length (fs_params sig)))) pl"
      by (auto simp: plan_field_def split: if_splits)
    then show ?thesis using assms(2) by (auto intro!: plan_ok_push)
  next
    case 4
    with assms(1) have "plan_param depth spec b sig f pl = Some (Inr pl')"
      by (simp add: plan_field_def)
    from plan_param_ok [OF this assms(2,3)] show ?thesis .
  qed
qed

lemma plan_fields_ok:
  assumes "plan_fields depth spec b sig fs pl = Some (Inr pl')"
    and "plan_ok (ps_attachment spec) (length (fs_params sig)) pl" and "length (fs_params sig) < 2 ^ 32"
  shows "plan_ok (ps_attachment spec) (length (fs_params sig)) pl'"
  using assms(1,2)
proof (induction fs arbitrary: pl)
  case Nil
  then show ?case by simp
next
  case (Cons f fs)
  then obtain pl1 where "plan_field depth spec b sig f pl = Some (Inr pl1)"
    "plan_fields depth spec b sig fs pl1 = Some (Inr pl')"
    by (auto split: option.splits sum.splits)
  with plan_field_ok [OF _ Cons.prems(2) assms(3)] Cons.IH show ?case by blast
qed

section \<open>The program, block by block\<close>

definition filter_block :: "bpf_insn list" where
  "filter_block =
     [mov64_reg R7 R1, call func_get_current_pid_tgid, mov64_reg R6 R0, mov64_reg R1 R6,
      rsh64_imm R1 32, stx_w R10 R1 (to_i16 pid_key_off)] @ ld_map_fd R1 @
     [mov64_reg R2 R10, add64_imm R2 pid_key_off] @ ld_map_fd R1 @
     [mov64_reg R2 R10, add64_imm R2 pid_key_off, call func_map_lookup_elem, jeq_imm R0 0 2,
      mov64_imm R0 0, exit_insn]"

definition output_block :: "nat \<Rightarrow> bpf_insn list" where
  "output_block event_size =
     ld_map_fd R1 @
     [mov64_reg R2 R10, add64_imm R2 (event_base_off event_size), mov64_imm R3 (of_nat event_size),
      mov64_imm R4 0, call func_ringbuf_output, jeq_imm R0 0 10,
      st_w R10 (to_i16 pid_key_off) 0] @
     ld_map_fd R1 @
     [mov64_reg R2 R10, add64_imm R2 pid_key_off, call func_map_lookup_elem, jeq_imm R0 0 3,
      ldx_dw R1 R0 0, add64_imm R1 1, stx_dw R0 R1 0, mov64_imm R0 0, exit_insn]"

lemma ld_map_fd_length: "length (ld_map_fd r) = 2"
  by (simp add: ld_map_fd_def)

lemma self_filter_eq:
  "mov64_reg R7 R1 # fst self_filter = filter_block" "snd self_filter = [(9, 0)]"
  by (simp_all add: self_filter_def filter_block_def Let_def map_relocation_def ld_map_fd_def
      map_idx_pid_filter_def)

lemma filter_block_length: "length filter_block = 18"
  by (simp add: filter_block_def ld_map_fd_length)

lemma output_event_eq:
  "output_event event_size (insns, relocs) =
   (insns @ output_block event_size, relocs @ [(length insns, 1), (length insns + 9, 2)])"
  by (simp add: output_event_def output_block_def Let_def map_relocation_def ld_map_fd_length
      map_idx_ringbuf_def map_idx_ringbuf_drops_def)

lemma build_program_eq:
  "build_program event_size reads =
   (case emit_reads event_size reads of
      Inl e \<Rightarrow> Inl e
    | Inr body \<Rightarrow>
        let pre = filter_block @ zero_event event_size @ fill_header event_size @ body
        in Inr (pre @ output_block event_size,
                [(10, 0), (length pre, 1), (length pre + 9, 2)]))"
proof -
  obtain insns relocs where p: "self_filter = (insns, relocs)" by (rule prod.exhaust)
  have s: "relocs = [(9, 0)]" using self_filter_eq(2) unfolding p snd_conv .
  have f: "filter_block = mov64_reg R7 R1 # insns"
    by (simp add: self_filter_eq(1) [symmetric] p)
  show ?thesis
    by (simp add: build_program_def Let_def p s f output_event_eq split: sum.splits)
qed

lemma zero_dw_eq:
  "8 dvd remaining \<Longrightarrow>
   zero_dw pos remaining =
     (map (\<lambda>k. st_dw R10 (pos + 8 * of_nat k) 0) [0..<remaining div 8],
      pos + of_nat remaining, 0)"
proof (induction pos remaining rule: zero_dw.induct)
  case (1 pos remaining)
  show ?case
  proof (cases "8 \<le> remaining")
    case True
    then have n: "remaining div 8 = Suc ((remaining - 8) div 8)" "8 dvd remaining - 8"
      using 1(2) by (auto simp: le_div_geq dvd_diff_nat)
    have up: "[0..<Suc m] = 0 # map Suc [0..<m]" for m by (simp add: map_Suc_upt upt_conv_Cons)
    have "zero_dw (pos + 8) (remaining - 8) =
        (map (\<lambda>k. st_dw R10 (pos + 8 + 8 * of_nat k) 0) [0..<(remaining - 8) div 8],
         pos + 8 + of_nat (remaining - 8), 0)"
      using 1(1) [OF True n(2)] .
    moreover have "pos + 8 + of_nat (remaining - 8) = pos + of_nat remaining"
      using True by (simp add: of_nat_diff)
    ultimately show ?thesis
      using True by (simp add: zero_dw.simps [of pos remaining] n(1) up comp_def algebra_simps del: upt_Suc)
  next
    case False
    with 1(2) have "remaining = 0" by (auto simp: dvd_def)
    then show ?thesis by (simp add: zero_dw.simps)
  qed
qed

lemma zero_event_eq:
  "8 dvd event_size \<Longrightarrow>
   zero_event event_size =
     map (\<lambda>k. st_dw R10 (to_i16 (event_base_off event_size) + 8 * of_nat k) 0)
       [0..<event_size div 8]"
  by (simp add: zero_event_def zero_dw_eq zero_w.simps)

section \<open>Offsets stay in the frame\<close>

lemma align8_bounds: "8 dvd align8 n" "n \<le> align8 n" "align8 n < n + 8"
  unfolding align8_def by (simp, presburger+)

lemma field_off_int:
  "field_off event_size pos = word_of_int (int pos - 4 - int event_size)"
  by (simp add: field_off_def event_base_off_def)

lemma to_i16_int: "to_i16 (word_of_int k) = word_of_int k"
  unfolding to_i16_def by transfer simp

lemma sint_i16: "- (2 ^ 15) \<le> k \<Longrightarrow> k < 2 ^ 15 \<Longrightarrow> sint (word_of_int k :: i16) = k"
  by (simp add: sint_sbintrunc' signed_take_bit_int_eq_self)

lemma sint_i32: "- (2 ^ 31) \<le> k \<Longrightarrow> k < 2 ^ 31 \<Longrightarrow> sint (word_of_int k :: i32) = k"
  by (simp add: sint_sbintrunc' signed_take_bit_int_eq_self)

section \<open>Generated programs\<close>

text \<open>
  Every prototype has fewer than 4096 parameters, so that \<open>(arg_index as i16) * 8\<close> does not
  wrap; a tracing program sees at most a dozen.
\<close>

definition small_params :: "btf_data \<Rightarrow> bool" where
  "small_params b \<longleftrightarrow>
     list_all (\<lambda>ty. case bt_extra ty of Params ps \<Rightarrow> length ps < 4096 | _ \<Rightarrow> True) (btf_types b)"

lemma resolve_function_small:
  assumes "small_params b" and "resolve_function b f = Inr sig"
  shows "length (fs_params sig) < 4096"
proof -
  have "length ps < 4096" if "get_type b t = Some ty" "bt_extra ty = Params ps" for t ty ps
  proof -
    from that(1) have "ty \<in> set (btf_types b)"
      by (auto simp: get_type_def Let_def split: if_splits)
    with assms(1) that(2) show ?thesis by (auto simp: small_params_def list_all_iff split: type_extra.splits)
  qed
  with assms(2) show ?thesis
    by (auto simp: resolve_function_def Let_def split: option.splits if_splits type_extra.splits)
qed

text \<open>What a successful generation went through.\<close>

definition generated_from ::
  "attach_type \<Rightarrow> nat \<Rightarrow> plan \<Rightarrow> bpf_insn list \<Rightarrow> generated_program \<Rightarrow> bool" where
  "generated_from att n pl body p \<longleftrightarrow>
     plan_ok att n pl \<and> gp_field_layout p = pl_layout pl \<and> gp_event_size p = align8 (pl_offset pl) \<and>
     gp_event_size p + 4 \<le> max_stack \<and> emit_reads (gp_event_size p) (pl_reads pl) = Inr body \<and>
     (let pre = filter_block @ zero_event (gp_event_size p) @ fill_header (gp_event_size p) @ body
      in gp_instructions p = pre @ output_block (gp_event_size p) \<and>
         gp_relocations p = [(10, 0), (length pre, 1), (length pre + 9, 2)] \<and>
         length (gp_instructions p) \<le> 4096)"

lemma generated_fromD:
  assumes "generated_from att n pl body p"
  shows "plan_ok att n pl" and "gp_field_layout p = pl_layout pl"
    and "gp_event_size p = align8 (pl_offset pl)" and "gp_event_size p + 4 \<le> 512"
    and "emit_reads (gp_event_size p) (pl_reads pl) = Inr body"
  using assms unfolding generated_from_def max_stack_def by blast+

lemma generate_Inr:
  assumes "generate depth spec b = Some (Inr p)" and "small_params b"
  obtains sig pl body where "resolve_function b (ps_function spec) = Inr sig"
    and "plan_fields depth spec b sig (ps_fields spec) header_plan = Some (Inr pl)"
    and "generated_from (ps_attachment spec) (length (fs_params sig)) pl body p" and "length (fs_params sig) < 4096"
proof -
  from assms(1) obtain sig where sig: "resolve_function b (ps_function spec) = Inr sig"
    by (auto simp: generate_def split: sum.splits)
  from assms(1) sig obtain pl where
    pl: "plan_fields depth spec b sig (ps_fields spec) header_plan = Some (Inr pl)"
    by (auto simp: generate_def split: option.splits sum.splits)
  let ?n = "align8 (pl_offset pl)"
  from assms(1) sig pl have small: "?n + 4 \<le> max_stack"
    by (auto simp: generate_def Let_def split: if_splits)
  from assms(1) sig pl small obtain insns relocs where
    built: "build_program ?n (pl_reads pl) = Inr (insns, relocs)" and le: "length insns \<le> 4096" and
    p: "p = \<lparr>gp_instructions = insns, gp_relocations = relocs, gp_field_layout = pl_layout pl,
      gp_event_size = ?n, gp_map_name = event_map_name (ps_function spec)\<rparr>"
    by (auto simp: generate_def Let_def split: sum.splits if_splits)
  from built obtain body where body: "emit_reads ?n (pl_reads pl) = Inr body"
    by (auto simp: build_program_eq split: sum.splits)
  have params: "length (fs_params sig) < 4096" by (rule resolve_function_small [OF assms(2) sig])
  have "plan_ok (ps_attachment spec) (length (fs_params sig)) pl"
    using plan_fields_ok [OF pl plan_ok_header] params by simp
  then have "generated_from (ps_attachment spec) (length (fs_params sig)) pl body p"
    using built body small le by (auto simp: generated_from_def p build_program_eq Let_def)
  with sig pl params that show ?thesis by blast
qed

section \<open>Properties\<close>

text \<open>
  C36: The event layout: the header, then the requested fields without gap or overlap, in an
  event padded to eight bytes that fits the stack frame with the lookup key.
\<close>

theorem event_layout_tiles:
  assumes "generate depth spec b = Some (Inr p)" and "small_params b"
  shows "\<exists>used. tiles 0 (layout_spans (gp_field_layout p)) used \<and>
    used \<le> gp_event_size p \<and> gp_event_size p < used + 8 \<and> 8 dvd gp_event_size p \<and>
    gp_event_size p + 4 \<le> 512 \<and> take 3 (gp_field_layout p) = pl_layout header_plan"
proof -
  obtain sig pl body where "resolve_function b (ps_function spec) = Inr sig"
    and "plan_fields depth spec b sig (ps_fields spec) header_plan = Some (Inr pl)"
    and g: "generated_from (ps_attachment spec) (length (fs_params sig)) pl body p" and "length (fs_params sig) < 4096"
    by (rule generate_Inr [OF assms])
  note ok = generated_fromD(1) [OF g] and l = generated_fromD(2) [OF g]
    and n = generated_fromD(3,4) [OF g]
  have "layout_spans (take 3 (pl_layout pl) @ drop 3 (pl_layout pl)) =
      layout_spans (take 3 (pl_layout pl)) @ layout_spans (drop 3 (pl_layout pl))"
    by (simp only: layout_spans_def map_append)
  moreover have "layout_spans (take 3 (pl_layout pl)) = [(0, 8), (8, 4), (12, 4)]"
    using ok by (simp add: plan_ok_def layout_spans_def header_plan_def)
  moreover have "layout_spans (drop 3 (pl_layout pl)) = read_spans (pl_reads pl)"
    using ok by (simp add: plan_ok_def)
  ultimately have "layout_spans (pl_layout pl) =
      [(0, 8), (8, 4), (12, 4)] @ read_spans (pl_reads pl)" by simp
  moreover have "tiles 16 (read_spans (pl_reads pl)) (pl_offset pl)"
    using ok by (simp add: plan_ok_def)
  ultimately have "tiles 0 (layout_spans (gp_field_layout p)) (pl_offset pl)" by (simp add: l)
  moreover have "take 3 (gp_field_layout p) = pl_layout header_plan"
    using ok by (simp add: l plan_ok_def)
  ultimately show ?thesis using n align8_bounds [of "pl_offset pl"] by auto
qed

text \<open>A probe on the sample function, with its one field.\<close>

definition sample_spec :: probe_spec where
  "sample_spec = \<lparr>ps_function = ''f'', ps_attachment = Fexit,
     ps_fields = [''p.x'', ''p'', ''ret'', ''comm''], ps_event_type = ''kernel.f''\<rparr>"

definition sample_layout :: "(string \<times> nat \<times> nat) list" where
  "sample_layout = [(''timestamp_ns'', 0, 8), (''pid'', 8, 4), (''tid'', 12, 4), (''p.x'', 16, 4),
     (''p'', 20, 8), (''ret'', 28, 4), (''comm'', 32, 16)]"

definition sample_program :: generated_program where
  "sample_program = (case generate 2 sample_spec sample_btf of Some (Inr p) \<Rightarrow> p)"

lemma sample_facts:
  "(case generate 2 sample_spec sample_btf of
      Some (Inr p) \<Rightarrow>
        map (\<lambda>f. (fl_name f, fl_offset f, fl_size f)) (gp_field_layout p) = sample_layout \<and>
        gp_event_size p = 48 \<and> gp_relocations p = [(10, 0), (46, 1), (55, 2)]
    | _ \<Rightarrow> False)"
  by code_simp

lemma sample_generates:
  "generate 2 sample_spec sample_btf = Some (Inr sample_program)"
  "map (\<lambda>f. (fl_name f, fl_offset f, fl_size f)) (gp_field_layout sample_program) = sample_layout"
  "gp_event_size sample_program = 48"
  using sample_facts by (auto simp: sample_program_def split: option.splits sum.splits)

lemma sample_small: "small_params sample_btf"
  by code_simp

theorem event_layout_tiles_witness:
  "\<exists>used. tiles 0 (layout_spans (gp_field_layout sample_program)) used \<and> used \<le> 48"
  using event_layout_tiles [OF sample_generates(1) sample_small] sample_generates(3) by auto

end
