(* ===== verification/Bpf_Machine.thy ===== *)
theory Bpf_Machine
  imports Bpf_Program
begin

text \<open>
  What the generated programs do: a machine for the instructions the builder emits, with the
  tagged values of the verifier (scalars, pointers into the frame, the context, a map or a map
  entry), and the theorem that a generated program, on that machine, hands the ring buffer exactly
  the event its layout describes, filters the agent's own processes and counts the events the ring
  refuses.  The kernel is a parameter: the helpers' results, the arguments of the traced function
  and the memory \<open>bpf_probe_read_kernel\<close> reads.
\<close>

section \<open>The machine\<close>

datatype bpf_val = Undef | Num u64 | Frame int | Ctx int | Map_Fd i32 | Entry nat

record kernel =
  k_pid_tgid :: u64
  k_time :: u64
  k_comm :: "u8 list"
  k_args :: "u64 list"
  k_read :: "u64 \<Rightarrow> nat \<Rightarrow> u8 list"
  k_filter :: "u8 list list"
  k_fds :: "nat \<Rightarrow> i32"
  k_ring_free :: bool

record machine =
  m_regs :: "u8 \<Rightarrow> bpf_val"
  m_stack :: "int \<Rightarrow> u8"
  m_events :: "u8 list list"
  m_drops :: u64

definition set_reg :: "u8 \<Rightarrow> bpf_val \<Rightarrow> machine \<Rightarrow> machine" where
  "set_reg r v m = m\<lparr>m_regs := (m_regs m)(r := v)\<rparr>"

definition put_bytes :: "int \<Rightarrow> u8 list \<Rightarrow> (int \<Rightarrow> u8) \<Rightarrow> int \<Rightarrow> u8" where
  "put_bytes pos bs stack a =
     (if pos \<le> a \<and> a < pos + int (length bs) then bs ! nat (a - pos) else stack a)"

definition frame_bytes :: "(int \<Rightarrow> u8) \<Rightarrow> int \<Rightarrow> nat \<Rightarrow> u8 list" where
  "frame_bytes stack pos n = map (\<lambda>k. stack (pos + int k)) [0..<n]"

definition in_frame :: "int \<Rightarrow> nat \<Rightarrow> bool" where
  "in_frame pos n \<longleftrightarrow> -512 \<le> pos \<and> pos + int n \<le> 0"

definition store :: "bpf_val \<Rightarrow> i16 \<Rightarrow> nat \<Rightarrow> u64 \<Rightarrow> machine \<Rightarrow> machine option" where
  "store base off' n w m =
     (case base of
        Frame pos \<Rightarrow>
          if in_frame (pos + sint off') n
          then Some (m\<lparr>m_stack := put_bytes (pos + sint off') (le_bytes n (unat w)) (m_stack m)\<rparr>)
          else None
      | Entry i \<Rightarrow> if i = 2 \<and> off' = 0 \<and> n = 8 then Some (m\<lparr>m_drops := w\<rparr>) else None
      | _ \<Rightarrow> None)"

definition store_reg :: "bpf_insn \<Rightarrow> nat \<Rightarrow> machine \<Rightarrow> machine option" where
  "store_reg i n m =
     (case m_regs m (src_reg i) of
        Num w \<Rightarrow> store (m_regs m (dst_reg i)) (bi_off i) n w m
      | _ \<Rightarrow> None)"

text \<open>A helper returns in \<open>r0\<close> and clobbers \<open>r1\<close> to \<open>r5\<close>.\<close>

definition returning :: "bpf_val \<Rightarrow> machine \<Rightarrow> machine" where
  "returning v m = m\<lparr>m_regs := (\<lambda>r. if r = 0 then v else if r < 6 then Undef else m_regs m r)\<rparr>"

definition call_helper :: "kernel \<Rightarrow> i32 \<Rightarrow> machine \<Rightarrow> machine option" where
  "call_helper K f m =
     (let arg = m_regs m in
      if f = func_get_current_pid_tgid then Some (returning (Num (k_pid_tgid K)) m)
      else if f = func_ktime_get_ns then Some (returning (Num (k_time K)) m)
      else if f = func_get_current_comm then
        (case (arg R1, arg R2) of
           (Frame pos, Num w) \<Rightarrow>
             if in_frame pos (unat w) \<and> length (k_comm K) = unat w
             then Some (returning (Num 0) (m\<lparr>m_stack := put_bytes pos (k_comm K) (m_stack m)\<rparr>))
             else None
         | _ \<Rightarrow> None)
      else if f = func_probe_read_kernel then
        (case (arg R1, arg R2, arg R3) of
           (Frame pos, Num w, Num addr) \<Rightarrow>
             if in_frame pos (unat w) \<and> length (k_read K addr (unat w)) = unat w
             then Some (returning (Num 0)
               (m\<lparr>m_stack := put_bytes pos (k_read K addr (unat w)) (m_stack m)\<rparr>))
             else None
         | _ \<Rightarrow> None)
      else if f = func_map_lookup_elem then
        (case (arg R1, arg R2) of
           (Map_Fd fd, Frame pos) \<Rightarrow>
             if in_frame pos 4 then
               let key = frame_bytes (m_stack m) pos 4 in
               if fd = k_fds K map_idx_pid_filter then
                 Some (returning (if key \<in> set (k_filter K) then Entry 0 else Num 0) m)
               else if fd = k_fds K map_idx_ringbuf_drops then
                 Some (returning (if key = [0, 0, 0, 0] then Entry 2 else Num 0) m)
               else None
             else None
         | _ \<Rightarrow> None)
      else if f = func_ringbuf_output then
        (case (arg R1, arg R2, arg R3, arg R4) of
           (Map_Fd fd, Frame pos, Num w, Num flags) \<Rightarrow>
             if fd = k_fds K map_idx_ringbuf \<and> in_frame pos (unat w) \<and> flags = 0 then
               if k_ring_free K
               then Some (returning (Num 0)
                 (m\<lparr>m_events := m_events m @ [frame_bytes (m_stack m) pos (unat w)]\<rparr>))
               else Some (returning (Num (-11)) m)
             else None
         | _ \<Rightarrow> None)
      else None)"

definition add_val :: "bpf_val \<Rightarrow> i32 \<Rightarrow> bpf_val" where
  "add_val v imm =
     (case v of
        Num w \<Rightarrow> Num (w + scast imm)
      | Frame pos \<Rightarrow> Frame (pos + sint imm)
      | Ctx pos \<Rightarrow> Ctx (pos + sint imm)
      | _ \<Rightarrow> Undef)"

definition load_dw :: "kernel \<Rightarrow> machine \<Rightarrow> bpf_val \<Rightarrow> i16 \<Rightarrow> u64 option" where
  "load_dw K m base off' =
     (case base of
        Ctx pos \<Rightarrow>
          let a = pos + sint off' in
          if 0 \<le> a \<and> a mod 8 = 0 \<and> nat (a div 8) < length (k_args K)
          then Some (k_args K ! nat (a div 8)) else None
      | Entry i \<Rightarrow> if i = 2 \<and> off' = 0 then Some (m_drops m) else None
      | _ \<Rightarrow> None)"

text \<open>One instruction without control flow; \<open>None\<close> is what the verifier rejects.\<close>

definition exec_insn :: "kernel \<Rightarrow> bpf_insn \<Rightarrow> machine \<Rightarrow> machine option" where
  "exec_insn K i m =
     (let c = bi_code i; d = dst_reg i; v = m_regs m d in
      if c = 0xb7 then Some (set_reg d (Num (scast (bi_imm i))) m)
      else if c = 0xbf then Some (set_reg d (m_regs m (src_reg i)) m)
      else if c = 0x07 then Some (set_reg d (add_val v (bi_imm i)) m)
      else if c = 0x77 then
        (case v of Num w \<Rightarrow> Some (set_reg d (Num (drop_bit (unat (bi_imm i)) w)) m) | _ \<Rightarrow> None)
      else if c = 0x54 then
        (case v of Num w \<Rightarrow> Some (set_reg d (Num (ucast (ucast w AND bi_imm i))) m) | _ \<Rightarrow> None)
      else if c = 0x79 then
        (case load_dw K m (m_regs m (src_reg i)) (bi_off i) of
           Some w \<Rightarrow> Some (set_reg d (Num w) m) | None \<Rightarrow> None)
      else if c = 0x7b then store_reg i 8 m
      else if c = 0x63 then store_reg i 4 m
      else if c = 0x6b then store_reg i 2 m
      else if c = 0x73 then store_reg i 1 m
      else if c = 0x62 then store v (bi_off i) 4 (scast (bi_imm i)) m
      else if c = 0x7a then store v (bi_off i) 8 (scast (bi_imm i)) m
      else if c = 0x85 then call_helper K (bi_imm i) m
      else None)"

text \<open>
  A run from the rest of the program: jumps only go forward, a map load takes two slots, running
  off the end is rejected.
\<close>

definition is_jump :: "bpf_insn \<Rightarrow> bool" where
  "is_jump i \<longleftrightarrow> bi_code i \<in> {0x05, 0x15, 0x55}"

definition taken :: "bpf_insn \<Rightarrow> machine \<Rightarrow> bool" where
  "taken i m \<longleftrightarrow>
     (let zero = (m_regs m (dst_reg i) = Num (scast (bi_imm i))) in
      bi_code i = 0x05 \<or> bi_code i = 0x15 \<and> zero \<or> bi_code i = 0x55 \<and> \<not> zero)"

function run :: "kernel \<Rightarrow> bpf_insn list \<Rightarrow> machine \<Rightarrow> machine option" where
  "run K [] m = None"
| "run K (i # is) m =
     (if bi_code i = 0x95 then Some m
      else if is_jump i then
        if taken i m
        then if sint (bi_off i) < 0 then None else run K (drop (unat (bi_off i)) is) m
        else run K is m
      else if bi_code i = 0x18 then
        (if src_reg i = bpf_pseudo_map_fd \<and> is \<noteq> []
         then run K (tl is) (set_reg (dst_reg i) (Map_Fd (bi_imm i)) m) else None)
      else (case exec_insn K i m of None \<Rightarrow> None | Some m' \<Rightarrow> run K is m'))"
  by pat_completeness auto
termination by (relation "measure (\<lambda>(K, is, m). length is)") (auto simp: Let_def)

declare run.simps(2) [simp del]

text \<open>The loader patches the descriptor of the relocated map into each map load.\<close>

fun link :: "(nat \<Rightarrow> i32) \<Rightarrow> (nat \<times> nat) list \<Rightarrow> bpf_insn list \<Rightarrow> bpf_insn list" where
  "link fds [] insns = insns"
| "link fds ((pos, map_index) # relocs) insns =
     link fds relocs (insns[pos := (insns ! pos)\<lparr>bi_imm := fds map_index\<rparr>])"

definition start_machine :: "u64 \<Rightarrow> (int \<Rightarrow> u8) \<Rightarrow> machine" where
  "start_machine drops stack =
     \<lparr>m_regs = (\<lambda>r. if r = 1 then Ctx 0 else if r = 10 then Frame 0 else Undef),
      m_stack = stack, m_events = [], m_drops = drops\<rparr>"

definition run_program :: "kernel \<Rightarrow> generated_program \<Rightarrow> machine \<Rightarrow> machine option" where
  "run_program K p m = run K (link (k_fds K) (gp_relocations p) (gp_instructions p)) m"

section \<open>Executing the emitted instructions\<close>

lemmas func_defs =
  func_map_lookup_elem_def func_ktime_get_ns_def func_get_current_pid_tgid_def
  func_get_current_comm_def func_probe_read_kernel_def func_ringbuf_output_def

lemma insn_fields [simp]:
  "bi_code (insn c d s k i) = c" "bi_off (insn c d s k i) = k" "bi_imm (insn c d s k i) = i"
  by (simp_all add: insn_def)

lemmas insn_constructors =
  mov64_imm_def mov64_reg_def add64_imm_def rsh64_imm_def and32_imm_def ldx_dw_def stx_dw_def
  stx_w_def stx_h_def stx_b_def st_w_def st_dw_def call_def jeq_imm_def exit_insn_def

lemma exec_movs:
  "d < 16 \<Longrightarrow> exec_insn K (mov64_imm d k) m = Some (set_reg d (Num (scast k)) m)"
  "d < 16 \<Longrightarrow> s < 16 \<Longrightarrow> exec_insn K (mov64_reg d s) m = Some (set_reg d (m_regs m s) m)"
  "d < 16 \<Longrightarrow> exec_insn K (add64_imm d k) m = Some (set_reg d (add_val (m_regs m d) k) m)"
  by (simp_all add: exec_insn_def insn_constructors opcode_defs regs_insn)

lemma exec_alus:
  "d < 16 \<Longrightarrow> m_regs m d = Num w \<Longrightarrow>
   exec_insn K (rsh64_imm d k) m = Some (set_reg d (Num (drop_bit (unat k) w)) m)"
  "d < 16 \<Longrightarrow> m_regs m d = Num w \<Longrightarrow>
   exec_insn K (and32_imm d k) m = Some (set_reg d (Num (ucast (ucast w AND k))) m)"
  by (simp_all add: exec_insn_def insn_constructors opcode_defs regs_insn)

lemma exec_stores:
  "d < 16 \<Longrightarrow> s < 16 \<Longrightarrow> m_regs m s = Num w \<Longrightarrow>
   exec_insn K (stx_dw d s k) m = store (m_regs m d) k 8 w m"
  "d < 16 \<Longrightarrow> s < 16 \<Longrightarrow> m_regs m s = Num w \<Longrightarrow>
   exec_insn K (stx_w d s k) m = store (m_regs m d) k 4 w m"
  "d < 16 \<Longrightarrow> s < 16 \<Longrightarrow> m_regs m s = Num w \<Longrightarrow>
   exec_insn K (stx_h d s k) m = store (m_regs m d) k 2 w m"
  "d < 16 \<Longrightarrow> s < 16 \<Longrightarrow> m_regs m s = Num w \<Longrightarrow>
   exec_insn K (stx_b d s k) m = store (m_regs m d) k 1 w m"
  "d < 16 \<Longrightarrow> exec_insn K (st_w d k i) m = store (m_regs m d) k 4 (scast i) m"
  "d < 16 \<Longrightarrow> exec_insn K (st_dw d k i) m = store (m_regs m d) k 8 (scast i) m"
  by (simp_all add: exec_insn_def store_reg_def insn_constructors opcode_defs regs_insn)

lemma exec_loads:
  "d < 16 \<Longrightarrow> s < 16 \<Longrightarrow>
   exec_insn K (ldx_dw d s k) m =
     (case load_dw K m (m_regs m s) k of Some w \<Rightarrow> Some (set_reg d (Num w) m) | None \<Rightarrow> None)"
  by (simp add: exec_insn_def insn_constructors opcode_defs regs_insn)

lemma exec_call: "exec_insn K (call f) m = call_helper K f m"
  by (simp add: exec_insn_def insn_constructors opcode_defs)

lemmas exec_simps = exec_movs exec_alus exec_stores exec_loads exec_call

lemma run_exit [simp]: "run K (exit_insn # is) m = Some m"
  by (simp add: run.simps(2) insn_constructors opcode_defs)

lemma run_jeq:
  "d < 16 \<Longrightarrow> run K (jeq_imm d i k # is) m =
   (if m_regs m d = Num (scast i)
    then if sint k < 0 then None else run K (drop (unat k) is) m else run K is m)"
  by (simp add: run.simps(2) is_jump_def taken_def insn_constructors opcode_defs regs_insn)

lemma run_insn: "exec_insn K i m = Some m' \<Longrightarrow> run K (i # is) m = run K is m'"
proof -
  assume e: "exec_insn K i m = Some m'"
  then have "bi_code i \<notin> {0x95, 0x05, 0x15, 0x55, 0x18}"
    by (auto simp: exec_insn_def Let_def)
  with e show ?thesis by (simp add: run.simps(2) is_jump_def)
qed

lemma run_straight:
  "bi_code i \<notin> {0x95, 0x05, 0x15, 0x55, 0x18} \<Longrightarrow>
   run K (i # is) m = (case exec_insn K i m of None \<Rightarrow> None | Some m' \<Rightarrow> run K is m')"
  by (simp add: run.simps(2) is_jump_def)

lemma insn_codes:
  "bi_code (mov64_imm d i) = 0xb7" "bi_code (mov64_reg d s) = 0xbf" "bi_code (add64_imm d i) = 0x07"
  "bi_code (rsh64_imm d i) = 0x77" "bi_code (and32_imm d i) = 0x54" "bi_code (ldx_dw d s k) = 0x79"
  "bi_code (stx_dw d s k) = 0x7b" "bi_code (stx_w d s k) = 0x63" "bi_code (stx_h d s k) = 0x6b"
  "bi_code (stx_b d s k) = 0x73" "bi_code (st_w d k i) = 0x62" "bi_code (st_dw d k i) = 0x7a"
  "bi_code (call f) = 0x85"
  by (simp_all add: insn_constructors opcode_defs)

lemmas run_simps = run_straight insn_codes exec_simps run_jeq

definition linked_load :: "u8 \<Rightarrow> i32 \<Rightarrow> bpf_insn list" where
  "linked_load d fd =
     [insn (bpf_ld OR bpf_dw OR bpf_imm) d bpf_pseudo_map_fd 0 fd, insn 0 0 0 0 0]"

lemma run_linked_load:
  "d < 16 \<Longrightarrow> run K (linked_load d fd @ is) m = run K is (set_reg d (Map_Fd fd) m)"
  by (simp add: linked_load_def run.simps(2) is_jump_def opcode_defs regs_insn)

lemma length_linked_load [simp]: "length (linked_load d fd) = 2"
  by (simp add: linked_load_def)

lemma ld_map_fd_linked: "ld_map_fd d = linked_load d 0"
  by (simp add: ld_map_fd_def linked_load_def)

fun exec_block :: "kernel \<Rightarrow> bpf_insn list \<Rightarrow> machine \<Rightarrow> machine option" where
  "exec_block K [] m = Some m"
| "exec_block K (i # is) m = (case exec_insn K i m of None \<Rightarrow> None | Some m' \<Rightarrow> exec_block K is m')"

lemma run_block: "exec_block K blk m = Some m' \<Longrightarrow> run K (blk @ is) m = run K is m'"
  by (induction blk arbitrary: m) (auto simp: run_insn split: option.splits)

lemma exec_block_append:
  "exec_block K (xs @ ys) m =
   (case exec_block K xs m of None \<Rightarrow> None | Some m' \<Rightarrow> exec_block K ys m')"
  by (induction xs arbitrary: m) (auto split: option.splits)

section \<open>The frame\<close>

lemma regs_set [simp]: "m_regs (set_reg r v m) = (m_regs m)(r := v)"
  by (simp add: set_reg_def)

lemma set_reg_fields [simp]:
  "m_stack (set_reg r v m) = m_stack m" "m_events (set_reg r v m) = m_events m"
  "m_drops (set_reg r v m) = m_drops m"
  by (simp_all add: set_reg_def)

lemma returning_fields [simp]:
  "m_stack (returning v m) = m_stack m" "m_events (returning v m) = m_events m"
  "m_drops (returning v m) = m_drops m"
  "m_regs (returning v m) r = (if r = 0 then v else if r < 6 then Undef else m_regs m r)"
  by (simp_all add: returning_def)

lemma length_frame_bytes [simp]: "length (frame_bytes stack pos n) = n"
  by (simp add: frame_bytes_def)

lemma frame_bytes_put_same: "frame_bytes (put_bytes pos bs stack) pos (length bs) = bs"
  by (rule nth_equalityI) (simp_all add: frame_bytes_def put_bytes_def)

lemma frame_bytes_put_other:
  "pos + int (length bs) \<le> base \<or> base + int n \<le> pos \<Longrightarrow>
   frame_bytes (put_bytes pos bs stack) base n = frame_bytes stack base n"
  by (auto simp: frame_bytes_def put_bytes_def)

lemma frame_bytes_put:
  assumes "pos = base + int (length done)" and "frame_bytes stack base n = done @ rest"
    and "length bs \<le> length rest"
  shows "frame_bytes (put_bytes pos bs stack) base n = done @ bs @ drop (length bs) rest"
proof (rule nth_equalityI)
  have n: "n = length done + length rest"
    using arg_cong [OF assms(2), of length] by simp
  then show "length (frame_bytes (put_bytes pos bs stack) base n) =
      length (done @ bs @ drop (length bs) rest)" using assms(3) by simp
  fix i
  assume "i < length (frame_bytes (put_bytes pos bs stack) base n)"
  then have i: "i < n" by simp
  have old: "stack (base + int i) = (done @ rest) ! i"
    using arg_cong [OF assms(2), of "\<lambda>xs. xs ! i"] i by (simp add: frame_bytes_def)
  consider "i < length done" | "length done \<le> i" "i < length done + length bs"
    | "length done + length bs \<le> i" by linarith
  then show "frame_bytes (put_bytes pos bs stack) base n ! i =
      (done @ bs @ drop (length bs) rest) ! i"
  proof cases
    case 1
    with i old show ?thesis by (simp add: frame_bytes_def put_bytes_def assms(1) nth_append)
  next
    case 2
    then have "nat (int i - int (length done)) = i - length done" "i - length done < length bs"
      by simp_all
    with 2 i show ?thesis
      by (simp add: frame_bytes_def put_bytes_def assms(1) nth_append)
  next
    case 3
    then have "length bs \<le> i - length done" "\<not> i - length done < length bs" by simp_all
    with 3 i n assms(3) old show ?thesis
      by (simp add: frame_bytes_def put_bytes_def assms(1) nth_append)
  qed
qed

section \<open>The linked program\<close>

definition linked_filter :: "(nat \<Rightarrow> i32) \<Rightarrow> bpf_insn list" where
  "linked_filter fds =
     [mov64_reg R7 R1, call func_get_current_pid_tgid, mov64_reg R6 R0, mov64_reg R1 R6,
      rsh64_imm R1 32, stx_w R10 R1 (to_i16 pid_key_off)] @ linked_load R1 0 @
     [mov64_reg R2 R10, add64_imm R2 pid_key_off] @ linked_load R1 (fds 0) @
     [mov64_reg R2 R10, add64_imm R2 pid_key_off, call func_map_lookup_elem, jeq_imm R0 0 2,
      mov64_imm R0 0, exit_insn]"

definition linked_output :: "(nat \<Rightarrow> i32) \<Rightarrow> nat \<Rightarrow> bpf_insn list" where
  "linked_output fds event_size =
     linked_load R1 (fds 1) @
     [mov64_reg R2 R10, add64_imm R2 (event_base_off event_size), mov64_imm R3 (of_nat event_size),
      mov64_imm R4 0, call func_ringbuf_output, jeq_imm R0 0 10,
      st_w R10 (to_i16 pid_key_off) 0] @
     linked_load R1 (fds 2) @
     [mov64_reg R2 R10, add64_imm R2 pid_key_off, call func_map_lookup_elem, jeq_imm R0 0 3,
      ldx_dw R1 R0 0, add64_imm R1 1, stx_dw R0 R1 0, mov64_imm R0 0, exit_insn]"

lemma link_filter:
  "(filter_block @ rest)[10 := ((filter_block @ rest) ! 10)\<lparr>bi_imm := fds 0\<rparr>] =
   linked_filter fds @ rest"
  by (simp add: filter_block_def linked_filter_def ld_map_fd_def linked_load_def insn_def
      nth_append list_update_append)

lemma link_output:
  "link fds [(length pre, 1), (length pre + 9, 2)] (pre @ output_block n) = pre @ linked_output fds n"
  by (simp add: output_block_def linked_output_def ld_map_fd_def linked_load_def insn_def
      nth_append list_update_append)

lemma link_program:
  assumes "generated_from att n pl body p"
  shows "link fds (gp_relocations p) (gp_instructions p) =
    linked_filter fds @ zero_event (gp_event_size p) @ fill_header (gp_event_size p) @ body @
    linked_output fds (gp_event_size p)"
proof -
  let ?mid = "zero_event (gp_event_size p) @ fill_header (gp_event_size p) @ body"
  let ?out = "output_block (gp_event_size p)"
  have p: "gp_instructions p = filter_block @ ?mid @ ?out"
    "gp_relocations p =
      [(10, 0), (length (filter_block @ ?mid), 1), (length (filter_block @ ?mid) + 9, 2)]"
    using assms by (simp_all add: generated_from_def Let_def)
  have len: "length (filter_block @ ?mid) = length (linked_filter fds @ ?mid)"
    by (simp add: filter_block_def linked_filter_def ld_map_fd_length linked_load_def)
  show ?thesis
    unfolding p link.simps(2) [of _ 10] link_filter len
    using link_output [of fds "linked_filter fds @ ?mid"] by simp
qed

section \<open>The filter\<close>

definition tgid_key :: "kernel \<Rightarrow> u8 list" where
  "tgid_key K = le_bytes 4 (unat (drop_bit 32 (k_pid_tgid K)))"

text \<open>What the blocks after the filter rely on.\<close>

definition ready :: "kernel \<Rightarrow> u64 \<Rightarrow> machine \<Rightarrow> bool" where
  "ready K drops m \<longleftrightarrow>
     m_regs m 6 = Num (k_pid_tgid K) \<and> m_regs m 7 = Ctx 0 \<and> m_regs m 10 = Frame 0 \<and>
     m_events m = [] \<and> m_drops m = drops"

lemma pid_key_ints: "sint (to_i16 pid_key_off) = -4" "sint pid_key_off = -4"
  by (simp_all add: to_i16_def pid_key_off_def)

lemma run_filter:
  assumes "m = start_machine drops stack"
  shows "\<exists>m'. run K (linked_filter (k_fds K) @ rest) m =
      (if tgid_key K \<in> set (k_filter K) then Some m' else run K rest m') \<and> ready K drops m'"
proof -
  let ?w = "drop_bit 32 (k_pid_tgid K)"
  let ?stack = "put_bytes (-4) (le_bytes 4 (unat ?w)) stack"
  have key: "frame_bytes ?stack (-4) 4 = tgid_key K"
    using frame_bytes_put_same [of "-4" "le_bytes 4 (unat ?w)" stack] by (simp add: tgid_key_def)
  show ?thesis
    by (simp add: assms linked_filter_def run_simps run_linked_load start_machine_def call_helper_def
        func_defs store_def pid_key_ints in_frame_def add_val_def key Let_def map_idx_pid_filter_def
        ready_def)
      (intro impI, rule exI, rule conjI, rule refl, simp)
qed

section \<open>Filling the event\<close>

definition event_at :: "nat \<Rightarrow> int" where
  "event_at n = - 4 - int n"

text \<open>The event holds \<open>written\<close>, then zeros.\<close>

definition filling :: "kernel \<Rightarrow> u64 \<Rightarrow> nat \<Rightarrow> u8 list \<Rightarrow> machine \<Rightarrow> bool" where
  "filling K drops n written m \<longleftrightarrow>
     ready K drops m \<and> length written \<le> n \<and>
     frame_bytes (m_stack m) (event_at n) n = written @ replicate (n - length written) 0"

lemma frame_bytes_add:
  "frame_bytes stack pos (a + b) = frame_bytes stack pos a @ frame_bytes stack (pos + int a) b"
  by (rule nth_equalityI) (simp_all add: frame_bytes_def nth_append add.assoc less_diff_conv2)

lemma event_word: "event_base_off n + of_nat k = (word_of_int (event_at n + int k) :: i32)"
  by (simp add: event_base_off_def event_at_def)

lemma event_sint:
  assumes "n + 4 \<le> 512" and "k \<le> n"
  shows "sint (to_i16 (event_base_off n + of_nat k)) = event_at n + int k"
    "sint (event_base_off n + of_nat k) = event_at n + int k"
proof -
  have b: "- (2 ^ 15) \<le> event_at n + int k" "event_at n + int k < 2 ^ 15"
    using assms by (simp_all add: event_at_def)
  show "sint (to_i16 (event_base_off n + of_nat k)) = event_at n + int k"
    unfolding event_word to_i16_int by (rule sint_i16 [OF b])
  show "sint (event_base_off n + of_nat k) = event_at n + int k"
    unfolding event_word by (rule sint_i32) (use b in simp_all)
qed

lemma store_event:
  assumes "n + 4 \<le> 512" and "k + s \<le> n"
  shows "store (Frame 0) (to_i16 (event_base_off n + of_nat k)) s w m =
    Some (m\<lparr>m_stack := put_bytes (event_at n + int k) (le_bytes s (unat w)) (m_stack m)\<rparr>)"
  using assms event_sint [of n k] by (simp add: store_def in_frame_def event_at_def)

lemma store_header:
  assumes "n + 4 \<le> 512" and "16 \<le> n"
  shows
    "store (Frame 0) (to_i16 (event_base_off n)) 8 w m =
      Some (m\<lparr>m_stack := put_bytes (event_at n) (le_bytes 8 (unat w)) (m_stack m)\<rparr>)"
    "store (Frame 0) (to_i16 (event_base_off n + 8)) 4 w m =
      Some (m\<lparr>m_stack := put_bytes (event_at n + 8) (le_bytes 4 (unat w)) (m_stack m)\<rparr>)"
    "store (Frame 0) (to_i16 (event_base_off n + 12)) 4 w m =
      Some (m\<lparr>m_stack := put_bytes (event_at n + 12) (le_bytes 4 (unat w)) (m_stack m)\<rparr>)"
  using store_event [of n 0 8 w m] store_event [of n 8 4 w m] store_event [of n 12 4 w m] assms
  by simp_all

lemma ready_keeps:
  "ready K drops m \<Longrightarrow> ready K drops (m\<lparr>m_stack := st\<rparr>)"
  "ready K drops m \<Longrightarrow> ready K drops (returning v m)"
  "ready K drops m \<Longrightarrow> r \<notin> {6, 7, 10} \<Longrightarrow> ready K drops (set_reg r v m)"
  by (auto simp: ready_def)

lemma filling_put:
  assumes "filling K drops n written m" and "ready K drops m'"
    and "m_stack m' = put_bytes (event_at n + int (length written)) bs (m_stack m)"
    and "length written + length bs \<le> n"
  shows "filling K drops n (written @ bs) m'"
  using assms frame_bytes_put [of _ "event_at n" written "m_stack m" n
      "replicate (n - length written) 0" bs]
  by (simp add: filling_def drop_replicate)


lemma le_bytes_0: "le_bytes k 0 = replicate k 0"
  by (induction k) simp_all

lemma exec_zero_upto:
  assumes "n + 4 \<le> 512" and "ready K drops m"
  shows "8 * j \<le> n \<Longrightarrow>
    \<exists>m'. exec_block K (map (\<lambda>k. st_dw R10 (to_i16 (event_base_off n) + 8 * of_nat k) 0) [0..<j]) m =
        Some m' \<and> ready K drops m' \<and>
      frame_bytes (m_stack m') (event_at n) (8 * j) = replicate (8 * j) 0"
proof (induction j)
  case 0
  then show ?case using assms(2) by (simp add: frame_bytes_def)
next
  case (Suc j)
  then obtain m1 where m1: "ready K drops m1"
    "exec_block K (map (\<lambda>k. st_dw R10 (to_i16 (event_base_off n) + 8 * of_nat k) 0) [0..<j]) m = Some m1"
    "frame_bytes (m_stack m1) (event_at n) (8 * j) = replicate (8 * j) 0" by auto
  have b0: "event_base_off n = word_of_int (event_at n)" using event_word [of n 0] by simp
  have off': "to_i16 (event_base_off n) + 8 * of_nat j = to_i16 (event_base_off n + of_nat (8 * j))"
    by (simp only: event_word to_i16_int) (simp add: b0 to_i16_int)
  let ?m2 = "m1\<lparr>m_stack := put_bytes (event_at n + int (8 * j)) (le_bytes 8 0) (m_stack m1)\<rparr>"
  have "exec_insn K (st_dw R10 (to_i16 (event_base_off n) + 8 * of_nat j) 0) m1 = Some ?m2"
    unfolding off' using store_event [OF assms(1), of "8 * j" 8 0 m1] Suc.prems m1(1)
    by (simp add: exec_stores ready_def)
  moreover have z: "le_bytes 8 0 = replicate 8 0" by (rule le_bytes_0)
  have "frame_bytes (m_stack ?m2) (event_at n) (8 * j) = replicate (8 * j) 0"
    using frame_bytes_put_other [of "event_at n + int (8 * j)" "le_bytes 8 0" "event_at n" "8 * j"]
      m1(3) by simp
  moreover have "frame_bytes (m_stack ?m2) (event_at n + int (8 * j)) 8 = replicate 8 0"
    using frame_bytes_put_same [of "event_at n + int (8 * j)" "le_bytes 8 0" "m_stack m1"] z by simp
  ultimately have "exec_block K (map (\<lambda>k. st_dw R10 (to_i16 (event_base_off n) + 8 * of_nat k) 0)
        [0..<Suc j]) m = Some ?m2 \<and> ready K drops ?m2 \<and>
      frame_bytes (m_stack ?m2) (event_at n) (8 * Suc j) = replicate (8 * Suc j) 0"
    using m1 frame_bytes_add [of "m_stack ?m2" "event_at n" "8 * j" 8]
    by (simp add: exec_block_append ready_keeps add.commute flip: replicate_add)
  then show ?case by blast
qed

lemma exec_zero_event:
  assumes "8 dvd n" and "n + 4 \<le> 512" and "ready K drops m"
  shows "\<exists>m'. exec_block K (zero_event n) m = Some m' \<and> filling K drops n [] m'"
proof -
  have "8 * (n div 8) = n" using assms(1) by simp
  with exec_zero_upto [OF assms(2,3), of "n div 8"] show ?thesis
    by (simp add: zero_event_eq [OF assms(1)] filling_def)
qed

definition header_bytes :: "kernel \<Rightarrow> u8 list" where
  "header_bytes K = le_bytes 8 (unat (k_time K)) @ tgid_key K @ le_bytes 4 (unat (k_pid_tgid K))"

lemma length_header_bytes [simp]: "length (header_bytes K) = 16"
  by (simp add: header_bytes_def tgid_key_def)


lemma exec_filling:
  assumes "\<exists>m'. exec_block K is m = Some m' \<and> m_stack m' = st \<and> ready K drops m'"
    and "filling K drops n written (m\<lparr>m_stack := st\<rparr>)"
  shows "\<exists>m'. exec_block K is m = Some m' \<and> filling K drops n written m'"
  using assms by (auto simp: filling_def)

lemma filling_write:
  "filling K drops n written m \<Longrightarrow> length written + length bs \<le> n \<Longrightarrow>
   filling K drops n (written @ bs)
     (m\<lparr>m_stack := put_bytes (event_at n + int (length written)) bs (m_stack m)\<rparr>)"
  by (rule filling_put) (auto simp: filling_def ready_keeps)

lemma le_bytes_low: "le_bytes k (m mod 256 ^ k) = le_bytes k m"
proof (induction k arbitrary: m)
  case 0
  then show ?case by simp
next
  case (Suc k)
  have "m mod 256 ^ Suc k div 256 = m div 256 mod 256 ^ k"
    by (simp add: mod_mult2_eq)
  moreover have "(word_of_nat (m mod 256 ^ Suc k) :: u8) = word_of_nat m"
    by (simp add: word_unat_eq_iff unat_of_nat mod_mod_cancel)
  ultimately show ?case by (simp add: Suc)
qed

lemma le_bytes_tid: "le_bytes 4 (unat (ucast (ucast w :: i32) :: u64)) = le_bytes 4 (unat (w :: u64))"
proof -
  have "unat (ucast (ucast w :: i32) :: u64) = unat w mod 256 ^ 4"
    by (simp add: unsigned_ucast_eq unsigned_take_bit_eq take_bit_nat_def)
  then show ?thesis by (simp only: le_bytes_low)
qed

lemma exec_fill_header:
  assumes "n + 4 \<le> 512" and "16 \<le> n" and "filling K drops n [] m"
  shows "\<exists>m'. exec_block K (fill_header n) m = Some m' \<and> filling K drops n (header_bytes K) m'"
proof -
  have r: "ready K drops m" using assms(3) by (simp add: filling_def)
  let ?t = "le_bytes 8 (unat (k_time K))" and ?i = "le_bytes 4 (unat (k_pid_tgid K))"
  let ?e = "event_at n"
  let ?stack = "put_bytes (?e + 12) ?i (put_bytes (?e + 8) (tgid_key K) (put_bytes ?e ?t (m_stack m)))"
  have f: "filling K drops n (header_bytes K) (m\<lparr>m_stack := ?stack\<rparr>)"
    using filling_write [OF filling_write [OF filling_write [OF assms(3), of ?t], of "tgid_key K"], of ?i]
      assms(2) by (simp add: header_bytes_def tgid_key_def)
  have "\<exists>m'. exec_block K (fill_header n) m = Some m' \<and> m_stack m' = ?stack \<and> ready K drops m'"
    using assms(1,2) r
    by (simp add: fill_header_def exec_simps store_header call_helper_def func_defs ready_def
        le_bytes_tid tgid_key_def)
  from exec_filling [OF this f] show ?thesis .
qed

section \<open>Reading the fields\<close>

text \<open>What a read puts into the event.\<close>

fun read_value :: "kernel \<Rightarrow> field_read \<Rightarrow> u8 list" where
  "read_value K (Comm pos) = k_comm K"
| "read_value K (Return_Value pos i) = le_bytes 4 (unat (k_args K ! unat i))"
| "read_value K (Direct_Arg pos i n) = le_bytes n (unat (k_args K ! unat i))"
| "read_value K (Probe_Read_Kernel pos i d n ft) = k_read K (k_args K ! unat i + scast d) n"

text \<open>
  The context of a tracing program holds the arguments and, on exit, the return value; the helpers
  fill what they are asked for; the three maps have descriptors of their own.
\<close>

definition kernel_ok :: "attach_type \<Rightarrow> nat \<Rightarrow> kernel \<Rightarrow> bool" where
  "kernel_ok att n K \<longleftrightarrow>
     length (k_args K) = n + (if att = Fexit then 1 else 0) \<and> n < 4096 \<and>
     length (k_comm K) = 16 \<and> (\<forall>addr k. length (k_read K addr k) = k) \<and>
     distinct [k_fds K 0, k_fds K 1, k_fds K 2]"

lemma sint_i16_slot: "k < 4096 \<Longrightarrow> sint (word_of_int (int k * 8) :: i16) = int k * 8"
  by (rule sint_i16) simp_all

lemma ctx_off_sint: "unat i < 4096 \<Longrightarrow> sint (ctx_off i) = int (unat i) * 8"
proof -
  assume u: "unat i < 4096"
  have "ctx_off i = word_of_int (int (unat i) * 8)" by (simp add: ctx_off_def)
  then show ?thesis using sint_i16_slot [OF u] by (rule ssubst)
qed

lemma load_arg:
  "unat i < length (k_args K) \<Longrightarrow> length (k_args K) \<le> 4096 \<Longrightarrow>
   load_dw K m (Ctx 0) (ctx_off i) = Some (k_args K ! unat i)"
  by (simp add: load_dw_def ctx_off_sint Let_def)

lemma arg_in_context:
  assumes "kernel_ok att cnt K" and "read_ok att cnt r"
  shows "case r of Comm pos \<Rightarrow> True
    | Return_Value pos i \<Rightarrow> load_dw K m (Ctx 0) (ctx_off i) = Some (k_args K ! unat i)
    | Direct_Arg pos i n \<Rightarrow> load_dw K m (Ctx 0) (ctx_off i) = Some (k_args K ! unat i)
    | Probe_Read_Kernel pos i d n ft \<Rightarrow>
        load_dw K m (Ctx 0) (ctx_off i) = Some (k_args K ! unat i)"
  using assms
  by (auto simp: kernel_ok_def unat_of_nat intro!: load_arg split: field_read.splits if_splits)

lemma mov_small: "n < 2 ^ 31 \<Longrightarrow> (scast (of_nat n :: i32) :: u64) = of_nat n"
proof -
  assume "n < 2 ^ 31"
  then have "sint (word_of_int (int n) :: i32) = int n" by (intro sint_i32) simp_all
  then show ?thesis by (simp add: scast_eq)
qed

lemma unat_mov_small: "n < 2 ^ 31 \<Longrightarrow> unat (scast (of_nat n :: i32) :: u64) = n"
  by (simp add: mov_small unat_of_nat)

lemma length_read_value:
  "kernel_ok att cnt K \<Longrightarrow> read_ok att cnt r \<Longrightarrow> length (read_value K r) = read_size r"
  by (cases r) (simp_all add: kernel_ok_def)

lemma length_read_values:
  "kernel_ok att cnt K \<Longrightarrow> list_all (read_ok att cnt) rs \<Longrightarrow> tiles a (read_spans rs) used \<Longrightarrow>
   a + length (concat (map (read_value K) rs)) = used"
proof (induction rs arbitrary: a)
  case Nil
  then show ?case by (simp add: read_spans_def)
next
  case (Cons r rs)
  then have "a + read_size r + length (concat (map (read_value K) rs)) = used"
    using Cons.IH [of "a + read_size r"] by (simp add: read_spans_def)
  with Cons.prems length_read_value [of att cnt K r] show ?case by simp
qed

lemma exec_read:
  assumes ok: "kernel_ok att cnt K" "read_ok att cnt r"
    and fill: "filling K drops n written m"
    and fits: "n + 4 \<le> 512" "read_pos r + read_size r \<le> n" "read_pos r = length written"
    and emit: "emit_read n r = Inr is"
  shows "\<exists>m'. exec_block K is m = Some m' \<and> filling K drops n (written @ read_value K r) m'"
proof (rule exec_filling)
  let ?st = "put_bytes (event_at n + int (read_pos r)) (read_value K r) (m_stack m)"
  show "filling K drops n (written @ read_value K r) (m\<lparr>m_stack := ?st\<rparr>)"
    using filling_write [OF fill, of "read_value K r"] fits length_read_value [OF ok] by simp
  have rdy: "ready K drops m" using fill by (simp add: filling_def)
  note ctx = arg_in_context [OF ok]
  have at_pos: "sint (field_off n (read_pos r)) = event_at n + int (read_pos r)"
    "in_frame (event_at n + int (read_pos r)) (read_size r)"
    using event_sint [of n "read_pos r"] fits
    by (simp_all add: field_off_def in_frame_def event_at_def)
  have st: "store (Frame 0) (to_i16 (field_off n (read_pos r))) (read_size r) w m' =
      Some (m'\<lparr>m_stack := put_bytes (event_at n + int (read_pos r)) (le_bytes (read_size r) (unat w))
        (m_stack m')\<rparr>)" for w m'
    using store_event [of n "read_pos r" "read_size r"] fits by (simp add: field_off_def)
  show "\<exists>m'. exec_block K is m = Some m' \<and> m_stack m' = ?st \<and> ready K drops m'"
  proof (cases r)
    case (Comm pos)
    then have "is = [mov64_reg R1 R10, add64_imm R1 (field_off n pos), mov64_imm R2 16,
        call func_get_current_comm]" using emit by simp
    then show ?thesis
      using Comm rdy at_pos ok(1)
      by (simp add: exec_simps call_helper_def func_defs add_val_def ready_def kernel_ok_def)
  next
    case (Return_Value pos i)
    then have "is = [ldx_dw R1 R7 (ctx_off i), stx_w R10 R1 (to_i16 (field_off n pos))]"
      using emit by simp
    then show ?thesis
      using Return_Value rdy st ctx [of m] by (simp add: exec_simps ready_def)
  next
    case (Direct_Arg pos i k)
    then have k: "k \<in> {1, 2, 4, 8}" using ok(2) by simp
    then show ?thesis
      using Direct_Arg rdy st ctx [of m] emit
      by (auto simp: exec_simps ready_def Let_def)
  next
    case (Probe_Read_Kernel pos i d k ft)
    then have k: "k \<in> {1, 2, 4, 8}" using ok(2) by simp
    then have u: "unat (scast (of_nat k :: i32) :: u64) = k" by (intro unat_mov_small) auto
    have "is = [mov64_reg R1 R10, add64_imm R1 (field_off n pos), mov64_imm R2 (of_nat k),
        ldx_dw R3 R7 (ctx_off i), add64_imm R3 d, call func_probe_read_kernel]"
      using emit Probe_Read_Kernel by simp
    moreover have "length (k_read K a k) = k" for a using ok(1) by (simp add: kernel_ok_def)
    ultimately show ?thesis
      using Probe_Read_Kernel rdy at_pos ctx u
      by (simp add: exec_simps call_helper_def func_defs add_val_def ready_def)
  qed
qed

lemma exec_reads:
  assumes ok: "kernel_ok att cnt K" and n: "n + 4 \<le> 512"
  shows "list_all (read_ok att cnt) rs \<Longrightarrow> filling K drops n written m \<Longrightarrow>
    tiles (length written) (read_spans rs) used \<Longrightarrow> used \<le> n \<Longrightarrow> emit_reads n rs = Inr is \<Longrightarrow>
    \<exists>m'. exec_block K is m = Some m' \<and>
      filling K drops n (written @ concat (map (read_value K) rs)) m' \<and>
      length (written @ concat (map (read_value K) rs)) = used"
proof (induction rs arbitrary: m written "is")
  case Nil
  then show ?case by (simp add: read_spans_def)
next
  case (Cons r rs)
  from Cons.prems(5) obtain is1 is2 where split: "emit_read n r = Inr is1" "emit_reads n rs = Inr is2"
    "is = is1 @ is2" by (auto split: sum.splits)
  have r: "read_ok att cnt r" using Cons.prems(1) by simp
  have t: "read_pos r = length written" "tiles (length written + read_size r) (read_spans rs) used"
    using Cons.prems(3) by (simp_all add: read_spans_def)
  have fits: "read_pos r + read_size r \<le> n" using tiles_le [OF t(2)] t(1) Cons.prems(4) by simp
  obtain m1 where m1: "exec_block K is1 m = Some m1"
    "filling K drops n (written @ read_value K r) m1"
    using exec_read [OF ok r Cons.prems(2) n fits t(1) split(1)] by blast
  have "tiles (length (written @ read_value K r)) (read_spans rs) used"
    using t(2) length_read_value [OF ok r] by simp
  with Cons.IH [OF _ m1(2) _ Cons.prems(4) split(2)] Cons.prems(1) m1(1) show ?case
    by (simp add: split(3) exec_block_append)
qed

section \<open>Handing the event over\<close>

lemma run_output:
  assumes n: "n + 4 \<le> 512" and rdy: "ready K drops m"
    and fds: "distinct [k_fds K 0, k_fds K 1, k_fds K 2]"
  shows "\<exists>m'. run K (linked_output (k_fds K) n) m = Some m' \<and>
    m_events m' = (if k_ring_free K then [frame_bytes (m_stack m) (event_at n) n] else []) \<and>
    m_drops m' = (if k_ring_free K then drops else drops + 1)"
proof -
  have e: "sint (event_base_off n) = event_at n" "in_frame (event_at n) n"
    using event_sint [of n 0] n by (simp_all add: in_frame_def event_at_def)
  have u: "unat (scast (of_nat n :: i32) :: u64) = n" using n by (intro unat_mov_small) simp
  have key: "frame_bytes (put_bytes (-4) (le_bytes 4 0) stack) (-4) 4 = [0, 0, 0, 0]" for stack
    using frame_bytes_put_same [of "-4" "le_bytes 4 0" stack]
    by (simp add: le_bytes_0 numeral_eq_Suc)
  have fds': "k_fds K 2 \<noteq> k_fds K 0" using fds by auto
  show ?thesis
    using rdy e u fds fds'
    by (simp add: linked_output_def run_simps run_linked_load call_helper_def func_defs store_def
        load_dw_def pid_key_ints in_frame_def add_val_def key Let_def map_idx_pid_filter_def
        map_idx_ringbuf_def map_idx_ringbuf_drops_def ready_def)
qed

section \<open>Running a generated program\<close>

definition event_image :: "kernel \<Rightarrow> plan \<Rightarrow> nat \<Rightarrow> u8 list" where
  "event_image K pl event_size =
     header_bytes K @ concat (map (read_value K) (pl_reads pl)) @
     replicate (event_size - pl_offset pl) 0"

lemma run_generated:
  assumes g: "generated_from att cnt pl body p" and ok: "kernel_ok att cnt K"
  shows "\<exists>m. run_program K p (start_machine drops stack) = Some m \<and>
    (if tgid_key K \<in> set (k_filter K) then m_events m = [] \<and> m_drops m = drops
     else if k_ring_free K
     then m_events m = [event_image K pl (gp_event_size p)] \<and> m_drops m = drops
     else m_events m = [] \<and> m_drops m = drops + 1)"
proof -
  let ?n = "gp_event_size p" and ?m0 = "start_machine drops stack"
  note plan = generated_fromD(1) [OF g] and n = generated_fromD(3,4) [OF g]
    and body = generated_fromD(5) [OF g]
  have tiled: "tiles 16 (read_spans (pl_reads pl)) (pl_offset pl)" using plan by (simp add: plan_ok_def)
  have reads: "list_all (read_ok att cnt) (pl_reads pl)" using plan by (simp add: plan_ok_def)
  have used: "16 \<le> ?n" "pl_offset pl \<le> ?n" "8 dvd ?n"
    using tiles_le [OF tiled] align8_bounds [of "pl_offset pl"] n(1) by simp_all
  let ?rest = "zero_event ?n @ fill_header ?n @ body @ linked_output (k_fds K) ?n"
  have prog: "run_program K p ?m0 = run K (linked_filter (k_fds K) @ ?rest) ?m0"
    by (simp add: run_program_def link_program [OF g])
  obtain m1 where m1: "ready K drops m1" "run K (linked_filter (k_fds K) @ ?rest) ?m0 =
      (if tgid_key K \<in> set (k_filter K) then Some m1 else run K ?rest m1)"
    using run_filter [of ?m0 drops stack K ?rest] by blast
  show ?thesis
  proof (cases "tgid_key K \<in> set (k_filter K)")
    case True
    with m1 prog show ?thesis by (simp add: ready_def)
  next
    case False
    obtain m2 where m2: "exec_block K (zero_event ?n) m1 = Some m2" "filling K drops ?n [] m2"
      using exec_zero_event [OF used(3) n(2) m1(1)] by blast
    obtain m3 where m3: "exec_block K (fill_header ?n) m2 = Some m3"
      "filling K drops ?n (header_bytes K) m3"
      using exec_fill_header [OF n(2) used(1) m2(2)] by blast
    have "tiles (length (header_bytes K)) (read_spans (pl_reads pl)) (pl_offset pl)"
      using tiled by simp
    from exec_reads [OF ok n(2) reads m3(2) this used(2) body] obtain m4 where
      m4: "exec_block K body m3 = Some m4"
        "filling K drops ?n (header_bytes K @ concat (map (read_value K) (pl_reads pl))) m4"
        "length (header_bytes K @ concat (map (read_value K) (pl_reads pl))) = pl_offset pl"
      by blast
    have image: "frame_bytes (m_stack m4) (event_at ?n) ?n = event_image K pl ?n"
      and rdy: "ready K drops m4"
      using m4(2,3) by (simp_all add: filling_def event_image_def)
    have fds: "distinct [k_fds K 0, k_fds K 1, k_fds K 2]" using ok by (simp add: kernel_ok_def)
    have "run_program K p ?m0 = run K (linked_output (k_fds K) ?n) m4"
      using False m1(2) prog m2(1) m3(1) m4(1) by (simp add: run_block)
    moreover obtain m where "run K (linked_output (k_fds K) ?n) m4 = Some m"
      "m_events m = (if k_ring_free K then [event_image K pl ?n] else [])"
      "m_drops m = (if k_ring_free K then drops else drops + 1)"
      using run_output [OF n(2) rdy fds] unfolding image by blast
    ultimately show ?thesis using False by simp
  qed
qed

section \<open>Properties\<close>

text \<open>
  C2: A generated program does what its layout promises. Run on the machine, with any arguments,
  memory and stack contents, it emits nothing for a filtered process; otherwise it hands the ring
  buffer one event of the announced size holding the time, the process and thread id, each
  requested field in order and zeros behind them; and when the ring refuses the event it adds one
  to the drop counter.
\<close>

theorem generated_program_event:
  assumes "generate depth spec b = Some (Inr p)" and "small_params b"
    and "resolve_function b (ps_function spec) = Inr sig"
    and "kernel_ok (ps_attachment spec) (length (fs_params sig)) K"
  shows "\<exists>pl m. plan_fields depth spec b sig (ps_fields spec) header_plan = Some (Inr pl) \<and>
    run_program K p (start_machine drops stack) = Some m \<and>
    (if tgid_key K \<in> set (k_filter K) then m_events m = [] \<and> m_drops m = drops
     else if k_ring_free K
     then m_events m = [event_image K pl (gp_event_size p)] \<and>
       length (event_image K pl (gp_event_size p)) = gp_event_size p \<and> m_drops m = drops
     else m_events m = [] \<and> m_drops m = drops + 1)"
proof -
  obtain sig' pl body where g: "resolve_function b (ps_function spec) = Inr sig'"
    "plan_fields depth spec b sig' (ps_fields spec) header_plan = Some (Inr pl)"
    "generated_from (ps_attachment spec) (length (fs_params sig')) pl body p"
    "length (fs_params sig') < 4096"
    by (rule generate_Inr [OF assms(1,2)])
  with assms(3) have sig: "sig' = sig" by simp
  note plan = generated_fromD(1) [OF g(3), unfolded sig]
  have n: "pl_offset pl \<le> gp_event_size p"
    using generated_fromD(3) [OF g(3)] align8_bounds [of "pl_offset pl"] by simp
  with plan n have "length (event_image K pl (gp_event_size p)) = gp_event_size p"
    using length_read_values [OF assms(4), of "pl_reads pl" 16 "pl_offset pl"]
    by (simp add: plan_ok_def event_image_def)
  with run_generated [OF g(3) [unfolded sig] assms(4), of drops stack] g(2) sig show ?thesis
    by (auto split: if_splits)
qed


text \<open>The sample probe on a kernel whose ring has room, for a process outside the filter.\<close>

definition sample_kernel :: kernel where
  "sample_kernel = \<lparr>k_pid_tgid = 0x0000002A0000002B, k_time = 5, k_comm = replicate 16 65,
     k_args = [0x1000, 3], k_read = (\<lambda>addr n. replicate n 7), k_filter = [],
     k_fds = (\<lambda>i. of_nat i + 3), k_ring_free = True\<rparr>"

definition sample_sig :: function_signature where
  "sample_sig = \<lparr>fs_name = ''f'', fs_params = [\<lparr>fp_name = ''p'', fp_type_id = 4\<rparr>],
     fs_return_type_id = 1\<rparr>"

lemma sample_signature: "resolve_function sample_btf (ps_function sample_spec) = Inr sample_sig"
  by code_simp

lemma sample_kernel_ok:
  "kernel_ok (ps_attachment sample_spec) (length (fs_params sample_sig)) sample_kernel"
  by (simp add: kernel_ok_def sample_kernel_def sample_spec_def sample_sig_def)

theorem generated_program_event_witness:
  "\<exists>m ev. run_program sample_kernel sample_program (start_machine 0 (\<lambda>_. 1)) = Some m \<and>
     m_events m = [ev] \<and> length ev = 48 \<and> m_drops m = 0"
proof -
  have k: "tgid_key sample_kernel \<notin> set (k_filter sample_kernel)" "k_ring_free sample_kernel"
    by (simp_all add: sample_kernel_def)
  obtain pl m where m: "run_program sample_kernel sample_program (start_machine 0 (\<lambda>_. 1)) = Some m"
    "if tgid_key sample_kernel \<in> set (k_filter sample_kernel)
     then m_events m = [] \<and> m_drops m = 0
     else if k_ring_free sample_kernel
     then m_events m = [event_image sample_kernel pl (gp_event_size sample_program)] \<and>
       length (event_image sample_kernel pl (gp_event_size sample_program)) =
         gp_event_size sample_program \<and> m_drops m = 0
     else m_events m = [] \<and> m_drops m = 0 + 1"
    using generated_program_event [OF sample_generates(1) sample_small sample_signature
        sample_kernel_ok, of 0 "\<lambda>_. 1"] by blast
  with k sample_generates(3) show ?thesis by simp
qed


section \<open>What the loader and the verifier see\<close>

text \<open>
  The map load left by the truncated first filter sequence stays in the program, at instruction
  six, and no relocation names it: its descriptor is zero when the program is loaded.
\<close>

theorem first_map_load_unrelocated:
  assumes "generate depth spec b = Some (Inr p)" and "small_params b"
  shows "gp_instructions p ! 6 = hd (ld_map_fd R1) \<and> 6 \<notin> fst ` set (gp_relocations p)"
proof -
  obtain sig pl body where "resolve_function b (ps_function spec) = Inr sig"
    "plan_fields depth spec b sig (ps_fields spec) header_plan = Some (Inr pl)"
    and g: "generated_from (ps_attachment spec) (length (fs_params sig)) pl body p"
    and "length (fs_params sig) < 4096"
    by (rule generate_Inr [OF assms])
  let ?pre = "filter_block @ zero_event (gp_event_size p) @ fill_header (gp_event_size p) @ body"
  have p: "gp_instructions p = ?pre @ output_block (gp_event_size p)"
    "gp_relocations p = [(10, 0), (length ?pre, 1), (length ?pre + 9, 2)]"
    using g unfolding generated_from_def Let_def by blast+
  have "gp_instructions p ! 6 = filter_block ! 6"
    by (simp add: p(1) nth_append filter_block_length)
  then have "gp_instructions p ! 6 = hd (ld_map_fd R1)"
    by (simp add: filter_block_def ld_map_fd_def)
  moreover have "6 \<notin> fst ` set (gp_relocations p)"
    unfolding p(2) by (simp add: filter_block_length)
  ultimately show ?thesis by simp
qed

text \<open>
  The event sits right below the four-byte key, so the eight-byte stores that zero it are four
  bytes off their alignment.
\<close>

theorem event_stores_misaligned:
  assumes "8 dvd n" and "0 < n" and "n + 4 \<le> 512"
  shows "hd (zero_event n) = st_dw R10 (to_i16 (event_base_off n)) 0 \<and>
    sint (to_i16 (event_base_off n)) mod 8 = 4"
proof -
  have "0 < n div 8" using assms(1,2) by (auto simp: dvd_def)
  then have "hd (zero_event n) = st_dw R10 (to_i16 (event_base_off n)) 0"
    by (simp add: zero_event_eq [OF assms(1)] upt_conv_Cons)
  moreover obtain k where "n = 8 * k" using assms(1) by (auto simp: dvd_def)
  then have "sint (to_i16 (event_base_off n)) = - 4 - 8 * int k"
    using event_sint [OF assms(3), of 0] by (simp add: event_at_def)
  then have "sint (to_i16 (event_base_off n)) mod 8 = 4" by presburger
  ultimately show ?thesis by simp
qed

end
