(* ===== verification/Codegen_Elf.thy ===== *)
theory Codegen_Elf
  imports Bpf_Machine
begin

text \<open>
  The object file of a generated probe (\<open>jalki-codegen/src/elf.rs\<close>) and the crate's entry points
  (\<open>lib.rs\<close>).  What the source hands to the \<open>object\<close> crate, its sections, symbols and
  relocations, is a record; the crate's checks of a relocation and its writer are parameters.

  The lemmas show what the loader finds: the instructions of the program section, the descriptor
  section of each map, and one relocation for every map the program names, at the byte offset of
  its load and against the symbol of that map.
\<close>

section \<open>Map definitions\<close>

record bpf_map_def =
  md_map_type :: u32
  md_key_size :: u32
  md_value_size :: u32
  md_max_entries :: u32
  md_map_flags :: u32

definition map_type_hash :: u32 where "map_type_hash = 1"
definition map_type_percpu_array :: u32 where "map_type_percpu_array = 6"
definition map_type_ringbuf :: u32 where "map_type_ringbuf = 27"

text \<open>The struct's bytes, as \<open>slice::from_raw_parts\<close> reads them on a little-endian host.\<close>

definition map_def_bytes :: "bpf_map_def \<Rightarrow> u8 list" where
  "map_def_bytes d =
     u32_bytes (md_map_type d) @ u32_bytes (md_key_size d) @ u32_bytes (md_value_size d) @
     u32_bytes (md_max_entries d) @ u32_bytes (md_map_flags d)"

definition pid_filter_map :: bpf_map_def where
  "pid_filter_map = \<lparr>md_map_type = map_type_hash, md_key_size = 4, md_value_size = 1,
     md_max_entries = 64, md_map_flags = 0\<rparr>"

definition ringbuf_map :: "u32 \<Rightarrow> bpf_map_def" where
  "ringbuf_map ringbuf_size = \<lparr>md_map_type = map_type_ringbuf, md_key_size = 0,
     md_value_size = 0, md_max_entries = ringbuf_size, md_map_flags = 0\<rparr>"

definition ringbuf_drops_map :: bpf_map_def where
  "ringbuf_drops_map = \<lparr>md_map_type = map_type_percpu_array, md_key_size = 4, md_value_size = 8,
     md_max_entries = 1, md_map_flags = 0\<rparr>"

section \<open>The object\<close>

datatype section_kind = Data_Section | Text_Section

record elf_section =
  es_name :: string
  es_kind :: section_kind
  es_data :: "u8 list"
  es_align :: nat

record elf_symbol =
  sy_name :: string
  sy_size :: nat
  sy_kind :: section_kind
  sy_section :: nat

record elf_relocation =
  re_offset :: nat
  re_symbol :: nat
  re_addend :: int
  re_type :: u32

record elf_object =
  eo_sections :: "elf_section list"
  eo_symbols :: "elf_symbol list"
  eo_relocations :: "elf_relocation list"

definition empty_object :: elf_object where
  "empty_object = \<lparr>eo_sections = [], eo_symbols = [], eo_relocations = []\<rparr>"

text \<open>\<open>add_section\<close> and \<open>set_section_data\<close>; the new section's id.\<close>

definition add_section ::
  "string \<Rightarrow> section_kind \<Rightarrow> u8 list \<Rightarrow> nat \<Rightarrow> elf_object \<Rightarrow> elf_object \<times> nat" where
  "add_section name kind data align ob =
     (ob\<lparr>eo_sections := eo_sections ob @
        [\<lparr>es_name = name, es_kind = kind, es_data = data, es_align = align\<rparr>]\<rparr>,
      length (eo_sections ob))"

definition add_symbol ::
  "string \<Rightarrow> nat \<Rightarrow> section_kind \<Rightarrow> nat \<Rightarrow> elf_object \<Rightarrow> elf_object \<times> nat" where
  "add_symbol name n kind sec ob =
     (ob\<lparr>eo_symbols := eo_symbols ob @
        [\<lparr>sy_name = name, sy_size = n, sy_kind = kind, sy_section = sec\<rparr>]\<rparr>,
      length (eo_symbols ob))"

text \<open>A map: its section and its symbol.\<close>

definition add_map :: "string \<Rightarrow> bpf_map_def \<Rightarrow> elf_object \<Rightarrow> elf_object \<times> nat" where
  "add_map name d ob =
     (let (ob, sec) = add_section (''maps/'' @ name) Data_Section (map_def_bytes d) 4 ob
      in add_symbol name 20 Data_Section sec ob)"

definition r_bpf_64_64 :: u32 where "r_bpf_64_64 = 1"

definition target_symbol :: "nat \<Rightarrow> nat \<Rightarrow> nat \<Rightarrow> nat \<Rightarrow> codegen_error + nat" where
  "target_symbol pid_filter_sym ringbuf_sym ringbuf_drops_sym map_index =
     (if map_index = map_idx_pid_filter then Inr pid_filter_sym
      else if map_index = map_idx_ringbuf then Inr ringbuf_sym
      else if map_index = map_idx_ringbuf_drops then Inr ringbuf_drops_sym
      else Inl (Elf (''unknown map index '' @ decimal map_index)))"

text \<open>\<open>check\<close> is the crate's own verdict on a relocation: the text of its error, if any.\<close>

fun add_relocations ::
  "(elf_relocation \<Rightarrow> string option) \<Rightarrow> (nat \<Rightarrow> codegen_error + nat) \<Rightarrow> (nat \<times> nat) list \<Rightarrow>
   elf_object \<Rightarrow> codegen_error + elf_object" where
  "add_relocations check target [] ob = Inr ob"
| "add_relocations check target ((insn_offset, map_index) # relocs) ob =
     (case target map_index of
        Inl e \<Rightarrow> Inl e
      | Inr tsym \<Rightarrow>
          (let r = \<lparr>re_offset = insn_offset * 8, re_symbol = tsym, re_addend = 0,
                    re_type = r_bpf_64_64\<rparr>
           in case check r of
                Some e \<Rightarrow> Inl (Elf (''add relocation: '' @ e))
              | None \<Rightarrow> add_relocations check target relocs
                  (ob\<lparr>eo_relocations := eo_relocations ob @ [r]\<rparr>)))"

definition section_name :: "attach_type \<Rightarrow> string \<Rightarrow> string" where
  "section_name att f = (case att of Fentry \<Rightarrow> ''fentry/'' @ f | Fexit \<Rightarrow> ''fexit/'' @ f)"

definition build_object ::
  "(elf_relocation \<Rightarrow> string option) \<Rightarrow> string \<Rightarrow> attach_type \<Rightarrow> bpf_insn list \<Rightarrow> (nat \<times> nat) list \<Rightarrow>
   string \<Rightarrow> u32 \<Rightarrow> codegen_error + elf_object" where
  "build_object check f att insns relocs ringbuf_map_name ringbuf_size =
     (let (ob, pid_filter_sym) = add_map ''PID_FILTER'' pid_filter_map empty_object;
          (ob, ringbuf_sym) = add_map ringbuf_map_name (ringbuf_map ringbuf_size) ob;
          (ob, ringbuf_drops_sym) = add_map (ringbuf_map_name @ ''_DROPS'') ringbuf_drops_map ob;
          (ob, _) = add_section ''license'' Data_Section (as_bytes ''GPL'' @ [0]) 1 ob;
          prog_data = encode insns;
          (ob, prog_section) = add_section (section_name att f) Text_Section prog_data 8 ob;
          (ob, _) = add_symbol (''jalki_codegen_'' @ f) (length prog_data) Text_Section
            prog_section ob
      in add_relocations check (target_symbol pid_filter_sym ringbuf_sym ringbuf_drops_sym)
           relocs ob)"

definition generate_elf ::
  "(elf_relocation \<Rightarrow> string option) \<Rightarrow> (elf_object \<Rightarrow> string + u8 list) \<Rightarrow> string \<Rightarrow> attach_type \<Rightarrow>
   bpf_insn list \<Rightarrow> (nat \<times> nat) list \<Rightarrow> string \<Rightarrow> u32 \<Rightarrow> codegen_error + u8 list" where
  "generate_elf check write f att insns relocs ringbuf_map_name ringbuf_size =
     (case build_object check f att insns relocs ringbuf_map_name ringbuf_size of
        Inl e \<Rightarrow> Inl e
      | Inr ob \<Rightarrow>
          (case write ob of Inl e \<Rightarrow> Inl (Elf (''write ELF: '' @ e)) | Inr out \<Rightarrow> Inr out))"

section \<open>The entry points\<close>

record generated_probe =
  gb_elf_bytes :: "u8 list"
  gb_map_name :: string
  gb_event_size :: nat
  gb_field_layout :: "field_layout list"
  gb_spec :: probe_spec

definition default_ringbuf_size :: u32 where "default_ringbuf_size = 4 * 1024 * 1024"

definition generate_probe ::
  "(elf_relocation \<Rightarrow> string option) \<Rightarrow> (elf_object \<Rightarrow> string + u8 list) \<Rightarrow> nat \<Rightarrow> probe_spec \<Rightarrow>
   btf_data \<Rightarrow> (codegen_error + generated_probe) option" where
  "generate_probe check write depth spec b =
     (case generate depth spec b of
        None \<Rightarrow> None
      | Some (Inl e) \<Rightarrow> Some (Inl e)
      | Some (Inr p) \<Rightarrow>
          (case generate_elf check write (ps_function spec) (ps_attachment spec)
                  (gp_instructions p) (gp_relocations p) (gp_map_name p) default_ringbuf_size of
             Inl e \<Rightarrow> Some (Inl e)
           | Inr elf_bytes \<Rightarrow>
               Some (Inr \<lparr>gb_elf_bytes = elf_bytes, gb_map_name = gp_map_name p,
                 gb_event_size = gp_event_size p, gb_field_layout = gp_field_layout p,
                 gb_spec = spec\<rparr>)))"

definition generate_for_function ::
  "(elf_relocation \<Rightarrow> string option) \<Rightarrow> (elf_object \<Rightarrow> string + u8 list) \<Rightarrow> nat \<Rightarrow> btf_data \<Rightarrow> string \<Rightarrow>
   string \<Rightarrow> string list \<Rightarrow> string \<Rightarrow> (codegen_error + generated_probe) option" where
  "generate_for_function check write depth b f attachment wanted event_type =
     (let spec = (\<lambda>att. \<lparr>ps_function = f, ps_attachment = att, ps_fields = wanted,
            ps_event_type = event_type\<rparr>)
      in if attachment = ''fentry'' then generate_probe check write depth (spec Fentry) b
         else if attachment = ''fexit'' then generate_probe check write depth (spec Fexit) b
         else Some (Inl (Btf_Type (''unknown attachment: '' @ attachment))))"

section \<open>What the loader finds\<close>

text \<open>A loader resolves a relocation to the map whose symbol it names.\<close>

definition loaded_relocations :: "elf_object \<Rightarrow> (nat \<times> string) list" where
  "loaded_relocations ob =
     map (\<lambda>r. (re_offset r div 8, sy_name (eo_symbols ob ! re_symbol r))) (eo_relocations ob)"

definition map_name_of :: "string \<Rightarrow> nat \<Rightarrow> string" where
  "map_name_of ringbuf_map_name i =
     (if i = 0 then ''PID_FILTER'' else if i = 1 then ringbuf_map_name
      else ringbuf_map_name @ ''_DROPS'')"

lemma add_relocations_Inr:
  "add_relocations check target relocs ob = Inr ob' \<Longrightarrow>
   eo_sections ob' = eo_sections ob \<and> eo_symbols ob' = eo_symbols ob \<and>
   (\<exists>rs. eo_relocations ob' = eo_relocations ob @ rs \<and>
     list_all2 (\<lambda>(pos, i) r. re_offset r = pos * 8 \<and> target i = Inr (re_symbol r)) relocs rs)"
proof (induction check target relocs ob rule: add_relocations.induct)
  case (1 check target ob)
  then show ?case by simp
next
  case (2 check target pos i relocs ob)
  let ?r = "\<lambda>tsym. \<lparr>re_offset = pos * 8, re_symbol = tsym, re_addend = 0, re_type = r_bpf_64_64\<rparr>"
  from 2(2) obtain tsym where t: "target i = Inr tsym" "check (?r tsym) = None"
    "add_relocations check target relocs
       (ob\<lparr>eo_relocations := eo_relocations ob @ [?r tsym]\<rparr>) = Inr ob'"
    by (auto simp: Let_def split: sum.splits option.splits)
  from 2(1) [OF t(1) refl t(2,3)] obtain rs where
    "eo_sections ob' = eo_sections ob" "eo_symbols ob' = eo_symbols ob"
    "eo_relocations ob' = eo_relocations ob @ ?r tsym # rs"
    "list_all2 (\<lambda>(pos, i) r. re_offset r = pos * 8 \<and> target i = Inr (re_symbol r)) relocs rs"
    by auto
  then show ?case using t(1) by (intro conjI exI [of _ "?r tsym # rs"]) simp_all
qed

lemma add_relocations_total:
  assumes "\<And>r. check r = None" and "list_all (\<lambda>(pos, i). \<exists>tsym. target i = Inr tsym) relocs"
  shows "\<exists>ob'. add_relocations check target relocs ob = Inr ob'"
  using assms(2)
  by (induction relocs arbitrary: ob) (auto simp: Let_def assms(1))

lemma build_object_Inr:
  assumes "build_object check f att insns relocs name n = Inr ob"
  shows "map es_name (eo_sections ob) =
      [''maps/PID_FILTER'', ''maps/'' @ name, ''maps/'' @ name @ ''_DROPS'', ''license'',
       section_name att f]"
    and "map es_data (eo_sections ob) =
      [map_def_bytes pid_filter_map, map_def_bytes (ringbuf_map n),
       map_def_bytes ringbuf_drops_map, as_bytes ''GPL'' @ [0], encode insns]"
    and "map sy_name (eo_symbols ob) =
      [''PID_FILTER'', name, name @ ''_DROPS'', ''jalki_codegen_'' @ f]"
    and "loaded_relocations ob = map (\<lambda>(pos, i). (pos, map_name_of name i)) relocs"
proof -
  let ?target = "target_symbol 0 1 2"
  obtain ob0 where ob0: "add_relocations check ?target relocs ob0 = Inr ob"
    "map es_name (eo_sections ob0) =
      [''maps/PID_FILTER'', ''maps/'' @ name, ''maps/'' @ name @ ''_DROPS'', ''license'',
       section_name att f]"
    "map es_data (eo_sections ob0) =
      [map_def_bytes pid_filter_map, map_def_bytes (ringbuf_map n),
       map_def_bytes ringbuf_drops_map, as_bytes ''GPL'' @ [0], encode insns]"
    "map sy_name (eo_symbols ob0) =
      [''PID_FILTER'', name, name @ ''_DROPS'', ''jalki_codegen_'' @ f]"
    "eo_relocations ob0 = []"
    using assms
    by (simp add: build_object_def add_map_def add_section_def add_symbol_def empty_object_def
        Let_def numeral_2_eq_2)
  from add_relocations_Inr [OF ob0(1)] obtain rs where
    same: "eo_sections ob = eo_sections ob0" "eo_symbols ob = eo_symbols ob0" and
    rs: "eo_relocations ob = rs"
      "list_all2 (\<lambda>(pos, i) r. re_offset r = pos * 8 \<and> ?target i = Inr (re_symbol r)) relocs rs"
    using ob0(5) by auto
  show "map es_name (eo_sections ob) =
      [''maps/PID_FILTER'', ''maps/'' @ name, ''maps/'' @ name @ ''_DROPS'', ''license'',
       section_name att f]" by (simp only: same ob0)
  show "map es_data (eo_sections ob) =
      [map_def_bytes pid_filter_map, map_def_bytes (ringbuf_map n),
       map_def_bytes ringbuf_drops_map, as_bytes ''GPL'' @ [0], encode insns]"
    by (simp only: same ob0)
  show syms: "map sy_name (eo_symbols ob) =
      [''PID_FILTER'', name, name @ ''_DROPS'', ''jalki_codegen_'' @ f]" by (simp only: same ob0)
  have at: "sy_name (eo_symbols ob ! k) = map sy_name (eo_symbols ob) ! k" if "k < 4" for k
    using arg_cong [OF syms, of length] that by simp
  have "sy_name (eo_symbols ob ! re_symbol r) = map_name_of name i" if "?target i = Inr (re_symbol r)" for i r
    using that
    by (auto simp: target_symbol_def map_idx_pid_filter_def map_idx_ringbuf_def
        map_idx_ringbuf_drops_def map_name_of_def at syms split: if_splits)
  with rs(2) show "loaded_relocations ob = map (\<lambda>(pos, i). (pos, map_name_of name i)) relocs"
    unfolding loaded_relocations_def rs(1)
    by (induction relocs rs rule: list_all2_induct) auto
qed

section \<open>Properties\<close>

text \<open>
  C931. The object of a generated probe is complete: its last section decodes to the generated
  instructions, every relocation sits on a map load and names a map of the object, and they are
  the process filter, the ring buffer and its drop counter in that order.
\<close>

theorem generated_object_complete:
  assumes "generate depth spec b = Some (Inr p)" and "small_params b" and "range check \<subseteq> {None}"
  shows "\<exists>ob. build_object check (ps_function spec) (ps_attachment spec) (gp_instructions p)
      (gp_relocations p) (gp_map_name p) n = Inr ob \<and>
    decode (es_data (last (eo_sections ob))) = gp_instructions p \<and>
    map fst (loaded_relocations ob) = map fst (gp_relocations p) \<and>
    map snd (loaded_relocations ob) =
      [''PID_FILTER'', gp_map_name p, gp_map_name p @ ''_DROPS''] \<and>
    list_all (\<lambda>(pos, i). gp_instructions p ! pos = hd (ld_map_fd R1)) (gp_relocations p)"
proof -
  obtain sig pl body where "resolve_function b (ps_function spec) = Inr sig"
    "plan_fields depth spec b sig (ps_fields spec) header_plan = Some (Inr pl)"
    and g: "generated_from (ps_attachment spec) (length (fs_params sig)) pl body p"
    and "length (fs_params sig) < 4096"
    by (rule generate_Inr [OF assms(1,2)])
  define pre where
    "pre = filter_block @ zero_event (gp_event_size p) @ fill_header (gp_event_size p) @ body"
  have p: "gp_instructions p = pre @ output_block (gp_event_size p)"
    "gp_relocations p = [(10, 0), (length pre, 1), (length pre + 9, 2)]"
    using g unfolding generated_from_def Let_def pre_def by blast+
  have "check r = None" for r using assms(3) by auto
  then have "\<exists>ob. build_object check (ps_function spec) (ps_attachment spec) (gp_instructions p)
      (gp_relocations p) (gp_map_name p) n = Inr ob"
    unfolding build_object_def Let_def add_map_def add_section_def add_symbol_def
    by (auto simp: p(2) empty_object_def target_symbol_def map_idx_pid_filter_def
        map_idx_ringbuf_def map_idx_ringbuf_drops_def intro!: add_relocations_total)
  then obtain ob where ob: "build_object check (ps_function spec) (ps_attachment spec)
      (gp_instructions p) (gp_relocations p) (gp_map_name p) n = Inr ob" ..
  note parts = build_object_Inr [OF ob]
  have ne: "eo_sections ob \<noteq> []" using parts(2) by auto
  have "es_data (last (eo_sections ob)) = last (map es_data (eo_sections ob))"
    by (simp add: last_map ne)
  also have "\<dots> = encode (gp_instructions p)" by (simp only: parts(2)) simp
  finally have c1: "decode (es_data (last (eo_sections ob))) = gp_instructions p"
    by (simp add: decode_encode)
  have c2: "map fst (loaded_relocations ob) = map fst (gp_relocations p)"
    and c3: "map snd (loaded_relocations ob) = [''PID_FILTER'', gp_map_name p, gp_map_name p @ ''_DROPS'']"
    unfolding parts(4) by (simp_all add: p(2) map_name_of_def)
  have "pre ! 10 = hd (ld_map_fd R1)" "10 < length pre"
    by (simp_all add: pre_def nth_append filter_block_length)
      (simp add: filter_block_def ld_map_fd_def)
  then have c4: "list_all (\<lambda>(pos, i). gp_instructions p ! pos = hd (ld_map_fd R1)) (gp_relocations p)"
    by (simp add: p nth_append output_block_def ld_map_fd_def)
  show ?thesis by (rule exI [of _ ob], intro conjI, rule ob, rule c1, rule c2, rule c3, rule c4)
qed

theorem generated_object_complete_witness:
  "\<exists>ob. decode (es_data (last (eo_sections ob))) = gp_instructions sample_program \<and>
     length (loaded_relocations ob) = 3"
proof -
  have "range (\<lambda>r :: elf_relocation. None :: string option) \<subseteq> {None}" by auto
  from generated_object_complete [OF sample_generates(1) sample_small this, of 4096] obtain ob where
    "decode (es_data (last (eo_sections ob))) = gp_instructions sample_program"
    "map snd (loaded_relocations ob) = [''PID_FILTER'', gp_map_name sample_program,
       gp_map_name sample_program @ ''_DROPS'']" by (elim exE conjE) (rule that)
  moreover from arg_cong [OF this(2), of length] have "length (loaded_relocations ob) = 3" by simp
  ultimately show ?thesis by blast
qed

end
