(* ===== verification/Probes.thy ===== *)
theory Probes
  imports Normalize
begin

text \<open>
  The probe interface (\<open>jalki/src/probe.rs\<close>) and the six built-in probes
  (\<open>jalki/src/probes/\<close>): a trait object is a record of what its methods return, and the
  provided methods of the trait are the functions that fill it.
\<close>

section \<open>The interface\<close>

datatype probe_error = Too_Short nat nat | Invalid_Data string

fun of_decode_error :: "decode_error \<Rightarrow> probe_error" where
  "of_decode_error (TooShort expected actual) = Too_Short expected actual"
| "of_decode_error (InvalidData msg) = Invalid_Data msg"

text \<open>\<open>At_Tracepoint program category name\<close>.\<close>

datatype attachment = At_Fentry string | At_Fexit string | At_Tracepoint string string string

fun attachment_hook :: "attachment \<Rightarrow> hook_kind" where
  "attachment_hook (At_Fentry f) = hook_kind.Fentry"
| "attachment_hook (At_Fexit f) = hook_kind.Fexit"
| "attachment_hook (At_Tracepoint p c n) = Tracepoint"

fun attachment_function :: "attachment \<Rightarrow> string" where
  "attachment_function (At_Fentry f) = f"
| "attachment_function (At_Fexit f) = f"
| "attachment_function (At_Tracepoint p c n) = n"

text \<open>
  \<open>probe_to_evidence\<close> takes the identifier and the time the occurrence is made with, which the
  code draws from the random source and the clock.
\<close>

record probe =
  probe_attachments :: "attachment list"
  probe_name :: string
  probe_occurrence_type :: string
  probe_program :: string
  probe_map :: string
  probe_to_evidence :: "ulid \<Rightarrow> int \<Rightarrow> u8 list \<Rightarrow> string \<Rightarrow> probe_error + evidence_record list"
  probe_sample_rate :: real

definition probe_family :: "string \<Rightarrow> string" where
  "probe_family name = (case split_on (CHR ''_'') name of
     [] \<Rightarrow> name | family # rest \<Rightarrow> if family \<noteq> [] then family else name)"

definition metadata_of :: "attachment list \<Rightarrow> string \<Rightarrow> probe_metadata" where
  "metadata_of attachments name =
     (let att = (case attachments of [] \<Rightarrow> None | a # as \<Rightarrow> Some a)
      in \<lparr>pr_probe_id = name, pr_probe_version = ''1'', pr_probe_family = probe_family name,
          pr_hook_kind = (case att of None \<Rightarrow> hook_kind.Fentry | Some a \<Rightarrow> attachment_hook a),
          pr_kernel_function =
            (case att of None \<Rightarrow> ''unknown'' | Some a \<Rightarrow> attachment_function a)\<rparr>)"

text \<open>The provided \<open>to_evidence\<close>, from the probe's \<open>decode_event\<close>.\<close>

definition decoded_evidence ::
  "(u8 list \<Rightarrow> probe_error + kernel_event) \<Rightarrow> probe_metadata \<Rightarrow> ulid \<Rightarrow> int \<Rightarrow> u8 list \<Rightarrow> string \<Rightarrow>
   probe_error + evidence_record list" where
  "decoded_evidence decode_event meta ident now raw cluster =
     (case decode_event raw of
        Inl e \<Rightarrow> Inl e
      | Inr event \<Rightarrow> Inr (normalize ident now meta cluster event))"

definition decoding_with ::
  "(u8 list \<Rightarrow> decode_error + 'e) \<Rightarrow> ('e \<Rightarrow> kernel_event) \<Rightarrow> u8 list \<Rightarrow> probe_error + kernel_event"
  where
  "decoding_with from_bytes con raw =
     (case from_bytes raw of Inl e \<Rightarrow> Inl (of_decode_error e) | Inr ev \<Rightarrow> Inr (con ev))"

definition builtin_probe ::
  "attachment list \<Rightarrow> string \<Rightarrow> string \<Rightarrow> string \<Rightarrow> string \<Rightarrow>
   (u8 list \<Rightarrow> probe_error + kernel_event) \<Rightarrow> probe" where
  "builtin_probe attachments name typ program ring decode_event =
     \<lparr>probe_attachments = attachments, probe_name = name, probe_occurrence_type = typ,
      probe_program = program, probe_map = ring,
      probe_to_evidence = decoded_evidence decode_event (metadata_of attachments name),
      probe_sample_rate = 1\<rparr>"

section \<open>The built-in probes\<close>

definition tcp_connect_probe :: probe where
  "tcp_connect_probe =
     builtin_probe [At_Fexit ''tcp_connect''] ''tcp_connect'' ''kernel.tcp.connect''
       ''jalki_tcp_connect'' ''TCP_CONNECT_EVENTS'' (decoding_with tcp_connect_from_bytes TcpConnect)"

definition tcp_close_probe :: probe where
  "tcp_close_probe =
     builtin_probe [At_Fexit ''tcp_close''] ''tcp_close'' ''kernel.tcp.close''
       ''jalki_tcp_close'' ''TCP_CLOSE_EVENTS'' (decoding_with tcp_close_from_bytes TcpClose)"

definition tcp_retransmit_probe :: probe where
  "tcp_retransmit_probe =
     builtin_probe [At_Fentry ''tcp_retransmit_skb''] ''tcp_retransmit'' ''kernel.tcp.retransmit''
       ''jalki_tcp_retransmit'' ''TCP_RETRANSMIT_EVENTS''
       (decoding_with tcp_retransmit_from_bytes TcpRetransmit)"

definition process_exec_probe :: probe where
  "process_exec_probe =
     builtin_probe [At_Tracepoint ''jalki_process_exec'' ''sched'' ''sched_process_exec'']
       ''process_exec'' ''kernel.process.exec'' ''jalki_process_exec'' ''PROCESS_EXEC_EVENTS''
       (decoding_with process_exec_from_bytes ProcessExec)"

definition file_open_probe :: probe where
  "file_open_probe =
     builtin_probe [At_Fexit ''security_file_open''] ''file_open'' ''kernel.file.open''
       ''jalki_file_open'' ''FILE_OPEN_EVENTS'' (decoding_with file_open_from_bytes FileOpen)"

definition file_open_attempt_probe :: probe where
  "file_open_attempt_probe =
     builtin_probe
       [At_Tracepoint ''jalki_sys_enter_openat'' ''syscalls'' ''sys_enter_openat'',
        At_Tracepoint ''jalki_sys_exit_openat'' ''syscalls'' ''sys_exit_openat'',
        At_Tracepoint ''jalki_sys_enter_openat2'' ''syscalls'' ''sys_enter_openat2'',
        At_Tracepoint ''jalki_sys_exit_openat2'' ''syscalls'' ''sys_exit_openat2'']
       ''file_open_attempt'' ''kernel.file.open_attempt'' ''jalki_sys_exit_openat''
       ''OPEN_ATTEMPT_EVENTS'' (decoding_with file_open_from_bytes FileOpenAttempt)"

definition builtin_probes :: "probe list" where
  "builtin_probes =
     [tcp_connect_probe, tcp_close_probe, tcp_retransmit_probe, process_exec_probe,
      file_open_probe, file_open_attempt_probe]"

lemmas builtin_probe_defs =
  tcp_connect_probe_def tcp_close_probe_def tcp_retransmit_probe_def process_exec_probe_def
  file_open_probe_def file_open_attempt_probe_def builtin_probe_def

section \<open>What a built-in probe yields\<close>

lemma decoded_outcome:
  assumes "\<And>raw. from_bytes raw = map_result of_fields (read_raw layout raw)"
    and "\<And>e. event_type (con e) = tl typ" and "typ \<noteq> []" "hd typ = CHR ''k''"
    and "p = builtin_probe atts name typ program ring (decoding_with from_bytes con)"
  shows "if length raw < struct_size layout
    then probe_to_evidence p ident now raw cluster = Inl (Too_Short (struct_size layout) (length raw))
    else \<exists>rec. probe_to_evidence p ident now raw cluster = Inr [rec] \<and>
      occurrence_type (er_occurrence rec) = probe_occurrence_type p \<and>
      er_probe rec = metadata_of (probe_attachments p) (probe_name p)"
  using assms(2-4)
  by (simp add: assms(1,5) builtin_probe_def decoded_evidence_def decoding_with_def read_raw_def
      map_result_def normalize_def to_occurrence_fields) (metis list.collapse)

lemmas from_bytes_defs =
  tcp_connect_from_bytes_def tcp_close_from_bytes_def tcp_retransmit_from_bytes_def
  process_exec_from_bytes_def file_open_from_bytes_def

text \<open>The size of a probe's raw event.\<close>

definition raw_size :: "probe \<Rightarrow> nat" where
  "raw_size p =
     (if probe_name p \<in> {''tcp_connect'', ''tcp_retransmit''} then 96
      else if probe_name p = ''tcp_close'' then 112
      else if probe_name p = ''process_exec'' then 352 else 304)"

lemma builtin_outcome:
  assumes "p \<in> set builtin_probes"
  shows "if length raw < raw_size p
    then probe_to_evidence p ident now raw cluster = Inl (Too_Short (raw_size p) (length raw))
    else \<exists>rec. probe_to_evidence p ident now raw cluster = Inr [rec] \<and>
      occurrence_type (er_occurrence rec) = probe_occurrence_type p \<and>
      er_probe rec = metadata_of (probe_attachments p) (probe_name p)"
proof -
  note outcome = decoded_outcome [where raw = raw and ident = ident and now = now and cluster = cluster]
  note tc = outcome [OF tcp_connect_from_bytes_def _ _ _ tcp_connect_probe_def]
    and tl = outcome [OF tcp_close_from_bytes_def _ _ _ tcp_close_probe_def]
    and tr = outcome [OF tcp_retransmit_from_bytes_def _ _ _ tcp_retransmit_probe_def]
    and pe = outcome [OF process_exec_from_bytes_def _ _ _ process_exec_probe_def]
    and fo = outcome [OF file_open_from_bytes_def _ _ _ file_open_probe_def]
    and fa = outcome [OF file_open_from_bytes_def _ _ _ file_open_attempt_probe_def]
  from assms consider "p = tcp_connect_probe" | "p = tcp_close_probe" | "p = tcp_retransmit_probe"
    | "p = process_exec_probe" | "p = file_open_probe" | "p = file_open_attempt_probe"
    by (auto simp: builtin_probes_def)
  then show ?thesis
  proof cases
    case 1
    then have "raw_size p = 96" by (simp add: raw_size_def builtin_probe_defs)
    with 1 tc show ?thesis by (simp add: event_sizes)
  next
    case 2
    then have "raw_size p = 112" by (simp add: raw_size_def builtin_probe_defs)
    with 2 tl show ?thesis by (simp add: event_sizes)
  next
    case 3
    then have "raw_size p = 96" by (simp add: raw_size_def builtin_probe_defs)
    with 3 tr show ?thesis by (simp add: event_sizes)
  next
    case 4
    then have "raw_size p = 352" by (simp add: raw_size_def builtin_probe_defs)
    with 4 pe show ?thesis by (simp add: event_sizes)
  next
    case 5
    then have "raw_size p = 304" by (simp add: raw_size_def builtin_probe_defs)
    with 5 fo show ?thesis by (simp add: event_sizes)
  next
    case 6
    then have "raw_size p = 304" by (simp add: raw_size_def builtin_probe_defs)
    with 6 fa show ?thesis by (simp add: event_sizes)
  qed
qed

text \<open>
  C1. A built-in probe is total on what the ring buffer hands it: an event shorter than its struct
  is refused with both lengths, and any other becomes exactly one record, of the probe's
  occurrence type and with the probe's metadata.
\<close>

theorem builtin_probe_total:
  assumes "p \<in> set builtin_probes"
  shows "if length raw < raw_size p
    then probe_to_evidence p ident now raw cluster = Inl (Too_Short (raw_size p) (length raw))
    else \<exists>rec. probe_to_evidence p ident now raw cluster = Inr [rec] \<and>
      occurrence_type (er_occurrence rec) = probe_occurrence_type p \<and>
      er_probe rec = metadata_of (probe_attachments p) (probe_name p)"
  by (rule builtin_outcome [OF assms])

theorem builtin_probe_total_witness:
  "probe_to_evidence tcp_close_probe 1 2 (replicate 100 0) ''c'' = Inl (Too_Short 112 100) \<and>
   (\<exists>rec. probe_to_evidence tcp_close_probe 1 2 (replicate 112 0) ''c'' = Inr [rec] \<and>
      occurrence_type (er_occurrence rec) = ''kernel.tcp.close'')"
proof -
  have p: "tcp_close_probe \<in> set builtin_probes" "raw_size tcp_close_probe = 112"
    "probe_occurrence_type tcp_close_probe = ''kernel.tcp.close''"
    by (simp_all add: builtin_probes_def raw_size_def builtin_probe_defs)
  show ?thesis
    using builtin_probe_total [OF p(1), of "replicate 100 0" 1 2 "''c''"]
      builtin_probe_total [OF p(1), of "replicate 112 0" 1 2 "''c''"] p(2,3)
    by auto
qed

end
