(* ===== verification/Generated_Reader.thy ===== *)
theory Generated_Reader
  imports Codegen_Elf Probes
begin

text \<open>
  The reader of generated probes (\<open>jalki/src/probes/generated.rs\<close>): a raw ring-buffer event is taken apart by the layout the
  generator returned.

  The lemmas show that the reader finds every field where the generated program wrote it; the
  property composes the two, from the arguments of the traced kernel function to the record.
\<close>

section \<open>The attachment\<close>

fun attachment_of :: "probe_spec \<Rightarrow> attachment" where
  "attachment_of spec =
     (case ps_attachment spec of
        attach_type.Fentry \<Rightarrow> At_Fentry (ps_function spec)
      | attach_type.Fexit \<Rightarrow> At_Fexit (ps_function spec))"

section \<open>Reading fields\<close>

text \<open>\<open>read_u8\<close> to \<open>read_u64\<close> and \<open>read_i32\<close>: zero when the bytes are not there.\<close>

definition read_uint :: "u8 list \<Rightarrow> nat \<Rightarrow> nat \<Rightarrow> nat" where
  "read_uint raw pos n =
     (if pos + n \<le> length raw then le_nat (take n (drop pos raw)) else 0)"

text \<open>
  \<open>String::from_utf8_lossy\<close>: every maximal prefix of a character that cannot be completed
  becomes U+FFFD.
\<close>

definition replacement :: "u8 list" where
  "replacement = [0xEF, 0xBF, 0xBD]"

definition second_ok :: "u8 \<Rightarrow> u8 \<Rightarrow> bool" where
  "second_ok a b \<longleftrightarrow>
     (if a = 0xE0 then 0xA0 \<le> b \<and> b \<le> 0xBF else if a = 0xED then 0x80 \<le> b \<and> b \<le> 0x9F
      else if a = 0xF0 then 0x90 \<le> b \<and> b \<le> 0xBF else if a = 0xF4 then 0x80 \<le> b \<and> b \<le> 0x8F
      else 0x80 \<le> b \<and> b \<le> 0xBF)"

definition continuations :: "u8 \<Rightarrow> nat" where
  "continuations a =
     (if 0xC2 \<le> a \<and> a \<le> 0xDF then 1 else if 0xE0 \<le> a \<and> a \<le> 0xEF then 2
      else if 0xF0 \<le> a \<and> a \<le> 0xF4 then 3 else 0)"

text \<open>The continuation bytes of a character begun by \<open>a\<close> that are there.\<close>

definition tail_of :: "u8 \<Rightarrow> u8 list \<Rightarrow> u8 list" where
  "tail_of a r =
     (case take (continuations a) r of
        [] \<Rightarrow> []
      | b # bs \<Rightarrow> if second_ok a b then b # takeWhile cont bs else [])"

function from_utf8_lossy :: "u8 list \<Rightarrow> u8 list" where
  "from_utf8_lossy [] = []"
| "from_utf8_lossy (a # r) =
     (if a < 0x80 then a # from_utf8_lossy r
      else let t = tail_of a r; rest = drop (length t) r in
        (if continuations a \<noteq> 0 \<and> length t = continuations a then a # t else replacement) @
        from_utf8_lossy rest)"
  by pat_completeness auto
termination by (relation "measure length") auto

definition read_comm :: "u8 list \<Rightarrow> nat \<Rightarrow> string" where
  "read_comm raw pos =
     (if pos + 16 \<le> length raw
      then of_bytes (from_utf8_lossy (takeWhile (\<lambda>b. b \<noteq> 0) (take 16 (drop pos raw))))
      else [])"

text \<open>\<open>Ipv4Addr::from(u32::from_be(addr)).to_string()\<close>.\<close>

definition show_addr :: "nat \<Rightarrow> string" where
  "show_addr addr = display_v4 (be_bytes 4 (be_nat (le_bytes 4 addr)))"

section \<open>Events to evidence\<close>

record generated_reader =
  gr_spec :: probe_spec
  gr_layout :: "field_layout list"
  gr_event_size :: nat
  gr_map_name :: string
  gr_program_name :: string
  gr_attachments :: "attachment list"

text \<open>The locals the loop over the layout fills.\<close>

record extracted =
  ex_src_ip :: "string option"
  ex_dst_ip :: "string option"
  ex_src_port :: "u16 option"
  ex_dst_port :: "u16 option"
  ex_comm :: "string option"
  ex_ret :: "u32 option"
  ex_entities :: "string list"

fun field_text :: "u8 list \<Rightarrow> nat \<Rightarrow> field_type \<Rightarrow> string" where
  "field_text raw pos FT_U8 = decimal (read_uint raw pos 1)"
| "field_text raw pos FT_U16 = decimal (read_uint raw pos 2)"
| "field_text raw pos FT_U32 = decimal (read_uint raw pos 4)"
| "field_text raw pos FT_U64 = decimal (read_uint raw pos 8)"
| "field_text raw pos FT_I32 = decimal_int (sint (of_nat (read_uint raw pos 4) :: u32))"
| "field_text raw pos FT_I64 = decimal_int (sint (of_nat (read_uint raw pos 8) :: u64))"

definition extract_field :: "u8 list \<Rightarrow> extracted \<Rightarrow> field_layout \<Rightarrow> extracted" where
  "extract_field raw ex f =
     (let name = fl_name f; pos = fl_offset f in
      if name \<in> {''pid'', ''tid'', ''timestamp_ns''} then ex
      else if name = ''comm'' then ex\<lparr>ex_comm := Some (read_comm raw pos)\<rparr>
      else if name = ''ret'' then ex\<lparr>ex_ret := Some (of_nat (read_uint raw pos 4))\<rparr>
      else if contains name ''skc_rcv_saddr'' \<or> contains name ''src_addr''
      then ex\<lparr>ex_src_ip := Some (show_addr (read_uint raw pos 4))\<rparr>
      else if contains name ''skc_daddr'' \<or> contains name ''dst_addr''
      then ex\<lparr>ex_dst_ip := Some (show_addr (read_uint raw pos 4))\<rparr>
      else if contains name ''skc_num'' \<or> contains name ''src_port''
      then ex\<lparr>ex_src_port := Some (of_nat (read_uint raw pos 2))\<rparr>
      else if contains name ''skc_dport'' \<or> contains name ''dst_port''
      then ex\<lparr>ex_dst_port := Some (from_be16 (read_uint raw pos 2))\<rparr>
      else ex\<lparr>ex_entities := ex_entities ex @
             [name @ '':'' @ field_text raw pos (fl_field_type f)]\<rparr>)"

definition extract_fields :: "u8 list \<Rightarrow> string list \<Rightarrow> field_layout list \<Rightarrow> extracted" where
  "extract_fields raw entities layout =
     foldl (extract_field raw)
       \<lparr>ex_src_ip = None, ex_dst_ip = None, ex_src_port = None, ex_dst_port = None, ex_comm = None,
        ex_ret = None, ex_entities = entities\<rparr> layout"

definition or_empty :: "string option \<Rightarrow> string" where
  "or_empty s = (case s of None \<Rightarrow> [] | Some v \<Rightarrow> v)"

definition or_zero :: "u16 option \<Rightarrow> u16" where
  "or_zero p = (case p of None \<Rightarrow> 0 | Some v \<Rightarrow> v)"

definition fill_network :: "extracted \<Rightarrow> occurrence \<Rightarrow> occurrence" where
  "fill_network ex occ =
     (if ex_src_ip ex \<noteq> None \<or> ex_dst_ip ex \<noteq> None then
        let s_ip = or_empty (ex_src_ip ex); d_ip = or_empty (ex_dst_ip ex);
            s_port = or_zero (ex_src_port ex); d_port = or_zero (ex_dst_port ex)
        in occ\<lparr>network_data := Some
                 \<lparr>nd_protocol = ''tcp'', nd_src_ip = s_ip, nd_dst_ip = d_ip, nd_src_port = s_port,
                  nd_dst_port = d_port, nd_direction = ''egress'', nd_dns_query = None,
                  nd_http_method = None, nd_http_path = None, nd_http_status_code = None,
                  nd_latency_ms = None, nd_bytes_sent = None, nd_bytes_received = None,
                  nd_rtt_baseline_ms = None, nd_rtt_current_ms = None, nd_retransmit_count = None\<rparr>,
               correlation_keys :=
                 [s_ip @ '':'' @ show_word s_port @ ''->'' @ d_ip @ '':'' @ show_word d_port]\<rparr>
      else occ)"

definition fill_process :: "u32 \<Rightarrow> extracted \<Rightarrow> occurrence \<Rightarrow> occurrence" where
  "fill_process pid ex occ =
     (case ex_comm ex of
        None \<Rightarrow> occ
      | Some cmd \<Rightarrow> set_process (process_block pid None cmd None None) occ)"

definition fill_outcome :: "extracted \<Rightarrow> occurrence \<Rightarrow> occurrence" where
  "fill_outcome ex occ =
     (case ex_ret ex of
        None \<Rightarrow> occ
      | Some r \<Rightarrow>
          if r = 0 then occ\<lparr>occ_outcome := Some Success\<rparr>
          else occ\<lparr>occ_outcome := Some Failure, occ_severity := Warning\<rparr>)"

definition to_evidence ::
  "ulid \<Rightarrow> int \<Rightarrow> generated_reader \<Rightarrow> u8 list \<Rightarrow> string \<Rightarrow> probe_error + evidence_record list" where
  "to_evidence ident now rd raw cluster =
     (if length raw < gr_event_size rd then Inl (Too_Short (gr_event_size rd) (length raw))
      else
        let pid = of_nat (read_uint raw 8 4);
            occ = new_occurrence ident now (''jalki/'' @ ps_function (gr_spec rd))
                    (ps_event_type (gr_spec rd));
            occ = with_severity Info occ;
            occ = in_cluster cluster occ;
            occ = with_entities [process_entity pid] occ;
            ex = extract_fields raw (entity_ids occ) (gr_layout rd);
            occ = occ\<lparr>entity_ids := ex_entities ex\<rparr>;
            occ = fill_network ex occ;
            occ = fill_process pid ex occ;
            occ = fill_outcome ex occ
        in Inr [\<lparr>observed_at_ns = of_nat (read_uint raw 0 8), er_pid = pid, er_cgroup_id = 0,
                 er_probe = metadata_of (gr_attachments rd) (ps_function (gr_spec rd)),
                 er_occurrence = occ, er_binding = None\<rparr>])"

text \<open>The reader the daemon makes for a generated probe.\<close>

definition reader_of :: "probe_spec \<Rightarrow> generated_program \<Rightarrow> generated_reader" where
  "reader_of spec p =
     \<lparr>gr_spec = spec, gr_layout = gp_field_layout p, gr_event_size = gp_event_size p,
      gr_map_name = gp_map_name p, gr_program_name = ''jalki_codegen_'' @ ps_function spec,
      gr_attachments = [attachment_of spec]\<rparr>"

definition probe_of_reader :: "generated_reader \<Rightarrow> probe" where
  "probe_of_reader rd =
     \<lparr>probe_attachments = gr_attachments rd, probe_name = ps_function (gr_spec rd),
      probe_occurrence_type = ps_event_type (gr_spec rd), probe_program = gr_program_name rd,
      probe_map = gr_map_name rd,
      probe_to_evidence = (\<lambda>ident now raw cluster. to_evidence ident now rd raw cluster),
      probe_sample_rate = 1\<rparr>"

section \<open>Where the fields are\<close>

lemma read_slice:
  assumes "kernel_ok att cnt K"
  shows "list_all (read_ok att cnt) rs \<Longrightarrow> tiles (length pre) (read_spans rs) used \<Longrightarrow> r \<in> set rs \<Longrightarrow>
    take (read_size r) (drop (read_pos r) (pre @ concat (map (read_value K) rs) @ pad)) =
      read_value K r \<and>
    read_pos r + read_size r \<le> length (pre @ concat (map (read_value K) rs) @ pad)"
proof (induction rs arbitrary: pre)
  case Nil
  then show ?case by simp
next
  case (Cons q rs)
  have len: "length (read_value K q) = read_size q"
    using length_read_value [OF assms, of q] Cons.prems(1) by simp
  have t: "read_pos q = length pre" "tiles (length pre + read_size q) (read_spans rs) used"
    using Cons.prems(2) by (simp_all add: read_spans_def)
  show ?case
  proof (cases "r = q")
    case True
    then show ?thesis using t(1) len by simp
  next
    case False
    with Cons.prems Cons.IH [of "pre @ read_value K q"] t(2) len show ?thesis by simp
  qed
qed

lemma read_header:
  assumes "header_bytes K @ rest = raw"
  shows "(of_nat (read_uint raw 0 8) :: u64) = k_time K"
    and "(of_nat (read_uint raw 8 4) :: u32) = ucast (drop_bit 32 (k_pid_tgid K))"
proof -
  have "unat (k_time K) < 256 ^ 8" using unsigned_less [where 'a = nat, of "k_time K"] by simp
  then have "le_nat (le_bytes 8 (unat (k_time K))) = unat (k_time K)" by (simp add: le_nat_le_bytes)
  then show "(of_nat (read_uint raw 0 8) :: u64) = k_time K"
    by (simp add: assms [symmetric] read_uint_def header_bytes_def)
  have "unat (drop_bit 32 (k_pid_tgid K)) < 256 ^ 4"
    using unsigned_less [where 'a = nat, of "k_pid_tgid K"]
    by (simp add: unat_drop_bit_eq drop_bit_nat_def less_mult_imp_div_less)
  then have "le_nat (le_bytes 4 (unat (drop_bit 32 (k_pid_tgid K)))) = unat (drop_bit 32 (k_pid_tgid K))"
    by (simp add: le_nat_le_bytes)
  then show "(of_nat (read_uint raw 8 4) :: u32) = ucast (drop_bit 32 (k_pid_tgid K))"
    by (simp add: assms [symmetric] read_uint_def header_bytes_def tgid_key_def)
qed

text \<open>The layout entries and the reads they were planned with.\<close>

definition entry_of :: "nat \<Rightarrow> field_layout \<Rightarrow> field_read \<Rightarrow> bool" where
  "entry_of n f r \<longleftrightarrow>
     (fl_name f = ''comm'' \<longrightarrow> r = Comm (fl_offset f)) \<and>
     (fl_name f = ''ret'' \<longrightarrow> r = Return_Value (fl_offset f) (of_nat n))"

definition planned :: "nat \<Rightarrow> plan \<Rightarrow> bool" where
  "planned n pl \<longleftrightarrow> (\<exists>fs. pl_layout pl = pl_layout header_plan @ fs \<and>
     list_all2 (entry_of n) fs (pl_reads pl))"

lemma planned_push:
  "planned n pl \<Longrightarrow>
   entry_of n \<lparr>fl_name = name, fl_offset = pl_offset pl, fl_size = k, fl_field_type = ft\<rparr>
     (mk_read (pl_offset pl)) \<Longrightarrow> planned n (plan_push name k ft mk_read pl)"
  unfolding planned_def plan_push_def by (auto intro: list_all2_appendI)

definition requested :: "string list \<Rightarrow> string list" where
  "requested fs = filter (\<lambda>f. f \<notin> {''pid'', ''tid'', ''timestamp_ns''}) fs"

lemma plan_param_pushes:
  "plan_param depth spec b sig other pl = Some (Inr pl') \<Longrightarrow>
   \<exists>k ft mk_read. pl' = plan_push other k ft mk_read pl"
  by (auto simp: plan_param_def Let_def split: prod.splits option.splits pointee_kind.splits
      sum.splits)

lemma plan_field_planned:
  assumes "plan_field depth spec b sig f pl = Some (Inr pl')" and "planned (length (fs_params sig)) pl"
  shows "planned (length (fs_params sig)) pl' \<and>
    map fl_name (pl_layout pl') = map fl_name (pl_layout pl) @ requested [f]"
proof -
  consider "f \<in> {''pid'', ''tid'', ''timestamp_ns''}" | "f = ''comm''" | "f = ''ret''"
    | "f \<notin> {''pid'', ''tid'', ''timestamp_ns'', ''comm'', ''ret''}" by blast
  then show ?thesis
  proof cases
    case 1
    with assms show ?thesis by (auto simp: plan_field_def requested_def)
  next
    case 2
    with assms(1) have "pl' = plan_push ''comm'' 16 FT_U8 Comm pl" by (simp add: plan_field_def)
    with 2 assms(2) show ?thesis
      by (simp add: planned_push entry_of_def) (simp add: plan_push_def requested_def)
  next
    case 3
    with assms(1) have
      "pl' = plan_push ''ret'' 4 FT_I32 (\<lambda>pos. Return_Value pos (of_nat (length (fs_params sig)))) pl"
      by (auto simp: plan_field_def split: if_splits)
    with 3 assms(2) show ?thesis
      by (simp add: planned_push entry_of_def) (simp add: plan_push_def requested_def)
  next
    case 4
    with assms(1) have "plan_param depth spec b sig f pl = Some (Inr pl')"
      by (simp add: plan_field_def)
    from plan_param_pushes [OF this] obtain k ft mk_read where
      "pl' = plan_push f k ft mk_read pl" by auto
    with 4 assms(2) show ?thesis
      by (simp add: planned_push entry_of_def) (simp add: plan_push_def requested_def)
  qed
qed

lemma plan_fields_planned:
  "plan_fields depth spec b sig fs pl = Some (Inr pl') \<Longrightarrow> planned (length (fs_params sig)) pl \<Longrightarrow>
   planned (length (fs_params sig)) pl' \<and>
   map fl_name (pl_layout pl') = map fl_name (pl_layout pl) @ requested fs"
proof (induction fs arbitrary: pl)
  case Nil
  then show ?case by (simp add: requested_def)
next
  case (Cons f fs)
  then obtain pl1 where "plan_field depth spec b sig f pl = Some (Inr pl1)"
    "plan_fields depth spec b sig fs pl1 = Some (Inr pl')"
    by (auto split: option.splits sum.splits)
  with plan_field_planned [OF _ Cons.prems(2)] Cons.IH [of pl1] show ?case
    by (simp add: requested_def)
qed

section \<open>What the loop extracts\<close>

lemma extract_comm:
  "ex_comm (extract_field raw ex f) =
   (if fl_name f = ''comm'' then Some (read_comm raw (fl_offset f)) else ex_comm ex)"
  by (simp add: extract_field_def Let_def)

lemma extract_ret:
  "ex_ret (extract_field raw ex f) =
   (if fl_name f = ''ret'' then Some (of_nat (read_uint raw (fl_offset f) 4)) else ex_ret ex)"
  by (simp add: extract_field_def Let_def)

lemma extract_all:
  "\<forall>f \<in> set fs. fl_name f = ''comm'' \<longrightarrow> read_comm raw (fl_offset f) = c \<Longrightarrow>
   ex_comm (foldl (extract_field raw) ex fs) =
     (if ''comm'' \<in> fl_name ` set fs then Some c else ex_comm ex)"
  "\<forall>f \<in> set fs. fl_name f = ''ret'' \<longrightarrow> of_nat (read_uint raw (fl_offset f) 4) = v \<Longrightarrow>
   ex_ret (foldl (extract_field raw) ex fs) =
     (if ''ret'' \<in> fl_name ` set fs then Some v else ex_ret ex)"
proof -
  show "\<forall>f \<in> set fs. fl_name f = ''comm'' \<longrightarrow> read_comm raw (fl_offset f) = c \<Longrightarrow>
      ex_comm (foldl (extract_field raw) ex fs) =
      (if ''comm'' \<in> fl_name ` set fs then Some c else ex_comm ex)"
    by (induction fs arbitrary: ex) (auto simp: extract_comm)
  show "\<forall>f \<in> set fs. fl_name f = ''ret'' \<longrightarrow> of_nat (read_uint raw (fl_offset f) 4) = v \<Longrightarrow>
      ex_ret (foldl (extract_field raw) ex fs) =
      (if ''ret'' \<in> fl_name ` set fs then Some v else ex_ret ex)"
    by (induction fs arbitrary: ex) (auto simp: extract_ret)
qed

lemma extract_header:
  "extract_fields raw entities (pl_layout header_plan @ fs) = extract_fields raw entities fs"
  by (simp add: extract_fields_def header_plan_def extract_field_def)

lemma evidence_fields:
  assumes "gr_event_size rd \<le> length raw"
  shows "\<exists>rec. to_evidence ident now rd raw cluster = Inr [rec] \<and>
    observed_at_ns rec = of_nat (read_uint raw 0 8) \<and> er_pid rec = of_nat (read_uint raw 8 4) \<and>
    (let ex = extract_fields raw [process_entity (er_pid rec)] (gr_layout rd) in
      process_data (er_occurrence rec) =
        map_option (\<lambda>cmd. process_block (er_pid rec) None cmd None None) (ex_comm ex) \<and>
      occ_outcome (er_occurrence rec) =
        map_option (\<lambda>r. if r = 0 then Success else Failure) (ex_ret ex))"
  using assms
  by (simp add: to_evidence_def Let_def fill_network_def fill_process_def fill_outcome_def
      set_process_def new_occurrence_def with_severity_def in_cluster_def with_entities_def
      split: option.splits)

section \<open>The fields of an emitted event\<close>

lemma read_in_event:
  assumes ok: "kernel_ok att cnt K" and plan: "plan_ok att cnt pl" and r: "r \<in> set (pl_reads pl)"
  shows "take (read_size r) (drop (read_pos r) (event_image K pl n)) = read_value K r"
    and "read_pos r + read_size r \<le> length (event_image K pl n)"
proof -
  have "list_all (read_ok att cnt) (pl_reads pl)"
    "tiles (length (header_bytes K)) (read_spans (pl_reads pl)) (pl_offset pl)"
    using plan by (simp_all add: plan_ok_def)
  from read_slice [OF ok this r] show
    "take (read_size r) (drop (read_pos r) (event_image K pl n)) = read_value K r"
    "read_pos r + read_size r \<le> length (event_image K pl n)"
    unfolding event_image_def by (rule conjunct1, rule conjunct2)
qed

lemma comm_in_event:
  assumes "kernel_ok att cnt K" "plan_ok att cnt pl" "r \<in> set (pl_reads pl)"
    and "entry_of cnt f r" "fl_name f = ''comm''"
  shows "read_comm (event_image K pl n) (fl_offset f) =
    of_bytes (from_utf8_lossy (takeWhile (\<lambda>c. c \<noteq> 0) (k_comm K)))"
  using read_in_event [OF assms(1-3), of n] assms(4,5) by (simp add: read_comm_def entry_of_def)

lemma ret_in_event:
  assumes "kernel_ok att cnt K" "plan_ok att cnt pl" "r \<in> set (pl_reads pl)" "cnt < 4096"
    and "entry_of cnt f r" "fl_name f = ''ret''"
  shows "(of_nat (read_uint (event_image K pl n) (fl_offset f) 4) :: u32) = ucast (k_args K ! cnt)"
proof -
  have "read_uint (event_image K pl n) (fl_offset f) 4 = le_nat (le_bytes 4 (unat (k_args K ! cnt)))"
    using read_in_event [OF assms(1-3), of n] assms(4-6)
    by (simp add: read_uint_def entry_of_def unat_of_nat)
  then show ?thesis
    by (simp add: le_nat_le_bytes word_unat_eq_iff unat_of_nat unsigned_ucast_eq
        unsigned_take_bit_eq take_bit_nat_def)
qed

text \<open>What the loop extracts from the event of a planned layout.\<close>

lemma extracted_from_event:
  assumes "kernel_ok att cnt K" "plan_ok att cnt pl" "planned cnt pl" "cnt < 4096"
    and names: "map fl_name (pl_layout pl) = map fl_name (pl_layout header_plan) @ requested fs"
  shows "ex_comm (extract_fields (event_image K pl n) es (pl_layout pl)) =
      (if ''comm'' \<in> set fs
       then Some (of_bytes (from_utf8_lossy (takeWhile (\<lambda>c. c \<noteq> 0) (k_comm K)))) else None)"
    and "ex_ret (extract_fields (event_image K pl n) es (pl_layout pl)) =
      (if ''ret'' \<in> set fs then Some (ucast (k_args K ! cnt)) else None)"
proof -
  from assms(3) obtain ls where ls: "pl_layout pl = pl_layout header_plan @ ls"
    "list_all2 (entry_of cnt) ls (pl_reads pl)"
    by (auto simp: planned_def)
  have "fl_name ` set ls = set (requested fs)"
    using names by (simp add: ls(1) flip: set_map)
  then have fields: "''comm'' \<in> fl_name ` set ls \<longleftrightarrow> ''comm'' \<in> set fs"
    "''ret'' \<in> fl_name ` set ls \<longleftrightarrow> ''ret'' \<in> set fs"
    by (auto simp: requested_def)
  have entry: "\<exists>r \<in> set (pl_reads pl). entry_of cnt f r" if "f \<in> set ls" for f
    using ls(2) that by (metis in_set_conv_nth list_all2_conv_all_nth nth_mem)
  have "\<forall>f \<in> set ls. fl_name f = ''comm'' \<longrightarrow> read_comm (event_image K pl n) (fl_offset f) =
      of_bytes (from_utf8_lossy (takeWhile (\<lambda>c. c \<noteq> 0) (k_comm K)))"
    using entry comm_in_event [OF assms(1,2)] by metis
  from extract_all(1) [OF this] show "ex_comm (extract_fields (event_image K pl n) es (pl_layout pl)) =
      (if ''comm'' \<in> set fs
       then Some (of_bytes (from_utf8_lossy (takeWhile (\<lambda>c. c \<noteq> 0) (k_comm K)))) else None)"
    by (simp add: ls(1) extract_header fields) (simp add: extract_fields_def)
  have "\<forall>f \<in> set ls. fl_name f = ''ret'' \<longrightarrow>
      (of_nat (read_uint (event_image K pl n) (fl_offset f) 4) :: u32) = ucast (k_args K ! cnt)"
    using entry ret_in_event [OF assms(1,2) _ assms(4)] by metis
  from extract_all(2) [OF this] show "ex_ret (extract_fields (event_image K pl n) es (pl_layout pl)) =
      (if ''ret'' \<in> set fs then Some (ucast (k_args K ! cnt)) else None)"
    by (simp add: ls(1) extract_header fields) (simp add: extract_fields_def)
qed

lemma event_image_size:
  assumes "kernel_ok att cnt K" "plan_ok att cnt pl"
  shows "align8 (pl_offset pl) \<le> length (event_image K pl (align8 (pl_offset pl)))"
proof -
  have "16 + length (concat (map (read_value K) (pl_reads pl))) = pl_offset pl"
    using assms(2) by (intro length_read_values [OF assms(1)]) (simp_all add: plan_ok_def)
  then show ?thesis
    using align8_bounds [of "pl_offset pl"] by (simp add: event_image_def)
qed

section \<open>Properties\<close>

text \<open>
  C5: From the kernel function to the record. For a process outside the filter and a ring with
  room, the event a generated program emits is decoded by its reader into one record with the time
  and process of the call; with \<open>comm\<close> requested the record names the command, and with
  \<open>ret\<close> requested its outcome is success exactly when the low word of the return value is
  zero.
\<close>

theorem generated_probe_end_to_end:
  assumes gen: "generate depth spec b = Some (Inr p)" "small_params b"
    and sig: "resolve_function b (ps_function spec) = Inr sig"
    and ok: "kernel_ok (ps_attachment spec) (length (fs_params sig)) K"
    and emits: "tgid_key K \<notin> set (k_filter K)" "k_ring_free K"
  shows "\<exists>m ev rec. run_program K p (start_machine drops stack) = Some m \<and> m_events m = [ev] \<and>
    to_evidence ident now (reader_of spec p) ev cluster = Inr [rec] \<and>
    observed_at_ns rec = k_time K \<and> er_pid rec = ucast (drop_bit 32 (k_pid_tgid K)) \<and>
    process_data (er_occurrence rec) =
      (if ''comm'' \<in> set (ps_fields spec)
       then Some (process_block (er_pid rec) None
         (of_bytes (from_utf8_lossy (takeWhile (\<lambda>c. c \<noteq> 0) (k_comm K)))) None None)
       else None) \<and>
    occ_outcome (er_occurrence rec) =
      (if ''ret'' \<in> set (ps_fields spec)
       then Some (if (ucast (k_args K ! length (fs_params sig)) :: u32) = 0 then Success else Failure)
       else None)"
proof -
  let ?n = "length (fs_params sig)"
  obtain sig' pl body where g': "resolve_function b (ps_function spec) = Inr sig'"
    "plan_fields depth spec b sig' (ps_fields spec) header_plan = Some (Inr pl)"
    "generated_from (ps_attachment spec) (length (fs_params sig')) pl body p"
    "length (fs_params sig') < 4096"
    by (rule generate_Inr [OF gen])
  with sig have sig': "sig' = sig" by simp
  note pf = g'(2) [unfolded sig'] and g = g'(3) [unfolded sig'] and small = g'(4) [unfolded sig']
  have "planned ?n header_plan" by (simp add: planned_def header_plan_def)
  note planned = plan_fields_planned [OF pf this]
  note plan = generated_fromD(1) [OF g] and size = generated_fromD(3) [OF g]
  define ev where "ev = event_image K pl (gp_event_size p)"
  obtain m where m: "run_program K p (start_machine drops stack) = Some m" "m_events m = [ev]"
    using run_generated [OF g ok, of drops stack] emits by (auto simp: ev_def)
  have layout: "gr_layout (reader_of spec p) = pl_layout pl"
    using generated_fromD(2) [OF g] by (simp add: reader_of_def)
  have "gr_event_size (reader_of spec p) \<le> length ev"
    using event_image_size [OF ok plan] by (simp add: ev_def reader_of_def size)
  from evidence_fields [OF this, of ident now cluster] obtain rec where
    rec: "to_evidence ident now (reader_of spec p) ev cluster = Inr [rec]"
    "observed_at_ns rec = of_nat (read_uint ev 0 8)" "er_pid rec = of_nat (read_uint ev 8 4)"
    "let ex = extract_fields ev [process_entity (er_pid rec)] (gr_layout (reader_of spec p)) in
      process_data (er_occurrence rec) =
        map_option (\<lambda>cmd. process_block (er_pid rec) None cmd None None) (ex_comm ex) \<and>
      occ_outcome (er_occurrence rec) =
        map_option (\<lambda>r. if r = 0 then Success else Failure) (ex_ret ex)"
    by (elim exE conjE) (rule that)
  note ex = extracted_from_event [OF ok plan planned [THEN conjunct1] small
      planned [THEN conjunct2], of "gp_event_size p", folded ev_def]
  obtain rest where "header_bytes K @ rest = ev" by (simp add: ev_def event_image_def)
  note header = read_header [OF this]
  from rec(4) [unfolded layout ex Let_def] have
    "process_data (er_occurrence rec) =
      (if ''comm'' \<in> set (ps_fields spec)
       then Some (process_block (er_pid rec) None
         (of_bytes (from_utf8_lossy (takeWhile (\<lambda>c. c \<noteq> 0) (k_comm K)))) None None)
       else None)"
    "occ_outcome (er_occurrence rec) =
      (if ''ret'' \<in> set (ps_fields spec)
       then Some (if (ucast (k_args K ! ?n) :: u32) = 0 then Success else Failure) else None)"
    by simp_all
  with m rec(1,2,3) header show ?thesis by (intro exI conjI) simp_all
qed

theorem generated_probe_end_to_end_witness:
  "\<exists>ev rec. to_evidence 1 2 (reader_of sample_spec sample_program) ev ''c'' = Inr [rec] \<and>
     observed_at_ns rec = 5 \<and> er_pid rec = 42 \<and> occ_outcome (er_occurrence rec) = Some Failure"
proof -
  have k: "tgid_key sample_kernel \<notin> set (k_filter sample_kernel)" "k_ring_free sample_kernel"
    by (simp_all add: sample_kernel_def)
  obtain m ev rec where "run_program sample_kernel sample_program (start_machine 0 (\<lambda>_. 0)) = Some m"
    "m_events m = [ev]"
    "to_evidence 1 2 (reader_of sample_spec sample_program) ev ''c'' = Inr [rec]"
    "observed_at_ns rec = k_time sample_kernel"
    "er_pid rec = ucast (drop_bit 32 (k_pid_tgid sample_kernel))"
    "occ_outcome (er_occurrence rec) = (if ''ret'' \<in> set (ps_fields sample_spec)
       then Some (if (ucast (k_args sample_kernel ! length (fs_params sample_sig)) :: u32) = 0
         then Success else Failure)
       else None)"
    using generated_probe_end_to_end [OF sample_generates(1) sample_small sample_signature
        sample_kernel_ok k, of 0 "\<lambda>_. 0" 1 2 "''c''"]
    by (elim exE conjE) (rule that)
  then show ?thesis
    by (intro exI conjI) (auto simp: sample_kernel_def sample_spec_def sample_sig_def)
qed

end
