(* ===== verification/Event_Store.thy ===== *)
theory Event_Store
  imports Occurrence
begin

text \<open>
  The store of recent occurrences (\<open>jalki/src/store.rs\<close>) that \<open>jalki watch\<close>, the IPC
  queries and the MCP tools read: one ring buffer per probe, written in place once it is full.

  A ring buffer is shown to refine the list of everything pushed, cut to the last
  \<open>capacity\<close>; a query is the first \<open>limit\<close> matches of that list, oldest first.  The clock and
  \<open>chrono\<close>'s subtraction are one parameter, \<open>cutoff\<close>, with \<open>None\<close> for its panic on a
  duration out of range.  The order of the hash map's values is the order of the list that stands
  for it.
\<close>

section \<open>Ring buffers\<close>

record 'a probe_buffer =
  pb_capacity :: nat
  pb_events :: "'a list"
  pb_head :: nat
  pb_count :: nat

definition new_buffer :: "nat \<Rightarrow> 'a probe_buffer" where
  "new_buffer capacity = \<lparr>pb_capacity = capacity, pb_events = [], pb_head = 0, pb_count = 0\<rparr>"

text \<open>\<open>None\<close> is the panic of an index out of range, or of the remainder by zero.\<close>

definition buffer_push :: "'a probe_buffer \<Rightarrow> 'a \<Rightarrow> 'a probe_buffer option" where
  "buffer_push b occ =
     (if length (pb_events b) < pb_capacity b
      then Some (b\<lparr>pb_events := pb_events b @ [occ], pb_count := pb_count b + 1\<rparr>)
      else if pb_head b < length (pb_events b) \<and> pb_capacity b \<noteq> 0
      then Some (b\<lparr>pb_events := (pb_events b)[pb_head b := occ],
                  pb_head := (pb_head b + 1) mod pb_capacity b, pb_count := pb_count b + 1\<rparr>)
      else None)"

definition buffer_iter :: "'a probe_buffer \<Rightarrow> 'a list" where
  "buffer_iter b =
     (let cap = length (pb_events b);
          start = (if cap \<le> pb_count b then pb_head b else 0)
      in map (\<lambda>i. pb_events b ! ((start + i) mod cap)) [0..<cap])"

section \<open>Filters\<close>

record event_filter =
  ef_last_seconds :: "u64 option"
  ef_src_ip :: "string option"
  ef_dst_ip :: "string option"
  ef_src_port :: "u16 option"
  ef_dst_port :: "u16 option"
  ef_pid :: "u32 option"
  ef_command :: "string option"
  ef_limit :: "nat option"

definition no_filter :: event_filter where
  "no_filter = \<lparr>ef_last_seconds = None, ef_src_ip = None, ef_dst_ip = None, ef_src_port = None,
     ef_dst_port = None, ef_pid = None, ef_command = None, ef_limit = None\<rparr>"

text \<open>One wanted value against one payload block: no block, no match.\<close>

definition field_matches :: "'v option \<Rightarrow> 'b option \<Rightarrow> ('b \<Rightarrow> 'v) \<Rightarrow> bool" where
  "field_matches wanted blk sel =
     (case wanted of
        None \<Rightarrow> True
      | Some v \<Rightarrow> (case blk of None \<Rightarrow> False | Some d \<Rightarrow> sel d = v))"

definition limit_of :: "event_filter \<Rightarrow> nat" where
  "limit_of f = (case ef_limit f of None \<Rightarrow> 100 | Some n \<Rightarrow> n)"

definition fields_match :: "event_filter \<Rightarrow> occurrence \<Rightarrow> bool" where
  "fields_match f occ \<longleftrightarrow>
     field_matches (ef_src_ip f) (network_data occ) nd_src_ip \<and>
     field_matches (ef_dst_ip f) (network_data occ) nd_dst_ip \<and>
     field_matches (ef_src_port f) (network_data occ) nd_src_port \<and>
     field_matches (ef_dst_port f) (network_data occ) nd_dst_port \<and>
     field_matches (ef_pid f) (process_data occ) pd_pid \<and>
     field_matches (ef_command f) (process_data occ) pd_command"

definition event_matches :: "(u64 \<Rightarrow> int option) \<Rightarrow> event_filter \<Rightarrow> occurrence \<Rightarrow> bool option" where
  "event_matches cutoff f occ =
     (case ef_last_seconds f of
        None \<Rightarrow> Some (fields_match f occ)
      | Some secs \<Rightarrow>
          (case cutoff secs of
             None \<Rightarrow> None
           | Some c \<Rightarrow> Some (if occ_timestamp occ < c then False else fields_match f occ)))"

text \<open>The lazy \<open>filter\<close> and \<open>take\<close>: nothing is examined once the limit is reached.\<close>

fun take_matching :: "(occurrence \<Rightarrow> bool option) \<Rightarrow> nat \<Rightarrow> occurrence list \<Rightarrow> occurrence list option" where
  "take_matching p 0 occs = Some []"
| "take_matching p (Suc n) [] = Some []"
| "take_matching p (Suc n) (occ # occs) =
     (case p occ of
        None \<Rightarrow> None
      | Some True \<Rightarrow> map_option ((#) occ) (take_matching p n occs)
      | Some False \<Rightarrow> take_matching p (Suc n) occs)"

definition filter_events ::
  "(u64 \<Rightarrow> int option) \<Rightarrow> occurrence list \<Rightarrow> event_filter \<Rightarrow> occurrence list option" where
  "filter_events cutoff events f = take_matching (event_matches cutoff f) (limit_of f) events"

section \<open>The store\<close>

record event_store =
  es_capacity :: nat
  es_buffers :: "(string \<times> occurrence probe_buffer) list"

definition new_store :: "nat \<Rightarrow> event_store" where
  "new_store capacity = \<lparr>es_capacity = capacity, es_buffers = []\<rparr>"

fun push_into ::
  "nat \<Rightarrow> string \<Rightarrow> occurrence \<Rightarrow> (string \<times> occurrence probe_buffer) list \<Rightarrow>
   (string \<times> occurrence probe_buffer) list option" where
  "push_into capacity name occ [] =
     map_option (\<lambda>b. [(name, b)]) (buffer_push (new_buffer capacity) occ)"
| "push_into capacity name occ ((n, b) # bs) =
     (if n = name then map_option (\<lambda>b'. (n, b') # bs) (buffer_push b occ)
      else map_option ((#) (n, b)) (push_into capacity name occ bs))"

definition store_push :: "string \<Rightarrow> occurrence \<Rightarrow> event_store \<Rightarrow> event_store option" where
  "store_push name occ st =
     map_option (\<lambda>bs. st\<lparr>es_buffers := bs\<rparr>) (push_into (es_capacity st) name occ (es_buffers st))"

definition query :: "(u64 \<Rightarrow> int option) \<Rightarrow> event_store \<Rightarrow> string \<Rightarrow> event_filter \<Rightarrow> occurrence list option" where
  "query cutoff st name f =
     (case map_of (es_buffers st) name of
        None \<Rightarrow> Some []
      | Some b \<Rightarrow> filter_events cutoff (buffer_iter b) f)"

fun gather ::
  "(u64 \<Rightarrow> int option) \<Rightarrow> event_filter \<Rightarrow> (string \<times> occurrence probe_buffer) list \<Rightarrow>
   occurrence list option" where
  "gather cutoff f [] = Some []"
| "gather cutoff f ((n, b) # bs) =
     (case filter_events cutoff (buffer_iter b) f of
        None \<Rightarrow> None
      | Some occs \<Rightarrow> map_option ((@) occs) (gather cutoff f bs))"

text \<open>The stable sort by timestamp, most recent first.\<close>

definition query_all :: "(u64 \<Rightarrow> int option) \<Rightarrow> event_store \<Rightarrow> event_filter \<Rightarrow> occurrence list option" where
  "query_all cutoff st f =
     map_option (\<lambda>occs. take (limit_of f) (sort_key (\<lambda>occ. - occ_timestamp occ) occs))
       (gather cutoff f (es_buffers st))"

text \<open>\<open>Ulid::to_string\<close>: 26 digits of Crockford's base 32, most significant first.\<close>

definition crockford :: string where
  "crockford = ''0123456789ABCDEFGHJKMNPQRSTVWXYZ''"

definition ulid_string :: "ulid \<Rightarrow> string" where
  "ulid_string w = map (\<lambda>i. crockford ! (unat w div 32 ^ (25 - i) mod 32)) [0..<26]"

text \<open>Byte-wise comparison of strings.\<close>

fun string_le :: "string \<Rightarrow> string \<Rightarrow> bool" where
  "string_le [] t = True"
| "string_le (c # s) [] = False"
| "string_le (c # s) (d # t) =
     ((of_char c :: nat) < of_char d \<or> c = d \<and> string_le s t)"

definition after_seen :: "string option \<Rightarrow> occurrence \<Rightarrow> bool" where
  "after_seen last_seen occ =
     (case last_seen of None \<Rightarrow> True | Some s \<Rightarrow> \<not> string_le (ulid_string (occ_id occ)) s)"

definition query_since ::
  "(u64 \<Rightarrow> int option) \<Rightarrow> event_store \<Rightarrow> string \<Rightarrow> string option \<Rightarrow> event_filter \<Rightarrow>
   occurrence list option" where
  "query_since cutoff st name last_seen f =
     (case map_of (es_buffers st) name of
        None \<Rightarrow> Some []
      | Some b \<Rightarrow> filter_events cutoff (filter (after_seen last_seen) (buffer_iter b)) f)"

definition probe_names :: "event_store \<Rightarrow> string list" where
  "probe_names st = map fst (es_buffers st)"

section \<open>A ring buffer holds the last events\<close>

text \<open>The last \<open>n\<close> elements of a list.\<close>

definition last_of :: "nat \<Rightarrow> 'a list \<Rightarrow> 'a list" where
  "last_of n xs = drop (length xs - n) xs"

lemma length_last_of [simp]: "length (last_of n xs) = min n (length xs)"
  by (simp add: last_of_def)

lemma last_of_snoc: "0 < n \<Longrightarrow> last_of n (xs @ [x]) = (if length xs < n then xs @ [x] else tl (last_of n xs) @ [x])"
  by (auto simp: last_of_def tl_drop drop_Suc [symmetric] Suc_diff_le)

definition holds :: "'a list \<Rightarrow> 'a probe_buffer \<Rightarrow> bool" where
  "holds xs b \<longleftrightarrow>
     0 < pb_capacity b \<and> length (pb_events b) \<le> pb_capacity b \<and>
     (length (pb_events b) < pb_capacity b \<longrightarrow> pb_head b = 0) \<and>
     pb_head b < pb_capacity b \<and> pb_count b = length xs \<and>
     rotate (pb_head b) (pb_events b) = last_of (pb_capacity b) xs"

lemma iter_rotate: "pb_head b \<le> length (pb_events b) \<Longrightarrow> length (pb_events b) \<le> pb_count b \<Longrightarrow>
  buffer_iter b = rotate (pb_head b) (pb_events b)"
  by (rule nth_equalityI) (simp_all add: buffer_iter_def Let_def nth_rotate add.commute)

lemma rotate_update:
  assumes "h < length xs"
  shows "rotate (Suc h) (xs[h := x]) = tl (rotate h xs) @ [x]"
proof -
  have "rotate h (xs[h := x]) = x # tl (rotate h xs)"
    using assms by (simp add: rotate_drop_take drop_update_cancel) (simp add: Cons_nth_drop_Suc [symmetric]
        upd_conv_take_nth_drop)
  then show ?thesis by (simp add: rotate_Suc)
qed

lemma holds_new: "0 < n \<Longrightarrow> holds [] (new_buffer n)"
  by (simp add: holds_def new_buffer_def last_of_def)

lemma holds_push:
  assumes "holds xs b"
  shows "\<exists>b'. buffer_push b x = Some b' \<and> pb_capacity b' = pb_capacity b \<and> holds (xs @ [x]) b'"
proof -
  let ?n = "pb_capacity b" and ?es = "pb_events b" and ?h = "pb_head b"
  have n: "0 < ?n" and le: "length ?es \<le> ?n" and h: "?h < ?n"
    and z: "length ?es < ?n \<Longrightarrow> ?h = 0" and c: "pb_count b = length xs"
    and r: "rotate ?h ?es = last_of ?n xs"
    using assms by (auto simp: holds_def)
  have l: "length ?es = min ?n (length xs)"
    using arg_cong [OF r, of length] by simp
  show ?thesis
  proof (cases "length ?es < ?n")
    case True
    then have "?es = xs" using r z l by (simp add: last_of_def)
    with True n c h z [OF True] show ?thesis
      by (auto simp: buffer_push_def holds_def last_of_def)
  next
    case False
    then have full: "length ?es = ?n" "?n \<le> length xs" using le l by auto
    have "rotate (Suc ?h mod ?n) (?es[?h := x]) = rotate (Suc ?h) (?es[?h := x])"
      using full by (metis length_list_update rotate_conv_mod)
    also have "\<dots> = last_of ?n (xs @ [x])"
      using full h r n by (simp add: rotate_update last_of_snoc del: rotate_Suc)
    finally have "rotate (Suc ?h mod ?n) (?es[?h := x]) = last_of ?n (xs @ [x])" .
    then show ?thesis
      using False full n c h by (simp add: buffer_push_def holds_def)
  qed
qed

lemma holds_iter:
  assumes "holds xs b"
  shows "buffer_iter b = last_of (pb_capacity b) xs"
proof -
  from assms have r: "rotate (pb_head b) (pb_events b) = last_of (pb_capacity b) xs"
    by (simp add: holds_def)
  have "length (pb_events b) = min (pb_capacity b) (length xs)"
    using arg_cong [OF r, of length] by simp
  with assms have "pb_head b \<le> length (pb_events b)" "length (pb_events b) \<le> pb_count b"
    by (auto simp: holds_def)
  with r show ?thesis by (simp add: iter_rotate)
qed

text \<open>What has been pushed under a name, in order.\<close>

definition pushed_as :: "string \<Rightarrow> (string \<times> occurrence) list \<Rightarrow> occurrence list" where
  "pushed_as name h = map snd (filter (\<lambda>e. fst e = name) h)"

definition store_holds :: "(string \<times> occurrence) list \<Rightarrow> event_store \<Rightarrow> bool" where
  "store_holds h st \<longleftrightarrow>
     0 < es_capacity st \<and> distinct (probe_names st) \<and> set (probe_names st) = fst ` set h \<and>
     (\<forall>(name, b) \<in> set (es_buffers st).
        pb_capacity b = es_capacity st \<and> holds (pushed_as name h) b)"

fun push_all :: "(string \<times> occurrence) list \<Rightarrow> event_store \<Rightarrow> event_store option" where
  "push_all [] st = Some st"
| "push_all ((name, occ) # h) st =
     (case store_push name occ st of None \<Rightarrow> None | Some st' \<Rightarrow> push_all h st')"

lemma pushed_as_simps [simp]:
  "pushed_as name [] = []"
  "pushed_as name (h @ [(n, occ)]) =
     (if n = name then pushed_as name h @ [occ] else pushed_as name h)"
  by (simp_all add: pushed_as_def)

lemma pushed_as_none: "name \<notin> fst ` set h \<Longrightarrow> pushed_as name h = []"
  by (induction h) (auto simp: pushed_as_def)

lemma push_into_holds:
  assumes "0 < c" "distinct (map fst bs)"
    and "\<forall>(n, b) \<in> set bs. pb_capacity b = c \<and> holds (pushed_as n h) b"
    and "name \<notin> fst ` set bs \<Longrightarrow> pushed_as name h = []"
  shows "\<exists>bs'. push_into c name occ bs = Some bs' \<and> distinct (map fst bs') \<and>
           fst ` set bs' = insert name (fst ` set bs) \<and>
           (\<forall>(n, b) \<in> set bs'. pb_capacity b = c \<and> holds (pushed_as n (h @ [(name, occ)])) b)"
  using assms
proof (induction bs)
  case Nil
  then have "holds (pushed_as name h) (new_buffer c)" by (simp add: holds_new)
  from holds_push [OF this, of occ] obtain b' where
    "buffer_push (new_buffer c) occ = Some b'" "pb_capacity b' = c" "holds (pushed_as name h @ [occ]) b'"
    by (auto simp: new_buffer_def)
  then show ?case by simp
next
  case (Cons a bs)
  obtain n b where a: "a = (n, b)" by (cases a)
  show ?case
  proof (cases "n = name")
    case True
    from Cons.prems a True have "pb_capacity b = c" "holds (pushed_as name h) b" by auto
    with holds_push [of "pushed_as name h" b occ] obtain b' where b':
      "buffer_push b occ = Some b'" "pb_capacity b' = c" "holds (pushed_as name h @ [occ]) b'" by auto
    have "\<forall>(m, d) \<in> set bs. m \<noteq> name" using Cons.prems a True by (force simp: image_iff)
    with Cons.prems b' a True show ?thesis by auto
  next
    case False
    with Cons.IH Cons.prems a obtain bs' where
      "push_into c name occ bs = Some bs'" "distinct (map fst bs')"
      "fst ` set bs' = insert name (fst ` set bs)"
      "\<forall>(n, b) \<in> set bs'. pb_capacity b = c \<and> holds (pushed_as n (h @ [(name, occ)])) b" by auto
    with Cons.prems a False show ?thesis by auto
  qed
qed

lemma store_push_holds:
  assumes "store_holds h st"
  shows "\<exists>st'. store_push name occ st = Some st' \<and> es_capacity st' = es_capacity st \<and>
           store_holds (h @ [(name, occ)]) st'"
proof -
  have "name \<notin> fst ` set (es_buffers st) \<Longrightarrow> pushed_as name h = []"
    using assms by (intro pushed_as_none) (simp add: store_holds_def probe_names_def)
  with assms push_into_holds [of "es_capacity st" "es_buffers st" h name occ] obtain bs' where
    "push_into (es_capacity st) name occ (es_buffers st) = Some bs'" "distinct (map fst bs')"
    "fst ` set bs' = insert name (fst ` set (es_buffers st))"
    "\<forall>(n, b) \<in> set bs'. pb_capacity b = es_capacity st \<and> holds (pushed_as n (h @ [(name, occ)])) b"
    by (auto simp: store_holds_def probe_names_def)
  with assms show ?thesis
    by (auto simp: store_push_def store_holds_def probe_names_def)
qed

lemma push_all_holds:
  "store_holds h st \<Longrightarrow>
   \<exists>st'. push_all h' st = Some st' \<and> es_capacity st' = es_capacity st \<and> store_holds (h @ h') st'"
proof (induction h' arbitrary: h st)
  case Nil
  then show ?case by simp
next
  case (Cons e h')
  obtain name occ where e: "e = (name, occ)" by (cases e)
  from store_push_holds [OF Cons.prems, of name occ] obtain st1 where
    1: "store_push name occ st = Some st1" "es_capacity st1 = es_capacity st"
      "store_holds (h @ [(name, occ)]) st1" by blast
  with Cons.IH [of "h @ [(name, occ)]" st1] show ?case by (auto simp: e)
qed

lemma store_holds_new: "0 < c \<Longrightarrow> store_holds [] (new_store c)"
  by (simp add: store_holds_def new_store_def probe_names_def)

lemma store_holds_iter:
  assumes "store_holds h st"
  shows "case map_of (es_buffers st) name of
      None \<Rightarrow> pushed_as name h = []
    | Some b \<Rightarrow> buffer_iter b = last_of (es_capacity st) (pushed_as name h)"
proof (cases "map_of (es_buffers st) name")
  case None
  then have "name \<notin> fst ` set (es_buffers st)" by (simp add: map_of_eq_None_iff)
  with assms show ?thesis by (simp add: None store_holds_def probe_names_def pushed_as_none)
next
  case (Some b)
  then have "(name, b) \<in> set (es_buffers st)" by (rule map_of_SomeD)
  with assms have "pb_capacity b = es_capacity st" "holds (pushed_as name h) b"
    by (auto simp: store_holds_def)
  with Some show ?thesis by (simp add: holds_iter)
qed

section \<open>Queries\<close>

lemma take_matching_eq:
  "\<forall>occ \<in> set occs. p occ = Some (q occ) \<Longrightarrow> take_matching p n occs = Some (take n (filter q occs))"
  by (induction p n occs rule: take_matching.induct) auto

text \<open>The filter as a predicate, where the cutoff is in range.\<close>

definition wanted :: "(u64 \<Rightarrow> int option) \<Rightarrow> event_filter \<Rightarrow> occurrence \<Rightarrow> bool" where
  "wanted cutoff f occ \<longleftrightarrow>
     (\<forall>secs c. ef_last_seconds f = Some secs \<longrightarrow> cutoff secs = Some c \<longrightarrow> c \<le> occ_timestamp occ) \<and>
     fields_match f occ"

definition cutoff_ok :: "(u64 \<Rightarrow> int option) \<Rightarrow> event_filter \<Rightarrow> bool" where
  "cutoff_ok cutoff f \<longleftrightarrow> (case ef_last_seconds f of None \<Rightarrow> True | Some secs \<Rightarrow> cutoff secs \<noteq> None)"

lemma event_matches_wanted:
  "cutoff_ok cutoff f \<Longrightarrow> event_matches cutoff f occ = Some (wanted cutoff f occ)"
  by (auto simp: cutoff_ok_def event_matches_def wanted_def split: option.splits)

lemma filter_events_eq:
  "cutoff_ok cutoff f \<Longrightarrow>
   filter_events cutoff occs f = Some (take (limit_of f) (filter (wanted cutoff f) occs))"
  unfolding filter_events_def by (rule take_matching_eq) (simp add: event_matches_wanted)

lemma query_eq:
  assumes "store_holds h st" "cutoff_ok cutoff f"
  shows "query cutoff st name f =
    Some (take (limit_of f) (filter (wanted cutoff f) (last_of (es_capacity st) (pushed_as name h))))"
  using store_holds_iter [OF assms(1), of name]
  by (auto simp: query_def filter_events_eq [OF assms(2)] last_of_def split: option.splits)

lemma query_since_eq:
  assumes "store_holds h st" "cutoff_ok cutoff f"
  shows "query_since cutoff st name seen f =
    Some (take (limit_of f) (filter (\<lambda>occ. after_seen seen occ \<and> wanted cutoff f occ)
      (last_of (es_capacity st) (pushed_as name h))))"
  using store_holds_iter [OF assms(1), of name]
  by (auto simp: query_since_def filter_events_eq [OF assms(2)] last_of_def conj_commute
      split: option.splits)

section \<open>The order of ULIDs\<close>

definition base32 :: "nat \<Rightarrow> nat \<Rightarrow> string" where
  "base32 k n = map (\<lambda>i. crockford ! (n div 32 ^ (k - 1 - i) mod 32)) [0..<k]"

lemma digit_mod: "n mod (d * (32 * e)) div d mod 32 = n div d mod (32::nat)"
  by (cases "d = 0") (simp_all add: mod_mult2_eq mod_mod_cancel)

lemma base32_Suc: "base32 (Suc k) n = crockford ! (n div 32 ^ k mod 32) # base32 k (n mod 32 ^ k)"
proof -
  have "n mod 32 ^ k div 32 ^ (k - Suc i) mod 32 = n div 32 ^ (k - Suc i) mod 32"
    if "i < k" for i
  proof -
    have "(32::nat) ^ k = 32 ^ (k - Suc i) * (32 * 32 ^ i)"
      using that by (simp add: power_add [symmetric] flip: power_Suc)
    then show ?thesis using digit_mod [of n "32 ^ (k - Suc i)" "32 ^ i"] by simp
  qed
  then show ?thesis
    by (simp add: base32_def upt_conv_Cons map_Suc_upt [symmetric] del: upt_Suc)
qed

lemma ulid_base32: "ulid_string w = base32 26 (unat w)"
  by (simp add: ulid_string_def base32_def)

lemma crockford_sorted: "sorted_wrt (<) (map (of_char :: char \<Rightarrow> nat) crockford) \<and> length crockford = 32"
  by code_simp

lemma crockford_less:
  assumes "i < 32" "j < 32"
  shows "(of_char (crockford ! i) :: nat) < of_char (crockford ! j) \<longleftrightarrow> i < j"
    and "crockford ! i = crockford ! j \<longleftrightarrow> i = j"
proof -
  have lt: "i < j \<Longrightarrow> j < 32 \<Longrightarrow> (of_char (crockford ! i) :: nat) < of_char (crockford ! j)" for i j
    using sorted_wrt_nth_less [of "(<)" "map (of_char :: char \<Rightarrow> nat) crockford" i j] crockford_sorted
    by simp
  show "(of_char (crockford ! i) :: nat) < of_char (crockford ! j) \<longleftrightarrow> i < j"
    using lt [of i j] lt [of j i] assms by (cases i j rule: linorder_cases) auto
  show "crockford ! i = crockford ! j \<longleftrightarrow> i = j"
    using lt [of i j] lt [of j i] assms by (cases i j rule: linorder_cases) auto
qed

lemma base32_le:
  "m < 32 ^ k \<Longrightarrow> n < 32 ^ k \<Longrightarrow> string_le (base32 k m) (base32 k n) \<longleftrightarrow> m \<le> n"
proof (induction k arbitrary: m n)
  case 0
  then show ?case by (simp add: base32_def)
next
  case (Suc k)
  let ?b = "32 ^ k :: nat"
  have d: "m div ?b < 32" "n div ?b < 32"
    using Suc.prems by (simp_all add: less_mult_imp_div_less mult.commute)
  have "string_le (base32 (Suc k) m) (base32 (Suc k) n) \<longleftrightarrow>
      m div ?b < n div ?b \<or> m div ?b = n div ?b \<and> m mod ?b \<le> n mod ?b"
    using d Suc.IH [of "m mod ?b" "n mod ?b"] by (simp add: base32_Suc crockford_less)
  also have "\<dots> \<longleftrightarrow> m \<le> n"
  proof (cases "m div ?b" "n div ?b" rule: linorder_cases)
    case less
    then have "\<not> n \<le> m" using div_le_mono [of n m ?b] by auto
    with less show ?thesis by auto
  next
    case equal
    have "m = ?b * (m div ?b) + m mod ?b" "n = ?b * (n div ?b) + n mod ?b" by simp_all
    with equal show ?thesis by (metis add_le_cancel_left order_less_irrefl)
  next
    case greater
    then have "\<not> m \<le> n" using div_le_mono [of m n ?b] by auto
    with greater show ?thesis by auto
  qed
  finally show ?case .
qed

lemma ulid_string_le: "string_le (ulid_string v) (ulid_string w) \<longleftrightarrow> v \<le> w"
proof -
  have "unat (u :: ulid) < 32 ^ 26" for u
    by (rule order.strict_trans2 [OF unsigned_less]) simp
  then show ?thesis by (simp add: ulid_base32 base32_le word_le_nat_alt)
qed

lemma after_seen_ulid: "after_seen (Some (ulid_string w)) occ \<longleftrightarrow> w < occ_id occ"
  by (simp add: after_seen_def ulid_string_le not_le)

text \<open>
  C1. The store refines the history of what was pushed.  Pushing never fails for a positive
  capacity, and afterwards a query on a probe returns, oldest first, the first \<open>limit\<close>
  occurrences that the filter accepts among the last \<open>capacity\<close> pushed for that probe; asked for
  those since an identifier, it returns the first \<open>limit\<close> of them whose identifier is greater.
\<close>

theorem store_refines_history:
  assumes "0 < capacity" "cutoff_ok cutoff f"
  shows "\<exists>st. push_all h (new_store capacity) = Some st \<and>
    query cutoff st name f =
      Some (take (limit_of f) (filter (wanted cutoff f) (last_of capacity (pushed_as name h)))) \<and>
    query_since cutoff st name (Some (ulid_string w)) f =
      Some (take (limit_of f) (filter (\<lambda>occ. w < occ_id occ \<and> wanted cutoff f occ)
        (last_of capacity (pushed_as name h))))"
proof -
  from push_all_holds [OF store_holds_new [OF assms(1)], of h] obtain st where
    st: "push_all h (new_store capacity) = Some st" "es_capacity st = capacity" "store_holds h st"
    by (auto simp: new_store_def)
  then show ?thesis
    using query_eq [OF st(3) assms(2), of name] query_since_eq [OF st(3) assms(2), of name]
    by (simp add: after_seen_ulid)
qed

text \<open>One accepted occurrence in a store that keeps one, for the witness.\<close>

definition sample_occurrence :: "ulid \<Rightarrow> int \<Rightarrow> occurrence" where
  "sample_occurrence w ts = (new_occurrence w ts ''jalki/tcp'' ''kernel.tcp.connect'')"

theorem store_refines_history_witness:
  "\<exists>st. push_all [(''tcp'', sample_occurrence 1 5), (''tcp'', sample_occurrence 2 6),
      (''oom'', sample_occurrence 4 6), (''tcp'', sample_occurrence 3 7)] (new_store 2) = Some st \<and>
    query (\<lambda>_. None) st ''tcp'' (no_filter\<lparr>ef_limit := Some 1\<rparr>) = Some [sample_occurrence 2 6] \<and>
    query_since (\<lambda>_. None) st ''tcp'' (Some (ulid_string 2)) (no_filter\<lparr>ef_limit := Some 1\<rparr>) =
      Some [sample_occurrence 3 7]"
proof -
  have "0 < (2::nat)" "cutoff_ok (\<lambda>_. None) (no_filter\<lparr>ef_limit := Some 1\<rparr>)"
    by (simp_all add: cutoff_ok_def no_filter_def)
  from store_refines_history [OF this, of "[(''tcp'', sample_occurrence 1 5),
      (''tcp'', sample_occurrence 2 6), (''oom'', sample_occurrence 4 6),
      (''tcp'', sample_occurrence 3 7)]" "''tcp''" 2]
  show ?thesis
    by (simp add: last_of_def pushed_as_def wanted_def no_filter_def fields_match_def
        field_matches_def limit_of_def sample_occurrence_def new_occurrence_def)
qed

text \<open>
  \<open>query_all\<close> sorts "most recent first" only what the per-probe queries, which keep the oldest
  matches, have left: with more matches than the limit it drops the most recent ones.
\<close>

lemma query_all_keeps_oldest:
  "Option.bind (push_all [(''tcp'', sample_occurrence 1 5), (''tcp'', sample_occurrence 2 6),
      (''tcp'', sample_occurrence 3 7)] (new_store 3))
     (\<lambda>st. query_all (\<lambda>_. None) st (no_filter\<lparr>ef_limit := Some 1\<rparr>)) =
   Some [sample_occurrence 1 5]"
  by code_simp

end
