(* ===== verification/Probe_Reader.thy ===== *)
theory Probe_Reader
  imports Probes Event_Store Sensitive_Paths Sink_Queue
begin

text \<open>
  The ring-buffer reader of one probe (\<open>jalki/src/reader.rs\<close>): each turn drains at most
  \<open>MAX_DRAIN_ITEMS\<close> raw events, samples them, has the probe decode them, gates the records on
  the sensitive paths, binds them, stores a copy and offers them to the sink queue as one
  message.

  What a turn does is compared with a specification by list functions: the records of the sampled
  events, in order, without those the gate refuses.  The ring buffer is the list of raw events that
  \<open>ring_buf.next()\<close> yields in the turn; the clock, the per-CPU drop counters and the runtime
  enricher are parameters.
\<close>

definition max_drain_items :: nat where
  "max_drain_items = 1024"

section \<open>Statistics\<close>

record drop_observation =
  do_total :: u64
  do_started :: u64
  do_polled :: u64

record probe_stats =
  events_emitted :: u64
  events_dropped :: u64
  events_sampled_out :: u64
  parse_errors :: u64
  drop_obs :: drop_observation

definition new_stats :: probe_stats where
  "new_stats =
     \<lparr>events_emitted = 0, events_dropped = 0, events_sampled_out = 0, parse_errors = 0,
      drop_obs = \<lparr>do_total = 0, do_started = 0, do_polled = 0\<rparr>\<rparr>"

definition start_drop_tracking :: "u64 \<Rightarrow> probe_stats \<Rightarrow> probe_stats" where
  "start_drop_tracking at_ns st =
     st\<lparr>drop_obs := (drop_obs st)\<lparr>do_started := at_ns, do_polled := at_ns\<rparr>\<rparr>"

definition record_drop_poll :: "u64 \<Rightarrow> u64 \<Rightarrow> probe_stats \<Rightarrow> u64 \<times> probe_stats" where
  "record_drop_poll drops at_ns st =
     (let new_drops = drops - do_total (drop_obs st)
      in (new_drops,
          st\<lparr>drop_obs := (drop_obs st)\<lparr>do_total := drops, do_polled := at_ns\<rparr>,
             events_dropped := drops\<rparr>))"

definition drop_observation_of :: "probe_stats \<Rightarrow> u64 \<times> u64 \<times> u64" where
  "drop_observation_of st =
     (do_total (drop_obs st), do_started (drop_obs st), do_polled (drop_obs st))"

section \<open>Sampling\<close>

text \<open>
  \<open>(1.0 / rate).round() as u64\<close>: halves round away from zero, and the cast saturates, at zero
  for negative rates and at the top for a rate of zero.  The division is exact here.
\<close>

definition sample_every :: "real \<Rightarrow> u64" where
  "sample_every rate =
     (if rate < 1 then
        (if rate = 0 then - 1
         else if rate < 0 then 0
         else let n = \<lfloor>1 / rate + 1 / 2\<rfloor> in if 2 ^ 64 \<le> n then - 1 else of_int n)
      else 1)"

definition is_multiple_of :: "u64 \<Rightarrow> u64 \<Rightarrow> bool" where
  "is_multiple_of n k = (if k = 0 then n = 0 else n mod k = 0)"

section \<open>The gate\<close>

definition record_matches_sensitive_paths ::
  "evidence_record \<Rightarrow> sensitive_path_matcher \<Rightarrow> bool" where
  "record_matches_sensitive_paths r m =
     (let occ = er_occurrence r;
          gate = (\<lambda>key. case label occ key of None \<Rightarrow> False | Some path \<Rightarrow> is_match m path)
      in if occurrence_type occ = ''kernel.file.open'' then gate ''resource_ref_id''
         else if occurrence_type occ = ''kernel.file.open_attempt'' then
           (if label occ ''path_truncated'' = Some ''true'' then True else gate ''requested_path'')
         else True)"

section \<open>Taking records in\<close>

text \<open>The enricher is a trait object: \<open>'e\<close> is its state and \<open>bind\<close> its \<open>bind_record\<close>.\<close>

record 'e intake =
  ik_probe_name :: string
  ik_stats :: probe_stats
  ik_events_total :: u64
  ik_store :: event_store
  ik_enricher :: 'e
  ik_matcher :: sensitive_path_matcher

definition new_intake ::
  "string \<Rightarrow> probe_stats \<Rightarrow> u64 \<Rightarrow> event_store \<Rightarrow> 'e \<Rightarrow> sensitive_path_matcher \<Rightarrow> 'e intake" where
  "new_intake name st counter store enricher m =
     \<lparr>ik_probe_name = name, ik_stats = st, ik_events_total = counter, ik_store = store,
      ik_enricher = enricher, ik_matcher = m\<rparr>"

definition count_sampled_out :: "'e intake \<Rightarrow> 'e intake" where
  "count_sampled_out ik =
     ik\<lparr>ik_stats := (ik_stats ik)\<lparr>events_sampled_out := events_sampled_out (ik_stats ik) + 1\<rparr>\<rparr>"

definition count_parse_error :: "'e intake \<Rightarrow> 'e intake" where
  "count_parse_error ik =
     ik\<lparr>ik_stats := (ik_stats ik)\<lparr>parse_errors := parse_errors (ik_stats ik) + 1\<rparr>\<rparr>"

definition count_emitted :: "u64 \<Rightarrow> 'e intake \<Rightarrow> 'e intake" where
  "count_emitted n ik =
     ik\<lparr>ik_stats := (ik_stats ik)\<lparr>events_emitted := events_emitted (ik_stats ik) + n\<rparr>,
        ik_events_total := ik_events_total ik + n\<rparr>"

text \<open>The loop over the records of one event; \<open>None\<close> is a panic of the store.\<close>

fun admit_records ::
  "(evidence_record \<Rightarrow> 'e \<Rightarrow> evidence_record \<times> 'e) \<Rightarrow> evidence_record list \<Rightarrow>
   u64 \<Rightarrow> 'e intake \<Rightarrow> evidence_record list \<Rightarrow> (u64 \<times> 'e intake \<times> evidence_record list) option"
  where
  "admit_records bind [] emitted ik out = Some (emitted, ik, out)"
| "admit_records bind (r # rs) emitted ik out =
     (if \<not> record_matches_sensitive_paths r (ik_matcher ik)
      then admit_records bind rs emitted (count_sampled_out ik) out
      else
        (case bind r (ik_enricher ik) of
           (r', e') \<Rightarrow>
             (case store_push (ik_probe_name ik) (er_occurrence r') (ik_store ik) of
                None \<Rightarrow> None
              | Some store' \<Rightarrow>
                  admit_records bind rs (emitted + 1)
                    (ik\<lparr>ik_enricher := e', ik_store := store'\<rparr>) (out @ [r']))))"

definition admit_evidence ::
  "(evidence_record \<Rightarrow> 'e \<Rightarrow> evidence_record \<times> 'e) \<Rightarrow> evidence_record list \<Rightarrow> 'e intake \<Rightarrow>
   evidence_record list \<Rightarrow> ('e intake \<times> evidence_record list) option" where
  "admit_evidence bind rs ik out =
     (case admit_records bind rs 0 ik out of
        None \<Rightarrow> None
      | Some (emitted, ik', out') \<Rightarrow>
          Some (if 0 < emitted then count_emitted emitted ik' else ik', out'))"

section \<open>Draining\<close>

text \<open>A raw event, with the identifier and time its occurrence will be made with.\<close>

type_synonym raw_event = "ulid \<times> int \<times> u8 list"

record 'e reader =
  rd_probe :: probe
  rd_cluster :: string
  rd_counter :: u64
  rd_intake :: "'e intake"
  rd_drop_metric :: u64
  rd_stop :: bool

definition do_sampling :: "probe \<Rightarrow> bool" where
  "do_sampling p = (probe_sample_rate p < 1)"

definition drain_item ::
  "(evidence_record \<Rightarrow> 'e \<Rightarrow> evidence_record \<times> 'e) \<Rightarrow> raw_event \<Rightarrow>
   'e reader \<times> evidence_record list \<Rightarrow> ('e reader \<times> evidence_record list) option" where
  "drain_item bind item s =
     (case (item, s) of
        ((ident, now, raw), (rd, records)) \<Rightarrow>
          (let sampling = do_sampling (rd_probe rd);
               rd = (if sampling then rd\<lparr>rd_counter := rd_counter rd + 1\<rparr> else rd)
           in if sampling \<and>
                 \<not> is_multiple_of (rd_counter rd) (sample_every (probe_sample_rate (rd_probe rd)))
              then Some (rd\<lparr>rd_intake := count_sampled_out (rd_intake rd)\<rparr>, records)
              else
                (case probe_to_evidence (rd_probe rd) ident now raw (rd_cluster rd) of
                   Inl e \<Rightarrow> Some (rd\<lparr>rd_intake := count_parse_error (rd_intake rd)\<rparr>, records)
                 | Inr evidence \<Rightarrow>
                     map_option (\<lambda>(ik, out). (rd\<lparr>rd_intake := ik\<rparr>, out))
                       (admit_evidence bind evidence (rd_intake rd) records))))"

text \<open>The inner loop: what is drained, and what stays in the ring buffer.\<close>

fun drain_items ::
  "(evidence_record \<Rightarrow> 'e \<Rightarrow> evidence_record \<times> 'e) \<Rightarrow> nat \<Rightarrow> raw_event list \<Rightarrow>
   'e reader \<times> evidence_record list \<Rightarrow>
   (nat \<times> raw_event list \<times> 'e reader \<times> evidence_record list) option" where
  "drain_items bind drained items s =
     (case items of
        [] \<Rightarrow> Some (drained, [], s)
      | item # rest \<Rightarrow>
          if max_drain_items \<le> drained then Some (drained, items, s)
          else (case drain_item bind item s of
                  None \<Rightarrow> None
                | Some s' \<Rightarrow> drain_items bind (drained + 1) rest s'))"

declare drain_items.simps [simp del]

text \<open>
  The poll of the kernel's drop counters.  \<open>Poll None t\<close> stands for counters that cannot be read,
  and no time for a clock that cannot: the reader then gives up.
\<close>

datatype drop_poll = Not_Due | Poll "u64 list option" "u64 option"

definition poll_drops :: "drop_poll \<Rightarrow> 'e reader \<Rightarrow> 'e reader option" where
  "poll_drops due rd =
     (case due of
        Not_Due \<Rightarrow> Some rd
      | Poll None clock \<Rightarrow> Some rd
      | Poll (Some values) clock \<Rightarrow>
          (case clock of
             None \<Rightarrow> None
           | Some at_ns \<Rightarrow>
               (case record_drop_poll (foldl (+) 0 values) at_ns (ik_stats (rd_intake rd)) of
                  (new_drops, st) \<Rightarrow>
                    Some (rd\<lparr>rd_intake := (rd_intake rd)\<lparr>ik_stats := st\<rparr>,
                             rd_drop_metric :=
                               (if 0 < new_drops then rd_drop_metric rd + new_drops
                                else rd_drop_metric rd)\<rparr>))))"

section \<open>The loop\<close>

text \<open>How a turn ends: the reader leaves, sleeps because the ring buffer was empty, or goes on.\<close>

datatype turn_end = Stopped | Clock_Failed | Queue_Gone | Slept | Again

record 'e turn =
  tn_end :: turn_end
  tn_reader :: "'e reader"
  tn_queue :: sink_queue
  tn_left :: "raw_event list"
  tn_offered :: "evidence_record list"
  tn_answer :: "admission option"

definition reader_turn ::
  "(evidence_record \<Rightarrow> 'e \<Rightarrow> evidence_record \<times> 'e) \<Rightarrow> (evidence_record list \<Rightarrow> nat) \<Rightarrow>
   raw_event list \<Rightarrow> drop_poll \<Rightarrow> 'e reader \<Rightarrow> sink_queue \<Rightarrow> 'e turn option" where
  "reader_turn bind resident items due rd q =
     (if rd_stop rd
      then Some \<lparr>tn_end = Stopped, tn_reader = rd, tn_queue = q, tn_left = items, tn_offered = [],
                 tn_answer = None\<rparr>
      else
        (case drain_items bind 0 items (rd, []) of
           None \<Rightarrow> None
         | Some (drained, left, rd, records) \<Rightarrow>
             (case poll_drops due rd of
                None \<Rightarrow> Some \<lparr>tn_end = Clock_Failed, tn_reader = rd, tn_queue = q, tn_left = left,
                              tn_offered = [], tn_answer = None\<rparr>
              | Some rd \<Rightarrow>
                  if records = []
                  then Some \<lparr>tn_end = (if drained < max_drain_items then Slept else Again),
                             tn_reader = rd, tn_queue = q, tn_left = left, tn_offered = [],
                             tn_answer = None\<rparr>
                  else
                    (case try_send resident records q of
                       (None, q) \<Rightarrow>
                         Some \<lparr>tn_end = Queue_Gone, tn_reader = rd, tn_queue = q, tn_left = left,
                               tn_offered = records, tn_answer = None\<rparr>
                     | (Some a, q) \<Rightarrow>
                         Some \<lparr>tn_end = (if drained < max_drain_items then Slept else Again),
                               tn_reader = rd, tn_queue = q, tn_left = left, tn_offered = records,
                               tn_answer = Some a\<rparr>))))"

definition stop_reader :: "'e reader \<Rightarrow> 'e reader" where
  "stop_reader rd = rd\<lparr>rd_stop := True\<rparr>"

text \<open>\<open>monotonic_now_ns\<close> on what \<open>clock_gettime\<close> gave.\<close>

definition monotonic_now_ns :: "(int \<times> int) option \<Rightarrow> nat option" where
  "monotonic_now_ns clock =
     (case clock of
        None \<Rightarrow> None
      | Some (sec, nsec) \<Rightarrow>
          if sec < 0 \<or> nsec < 0 then None
          else (let n = nat sec * 1000000000
                in if 2 ^ 64 \<le> n \<or> 2 ^ 64 \<le> n + nat nsec then None else Some (n + nat nsec)))"

section \<open>What a turn is meant to do\<close>

fun sampled :: "u64 \<Rightarrow> u64 \<Rightarrow> 'a list \<Rightarrow> 'a list" where
  "sampled every c [] = []"
| "sampled every c (x # xs) =
     (if is_multiple_of (c + 1) every then x # sampled every (c + 1) xs
      else sampled every (c + 1) xs)"

definition kept :: "probe \<Rightarrow> u64 \<Rightarrow> 'a list \<Rightarrow> 'a list" where
  "kept p c items =
     (if do_sampling p then sampled (sample_every (probe_sample_rate p)) c items else items)"

definition evidence_of :: "probe \<Rightarrow> string \<Rightarrow> raw_event \<Rightarrow> probe_error + evidence_record list" where
  "evidence_of p cluster item =
     (case item of (ident, now, raw) \<Rightarrow> probe_to_evidence p ident now raw cluster)"

definition decoded :: "probe \<Rightarrow> string \<Rightarrow> raw_event list \<Rightarrow> evidence_record list" where
  "decoded p cluster items =
     concat (map (\<lambda>i. case evidence_of p cluster i of Inl e \<Rightarrow> [] | Inr rs \<Rightarrow> rs) items)"

definition undecodable :: "probe \<Rightarrow> string \<Rightarrow> raw_event list \<Rightarrow> nat" where
  "undecodable p cluster items = length (filter (\<lambda>i. isl (evidence_of p cluster i)) items)"

fun bind_all ::
  "(evidence_record \<Rightarrow> 'e \<Rightarrow> evidence_record \<times> 'e) \<Rightarrow> evidence_record list \<Rightarrow> 'e \<Rightarrow>
   evidence_record list \<times> 'e" where
  "bind_all bind [] e = ([], e)"
| "bind_all bind (r # rs) e =
     (case bind r e of (r', e') \<Rightarrow> (case bind_all bind rs e' of (rs', e'') \<Rightarrow> (r' # rs', e'')))"

lemma bind_all_append:
  "bind_all bind (rs @ rs') e =
   (case bind_all bind rs e of (ls, e') \<Rightarrow>
     (case bind_all bind rs' e' of (ls', e'') \<Rightarrow> (ls @ ls', e'')))"
  by (induction rs arbitrary: e) (auto split: prod.splits)

lemma length_bind_all: "length (fst (bind_all bind rs e)) = length rs"
  by (induction rs arbitrary: e) (auto split: prod.splits, metis fst_conv)

text \<open>An intake after \<open>out\<close> was emitted, and some records left out and some events undecodable.\<close>

definition intake_after ::
  "evidence_record list \<Rightarrow> nat \<Rightarrow> nat \<Rightarrow> 'e \<Rightarrow> event_store \<Rightarrow> 'e intake \<Rightarrow> 'e intake" where
  "intake_after out left_out errors e store ik =
     ik\<lparr>ik_stats := (ik_stats ik)\<lparr>
          events_emitted := events_emitted (ik_stats ik) + of_nat (length out),
          events_sampled_out := events_sampled_out (ik_stats ik) + of_nat left_out,
          parse_errors := parse_errors (ik_stats ik) + of_nat errors\<rparr>,
        ik_events_total := ik_events_total ik + of_nat (length out),
        ik_store := store, ik_enricher := e\<rparr>"

lemma intake_after_after:
  "intake_after out a b e store (intake_after out' a' b' e' store' ik) =
   intake_after (out' @ out) (a' + a) (b' + b) e store ik"
  by (simp add: intake_after_def add.assoc)

lemma intake_after_same [simp]:
  "ik_matcher (intake_after out a b e store ik) = ik_matcher ik"
  "ik_probe_name (intake_after out a b e store ik) = ik_probe_name ik"
  "ik_store (intake_after out a b e store ik) = store"
  "ik_enricher (intake_after out a b e store ik) = e"
  by (simp_all add: intake_after_def)

lemma counts_as_after:
  "count_sampled_out ik = intake_after [] 1 0 (ik_enricher ik) (ik_store ik) ik"
  "count_parse_error ik = intake_after [] 0 1 (ik_enricher ik) (ik_store ik) ik"
  by (simp_all add: count_sampled_out_def count_parse_error_def intake_after_def)

lemma intake_after_none: "intake_after [] 0 0 (ik_enricher ik) (ik_store ik) ik = ik"
  by (simp add: intake_after_def)

definition stored_as :: "string \<Rightarrow> evidence_record list \<Rightarrow> (string \<times> occurrence) list" where
  "stored_as name rs = map (\<lambda>r. (name, er_occurrence r)) rs"

lemma stored_as_simps [simp]:
  "stored_as name [] = []" "stored_as name (r # rs) = (name, er_occurrence r) # stored_as name rs"
  "stored_as name (rs @ rs') = stored_as name rs @ stored_as name rs'"
  by (simp_all add: stored_as_def)

lemma push_all_append:
  "push_all (h @ h') st = Option.bind (push_all h st) (push_all h')"
  by (induction h arbitrary: st) (auto split: option.splits)

text \<open>What passes the gate.\<close>

definition passing :: "'e intake \<Rightarrow> evidence_record list \<Rightarrow> evidence_record list" where
  "passing ik rs = filter (\<lambda>r. record_matches_sensitive_paths r (ik_matcher ik)) rs"

lemma passing_simps [simp]:
  "passing ik [] = []" "passing ik (rs @ rs') = passing ik rs @ passing ik rs'"
  "passing ik (r # rs) =
     (if record_matches_sensitive_paths r (ik_matcher ik) then r # passing ik rs else passing ik rs)"
  "passing (intake_after out a b e store ik) rs = passing ik rs"
  "passing (ik\<lparr>ik_enricher := e, ik_store := store\<rparr>) rs = passing ik rs"
  by (simp_all add: passing_def)

lemma length_passing: "length (passing ik rs) \<le> length rs"
  by (simp add: passing_def)

lemma admit_records_eq:
  assumes "store_holds h (ik_store ik)"
    and "bind_all bind (passing ik rs) (ik_enricher ik) = (ls, e')"
  shows "\<exists>store'. push_all (stored_as (ik_probe_name ik) ls) (ik_store ik) = Some store' \<and>
    admit_records bind rs n ik out =
      Some (n + of_nat (length ls),
        intake_after [] (length rs - length ls) 0 e' store' ik, out @ ls)"
  using assms
proof (induction rs arbitrary: h n ik out ls e')
  case Nil
  then show ?case by (auto simp: intake_after_none)
next
  case (Cons r rs)
  show ?case
  proof (cases "record_matches_sensitive_paths r (ik_matcher ik)")
    case False
    let ?ik = "intake_after [] 1 0 (ik_enricher ik) (ik_store ik) ik"
    have h: "store_holds h (ik_store ?ik)"
      and b: "bind_all bind (passing ?ik rs) (ik_enricher ?ik) = (ls, e')"
      using Cons.prems False by simp_all
    have "length ls = length (passing ik rs)" using length_bind_all [of bind "passing ik rs"] b by (metis fst_conv intake_after_same(4) passing_simps(4))
    then have le: "length ls \<le> length rs" using length_passing [of ik rs] by simp
    from Cons.IH [OF h b, of n out] False le show ?thesis
      by (simp add: counts_as_after intake_after_after Suc_diff_le)
  next
    case True
    obtain r' e1 where r': "bind r (ik_enricher ik) = (r', e1)" by force
    with Cons.prems(2) True obtain ls1 where ls: "ls = r' # ls1"
      and b1: "bind_all bind (passing ik rs) e1 = (ls1, e')"
      by (auto split: prod.splits)
    from store_push_holds [OF Cons.prems(1), of "ik_probe_name ik" "er_occurrence r'"] obtain st1 where
      st1: "store_push (ik_probe_name ik) (er_occurrence r') (ik_store ik) = Some st1"
        "store_holds (h @ [(ik_probe_name ik, er_occurrence r')]) st1" by blast
    let ?ik = "ik\<lparr>ik_enricher := e1, ik_store := st1\<rparr>"
    have "bind_all bind (passing ?ik rs) (ik_enricher ?ik) = (ls1, e')"
      using b1 by simp
    with Cons.IH [OF _ this, of "h @ [(ik_probe_name ik, er_occurrence r')]" "n + 1" "out @ [r']"] st1
    show ?thesis
      by (auto simp: True r' ls intake_after_def)
  qed
qed

lemma count_emitted_after:
  "(if 0 < n then count_emitted n ik else ik) = count_emitted n ik"
  "count_emitted (of_nat (length ls)) (intake_after [] a b e store ik) = intake_after ls a b e store ik"
  by (simp_all add: count_emitted_def intake_after_def word_gt_0)

lemma admit_eq:
  assumes "store_holds h (ik_store ik)"
    and "bind_all bind (passing ik rs) (ik_enricher ik) = (ls, e')"
  shows "\<exists>store'. push_all (stored_as (ik_probe_name ik) ls) (ik_store ik) = Some store' \<and>
    admit_evidence bind rs ik out = Some (intake_after ls (length rs - length ls) 0 e' store' ik, out @ ls)"
  using admit_records_eq [OF assms, of 0 out]
  by (auto simp: admit_evidence_def count_emitted_after)

text \<open>The reader after it drained \<open>items\<close>, emitting \<open>ls\<close>.\<close>

definition left_out :: "'e reader \<Rightarrow> raw_event list \<Rightarrow> nat" where
  "left_out rd items =
     (let p = rd_probe rd; ks = kept p (rd_counter rd) items; rs = decoded p (rd_cluster rd) ks
      in (length items - length ks) + (length rs - length (passing (rd_intake rd) rs)))"

definition counter_after :: "'e reader \<Rightarrow> nat \<Rightarrow> u64" where
  "counter_after rd n =
     (if do_sampling (rd_probe rd) then rd_counter rd + of_nat n else rd_counter rd)"

definition reader_after ::
  "raw_event list \<Rightarrow> evidence_record list \<Rightarrow> 'e \<Rightarrow> event_store \<Rightarrow> 'e reader \<Rightarrow> 'e reader" where
  "reader_after items ls e store rd =
     rd\<lparr>rd_counter := counter_after rd (length items),
        rd_intake := intake_after ls (left_out rd items)
          (undecodable (rd_probe rd) (rd_cluster rd) (kept (rd_probe rd) (rd_counter rd) items))
          e store (rd_intake rd)\<rparr>"

text \<open>What is emitted of \<open>items\<close>, before it is bound.\<close>

definition to_emit :: "'e reader \<Rightarrow> raw_event list \<Rightarrow> evidence_record list" where
  "to_emit rd items =
     passing (rd_intake rd)
       (decoded (rd_probe rd) (rd_cluster rd) (kept (rd_probe rd) (rd_counter rd) items))"

lemma reader_after_same [simp]:
  "rd_probe (reader_after items ls e store rd) = rd_probe rd"
  "rd_cluster (reader_after items ls e store rd) = rd_cluster rd"
  "rd_counter (reader_after items ls e store rd) = counter_after rd (length items)"
  "ik_store (rd_intake (reader_after items ls e store rd)) = store"
  "ik_enricher (rd_intake (reader_after items ls e store rd)) = e"
  "ik_probe_name (rd_intake (reader_after items ls e store rd)) = ik_probe_name (rd_intake rd)"
  "passing (rd_intake (reader_after items ls e store rd)) rs = passing (rd_intake rd) rs"
  by (simp_all add: reader_after_def)

lemma decoded_simps [simp]:
  "decoded p cluster [] = []"
  "decoded p cluster (i # items) =
     (case evidence_of p cluster i of Inl e \<Rightarrow> [] | Inr rs \<Rightarrow> rs) @ decoded p cluster items"
  "undecodable p cluster [] = 0"
  "undecodable p cluster (i # items) =
     (if isl (evidence_of p cluster i) then 1 else 0) + undecodable p cluster items"
  by (simp_all add: decoded_def undecodable_def)

lemma kept_simps [simp]:
  "kept p c [] = []"
  "kept p c (i # items) =
     (if do_sampling p then
        (if is_multiple_of (c + 1) (sample_every (probe_sample_rate p)) then i # kept p (c + 1) items
         else kept p (c + 1) items)
      else i # kept p c items)"
  by (simp_all add: kept_def)

lemma length_kept: "length (kept p c items) \<le> length items"
  by (induction items arbitrary: c) (auto intro: le_SucI)

lemma drain_item_eq:
  assumes "store_holds h (ik_store (rd_intake rd))"
    and "bind_all bind (to_emit rd [item]) (ik_enricher (rd_intake rd)) = (ls, e')"
  shows "\<exists>store'. push_all (stored_as (ik_probe_name (rd_intake rd)) ls) (ik_store (rd_intake rd)) =
      Some store' \<and>
    drain_item bind item (rd, out) = Some (reader_after [item] ls e' store' rd, out @ ls)"
proof -
  obtain ident now raw where item: "item = (ident, now, raw)" by (cases item)
  let ?p = "rd_probe rd" and ?ik = "rd_intake rd"
  consider (skipped) "do_sampling ?p"
      "\<not> is_multiple_of (rd_counter rd + 1) (sample_every (probe_sample_rate ?p))"
    | (kept) "do_sampling ?p \<longrightarrow>
        is_multiple_of (rd_counter rd + 1) (sample_every (probe_sample_rate ?p))"
    by blast
  then show ?thesis
  proof cases
    case skipped
    with assms(2) show ?thesis
      by (auto simp: item drain_item_def Let_def counts_as_after reader_after_def counter_after_def
          left_out_def to_emit_def)
  next
    case kept
    then have k: "kept ?p (rd_counter rd) [item] = [item]" by simp
    show ?thesis
    proof (cases "evidence_of ?p (rd_cluster rd) item")
      case (Inl err)
      with k kept assms(2) show ?thesis
        by (auto simp: item drain_item_def Let_def counts_as_after reader_after_def counter_after_def
            left_out_def to_emit_def evidence_of_def)
    next
      case (Inr rs)
      with k assms(2) have b: "bind_all bind (passing ?ik rs) (ik_enricher ?ik) = (ls, e')"
        by (simp add: to_emit_def del: kept_simps)
      then have "length ls = length (passing ?ik rs)" by (metis fst_conv length_bind_all)
      with admit_eq [OF assms(1) b, of out] Inr k kept show ?thesis
        by (auto simp: item drain_item_def Let_def reader_after_def counter_after_def left_out_def
            evidence_of_def)
    qed
  qed
qed

lemma kept_append:
  "kept p c (is @ js) =
   kept p c is @ kept p (if do_sampling p then c + of_nat (length is) else c) js"
  by (induction "is" arbitrary: c) (simp_all add: add.assoc)

lemma decoded_append [simp]:
  "decoded p cluster (is @ js) = decoded p cluster is @ decoded p cluster js"
  "undecodable p cluster (is @ js) = undecodable p cluster is + undecodable p cluster js"
  by (simp_all add: decoded_def undecodable_def)

lemma to_emit_Nil [simp]: "to_emit rd [] = []"
  by (simp add: to_emit_def)

lemma to_emit_append:
  "to_emit rd (is @ js) = to_emit rd is @ to_emit (reader_after is ls e store rd) js"
  by (simp add: to_emit_def kept_append counter_after_def)

lemma left_out_append:
  "left_out rd (is @ js) = left_out rd is + left_out (reader_after is ls e store rd) js"
  using length_kept [of "rd_probe rd" "rd_counter rd" "is"]
    length_kept [of "rd_probe rd" "counter_after rd (length is)" js]
    length_passing [of "rd_intake rd" "decoded (rd_probe rd) (rd_cluster rd) (kept (rd_probe rd) (rd_counter rd) is)"]
    length_passing [of "rd_intake rd"
      "decoded (rd_probe rd) (rd_cluster rd) (kept (rd_probe rd) (counter_after rd (length is)) js)"]
  by (simp add: left_out_def Let_def kept_append counter_after_def [symmetric])

lemma reader_after_append:
  "reader_after js ls' e' store' (reader_after is ls e store rd) =
   reader_after (is @ js) (ls @ ls') e' store' rd"
proof -
  define n where "n = left_out (reader_after is ls e store rd) js"
  have "left_out rd (is @ js) = left_out rd is + n"
    by (simp add: n_def left_out_append [of rd "is" js ls e store])
  then show ?thesis
    unfolding reader_after_def [of js] n_def [symmetric]
    by (simp add: reader_after_def intake_after_after counter_after_def kept_append add.assoc)
qed

lemma reader_after_Nil:
  "reader_after [] [] (ik_enricher (rd_intake rd)) (ik_store (rd_intake rd)) rd = rd"
  by (simp add: reader_after_def counter_after_def left_out_def intake_after_none)

lemma drain_items_eq:
  assumes "store_holds h (ik_store (rd_intake rd))"
    and "bind_all bind (to_emit rd (take (max_drain_items - n) items)) (ik_enricher (rd_intake rd)) =
      (ls, e')"
  shows "\<exists>store'. push_all (stored_as (ik_probe_name (rd_intake rd)) ls) (ik_store (rd_intake rd)) =
      Some store' \<and>
    drain_items bind n items (rd, out) =
      Some (n + min (length items) (max_drain_items - n), drop (max_drain_items - n) items,
        reader_after (take (max_drain_items - n) items) ls e' store' rd, out @ ls)"
  using assms
proof (induction items arbitrary: h n rd out ls e')
  case Nil
  then show ?case
    by (auto simp: drain_items.simps reader_after_Nil)
next
  case (Cons i items)
  show ?case
  proof (cases "max_drain_items \<le> n")
    case True
    with Cons.prems show ?thesis
      by (auto simp: drain_items.simps reader_after_Nil)
  next
    case False
    let ?is = "take (max_drain_items - Suc n) items" and ?ik = "rd_intake rd"
    from False have t: "take (max_drain_items - n) (i # items) = i # ?is"
      "drop (max_drain_items - n) (i # items) = drop (max_drain_items - Suc n) items"
      by (simp_all add: take_Cons' drop_Cons')
    obtain ls1 e1 where b1: "bind_all bind (to_emit rd [i]) (ik_enricher ?ik) = (ls1, e1)" by force
    from drain_item_eq [OF Cons.prems(1) b1, of out] obtain st1 where
      st1: "push_all (stored_as (ik_probe_name ?ik) ls1) (ik_store ?ik) = Some st1"
      and d1: "drain_item bind i (rd, out) = Some (reader_after [i] ls1 e1 st1 rd, out @ ls1)"
      by blast
    let ?rd = "reader_after [i] ls1 e1 st1 rd"
    obtain ls2 where ls: "ls = ls1 @ ls2" and b2: "bind_all bind (to_emit ?rd ?is) e1 = (ls2, e')"
      using Cons.prems(2) b1 unfolding t to_emit_append [of rd "[i]" ?is ls1 e1 st1, simplified]
      by (auto simp: bind_all_append split: prod.splits)
    have h: "store_holds (h @ stored_as (ik_probe_name ?ik) ls1) (ik_store (rd_intake ?rd))"
      using push_all_holds [OF Cons.prems(1), of "stored_as (ik_probe_name ?ik) ls1"] st1 by simp
    from Cons.IH [OF h, of "Suc n" ls2 e' "out @ ls1"] b2 obtain st2 where
      "push_all (stored_as (ik_probe_name ?ik) ls2) st1 = Some st2"
      "drain_items bind (Suc n) items (?rd, out @ ls1) =
        Some (Suc n + min (length items) (max_drain_items - Suc n),
          drop (max_drain_items - Suc n) items, reader_after ?is ls2 e' st2 ?rd, out @ ls1 @ ls2)"
      by auto
    with False st1 d1 ls show ?thesis
      by (auto simp: drain_items.simps [of bind n "i # items"] t push_all_append
          reader_after_append [of ?is _ _ _ "[i]", simplified])
  qed
qed

section \<open>Sampling\<close>

lemma word_multiple: "0 < n \<Longrightarrow> n < 2 ^ 64 \<Longrightarrow> m < 2 ^ 64 \<Longrightarrow>
  is_multiple_of (of_nat m) (of_nat n) \<longleftrightarrow> n dvd m"
  by (simp add: is_multiple_of_def word_eq_iff_unsigned unat_mod unsigned_of_nat take_bit_nat_eq_self
      mod_eq_0_iff_dvd word_unat_eq_iff) 

lemma sampled_positions:
  assumes "0 < n" "n < 2 ^ 64"
  shows "c + length items < 2 ^ 64 \<Longrightarrow>
    sampled (of_nat n) (of_nat c) items =
      map (\<lambda>m. items ! (m - c - 1)) (filter (\<lambda>m. n dvd m) [c + 1..<c + length items + 1])"
proof (induction items arbitrary: c)
  case Nil
  then show ?case by simp
next
  case (Cons x items)
  have "map (\<lambda>m. items ! (m - Suc c - 1)) (filter (\<lambda>m. n dvd m) [Suc c + 1..<Suc c + length items + 1]) =
      map (\<lambda>m. (x # items) ! (m - c - 1)) (filter (\<lambda>m. n dvd m) [Suc c + 1..<Suc c + length items + 1])"
    by (rule map_cong) (auto simp: nth_Cons')
  moreover have "[c + 1..<c + length (x # items) + 1] =
      (c + 1) # [Suc c + 1..<Suc c + length items + 1]"
    by (simp add: upt_conv_Cons del: upt_Suc)
  moreover have "of_nat c + 1 = (of_nat (Suc c) :: u64)" by simp
  moreover have "is_multiple_of (of_nat (Suc c)) (of_nat n) \<longleftrightarrow> n dvd Suc c"
    using assms Cons.prems by (intro word_multiple) simp_all
  ultimately show ?case
    using Cons.IH [of "Suc c"] Cons.prems by (simp del: upt_Suc of_nat_Suc)
qed

lemma sample_every_inverse:
  assumes "2 \<le> n" "n < 2 ^ 64"
  shows "sample_every (1 / real n) = of_nat n"
proof -
  have "\<lfloor>real n + 1 / 2\<rfloor> = int n" by linarith
  then have "\<lfloor>1 / (1 / real n) + 1 / 2\<rfloor> = int n" by simp
  moreover have "1 / real n < 1" "0 < 1 / real n" using assms by simp_all
  moreover have "\<not> 2 ^ 64 \<le> int n" using assms by simp
  ultimately show ?thesis by (simp add: sample_every_def)
qed

lemma sample_every_high: "2 / 3 < rate \<Longrightarrow> sample_every rate = 1"
proof -
  assume r: "2 / 3 < rate"
  show ?thesis
  proof (cases "rate < 1")
    case True
    with r have "1 < 1 / rate" "1 / rate < 3 / 2" by (simp_all add: field_simps)
    then have "\<lfloor>1 / rate + 1 / 2\<rfloor> = 1" by linarith
    with r True show ?thesis by (simp add: sample_every_def)
  qed (simp add: sample_every_def)
qed

text \<open>\<open>sample_rate\<close> between two thirds and one keeps every event.\<close>

lemma high_rates_keep_all:
  assumes "2 / 3 < probe_sample_rate p"
  shows "kept p c items = items"
  using sample_every_high [OF assms]
  by (induction items arbitrary: c) (simp_all add: is_multiple_of_def)

section \<open>Turns\<close>

text \<open>The drop poll touches the drop counters only.\<close>

definition same_intake :: "'e reader \<Rightarrow> 'e reader \<Rightarrow> bool" where
  "same_intake rd rd' \<longleftrightarrow>
     rd_probe rd' = rd_probe rd \<and> rd_cluster rd' = rd_cluster rd \<and>
     rd_counter rd' = rd_counter rd \<and> rd_stop rd' = rd_stop rd \<and>
     (let ik = rd_intake rd; ik' = rd_intake rd'; st = ik_stats ik; st' = ik_stats ik' in
       ik_probe_name ik' = ik_probe_name ik \<and> ik_matcher ik' = ik_matcher ik \<and>
       ik_store ik' = ik_store ik \<and> ik_enricher ik' = ik_enricher ik \<and>
       ik_events_total ik' = ik_events_total ik \<and> events_emitted st' = events_emitted st \<and>
       events_sampled_out st' = events_sampled_out st \<and> parse_errors st' = parse_errors st)"

lemma poll_drops_same: "poll_drops due rd = Some rd' \<Longrightarrow> same_intake rd rd'"
  by (auto simp: poll_drops_def record_drop_poll_def Let_def same_intake_def
      split: drop_poll.splits option.splits)

lemma same_intakeD:
  assumes "same_intake rd rd'"
  shows "to_emit rd' items = to_emit rd items"
    and "ik_store (rd_intake rd') = ik_store (rd_intake rd)"
    and "ik_enricher (rd_intake rd') = ik_enricher (rd_intake rd)"
    and "ik_probe_name (rd_intake rd') = ik_probe_name (rd_intake rd)"
    and "rd_probe rd' = rd_probe rd" "rd_stop rd' = rd_stop rd"
    and "events_emitted (ik_stats (rd_intake rd')) = events_emitted (ik_stats (rd_intake rd))"
    and "events_sampled_out (ik_stats (rd_intake rd')) = events_sampled_out (ik_stats (rd_intake rd))"
    and "parse_errors (ik_stats (rd_intake rd')) = parse_errors (ik_stats (rd_intake rd))"
    and "ik_events_total (rd_intake rd') = ik_events_total (rd_intake rd)"
  using assms by (simp_all add: same_intake_def Let_def to_emit_def passing_def)

definition clock_lost :: "drop_poll \<Rightarrow> bool" where
  "clock_lost due = (case due of Poll (Some values) None \<Rightarrow> True | _ \<Rightarrow> False)"

lemma poll_drops_None: "poll_drops due rd = None \<longleftrightarrow> clock_lost due"
  by (auto simp: poll_drops_def clock_lost_def split: drop_poll.splits option.splits prod.splits)

lemma reader_turn_eq:
  assumes "store_holds h (ik_store (rd_intake rd))" and "\<not> rd_stop rd" and "\<not> clock_lost due"
    and "bind_all bind (to_emit rd (take max_drain_items items)) (ik_enricher (rd_intake rd)) = (ls, e')"
  shows "\<exists>t store'. reader_turn bind resident items due rd q = Some t \<and>
    push_all (stored_as (ik_probe_name (rd_intake rd)) ls) (ik_store (rd_intake rd)) = Some store' \<and>
    same_intake (reader_after (take max_drain_items items) ls e' store' rd) (tn_reader t) \<and>
    tn_left t = drop max_drain_items items \<and> tn_offered t = ls \<and>
    (if ls = [] then tn_queue t = q \<and> tn_answer t = None
     else tn_answer t = fst (try_send resident ls q) \<and> tn_queue t = snd (try_send resident ls q)) \<and>
    tn_end t = (if ls \<noteq> [] \<and> tn_answer t = None then Queue_Gone
      else if length items < max_drain_items then Slept else Again)"
proof -
  from drain_items_eq [OF assms(1), of bind 0 items ls e' "[]"] assms(4) obtain store' where
    p: "push_all (stored_as (ik_probe_name (rd_intake rd)) ls) (ik_store (rd_intake rd)) = Some store'"
    and d: "drain_items bind 0 items (rd, []) = Some (min (length items) max_drain_items,
        drop max_drain_items items,
        reader_after (take max_drain_items items) ls e' store' rd, ls)"
    by auto
  from assms(3) obtain rd' where rd': "poll_drops due
      (reader_after (take max_drain_items items) ls e' store' rd) = Some rd'"
    by (metis not_None_eq poll_drops_None)
  have "reader_turn bind resident items due rd q = Some
    \<lparr>tn_end = (if ls \<noteq> [] \<and> fst (try_send resident ls q) = None then Queue_Gone
       else if length items < max_drain_items then Slept else Again),
     tn_reader = rd', tn_queue = (if ls = [] then q else snd (try_send resident ls q)),
     tn_left = drop max_drain_items items, tn_offered = ls,
     tn_answer = (if ls = [] then None else fst (try_send resident ls q))\<rparr>"
    using d rd' assms(2)
    by (auto simp: reader_turn_def min_def not_less split: prod.splits option.splits)
  with p poll_drops_same [OF rd'] show ?thesis
    by (intro exI conjI) (auto split: if_splits)
qed

section \<open>Runs\<close>

text \<open>
  Turn after turn: what arrived in the ring buffer before the turn, its drop poll and the queue as
  the turn finds it.  A reader that left runs no more.
\<close>

fun run_reader ::
  "(evidence_record \<Rightarrow> 'e \<Rightarrow> evidence_record \<times> 'e) \<Rightarrow> (evidence_record list \<Rightarrow> nat) \<Rightarrow>
   (raw_event list \<times> drop_poll \<times> sink_queue) list \<Rightarrow> raw_event list \<Rightarrow> 'e reader \<Rightarrow>
   (evidence_record list list \<times> raw_event list \<times> 'e reader) option" where
  "run_reader bind resident [] left rd = Some ([], left, rd)"
| "run_reader bind resident ((arrived, due, q) # ins) left rd =
     (case reader_turn bind resident (left @ arrived) due rd q of
        None \<Rightarrow> None
      | Some t \<Rightarrow>
          if tn_end t \<in> {Slept, Again}
          then map_option (\<lambda>(os, left', rd'). (tn_offered t # os, left', rd'))
                 (run_reader bind resident ins (tn_left t) (tn_reader t))
          else Some ([tn_offered t], tn_left t, tn_reader t))"

lemma same_intake_trans: "same_intake a b \<Longrightarrow> same_intake b c \<Longrightarrow> same_intake a c"
  by (simp add: same_intake_def Let_def)

lemma same_intake_after:
  "same_intake rd rd1 \<Longrightarrow>
   same_intake (reader_after is ls e store rd) (reader_after is ls e store rd1)"
  by (simp add: same_intake_def reader_after_def intake_after_def counter_after_def left_out_def
      passing_def Let_def)

lemma bind_emit_append:
  assumes "bind_all bind (to_emit rd is) e = (ls, e1)"
    and "bind_all bind (to_emit (reader_after is ls e1 store rd) js) e1 = (ls', e2)"
  shows "bind_all bind (to_emit rd (is @ js)) e = (ls @ ls', e2)"
  using assms by (simp add: to_emit_append [of rd "is" js ls e1 store] bind_all_append)

lemma split_after:
  assumes "all = xs @ ys"
  shows "take (length xs + k) all = xs @ take k ys" and "drop (length xs + k) all = drop k ys"
  using assms by simp_all

lemma run_reader_eq:
  assumes "store_holds h (ik_store (rd_intake rd))" "\<not> rd_stop rd"
    and "\<forall>(arrived, due, q) \<in> set ins. \<not> clock_lost due"
  shows "\<exists>os left' rd' k store' e' rest.
    run_reader bind resident ins left rd = Some (os, left', rd') \<and>
    bind_all bind (to_emit rd (take k (left @ concat (map fst ins)))) (ik_enricher (rd_intake rd)) =
      (concat os, e') \<and>
    push_all (stored_as (ik_probe_name (rd_intake rd)) (concat os)) (ik_store (rd_intake rd)) =
      Some store' \<and>
    same_intake (reader_after (take k (left @ concat (map fst ins))) (concat os) e' store' rd) rd' \<and>
    left' @ rest = drop k (left @ concat (map fst ins))"
  using assms
proof (induction ins arbitrary: left rd h)
  case Nil
  have "same_intake (reader_after [] [] (ik_enricher (rd_intake rd)) (ik_store (rd_intake rd)) rd) rd"
    by (simp add: reader_after_Nil same_intake_def)
  then show ?case
    by (intro exI [of _ "[]"] exI [of _ left] exI [of _ rd] exI [of _ 0] exI [of _ "ik_store (rd_intake rd)"]
        exI [of _ "ik_enricher (rd_intake rd)"]) simp
next
  case (Cons i ins)
  obtain arrived due q where i: "i = (arrived, due, q)" by (cases i)
  let ?items = "left @ arrived" and ?ik = "rd_intake rd"
  let ?xs = "take max_drain_items ?items"
  obtain ls e1 where b: "bind_all bind (to_emit rd ?xs) (ik_enricher ?ik) = (ls, e1)" by force
  from Cons.prems i have c: "\<not> clock_lost due" by auto
  from reader_turn_eq [OF Cons.prems(1,2) c b, of resident q] obtain t st1 where
    t: "reader_turn bind resident ?items due rd q = Some t"
    and st1: "push_all (stored_as (ik_probe_name ?ik) ls) (ik_store ?ik) = Some st1"
    and same: "same_intake (reader_after ?xs ls e1 st1 rd) (tn_reader t)"
    and left: "tn_left t = drop max_drain_items ?items" and off: "tn_offered t = ls" by blast
  let ?all = "left @ concat (map fst (i # ins))"
  have split: "?all = ?xs @ tn_left t @ concat (map fst ins)"
  proof -
    have "?xs @ tn_left t = ?items" unfolding left by (rule append_take_drop_id)
    then show ?thesis by (simp add: i flip: append_assoc)
  qed
  show ?case
  proof (cases "tn_end t \<in> {Slept, Again}")
    case False
    have "take (length ?xs) ?all = ?xs" "drop (length ?xs) ?all = tn_left t @ concat (map fst ins)"
      using split_after [OF split, of 0] by simp_all
    with False t b st1 same off show ?thesis
      by (intro exI [of _ "[ls]"] exI [of _ "tn_left t"] exI [of _ "tn_reader t"]
          exI [of _ "length ?xs"] exI [of _ st1] exI [of _ e1] exI [of _ "concat (map fst ins)"])
        (simp add: i)
  next
    case True
    have h: "store_holds (h @ stored_as (ik_probe_name ?ik) ls) (ik_store (rd_intake (tn_reader t)))"
      using push_all_holds [OF Cons.prems(1), of "stored_as (ik_probe_name ?ik) ls"] st1
        same_intakeD(2) [OF same] by simp
    have "\<not> rd_stop (tn_reader t)"
      using same_intakeD(6) [OF same] Cons.prems(2) by (simp add: reader_after_def)
    from Cons.IH [OF h this, of "tn_left t"] Cons.prems(3) obtain os left' rd' k st2 e2 rest where
      run: "run_reader bind resident ins (tn_left t) (tn_reader t) = Some (os, left', rd')"
      and b2: "bind_all bind (to_emit (tn_reader t) (take k (tn_left t @ concat (map fst ins))))
        (ik_enricher (rd_intake (tn_reader t))) = (concat os, e2)"
      and st2: "push_all (stored_as (ik_probe_name (rd_intake (tn_reader t))) (concat os))
        (ik_store (rd_intake (tn_reader t))) = Some st2"
      and same2: "same_intake (reader_after (take k (tn_left t @ concat (map fst ins))) (concat os)
        e2 st2 (tn_reader t)) rd'"
      and rest: "left' @ rest = drop k (tn_left t @ concat (map fst ins))"
      by auto
    let ?ys = "take k (tn_left t @ concat (map fst ins))"
    have tk: "take (length ?xs + k) ?all = ?xs @ ?ys"
      "drop (length ?xs + k) ?all = drop k (tn_left t @ concat (map fst ins))"
      by (rule split_after [OF split])+
    have "bind_all bind (to_emit rd (?xs @ ?ys)) (ik_enricher ?ik) = (ls @ concat os, e2)"
      using b2 by (intro bind_emit_append [OF b, of st1]) (simp add: same_intakeD(1,3) [OF same])
    moreover have "push_all (stored_as (ik_probe_name ?ik) (ls @ concat os)) (ik_store ?ik) = Some st2"
      using st1 st2 same_intakeD(2,4) [OF same] by (simp add: push_all_append)
    moreover have "same_intake (reader_after (?xs @ ?ys) (ls @ concat os) e2 st2 rd) rd'"
      using same_intake_trans [OF same_intake_after [OF same] same2]
      by (simp add: reader_after_append)
    ultimately show ?thesis
      using True t run rest off unfolding tk [symmetric]
      by (intro exI [of _ "ls # os"] exI [of _ left'] exI [of _ rd'] exI [of _ "length ?xs + k"]
          exI [of _ st2] exI [of _ e2] exI [of _ rest])
        (simp add: i)
  qed
qed

section \<open>Accounting\<close>

lemma decoded_length:
  assumes "p \<in> set builtin_probes"
  shows "length (decoded p cluster items) + undecodable p cluster items = length items"
proof (induction items)
  case (Cons i items)
  obtain ident now raw where i: "i = (ident, now, raw)" by (cases i)
  have "case evidence_of p cluster i of Inl e \<Rightarrow> True | Inr rs \<Rightarrow> length rs = 1"
    using builtin_outcome [OF assms, of raw ident now cluster]
    by (auto simp: i evidence_of_def split: if_splits)
  with Cons show ?case by (auto split: sum.splits)
qed simp

lemma accounted:
  assumes "rd_probe rd \<in> set builtin_probes"
  shows "length (to_emit rd items) + left_out rd items +
      undecodable (rd_probe rd) (rd_cluster rd) (kept (rd_probe rd) (rd_counter rd) items) = length items"
  using decoded_length [OF assms, of "rd_cluster rd" "kept (rd_probe rd) (rd_counter rd) items"]
    length_kept [of "rd_probe rd" "rd_counter rd" items]
    length_passing [of "rd_intake rd"
      "decoded (rd_probe rd) (rd_cluster rd) (kept (rd_probe rd) (rd_counter rd) items)"]
  by (simp add: to_emit_def left_out_def Let_def)

definition counted :: "'e reader \<Rightarrow> u64" where
  "counted rd =
     (let st = ik_stats (rd_intake rd) in events_emitted st + events_sampled_out st + parse_errors st)"

lemma counted_after:
  assumes "rd_probe rd \<in> set builtin_probes" "length ls = length (to_emit rd items)"
  shows "counted (reader_after items ls e store rd) = counted rd + of_nat (length items)"
  using assms(2) accounted [OF assms(1), of items, symmetric]
  by (simp add: counted_def reader_after_def intake_after_def Let_def)

lemma counted_same: "same_intake rd rd' \<Longrightarrow> counted rd' = counted rd"
  by (simp add: same_intake_def counted_def Let_def)

text \<open>The Prometheus counters, which survive the reader, against its statistics.\<close>

definition metrics_agree :: "u64 \<Rightarrow> u64 \<Rightarrow> 'e reader \<Rightarrow> bool" where
  "metrics_agree drops0 events0 rd \<longleftrightarrow>
     (let st = ik_stats (rd_intake rd) in
       rd_drop_metric rd = drops0 + do_total (drop_obs st) \<and>
       events_dropped st = do_total (drop_obs st) \<and>
       ik_events_total (rd_intake rd) = events0 + events_emitted st)"

lemma metrics_after: "metrics_agree d n rd \<Longrightarrow> metrics_agree d n (reader_after items ls e store rd)"
  by (simp add: metrics_agree_def reader_after_def intake_after_def Let_def add.assoc)

lemma metrics_poll:
  "poll_drops due rd = Some rd' \<Longrightarrow> metrics_agree d n rd \<Longrightarrow> metrics_agree d n rd'"
  by (auto simp: poll_drops_def record_drop_poll_def metrics_agree_def Let_def word_gt_0
      split: drop_poll.splits option.splits)

lemma reader_turn_reader:
  assumes "store_holds h (ik_store (rd_intake rd))" "reader_turn bind resident items due rd q = Some t"
    and "bind_all bind (to_emit rd (take max_drain_items items)) (ik_enricher (rd_intake rd)) = (ls, e')"
    and "\<not> rd_stop rd"
  shows "\<exists>store'. let rd' = reader_after (take max_drain_items items) ls e' store' rd in
    (case poll_drops due rd' of
       None \<Rightarrow> tn_reader t = rd' \<and> tn_end t = Clock_Failed \<and> tn_offered t = [] \<and> tn_queue t = q
     | Some rd'' \<Rightarrow> tn_reader t = rd'')"
proof -
  from drain_items_eq [OF assms(1), of bind 0 items ls e' "[]"] assms(3) obtain store' where
    "drain_items bind 0 items (rd, []) = Some (min (length items) max_drain_items,
        drop max_drain_items items,
        reader_after (take max_drain_items items) ls e' store' rd, ls)"
    by auto
  with assms(2,4) show ?thesis
    by (intro exI [of _ store'])
      (auto simp: reader_turn_def Let_def split: option.splits prod.splits if_splits)
qed

text \<open>A turn that cannot read the clock loses what it drained, though it is counted as emitted.\<close>

lemma clock_failure_loses:
  assumes "store_holds h (ik_store (rd_intake rd))" "\<not> rd_stop rd" "clock_lost due"
    and "reader_turn bind resident items due rd q = Some t"
  shows "tn_end t = Clock_Failed \<and> tn_offered t = [] \<and> tn_queue t = q \<and>
    events_emitted (ik_stats (rd_intake (tn_reader t))) = events_emitted (ik_stats (rd_intake rd)) +
      of_nat (length (to_emit rd (take max_drain_items items)))"
proof -
  obtain ls e' where b:
    "bind_all bind (to_emit rd (take max_drain_items items)) (ik_enricher (rd_intake rd)) = (ls, e')"
    by force
  then have "length ls = length (to_emit rd (take max_drain_items items))"
    by (metis fst_conv length_bind_all)
  with reader_turn_reader [OF assms(1,4) b assms(2)] show ?thesis
    by (auto simp: Let_def poll_drops_None [THEN iffD2, OF assms(3)] reader_after_def intake_after_def)
qed

text \<open>Everything that reaches the reader in a run.\<close>

definition arrivals ::
  "raw_event list \<Rightarrow> (raw_event list \<times> drop_poll \<times> sink_queue) list \<Rightarrow> raw_event list" where
  "arrivals left ins = left @ concat (map fst ins)"

lemmas run_reader_arrivals = run_reader_eq [folded arrivals_def]

text \<open>A reader of TCP closes and what reaches it, for the witnesses.\<close>

definition sample_reader :: "nat reader" where
  "sample_reader =
     \<lparr>rd_probe = tcp_close_probe, rd_cluster = ''c'', rd_counter = 0,
      rd_intake = new_intake ''tcp_close'' new_stats 0 (new_store 4) 0 \<lparr>patterns = []\<rparr>,
      rd_drop_metric = 0, rd_stop = False\<rparr>"

definition sample_input :: "(raw_event list \<times> drop_poll \<times> sink_queue) list" where
  "sample_input =
     [([(1, 2, replicate 112 0), (3, 4, [])], Not_Due, new_queue (new_queue_config 1000) None),
      ([(5, 6, replicate 112 7)], Poll (Some [3, 4]) (Some 9), new_queue (new_queue_config 1000) None)]"

lemma sample_reader_ok:
  "store_holds [] (ik_store (rd_intake sample_reader))" "\<not> rd_stop sample_reader"
  "rd_probe sample_reader \<in> set builtin_probes"
  "\<forall>(arrived, due, q) \<in> set sample_input. \<not> clock_lost due"
  "metrics_agree 0 0 sample_reader"
  by (simp_all add: sample_reader_def new_intake_def store_holds_new builtin_probes_def
      sample_input_def clock_lost_def metrics_agree_def new_stats_def)

section \<open>Properties\<close>



text \<open>
  C2. No event of a built-in probe goes uncounted: over a run, the events taken from the ring
  buffer are those emitted, those sampled out (by the rate or by the gate) and those that could
  not be decoded.
\<close>

theorem reader_run_accounts:
  assumes "rd_probe rd \<in> set builtin_probes" "store_holds h (ik_store (rd_intake rd))"
    and "\<not> rd_stop rd" "\<forall>(arrived, due, q) \<in> set ins. \<not> clock_lost due"
  shows "\<exists>os left' rd' taken rest. run_reader bind resident ins left rd = Some (os, left', rd') \<and>
    arrivals left ins = taken @ left' @ rest \<and>
    counted rd' = counted rd + of_nat (length taken)"
proof -
  obtain os left' rd' k store' e' rest where
    run: "run_reader bind resident ins left rd = Some (os, left', rd')"
    and b: "bind_all bind (to_emit rd (take k (arrivals left ins))) (ik_enricher (rd_intake rd)) =
      (concat os, e')"
    and same: "same_intake (reader_after (take k (arrivals left ins)) (concat os) e' store' rd) rd'"
    and rest: "left' @ rest = drop k (arrivals left ins)"
    using run_reader_arrivals [OF assms(2-4), of bind resident left] by (elim exE conjE) (rule that)
  have "length (concat os) = length (to_emit rd (take k (arrivals left ins)))"
    using b by (metis fst_conv length_bind_all)
  note counted_after [OF assms(1) this, of e' store']
  with counted_same [OF same] run rest show ?thesis
    by (intro exI [of _ os] exI [of _ left'] exI [of _ rd']
        exI [of _ "take k (arrivals left ins)"] exI [of _ rest])
      (metis append_take_drop_id)
qed

theorem reader_run_accounts_witness:
  "\<exists>os left' rd' taken rest.
    run_reader (\<lambda>r e. (r, Suc e)) length sample_input [] sample_reader = Some (os, left', rd') \<and>
    arrivals [] sample_input = taken @ left' @ rest \<and>
    counted rd' = counted sample_reader + of_nat (length taken)"
  by (rule reader_run_accounts [OF sample_reader_ok(3,1,2,4)])

text \<open>
  C3. The metric and \<open>jalki status\<close> agree: a turn, however it ends, keeps the drop counter and
  the event counter that Prometheus scrapes equal to the reader's own statistics, counted from
  where they stood when the reader started.
\<close>

theorem reader_metrics_agree:
  assumes "store_holds h (ik_store (rd_intake rd))" "metrics_agree d n rd"
    and "reader_turn bind resident items due rd q = Some t"
  shows "metrics_agree d n (tn_reader t)"
proof (cases "rd_stop rd")
  case True
  with assms(2,3) show ?thesis by (auto simp: reader_turn_def)
next
  case False
  obtain ls e' where
    "bind_all bind (to_emit rd (take max_drain_items items)) (ik_enricher (rd_intake rd)) = (ls, e')"
    by force
  from reader_turn_reader [OF assms(1,3) this False] metrics_after [OF assms(2)] show ?thesis
    by (auto simp: Let_def intro: metrics_poll split: option.splits)
qed

theorem reader_metrics_agree_witness:
  "\<exists>t. reader_turn (\<lambda>r e. (r, e)) length [(5, 6, replicate 112 7)] (Poll (Some [3, 4]) (Some 9))
      sample_reader (new_queue (new_queue_config 1000) None) = Some t \<and>
    metrics_agree 0 0 (tn_reader t)"
proof -
  have c: "\<not> clock_lost (Poll (Some [3, 4]) (Some 9))" by (simp add: clock_lost_def)
  obtain t where t: "reader_turn (\<lambda>r e. (r, e)) length [(5, 6, replicate 112 7)]
      (Poll (Some [3, 4]) (Some 9)) sample_reader (new_queue (new_queue_config 1000) None) = Some t"
    using reader_turn_eq [OF sample_reader_ok(1,2) c prod.collapse [symmetric],
        where bind = "\<lambda>r e. (r, e)" and items = "[(5, 6, replicate 112 7)]" and resident = length
          and q = "new_queue (new_queue_config 1000) None"]
    by blast
  with reader_metrics_agree [OF sample_reader_ok(1,5) t] show ?thesis by blast
qed

text \<open>
  C4. Sampling is exact: with a rate of one in \<open>n\<close>, a new reader keeps of the first \<open>k\<close> events
  precisely every \<open>n\<close>-th one, for any \<open>k\<close> below the counter's wrap-around.
\<close>

theorem sampling_every_nth:
  assumes "probe_sample_rate p = 1 / real n" "2 \<le> n" "length items < 2 ^ 64" "n < 2 ^ 64"
  shows "kept p 0 items =
    map (\<lambda>m. items ! (m - 1)) (filter (\<lambda>m. n dvd m) [1..<length items + 1])"
proof -
  have "do_sampling p" using assms(1,2) by (simp add: do_sampling_def)
  with sampled_positions [of n 0 items] assms show ?thesis
    by (simp add: kept_def sample_every_inverse del: upt_Suc)
qed

theorem sampling_every_nth_witness:
  "kept (tcp_close_probe\<lparr>probe_sample_rate := 1 / real 2\<rparr>) 0 ''abcde'' = ''bd''"
proof -
  have "[1..<6] = [1, 2, 3, 4, 5 :: nat]" by (simp add: upt_rec)
  with sampling_every_nth [of "tcp_close_probe\<lparr>probe_sample_rate := 1 / real 2\<rparr>" 2 "''abcde''"]
  show ?thesis by simp
qed


end
