(* ===== verification/Probe_Registry.thy ===== *)
theory Probe_Registry
  imports Probe_Reader "HOL-Library.AList"
begin

text \<open>
  The registry of attached probes (\<open>jalki/src/registry.rs\<close>), the attach loop of the loader
  (\<open>jalki/src/loader.rs\<close>), the setup of a reader (\<open>spawn_reader\<close>) and what the daemon does with
  them on deploy and detach (\<open>DaemonHandle\<close> in \<open>jalki/src/runtime.rs\<close>).

  The eBPF library is a parameter: a record of the operations used on an object of type
  \<open>'o\<close>.  A stop flag shared between a reader and the registry is a number; the flags that are set
  are a set.  The hash map is an association list.
\<close>

section \<open>The eBPF object\<close>

datatype program_kind = P_Fentry | P_Fexit | P_Tracepoint | P_Other
datatype map_kind = M_Ring | M_Per_Cpu | M_Other

record 'o ebpf_ops =
  eb_program :: "'o \<Rightarrow> string \<Rightarrow> program_kind option"
  eb_load :: "'o \<Rightarrow> string \<Rightarrow> attachment \<Rightarrow> 'o option"
  eb_attach :: "'o \<Rightarrow> string \<Rightarrow> attachment \<Rightarrow> 'o option"
  eb_take_map :: "'o \<Rightarrow> string \<Rightarrow> (map_kind \<times> 'o) option"

datatype attach_error =
  Already_Attached string | Program_Not_Found string | Wrong_Kind attachment |
  Load_Failed attachment | Attach_Failed attachment | Ring_Not_Found string | Not_A_Ring string |
  Drops_Not_Found string | Not_Per_Cpu string | Clock_Error | Zero_Attached

fun kind_of :: "attachment \<Rightarrow> program_kind" where
  "kind_of (At_Fentry f) = P_Fentry"
| "kind_of (At_Fexit f) = P_Fexit"
| "kind_of (At_Tracepoint p c n) = P_Tracepoint"

fun program_for :: "string \<Rightarrow> attachment \<Rightarrow> string" where
  "program_for prog (At_Tracepoint p c n) = p"
| "program_for prog _ = prog"

text \<open>
  One attachment: find the program, check its kind, load it, attach it.  The three
  \<open>attach_*\<close> functions of the loader and the three arms of \<open>attach\<close> are this, for one kind each.
\<close>

definition attach_one ::
  "'o ebpf_ops \<Rightarrow> string \<Rightarrow> attachment \<Rightarrow> 'o \<Rightarrow> (attach_error option) \<times> 'o" where
  "attach_one ops prog att eb =
     (let name = program_for prog att in
      case eb_program ops eb name of
        None \<Rightarrow> (Some (Program_Not_Found name), eb)
      | Some k \<Rightarrow>
          if k \<noteq> kind_of att then (Some (Wrong_Kind att), eb)
          else (case eb_load ops eb name att of
                  None \<Rightarrow> (Some (Load_Failed att), eb)
                | Some eb \<Rightarrow>
                    (case eb_attach ops eb name att of
                       None \<Rightarrow> (Some (Attach_Failed att), eb)
                     | Some eb \<Rightarrow> (None, eb))))"

text \<open>The loop of \<open>attach\<close>: the first failure ends it.\<close>

fun attach_programs ::
  "'o ebpf_ops \<Rightarrow> string \<Rightarrow> attachment list \<Rightarrow> 'o \<Rightarrow> (attach_error option) \<times> 'o" where
  "attach_programs ops prog [] eb = (None, eb)"
| "attach_programs ops prog (att # atts) eb =
     (case attach_one ops prog att eb of
        (Some err, eb) \<Rightarrow> (Some err, eb)
      | (None, eb) \<Rightarrow> attach_programs ops prog atts eb)"

section \<open>The loader\<close>

text \<open>The attachments of one probe at startup: a failure is counted and the next one is tried.\<close>

fun load_attachments ::
  "'o ebpf_ops \<Rightarrow> string \<Rightarrow> attachment list \<Rightarrow> nat \<times> bool \<times> 'o \<Rightarrow> nat \<times> bool \<times> 'o" where
  "load_attachments ops prog [] s = s"
| "load_attachments ops prog (att # atts) (n, ok, eb) =
     (case attach_one ops prog att eb of
        (None, eb) \<Rightarrow> load_attachments ops prog atts (n + 1, ok, eb)
      | (Some err, eb) \<Rightarrow> load_attachments ops prog atts (n, False, eb))"

fun load_probes ::
  "'o ebpf_ops \<Rightarrow> probe list \<Rightarrow> nat \<times> string list \<times> 'o \<Rightarrow> nat \<times> string list \<times> 'o" where
  "load_probes ops [] s = s"
| "load_probes ops (p # ps) (n, skipped, eb) =
     (case load_attachments ops (probe_program p) (probe_attachments p) (n, True, eb) of
        (n, ok, eb) \<Rightarrow> load_probes ops ps (n, if ok then skipped else skipped @ [probe_name p], eb))"

definition load_and_attach ::
  "'o ebpf_ops \<Rightarrow> probe list \<Rightarrow> 'o \<Rightarrow> attach_error + (string list \<times> 'o)" where
  "load_and_attach ops probes eb =
     (case load_probes ops probes (0, [], eb) of
        (attached, skipped, eb) \<Rightarrow>
          if attached = 0 then Inl Zero_Attached else Inr (skipped, eb))"

section \<open>Starting a reader\<close>

definition drops_suffix :: string where
  "drops_suffix = ''_DROPS''"

definition spawn_reader ::
  "'o ebpf_ops \<Rightarrow> probe \<Rightarrow> u64 option \<Rightarrow> probe_stats \<Rightarrow> 'o \<Rightarrow> (attach_error + probe_stats) \<times> 'o" where
  "spawn_reader ops p now st eb =
     (let map_name = probe_map p; drop_map = map_name @ drops_suffix in
      case eb_take_map ops eb map_name of
        None \<Rightarrow> (Inl (Ring_Not_Found map_name), eb)
      | Some (k, eb) \<Rightarrow>
          if k \<noteq> M_Ring then (Inl (Not_A_Ring map_name), eb)
          else
            (case eb_take_map ops eb drop_map of
               None \<Rightarrow> (Inl (Drops_Not_Found drop_map), eb)
             | Some (k, eb) \<Rightarrow>
                 if k \<noteq> M_Per_Cpu then (Inl (Not_Per_Cpu drop_map), eb)
                 else (case now of
                         None \<Rightarrow> (Inl Clock_Error, eb)
                       | Some t \<Rightarrow> (Inr (start_drop_tracking t st), eb))))"

section \<open>The registry\<close>

record attached_probe =
  ap_probe :: probe
  ap_since :: int
  ap_stats :: probe_stats
  ap_stop :: "nat option"

record probe_registry =
  rg_attached :: "(string \<times> attached_probe) list"
  rg_next :: u64

definition new_registry :: probe_registry where
  "new_registry = \<lparr>rg_attached = [], rg_next = 1\<rparr>"

definition pad3 :: "string \<Rightarrow> string" where
  "pad3 s = replicate (3 - length s) (CHR ''0'') @ s"

definition probe_id :: "u64 \<Rightarrow> string" where
  "probe_id n = ''probe_'' @ pad3 (decimal (unat n))"

text \<open>The entry and the exit of \<open>attach\<close>, each under the lock; what is between is not.\<close>

definition name_attached :: "probe \<Rightarrow> probe_registry \<Rightarrow> bool" where
  "name_attached p rg \<longleftrightarrow> (\<exists>e \<in> set (rg_attached rg). probe_name (ap_probe (snd e)) = probe_name p)"

definition insert_attached ::
  "probe \<Rightarrow> int \<Rightarrow> probe_stats \<Rightarrow> nat option \<Rightarrow> probe_registry \<Rightarrow> string \<times> probe_registry" where
  "insert_attached p now st stop rg =
     (let ident = probe_id (rg_next rg)
      in (ident, rg\<lparr>rg_next := rg_next rg + 1,
                    rg_attached := AList.update ident
                      \<lparr>ap_probe = p, ap_since = now, ap_stats = st, ap_stop = stop\<rparr>
                      (rg_attached rg)\<rparr>))"

definition attach ::
  "'o ebpf_ops \<Rightarrow> probe \<Rightarrow> int \<Rightarrow> u64 option \<Rightarrow> nat \<Rightarrow> 'o \<Rightarrow> probe_registry \<Rightarrow>
   (attach_error + string) \<times> 'o \<times> probe_registry" where
  "attach ops p now clock flag eb rg =
     (if name_attached p rg then (Inl (Already_Attached (probe_name p)), eb, rg)
      else
        (case attach_programs ops (probe_program p) (probe_attachments p) eb of
           (Some err, eb) \<Rightarrow> (Inl err, eb, rg)
         | (None, eb) \<Rightarrow>
             (case spawn_reader ops p clock new_stats eb of
                (Inl err, eb) \<Rightarrow> (Inl err, eb, rg)
              | (Inr st, eb) \<Rightarrow>
                  (case insert_attached p now st (Some flag) rg of
                     (ident, rg) \<Rightarrow> (Inr ident, eb, rg)))))"

definition register_startup_probe ::
  "probe \<Rightarrow> int \<Rightarrow> probe_stats \<Rightarrow> probe_registry \<Rightarrow> string \<times> probe_registry" where
  "register_startup_probe p now st rg = insert_attached p now st None rg"

datatype detach_error = Startup_Probe string

text \<open>\<open>detach\<close> returns the probe's name and the flag it sets.\<close>

definition detach ::
  "string \<Rightarrow> probe_registry \<Rightarrow> (detach_error + (string \<times> nat) option) \<times> probe_registry" where
  "detach ident rg =
     (case map_of (rg_attached rg) ident of
        None \<Rightarrow> (Inr None, rg)
      | Some e \<Rightarrow>
          (case ap_stop e of
             None \<Rightarrow> (Inl (Startup_Probe ident), rg)
           | Some flag \<Rightarrow>
               (Inr (Some (probe_name (ap_probe e), flag)),
                rg\<lparr>rg_attached := AList.delete ident (rg_attached rg)\<rparr>)))"

definition is_attached :: "string \<Rightarrow> probe_registry \<Rightarrow> bool" where
  "is_attached function rg \<longleftrightarrow>
     (\<exists>e \<in> set (rg_attached rg).
        \<exists>att \<in> set (probe_attachments (ap_probe (snd e))). attachment_function att = function)"

record probe_status =
  pst_probe_id :: string
  pst_function :: string
  pst_name :: string
  pst_since :: int
  pst_events_total :: u64
  pst_drops :: u64
  pst_sample_rate :: real

definition status_of :: "string \<times> attached_probe \<Rightarrow> probe_status" where
  "status_of e =
     (case e of (ident, a) \<Rightarrow>
        \<lparr>pst_probe_id = ident,
         pst_function = (case probe_attachments (ap_probe a) of
            [] \<Rightarrow> [] | att # atts \<Rightarrow> attachment_function att),
         pst_name = probe_name (ap_probe a), pst_since = ap_since a,
         pst_events_total = events_emitted (ap_stats a), pst_drops = events_dropped (ap_stats a),
         pst_sample_rate = probe_sample_rate (ap_probe a)\<rparr>)"

definition status :: "probe_registry \<Rightarrow> probe_status list" where
  "status rg = map status_of (rg_attached rg)"

definition get_status :: "string \<Rightarrow> probe_registry \<Rightarrow> probe_status option" where
  "get_status ident rg = List.find (\<lambda>s. pst_probe_id s = ident) (status rg)"

definition observability_stats ::
  "probe_registry \<Rightarrow> (string \<times> string \<times> string \<times> probe_stats) list" where
  "observability_stats rg =
     map (\<lambda>(ident, a). (ident, probe_name (ap_probe a), probe_occurrence_type (ap_probe a), ap_stats a))
       (rg_attached rg)"

section \<open>The daemon handle\<close>

text \<open>
  The shared object with the pre-compiled programs, the objects of the generated probes by
  function, and the stop flags that are set.
\<close>

record 'o daemon_handle =
  dh_ebpf :: 'o
  dh_registry :: probe_registry
  dh_generated :: "(string \<times> 'o) list"
  dh_stopped :: "nat set"

definition pre_compiled :: "string \<Rightarrow> probe option" where
  "pre_compiled function =
     (if function \<in> {''sched_process_exec'', ''process_exec''} then Some process_exec_probe
      else if function = ''tcp_connect'' then Some tcp_connect_probe
      else if function = ''tcp_close'' then Some tcp_close_probe
      else if function = ''tcp_retransmit_skb'' then Some tcp_retransmit_probe
      else if function \<in> {''security_file_open'', ''file_open''} then Some file_open_probe
      else None)"

text \<open>The fast path of \<open>deploy_probe\<close>.\<close>

definition deploy_pre_compiled ::
  "'o ebpf_ops \<Rightarrow> probe \<Rightarrow> int \<Rightarrow> u64 option \<Rightarrow> nat \<Rightarrow> 'o daemon_handle \<Rightarrow>
   (attach_error + string) \<times> 'o daemon_handle" where
  "deploy_pre_compiled ops p now clock flag h =
     (case attach ops p now clock flag (dh_ebpf h) (dh_registry h) of
        (res, eb, rg) \<Rightarrow> (res, h\<lparr>dh_ebpf := eb, dh_registry := rg\<rparr>))"

text \<open>The end of \<open>deploy_codegen\<close>, with the loaded object of the generated program.\<close>

definition deploy_generated ::
  "'o ebpf_ops \<Rightarrow> string \<Rightarrow> probe \<Rightarrow> 'o \<Rightarrow> int \<Rightarrow> u64 option \<Rightarrow> nat \<Rightarrow> 'o daemon_handle \<Rightarrow>
   (attach_error + string) \<times> 'o daemon_handle" where
  "deploy_generated ops function p eb now clock flag h =
     (case attach ops p now clock flag eb (dh_registry h) of
        (Inl err, eb, rg) \<Rightarrow> (Inl err, h\<lparr>dh_registry := rg\<rparr>)
      | (Inr ident, eb, rg) \<Rightarrow>
          (Inr ident,
           h\<lparr>dh_registry := rg, dh_generated := AList.update function eb (dh_generated h)\<rparr>))"

definition detach_probe ::
  "string \<Rightarrow> 'o daemon_handle \<Rightarrow> (detach_error + bool) \<times> 'o daemon_handle" where
  "detach_probe ident h =
     (case detach ident (dh_registry h) of
        (Inl err, rg) \<Rightarrow> (Inl err, h\<lparr>dh_registry := rg\<rparr>)
      | (Inr None, rg) \<Rightarrow> (Inr False, h\<lparr>dh_registry := rg\<rparr>)
      | (Inr (Some (name, flag)), rg) \<Rightarrow>
          (Inr True,
           h\<lparr>dh_registry := rg, dh_generated := AList.delete name (dh_generated h),
             dh_stopped := insert flag (dh_stopped h)\<rparr>))"

section \<open>Identifiers\<close>

lemma parse_zeros: "parse_digits mx 0 (replicate k (CHR ''0'') @ s) = parse_digits mx 0 s"
  by (induction k) (simp_all add: digit_value_def)

lemma pad3_inject: "pad3 (decimal m) = pad3 (decimal n) \<longleftrightarrow> m = n"
proof
  assume "pad3 (decimal m) = pad3 (decimal n)"
  then have "parse_digits (max m n) 0 (pad3 (decimal m)) = parse_digits (max m n) 0 (pad3 (decimal n))"
    by simp
  then show "m = n" by (simp add: pad3_def parse_zeros parse_digits_decimal)
qed simp

lemma probe_id_inject: "probe_id m = probe_id n \<longleftrightarrow> m = n"
  by (simp add: probe_id_def pad3_inject word_unat_eq_iff)

text \<open>Every identifier in the registry was handed out: it is below the counter.\<close>

definition registry_ok :: "probe_registry \<Rightarrow> bool" where
  "registry_ok rg \<longleftrightarrow>
     distinct (map fst (rg_attached rg)) \<and>
     set (map fst (rg_attached rg)) \<subseteq> probe_id ` {n. n < rg_next rg}"

lemma registry_ok_new: "registry_ok new_registry"
  by (simp add: registry_ok_def new_registry_def)

lemma fresh_id: "registry_ok rg \<Longrightarrow> probe_id (rg_next rg) \<notin> fst ` set (rg_attached rg)"
  by (auto simp: registry_ok_def probe_id_inject)

lemma unat_next: "(m :: u64) \<noteq> - 1 \<Longrightarrow> unat (m + 1) = Suc (unat m)"
  using unatSuc [of m] by (metis add.commute add_eq_0_iff)

lemma less_next: "m \<noteq> - 1 \<Longrightarrow> n < m + 1 \<longleftrightarrow> n \<le> (m :: u64)"
  by (simp add: word_less_nat_alt word_le_nat_alt unat_next less_Suc_eq_le)

lemma insert_attached_ok:
  assumes "registry_ok rg" "rg_next rg \<noteq> - 1"
  shows "registry_ok (snd (insert_attached p now st stop rg))"
    and "fst (insert_attached p now st stop rg) = probe_id (rg_next rg)"
    and "rg_next (snd (insert_attached p now st stop rg)) = rg_next rg + 1"
    and "rg_attached (snd (insert_attached p now st stop rg)) = rg_attached rg @
      [(probe_id (rg_next rg), \<lparr>ap_probe = p, ap_since = now, ap_stats = st, ap_stop = stop\<rparr>)]"
proof -
  have up: "AList.update k v al = al @ [(k, v)]" if "k \<notin> fst ` set al" for k :: string and v :: attached_probe and al
    using that by (induction al) auto
  show 4: "rg_attached (snd (insert_attached p now st stop rg)) = rg_attached rg @
      [(probe_id (rg_next rg), \<lparr>ap_probe = p, ap_since = now, ap_stats = st, ap_stop = stop\<rparr>)]"
    using fresh_id [OF assms(1)] by (simp add: insert_attached_def Let_def up)
  show "fst (insert_attached p now st stop rg) = probe_id (rg_next rg)"
    and 3: "rg_next (snd (insert_attached p now st stop rg)) = rg_next rg + 1"
    by (simp_all add: insert_attached_def Let_def)
  show "registry_ok (snd (insert_attached p now st stop rg))"
    using assms(1) fresh_id [OF assms(1)] less_next [OF assms(2)]
    unfolding registry_ok_def 3 4 by (auto intro: less_imp_le)
qed

lemma detach_ok: "registry_ok rg \<Longrightarrow> registry_ok (snd (detach ident rg))"
  using dom_delete_subset [of ident "rg_attached rg"]
  by (auto simp: detach_def registry_ok_def distinct_delete simp flip: set_map split: option.splits)

lemma attach_cases:
  assumes "attach ops p now clock flag eb rg = (res, eb', rg')"
  obtains (1) err where "res = Inl err" "rg' = rg"
    | (2) ident st where "res = Inr ident" "\<not> name_attached p rg"
        "insert_attached p now st (Some flag) rg = (ident, rg')"
  using assms by (auto simp: attach_def split: if_splits prod.splits option.splits sum.splits)

lemma attach_effect:
  assumes "registry_ok rg" "rg_next rg \<noteq> - 1" "attach ops p now clock flag eb rg = (res, eb', rg')"
  shows "case res of
      Inl err \<Rightarrow> rg' = rg
    | Inr ident \<Rightarrow> ident = probe_id (rg_next rg) \<and> rg_next rg' = rg_next rg + 1 \<and>
        \<not> name_attached p rg \<and> registry_ok rg' \<and>
        (\<exists>st. rg_attached rg' = rg_attached rg @
          [(ident, \<lparr>ap_probe = p, ap_since = now, ap_stats = st, ap_stop = Some flag\<rparr>)])"
  using attach_cases [OF assms(3)]
proof cases
  case 1
  then show ?thesis by simp
next
  case (2 ident st)
  then have "ident = fst (insert_attached p now st (Some flag) rg)"
    "rg' = snd (insert_attached p now st (Some flag) rg)" by (simp_all flip: prod_eq_iff)
  with 2(1,2) insert_attached_ok [OF assms(1,2), of p now st "Some flag"] show ?thesis by auto
qed

section \<open>Histories\<close>

text \<open>Calls on a registry, and the identifiers that attach and register return, in order.\<close>

datatype 'o registry_call =
  Attach probe int "u64 option" nat 'o | Register probe int probe_stats | Detach string

fun registry_step ::
  "'o ebpf_ops \<Rightarrow> 'o registry_call \<Rightarrow> probe_registry \<Rightarrow> string list \<times> probe_registry" where
  "registry_step ops (Attach p now clock flag eb) rg =
     (case attach ops p now clock flag eb rg of
        (Inl err, eb, rg) \<Rightarrow> ([], rg)
      | (Inr ident, eb, rg) \<Rightarrow> ([ident], rg))"
| "registry_step ops (Register p now st) rg =
     (case register_startup_probe p now st rg of (ident, rg) \<Rightarrow> ([ident], rg))"
| "registry_step ops (Detach ident) rg = ([], snd (detach ident rg))"

fun registry_run ::
  "'o ebpf_ops \<Rightarrow> 'o registry_call list \<Rightarrow> probe_registry \<Rightarrow> string list \<times> probe_registry" where
  "registry_run ops [] rg = ([], rg)"
| "registry_run ops (c # cs) rg =
     (case registry_step ops c rg of
        (ids, rg) \<Rightarrow> (case registry_run ops cs rg of (ids', rg) \<Rightarrow> (ids @ ids', rg)))"

lemma detach_next: "rg_next (snd (detach ident rg)) = rg_next rg"
  by (simp add: detach_def split: option.splits)

lemma registry_step_effect:
  assumes "registry_ok rg" "rg_next rg \<noteq> - 1" "registry_step ops c rg = (ids, rg')"
  shows "registry_ok rg' \<and>
    (ids = [] \<and> rg_next rg' = rg_next rg \<or>
     ids = [probe_id (rg_next rg)] \<and> rg_next rg' = rg_next rg + 1)"
proof (cases c)
  case (Attach p now clock flag eb)
  obtain res eb' rg1 where a: "attach ops p now clock flag eb rg = (res, eb', rg1)"
    by (cases "attach ops p now clock flag eb rg") auto
  from attach_effect [OF assms(1,2) a] assms(1,3) Attach a show ?thesis
    by (auto split: sum.splits)
next
  case (Register p now st)
  with assms(3) insert_attached_ok [OF assms(1,2), of p now st None] show ?thesis
    by (auto simp: register_startup_probe_def split: prod.splits)
next
  case (Detach ident)
  with assms(1,3) detach_ok [OF assms(1), of ident] detach_next [of ident rg] show ?thesis by auto
qed

lemma registry_run_effect:
  "registry_ok rg \<Longrightarrow> unat (rg_next rg) + length cs < 2 ^ 64 \<Longrightarrow>
   registry_run ops cs rg = (ids, rg') \<Longrightarrow>
   registry_ok rg' \<and>
   ids = map probe_id (map of_nat [unat (rg_next rg)..<unat (rg_next rg')]) \<and>
   unat (rg_next rg) \<le> unat (rg_next rg') \<and>
   unat (rg_next rg') \<le> unat (rg_next rg) + length cs"
proof (induction cs arbitrary: rg ids)
  case Nil
  then show ?case by simp
next
  case (Cons c cs)
  have n: "rg_next rg \<noteq> - 1"
  proof
    assume "rg_next rg = - 1"
    then have "unat (rg_next rg) = 2 ^ 64 - 1" by (simp add: unsigned_minus_1_eq_mask mask_eq_exp_minus_1)
    with Cons.prems(2) show False by simp
  qed
  obtain ids1 rg1 where s: "registry_step ops c rg = (ids1, rg1)" by force
  obtain ids2 rg2 where r: "registry_run ops cs rg1 = (ids2, rg')"
    using Cons.prems(3) s by (auto split: prod.splits)
  from Cons.prems(3) s r have eq: "ids = ids1 @ ids2" by simp
  from registry_step_effect [OF Cons.prems(1) n s] have ok: "registry_ok rg1"
    and eff: "ids1 = [] \<and> rg_next rg1 = rg_next rg \<or>
      ids1 = [probe_id (rg_next rg)] \<and> unat (rg_next rg1) = Suc (unat (rg_next rg))"
    using unat_next [OF n] by auto
  then have "unat (rg_next rg1) + length cs < 2 ^ 64" using Cons.prems(2) by auto
  from Cons.IH [OF ok this r] eff show ?case
    by (auto simp: eq upt_conv_Cons)
qed

section \<open>Detaching what shares the daemon's object\<close>

text \<open>What aya documents of \<open>take_map\<close>: a map that was taken is gone from the object.\<close>

definition taken_once :: "'o ebpf_ops \<Rightarrow> bool" where
  "taken_once ops \<longleftrightarrow>
     (\<forall>eb name k eb'. eb_take_map ops eb name = Some (k, eb') \<longrightarrow> eb_take_map ops eb' name = None) \<and>
     (\<forall>eb name name' k eb'. eb_take_map ops eb name = Some (k, eb') \<longrightarrow>
        eb_take_map ops eb name' = None \<longrightarrow> eb_take_map ops eb' name' = None) \<and>
     (\<forall>eb prog att eb' name. eb_load ops eb prog att = Some eb' \<longrightarrow>
        eb_take_map ops eb name = None \<longrightarrow> eb_take_map ops eb' name = None) \<and>
     (\<forall>eb prog att eb' name. eb_attach ops eb prog att = Some eb' \<longrightarrow>
        eb_take_map ops eb name = None \<longrightarrow> eb_take_map ops eb' name = None)"

lemma take_gone: "taken_once ops \<Longrightarrow> eb_take_map ops eb name = Some (k, eb') \<Longrightarrow>
  eb_take_map ops eb' name = None"
  unfolding taken_once_def by blast

lemma gone_stays:
  assumes "taken_once ops" "eb_take_map ops eb name = None"
  shows "eb_take_map ops eb name' = Some (k, eb') \<Longrightarrow> eb_take_map ops eb' name = None"
    and "eb_load ops eb prog att = Some eb' \<Longrightarrow> eb_take_map ops eb' name = None"
    and "eb_attach ops eb prog att = Some eb' \<Longrightarrow> eb_take_map ops eb' name = None"
  using assms unfolding taken_once_def by blast+

lemma attach_one_gone:
  assumes "taken_once ops" "eb_take_map ops eb name = None" "attach_one ops prog att eb = (r, eb')"
  shows "eb_take_map ops eb' name = None"
proof -
  let ?name = "program_for prog att"
  consider "eb' = eb" | eb1 where "eb_load ops eb ?name att = Some eb1"
      "eb' = eb1 \<or> eb_attach ops eb1 ?name att = Some eb'"
    using assms(3) by (auto simp: attach_one_def Let_def split: option.splits if_splits)
  then show ?thesis
  proof cases
    case 1
    with assms(2) show ?thesis by simp
  next
    case 2
    from gone_stays(2) [OF assms(1,2) 2(1)] 2(2) gone_stays(3) [OF assms(1)] show ?thesis by blast
  qed
qed

lemma attach_programs_gone:
  "taken_once ops \<Longrightarrow> eb_take_map ops eb name = None \<Longrightarrow>
   attach_programs ops prog atts eb = (r, eb') \<Longrightarrow> eb_take_map ops eb' name = None"
proof (induction atts arbitrary: eb)
  case (Cons att atts)
  obtain r1 eb1 where a: "attach_one ops prog att eb = (r1, eb1)" by force
  from attach_one_gone [OF Cons.prems(1,2) a] Cons a show ?case
    by (auto split: option.splits)
qed simp

lemma spawn_takes_ring:
  assumes "taken_once ops" "spawn_reader ops p now st eb = (Inr st', eb')"
  shows "eb_take_map ops eb' (probe_map p) = None"
proof -
  from assms(2) obtain k eb1 k' where
    1: "eb_take_map ops eb (probe_map p) = Some (k, eb1)"
    and 2: "eb_take_map ops eb1 (probe_map p @ drops_suffix) = Some (k', eb')"
    by (auto simp: spawn_reader_def Let_def split: option.splits if_splits prod.splits)
  from gone_stays(1) [OF assms(1) take_gone [OF assms(1) 1] 2] show ?thesis .
qed

text \<open>
  A pre-compiled probe deployed at runtime is given a stop flag like a generated one, so detaching
  it succeeds, but its programs stay attached to the shared object and its ring buffer is gone:
  it can never be deployed again.
\<close>

lemma attach_takes_ring:
  assumes "taken_once ops" "attach ops p now clock flag eb rg = (Inr ident, eb', rg')"
  shows "eb_take_map ops eb' (probe_map p) = None"
proof -
  from assms(2) obtain eb1 st where "spawn_reader ops p clock new_stats eb1 = (Inr st, eb')"
    by (auto simp: attach_def split: if_splits prod.splits option.splits sum.splits)
  from spawn_takes_ring [OF assms(1) this] show ?thesis .
qed

lemma attach_without_ring:
  assumes "taken_once ops" "eb_take_map ops eb (probe_map p) = None"
  shows "\<exists>err. fst (attach ops p now clock flag eb rg) = Inl err"
proof -
  obtain r eb1 where a: "attach_programs ops (probe_program p) (probe_attachments p) eb = (r, eb1)"
    by force
  from attach_programs_gone [OF assms a] have "eb_take_map ops eb1 (probe_map p) = None" .
  with a show ?thesis by (simp add: attach_def spawn_reader_def Let_def split: option.splits)
qed

lemma redeploy_impossible:
  assumes "taken_once ops" "deploy_pre_compiled ops p now clock flag h = (Inr ident, h1)"
    and "detach_probe ident h1 = (Inr True, h2)"
  shows "dh_ebpf h2 = dh_ebpf h1 \<and>
    (\<exists>err. fst (deploy_pre_compiled ops p now' clock' flag' h2) = Inl err)"
proof -
  have same: "dh_ebpf h2 = dh_ebpf h1"
    using assms(3) by (auto simp: detach_probe_def split: prod.splits sum.splits option.splits)
  obtain eb rg where a: "attach ops p now clock flag (dh_ebpf h) (dh_registry h) = (Inr ident, eb, rg)"
    and "h1 = h\<lparr>dh_ebpf := eb, dh_registry := rg\<rparr>"
    using assms(2) by (auto simp: deploy_pre_compiled_def split: prod.splits)
  then have "eb_take_map ops (dh_ebpf h2) (probe_map p) = None"
    using attach_takes_ring [OF assms(1) a] by (simp add: same)
  from attach_without_ring [OF assms(1) this] show ?thesis
    by (simp add: same deploy_pre_compiled_def split: prod.splits) (metis fst_conv)
qed

text \<open>An object that holds programs of one kind and the maps listed.\<close>

definition sample_ebpf :: "string list ebpf_ops" where
  "sample_ebpf =
     \<lparr>eb_program = (\<lambda>eb name. Some P_Fexit), eb_load = (\<lambda>eb name att. Some eb),
      eb_attach = (\<lambda>eb name att. Some eb),
      eb_take_map = (\<lambda>eb name. if name \<in> set eb
         then Some (if name = ''TCP_CLOSE_EVENTS'' then M_Ring else M_Per_Cpu, removeAll name eb)
         else None)\<rparr>"

lemma sample_taken_once: "taken_once sample_ebpf"
  by (auto simp: taken_once_def sample_ebpf_def split: if_splits)

definition sample_handle :: "string list daemon_handle" where
  "sample_handle =
     \<lparr>dh_ebpf = [''TCP_CLOSE_EVENTS'', ''TCP_CLOSE_EVENTS_DROPS''], dh_registry = new_registry,
      dh_generated = [], dh_stopped = {}\<rparr>"

lemma redeploy_impossible_witness:
  "\<exists>h1 h2 err. deploy_pre_compiled sample_ebpf tcp_close_probe 0 (Some 5) 0 sample_handle =
      (Inr ''probe_001'', h1) \<and>
    detach_probe ''probe_001'' h1 = (Inr True, h2) \<and>
    fst (deploy_pre_compiled sample_ebpf tcp_close_probe 1 (Some 6) 1 h2) = Inl err"
proof -
  have one: "probe_id 1 = ''probe_001''" by code_simp
  obtain h1 where h1: "deploy_pre_compiled sample_ebpf tcp_close_probe 0 (Some 5) 0 sample_handle =
      (Inr ''probe_001'', h1)"
    and e: "map_of (rg_attached (dh_registry h1)) ''probe_001'' \<noteq> None"
      "\<forall>e. map_of (rg_attached (dh_registry h1)) ''probe_001'' = Some e \<longrightarrow> ap_stop e = Some 0"
    by (simp add: deploy_pre_compiled_def attach_def sample_ebpf_def tcp_close_probe_def
        builtin_probe_def attach_one_def spawn_reader_def sample_handle_def insert_attached_def
        new_registry_def name_attached_def drops_suffix_def Let_def one)
  then obtain h2 where h2: "detach_probe ''probe_001'' h1 = (Inr True, h2)"
    by (auto simp: detach_probe_def detach_def)
  from redeploy_impossible [OF sample_taken_once h1 h2] h1 h2 show ?thesis by blast
qed

section \<open>Properties\<close>

text \<open>
  C1. Identifiers are never reused: over any sequence of attaches, startup registrations and
  detaches of a new registry, shorter than the range of the counter, the identifiers handed out
  are pairwise distinct, also from those of probes detached since, and no two entries share one.
\<close>

theorem registry_ids_unique:
  assumes "registry_run ops cs new_registry = (ids, rg)" "length cs < 2 ^ 64 - 1"
  shows "distinct ids \<and> distinct (map fst (rg_attached rg)) \<and>
    set (map fst (rg_attached rg)) \<subseteq> insert (probe_id 0) (set ids)"
proof -
  have start: "unat (rg_next new_registry) = 1" by (simp add: new_registry_def)
  have "unat (rg_next new_registry) + length cs < 2 ^ 64" using assms(2) by (simp add: start)
  from registry_run_effect [OF registry_ok_new this assms(1)] have ok: "registry_ok rg"
    and ids: "ids = map probe_id (map of_nat [1..<unat (rg_next rg)])" by (simp_all add: start)
  have "inj_on (of_nat :: nat \<Rightarrow> u64) (set [1..<unat (rg_next rg)])"
    using unsigned_less [where 'a = nat, of "rg_next rg"]
    by (intro inj_onI) (auto simp: word_of_nat_eq_iff take_bit_nat_eq_self)
  then have "distinct ids"
    by (auto simp: ids distinct_map probe_id_inject inj_on_def)
  moreover have "probe_id ` {n. n < rg_next rg} \<subseteq> insert (probe_id 0) (set ids)"
  proof clarify
    fix n
    assume n: "n < rg_next rg" "probe_id n \<notin> set ids"
    then have "unat n < unat (rg_next rg)" by (simp add: word_less_nat_alt)
    then have "probe_id (of_nat (unat n)) \<in> set ids" if "unat n \<noteq> 0"
      using that unfolding ids map_map set_map
      by (intro image_eqI [of _ _ "unat n"]) simp_all
    with n(2) have "unat n = 0" by auto
    then show "probe_id n = probe_id 0" by (simp add: unat_eq_zero)
  qed
  ultimately show ?thesis using ok unfolding registry_ok_def by blast
qed

theorem registry_ids_unique_witness:
  "distinct (fst (registry_run sample_ebpf
     [Register tcp_close_probe 0 new_stats, Detach ''x'', Register tcp_close_probe 1 new_stats]
     new_registry))"
proof -
  obtain ids rg where r: "registry_run sample_ebpf
     [Register tcp_close_probe 0 new_stats, Detach ''x'', Register tcp_close_probe 1 new_stats]
     new_registry = (ids, rg)" by force
  show ?thesis unfolding r fst_conv using registry_ids_unique [OF r] by simp
qed

text \<open>
  C2. Detaching is exact: an unknown identifier changes nothing and is no error; a startup probe is
  refused and nothing changes; otherwise the entry alone leaves the registry, the reader's own flag
  is set, and of the generated objects only that of the probe's function is released.
\<close>

theorem detach_probe_exact:
  assumes "entry = map_of (rg_attached (dh_registry h)) ident"
  shows "(entry = None \<longrightarrow> detach_probe ident h = (Inr False, h)) \<and>
    (\<forall>e. entry = Some e \<longrightarrow> ap_stop e = None \<longrightarrow> detach_probe ident h = (Inl (Startup_Probe ident), h)) \<and>
    (\<forall>e flag. entry = Some e \<longrightarrow> ap_stop e = Some flag \<longrightarrow> (\<exists>h'. detach_probe ident h = (Inr True, h') \<and>
       map_of (rg_attached (dh_registry h')) = (map_of (rg_attached (dh_registry h)))(ident := None) \<and>
       rg_next (dh_registry h') = rg_next (dh_registry h) \<and>
       map_of (dh_generated h') = (map_of (dh_generated h))(probe_name (ap_probe e) := None) \<and>
       dh_stopped h' = insert flag (dh_stopped h) \<and> dh_ebpf h' = dh_ebpf h))"
  using assms by (auto simp: detach_probe_def detach_def delete_conv')

theorem detach_probe_exact_witness:
  "detach_probe (probe_id 1)
     \<lparr>dh_ebpf = (), dh_registry = snd (register_startup_probe tcp_close_probe 0 new_stats new_registry),
      dh_generated = [], dh_stopped = {}\<rparr> =
   (Inl (Startup_Probe (probe_id 1)),
     \<lparr>dh_ebpf = (), dh_registry = snd (register_startup_probe tcp_close_probe 0 new_stats new_registry),
      dh_generated = [], dh_stopped = {}\<rparr>)"
proof -
  let ?h = "\<lparr>dh_ebpf = (), dh_registry = snd (register_startup_probe tcp_close_probe 0 new_stats new_registry),
      dh_generated = [], dh_stopped = {}\<rparr> :: unit daemon_handle"
  have "map_of (rg_attached (dh_registry ?h)) (probe_id 1) =
    Some \<lparr>ap_probe = tcp_close_probe, ap_since = 0, ap_stats = new_stats, ap_stop = None\<rparr>"
    by (simp add: register_startup_probe_def insert_attached_def new_registry_def Let_def)
  from detach_probe_exact [OF this [symmetric]] show ?thesis by simp
qed

end
