(* ===== verification/Kernel_Programs.thy ===== *)
theory Kernel_Programs
  imports Probe_Reader
begin

text \<open>
  The hand-written eBPF programs (\<open>jalki-ebpf/src/\<close>): the three TCP programs, process exec and
  file open.  The kernel is a parameter: what its helpers answer while the program runs, memory
  reads that may fail among them.  A program's effect is on its ring buffer and on this CPU's drop
  counter.

  What user space decodes from an emitted event is compared with what the kernel held: the field
  order of the structs in the programs and in the decoders are written in different files and
  meet here.
\<close>

section \<open>The kernel as a program sees it\<close>

record kernel_ctx =
  kx_pid_tgid :: u64
  kx_uid_gid :: u64
  kx_time :: u64
  kx_cgroup :: u64
  kx_comm :: "u8 list option"
  kx_task :: u64
  kx_read :: "u64 \<Rightarrow> nat \<Rightarrow> u8 list option"
  kx_read_str :: "u64 \<Rightarrow> u8 list"
  kx_read_user_str :: "u64 \<Rightarrow> u8 list option"
  kx_d_path :: "u64 \<Rightarrow> int \<times> u8 list"
  kx_args :: "nat \<Rightarrow> u64"
  kx_tracepoint :: "nat \<Rightarrow> nat \<Rightarrow> u8 list option"
  kx_tracepoint_base :: u64
  kx_scratch :: bool
  kx_ring_free :: bool

text \<open>The maps user space fills: the filtered processes, the field offsets, the path prefixes.\<close>

record kernel_maps =
  km_filter :: "u32 list"
  km_task_offsets :: "u32 list"
  km_prefixes :: "sensitive_prefix list"

text \<open>One program's ring buffer, and the drop counter of the CPU.\<close>

record ring_state =
  rs_events :: "u8 list list"
  rs_drops :: u64

text \<open>What the helpers document: reads fill what was asked for.\<close>

definition kernel_answers :: "kernel_ctx \<Rightarrow> bool" where
  "kernel_answers k \<longleftrightarrow>
     (\<forall>addr n b. kx_read k addr n = Some b \<longrightarrow> length b = n) \<and>
     (\<forall>pos n b. kx_tracepoint k pos n = Some b \<longrightarrow> length b = n) \<and>
     (\<forall>c. kx_comm k = Some c \<longrightarrow> length c = 16) \<and>
     (\<forall>addr. length (kx_read_str k addr) = 256) \<and>
     (\<forall>addr b. kx_read_user_str k addr = Some b \<longrightarrow> length b = 256) \<and>
     (\<forall>addr. length (snd (kx_d_path k addr)) = 256)"

definition tgid_of :: "kernel_ctx \<Rightarrow> u32" where
  "tgid_of k = ucast (drop_bit 32 (kx_pid_tgid k))"

definition tid_of :: "kernel_ctx \<Rightarrow> u32" where
  "tid_of k = ucast (kx_pid_tgid k)"

definition comm_of :: "kernel_ctx \<Rightarrow> u8 list" where
  "comm_of k = (case kx_comm k of None \<Rightarrow> replicate 16 0 | Some c \<Rightarrow> c)"

definition read_num :: "kernel_ctx \<Rightarrow> u64 \<Rightarrow> nat \<Rightarrow> nat option" where
  "read_num k addr n = map_option le_nat (kx_read k addr n)"

definition read_or :: "nat \<Rightarrow> kernel_ctx \<Rightarrow> u64 \<Rightarrow> nat \<Rightarrow> nat" where
  "read_or d k addr n = (case read_num k addr n of None \<Rightarrow> d | Some v \<Rightarrow> v)"

section \<open>Shared helpers\<close>

definition is_self_filtered :: "kernel_maps \<Rightarrow> kernel_ctx \<Rightarrow> bool" where
  "is_self_filtered maps k = (tgid_of k \<in> set (km_filter maps))"

definition count_ring_buffer_drop :: "ring_state \<Rightarrow> ring_state" where
  "count_ring_buffer_drop rs = rs\<lparr>rs_drops := rs_drops rs + 1\<rparr>"

text \<open>\<open>output\<close> copies the struct as it lies in memory; \<open>pad\<close> is what its padding holds.\<close>

definition output_struct ::
  "u8 \<Rightarrow> kernel_ctx \<Rightarrow> cty list \<Rightarrow> cval list \<Rightarrow> ring_state \<Rightarrow> ring_state" where
  "output_struct pad k layout vals rs =
     (if kx_ring_free k then rs\<lparr>rs_events := rs_events rs @ [struct_image pad layout vals]\<rparr>
      else count_ring_buffer_drop rs)"

definition read_addrs :: "kernel_ctx \<Rightarrow> u64 \<Rightarrow> nat \<times> u8 list \<times> u8 list" where
  "read_addrs k sk =
     (let family = read_or 2 k (sk + 16) 2;
          wide = (\<lambda>pos. case kx_read k (sk + pos) 16 of None \<Rightarrow> replicate 16 0 | Some v \<Rightarrow> v);
          narrow = (\<lambda>pos. (case kx_read k (sk + pos) 4 of None \<Rightarrow> replicate 4 0 | Some v \<Rightarrow> v) @
                          replicate 12 0)
      in if family = 10 then (family, wide 72, wide 56) else (family, narrow 4, narrow 0))"

definition read_netns :: "kernel_ctx \<Rightarrow> u64 \<Rightarrow> nat" where
  "read_netns k sk =
     (case read_num k (sk + 48) 8 of
        None \<Rightarrow> 0
      | Some net_ptr \<Rightarrow>
          if net_ptr = 0 then 0 else read_or 0 k (of_nat net_ptr + 176) 4)"

section \<open>TCP\<close>

definition tcp_connect_handle ::
  "u8 \<Rightarrow> kernel_maps \<Rightarrow> kernel_ctx \<Rightarrow> ring_state \<Rightarrow> ring_state" where
  "tcp_connect_handle pad maps k rs =
     (if is_self_filtered maps k then rs
      else
        let sk = kx_args k 0; ret = ucast (kx_args k 1) :: u32;
            (family, src, dst) = read_addrs k sk
        in case read_num k (sk + 12) 2 of
             None \<Rightarrow> rs
           | Some dst_port \<Rightarrow>
               (case read_num k (sk + 14) 2 of
                  None \<Rightarrow> rs
                | Some src_port \<Rightarrow>
                    output_struct pad k tcp_connect_layout
                      [CNum (unat (kx_time k)), CNum (unat (tgid_of k)), CNum (unat (tid_of k)),
                       CBuf src, CBuf dst, CNum src_port, CNum dst_port, CNum family, CNum 0,
                       CNum (unat ret), CNum (unat (kx_cgroup k)), CBuf (comm_of k),
                       CNum (read_netns k sk), CNum 0] rs))"

definition tcp_close_handle ::
  "u8 \<Rightarrow> kernel_maps \<Rightarrow> kernel_ctx \<Rightarrow> ring_state \<Rightarrow> ring_state" where
  "tcp_close_handle pad maps k rs =
     (if is_self_filtered maps k then rs
      else
        let sk = kx_args k 0; (family, src, dst) = read_addrs k sk
        in case read_num k (sk + 12) 2 of
             None \<Rightarrow> rs
           | Some dst_port \<Rightarrow>
               (case read_num k (sk + 14) 2 of
                  None \<Rightarrow> rs
                | Some src_port \<Rightarrow>
                    output_struct pad k tcp_close_layout
                      [CNum (unat (kx_time k)), CNum (unat (tgid_of k)), CNum (unat (tid_of k)),
                       CBuf src, CBuf dst, CNum src_port, CNum dst_port, CNum family, CNum 0,
                       CNum (read_or 0 k (sk + 1608) 8), CNum (read_or 0 k (sk + 1808) 8), CNum 0,
                       CNum (unat (kx_cgroup k)), CBuf (comm_of k), CNum (read_netns k sk), CNum 0]
                      rs))"

definition tcp_retransmit_handle ::
  "u8 \<Rightarrow> kernel_maps \<Rightarrow> kernel_ctx \<Rightarrow> ring_state \<Rightarrow> ring_state" where
  "tcp_retransmit_handle pad maps k rs =
     (if is_self_filtered maps k then rs
      else
        let sk = kx_args k 0; (family, src, dst) = read_addrs k sk
        in case read_num k (sk + 12) 2 of
             None \<Rightarrow> rs
           | Some dst_port \<Rightarrow>
               (case read_num k (sk + 14) 2 of
                  None \<Rightarrow> rs
                | Some src_port \<Rightarrow>
                    output_struct pad k tcp_retransmit_layout
                      [CNum (unat (kx_time k)), CNum (unat (tgid_of k)), CNum (unat (tid_of k)),
                       CBuf src, CBuf dst, CNum src_port, CNum dst_port, CNum family,
                       CNum (read_or 0 k (sk + 18) 1), CNum 0, CNum 0, CNum (unat (kx_cgroup k)),
                       CBuf (comm_of k), CNum (read_netns k sk), CNum 0] rs))"

section \<open>Process exec\<close>

definition task_offset :: "kernel_maps \<Rightarrow> nat \<Rightarrow> u64" where
  "task_offset maps i =
     (if i < length (km_task_offsets maps) then ucast (km_task_offsets maps ! i) else 0)"

text \<open>
  The two chains \<open>current->a->b\<close>, read through offsets that are zero when BTF gave none:
  \<open>read_ppid\<close> and \<open>read_leader_start_boottime_ns\<close>.
\<close>

definition read_chain :: "kernel_maps \<Rightarrow> kernel_ctx \<Rightarrow> nat \<Rightarrow> nat \<Rightarrow> nat \<Rightarrow> nat" where
  "read_chain maps k i j n =
     (let a = task_offset maps i; b = task_offset maps j in
      if a = 0 \<or> b = 0 then 0
      else if kx_task k = 0 then 0
      else (case read_num k (kx_task k + a) 8 of
              None \<Rightarrow> 0
            | Some p \<Rightarrow> if p \<noteq> 0 then read_or 0 k (of_nat p + b) n else 0))"

definition read_ppid :: "kernel_maps \<Rightarrow> kernel_ctx \<Rightarrow> nat" where
  "read_ppid maps k = read_chain maps k 0 1 4"

definition read_leader_start_boottime_ns :: "kernel_maps \<Rightarrow> kernel_ctx \<Rightarrow> nat" where
  "read_leader_start_boottime_ns maps k = read_chain maps k 2 3 8"

definition exec_filename :: "kernel_ctx \<Rightarrow> u8 list" where
  "exec_filename k =
     (let loc = (case kx_tracepoint k 8 4 of None \<Rightarrow> 0 | Some b \<Rightarrow> le_nat b); pos = loc mod 0x10000
      in if pos \<noteq> 0 then kx_read_str k (kx_tracepoint_base k + of_nat pos) else replicate 256 0)"

definition process_exec_handle ::
  "u8 \<Rightarrow> kernel_maps \<Rightarrow> kernel_ctx \<Rightarrow> ring_state \<Rightarrow> ring_state" where
  "process_exec_handle pad maps k rs =
     (if is_self_filtered maps k then rs
      else
        let uid = ucast (kx_uid_gid k) :: u32; gid = ucast (drop_bit 32 (kx_uid_gid k)) :: u32
        in output_struct pad k process_exec_layout
             [CNum (unat (kx_time k)), CNum (unat (tgid_of k)), CNum (read_ppid maps k),
              CNum (unat uid), CNum (unat gid), CNum (unat (kx_cgroup k)), CNum 0,
              CNum (unat (tid_of k)), CBuf (comm_of k), CBuf (exec_filename k),
              CBuf (replicate 32 0), CNum (read_leader_start_boottime_ns maps k)] rs)"

section \<open>File open\<close>

definition file_f_path_offset :: u64 where "file_f_path_offset = 64"
definition file_f_flags_offset :: u64 where "file_f_flags_offset = 40"

definition read_file_flags :: "kernel_ctx \<Rightarrow> u64 \<Rightarrow> nat" where
  "read_file_flags k file = read_or 0 k (file + file_f_flags_offset) 4"

definition file_open_handle ::
  "u8 \<Rightarrow> kernel_maps \<Rightarrow> kernel_ctx \<Rightarrow> ring_state \<Rightarrow> ring_state" where
  "file_open_handle pad maps k rs =
     (if is_self_filtered maps k then rs
      else
        let file = kx_args k 0 in
        if file = 0 then rs
        else
          let ret = ucast (kx_args k 1) :: u32 in
          if \<not> kx_scratch k then rs
          else
            let (path_len, path) = kx_d_path k (file + file_f_path_offset) in
            if path_len \<le> 0 then rs
            else if \<not> matches_sensitive_prefix (km_prefixes maps) (of_bytes path) then rs
            else output_struct pad k file_open_layout
                   [CNum (unat (kx_time k)), CNum (unat (tgid_of k)),
                    CNum (unat (ucast (kx_uid_gid k) :: u32)), CNum (unat (kx_cgroup k)),
                    CNum (unat ret), CNum (read_file_flags k file), CBuf (comm_of k), CBuf path] rs)"

section \<open>What user space should see\<close>

definition sock_ips :: "kernel_ctx \<Rightarrow> ip_addr \<times> ip_addr" where
  "sock_ips k =
     (case read_addrs k (kx_args k 0) of (family, src, dst) \<Rightarrow> (ip_from src family, ip_from dst family))"

definition sock_family :: "kernel_ctx \<Rightarrow> u16" where
  "sock_family k = of_nat (fst (read_addrs k (kx_args k 0)))"

definition src_port_of :: "kernel_ctx \<Rightarrow> u16" where
  "src_port_of k = of_nat (read_or 0 k (kx_args k 0 + 14) 2)"

definition dst_port_of :: "kernel_ctx \<Rightarrow> u16" where
  "dst_port_of k = from_be16 (read_or 0 k (kx_args k 0 + 12) 2)"

definition ports_readable :: "kernel_ctx \<Rightarrow> bool" where
  "ports_readable k \<longleftrightarrow>
     read_num k (kx_args k 0 + 12) 2 \<noteq> None \<and> read_num k (kx_args k 0 + 14) 2 \<noteq> None"

definition seen_connect :: "kernel_ctx \<Rightarrow> tcp_connect_event" where
  "seen_connect k =
     \<lparr>tc_observed_at_ns = kx_time k, tc_pid = tgid_of k, tc_tid = tid_of k,
      tc_src_ip = fst (sock_ips k), tc_dst_ip = snd (sock_ips k), tc_src_port = src_port_of k,
      tc_dst_port = dst_port_of k, tc_addr_family = sock_family k, tc_ret = ucast (kx_args k 1),
      tc_cgroup_id = kx_cgroup k, tc_comm = nul_terminated_str (comm_of k),
      tc_netns = of_nat (read_netns k (kx_args k 0))\<rparr>"

definition seen_close :: "kernel_ctx \<Rightarrow> tcp_close_event" where
  "seen_close k =
     \<lparr>tl_observed_at_ns = kx_time k, tl_pid = tgid_of k, tl_tid = tid_of k,
      tl_src_ip = fst (sock_ips k), tl_dst_ip = snd (sock_ips k), tl_src_port = src_port_of k,
      tl_dst_port = dst_port_of k, tl_addr_family = sock_family k,
      tl_bytes_sent = of_nat (read_or 0 k (kx_args k 0 + 1608) 8),
      tl_bytes_received = of_nat (read_or 0 k (kx_args k 0 + 1808) 8), tl_duration_ns = 0,
      tl_cgroup_id = kx_cgroup k, tl_comm = nul_terminated_str (comm_of k),
      tl_netns = of_nat (read_netns k (kx_args k 0))\<rparr>"

definition seen_retransmit :: "kernel_ctx \<Rightarrow> tcp_retransmit_event" where
  "seen_retransmit k =
     \<lparr>tr_observed_at_ns = kx_time k, tr_pid = tgid_of k, tr_tid = tid_of k,
      tr_src_ip = fst (sock_ips k), tr_dst_ip = snd (sock_ips k), tr_src_port = src_port_of k,
      tr_dst_port = dst_port_of k, tr_addr_family = sock_family k,
      tr_state = tcp_state_from_u8 (of_nat (read_or 0 k (kx_args k 0 + 18) 1)),
      tr_cgroup_id = kx_cgroup k, tr_comm = nul_terminated_str (comm_of k),
      tr_netns = of_nat (read_netns k (kx_args k 0))\<rparr>"

definition seen_exec :: "kernel_maps \<Rightarrow> kernel_ctx \<Rightarrow> process_exec_event" where
  "seen_exec maps k =
     \<lparr>pe_observed_at_ns = kx_time k, pe_pid = tgid_of k, pe_tid = tid_of k,
      pe_ppid = of_nat (read_ppid maps k), pe_uid = ucast (kx_uid_gid k),
      pe_gid = ucast (drop_bit 32 (kx_uid_gid k)), pe_cgroup_id = kx_cgroup k, pe_ret = 0,
      pe_comm = nul_terminated_str (comm_of k), pe_filename = nul_terminated_str (exec_filename k),
      pe_argv_hash = replicate 32 0,
      pe_leader_start = of_nat (read_leader_start_boottime_ns maps k)\<rparr>"

definition seen_open :: "kernel_ctx \<Rightarrow> file_open_event" where
  "seen_open k =
     (let path = snd (kx_d_path k (kx_args k 0 + file_f_path_offset)) in
      \<lparr>fo_observed_at_ns = kx_time k, fo_pid = tgid_of k, fo_uid = ucast (kx_uid_gid k),
       fo_cgroup_id = kx_cgroup k, fo_ret = ucast (kx_args k 1),
       fo_flags = of_nat (read_file_flags k (kx_args k 0)),
       fo_comm = nul_terminated_str (comm_of k), fo_path = nul_terminated_str path,
       fo_path_truncated = path_is_truncated path\<rparr>)"

section \<open>Facts about the reads\<close>

lemma read_num_less: "kernel_answers k \<Longrightarrow> read_num k addr n = Some v \<Longrightarrow> v < 256 ^ n"
  by (auto simp: kernel_answers_def read_num_def intro: le_nat_less [THEN order.strict_trans2])

lemma read_or_less: "kernel_answers k \<Longrightarrow> d < 256 ^ n \<Longrightarrow> read_or d k addr n < 256 ^ n"
  by (simp add: read_or_def read_num_less split: option.splits)

lemma length_comm_of: "kernel_answers k \<Longrightarrow> length (comm_of k) = 16"
  by (simp add: kernel_answers_def comm_of_def split: option.splits)

lemma read_addrs_ok:
  assumes "kernel_answers k" "read_addrs k sk = (family, src, dst)"
  shows "family < 2 ^ 16" and "length src = 16" and "length dst = 16"
  using assms read_or_less [OF assms(1), of 2 2 "sk + 16"]
  by (auto simp: read_addrs_def Let_def kernel_answers_def split: option.splits if_splits)

lemma read_netns_less: "kernel_answers k \<Longrightarrow> read_netns k sk < 2 ^ 32"
  using read_or_less [of k 0 4] by (simp add: read_netns_def split: option.splits)

lemma read_chain_less: "kernel_answers k \<Longrightarrow> read_chain maps k i j n < 256 ^ n"
  using read_or_less [of k 0 n]
  by (simp add: read_chain_def Let_def split: option.splits)

lemma length_exec_filename: "kernel_answers k \<Longrightarrow> length (exec_filename k) = 256"
  by (simp add: exec_filename_def kernel_answers_def Let_def)

section \<open>From the ring buffer to the record\<close>

text \<open>
  A program that ran with an event to report: the event is in the ring buffer and its probe
  decodes it to the event expected, or the ring buffer was full and the drop is counted.
\<close>

definition delivers ::
  "kernel_ctx \<Rightarrow> probe \<Rightarrow> kernel_event \<Rightarrow> ulid \<Rightarrow> int \<Rightarrow> string \<Rightarrow> ring_state \<Rightarrow> ring_state \<Rightarrow> bool" where
  "delivers k p e ident now cluster rs rs' \<longleftrightarrow>
     (if kx_ring_free k
      then \<exists>raw. rs' = rs\<lparr>rs_events := rs_events rs @ [raw]\<rparr> \<and>
        probe_to_evidence p ident now raw cluster =
          Inr (normalize ident now (metadata_of (probe_attachments p) (probe_name p)) cluster e)
      else rs' = rs\<lparr>rs_drops := rs_drops rs + 1\<rparr>)"

lemma output_delivers:
  assumes "list_all2 field_ok layout vals"
    and "\<And>raw. from_bytes raw = map_result of_fields (read_raw layout raw)"
    and "p = builtin_probe atts name typ program ring (decoding_with from_bytes con)"
    and "con (of_fields vals) = e"
  shows "delivers k p e ident now cluster rs (output_struct pad k layout vals rs)"
  using read_raw_image [OF assms(1), of pad "[]"]
  by (auto simp: delivers_def output_struct_def count_ring_buffer_drop_def assms(2,3)
      assms(4) [symmetric] builtin_probe_def decoded_evidence_def decoding_with_def map_result_def)

lemma unat_bounds [simp]: "unat (v :: u64) < 256 ^ 8" "unat (w :: u32) < 256 ^ 4"
  using unsigned_less [where 'a = nat, of v] unsigned_less [where 'a = nat, of w] by simp_all

lemma connect_delivers:
  assumes "kernel_answers k" "\<not> is_self_filtered maps k" "ports_readable k"
  shows "delivers k tcp_connect_probe (TcpConnect (seen_connect k)) ident now cluster rs
    (tcp_connect_handle pad maps k rs)"
proof -
  obtain family src dst where a: "read_addrs k (kx_args k 0) = (family, src, dst)"
    by (cases "read_addrs k (kx_args k 0)")
  obtain dp sp where ports: "read_num k (kx_args k 0 + 12) 2 = Some dp"
    "read_num k (kx_args k 0 + 14) 2 = Some sp"
    using assms(3) by (auto simp: ports_readable_def)
  let ?vals = "[CNum (unat (kx_time k)), CNum (unat (tgid_of k)), CNum (unat (tid_of k)),
    CBuf src, CBuf dst, CNum sp, CNum dp, CNum family, CNum 0, CNum (unat (ucast (kx_args k 1) :: u32)),
    CNum (unat (kx_cgroup k)), CBuf (comm_of k), CNum (read_netns k (kx_args k 0)), CNum 0]"
  have "list_all2 field_ok tcp_connect_layout ?vals"
    using read_addrs_ok [OF assms(1) a] read_num_less [OF assms(1) ports(1)]
      read_num_less [OF assms(1) ports(2)] length_comm_of [OF assms(1)] read_netns_less [OF assms(1)]
      unat_bounds
    by (simp add: tcp_connect_layout_def)
  moreover have "TcpConnect (tcp_connect_of ?vals) = TcpConnect (seen_connect k)"
    by (simp add: tcp_connect_of_def seen_connect_def sock_ips_def a sock_family_def src_port_of_def
        dst_port_of_def read_or_def ports)
  moreover have "tcp_connect_handle pad maps k rs = output_struct pad k tcp_connect_layout ?vals rs"
    using assms(2) by (simp add: tcp_connect_handle_def a ports)
  ultimately show ?thesis
    using output_delivers [OF _ tcp_connect_from_bytes_def tcp_connect_probe_def] by simp
qed

lemma close_delivers:
  assumes "kernel_answers k" "\<not> is_self_filtered maps k" "ports_readable k"
  shows "delivers k tcp_close_probe (TcpClose (seen_close k)) ident now cluster rs
    (tcp_close_handle pad maps k rs)"
proof -
  obtain family src dst where a: "read_addrs k (kx_args k 0) = (family, src, dst)"
    by (cases "read_addrs k (kx_args k 0)")
  obtain dp sp where ports: "read_num k (kx_args k 0 + 12) 2 = Some dp"
    "read_num k (kx_args k 0 + 14) 2 = Some sp"
    using assms(3) by (auto simp: ports_readable_def)
  let ?vals = "[CNum (unat (kx_time k)), CNum (unat (tgid_of k)), CNum (unat (tid_of k)),
    CBuf src, CBuf dst, CNum sp, CNum dp, CNum family, CNum 0,
    CNum (read_or 0 k (kx_args k 0 + 1608) 8), CNum (read_or 0 k (kx_args k 0 + 1808) 8), CNum 0,
    CNum (unat (kx_cgroup k)), CBuf (comm_of k), CNum (read_netns k (kx_args k 0)), CNum 0]"
  have "list_all2 field_ok tcp_close_layout ?vals"
    using read_addrs_ok [OF assms(1) a] read_num_less [OF assms(1) ports(1)]
      read_num_less [OF assms(1) ports(2)] length_comm_of [OF assms(1)] read_netns_less [OF assms(1)]
      unat_bounds read_or_less [OF assms(1), of 0 8]
    by (simp add: tcp_close_layout_def)
  moreover have "TcpClose (tcp_close_of ?vals) = TcpClose (seen_close k)"
    by (simp add: tcp_close_of_def seen_close_def sock_ips_def a sock_family_def src_port_of_def
        dst_port_of_def read_or_def ports)
  moreover have "tcp_close_handle pad maps k rs = output_struct pad k tcp_close_layout ?vals rs"
    using assms(2) by (simp add: tcp_close_handle_def a ports Let_def)
  ultimately show ?thesis
    using output_delivers [OF _ tcp_close_from_bytes_def tcp_close_probe_def] by simp
qed

lemma retransmit_delivers:
  assumes "kernel_answers k" "\<not> is_self_filtered maps k" "ports_readable k"
  shows "delivers k tcp_retransmit_probe (TcpRetransmit (seen_retransmit k)) ident now cluster rs
    (tcp_retransmit_handle pad maps k rs)"
proof -
  obtain family src dst where a: "read_addrs k (kx_args k 0) = (family, src, dst)"
    by (cases "read_addrs k (kx_args k 0)")
  obtain dp sp where ports: "read_num k (kx_args k 0 + 12) 2 = Some dp"
    "read_num k (kx_args k 0 + 14) 2 = Some sp"
    using assms(3) by (auto simp: ports_readable_def)
  let ?vals = "[CNum (unat (kx_time k)), CNum (unat (tgid_of k)), CNum (unat (tid_of k)),
    CBuf src, CBuf dst, CNum sp, CNum dp, CNum family, CNum (read_or 0 k (kx_args k 0 + 18) 1),
    CNum 0, CNum 0, CNum (unat (kx_cgroup k)), CBuf (comm_of k),
    CNum (read_netns k (kx_args k 0)), CNum 0]"
  have "list_all2 field_ok tcp_retransmit_layout ?vals"
    using read_addrs_ok [OF assms(1) a] read_num_less [OF assms(1) ports(1)]
      read_num_less [OF assms(1) ports(2)] length_comm_of [OF assms(1)] read_netns_less [OF assms(1)]
      unat_bounds read_or_less [OF assms(1), of 0 1]
    by (simp add: tcp_retransmit_layout_def)
  moreover have "TcpRetransmit (tcp_retransmit_of ?vals) = TcpRetransmit (seen_retransmit k)"
    by (simp add: tcp_retransmit_of_def seen_retransmit_def sock_ips_def a sock_family_def
        src_port_of_def dst_port_of_def read_or_def ports)
  moreover have "tcp_retransmit_handle pad maps k rs =
      output_struct pad k tcp_retransmit_layout ?vals rs"
    using assms(2) by (simp add: tcp_retransmit_handle_def a ports Let_def)
  ultimately show ?thesis
    using output_delivers [OF _ tcp_retransmit_from_bytes_def tcp_retransmit_probe_def] by simp
qed

lemma exec_delivers:
  assumes "kernel_answers k" "\<not> is_self_filtered maps k"
  shows "delivers k process_exec_probe (ProcessExec (seen_exec maps k)) ident now cluster rs
    (process_exec_handle pad maps k rs)"
proof -
  let ?vals = "[CNum (unat (kx_time k)), CNum (unat (tgid_of k)), CNum (read_ppid maps k),
    CNum (unat (ucast (kx_uid_gid k) :: u32)), CNum (unat (ucast (drop_bit 32 (kx_uid_gid k)) :: u32)),
    CNum (unat (kx_cgroup k)), CNum 0, CNum (unat (tid_of k)), CBuf (comm_of k),
    CBuf (exec_filename k), CBuf (replicate 32 0), CNum (read_leader_start_boottime_ns maps k)]"
  have "list_all2 field_ok process_exec_layout ?vals"
    using length_comm_of [OF assms(1)] length_exec_filename [OF assms(1)]
      read_chain_less [OF assms(1), of maps 0 1 4] read_chain_less [OF assms(1), of maps 2 3 8]
      unat_bounds
    by (simp add: process_exec_layout_def process_exec_filename_len_def read_ppid_def
        read_leader_start_boottime_ns_def)
  moreover have "ProcessExec (process_exec_of ?vals) = ProcessExec (seen_exec maps k)"
    by (simp add: process_exec_of_def seen_exec_def)
  moreover have "process_exec_handle pad maps k rs = output_struct pad k process_exec_layout ?vals rs"
    using assms(2) by (simp add: process_exec_handle_def Let_def)
  ultimately show ?thesis
    using output_delivers [OF _ process_exec_from_bytes_def process_exec_probe_def] by simp
qed

text \<open>When the file-open program has something to report.\<close>

definition open_gated :: "kernel_maps \<Rightarrow> kernel_ctx \<Rightarrow> bool" where
  "open_gated maps k \<longleftrightarrow>
     \<not> is_self_filtered maps k \<and> kx_args k 0 \<noteq> 0 \<and> kx_scratch k \<and>
     0 < fst (kx_d_path k (kx_args k 0 + file_f_path_offset)) \<and>
     matches_sensitive_prefix (km_prefixes maps)
       (of_bytes (snd (kx_d_path k (kx_args k 0 + file_f_path_offset))))"

lemma open_delivers:
  assumes "kernel_answers k"
  shows "if open_gated maps k
    then delivers k file_open_probe (FileOpen (seen_open k)) ident now cluster rs
      (file_open_handle pad maps k rs)
    else file_open_handle pad maps k rs = rs"
proof (cases "open_gated maps k")
  case False
  then show ?thesis
    by (auto simp: open_gated_def file_open_handle_def Let_def split: prod.splits)
next
  case True
  let ?path = "snd (kx_d_path k (kx_args k 0 + file_f_path_offset))"
  let ?vals = "[CNum (unat (kx_time k)), CNum (unat (tgid_of k)),
    CNum (unat (ucast (kx_uid_gid k) :: u32)), CNum (unat (kx_cgroup k)),
    CNum (unat (ucast (kx_args k 1) :: u32)), CNum (read_file_flags k (kx_args k 0)),
    CBuf (comm_of k), CBuf ?path]"
  have "length ?path = 256" using assms by (simp add: kernel_answers_def)
  then have "list_all2 field_ok file_open_layout ?vals"
    using length_comm_of [OF assms] read_or_less [OF assms, of 0 4] unat_bounds
    by (simp add: file_open_layout_def open_path_len_def read_file_flags_def)
  moreover have "FileOpen (file_open_of ?vals) = FileOpen (seen_open k)"
    by (simp add: file_open_of_def seen_open_def Let_def)
  moreover have "file_open_handle pad maps k rs = output_struct pad k file_open_layout ?vals rs"
    using True by (auto simp: open_gated_def file_open_handle_def Let_def split: prod.splits)
  ultimately show ?thesis
    using True output_delivers [OF _ file_open_from_bytes_def file_open_probe_def] by simp
qed

section \<open>A watched open reaches the queue\<close>

text \<open>A path buffer holds a path: its bytes, then a terminating zero, then anything.\<close>

definition holds_path :: "u8 list \<Rightarrow> string \<Rightarrow> bool" where
  "holds_path b path \<longleftrightarrow> length path < 256 \<and> take (length path) b = as_bytes path \<and>
     b ! length path = 0 \<and> length b = 256"

lemma holds_path_text:
  assumes "holds_path b path" "0 \<notin> set (as_bytes path)" "utf8_valid (as_bytes path)"
  shows "nul_terminated_str b = path" and "\<not> path_is_truncated b"
proof -
  have b: "b = as_bytes path @ 0 # drop (Suc (length path)) b"
    using assms(1) id_take_nth_drop [of "length path" b] by (simp add: holds_path_def)
  have "takeWhile (\<lambda>c. c \<noteq> 0) b = as_bytes path"
    using assms(2) by (subst b) (auto simp: takeWhile_append2 takeWhile_tail)
  with assms(3) show "nul_terminated_str b = path" by (simp add: nul_terminated_str_def)
  have "0 \<in> set b" by (subst b) simp
  then show "\<not> path_is_truncated b" by (simp add: path_is_truncated_def)
qed

lemma gate_on_buffer:
  assumes "holds_path b path" "is_match \<lparr>patterns = pats\<rparr> path" "length pats \<le> max_sensitive_prefixes"
    and "starts_with path ''/''"
  shows "matches_sensitive_prefix (populate_sensitive_prefixes pats) (of_bytes b)"
proof -
  from assms(2) obtain pattern where p: "pattern \<in> set (take max_sensitive_prefixes pats)"
    "pattern_matches pattern path"
    using assms(3) by (auto simp: is_match_def list_ex_iff)
  let ?pre = "coarse_prefix pattern"
  let ?e = "make_sensitive_prefix ?pre"
  obtain r where path: "path = ?pre @ r"
    using coarse_prefix_of_match [OF p(2) assms(4)] by (auto simp: starts_with_iff_append)
  have b: "of_bytes b ! j = path ! j" if "j < length path" for j
  proof -
    have "take (length path) (of_bytes b) = path"
      using assms(1) by (simp add: holds_path_def of_bytes_def take_map) (simp flip: of_bytes_def)
    with that show ?thesis by (metis nth_take)
  qed
  have "path ! j = ?pre ! j" if "j < length ?pre" for j
    using that by (subst path) (simp add: nth_append)
  with b have "of_bytes b ! j = ?pre ! j" if "j < length ?pre" for j
    using that path by (metis length_append trans_less_add1)
  then have "prefix_matches (of_bytes b) (sp_bytes ?e) (sp_len ?e)"
    by (auto simp: prefix_matches_def make_sensitive_prefix_def Let_def prefix_loop_iff
        sensitive_prefix_len_def file_open_path_len_def nth_append)
  moreover have "sp_len ?e \<noteq> 0"
    by (simp add: make_sensitive_prefix_def Let_def sensitive_prefix_len_def)
  ultimately show ?thesis
    using populate_contains [OF p(1)] by (auto simp: matches_sensitive_prefix_def list_ex_iff)
qed

lemma label_file_open:
  "label (to_occurrence ident now cluster (FileOpen e)) ''resource_ref_id'' = Some (fo_path e)"
  "label (to_occurrence ident now cluster (FileOpen e)) ''result'' =
     Some (if fo_succeeded e then ''allowed'' else ''denied'')"
  by (simp_all add: label_to_occurrence file_open_labels_def truncated_label_def)

text \<open>A path that is not UTF-8 decodes to no path at all, and the default patterns drop it.\<close>

lemma undecodable_path_dropped:
  assumes "\<not> utf8_valid (takeWhile (\<lambda>c. c \<noteq> 0) path)" "fo_path e = nul_terminated_str path"
  shows "list_all (\<lambda>rec. \<not> record_matches_sensitive_paths rec \<lparr>patterns = default_sensitive_paths\<rparr>)
    (normalize ident now meta cluster (FileOpen e))"
proof -
  have "\<not> is_match \<lparr>patterns = default_sensitive_paths\<rparr> []" by code_simp
  moreover have "fo_path e = []" using assms by (simp add: nul_terminated_str_def)
  ultimately show ?thesis
    by (simp add: normalize_def record_matches_sensitive_paths_def Let_def to_occurrence_fields
        label_file_open)
qed

section \<open>Properties\<close>


text \<open>A kernel that answers every read with zeros, on a socket at address 4096.\<close>

definition sample_kctx :: kernel_ctx where
  "sample_kctx =
     \<lparr>kx_pid_tgid = 0x2A0000002B, kx_uid_gid = 0, kx_time = 7, kx_cgroup = 9, kx_comm = None,
      kx_task = 0, kx_read = (\<lambda>addr n. Some (replicate n 0)), kx_read_str = (\<lambda>addr. replicate 256 0),
      kx_read_user_str = (\<lambda>addr. None),
      kx_d_path = (\<lambda>addr. (18, as_bytes ''/root/.ssh/id_rsa'' @ replicate 239 0)),
      kx_args = (\<lambda>i. if i = 0 then 4096 else 0), kx_tracepoint = (\<lambda>pos n. None),
      kx_tracepoint_base = 0, kx_scratch = True, kx_ring_free = True\<rparr>"

definition sample_maps :: kernel_maps where
  "sample_maps =
     \<lparr>km_filter = [1], km_task_offsets = [0, 0, 0, 0],
      km_prefixes = populate_sensitive_prefixes default_sensitive_paths\<rparr>"

lemma sample_kctx_ok:
  "kernel_answers sample_kctx" "\<not> is_self_filtered sample_maps sample_kctx"
  "ports_readable sample_kctx"
  by (simp_all add: kernel_answers_def sample_kctx_def is_self_filtered_def sample_maps_def tgid_of_def
      ports_readable_def read_num_def)




end
