(* ===== verification/Open_Attempts.thy ===== *)
theory Open_Attempts
  imports Kernel_Programs "HOL-Library.Sublist"
begin

text \<open>
  The failed-open programs (\<open>jalki-ebpf/src/file_open_attempt.rs\<close>): the path of a watched open
  is stashed at the entry of the system call, under the thread, and reported at its exit when the
  call failed.

  The two programs run interleaved over all threads, so a run is a sequence of entries, exits and
  evictions of the bounded in-flight map.  What they report is compared with the failed watched
  opens of the system calls themselves.
\<close>

section \<open>The programs\<close>

definition sys_enter_filename_offset :: nat where "sys_enter_filename_offset = 24"
definition sys_exit_ret_offset :: nat where "sys_exit_ret_offset = 16"

type_synonym stashed_paths = "u64 \<rightharpoonup> u8 list"

text \<open>The path an entry stashes, when it stashes one.\<close>

definition stashed :: "kernel_maps \<Rightarrow> kernel_ctx \<Rightarrow> u8 list option" where
  "stashed maps k =
     (if is_self_filtered maps k then None
      else
        let ptr = (case kx_tracepoint k sys_enter_filename_offset 8 of None \<Rightarrow> 0 | Some b \<Rightarrow> le_nat b) in
        if ptr = 0 then None
        else if \<not> kx_scratch k then None
        else (case kx_read_user_str k (of_nat ptr) of
                None \<Rightarrow> None
              | Some b \<Rightarrow>
                  if b ! 0 \<noteq> 0x2F then None
                  else if \<not> matches_sensitive_prefix (km_prefixes maps) (of_bytes b) then None
                  else Some b))"

definition handle_enter :: "kernel_maps \<Rightarrow> kernel_ctx \<Rightarrow> stashed_paths \<Rightarrow> stashed_paths" where
  "handle_enter maps k m =
     (case stashed maps k of None \<Rightarrow> m | Some b \<Rightarrow> m(kx_pid_tgid k \<mapsto> b))"

definition exit_ret :: "kernel_ctx \<Rightarrow> u64" where
  "exit_ret k = (case kx_tracepoint k sys_exit_ret_offset 8 of None \<Rightarrow> 0 | Some b \<Rightarrow> of_nat (le_nat b))"

definition attempt_values :: "kernel_ctx \<Rightarrow> u8 list \<Rightarrow> cval list" where
  "attempt_values k path =
     [CNum (unat (kx_time k)), CNum (unat (tgid_of k)), CNum (unat (ucast (kx_uid_gid k) :: u32)),
      CNum (unat (kx_cgroup k)), CNum (unat (ucast (exit_ret k) :: u32)), CNum 0,
      CBuf (comm_of k), CBuf path]"

definition handle_exit ::
  "u8 \<Rightarrow> kernel_ctx \<Rightarrow> stashed_paths \<times> ring_state \<Rightarrow> stashed_paths \<times> ring_state" where
  "handle_exit pad k s =
     (case s of (m, rs) \<Rightarrow>
        (case m (kx_pid_tgid k) of
           None \<Rightarrow> (m, rs)
         | Some path \<Rightarrow>
             if sint (exit_ret k) < 0
             then if \<not> kx_scratch k then (m, rs)
                  else (m(kx_pid_tgid k := None),
                        output_struct pad k file_open_layout (attempt_values k path) rs)
             else (m(kx_pid_tgid k := None), rs)))"

section \<open>Runs\<close>

datatype syscall_step = Enter kernel_ctx | Exit kernel_ctx | Evict u64

fun attempt_step ::
  "u8 \<Rightarrow> kernel_maps \<Rightarrow> syscall_step \<Rightarrow> stashed_paths \<times> ring_state \<Rightarrow> stashed_paths \<times> ring_state" where
  "attempt_step pad maps (Enter k) (m, rs) = (handle_enter maps k m, rs)"
| "attempt_step pad maps (Exit k) (m, rs) = handle_exit pad k (m, rs)"
| "attempt_step pad maps (Evict key) (m, rs) = (m(key := None), rs)"

definition run_attempts ::
  "u8 \<Rightarrow> kernel_maps \<Rightarrow> syscall_step list \<Rightarrow> stashed_paths \<times> ring_state \<Rightarrow> stashed_paths \<times> ring_state" where
  "run_attempts pad maps tr s = foldl (\<lambda>s step. attempt_step pad maps step s) s tr"

section \<open>What the system calls did\<close>

text \<open>
  Every exit is matched with the entry of its thread.  An attempt is the exit of a failed call
  with the path its entry was given, where that was a watched one.
\<close>

fun failed_opens ::
  "kernel_maps \<Rightarrow> (u64 \<rightharpoonup> kernel_ctx) \<Rightarrow> syscall_step list \<Rightarrow> (kernel_ctx \<times> u8 list) list" where
  "failed_opens maps calls [] = []"
| "failed_opens maps calls (Enter k # tr) = failed_opens maps (calls(kx_pid_tgid k \<mapsto> k)) tr"
| "failed_opens maps calls (Exit k # tr) =
     (case calls (kx_pid_tgid k) of
        None \<Rightarrow> failed_opens maps calls tr
      | Some e \<Rightarrow>
          (case stashed maps e of
             None \<Rightarrow> []
           | Some path \<Rightarrow> if sint (exit_ret k) < 0 then [(k, path)] else []) @
          failed_opens maps (calls(kx_pid_tgid k := None)) tr)"
| "failed_opens maps calls (Evict key # tr) = failed_opens maps calls tr"

text \<open>A thread enters a call only after it has left the one before.\<close>

fun bracketed :: "(u64 \<rightharpoonup> kernel_ctx) \<Rightarrow> syscall_step list \<Rightarrow> bool" where
  "bracketed calls [] = True"
| "bracketed calls (Enter k # tr) =
     (calls (kx_pid_tgid k) = None \<and> bracketed (calls(kx_pid_tgid k \<mapsto> k)) tr)"
| "bracketed calls (Exit k # tr) = (kx_scratch k \<and> bracketed (calls(kx_pid_tgid k := None)) tr)"
| "bracketed calls (Evict key # tr) = bracketed calls tr"

definition report :: "u8 \<Rightarrow> (kernel_ctx \<times> u8 list) list \<Rightarrow> ring_state \<Rightarrow> ring_state" where
  "report pad attempts rs =
     foldl (\<lambda>rs (k, path). output_struct pad k file_open_layout (attempt_values k path) rs) rs attempts"

text \<open>The in-flight map knows some of the watched calls under way; without evictions, all.\<close>

definition tracks :: "kernel_maps \<Rightarrow> (u64 \<rightharpoonup> kernel_ctx) \<Rightarrow> stashed_paths \<Rightarrow> bool" where
  "tracks maps calls m \<longleftrightarrow>
     (\<forall>key path. m key = Some path \<longrightarrow> (\<exists>e. calls key = Some e \<and> stashed maps e = Some path))"

definition complete :: "kernel_maps \<Rightarrow> (u64 \<rightharpoonup> kernel_ctx) \<Rightarrow> stashed_paths \<Rightarrow> bool" where
  "complete maps calls m \<longleftrightarrow> (\<forall>key. m key = Option.bind (calls key) (stashed maps))"

fun evicts :: "syscall_step \<Rightarrow> bool" where
  "evicts (Evict key) = True"
| "evicts _ = False"

lemma run_attempts_simps [simp]:
  "run_attempts pad maps [] s = s"
  "run_attempts pad maps (step # tr) s = run_attempts pad maps tr (attempt_step pad maps step s)"
  by (simp_all add: run_attempts_def)

lemma report_simps [simp]:
  "report pad [] rs = rs"
  "report pad ((k, path) # as) rs =
     report pad as (output_struct pad k file_open_layout (attempt_values k path) rs)"
  "report pad (as @ as') rs = report pad as' (report pad as rs)"
  by (simp_all add: report_def)

lemma tracks_enter:
  assumes "tracks maps calls m" "calls (kx_pid_tgid k) = None"
  shows "tracks maps (calls(kx_pid_tgid k \<mapsto> k)) (handle_enter maps k m)"
proof -
  have "m (kx_pid_tgid k) = None" using assms by (cases "m (kx_pid_tgid k)") (fastforce simp: tracks_def)+
  with assms(1) show ?thesis by (auto simp: tracks_def handle_enter_def split: option.split)
qed

lemma complete_enter:
  assumes "complete maps calls m" "calls (kx_pid_tgid k) = None"
  shows "complete maps (calls(kx_pid_tgid k \<mapsto> k)) (handle_enter maps k m)"
proof -
  have "m (kx_pid_tgid k) = None" using assms by (simp add: complete_def)
  with assms(1) show ?thesis by (auto simp: complete_def handle_enter_def split: option.split)
qed

lemma run_attempts_sound:
  "tracks maps calls m \<Longrightarrow> bracketed calls tr \<Longrightarrow>
   \<exists>as. subseq as (failed_opens maps calls tr) \<and>
     snd (run_attempts pad maps tr (m, rs)) = report pad as rs"
proof (induction tr arbitrary: calls m rs)
  case Nil
  show ?case by (intro exI [of _ "[]"]) simp
next
  case (Cons step tr)
  show ?case
  proof (cases step)
    case (Enter k)
    have "tracks maps (calls(kx_pid_tgid k \<mapsto> k)) (handle_enter maps k m)"
      using tracks_enter [OF Cons.prems(1), of k] Cons.prems(2) Enter by simp
    moreover have "bracketed (calls(kx_pid_tgid k \<mapsto> k)) tr"
      using Cons.prems(2) Enter by (simp del: fun_upd_apply)
    ultimately show ?thesis using Cons.IH Enter by (simp del: fun_upd_apply)
  next
    case (Evict key)
    have "tracks maps calls (m(key := None))" using Cons.prems(1) by (auto simp: tracks_def)
    from Cons.IH [OF this] Cons.prems(2) Evict show ?thesis by (simp del: fun_upd_apply)
  next
    case (Exit k)
    let ?calls = "calls(kx_pid_tgid k := None)"
    have br: "bracketed ?calls tr" "kx_scratch k" using Cons.prems(2) Exit by simp_all
    show ?thesis
    proof (cases "m (kx_pid_tgid k)")
      case None
      then have "tracks maps ?calls m" using Cons.prems(1) by (auto simp: tracks_def)
      from Cons.IH [OF this br(1), of rs] obtain as where
        as: "subseq as (failed_opens maps ?calls tr)" "snd (run_attempts pad maps tr (m, rs)) = report pad as rs"
        by (elim exE conjE) (rule that)
      have "subseq as (failed_opens maps calls (step # tr))"
      proof (cases "calls (kx_pid_tgid k)")
        case None
        then have "?calls = calls" by (auto simp: fun_eq_iff)
        with as(1) None Exit show ?thesis by simp
      next
        case (Some e)
        with as(1) Exit show ?thesis
          by (auto simp del: fun_upd_apply intro: list_emb_append2 split: option.splits)
      qed
      with as(2) Exit None show ?thesis by (intro exI [of _ as]) (simp add: handle_exit_def)
    next
      case (Some path)
      then obtain e where e: "calls (kx_pid_tgid k) = Some e" "stashed maps e = Some path"
        using Cons.prems(1) by (auto simp: tracks_def)
      have t: "tracks maps ?calls (m(kx_pid_tgid k := None))"
        using Cons.prems(1) by (auto simp: tracks_def)
      show ?thesis
      proof (cases "sint (exit_ret k) < 0")
        case True
        let ?rs = "output_struct pad k file_open_layout (attempt_values k path) rs"
        from Cons.IH [OF t br(1), of ?rs] obtain as where
          "subseq as (failed_opens maps ?calls tr)"
          "snd (run_attempts pad maps tr (m(kx_pid_tgid k := None), ?rs)) = report pad as ?rs" by blast
        with True Exit Some e br(2) show ?thesis
          by (intro exI [of _ "(k, path) # as"]) (simp add: handle_exit_def del: fun_upd_apply)
      next
        case False
        with Cons.IH [OF t br(1), of rs] Exit Some e show ?thesis by (simp add: handle_exit_def del: fun_upd_apply)
      qed
    qed
  qed
qed

lemma run_attempts_exact:
  "complete maps calls m \<Longrightarrow> bracketed calls tr \<Longrightarrow> \<not> list_ex evicts tr \<Longrightarrow>
   snd (run_attempts pad maps tr (m, rs)) = report pad (failed_opens maps calls tr) rs"
proof (induction tr arbitrary: calls m rs)
  case Nil
  show ?case by simp
next
  case (Cons step tr)
  show ?case
  proof (cases step)
    case (Enter k)
    have "complete maps (calls(kx_pid_tgid k \<mapsto> k)) (handle_enter maps k m)"
      using complete_enter [OF Cons.prems(1), of k] Cons.prems(2) Enter by simp
    moreover have "bracketed (calls(kx_pid_tgid k \<mapsto> k)) tr"
      using Cons.prems(2) Enter by (simp del: fun_upd_apply)
    moreover have "\<not> list_ex evicts tr" using Cons.prems(3) by simp
    ultimately show ?thesis using Cons.IH Enter by (simp del: fun_upd_apply)
  next
    case (Evict key)
    with Cons.prems show ?thesis by simp
  next
    case (Exit k)
    let ?calls = "calls(kx_pid_tgid k := None)"
    have rest: "bracketed ?calls tr" "\<not> list_ex evicts tr" "kx_scratch k"
      using Cons.prems Exit by simp_all
    have m: "m (kx_pid_tgid k) = Option.bind (calls (kx_pid_tgid k)) (stashed maps)"
      using Cons.prems(1) by (simp add: complete_def)
    have "complete maps ?calls (m(kx_pid_tgid k := None))"
      using Cons.prems(1) by (simp add: complete_def)
    note IH = Cons.IH [OF this rest(1,2)]
    have same: "m(kx_pid_tgid k := None) = m" if "m (kx_pid_tgid k) = None"
      using that by (auto simp: fun_eq_iff)
    show ?thesis
    proof (cases "calls (kx_pid_tgid k)")
      case None
      then have "?calls = calls" by (auto simp: fun_eq_iff)
      with IH same m None Exit show ?thesis by (simp add: handle_exit_def del: fun_upd_apply)
    next
      case (Some e)
      with IH same m rest(3) Exit show ?thesis
        by (cases "stashed maps e") (auto simp: handle_exit_def simp del: fun_upd_apply)
    qed
  qed
qed

section \<open>What user space decodes\<close>

definition seen_attempt :: "kernel_ctx \<Rightarrow> u8 list \<Rightarrow> file_open_event" where
  "seen_attempt k path =
     \<lparr>fo_observed_at_ns = kx_time k, fo_pid = tgid_of k, fo_uid = ucast (kx_uid_gid k),
      fo_cgroup_id = kx_cgroup k, fo_ret = ucast (exit_ret k), fo_flags = 0,
      fo_comm = nul_terminated_str (comm_of k), fo_path = nul_terminated_str path,
      fo_path_truncated = path_is_truncated path\<rparr>"

definition decodes_attempt ::
  "ulid \<Rightarrow> int \<Rightarrow> string \<Rightarrow> kernel_ctx \<times> u8 list \<Rightarrow> u8 list \<Rightarrow> bool" where
  "decodes_attempt ident now cluster a raw \<longleftrightarrow>
     probe_to_evidence file_open_attempt_probe ident now raw cluster =
       Inr (normalize ident now (metadata_of (probe_attachments file_open_attempt_probe)
         (probe_name file_open_attempt_probe)) cluster (FileOpenAttempt (seen_attempt (fst a) (snd a))))"

lemma attempt_delivers:
  assumes "kernel_answers k" "length path = 256"
  shows "delivers k file_open_attempt_probe (FileOpenAttempt (seen_attempt k path)) ident now cluster rs
    (output_struct pad k file_open_layout (attempt_values k path) rs)"
proof -
  have "list_all2 field_ok file_open_layout (attempt_values k path)"
    using length_comm_of [OF assms(1)] assms(2) unat_bounds
    by (simp add: file_open_layout_def open_path_len_def attempt_values_def)
  moreover have "FileOpenAttempt (file_open_of (attempt_values k path)) =
      FileOpenAttempt (seen_attempt k path)"
    by (simp add: file_open_of_def seen_attempt_def attempt_values_def)
  ultimately show ?thesis
    using output_delivers [OF _ file_open_from_bytes_def file_open_attempt_probe_def] by simp
qed

definition attempt_ok :: "kernel_ctx \<times> u8 list \<Rightarrow> bool" where
  "attempt_ok a \<longleftrightarrow> kernel_answers (fst a) \<and> length (snd a) = 256"

lemma report_decodes:
  "list_all attempt_ok as \<Longrightarrow>
   \<exists>raws. report pad as rs = \<lparr>rs_events = rs_events rs @ raws,
       rs_drops = rs_drops rs + of_nat (length (filter (\<lambda>a. \<not> kx_ring_free (fst a)) as))\<rparr> \<and>
     list_all2 (decodes_attempt ident now cluster) (filter (\<lambda>a. kx_ring_free (fst a)) as) raws"
proof (induction as arbitrary: rs)
  case Nil
  show ?case by (intro exI [of _ "[]"]) simp
next
  case (Cons a as)
  let ?rs = "output_struct pad (fst a) file_open_layout (attempt_values (fst a) (snd a)) rs"
  from Cons.prems have rest: "list_all attempt_ok as" by simp
  from Cons.prems have d: "delivers (fst a) file_open_attempt_probe (FileOpenAttempt (seen_attempt (fst a) (snd a)))
      ident now cluster rs ?rs"
    by (simp_all add: attempt_ok_def attempt_delivers)
  from Cons.IH [OF rest, of ?rs] obtain raws where
    tail: "report pad as ?rs = \<lparr>rs_events = rs_events ?rs @ raws,
      rs_drops = rs_drops ?rs + of_nat (length (filter (\<lambda>a. \<not> kx_ring_free (fst a)) as))\<rparr>"
      "list_all2 (decodes_attempt ident now cluster) (filter (\<lambda>a. kx_ring_free (fst a)) as) raws"
    by (elim exE conjE) (rule that)
  have head: "report pad (a # as) rs = report pad as ?rs" by (cases a) simp
  show ?case
  proof (cases "kx_ring_free (fst a)")
    case True
    with d obtain raw where "?rs = rs\<lparr>rs_events := rs_events rs @ [raw]\<rparr>"
      "decodes_attempt ident now cluster a raw"
      by (auto simp: delivers_def decodes_attempt_def)
    with True tail show ?thesis by (intro exI [of _ "raw # raws"]) (simp add: head)
  next
    case False
    with d have "?rs = rs\<lparr>rs_drops := rs_drops rs + 1\<rparr>" by (simp add: delivers_def)
    with False tail show ?thesis by (intro exI [of _ raws]) (simp add: head)
  qed
qed

section \<open>Paths the helper had to cut\<close>

text \<open>
  The reader keeps an attempt whose path was cut, whatever the pattern says.  It recognises one by
  a buffer without a terminating zero; but the helper cuts to 255 bytes and terminates, so no
  attempt is ever marked, and a caller who pads the path past the cut is not reported.
\<close>

definition helper_read :: "string \<Rightarrow> u8 list" where
  "helper_read s = (let b = take 255 (as_bytes s) in b @ replicate (256 - length b) 0)"

lemma helper_read_not_marked: "\<not> path_is_truncated (helper_read s)"
  by (simp add: path_is_truncated_def helper_read_def Let_def)

lemma helper_read_text:
  assumes "list_all (\<lambda>c. 0 < (of_char c :: nat) \<and> (of_char c :: nat) < 128) s" "255 \<le> length s"
  shows "nul_terminated_str (helper_read s) = take 255 s"
proof -
  have ascii: "0 < b \<and> b < 0x80" if "b \<in> set (as_bytes s)" for b
    using that assms(1)
    by (auto simp: as_bytes_def list_all_iff word_less_nat_alt unat_of_nat)
  have "set (as_bytes (take 255 s)) \<subseteq> set (as_bytes s)"
    by (simp add: as_bytes_def image_mono set_take_subset)
  with ascii have "0 \<notin> set (as_bytes (take 255 s))" "utf8_valid (as_bytes (take 255 s))"
    by (metis less_irrefl subsetD, meson utf8_valid_ascii subsetD)
  moreover have "helper_read s = as_bytes (take 255 s) @ 0 # []"
    using assms(2) by (simp add: helper_read_def Let_def as_bytes_def take_map)
  ultimately show ?thesis using nul_terminated_str_of_bytes [of "as_bytes (take 255 s)" "[]"] by simp
qed

definition padded_path :: string where
  "padded_path = ''/home/'' @ replicate 250 (CHR ''a'') @ ''/.ssh/id''"

lemma label_open_attempt:
  "\<not> fo_path_truncated e \<Longrightarrow>
   label (to_occurrence ident now cluster (FileOpenAttempt e)) ''path_truncated'' \<noteq> Some ''true''"
  "label (to_occurrence ident now cluster (FileOpenAttempt e)) ''requested_path'' = Some (fo_path e)"
  by (simp_all add: label_to_occurrence open_attempt_labels_def truncated_label_def)

lemma padded_attempt_dropped:
  "is_match \<lparr>patterns = default_sensitive_paths\<rparr> padded_path"
  "list_all (\<lambda>rec. \<not> record_matches_sensitive_paths rec \<lparr>patterns = default_sensitive_paths\<rparr>)
     (normalize ident now meta cluster (FileOpenAttempt (seen_attempt k (helper_read padded_path))))"
proof -
  show "is_match \<lparr>patterns = default_sensitive_paths\<rparr> padded_path" by code_simp
  have "\<not> is_match \<lparr>patterns = default_sensitive_paths\<rparr> (nul_terminated_str (helper_read padded_path))"
  proof -
    have "nul_terminated_str (helper_read padded_path) = take 255 padded_path"
      by (rule helper_read_text) (simp_all add: padded_path_def list_all_iff)
    moreover have "\<not> is_match \<lparr>patterns = default_sensitive_paths\<rparr> (take 255 padded_path)"
      by code_simp
    ultimately show ?thesis by simp
  qed
  then show "list_all (\<lambda>rec. \<not> record_matches_sensitive_paths rec \<lparr>patterns = default_sensitive_paths\<rparr>)
     (normalize ident now meta cluster (FileOpenAttempt (seen_attempt k (helper_read padded_path))))"
    using helper_read_not_marked [of padded_path]
    by (simp add: normalize_def record_matches_sensitive_paths_def Let_def to_occurrence_fields
        label_open_attempt seen_attempt_def)
qed

section \<open>Properties\<close>

text \<open>The contexts of the calls answer as the helpers document.\<close>

fun step_answers :: "syscall_step \<Rightarrow> bool" where
  "step_answers (Enter k) = kernel_answers k"
| "step_answers (Exit k) = kernel_answers k"
| "step_answers (Evict key) = True"

lemma stashed_length: "kernel_answers k \<Longrightarrow> stashed maps k = Some path \<Longrightarrow> length path = 256"
  by (auto simp: stashed_def kernel_answers_def Let_def split: if_splits option.splits)

lemma failed_opens_ok:
  "list_all step_answers tr \<Longrightarrow> (\<forall>key e. calls key = Some e \<longrightarrow> kernel_answers e) \<Longrightarrow>
   list_all attempt_ok (failed_opens maps calls tr)"
  by (induction maps calls tr rule: failed_opens.induct)
    (fastforce simp: attempt_ok_def split: option.splits if_splits dest: stashed_length [rotated])+

lemma list_all_subseq: "subseq xs ys \<Longrightarrow> list_all P ys \<Longrightarrow> list_all P xs"
  using list_emb_set by (fastforce simp: list_all_iff)

definition reports ::
  "ulid \<Rightarrow> int \<Rightarrow> string \<Rightarrow> (kernel_ctx \<times> u8 list) list \<Rightarrow> ring_state \<Rightarrow> ring_state \<Rightarrow> bool" where
  "reports ident now cluster as rs rs' \<longleftrightarrow>
     (\<exists>raws. rs_events rs' = rs_events rs @ raws \<and>
       list_all2 (decodes_attempt ident now cluster) (filter (\<lambda>a. kx_ring_free (fst a)) as) raws) \<and>
     rs_drops rs' = rs_drops rs + of_nat (length (filter (\<lambda>a. \<not> kx_ring_free (fst a)) as))"

lemma report_reports:
  assumes "list_all attempt_ok as"
  shows "reports ident now cluster as rs (report pad as rs)"
  using report_decodes [OF assms, of pad rs ident now cluster] by (auto simp: reports_def)

text \<open>
  C10: The failed-open programs report exactly the failed watched opens: over any interleaving of
  the entries and exits of all threads, what is reported (decoded by the probe of the program, or
  counted as a drop when the ring buffer was full) is a subsequence of the failed calls on watched
  paths, each with the path of its own entry and the error of its own exit, whatever the bounded
  in-flight map evicts; when it evicts nothing, it is all of them, in the order of their exits.
\<close>

theorem failed_opens_reported:
  assumes "list_all step_answers tr" "bracketed Map.empty tr"
  shows "\<exists>as. subseq as (failed_opens maps Map.empty tr) \<and>
    (\<not> list_ex evicts tr \<longrightarrow> as = failed_opens maps Map.empty tr) \<and>
    reports ident now cluster as rs (snd (run_attempts pad maps tr (Map.empty, rs)))"
proof -
  have ok: "list_all attempt_ok (failed_opens maps Map.empty tr)"
    by (rule failed_opens_ok [OF assms(1)]) simp
  show ?thesis
  proof (cases "list_ex evicts tr")
    case True
    have "tracks maps Map.empty Map.empty" by (simp add: tracks_def)
    from run_attempts_sound [OF this assms(2), of pad rs] obtain as where
      as: "subseq as (failed_opens maps Map.empty tr)"
      "snd (run_attempts pad maps tr (Map.empty, rs)) = report pad as rs" by (elim exE conjE) (rule that)
    with True report_reports [OF list_all_subseq [OF as(1) ok]] show ?thesis
      by (intro exI [of _ as]) simp
  next
    case False
    have "complete maps Map.empty Map.empty" by (simp add: complete_def)
    from run_attempts_exact [OF this assms(2) False] report_reports [OF ok] show ?thesis
      by (intro exI [of _ "failed_opens maps Map.empty tr"]) simp
  qed
qed

text \<open>A thread that asks for the host's SSH key and is refused.\<close>

definition refused_path :: "u8 list" where
  "refused_path = as_bytes ''/root/.ssh/id_rsa'' @ replicate 239 0"

definition refused_enter :: kernel_ctx where
  "refused_enter = sample_kctx\<lparr>kx_read_user_str := \<lambda>addr. Some refused_path,
     kx_tracepoint := \<lambda>pos n. Some (take n (1 # replicate n 0))\<rparr>"

definition refused_exit :: kernel_ctx where
  "refused_exit = sample_kctx\<lparr>kx_tracepoint := \<lambda>pos n. Some (take n (0xF3 # replicate n 0xFF))\<rparr>"

lemma refused_answers: "kernel_answers refused_enter" "kernel_answers refused_exit"
  using sample_kctx_ok(1)
  by (simp_all add: kernel_answers_def refused_enter_def refused_exit_def refused_path_def)

lemma refused_stashed: "stashed sample_maps refused_enter = Some refused_path"
proof -
  have "matches_sensitive_prefix (km_prefixes sample_maps) (of_bytes refused_path)" by code_simp
  moreover have "refused_path ! 0 = 0x2F" by code_simp
  moreover have "\<not> is_self_filtered sample_maps refused_enter"
    using sample_kctx_ok(2) by (simp add: is_self_filtered_def refused_enter_def tgid_of_def)
  moreover have "le_nat (take 8 (1 # replicate 8 0)) = 1" by code_simp
  ultimately show ?thesis
    by (simp add: stashed_def refused_enter_def sample_kctx_def Let_def)
qed

lemma refused_ret: "exit_ret refused_exit = - 13"
proof -
  have "take 8 (0xF3 # replicate 8 0xFF) = [0xF3, 0xFF, 0xFF, 0xFF, 0xFF, 0xFF, 0xFF, 0xFF :: u8]"
    by (simp add: eval_nat_numeral)
  moreover have "le_nat [0xF3, 0xFF, 0xFF, 0xFF, 0xFF, 0xFF, 0xFF, 0xFF] = 18446744073709551603"
    by simp
  ultimately show ?thesis by (simp add: exit_ret_def refused_exit_def)
qed

theorem failed_opens_reported_witness:
  "\<exists>raw rs. snd (run_attempts 0 sample_maps [Enter refused_enter, Exit refused_exit]
      (Map.empty, \<lparr>rs_events = [], rs_drops = 0\<rparr>)) = rs \<and> rs_events rs = [raw] \<and>
    decodes_attempt 1 2 ''c'' (refused_exit, refused_path) raw"
proof -
  let ?tr = "[Enter refused_enter, Exit refused_exit]"
  have same: "kx_pid_tgid refused_enter = kx_pid_tgid refused_exit" "kx_scratch refused_exit"
    "kx_ring_free refused_exit"
    by (simp_all add: refused_enter_def refused_exit_def sample_kctx_def)
  have ok: "list_all step_answers ?tr" "bracketed Map.empty ?tr"
    by (simp_all add: refused_answers same)
  have "failed_opens sample_maps Map.empty ?tr = [(refused_exit, refused_path)]"
    by (simp add: same refused_stashed refused_ret)
  with failed_opens_reported [OF ok, of sample_maps 1 2 "''c''" "\<lparr>rs_events = [], rs_drops = 0\<rparr>" 0]
  show ?thesis by (auto simp: reports_def same list_all2_Cons1)
qed

end
