(* ===== verification/Knowledge.thy ===== *)
theory Knowledge
  imports Bpf_Program
begin

text \<open>
  The knowledge base (\<open>jalki/src/knowledge.rs\<close>): search by question, look-up by function and the
  matching of interpretations; and how the fields it recommends become a probe specification
  (\<open>map_kb_fields_to_btf\<close> and the first half of \<open>deploy_codegen\<close> in \<open>jalki/src/runtime.rs\<close>).

  The contents of the base are data of the build (\<open>knowledge/*.json\<close>) and its parser a library:
  the definitions hold for any base.  Unicode lower-casing is a parameter.
\<close>

section \<open>Data\<close>

record field_knowledge =
  fk_name :: string
  fk_type :: string
  fk_meaning :: string
  fk_important :: bool

record kb_interpretation =
  in_pattern :: string
  in_conclusion :: string
  in_severity :: string
  in_action :: string
  in_errno :: "string option"

record probe_knowledge =
  pk_function :: string
  pk_attachment :: string
  pk_event_type :: string
  pk_layer :: string
  pk_answers :: "string list"
  pk_keywords :: "string list"
  pk_fields :: "field_knowledge list"
  pk_use_when :: string
  pk_not_when :: string
  pk_combine_with :: "string list"
  pk_tcp_states :: "(string \<rightharpoonup> string) option"
  pk_interpretations :: "kb_interpretation list"

record kb_layer =
  ly_version :: string
  ly_layer :: string
  ly_description :: string
  ly_probes :: "probe_knowledge list"

type_synonym knowledge_base = "kb_layer list"

record event_fields =
  ev_ret :: "int option"
  ev_tcp_state :: "nat option"

section \<open>Search and look-up\<close>

definition probe_score :: "(string \<Rightarrow> string) \<Rightarrow> string \<Rightarrow> probe_knowledge \<Rightarrow> nat" where
  "probe_score lower q p =
     sum_list (map (\<lambda>answer. if contains q (lower answer) \<or> contains (lower answer) q then 10 else 0)
       (pk_answers p)) +
     sum_list (map (\<lambda>keyword. if contains q (lower keyword) then 5 else 0) (pk_keywords p)) +
     (if contains q (pk_function p) then 20 else 0)"

definition all_probes :: "knowledge_base \<Rightarrow> probe_knowledge list" where
  "all_probes kb = concat (map ly_probes kb)"

definition find_probes :: "(string \<Rightarrow> string) \<Rightarrow> knowledge_base \<Rightarrow> string \<Rightarrow> probe_knowledge list" where
  "find_probes lower kb question =
     (let q = lower question;
          matches = filter (\<lambda>m. snd m > 0) (map (\<lambda>p. (p, probe_score lower q p)) (all_probes kb))
      in map fst (sort_key (\<lambda>m. - int (snd m)) matches))"

definition get_probe :: "knowledge_base \<Rightarrow> string \<Rightarrow> probe_knowledge option" where
  "get_probe kb function = List.find (\<lambda>p. pk_function p = function) (all_probes kb)"

definition probes_in_layer :: "knowledge_base \<Rightarrow> string \<Rightarrow> probe_knowledge list" where
  "probes_in_layer kb name =
     (case List.find (\<lambda>l. ly_layer l = name) kb of None \<Rightarrow> [] | Some l \<Rightarrow> ly_probes l)"

definition layers :: "knowledge_base \<Rightarrow> string list" where
  "layers kb = map ly_layer kb"

definition all_functions :: "knowledge_base \<Rightarrow> string list" where
  "all_functions kb = concat (map (\<lambda>l. map pk_function (ly_probes l)) kb)"

section \<open>Interpretations\<close>

definition interpretation_matches :: "kb_interpretation \<Rightarrow> event_fields \<Rightarrow> bool" where
  "interpretation_matches i fs =
     (let says = contains (in_pattern i) in
      (case ev_ret fs of
         None \<Rightarrow> False
       | Some ret \<Rightarrow>
           says ''ret == 0'' \<and> ret = 0 \<or> says ''ret == -111'' \<and> ret = -111 \<or>
           says ''ret == -110'' \<and> ret = -110 \<or> says ''ret == -113'' \<and> ret = -113 \<or>
           says ''ret == -101'' \<and> ret = -101 \<or> says ''ret != 0'' \<and> ret \<noteq> 0) \<or>
      (case ev_tcp_state fs of
         None \<Rightarrow> False
       | Some state \<Rightarrow>
           says ''SYN_SENT (2)'' \<and> state = 2 \<or> says ''ESTABLISHED (1)'' \<and> state = 1 \<or>
           says ''CLOSE_WAIT (7)'' \<and> state = 7))"

definition explain :: "knowledge_base \<Rightarrow> string \<Rightarrow> event_fields \<Rightarrow> kb_interpretation list" where
  "explain kb function fs =
     (case get_probe kb function of
        None \<Rightarrow> []
      | Some p \<Rightarrow> filter (\<lambda>i. interpretation_matches i fs) (pk_interpretations p))"

section \<open>From recommended fields to a probe specification\<close>

definition has_sock :: "btf_data \<Rightarrow> string \<Rightarrow> bool" where
  "has_sock b function =
     (case resolve_function b function of
        Inl e \<Rightarrow> False
      | Inr sig \<Rightarrow> (case fs_params sig of [] \<Rightarrow> False | p # ps \<Rightarrow> fp_name p = ''sk''))"

definition map_kb_field :: "bool \<Rightarrow> string \<Rightarrow> string list" where
  "map_kb_field sock field =
     (if field = ''src_ip'' \<and> sock then [''sk.__sk_common.skc_rcv_saddr'']
      else if field = ''dst_ip'' \<and> sock then [''sk.__sk_common.skc_daddr'']
      else if field = ''src_port'' \<and> sock then [''sk.__sk_common.skc_num'']
      else if field = ''dst_port'' \<and> sock then [''sk.__sk_common.skc_dport'']
      else if field = ''tcp_state'' \<and> sock then [''sk.__sk_common.skc_state'']
      else if field \<in> {''pid'', ''tid'', ''timestamp_ns''} then []
      else if field \<in> {''command'', ''comm''} then [''comm'']
      else if field = ''ret'' then [''ret'']
      else if contains field ''.'' then [field]
      else [])"

definition map_kb_fields_to_btf :: "string \<Rightarrow> string list \<Rightarrow> btf_data \<Rightarrow> string list" where
  "map_kb_fields_to_btf function kb_fields b =
     (let result = concat (map (map_kb_field (has_sock b function)) kb_fields)
      in if ''comm'' \<in> set result then result else result @ [''comm''])"

definition replace_char :: "char \<Rightarrow> char \<Rightarrow> string \<Rightarrow> string" where
  "replace_char c d = map (\<lambda>x. if x = c then d else x)"

definition codegen_spec :: "knowledge_base \<Rightarrow> btf_data \<Rightarrow> string \<Rightarrow> probe_spec" where
  "codegen_spec kb b function =
     (let (att, event_type, wanted) =
        (case get_probe kb function of
           Some p \<Rightarrow>
             (if pk_attachment p = ''fexit'' then Bpf_Program.Fexit else Bpf_Program.Fentry,
              pk_event_type p, map fk_name (filter fk_important (pk_fields p)))
         | None \<Rightarrow>
             (Bpf_Program.Fentry, ''kernel.'' @ replace_char (CHR ''_'') (CHR ''.'') function, [''comm'']))
      in \<lparr>ps_function = function, ps_attachment = att,
          ps_fields = map_kb_fields_to_btf function wanted b, ps_event_type = event_type\<rparr>)"

section \<open>Facts\<close>

lemma all_functions_probes: "all_functions kb = map pk_function (all_probes kb)"
  by (simp add: all_functions_def all_probes_def map_concat comp_def)

lemma get_probe_None: "get_probe kb f = None \<longleftrightarrow> f \<notin> set (all_functions kb)"
  by (auto simp: get_probe_def all_functions_probes find_None_iff)

lemma get_probe_Some:
  "get_probe kb f = Some p \<Longrightarrow> p \<in> set (all_probes kb) \<and> pk_function p = f"
  by (auto simp: get_probe_def find_Some_iff)

lemma explain_unknown: "f \<notin> set (all_functions kb) \<Longrightarrow> explain kb f fs = []"
  by (simp add: explain_def get_probe_None [symmetric])

lemma no_fields_no_match:
  "ev_ret fs = None \<Longrightarrow> ev_tcp_state fs = None \<Longrightarrow> explain kb f fs = []"
  by (auto simp: explain_def interpretation_matches_def split: option.split)

lemma sort_key_by_score:
  "sorted_wrt (\<lambda>a b. snd b \<le> (snd a :: nat)) (sort_key (\<lambda>m. - int (snd m)) ms)"
  using sorted_sort_key [of "\<lambda>m. - int (snd m)" ms]
  by (simp add: sorted_wrt_map)

lemma filter_scored:
  "map fst (filter (\<lambda>m. snd m = k) (filter (\<lambda>m. snd m > 0) (map (\<lambda>p. (p, score p)) ps))) =
   (if k = (0::nat) then [] else filter (\<lambda>p. score p = k) ps)"
  by (induction ps) auto

lemma sock_paths_dotted:
  "contains ''sk.__sk_common.skc_rcv_saddr'' ''.''" "contains ''sk.__sk_common.skc_daddr'' ''.''"
  "contains ''sk.__sk_common.skc_num'' ''.''" "contains ''sk.__sk_common.skc_dport'' ''.''"
  "contains ''sk.__sk_common.skc_state'' ''.''"
  by code_simp+

lemma mapped_field:
  "fd \<in> set (map_kb_field sock field) \<Longrightarrow> fd = ''comm'' \<or> fd = ''ret'' \<and> field = ''ret'' \<or> contains fd ''.''"
  by (simp add: map_kb_field_def sock_paths_dotted del: contains.simps split: if_splits)

lemma mapped_fields:
  assumes "fd \<in> set (map_kb_fields_to_btf f kb_fields b)"
  shows "fd = ''comm'' \<or> fd = ''ret'' \<and> ''ret'' \<in> set kb_fields \<or> contains fd ''.''"
proof -
  consider "fd = ''comm''" | field where "field \<in> set kb_fields" "fd \<in> set (map_kb_field (has_sock b f) field)"
    using assms by (auto simp: map_kb_fields_to_btf_def Let_def split: if_splits)
  then show ?thesis using mapped_field by cases metis+
qed

lemma plan_field_fails:
  assumes "plan_field depth spec b sig fd pl = Some (Inl e)"
    and "fd = ''comm'' \<or> fd = ''ret'' \<and> ps_attachment spec = Bpf_Program.Fexit \<or> contains fd ''.''"
  shows "contains fd ''.'' \<and> plan_param depth spec b sig fd pl = Some (Inl e)"
proof -
  have bare: "\<not> contains ''ret'' ''.''" by code_simp
  have "fd \<noteq> ''comm''" using assms(1) by (auto simp: plan_field_def)
  moreover have "fd \<notin> {''pid'', ''tid'', ''timestamp_ns''}" using assms(1) by (auto simp: plan_field_def)
  moreover have "fd \<noteq> ''ret''" using assms bare by (cases "fd = ''ret''") (auto simp: plan_field_def)
  ultimately show ?thesis using assms by (simp add: plan_field_def del: contains.simps)
qed

section \<open>Properties\<close>

text \<open>
  C1. The answer to a question is the probes that score at all, best first, and those of equal score
  in the order of the knowledge base.
\<close>

theorem find_probes_ranked:
  "sorted_wrt (\<lambda>p p'. probe_score lower (lower question) p' \<le> probe_score lower (lower question) p)
     (find_probes lower kb question) \<and>
   filter (\<lambda>p. probe_score lower (lower question) p = k) (find_probes lower kb question) =
     (if k = 0 then [] else filter (\<lambda>p. probe_score lower (lower question) p = k) (all_probes kb))"
proof
  let ?score = "probe_score lower (lower question)"
  let ?ms = "filter (\<lambda>m. snd m > 0) (map (\<lambda>p. (p, ?score p)) (all_probes kb))"
  let ?sorted = "sort_key (\<lambda>m. - int (snd m)) ?ms"
  have snd_of: "snd m = ?score (fst m)" if "m \<in> set ?sorted" for m using that by auto
  have found: "find_probes lower kb question = map fst ?sorted" by (simp add: find_probes_def Let_def)
  have "sorted_wrt (\<lambda>a b. ?score (fst b) \<le> ?score (fst a)) ?sorted"
  proof (rule sorted_wrt_mono_rel [OF _ sort_key_by_score])
    fix a b assume m: "a \<in> set ?sorted" "b \<in> set ?sorted" and le: "snd b \<le> snd a"
    show "?score (fst b) \<le> ?score (fst a)" using le unfolding snd_of [OF m(1)] snd_of [OF m(2)] .
  qed
  then show "sorted_wrt (\<lambda>p p'. ?score p' \<le> ?score p) (find_probes lower kb question)"
    by (simp add: found sorted_wrt_map)
  have "filter (\<lambda>m. ?score (fst m) = k) ?sorted = filter (\<lambda>m. snd m = k) ?sorted"
    by (rule filter_cong [OF refl]) (metis snd_of)
  then have "filter (\<lambda>p. ?score p = k) (map fst ?sorted) = map fst (filter (\<lambda>m. snd m = k) ?sorted)"
    by (simp only: filter_map comp_def)
  also have "filter (\<lambda>m. snd m = k) ?sorted = filter (\<lambda>m. - int (snd m) = - int k) ?sorted" by simp
  also have "\<dots> = filter (\<lambda>m. - int (snd m) = - int k) ?ms" by (rule sort_key_stable)
  also have "map fst \<dots> = (if k = 0 then [] else filter (\<lambda>p. ?score p = k) (all_probes kb))"
    using filter_scored [of k ?score "all_probes kb"] by simp
  finally show "filter (\<lambda>p. ?score p = k) (find_probes lower kb question) =
      (if k = 0 then [] else filter (\<lambda>p. ?score p = k) (all_probes kb))"
    by (simp only: found)
qed

text \<open>
  C2. A specification built from the knowledge base always asks for the command name, asks for the
  return value only at the exit of a function (when the base recommends it nowhere else), and can
  fail to plan only on a path into a structure: unknown field names were dropped.
\<close>

theorem codegen_spec_fields:
  assumes "\<And>p fd. get_probe kb f = Some p \<Longrightarrow> fd \<in> set (pk_fields p) \<Longrightarrow> fk_important fd \<Longrightarrow>
      fk_name fd = ''ret'' \<Longrightarrow> pk_attachment p = ''fexit''"
    and "plan_fields depth (codegen_spec kb b f) b sig (ps_fields (codegen_spec kb b f)) pl = Some (Inl e)"
  shows "''comm'' \<in> set (ps_fields (codegen_spec kb b f)) \<and>
    (\<exists>path pl'. path \<in> set (ps_fields (codegen_spec kb b f)) \<and> contains path ''.'' \<and>
       plan_param depth (codegen_spec kb b f) b sig path pl' = Some (Inl e))"
proof -
  let ?spec = "codegen_spec kb b f"
  have ok: "fd = ''comm'' \<or> fd = ''ret'' \<and> ps_attachment ?spec = Bpf_Program.Fexit \<or> contains fd ''.''"
    if "fd \<in> set (ps_fields ?spec)" for fd
  proof (cases "get_probe kb f")
    case None
    with that show ?thesis using mapped_fields [of fd f "[''comm'']" b] by (simp add: codegen_spec_def)
  next
    case (Some p)
    with that have "fd \<in> set (map_kb_fields_to_btf f (map fk_name (filter fk_important (pk_fields p))) b)"
      by (simp add: codegen_spec_def)
    note cases = mapped_fields [OF this]
    have "pk_attachment p = ''fexit''"
      if ret: "''ret'' \<in> set (map fk_name (filter fk_important (pk_fields p)))"
    proof -
      from ret have "\<exists>x \<in> set (pk_fields p). fk_important x \<and> ''ret'' = fk_name x" by auto
      then obtain x where x: "x \<in> set (pk_fields p)" "fk_important x" "''ret'' = fk_name x"
        by (elim bexE conjE) (rule that)
      show ?thesis by (rule assms(1) [OF Some x(1,2) x(3) [symmetric]])
    qed
    moreover have "ps_attachment ?spec = Bpf_Program.Fexit" if "pk_attachment p = ''fexit''"
      using that Some by (simp add: codegen_spec_def)
    ultimately show ?thesis using cases by metis
  qed
  have "''comm'' \<in> set (ps_fields ?spec)"
    by (auto simp: codegen_spec_def map_kb_fields_to_btf_def Let_def split: option.splits)
  moreover have "\<exists>path pl'. path \<in> set fds \<and> contains path ''.'' \<and>
      plan_param depth ?spec b sig path pl' = Some (Inl e)"
    if "plan_fields depth ?spec b sig fds pl = Some (Inl e)" "set fds \<subseteq> set (ps_fields ?spec)" for fds
    using that
  proof (induction fds arbitrary: pl)
    case Nil
    then show ?case by simp
  next
    case (Cons fd fds)
    show ?case
    proof (cases "plan_field depth ?spec b sig fd pl")
      case None
      with Cons.prems show ?thesis by simp
    next
      case (Some r)
      show ?thesis
      proof (cases r)
        case (Inl e')
        with Cons.prems Some have "plan_field depth ?spec b sig fd pl = Some (Inl e)" by simp
        moreover have "fd \<in> set (ps_fields ?spec)" using Cons.prems by simp
        ultimately show ?thesis using plan_field_fails [OF _ ok] by (meson list.set_intros(1))
      next
        case (Inr pl')
        with Cons.prems Some have "plan_fields depth ?spec b sig fds pl' = Some (Inl e)"
          "set fds \<subseteq> set (ps_fields ?spec)" by simp_all
        from Cons.IH [OF this] show ?thesis by (meson list.set_intros(2))
      qed
    qed
  qed
  ultimately show ?thesis using assms(2) by (blast intro: subset_refl)
qed

definition sample_probe :: "string \<Rightarrow> string \<Rightarrow> string list \<Rightarrow> kb_interpretation list \<Rightarrow> probe_knowledge" where
  "sample_probe f att names is =
     \<lparr>pk_function = f, pk_attachment = att, pk_event_type = ''kernel.x'', pk_layer = ''tcp'',
      pk_answers = [], pk_keywords = [''packet loss''],
      pk_fields = map (\<lambda>n. \<lparr>fk_name = n, fk_type = ''u32'', fk_meaning = [], fk_important = True\<rparr>) names,
      pk_use_when = [], pk_not_when = [], pk_combine_with = [], pk_tcp_states = None,
      pk_interpretations = is\<rparr>"

definition sample_kb :: "probe_knowledge list \<Rightarrow> knowledge_base" where
  "sample_kb ps = [\<lparr>ly_version = ''1'', ly_layer = ''tcp'', ly_description = [], ly_probes = ps\<rparr>]"

theorem codegen_spec_fields_witness:
  "''comm'' \<in> set (ps_fields (codegen_spec (sample_kb [sample_probe ''f'' ''fentry'' [''bytes'', ''skb.len''] []])
     sample_btf ''f''))"
proof -
  let ?kb = "sample_kb [sample_probe ''f'' ''fentry'' [''bytes'', ''skb.len''] []]"
  let ?spec = "codegen_spec ?kb sample_btf ''f''"
  let ?sig = "\<lparr>fs_name = [], fs_params = [], fs_return_type_id = 0\<rparr>"
  have fds: "ps_fields ?spec = [''skb.len'', ''comm'']" "ps_function ?spec = ''f''"
    by (simp_all add: codegen_spec_def get_probe_def all_probes_def sample_kb_def sample_probe_def
        map_kb_fields_to_btf_def map_kb_field_def starts_with_def)
  have "plan_fields 0 ?spec sample_btf ?sig (ps_fields ?spec) header_plan =
      Some (Inl (Field_Not_Found ''f'' ''skb''))"
    by (simp add: fds plan_field_def plan_param_def starts_with_Cons)
  moreover have "pk_attachment p = ''fexit''"
    if "get_probe ?kb ''f'' = Some p" "fd \<in> set (pk_fields p)" "fk_important fd" "fk_name fd = ''ret''" for p fd
    using that by (auto simp: get_probe_def all_probes_def sample_kb_def sample_probe_def)
  ultimately show ?thesis by (rule codegen_spec_fields [THEN conjunct1, rotated])
qed

end
