(* ===== verification/Kernel_Maps.thy ===== *)
theory Kernel_Maps
  imports Kernel_Programs Bpf_Program
begin

text \<open>
  How user space fills the maps the eBPF programs read: the filter of its own process
  (\<open>jalki/src/filter.rs\<close>) and the field offsets resolved from the kernel's type information
  (\<open>jalki/src/file_offsets.rs\<close>).

  The eBPF library is a parameter, a record of the map operations on an object of type \<open>'o\<close>.
  Resolution recurses through the type information: \<open>None\<close> is the run that does not return.
\<close>

section \<open>Operations on maps\<close>

datatype bpf_map_kind = K_Hash | K_Array | K_Other

record 'o map_ops =
  mo_kind :: "'o \<Rightarrow> string \<Rightarrow> bpf_map_kind option"
  mo_insert :: "'o \<Rightarrow> string \<Rightarrow> u32 \<Rightarrow> u8 \<Rightarrow> 'o option"
  mo_set :: "'o \<Rightarrow> string \<Rightarrow> nat \<Rightarrow> u32 \<Rightarrow> 'o option"

text \<open>\<open>ebpf.map_mut(name)\<close> and the conversion to a map of the kind expected.\<close>

definition map_error :: "'o map_ops \<Rightarrow> 'o \<Rightarrow> string \<Rightarrow> bpf_map_kind \<Rightarrow> string \<Rightarrow> string option" where
  "map_error ops eb name k what =
     (case mo_kind ops eb name of
        None \<Rightarrow> Some (name @ '' map not found'')
      | Some k' \<Rightarrow> if k' = k then None else Some (name @ '' is not '' @ what))"

definition insert_pid :: "'o map_ops \<Rightarrow> u32 \<Rightarrow> string \<Rightarrow> 'o \<Rightarrow> string + 'o" where
  "insert_pid ops pid failure eb =
     (case map_error ops eb ''PID_FILTER'' K_Hash ''a HashMap'' of
        Some e \<Rightarrow> Inl e
      | None \<Rightarrow>
          (case mo_insert ops eb ''PID_FILTER'' pid 1 of
             None \<Rightarrow> Inl failure
           | Some eb \<Rightarrow> Inr eb))"

definition populate_pid_filter :: "'o map_ops \<Rightarrow> u32 \<Rightarrow> 'o \<Rightarrow> string + 'o" where
  "populate_pid_filter ops own_pid eb = insert_pid ops own_pid ''failed to insert self PID into filter'' eb"

definition add_pid :: "'o map_ops \<Rightarrow> u32 \<Rightarrow> 'o \<Rightarrow> string + 'o" where
  "add_pid ops pid eb =
     insert_pid ops pid (''failed to insert PID '' @ decimal (unat pid) @ '' into filter'') eb"

section \<open>Offsets from the type information\<close>

text \<open>Two fields of a structure; \<open>Some None\<close> is an error, whose text is only logged.\<close>

definition resolve_pair ::
  "nat \<Rightarrow> btf_data option \<Rightarrow> string \<Rightarrow> string \<Rightarrow> string \<Rightarrow> (u32 \<times> u32) option option" where
  "resolve_pair depth btf name field1 field2 =
     (case btf of
        None \<Rightarrow> Some None
      | Some b \<Rightarrow>
          (case struct_by_name b name of
             None \<Rightarrow> Some None
           | Some ident \<Rightarrow>
               (case field_offset depth b ident field1 of
                  None \<Rightarrow> None
                | Some (Inl e) \<Rightarrow> Some None
                | Some (Inr off1) \<Rightarrow>
                    (case field_offset depth b ident field2 of
                       None \<Rightarrow> None
                     | Some (Inl e) \<Rightarrow> Some None
                     | Some (Inr off2) \<Rightarrow> Some (Some (off1, off2))))))"

definition resolve_file_offsets :: "nat \<Rightarrow> btf_data option \<Rightarrow> (u32 \<times> u32) option option" where
  "resolve_file_offsets depth btf = resolve_pair depth btf ''file'' ''f_path'' ''f_flags''"

definition resolve_task_offsets :: "nat \<Rightarrow> btf_data option \<Rightarrow> (u32 \<times> u32) option option" where
  "resolve_task_offsets depth btf = resolve_pair depth btf ''task_struct'' ''real_parent'' ''tgid''"

definition resolve_runtime_subject_offsets ::
  "nat \<Rightarrow> btf_data option \<Rightarrow> (u32 \<times> u32) option option" where
  "resolve_runtime_subject_offsets depth btf =
     resolve_pair depth btf ''task_struct'' ''group_leader'' ''start_boottime''"

text \<open>What the check of the compiled constants logs.\<close>

datatype offset_log = Path_Mismatch u32 | Flags_Mismatch u32 | Offsets_Verified | Offsets_Unverified

definition check_file_offsets :: "nat \<Rightarrow> btf_data option \<Rightarrow> offset_log list option" where
  "check_file_offsets depth btf =
     map_option
       (\<lambda>r. case r of
          None \<Rightarrow> [Offsets_Unverified]
        | Some (f_path, f_flags) \<Rightarrow>
            let logs = (if ucast f_path \<noteq> file_f_path_offset then [Path_Mismatch f_path] else []) @
                       (if ucast f_flags \<noteq> file_f_flags_offset then [Flags_Mismatch f_flags] else [])
            in if logs = [] then [Offsets_Verified] else logs)
       (resolve_file_offsets depth btf)"

section \<open>The task offsets\<close>

definition set_offset :: "'o map_ops \<Rightarrow> nat \<Rightarrow> u32 \<Rightarrow> string \<Rightarrow> 'o \<Rightarrow> string + 'o" where
  "set_offset ops i v what eb =
     (case mo_set ops eb ''TASK_OFFSETS'' i v of
        None \<Rightarrow> Inl (''set '' @ what @ '' offset'') | Some eb \<Rightarrow> Inr eb)"

text \<open>One of the two blocks: both offsets, or the map as it was.\<close>

definition set_pair ::
  "'o map_ops \<Rightarrow> nat \<Rightarrow> (u32 \<times> u32) option \<Rightarrow> string \<Rightarrow> string \<Rightarrow> 'o \<Rightarrow> string + 'o" where
  "set_pair ops i r what1 what2 eb =
     (case r of
        None \<Rightarrow> Inr eb
      | Some (off1, off2) \<Rightarrow>
          (case set_offset ops i off1 what1 eb of
             Inl e \<Rightarrow> Inl e
           | Inr eb \<Rightarrow> set_offset ops (i + 1) off2 what2 eb))"

definition populate_task_offsets ::
  "'o map_ops \<Rightarrow> nat \<Rightarrow> btf_data option \<Rightarrow> 'o \<Rightarrow> (string + 'o) option" where
  "populate_task_offsets ops depth btf eb =
     (case map_error ops eb ''TASK_OFFSETS'' K_Array ''an Array'' of
        Some e \<Rightarrow> Some (Inl e)
      | None \<Rightarrow>
          (case resolve_task_offsets depth btf of
             None \<Rightarrow> None
           | Some task \<Rightarrow>
               (case set_pair ops 0 task ''real_parent'' ''tgid'' eb of
                  Inl e \<Rightarrow> Some (Inl e)
                | Inr eb \<Rightarrow>
                    map_option
                      (\<lambda>subject. set_pair ops 2 subject ''group_leader'' ''start_boottime'' eb)
                      (resolve_runtime_subject_offsets depth btf))))"

section \<open>Any array of offsets\<close>

text \<open>What the client relies on: an entry that was set is read back, the others are as before.\<close>

locale offset_array =
  fixes ops :: "'o map_ops" and get :: "'o \<Rightarrow> nat \<Rightarrow> u32"
  assumes get_set: "mo_set ops eb ''TASK_OFFSETS'' i v = Some eb' \<Longrightarrow>
      get eb' j = (if j = i then v else get eb j)"
begin

lemma get_set_pair:
  assumes "set_pair ops i r what1 what2 eb = Inr eb'"
  shows "get eb' j =
    (case r of None \<Rightarrow> get eb j
     | Some (off1, off2) \<Rightarrow> if j = i then off1 else if j = i + 1 then off2 else get eb j)"
  using assms get_set
  by (auto simp: set_pair_def set_offset_def split: option.splits sum.splits)

lemma populated:
  assumes "populate_task_offsets ops depth btf eb = Some (Inr eb')" "\<And>j. get eb j = 0"
  shows "\<exists>task subject. resolve_task_offsets depth btf = Some task \<and>
    resolve_runtime_subject_offsets depth btf = Some subject \<and>
    (get eb' 0, get eb' 1) = (case task of None \<Rightarrow> (0, 0) | Some p \<Rightarrow> p) \<and>
    (get eb' 2, get eb' 3) = (case subject of None \<Rightarrow> (0, 0) | Some p \<Rightarrow> p)"
proof -
  obtain task subject eb1 where r: "resolve_task_offsets depth btf = Some task"
    "resolve_runtime_subject_offsets depth btf = Some subject"
    "set_pair ops 0 task ''real_parent'' ''tgid'' eb = Inr eb1"
    "set_pair ops 2 subject ''group_leader'' ''start_boottime'' eb1 = Inr eb'"
    using assms(1) by (auto simp: populate_task_offsets_def split: option.splits sum.splits)
  show ?thesis
    using assms(2) get_set_pair [OF r(3)] get_set_pair [OF r(4)] r(1,2)
    by (auto split: option.splits)
qed

end

section \<open>The maps of the programs\<close>

text \<open>The operations on the maps as the programs read them.\<close>

definition program_map_ops :: "kernel_maps map_ops" where
  "program_map_ops =
     \<lparr>mo_kind = (\<lambda>m name. if name = ''PID_FILTER'' then Some K_Hash
        else if name = ''TASK_OFFSETS'' \<or> name = ''SENSITIVE_PREFIXES'' then Some K_Array else None),
      mo_insert = (\<lambda>m name pid v.
        if length (km_filter m) < 64 \<or> pid \<in> set (km_filter m)
        then Some (m\<lparr>km_filter := List.insert pid (km_filter m)\<rparr>) else None),
      mo_set = (\<lambda>m name i v.
        if i < length (km_task_offsets m)
        then Some (m\<lparr>km_task_offsets := (km_task_offsets m)[i := v]\<rparr>) else None)\<rparr>"

definition offset_at :: "kernel_maps \<Rightarrow> nat \<Rightarrow> u32" where
  "offset_at m i = (if i < length (km_task_offsets m) then km_task_offsets m ! i else 0)"

interpretation task_map: offset_array program_map_ops offset_at
  by unfold_locales (auto simp: program_map_ops_def offset_at_def nth_list_update split: if_splits)

lemma task_offset_at: "task_offset m i = ucast (offset_at m i)"
  by (simp add: task_offset_def offset_at_def)

section \<open>Properties\<close>

text \<open>A chain \<open>current->a->b\<close> at offsets that may be missing.\<close>

definition chain_at :: "kernel_ctx \<Rightarrow> (u32 \<times> u32) option \<Rightarrow> nat \<Rightarrow> nat" where
  "chain_at k r n =
     (case r of
        None \<Rightarrow> 0
      | Some (a, b) \<Rightarrow>
          if a = 0 \<or> b = 0 \<or> kx_task k = 0 then 0
          else (case read_num k (kx_task k + ucast a) 8 of
                  None \<Rightarrow> 0
                | Some p \<Rightarrow> if p = 0 then 0 else read_or 0 k (of_nat p + ucast b) n))"

lemma read_chain_at:
  assumes "(offset_at m i, offset_at m j) = (case r of None \<Rightarrow> (0, 0) | Some p \<Rightarrow> p)"
  shows "read_chain m k i j n = chain_at k r n"
proof -
  have zero: "ucast (w :: u32) = (0 :: u64) \<longleftrightarrow> w = 0" for w
    by transfer (simp add: take_bit_eq_mod)
  show ?thesis
    using assms
    by (auto simp: read_chain_def chain_at_def task_offset_at zero Let_def split: option.splits)
qed

text \<open>
  C1. The exec program reads the parent and the start of the leader at the offsets of the running
  kernel's type information, or not at all: once the offsets map, empty at first, was populated, each
  is the chain at the two offsets resolved together, and zero when they were not.
\<close>

theorem exec_reads_resolved_offsets:
  assumes "populate_task_offsets program_map_ops depth btf m = Some (Inr m')"
    and "km_task_offsets m = replicate 4 0"
  shows "\<exists>task subject. resolve_task_offsets depth btf = Some task \<and>
    resolve_runtime_subject_offsets depth btf = Some subject \<and>
    read_ppid m' k = chain_at k task 4 \<and> read_leader_start_boottime_ns m' k = chain_at k subject 8"
proof -
  have "offset_at m j = 0" for j using assms(2) by (simp add: offset_at_def)
  from task_map.populated [OF assms(1) this] show ?thesis
    using read_chain_at by (auto simp: read_ppid_def read_leader_start_boottime_ns_def)
qed

text \<open>
  C2. A process that was put into the filter is silent: while it runs, none of the programs emits an
  event or counts a drop.
\<close>

theorem filtered_process_silent:
  assumes "insert_pid program_map_ops pid failure m = Inr m'" "tgid_of k = pid"
  shows "tcp_connect_handle pad m' k rs = rs \<and> tcp_close_handle pad m' k rs = rs \<and>
    tcp_retransmit_handle pad m' k rs = rs \<and> process_exec_handle pad m' k rs = rs \<and>
    file_open_handle pad m' k rs = rs"
proof -
  have "is_self_filtered m' k"
    using assms
    by (auto simp: insert_pid_def map_error_def program_map_ops_def is_self_filtered_def
        split: option.splits if_splits)
  then show ?thesis
    by (simp add: tcp_connect_handle_def tcp_close_handle_def tcp_retransmit_handle_def
        process_exec_handle_def file_open_handle_def)
qed

theorem filtered_process_silent_witness:
  "\<exists>m. populate_pid_filter program_map_ops 42 sample_maps = Inr m \<and>
    process_exec_handle 0 m sample_kctx \<lparr>rs_events = [], rs_drops = 0\<rparr> = \<lparr>rs_events = [], rs_drops = 0\<rparr>"
proof -
  let ?m = "sample_maps\<lparr>km_filter := [42, 1]\<rparr>"
  have ok: "insert_pid program_map_ops 42 ''failed to insert self PID into filter'' sample_maps = Inr ?m"
    by (simp add: insert_pid_def map_error_def program_map_ops_def sample_maps_def)
  have "tgid_of sample_kctx = 42" by (simp add: tgid_of_def sample_kctx_def)
  from filtered_process_silent [OF ok this] show ?thesis
    by (intro exI [of _ ?m] conjI) (simp_all add: populate_pid_filter_def ok)
qed

text \<open>A kernel that names the parent but not the start of the leader.\<close>

definition task_strings :: "u8 list" where
  "task_strings = [0] @ as_bytes ''task_struct'' @ [0] @ as_bytes ''real_parent'' @ [0] @
     as_bytes ''tgid'' @ [0]"

definition task_btf :: btf_data where
  "task_btf =
     \<lparr>btf_types = [\<lparr>bt_name_off = 1, bt_kind = 4, bt_vlen = 2, bt_size_or_type = 64,
        bt_extra = Members [\<lparr>bm_name_off = 13, bm_type_id = 0, bm_offset_bits = 128\<rparr>,
                            \<lparr>bm_name_off = 25, bm_type_id = 0, bm_offset_bits = 192\<rparr>]\<rparr>],
      btf_strings = task_strings, func_index = Map.empty, struct_index = [''task_struct'' \<mapsto> 1]\<rparr>"

lemma task_btf_resolves:
  "resolve_task_offsets 1 (Some task_btf) = Some (Some (16, 24))"
  "resolve_runtime_subject_offsets 1 (Some task_btf) = Some None"
proof -
  have strings: "string_at task_strings 13 = ''real_parent''" "string_at task_strings 25 = ''tgid''"
    "string_at task_strings 1 = ''task_struct''" by code_simp+
  have split: "split_on (CHR ''.'') ''real_parent'' = [''real_parent'']"
    "split_on (CHR ''.'') ''tgid'' = [''tgid'']" "split_on (CHR ''.'') ''group_leader'' = [''group_leader'']"
    by code_simp+
  have entry1: "get_type task_btf 1 = Some (btf_types task_btf ! 0)"
    by (simp add: get_type_def task_btf_def)
  have "follow_modifiers (Suc 31) task_btf 1 = 1"
    unfolding follow_modifiers.simps entry1 by (simp add: task_btf_def is_modifier_def kind_defs)
  with entry1 have ty: "resolve_through_modifiers task_btf 1 = 1"
    "get_type task_btf 1 = Some (btf_types task_btf ! 0)"
    by (simp_all add: resolve_through_modifiers_def)
  have strs: "btf_strings task_btf = task_strings" by (simp add: task_btf_def)
  have entry: "bt_extra (btf_types task_btf ! 0) =
      Members [\<lparr>bm_name_off = 13, bm_type_id = 0, bm_offset_bits = 128\<rparr>,
               \<lparr>bm_name_off = 25, bm_type_id = 0, bm_offset_bits = 192\<rparr>]"
    by (simp add: task_btf_def)
  have s: "struct_by_name task_btf ''task_struct'' = Some 1"
    by (simp add: struct_by_name_def task_btf_def)
  note defs = resolve_pair_def field_offset_def split strings strs ty entry s
  show "resolve_task_offsets 1 (Some task_btf) = Some (Some (16, 24))"
    by (simp add: resolve_task_offsets_def defs)
  show "resolve_runtime_subject_offsets 1 (Some task_btf) = Some None"
    by (simp add: resolve_runtime_subject_offsets_def defs)
qed

theorem exec_reads_resolved_offsets_witness:
  "\<exists>m. populate_task_offsets program_map_ops 1 (Some task_btf) sample_maps = Some (Inr m) \<and>
    read_ppid m (sample_kctx\<lparr>kx_task := 4096, kx_read := \<lambda>addr n. Some (take n (7 # replicate n 0))\<rparr>) = 7"
proof -
  let ?m = "sample_maps\<lparr>km_task_offsets := [16, 24, 0, 0]\<rparr>"
  let ?k = "sample_kctx\<lparr>kx_task := 4096, kx_read := \<lambda>addr n. Some (take n (7 # replicate n 0))\<rparr>"
  have ok: "populate_task_offsets program_map_ops 1 (Some task_btf) sample_maps = Some (Inr ?m)"
    unfolding populate_task_offsets_def task_btf_resolves
    by (simp add: map_error_def program_map_ops_def set_pair_def set_offset_def sample_maps_def)
  have "km_task_offsets sample_maps = replicate 4 0" by (simp add: sample_maps_def eval_nat_numeral)
  from exec_reads_resolved_offsets [OF ok this, of ?k]
  have "read_ppid ?m ?k = chain_at ?k (Some (16, 24)) 4"
    unfolding task_btf_resolves by simp
  also have "\<dots> = 7"
  proof -
    have "le_nat (take 8 (7 # replicate 8 0)) = 7" "le_nat (take 4 (7 # replicate 4 0)) = 7"
      by code_simp+
    then show ?thesis by (simp add: chain_at_def read_num_def read_or_def)
  qed
  finally show ?thesis using ok by (intro exI [of _ ?m] conjI)
qed

end
