(* ===== verification/Daemon.thy ===== *)
theory Daemon
  imports Knowledge Kernel_Maps Generated_Reader Probe_Registry
begin

text \<open>
  Deploying a probe at run time: \<open>DaemonHandle::deploy_probe\<close> and \<open>deploy_codegen\<close>
  (\<open>jalki/src/runtime.rs\<close>), which tie the knowledge base, the code generator, the pid filter and
  the registry together, and the texts of their errors.

  The eBPF loader and the object-file library are parameters.  \<open>None\<close> is a run that does not
  return, on type information that recurses without end.
\<close>

section \<open>The texts of the errors\<close>

fun attach_kind_text :: "attachment \<Rightarrow> string" where
  "attach_kind_text (At_Fentry f) = ''not an fentry''"
| "attach_kind_text (At_Fexit f) = ''not an fexit''"
| "attach_kind_text (At_Tracepoint p c n) = ''not a tracepoint''"

fun attach_place_text :: "attachment \<Rightarrow> string" where
  "attach_place_text (At_Fentry f) = ''fentry/'' @ f"
| "attach_place_text (At_Fexit f) = ''fexit/'' @ f"
| "attach_place_text (At_Tracepoint p c n) = ''tracepoint/'' @ c @ ''/'' @ n"

definition quoted :: "string \<Rightarrow> string" where
  "quoted s = [CHR 0x27] @ s @ [CHR 0x27]"

text \<open>The failures of the clock are of several texts; one stands for them.\<close>

fun attach_error_text :: "attach_error \<Rightarrow> string" where
  "attach_error_text (Already_Attached n) = ''probe '' @ quoted n @ '' is already attached''"
| "attach_error_text (Program_Not_Found p) = ''program '' @ p @ '' not found''"
| "attach_error_text (Wrong_Kind att) = attach_kind_text att"
| "attach_error_text (Load_Failed att) = ''failed to load '' @ attach_place_text att"
| "attach_error_text (Attach_Failed att) = ''failed to attach '' @ attach_place_text att"
| "attach_error_text (Ring_Not_Found m) = ''ring buffer map '' @ m @ '' not found''"
| "attach_error_text (Not_A_Ring m) = m @ '' is not a RingBuf''"
| "attach_error_text (Drops_Not_Found m) = ''ring buffer drop counter map '' @ m @ '' not found''"
| "attach_error_text (Not_Per_Cpu m) = m @ '' is not a PerCpuArray''"
| "attach_error_text Clock_Error = ''monotonic clock overflow''"
| "attach_error_text Zero_Attached =
     ''no probe could attach on this kernel'' @
     bytes [0x20, 0xE2, 0x80, 0x94, 0x20] @ ''refusing to run a collector that observes nothing''"

fun detach_error_text :: "detach_error \<Rightarrow> string" where
  "detach_error_text (Startup_Probe ident) =
     ''probe '' @ quoted ident @
     '' was attached at startup and shares the daemon's eBPF object; it cannot be detached at runtime''"

section \<open>Deploying\<close>

record 'o deploy_env =
  de_ops :: "'o ebpf_ops"
  de_maps :: "'o map_ops"
  de_own_pid :: u32
  de_load :: "u8 list \<Rightarrow> 'o option"
  de_check :: "elf_relocation \<Rightarrow> string option"
  de_write :: "elf_object \<Rightarrow> string + u8 list"
  de_depth :: nat
  de_kb :: knowledge_base
  de_btf :: btf_data

text \<open>What a call finds: the wall clock, the monotonic clock and a fresh stop flag.\<close>

record call_context =
  cc_now :: int
  cc_clock :: "u64 option"
  cc_flag :: nat

definition generated_reader_of :: "generated_probe \<Rightarrow> probe_spec \<Rightarrow> generated_reader" where
  "generated_reader_of g spec =
     \<lparr>gr_spec = spec, gr_layout = gb_field_layout g, gr_event_size = gb_event_size g,
      gr_map_name = gb_map_name g, gr_program_name = ''jalki_codegen_'' @ ps_function spec,
      gr_attachments = [attachment_of spec]\<rparr>"

text \<open>The object of a generated program, loaded and filtered, with the probe that reads it.\<close>

definition load_generated :: "'o deploy_env \<Rightarrow> string \<Rightarrow> (string + probe \<times> 'o) option" where
  "load_generated env function =
     (let spec = codegen_spec (de_kb env) (de_btf env) function in
      case generate_probe (de_check env) (de_write env) (de_depth env) spec (de_btf env) of
        None \<Rightarrow> None
      | Some (Inl e) \<Rightarrow> Some (Inl (''codegen failed for '' @ function))
      | Some (Inr g) \<Rightarrow>
          (case de_load env (gb_elf_bytes g) of
             None \<Rightarrow> Some (Inl (''failed to load generated ELF for '' @ function))
           | Some eb \<Rightarrow>
               (case populate_pid_filter (de_maps env) (de_own_pid env) eb of
                  Inl e \<Rightarrow> Some (Inl e)
                | Inr eb \<Rightarrow> Some (Inr (probe_of_reader (generated_reader_of g spec), eb)))))"

definition deploy_codegen ::
  "'o deploy_env \<Rightarrow> string \<Rightarrow> call_context \<Rightarrow> 'o daemon_handle \<Rightarrow>
   ((string + string) \<times> 'o daemon_handle) option" where
  "deploy_codegen env function cc h =
     (case load_generated env function of
        None \<Rightarrow> None
      | Some (Inl e) \<Rightarrow> Some (Inl e, h)
      | Some (Inr (p, eb)) \<Rightarrow>
          Some (case deploy_generated (de_ops env) function p eb (cc_now cc) (cc_clock cc) (cc_flag cc) h of
                  (Inl err, h') \<Rightarrow> (Inl (attach_error_text err), h')
                | (Inr ident, h') \<Rightarrow> (Inr ident, h')))"

definition deploy_probe ::
  "'o deploy_env \<Rightarrow> string \<Rightarrow> call_context \<Rightarrow> 'o daemon_handle \<Rightarrow>
   ((string + string) \<times> 'o daemon_handle) option" where
  "deploy_probe env function cc h =
     (case pre_compiled function of
        Some p \<Rightarrow>
          Some (case deploy_pre_compiled (de_ops env) p (cc_now cc) (cc_clock cc) (cc_flag cc) h of
                  (Inl err, h') \<Rightarrow> (Inl (attach_error_text err), h')
                | (Inr ident, h') \<Rightarrow> (Inr ident, h'))
      | None \<Rightarrow> deploy_codegen env function cc h)"

section \<open>Facts\<close>

text \<open>The name under which a deployed function is in the registry.\<close>

definition deployed_name :: "string \<Rightarrow> string" where
  "deployed_name function =
     (case pre_compiled function of Some p \<Rightarrow> probe_name p | None \<Rightarrow> function)"

lemma codegen_spec_function: "ps_function (codegen_spec kb b f) = f"
  by (simp add: codegen_spec_def split: option.splits)

lemma load_generated_name:
  "load_generated env f = Some (Inr (p, eb)) \<Longrightarrow> probe_name p = f"
  by (auto simp: load_generated_def Let_def probe_of_reader_def generated_reader_of_def
      codegen_spec_function split: option.splits sum.splits)

text \<open>Both paths end in \<open>attach\<close>, on the shared object or on one of their own.\<close>

lemma deploy_attaches:
  assumes "deploy_probe env f cc h = Some (res, h')"
  obtains (refused) e where "res = Inl e" "h' = h"
    | (attached) p eb ares eb' rg where
        "attach (de_ops env) p (cc_now cc) (cc_clock cc) (cc_flag cc) eb (dh_registry h) = (ares, eb', rg)"
        "probe_name p = deployed_name f"
        "res = (case ares of Inl err \<Rightarrow> Inl (attach_error_text err) | Inr ident \<Rightarrow> Inr ident)"
        "dh_registry h' = rg" "dh_stopped h' = dh_stopped h"
        "dh_generated h' =
           (if pre_compiled f = None \<and> \<not> isl ares then AList.update f eb' (dh_generated h)
            else dh_generated h)"
proof (cases "pre_compiled f")
  case (Some p)
  let ?a = "attach (de_ops env) p (cc_now cc) (cc_clock cc) (cc_flag cc) (dh_ebpf h) (dh_registry h)"
  obtain ares eb' rg where a: "?a = (ares, eb', rg)" by (cases ?a)
  show ?thesis
    using assms a Some
    by (intro attached [OF a])
      (auto simp: deploy_probe_def deploy_pre_compiled_def deployed_name_def split: sum.splits)
next
  case None
  with assms have d: "deploy_codegen env f cc h = Some (res, h')" by (simp add: deploy_probe_def)
  then obtain r where r: "load_generated env f = Some r"
    by (auto simp: deploy_codegen_def split: option.splits)
  show ?thesis
  proof (cases r)
    case (Inl e)
    with d r show ?thesis by (intro refused) (auto simp: deploy_codegen_def)
  next
    case (Inr pe)
    obtain p eb where pe: "pe = (p, eb)" by (cases pe)
    let ?a = "attach (de_ops env) p (cc_now cc) (cc_clock cc) (cc_flag cc) eb (dh_registry h)"
    obtain ares eb' rg where a: "?a = (ares, eb', rg)" by (cases ?a)
    have "probe_name p = deployed_name f"
      using load_generated_name r Inr pe None by (simp add: deployed_name_def)
    with d r Inr pe a None show ?thesis
      by (intro attached [OF a]) (auto simp: deploy_codegen_def deploy_generated_def split: sum.splits)
  qed
qed

lemma contains_suffix: "contains (s @ pat) pat"
proof (induction s)
  case Nil
  have "starts_with pat pat" using starts_with_append [of pat "[]"] by simp
  then show ?case by (cases pat) simp_all
next
  case (Cons c s)
  then show ?case by simp
qed

lemma already_attached_text: "contains (attach_error_text (Already_Attached n)) ''already attached''"
proof -
  have "attach_error_text (Already_Attached n) = (''probe '' @ quoted n @ '' is '') @ ''already attached''"
    by simp
  then show ?thesis by (simp only: contains_suffix)
qed

section \<open>Properties\<close>


definition sample_env :: "string list deploy_env" where
  "sample_env =
     \<lparr>de_ops = sample_ebpf,
      de_maps = \<lparr>mo_kind = (\<lambda>eb name. Some K_Hash), mo_insert = (\<lambda>eb name pid v. Some eb),
        mo_set = (\<lambda>eb name i v. None)\<rparr>,
      de_own_pid = 42, de_load = (\<lambda>b. None), de_check = (\<lambda>r. None), de_write = (\<lambda>ob. Inr []),
      de_depth = 8, de_kb = sample_kb [], de_btf = sample_btf\<rparr>"

definition sample_cc :: call_context where
  "sample_cc = \<lparr>cc_now = 5, cc_clock = Some 1, cc_flag = 0\<rparr>"


end
