(* ===== verification/Ipc_Frame.thy ===== *)
theory Ipc_Frame
  imports Events "HOL-Library.AList"
begin

text \<open>
  The binary protocol of the daemon's socket (\<open>jalki/src/ipc.rs\<close>): frames, MessagePack values as
  the code takes them apart, and the conversion between them and JSON.

  The MessagePack library is a parameter, its encoder and its decoder.  What a connection reads is
  the list of all its bytes; that they come in pieces makes no difference to \<open>read_exact\<close>.
\<close>

section \<open>Constants\<close>

definition frame_header_len :: nat where "frame_header_len = 6"
definition frame_max_len :: nat where "frame_max_len = 1024 * 1024"

definition msg_request :: u8 where "msg_request = 0x01"
definition msg_response :: u8 where "msg_response = 0x02"
definition msg_stream_start :: u8 where "msg_stream_start = 0x03"
definition msg_stream_event :: u8 where "msg_stream_event = 0x04"
definition msg_stream_end :: u8 where "msg_stream_end = 0x05"
definition msg_error :: u8 where "msg_error = 0x06"
definition msg_ping :: u8 where "msg_ping = 0x07"
definition msg_pong :: u8 where "msg_pong = 0x08"

definition flag_interpreted :: u8 where "flag_interpreted = 0x02"

definition method_find :: u8 where "method_find = 0x01"
definition method_deploy :: u8 where "method_deploy = 0x02"
definition method_subscribe :: u8 where "method_subscribe = 0x03"
definition method_unsubscribe :: u8 where "method_unsubscribe = 0x04"
definition method_status :: u8 where "method_status = 0x05"
definition method_ask :: u8 where "method_ask = 0x06"
definition method_get_events :: u8 where "method_get_events = 0x07"
definition method_detach :: u8 where "method_detach = 0x08"

lemmas msg_defs = msg_request_def msg_response_def msg_stream_start_def msg_stream_event_def
  msg_stream_end_def msg_error_def msg_ping_def msg_pong_def

lemmas method_defs = method_find_def method_deploy_def method_subscribe_def method_unsubscribe_def
  method_status_def method_ask_def method_get_events_def method_detach_def

section \<open>Frames\<close>

definition encode_frame :: "u8 \<Rightarrow> u8 \<Rightarrow> u8 list \<Rightarrow> u8 list" where
  "encode_frame msg_type flags payload =
     be_bytes 4 (unat (word_of_nat (length payload + 2) :: u32)) @ [msg_type, flags] @ payload"

datatype frame_error = Unexpected_Eof | Invalid_Length nat

definition read_exact :: "nat \<Rightarrow> u8 list \<Rightarrow> frame_error + u8 list \<times> u8 list" where
  "read_exact n input = (if length input < n then Inl Unexpected_Eof else Inr (take n input, drop n input))"

type_synonym wire_frame = "u8 \<times> u8 \<times> u8 list"

definition read_frame :: "u8 list \<Rightarrow> frame_error + wire_frame \<times> u8 list" where
  "read_frame input =
     (case read_exact frame_header_len input of
        Inl e \<Rightarrow> Inl e
      | Inr (header, rest) \<Rightarrow>
          let frame_len = be_nat (take 4 header) in
          if frame_len < 2 \<or> frame_max_len < frame_len then Inl (Invalid_Length frame_len)
          else (case read_exact (frame_len - 2) rest of
                  Inl e \<Rightarrow> Inl e
                | Inr (payload, rest) \<Rightarrow> Inr ((header ! 4, header ! 5, payload), rest)))"

lemma read_frame_consumes: "read_frame input = Inr (f, rest) \<Longrightarrow> length rest < length input"
  by (auto simp: read_frame_def read_exact_def frame_header_len_def Let_def split: if_splits)

text \<open>The loop of a connection reads frames until one cannot be read.\<close>

function read_frames :: "u8 list \<Rightarrow> wire_frame list" where
  "read_frames input =
     (case read_frame input of Inl e \<Rightarrow> [] | Inr (f, rest) \<Rightarrow> f # read_frames rest)"
  by pat_completeness auto
termination by (relation "measure length") (auto dest: read_frame_consumes)

declare read_frames.simps [simp del]

section \<open>Values\<close>

text \<open>
  A MessagePack string may hold bytes that are not UTF-8.  A float is its bits; the conversions to
  it (of an integer, of a single) are the language's and a parameter.
\<close>

record float_ops =
  fl_of_int :: "int \<Rightarrow> u64"
  fl_widen :: "u32 \<Rightarrow> u64"

definition finite_bits :: "u64 \<Rightarrow> bool" where
  "finite_bits w \<longleftrightarrow> drop_bit 52 (take_bit 63 w) \<noteq> 0x7FF"

datatype msgpack =
  M_Nil | M_Bool bool | M_Int int | M_F32 u32 | M_F64 u64 | M_Str "u8 list" | M_Bin "u8 list" |
  M_Arr "msgpack list" | M_Map "(msgpack \<times> msgpack) list" | M_Ext int "u8 list"

definition msgpack_str :: "string \<Rightarrow> msgpack" where
  "msgpack_str s = M_Str (as_bytes s)"

fun as_str :: "msgpack \<Rightarrow> string option" where
  "as_str (M_Str b) = (if utf8_valid b then Some (of_bytes b) else None)"
| "as_str _ = None"

fun as_u64 :: "msgpack \<Rightarrow> u64 option" where
  "as_u64 (M_Int i) = (if 0 \<le> i \<and> i < 2 ^ 64 then Some (word_of_int i) else None)"
| "as_u64 _ = None"

fun as_f64 :: "float_ops \<Rightarrow> msgpack \<Rightarrow> u64 option" where
  "as_f64 fl (M_Int i) = Some (fl_of_int fl i)"
| "as_f64 fl (M_F32 r) = Some (fl_widen fl r)"
| "as_f64 fl (M_F64 r) = Some r"
| "as_f64 fl _ = None"

fun as_bool :: "msgpack \<Rightarrow> bool option" where
  "as_bool (M_Bool b) = Some b"
| "as_bool _ = None"

text \<open>The value of the first key of that name; the four getters differ in how they read it.\<close>

fun map_field :: "msgpack \<Rightarrow> string \<Rightarrow> msgpack option" where
  "map_field (M_Map kvs) key = map_option snd (List.find (\<lambda>kv. as_str (fst kv) = Some key) kvs)"
| "map_field _ key = None"

definition get_str :: "msgpack \<Rightarrow> string \<Rightarrow> string option" where
  "get_str v key = Option.bind (map_field v key) as_str"

definition get_u64 :: "msgpack \<Rightarrow> string \<Rightarrow> u64 option" where
  "get_u64 v key = Option.bind (map_field v key) as_u64"

definition get_f64 :: "float_ops \<Rightarrow> msgpack \<Rightarrow> string \<Rightarrow> u64 option" where
  "get_f64 fl v key =
     Option.bind (map_field v key)
       (\<lambda>x. case as_f64 fl x of
          Some r \<Rightarrow> Some r | None \<Rightarrow> map_option (\<lambda>n. fl_of_int fl (uint n)) (as_u64 x))"

definition get_bool :: "msgpack \<Rightarrow> string \<Rightarrow> bool option" where
  "get_bool v key = Option.bind (map_field v key) as_bool"

section \<open>Payloads\<close>

record msgpack_lib =
  mp_encode :: "msgpack \<Rightarrow> u8 list option"
  mp_decode :: "u8 list \<Rightarrow> msgpack option"

definition decode_msgpack :: "msgpack_lib \<Rightarrow> u8 list \<Rightarrow> msgpack option" where
  "decode_msgpack lib b = (if b = [] then Some (M_Arr []) else mp_decode lib b)"

definition encode_error_frame :: "msgpack_lib \<Rightarrow> string \<Rightarrow> string \<Rightarrow> u8 list" where
  "encode_error_frame lib code message =
     encode_frame msg_error 0
       (case mp_encode lib (M_Arr [msgpack_str code, msgpack_str message]) of None \<Rightarrow> [] | Some b \<Rightarrow> b)"

definition response_value :: "u32 \<Rightarrow> string + msgpack \<Rightarrow> msgpack" where
  "response_value request_id result =
     (case result of
        Inr val \<Rightarrow> M_Arr [M_Int (uint request_id), M_Bool True, val]
      | Inl msg \<Rightarrow> M_Arr [M_Int (uint request_id), M_Bool False, msgpack_str msg])"

text \<open>The text of the encoder's own error is not modelled: \<open>why\<close>.\<close>

definition encode_failure :: "u32 \<Rightarrow> string \<Rightarrow> string" where
  "encode_failure request_id why =
     ''daemon failed to encode response for request '' @ decimal (unat request_id) @ '': '' @ why"

definition encode_response :: "msgpack_lib \<Rightarrow> string \<Rightarrow> u32 \<Rightarrow> string + msgpack \<Rightarrow> u8 list" where
  "encode_response lib why request_id result =
     (case mp_encode lib (response_value request_id result) of
        Some b \<Rightarrow> encode_frame msg_response 0 b
      | None \<Rightarrow> encode_error_frame lib ''encode_failed'' (encode_failure request_id why))"

section \<open>JSON\<close>

datatype json =
  J_Null | J_Bool bool | J_Int int | J_Float u64 | J_Str string | J_Arr "json list" |
  J_Obj "(string \<times> json) list"

text \<open>A number of \<open>serde_json\<close> is a \<open>u64\<close>, an \<open>i64\<close> or a float.\<close>

fun json_to_msgpack :: "json \<Rightarrow> msgpack" where
  "json_to_msgpack J_Null = M_Nil"
| "json_to_msgpack (J_Bool b) = M_Bool b"
| "json_to_msgpack (J_Int i) = M_Int i"
| "json_to_msgpack (J_Float r) = M_F64 r"
| "json_to_msgpack (J_Str s) = msgpack_str s"
| "json_to_msgpack (J_Arr vs) = M_Arr (map json_to_msgpack vs)"
| "json_to_msgpack (J_Obj kvs) = M_Map (map (\<lambda>(k, v). (msgpack_str k, json_to_msgpack v)) kvs)"

definition str_or_empty :: "u8 list \<Rightarrow> string" where
  "str_or_empty b = (if utf8_valid b then of_bytes b else [])"

text \<open>
  \<open>show\<close> is the library's text of a value used as a key, \<open>lossy\<close> the reading of bytes as text.
  The object is a map: a later entry of the same key replaces the earlier.
\<close>

fun msgpack_to_json :: "float_ops \<Rightarrow> (msgpack \<Rightarrow> string) \<Rightarrow> (u8 list \<Rightarrow> string) \<Rightarrow> msgpack \<Rightarrow> json" where
  "msgpack_to_json fl sh lossy M_Nil = J_Null"
| "msgpack_to_json fl sh lossy (M_Bool b) = J_Bool b"
| "msgpack_to_json fl sh lossy (M_Int i) = (if - (2 ^ 63) \<le> i \<and> i < 2 ^ 64 then J_Int i else J_Null)"
| "msgpack_to_json fl sh lossy (M_F32 r) =
     (if finite_bits (fl_widen fl r) then J_Float (fl_widen fl r) else J_Null)"
| "msgpack_to_json fl sh lossy (M_F64 r) = (if finite_bits r then J_Float r else J_Null)"
| "msgpack_to_json fl sh lossy (M_Str b) = J_Str (str_or_empty b)"
| "msgpack_to_json fl sh lossy (M_Bin b) = J_Str (lossy b)"
| "msgpack_to_json fl sh lossy (M_Arr vs) = J_Arr (map (msgpack_to_json fl sh lossy) vs)"
| "msgpack_to_json fl sh lossy (M_Map kvs) =
     J_Obj (fold (\<lambda>(k, v) kvs. AList.update (case k of M_Str b \<Rightarrow> str_or_empty b | _ \<Rightarrow> sh k) v kvs)
       (map (\<lambda>(k, v). (k, msgpack_to_json fl sh lossy v)) kvs) [])"
| "msgpack_to_json fl sh lossy (M_Ext t b) = J_Null"

section \<open>Facts\<close>

lemma frame_length:
  assumes "n < 2 ^ 32"
  shows "be_nat (be_bytes 4 (unat (word_of_nat n :: u32))) = n"
proof -
  have "unat (word_of_nat n :: u32) = n" using assms by (simp add: unat_of_nat)
  with assms show ?thesis by (simp add: be.dec_enc_exact)
qed

lemma read_frame_header:
  "read_exact frame_header_len (be_bytes 4 w @ mt # fl # rest) = Inr (be_bytes 4 w @ [mt, fl], rest)"
  by (simp add: read_exact_def frame_header_len_def)

lemma read_frame_parts:
  assumes "be_nat (be_bytes 4 w) = n"
  shows "read_frame (be_bytes 4 w @ mt # fl # rest) =
    (if n < 2 \<or> frame_max_len < n then Inl (Invalid_Length n)
     else case read_exact (n - 2) rest of
       Inl e \<Rightarrow> Inl e | Inr (payload, rest) \<Rightarrow> Inr ((mt, fl, payload), rest))"
  by (simp add: read_frame_def read_frame_header assms nth_append Let_def split: sum.split)

lemma encode_frame_parts:
  assumes "length payload + 2 < 2 ^ 32"
  obtains w where "encode_frame mt fl payload = be_bytes 4 w @ mt # fl # payload"
    "be_nat (be_bytes 4 w) = length payload + 2"
  using frame_length [OF assms] by (rule that [rotated]) (simp only: encode_frame_def append.simps)

lemma read_encode:
  assumes "length payload + 2 \<le> frame_max_len"
  shows "read_frame (encode_frame mt fl payload @ rest) = Inr ((mt, fl, payload), rest)"
proof -
  have "length payload + 2 < 2 ^ 32" using assms by (simp add: frame_max_len_def)
  then obtain w where "encode_frame mt fl payload = be_bytes 4 w @ mt # fl # payload"
    "be_nat (be_bytes 4 w) = length payload + 2" by (rule encode_frame_parts)
  with assms show ?thesis by (simp add: read_frame_parts read_exact_def)
qed

lemma read_oversized:
  assumes "frame_max_len < length payload + 2" "length payload + 2 < 2 ^ 32"
  shows "read_frame (encode_frame mt fl payload @ rest) = Inl (Invalid_Length (length payload + 2))"
proof -
  obtain w where "encode_frame mt fl payload = be_bytes 4 w @ mt # fl # payload"
    "be_nat (be_bytes 4 w) = length payload + 2" by (rule encode_frame_parts [OF assms(2)])
  with assms(1) show ?thesis by (simp add: read_frame_parts)
qed

lemma read_frames_step:
  "read_frame input = Inr (f, rest) \<Longrightarrow> read_frames input = f # read_frames rest"
  "read_frame input = Inl e \<Longrightarrow> read_frames input = []"
  by (simp_all add: read_frames.simps [of input])

lemma as_str_msgpack_str [simp]: "as_str (msgpack_str s) = (if utf8_valid (as_bytes s) then Some s else None)"
  by (simp add: msgpack_str_def)

lemma update_new: "k \<notin> fst ` set al \<Longrightarrow> AList.update k v al = al @ [(k, v)]"
  by (induction al) auto

lemma fold_update_distinct:
  "distinct (map fst al @ map fst kvs) \<Longrightarrow>
   fold (\<lambda>(k, v) al. AList.update k v al) kvs al = al @ (kvs :: (string \<times> json) list)"
  by (induction kvs arbitrary: al) (auto simp: update_new)

text \<open>JSON as a program can hold it: strings are UTF-8, integers fit, floats are finite, keys are distinct.\<close>

fun json_wf :: "json \<Rightarrow> bool" where
  "json_wf (J_Int i) \<longleftrightarrow> - (2 ^ 63) \<le> i \<and> i < 2 ^ 64"
| "json_wf (J_Float r) \<longleftrightarrow> finite_bits r"
| "json_wf (J_Str s) \<longleftrightarrow> utf8_valid (as_bytes s)"
| "json_wf (J_Arr vs) \<longleftrightarrow> list_all json_wf vs"
| "json_wf (J_Obj kvs) \<longleftrightarrow> distinct (map fst kvs) \<and>
     list_all (\<lambda>(k, v). utf8_valid (as_bytes k) \<and> json_wf v) kvs"
| "json_wf _ \<longleftrightarrow> True"

section \<open>Properties\<close>

text \<open>
  C1. A connection reads back the frames that were sent, in order and however many, when each fits
  the limit; a frame over the limit (and under four gigabytes) ends the connection: neither it nor
  any later frame is read.
\<close>

theorem frames_read_back:
  assumes "list_all (\<lambda>(mt, fl, payload). length payload + 2 \<le> frame_max_len) fs"
  shows "read_frames (concat (map (\<lambda>(mt, fl, payload). encode_frame mt fl payload) fs) @ rest) =
      fs @ read_frames rest \<and>
    (\<forall>mt fl payload. frame_max_len < length payload + 2 \<longrightarrow> length payload + 2 < 2 ^ 32 \<longrightarrow>
      read_frames (concat (map (\<lambda>(mt, fl, payload). encode_frame mt fl payload) fs) @
        encode_frame mt fl payload @ rest) = fs)"
proof -
  have all: "read_frames (concat (map (\<lambda>(mt, fl, payload). encode_frame mt fl payload) fs) @ rest) =
      fs @ read_frames rest" for rest
    using assms
  proof (induction fs)
    case (Cons f fs)
    obtain mt fl payload where f: "f = (mt, fl, payload)" by (cases f)
    with Cons.prems have fits: "length payload + 2 \<le> frame_max_len" by simp
    from read_frames_step(1) [OF read_encode [OF fits]] Cons show ?case by (simp add: f)
  qed simp
  show ?thesis
    using all read_frames_step(2) [OF read_oversized] by simp
qed

theorem frames_read_back_witness:
  "read_frames (encode_frame msg_ping 0 [0x90] @ encode_frame msg_request 0 []) =
     [(msg_ping, 0, [0x90]), (msg_request, 0, [])]"
  using frames_read_back [of "[(msg_ping, 0, [0x90]), (msg_request, 0, [])]" "[]", THEN conjunct1]
  by (simp add: frame_max_len_def read_frames_step(2) [of "[]" Unexpected_Eof] read_frame_def
      read_exact_def frame_header_len_def)

text \<open>
  C2. What a client sends as JSON is what it would get back: converting JSON to MessagePack and
  back is the identity, whatever the library's text of other keys.
\<close>

theorem json_round_trip: "json_wf j \<Longrightarrow> msgpack_to_json fl sh lossy (json_to_msgpack j) = j"
proof (induction j rule: json_to_msgpack.induct)
  case (6 vs)
  then show ?case by (auto simp: list_all_iff intro!: map_idI)
next
  case (7 kvs)
  let ?read = "\<lambda>kv. (msgpack_str (fst kv), msgpack_to_json fl sh lossy (json_to_msgpack (snd kv)))"
  have "fold (\<lambda>(k, v) al. AList.update (case k of M_Str b \<Rightarrow> str_or_empty b | _ \<Rightarrow> sh k) v al)
      (map ?read kvs) [] = fold (\<lambda>(k, v) al. AList.update k v al) kvs []"
    unfolding fold_map
  proof (rule fold_cong [OF refl refl])
    fix kv assume kv: "kv \<in> set kvs"
    obtain k v where [simp]: "kv = (k, v)" by (cases kv)
    have "utf8_valid (as_bytes k)" "msgpack_to_json fl sh lossy (json_to_msgpack v) = v"
      using 7 kv by (auto simp: list_all_iff)
    then show "((\<lambda>(k, v) al. AList.update (case k of M_Str b \<Rightarrow> str_or_empty b | _ \<Rightarrow> sh k) v al) \<circ> ?read) kv =
        (case kv of (k, v) \<Rightarrow> \<lambda>al. AList.update k v al)"
      by (simp add: msgpack_str_def str_or_empty_def)
  qed
  also have "\<dots> = kvs" using fold_update_distinct [of "[]" kvs] 7(2) by simp
  finally show ?case by (simp add: comp_def case_prod_unfold)
qed (auto simp: msgpack_str_def str_or_empty_def)

theorem json_round_trip_witness:
  "msgpack_to_json \<lparr>fl_of_int = \<lambda>i. 0, fl_widen = \<lambda>w. 0\<rparr> (\<lambda>v. []) (\<lambda>b. []) (json_to_msgpack (J_Obj [(''port'', J_Int 5432), (''x'', J_Arr [J_Null])])) =
     J_Obj [(''port'', J_Int 5432), (''x'', J_Arr [J_Null])]"
proof (rule json_round_trip)
  have "utf8_valid (as_bytes ''port'')" "utf8_valid (as_bytes ''x'')" by code_simp+
  then show "json_wf (J_Obj [(''port'', J_Int 5432), (''x'', J_Arr [J_Null])])" by simp
qed

end
