(* ===== verification/Ipc_Server.thy ===== *)
theory Ipc_Server
  imports Ipc_Frame Daemon Event_Store Normalize "HOL-Library.Countable"
begin

text \<open>
  The server side of the daemon's socket (\<open>jalki/src/ipc.rs\<close>): the eight methods, the encoding of
  events and answers, subscriptions, and the loop of a connection.

  The clocks and the identifiers drawn during a call are its inputs.  \<open>None\<close> is a call that does
  not return: a panic of the store on a cutoff out of range, or type information without end.
\<close>

section \<open>State\<close>

record 'o ipc_env =
  ie_deploy :: "'o deploy_env"
  ie_lower :: "string \<Rightarrow> string"
  ie_lib :: msgpack_lib
  ie_why :: string
  ie_float :: float_ops
  ie_rate :: "real \<Rightarrow> u64"
  ie_cutoff :: "u64 \<Rightarrow> int option"
  ie_rfc3339 :: "int \<Rightarrow> string"

record 'o ipc_daemon =
  id_handle :: "'o daemon_handle"
  id_store :: event_store

text \<open>A stream: what it was asked for, and how far its task is.\<close>

record subscription =
  sb_probe_id :: string
  sb_filter :: event_filter
  sb_interpreted :: bool
  sb_started :: bool
  sb_last :: "string option"
  sb_done :: bool

record connection =
  cn_subs :: "(string \<times> subscription) list"
  cn_sent :: "u8 list list"

definition send_frame :: "u8 list \<Rightarrow> connection \<Rightarrow> connection" where
  "send_frame f conn = conn\<lparr>cn_sent := cn_sent conn @ [f]\<rparr>"

text \<open>What a call draws: clocks and stop flags, a stream identifier, and the store after its sleep.\<close>

record call_input =
  ci_calls :: "nat \<Rightarrow> call_context"
  ci_stream_id :: string
  ci_later :: event_store

abbreviation env_kb :: "'o ipc_env \<Rightarrow> knowledge_base" where
  "env_kb env \<equiv> de_kb (ie_deploy env)"

section \<open>Encoding\<close>

definition parse_event_filter :: "msgpack \<Rightarrow> event_filter" where
  "parse_event_filter params =
     (let f = (case map_field params ''filter'' of None \<Rightarrow> M_Nil | Some v \<Rightarrow> v) in
      \<lparr>ef_last_seconds = (case get_u64 f ''last_seconds'' of None \<Rightarrow> Some 60 | Some n \<Rightarrow> Some n),
       ef_src_ip = get_str f ''src_ip'', ef_dst_ip = get_str f ''dst_ip'',
       ef_src_port = map_option ucast (get_u64 f ''src_port''),
       ef_dst_port = map_option ucast (get_u64 f ''dst_port''),
       ef_pid = map_option ucast (get_u64 f ''pid''),
       ef_command = get_str f ''command'', ef_limit = Some 100\<rparr>)"

definition ts_nanos :: "int \<Rightarrow> int" where
  "ts_nanos ts = (if - (2 ^ 63) \<le> ts \<and> ts < 2 ^ 63 then uint (word_of_int ts :: u64) else 0)"

fun severity_code :: "severity \<Rightarrow> int" where
  "severity_code Info = 0"
| "severity_code Warning = 1"
| "severity_code Error = 2"
| "severity_code Critical = 3"
| "severity_code Debug = 4"

fun outcome_code :: "outcome option \<Rightarrow> int" where
  "outcome_code (Some Success) = 0"
| "outcome_code (Some Failure) = 1"
| "outcome_code (Some Timeout) = 3"
| "outcome_code (Some InProgress) = 4"
| "outcome_code _ = 2"

definition or_nil :: "msgpack option \<Rightarrow> msgpack" where
  "or_nil v = (case v of None \<Rightarrow> M_Nil | Some x \<Rightarrow> x)"

definition event_function :: "occurrence \<Rightarrow> string" where
  "event_function occ =
     (case strip_prefix ''jalki/'' (occ_source occ) of None \<Rightarrow> occ_source occ | Some f \<Rightarrow> f)"

definition error_ret :: "string \<Rightarrow> int option" where
  "error_ret code =
     (if code = ''ECONNREFUSED'' then Some (- 111)
      else if code = ''ETIMEDOUT'' then Some (- 110)
      else if code = ''EHOSTUNREACH'' then Some (- 113)
      else if code = ''ENETUNREACH'' then Some (- 101)
      else None)"

definition label_state :: "string \<Rightarrow> nat option" where
  "label_state s =
     (if s = ''ESTABLISHED'' then Some 1
      else if s = ''SYN_SENT'' then Some 2
      else if s = ''CLOSE_WAIT'' then Some 7
      else None)"

definition extract_event_fields :: "occurrence \<Rightarrow> event_fields" where
  "extract_event_fields occ =
     \<lparr>ev_ret = Option.bind (map_option err_code (occ_error occ)) error_ret,
      ev_tcp_state = Option.bind (label occ ''tcp_state'') label_state\<rparr>"

definition explanations :: "knowledge_base \<Rightarrow> occurrence \<Rightarrow> kb_interpretation list" where
  "explanations kb occ = explain kb (event_function occ) (extract_event_fields occ)"

definition interpretation_value :: "knowledge_base \<Rightarrow> occurrence \<Rightarrow> msgpack option" where
  "interpretation_value kb occ =
     (case explanations kb occ of
        [] \<Rightarrow> None
      | i # is \<Rightarrow> Some (M_Arr [msgpack_str (in_conclusion i), msgpack_str (in_action i)]))"

definition endpoint_text :: "string \<Rightarrow> u16 \<Rightarrow> string" where
  "endpoint_text ip port = ip @ '':'' @ show_word port"

definition labels_value :: "occurrence \<Rightarrow> msgpack" where
  "labels_value occ =
     (if labels occ = [] then M_Nil
      else M_Map (map (\<lambda>(k, v). (msgpack_str k, msgpack_str v)) (labels occ)))"

text \<open>The twelve elements the two encoders of an event share, with what they differ in.\<close>

definition event_elements ::
  "int \<Rightarrow> (network_event_data \<Rightarrow> int) \<Rightarrow> msgpack option \<Rightarrow> occurrence \<Rightarrow> msgpack list" where
  "event_elements idx proto interp occ =
     [msgpack_str (ulid_string (occ_id occ)), M_Int idx, M_Int (ts_nanos (occ_timestamp occ)),
      M_Int (severity_code (occ_severity occ)), M_Int (outcome_code (occ_outcome occ)),
      or_nil (map_option (\<lambda>n. msgpack_str (endpoint_text (nd_src_ip n) (nd_src_port n))) (network_data occ)),
      or_nil (map_option (\<lambda>n. msgpack_str (endpoint_text (nd_dst_ip n) (nd_dst_port n))) (network_data occ)),
      or_nil (map_option (\<lambda>n. M_Int (proto n)) (network_data occ)),
      or_nil (map_option (\<lambda>p. M_Int (uint (pd_pid p))) (process_data occ)),
      or_nil (map_option (\<lambda>p. msgpack_str (pd_command p)) (process_data occ)),
      labels_value occ, or_nil interp]"

definition encode_stream_event :: "'o ipc_env \<Rightarrow> occurrence \<Rightarrow> int \<Rightarrow> bool \<Rightarrow> u8 list" where
  "encode_stream_event env occ probe_idx interpreted =
     (let arr = M_Arr (event_elements probe_idx (\<lambda>n. if nd_protocol n = ''tcp'' then 0 else 1)
            (if interpreted then interpretation_value (env_kb env) occ else None) occ)
      in case mp_encode (ie_lib env) arr of
           Some b \<Rightarrow> encode_frame msg_stream_event (if interpreted then flag_interpreted else 0) b
         | None \<Rightarrow> encode_error_frame (ie_lib env) ''encode_failed''
             ''failed to encode stream event payload'')"

definition encode_compact_event :: "knowledge_base \<Rightarrow> occurrence \<Rightarrow> msgpack" where
  "encode_compact_event kb occ =
     M_Arr (event_elements 0 (\<lambda>n. 0) (interpretation_value kb occ) occ)"

definition encode_ask_result ::
  "string \<Rightarrow> int \<Rightarrow> string \<Rightarrow> msgpack list \<Rightarrow> string list \<Rightarrow> bool \<Rightarrow> msgpack" where
  "encode_ask_result interp sev act events probes_used kb_only =
     M_Map
       [(msgpack_str ''interpretation'', msgpack_str interp), (msgpack_str ''severity'', M_Int sev),
        (msgpack_str ''action'', msgpack_str act), (msgpack_str ''events'', M_Arr events),
        (msgpack_str ''probes_used'', M_Arr (map msgpack_str probes_used)),
        (msgpack_str ''kb_only'', M_Bool kb_only)]"

fun join_with :: "string \<Rightarrow> string list \<Rightarrow> string" where
  "join_with sep [] = []"
| "join_with sep [s] = s"
| "join_with sep (s # t # ss) = s @ sep @ join_with sep (t # ss)"

definition encode_ask_result_kb_only :: "probe_knowledge list \<Rightarrow> msgpack" where
  "encode_ask_result_kb_only selected =
     encode_ask_result
       (join_with (bytes [10, 10])
         (map (\<lambda>p. ''**'' @ pk_function p @ ''** ('' @ pk_attachment p @ ''): '' @ pk_use_when p) selected))
       0 ''Start the daemon for live events: sudo jalki --sink stdout'' []
       (map pk_function selected) True"

section \<open>Methods\<close>

definition missing :: "string \<Rightarrow> string" where
  "missing key = ''missing '' @ quoted key"

definition handle_find :: "'o ipc_env \<Rightarrow> msgpack \<Rightarrow> string + msgpack" where
  "handle_find env params =
     (case get_str params ''question'' of
        None \<Rightarrow> Inl (missing ''question'')
      | Some question \<Rightarrow>
          Inr (M_Arr (map
            (\<lambda>p. M_Map
               [(msgpack_str ''function'', msgpack_str (pk_function p)),
                (msgpack_str ''attachment'', msgpack_str (pk_attachment p)),
                (msgpack_str ''event_type'', msgpack_str (pk_event_type p)),
                (msgpack_str ''why'', msgpack_str (pk_use_when p)),
                (msgpack_str ''fields'', M_Arr (map
                   (\<lambda>f. M_Map
                      [(msgpack_str ''name'', msgpack_str (fk_name f)),
                       (msgpack_str ''meaning'', msgpack_str (fk_meaning f)),
                       (msgpack_str ''important'', M_Bool True)])
                   (filter fk_important (pk_fields p)))),
                (msgpack_str ''combine_with'', M_Arr (map msgpack_str (pk_combine_with p)))])
            (take 5 (find_probes (ie_lower env) (env_kb env) question)))))"

definition handle_detach ::
  "msgpack \<Rightarrow> 'o daemon_handle \<Rightarrow> (string + msgpack) \<times> 'o daemon_handle" where
  "handle_detach params h =
     (case get_str params ''probe_id'' of
        None \<Rightarrow> (Inl (missing ''probe_id''), h)
      | Some ident \<Rightarrow>
          (case detach_probe ident h of
             (Inl e, h) \<Rightarrow> (Inl (detach_error_text e), h)
           | (Inr detached, h) \<Rightarrow>
               (Inr (M_Map [(msgpack_str ''ok'', M_Bool True), (msgpack_str ''detached'', M_Bool detached)]), h)))"

text \<open>The sample rate is read and handed to \<open>deploy_probe\<close>, which ignores it.\<close>

definition handle_deploy ::
  "'o ipc_env \<Rightarrow> call_context \<Rightarrow> msgpack \<Rightarrow> 'o daemon_handle \<Rightarrow>
   ((string + msgpack) \<times> 'o daemon_handle) option" where
  "handle_deploy env cc params h =
     (case get_str params ''function'' of
        None \<Rightarrow> Some (Inl (missing ''function''), h)
      | Some function \<Rightarrow>
          if get_probe (env_kb env) function = None
          then Some (Inl (''unknown function '' @ quoted function @
                 bytes [0x20, 0xE2, 0x80, 0x94, 0x20] @ ''use find() to search''), h)
          else
            map_option
              (\<lambda>(res, h).
                 (case res of
                    Inl e \<Rightarrow> Inl e
                  | Inr ident \<Rightarrow>
                      Inr (M_Map [(msgpack_str ''probe_id'', msgpack_str ident),
                                  (msgpack_str ''function'', msgpack_str function),
                                  (msgpack_str ''status'', msgpack_str ''attached'')]), h))
              (deploy_probe (ie_deploy env) function cc h))"

definition handle_status :: "'o ipc_env \<Rightarrow> probe_registry \<Rightarrow> msgpack" where
  "handle_status env rg =
     M_Arr (map
       (\<lambda>s. M_Map
          [(msgpack_str ''probe_id'', msgpack_str (pst_probe_id s)),
           (msgpack_str ''function'', msgpack_str (pst_function s)),
           (msgpack_str ''events_total'', M_Int (uint (pst_events_total s))),
           (msgpack_str ''ring_buffer_drops'', M_Int (uint (pst_drops s))),
           (msgpack_str ''sample_rate'', M_F64 (ie_rate env (pst_sample_rate s))),
           (msgpack_str ''attached_since'', msgpack_str (ie_rfc3339 env (pst_since s)))])
       (status rg))"

text \<open>The deployments of \<open>ask\<close>: the functions that run, with the identifier of each.\<close>

fun ask_deploy ::
  "'o ipc_env \<Rightarrow> (nat \<Rightarrow> call_context) \<Rightarrow> nat \<Rightarrow> probe_knowledge list \<Rightarrow> 'o daemon_handle \<Rightarrow>
   ((string \<times> string) list \<times> 'o daemon_handle) option" where
  "ask_deploy env ccs i [] h = Some ([], h)"
| "ask_deploy env ccs i (p # ps) h =
     (case deploy_probe (ie_deploy env) (pk_function p) (ccs i) h of
        None \<Rightarrow> None
      | Some (res, h) \<Rightarrow>
          let new = (case res of
             Inr pid \<Rightarrow> [(pk_function p, pid)]
           | Inl msg \<Rightarrow>
               if contains msg ''already attached'' then [(pk_function p, pk_function p)] else [])
          in map_option (\<lambda>(deployed, h). (new @ deployed, h)) (ask_deploy env ccs (i + 1) ps h))"

definition severity_of_text :: "string \<Rightarrow> int" where
  "severity_of_text s =
     (if s = ''warning'' then 1 else if s = ''error'' then 2 else if s = ''critical'' then 3 else 0)"

text \<open>The answer over the collected events: the first event with an interpretation decides.\<close>

definition interpret_events :: "knowledge_base \<Rightarrow> occurrence list \<Rightarrow> string list \<Rightarrow> msgpack" where
  "interpret_events kb events probes_used =
     (case List.find (\<lambda>occ. explanations kb occ \<noteq> []) events of
        Some occ \<Rightarrow>
          let i = hd (explanations kb occ) in
          encode_ask_result (in_conclusion i) (severity_of_text (in_severity i)) (in_action i)
            (map (encode_compact_event kb) events) probes_used False
      | None \<Rightarrow>
          encode_ask_result
            (''Collected '' @ decimal (length events) @ '' events but no specific interpretation matched.'')
            0 ''Review the events manually.'' (map (encode_compact_event kb) events) probes_used False)"

definition handle_ask ::
  "'o ipc_env \<Rightarrow> call_input \<Rightarrow> msgpack \<Rightarrow> 'o ipc_daemon \<Rightarrow> ((string + msgpack) \<times> 'o ipc_daemon) option" where
  "handle_ask env ci params d =
     (case get_str params ''question'' of
        None \<Rightarrow> Some (Inl (missing ''question''), d)
      | Some question \<Rightarrow>
          let max_events = (case get_u64 params ''max_events'' of None \<Rightarrow> 100 | Some n \<Rightarrow> unat n);
              f = parse_event_filter params;
              matches = find_probes (ie_lower env) (env_kb env) question in
          if matches = [] then
            Some (Inr (encode_ask_result ''No probes found for this question.'' 0
              (''Try keywords like '' @ quoted ''connect'' @ '', '' @ quoted ''retransmit'' @ '', '' @
               quoted ''packet loss'' @ ''.'') [] [] True), d)
          else
            let selected = take 3 matches in
            (case ask_deploy env (ci_calls ci) 0 selected (id_handle d) of
               None \<Rightarrow> None
             | Some (deployed, h) \<Rightarrow>
                 if deployed = [] then Some (Inr (encode_ask_result_kb_only selected), d\<lparr>id_handle := h\<rparr>)
                 else
                   let d = \<lparr>id_handle = h, id_store = ci_later ci\<rparr> in
                   map_option
                     (\<lambda>all_events.
                        let events = take max_events all_events; probes_used = map fst deployed in
                        (Inr (if events = [] then
                            encode_ask_result ''No events observed. The kernel functions did not fire.'' 0
                              ''Try collecting for longer.'' [] probes_used True
                          else interpret_events (env_kb env) events probes_used), d))
                     (query_all (ie_cutoff env) (id_store d) f)))"

definition handle_get_events ::
  "'o ipc_env \<Rightarrow> msgpack \<Rightarrow> event_store \<Rightarrow> (string + msgpack) option" where
  "handle_get_events env params st =
     (let f = parse_event_filter params in
      map_option
        (\<lambda>events. Inr (M_Map
           [(msgpack_str ''events'', M_Arr (map (encode_compact_event (env_kb env)) events)),
            (msgpack_str ''total'', M_Int (int (length events)))]))
        (case get_str params ''probe_id'' of
           Some pid \<Rightarrow> query (ie_cutoff env) st pid f
         | None \<Rightarrow> query_all (ie_cutoff env) st f))"

section \<open>Subscriptions\<close>

definition abort_subscriptions_for ::
  "(string \<times> subscription) list \<Rightarrow> string \<Rightarrow> nat \<times> (string \<times> subscription) list" where
  "abort_subscriptions_for subs ident =
     (length (filter (\<lambda>s. sb_probe_id (snd s) = ident) subs),
      filter (\<lambda>s. sb_probe_id (snd s) \<noteq> ident) subs)"

definition payload_frame :: "msgpack_lib \<Rightarrow> u8 \<Rightarrow> string \<Rightarrow> msgpack \<Rightarrow> u8 list" where
  "payload_frame lib mt failure v =
     (case mp_encode lib v of
        Some b \<Rightarrow> encode_frame mt 0 b
      | None \<Rightarrow> encode_error_frame lib ''encode_failed'' failure)"

definition handle_unsubscribe ::
  "'o ipc_env \<Rightarrow> msgpack \<Rightarrow> connection \<Rightarrow> (string + msgpack) \<times> connection" where
  "handle_unsubscribe env params conn =
     (case get_str params ''probe_id'' of
        None \<Rightarrow> (Inl (missing ''probe_id''), conn)
      | Some ident \<Rightarrow>
          let (stopped, subs) = abort_subscriptions_for (cn_subs conn) ident;
              conn = conn\<lparr>cn_subs := subs\<rparr>;
              conn = (if 0 < stopped
                then send_frame (payload_frame (ie_lib env) msg_stream_end
                       ''failed to encode STREAM_END payload'' (M_Arr [msgpack_str ident])) conn
                else conn)
          in (Inr (M_Map [(msgpack_str ''ok'', M_Bool True), (msgpack_str ''stopped'', M_Int (int stopped))]),
              conn))"

definition handle_subscribe ::
  "'o ipc_env \<Rightarrow> string \<Rightarrow> msgpack \<Rightarrow> u8 \<Rightarrow> connection \<Rightarrow> (string + msgpack) \<times> connection" where
  "handle_subscribe env stream_id params flags conn =
     (case get_str params ''probe_id'' of
        None \<Rightarrow> (Inl (missing ''probe_id''), conn)
      | Some ident \<Rightarrow>
          let interpreted = (flags AND flag_interpreted \<noteq> 0 \<or> get_bool params ''interpreted'' = Some True);
              sub = \<lparr>sb_probe_id = ident, sb_filter = parse_event_filter params,
                     sb_interpreted = interpreted, sb_started = False, sb_last = None,
                     sb_done = False\<rparr>
          in (Inr (M_Map [(msgpack_str ''stream_id'', msgpack_str stream_id)]),
              conn\<lparr>cn_subs := AList.update stream_id sub (cn_subs conn)\<rparr>))"

section \<open>The loop of a connection\<close>

definition handle_method ::
  "'o ipc_env \<Rightarrow> call_input \<Rightarrow> u8 \<Rightarrow> msgpack \<Rightarrow> u8 \<Rightarrow> connection \<Rightarrow> 'o ipc_daemon \<Rightarrow>
   ((string + msgpack) \<times> connection \<times> 'o ipc_daemon) option" where
  "handle_method env ci method params flags conn d =
     (if method = method_find then Some (handle_find env params, conn, d)
      else if method = method_deploy then
        map_option (\<lambda>(res, h). (res, conn, d\<lparr>id_handle := h\<rparr>))
          (handle_deploy env (ci_calls ci 0) params (id_handle d))
      else if method = method_detach then
        (case handle_detach params (id_handle d) of (res, h) \<Rightarrow> Some (res, conn, d\<lparr>id_handle := h\<rparr>))
      else if method = method_subscribe then
        (case handle_subscribe env (ci_stream_id ci) params flags conn of (res, conn) \<Rightarrow> Some (res, conn, d))
      else if method = method_unsubscribe then
        (case handle_unsubscribe env params conn of (res, conn) \<Rightarrow> Some (res, conn, d))
      else if method = method_status then
        Some (Inr (handle_status env (dh_registry (id_handle d))), conn, d)
      else if method = method_ask then
        map_option (\<lambda>(res, d). (res, conn, d)) (handle_ask env ci params d)
      else if method = method_get_events then
        map_option (\<lambda>res. (res, conn, d)) (handle_get_events env params (id_store d))
      else Some (Inl (''unknown method: 0x'' @ hex_bytes [method]), conn, d))"

definition handle_request ::
  "'o ipc_env \<Rightarrow> call_input \<Rightarrow> u32 \<Rightarrow> u8 \<Rightarrow> msgpack \<Rightarrow> u8 \<Rightarrow> connection \<Rightarrow> 'o ipc_daemon \<Rightarrow>
   (u8 list \<times> connection \<times> 'o ipc_daemon) option" where
  "handle_request env ci request_id method params flags conn d =
     map_option (\<lambda>(res, conn, d). (encode_response (ie_lib env) (ie_why env) request_id res, conn, d))
       (handle_method env ci method params flags conn d)"

definition number_or_zero :: "msgpack \<Rightarrow> u64" where
  "number_or_zero v = (case as_u64 v of None \<Rightarrow> 0 | Some n \<Rightarrow> n)"

text \<open>Both numbers are cut to their width.\<close>

fun parse_request :: "msgpack \<Rightarrow> (u32 \<times> u8 \<times> msgpack) option" where
  "parse_request (M_Arr (a # b # c # rest)) =
     Some (ucast (number_or_zero a), ucast (number_or_zero b), c)"
| "parse_request _ = None"

definition on_frame ::
  "'o ipc_env \<Rightarrow> call_input \<Rightarrow> wire_frame \<Rightarrow> connection \<Rightarrow> 'o ipc_daemon \<Rightarrow>
   (u8 list option \<times> connection \<times> 'o ipc_daemon) option" where
  "on_frame env ci f conn d =
     (case f of (msg_type, flags, payload) \<Rightarrow>
        if msg_type = msg_request then
          (case Option.bind (decode_msgpack (ie_lib env) payload) parse_request of
             None \<Rightarrow> Some (None, conn, d)
           | Some (request_id, method, params) \<Rightarrow>
               map_option (\<lambda>(response, conn, d). (Some response, conn, d))
                 (handle_request env ci request_id method params flags conn d))
        else if msg_type = msg_ping then
          Some (Some (payload_frame (ie_lib env) msg_pong ''failed to encode PONG payload'' (M_Arr [])),
                conn, d)
        else Some (None, conn, d))"

text \<open>One turn of the task of a stream: its first frame, then a poll of the store at each.\<close>

definition stream_turn ::
  "'o ipc_env \<Rightarrow> event_store \<Rightarrow> subscription \<Rightarrow> (u8 list list \<times> subscription) option" where
  "stream_turn env st sub =
     (if sb_done sub then Some ([], sub)
      else if \<not> sb_started sub then
        (case mp_encode (ie_lib env) (M_Arr [msgpack_str (sb_probe_id sub)]) of
           Some b \<Rightarrow> Some ([encode_frame msg_stream_start 0 b], sub\<lparr>sb_started := True\<rparr>)
         | None \<Rightarrow> Some ([encode_error_frame (ie_lib env) ''encode_failed''
               ''failed to encode STREAM_START payload''], sub\<lparr>sb_done := True\<rparr>))
      else
        map_option
          (\<lambda>events. (map (\<lambda>occ. encode_stream_event env occ 0 (sb_interpreted sub)) events,
             if events = [] then sub
             else sub\<lparr>sb_last := Some (ulid_string (occ_id (last events)))\<rparr>))
          (query_since (ie_cutoff env) st (sb_probe_id sub) (sb_last sub) (sb_filter sub)))"

text \<open>
  The connection task and the tasks of its streams run interleaved, and with the rest of the daemon.
  A response is computed in one step and handed to the writer in a later one.
\<close>

record 'o conn_state =
  cs_conn :: connection
  cs_daemon :: "'o ipc_daemon"
  cs_pending :: "u8 list option"

datatype 'o conn_event =
  Frame_In wire_frame call_input | Reply_Out | Stream_Turn string | Elsewhere "'o ipc_daemon"

inductive conn_step :: "'o ipc_env \<Rightarrow> 'o conn_state \<Rightarrow> 'o conn_event \<Rightarrow> 'o conn_state \<Rightarrow> bool"
  for env :: "'o ipc_env" where
  frame_in: "cs_pending s = None \<Longrightarrow> on_frame env ci f (cs_conn s) (cs_daemon s) = Some (reply, conn, d) \<Longrightarrow>
    conn_step env s (Frame_In f ci) \<lparr>cs_conn = conn, cs_daemon = d, cs_pending = reply\<rparr>"
| reply_out: "cs_pending s = Some r \<Longrightarrow>
    conn_step env s Reply_Out (s\<lparr>cs_conn := send_frame r (cs_conn s), cs_pending := None\<rparr>)"
| stream: "map_of (cn_subs (cs_conn s)) sid = Some sub \<Longrightarrow>
    stream_turn env (id_store (cs_daemon s)) sub = Some (fs, sub') \<Longrightarrow>
    conn_step env s (Stream_Turn sid)
      (s\<lparr>cs_conn := \<lparr>cn_subs = AList.update sid sub' (cn_subs (cs_conn s)), cn_sent = cn_sent (cs_conn s) @ fs\<rparr>\<rparr>)"
| elsewhere: "conn_step env s (Elsewhere d) (s\<lparr>cs_daemon := d\<rparr>)"

inductive_cases conn_step_frame_inE: "conn_step env s (Frame_In f ci) s'"
inductive_cases conn_step_replyE: "conn_step env s Reply_Out s'"
inductive_cases conn_step_streamE: "conn_step env s (Stream_Turn sid) s'"
inductive_cases conn_step_elsewhereE: "conn_step env s (Elsewhere d) s'"

inductive conn_run :: "'o ipc_env \<Rightarrow> 'o conn_state \<Rightarrow> 'o conn_event list \<Rightarrow> 'o conn_state \<Rightarrow> bool"
  for env :: "'o ipc_env" where
  no_events: "conn_run env s [] s"
| next_event: "conn_step env s e s' \<Longrightarrow> conn_run env s' es s'' \<Longrightarrow> conn_run env s (e # es) s''"

section \<open>Facts\<close>

lemma encode_frame_type [simp]:
  "encode_frame mt fl payload ! 4 = mt" "drop 6 (encode_frame mt fl payload) = payload"
proof -
  have "length (be_bytes 4 n) = 4" for n by simp
  then show "encode_frame mt fl payload ! 4 = mt" "drop 6 (encode_frame mt fl payload) = payload"
    by (simp_all only: encode_frame_def nth_append drop_append) simp_all
qed

text \<open>An encoder that writes every value and a decoder that reads it back.\<close>

definition lib_ok :: "msgpack_lib \<Rightarrow> bool" where
  "lib_ok lib \<longleftrightarrow> (\<forall>v. \<exists>b. mp_encode lib v = Some b \<and> b \<noteq> [] \<and> mp_decode lib b = Some v)"

lemma lib_okE:
  assumes "lib_ok lib"
  obtains b where "mp_encode lib v = Some b" "b \<noteq> []" "mp_decode lib b = Some v"
  using assms by (auto simp: lib_ok_def)

text \<open>What a frame answers, and what a client that sent a frame expects.\<close>

datatype reply_tag = Answered u32 | Ponged

definition tag_of :: "msgpack_lib \<Rightarrow> u8 list \<Rightarrow> reply_tag list" where
  "tag_of lib f =
     (if f ! 4 = msg_response then
        (case mp_decode lib (drop 6 f) of
           Some (M_Arr (M_Int i # rest)) \<Rightarrow> [Answered (word_of_int i)] | _ \<Rightarrow> [])
      else if f ! 4 = msg_pong then [Ponged] else [])"

definition expected_tag :: "msgpack_lib \<Rightarrow> wire_frame \<Rightarrow> reply_tag list" where
  "expected_tag lib f =
     (case f of (mt, fl, payload) \<Rightarrow>
        if mt = msg_request then
          (case Option.bind (decode_msgpack lib payload) parse_request of
             None \<Rightarrow> [] | Some (request_id, method, params) \<Rightarrow> [Answered request_id])
        else if mt = msg_ping then [Ponged] else [])"

fun expected_of :: "msgpack_lib \<Rightarrow> 'o conn_event \<Rightarrow> reply_tag list" where
  "expected_of lib (Frame_In f ci) = expected_tag lib f"
| "expected_of lib _ = []"

definition reply_tags :: "msgpack_lib \<Rightarrow> 'o conn_state \<Rightarrow> reply_tag list" where
  "reply_tags lib s =
     concat (map (tag_of lib) (cn_sent (cs_conn s) @
       (case cs_pending s of None \<Rightarrow> [] | Some r \<Rightarrow> [r])))"

lemma payload_frame_ok:
  "lib_ok lib \<Longrightarrow> \<exists>b. payload_frame lib mt failure v = encode_frame mt 0 b \<and> mp_decode lib b = Some v"
  by (erule lib_okE [of lib v]) (auto simp: payload_frame_def)

lemma tag_encode_response:
  assumes "lib_ok lib"
  shows "tag_of lib (encode_response lib why request_id res) = [Answered request_id]"
  by (rule lib_okE [OF assms, of "response_value request_id res"])
    (auto simp: encode_response_def tag_of_def response_value_def split: sum.splits)

lemma untagged:
  "tag_of lib (encode_frame msg_stream_start fl b) = []"
  "tag_of lib (encode_frame msg_stream_event fl b) = []"
  "tag_of lib (encode_frame msg_stream_end fl b) = []"
  by (simp_all add: tag_of_def msg_defs)

lemma stream_turn_untagged:
  assumes "lib_ok (ie_lib env)" "stream_turn env st sub = Some (fs, sub')"
  shows "concat (map (tag_of (ie_lib env)) fs) = []"
proof -
  have event: "tag_of (ie_lib env) (encode_stream_event env occ idx interp) = []" for occ idx interp
    by (rule lib_okE [OF assms(1), of "M_Arr (event_elements idx (\<lambda>n. if nd_protocol n = ''tcp'' then 0 else 1)
        (if interp then interpretation_value (env_kb env) occ else None) occ)"])
      (simp add: encode_stream_event_def Let_def untagged)
  obtain b where "mp_encode (ie_lib env) (M_Arr [msgpack_str (sb_probe_id sub)]) = Some b"
    by (rule lib_okE [OF assms(1)])
  with assms(2) event show ?thesis by (auto simp: stream_turn_def untagged split: if_splits)
qed

lemma handle_method_sent:
  assumes "lib_ok (ie_lib env)" "handle_method env ci method params flags conn d = Some (res, conn', d')"
  shows "concat (map (tag_of (ie_lib env)) (cn_sent conn')) = concat (map (tag_of (ie_lib env)) (cn_sent conn))"
proof -
  have "tag_of (ie_lib env) (payload_frame (ie_lib env) msg_stream_end failure v) = []" for failure v
    using payload_frame_ok [OF assms(1), of msg_stream_end failure v]
    by (auto simp: tag_of_def msg_defs)
  then show ?thesis
    using assms(2)
    by (auto simp: handle_method_def handle_unsubscribe_def handle_subscribe_def send_frame_def Let_def
        split: if_splits option.splits prod.splits)
qed

lemma on_frame_tags:
  assumes "lib_ok (ie_lib env)" "on_frame env ci f conn d = Some (reply, conn', d')"
  shows "concat (map (tag_of (ie_lib env)) (cn_sent conn' @ (case reply of None \<Rightarrow> [] | Some r \<Rightarrow> [r]))) =
    concat (map (tag_of (ie_lib env)) (cn_sent conn)) @ expected_tag (ie_lib env) f"
proof -
  obtain mt fl payload where f: "f = (mt, fl, payload)" by (cases f)
  have pong: "tag_of (ie_lib env) (payload_frame (ie_lib env) msg_pong failure v) = [Ponged]" for failure v
    using payload_frame_ok [OF assms(1), of msg_pong failure v]
    by (auto simp: tag_of_def msg_defs)
  show ?thesis
  proof (cases "mt = msg_request")
    case False
    with assms(2) f pong show ?thesis
      by (auto simp: on_frame_def expected_tag_def split: if_splits)
  next
    case True
    show ?thesis
    proof (cases "Option.bind (decode_msgpack (ie_lib env) payload) parse_request")
      case None
      with True f assms(2) show ?thesis by (auto simp: on_frame_def expected_tag_def)
    next
      case (Some req)
      obtain rid mth params where req: "req = (rid, mth, params)" by (cases req)
      with Some True f assms(2) obtain res where
        m: "handle_method env ci mth params fl conn d = Some (res, conn', d')"
        "reply = Some (encode_response (ie_lib env) (ie_why env) rid res)"
        by (auto simp: on_frame_def handle_request_def)
      with Some True f req handle_method_sent [OF assms(1) m(1)] tag_encode_response [OF assms(1)]
      show ?thesis by (simp add: expected_tag_def)
    qed
  qed
qed

lemma conn_step_tags:
  assumes "lib_ok (ie_lib env)" "conn_step env s e s'"
  shows "reply_tags (ie_lib env) s' = reply_tags (ie_lib env) s @ expected_of (ie_lib env) e"
  using assms(2)
proof (cases rule: conn_step.cases)
  case (frame_in f ci reply conn d)
  then show ?thesis using on_frame_tags [OF assms(1) frame_in(4)] by (simp add: reply_tags_def)
next
  case (reply_out r)
  then show ?thesis by (simp add: reply_tags_def send_frame_def)
next
  case (stream sid sub fs sub')
  then show ?thesis using stream_turn_untagged [OF assms(1) stream(4)]
    by (simp add: reply_tags_def)
next
  case (elsewhere d)
  then show ?thesis by (simp add: reply_tags_def)
qed

section \<open>Properties\<close>

definition start_state :: "'o ipc_daemon \<Rightarrow> 'o conn_state" where
  "start_state d = \<lparr>cs_conn = \<lparr>cn_subs = [], cn_sent = []\<rparr>, cs_daemon = d, cs_pending = None\<rparr>"

lemma conn_run_tags:
  assumes "lib_ok (ie_lib env)" "conn_run env s es s'"
  shows "reply_tags (ie_lib env) s' = reply_tags (ie_lib env) s @ concat (map (expected_of (ie_lib env)) es)"
  using assms(2)
proof (induction rule: conn_run.induct)
  case (next_event s e s' es s'')
  then show ?case using conn_step_tags [OF assms(1) next_event.hyps(1)] by simp
qed simp

text \<open>
  C20: Requests and pings are answered once each and in order, whatever streams run beside them:
  over any interleaving of a connection, the responses (with the request identifier each carries)
  and pongs that were sent, followed by the one that is computed but not yet sent, are those that
  the frames received so far ask for.
\<close>

theorem requests_answered_in_order:
  assumes "lib_ok (ie_lib env)" "conn_run env (start_state d) es s"
  shows "concat (map (tag_of (ie_lib env)) (cn_sent (cs_conn s))) @
      (case cs_pending s of None \<Rightarrow> [] | Some r \<Rightarrow> tag_of (ie_lib env) r) =
    concat (map (expected_of (ie_lib env)) es)"
  using conn_run_tags [OF assms] by (simp add: reply_tags_def start_state_def split: option.splits)

text \<open>A codec that numbers the values: a value is as many bytes as its number.\<close>

instance msgpack :: countable
  by countable_datatype

definition counting_lib :: msgpack_lib where
  "counting_lib =
     \<lparr>mp_encode = (\<lambda>v. Some (replicate (Suc (to_nat v)) 0)),
      mp_decode = (\<lambda>b. Some (from_nat (length b - 1)))\<rparr>"

lemma counting_lib_ok: "lib_ok counting_lib"
  by (simp add: lib_ok_def counting_lib_def)

definition sample_ipc :: "msgpack_lib \<Rightarrow> string list ipc_env" where
  "sample_ipc lib =
     \<lparr>ie_deploy = sample_env, ie_lower = to_ascii_lowercase, ie_lib = lib, ie_why = [],
      ie_float = \<lparr>fl_of_int = \<lambda>i. 0, fl_widen = \<lambda>w. 0\<rparr>, ie_rate = (\<lambda>r. 0),
      ie_cutoff = (\<lambda>secs. Some 0), ie_rfc3339 = (\<lambda>t. [])\<rparr>"

definition sample_daemon :: "string list ipc_daemon" where
  "sample_daemon = \<lparr>id_handle = sample_handle, id_store = new_store 10\<rparr>"

definition sample_input :: call_input where
  "sample_input = \<lparr>ci_calls = (\<lambda>i. sample_cc), ci_stream_id = ''S1'', ci_later = new_store 10\<rparr>"

theorem requests_answered_in_order_witness:
  "\<exists>s. conn_run (sample_ipc counting_lib) (start_state sample_daemon)
      [Frame_In (msg_ping, 0, []) sample_input, Reply_Out] s \<and>
    concat (map (tag_of counting_lib) (cn_sent (cs_conn s))) = [Ponged]"
proof -
  let ?env = "sample_ipc counting_lib"
  let ?pong = "payload_frame counting_lib msg_pong ''failed to encode PONG payload'' (M_Arr [])"
  let ?s1 = "(start_state sample_daemon)\<lparr>cs_pending := Some ?pong\<rparr>"
  let ?s2 = "?s1\<lparr>cs_conn := send_frame ?pong (cs_conn ?s1), cs_pending := None\<rparr>"
  have lib: "ie_lib ?env = counting_lib" by (simp add: sample_ipc_def)
  have "on_frame ?env sample_input (msg_ping, 0, []) \<lparr>cn_subs = [], cn_sent = []\<rparr> sample_daemon =
      Some (Some ?pong, \<lparr>cn_subs = [], cn_sent = []\<rparr>, sample_daemon)"
    by (simp add: on_frame_def lib) (simp add: msg_defs)
  then have step1: "conn_step ?env (start_state sample_daemon) (Frame_In (msg_ping, 0, []) sample_input) ?s1"
    using frame_in [of "start_state sample_daemon" ?env sample_input "(msg_ping, 0, [])"]
    by (simp add: start_state_def)
  have step2: "conn_step ?env ?s1 Reply_Out ?s2" by (rule reply_out) simp
  have run: "conn_run ?env (start_state sample_daemon)
      [Frame_In (msg_ping, 0, []) sample_input, Reply_Out] ?s2"
    by (rule next_event [OF step1 next_event [OF step2 no_events]])
  have ok: "lib_ok (ie_lib ?env)" by (simp add: lib counting_lib_ok)
  from requests_answered_in_order [OF ok run] run show ?thesis
    by (intro exI [of _ ?s2] conjI) (simp_all add: lib expected_tag_def, simp add: msg_defs)
qed

section \<open>Interpretations\<close>

lemma event_function_of:
  "event_function (to_occurrence i now c e) =
     (case e of ProcessExec x \<Rightarrow> ''process_exec'' | FileOpen x \<Rightarrow> ''file_open''
      | FileOpenAttempt x \<Rightarrow> ''file_open_attempt'' | TcpConnect x \<Rightarrow> ''tcp_connect''
      | TcpClose x \<Rightarrow> ''tcp_close'' | TcpRetransmit x \<Rightarrow> ''tcp_retransmit'')"
  by (cases e) (simp_all add: event_function_def to_occurrence_fields strip_prefix_def starts_with_def)

lemma decimal_int_start:
  assumes "c \<noteq> CHR ''-''" "digit_value c = None"
  shows "decimal_int n \<noteq> c # s"
proof
  assume n: "decimal_int n = c # s"
  with assms(1) have "decimal (nat n) = c # s" by (simp add: decimal_int_def split: if_splits)
  with parse_digits_decimal [of "nat n" "nat n"] assms(2) show False by simp
qed

lemma error_ret_errno:
  "error_ret (errno_name ret) =
     (if sint (- ret) \<in> {111, 110, 113, 101} then Some (- sint (- ret)) else None)"
proof -
  have "decimal_int n \<noteq> ''CONNREFUSED''" "decimal_int n \<noteq> ''TIMEDOUT''"
    "decimal_int n \<noteq> ''HOSTUNREACH''" "decimal_int n \<noteq> ''NETUNREACH''" for n
    by (rule decimal_int_start, simp, simp add: digit_value_def)+
  then show ?thesis by (simp add: errno_name_def error_ret_def Let_def)
qed

lemma error_insert_labels [simp]: "occ_error (insert_labels kvs occ) = occ_error occ"
  unfolding insert_labels_def
  by (induction kvs arbitrary: occ) (auto simp: insert_label_def)

lemma connect_error_code:
  "map_option err_code (occ_error (to_occurrence i now c (TcpConnect t))) =
     (if tc_succeeded t then None else Some (errno_name (tc_ret t)))"
  by (simp add: to_occurrence.simps projection_defs Let_def builder_defs connect_error_def)

lemma close_error_code: "occ_error (to_occurrence i now c (TcpClose t)) = None"
  by (simp add: to_occurrence.simps projection_defs Let_def builder_defs)

lemma tcp_state_label:
  "label (to_occurrence i now c (TcpConnect t)) ''tcp_state'' = None"
  "label (to_occurrence i now c (TcpClose l)) ''tcp_state'' = None"
  by (simp_all add: label_to_occurrence)

text \<open>
  C2. Of all the events the built-in probes make, only failed connects are ever interpreted: with a
  knowledge base that names its entries after kernel functions (so not \<open>tcp_retransmit\<close>,
  \<open>process_exec\<close> and the like, which are the names the events carry), the interpretations of an event
  are those the base has for \<open>tcp_connect\<close> and the error, if it is one of the four the daemon
  recognises, and none otherwise.
\<close>

theorem only_failed_connects_explained:
  assumes "set (all_functions kb) \<inter>
      {''file_open'', ''file_open_attempt'', ''process_exec'', ''tcp_retransmit''} = {}"
  shows "explanations kb (to_occurrence i now c e) =
    (case e of
       TcpConnect t \<Rightarrow>
         if sint (- tc_ret t) \<in> {111, 110, 113, 101}
         then explain kb ''tcp_connect'' \<lparr>ev_ret = Some (- sint (- tc_ret t)), ev_tcp_state = None\<rparr>
         else []
     | _ \<Rightarrow> [])"
proof (cases e)
  case (TcpConnect t)
  have "tc_succeeded t \<Longrightarrow> sint (- tc_ret t) = 0" by (simp add: tc_succeeded_def)
  with TcpConnect show ?thesis
    by (auto simp: explanations_def event_function_of extract_event_fields_def connect_error_code
        tcp_state_label error_ret_errno intro: no_fields_no_match)
next
  case (TcpClose t)
  then show ?thesis
    by (simp add: explanations_def event_function_of extract_event_fields_def close_error_code
        tcp_state_label no_fields_no_match)
qed (use assms in \<open>auto simp: explanations_def event_function_of intro!: explain_unknown\<close>)

text \<open>A refused connect, with a base that explains refusals.\<close>

definition refused_base :: knowledge_base where
  "refused_base = sample_kb
     [sample_probe ''tcp_connect'' ''fexit'' [''ret'']
        [\<lparr>in_pattern = ''ret == -111'', in_conclusion = ''nothing is listening'', in_severity = ''error'',
          in_action = ''check the port'', in_errno = Some ''ECONNREFUSED''\<rparr>],
      sample_probe ''tcp_retransmit_skb'' ''fentry'' [''tcp_state''] []]"

definition refused_connect :: tcp_connect_event where
  "refused_connect =
     \<lparr>tc_observed_at_ns = 1, tc_pid = 42, tc_tid = 42, tc_src_ip = V4 [10, 0, 0, 1],
      tc_dst_ip = V4 [10, 0, 0, 2], tc_src_port = 40000, tc_dst_port = 5432, tc_addr_family = 2,
      tc_ret = - 111, tc_cgroup_id = 9, tc_comm = ''curl'', tc_netns = 1\<rparr>"

theorem only_failed_connects_explained_witness:
  "map in_conclusion (explanations refused_base (to_occurrence 1 2 ''c'' (TcpConnect refused_connect))) =
     [''nothing is listening'']"
proof -
  have "set (all_functions refused_base) \<inter>
      {''file_open'', ''file_open_attempt'', ''process_exec'', ''tcp_retransmit''} = {}"
    by (simp add: all_functions_def refused_base_def sample_kb_def sample_probe_def)
  from only_failed_connects_explained [OF this, of 1 2 "''c''" "TcpConnect refused_connect"]
  have "explanations refused_base (to_occurrence 1 2 ''c'' (TcpConnect refused_connect)) =
      explain refused_base ''tcp_connect'' \<lparr>ev_ret = Some (- 111), ev_tcp_state = None\<rparr>"
    by (simp add: refused_connect_def)
  moreover have "contains ''ret == -111'' ''ret == -111''" by code_simp
  ultimately show ?thesis
    by (simp add: explain_def get_probe_def all_probes_def refused_base_def sample_kb_def sample_probe_def
        interpretation_matches_def Let_def del: contains.simps)
qed

section \<open>Streams\<close>

lemma string_le_trans: "string_le a b \<Longrightarrow> string_le b c \<Longrightarrow> string_le a c"
proof (induction a b arbitrary: c rule: string_le.induct)
  case (3 x s y t)
  then show ?case by (cases c) (auto simp: order.strict_trans)
qed (auto elim: string_le.elims)

definition stored :: "event_store \<Rightarrow> string \<Rightarrow> occurrence list" where
  "stored st name = (case map_of (es_buffers st) name of None \<Rightarrow> [] | Some b \<Rightarrow> buffer_iter b)"

lemma query_since_stored:
  "cutoff_ok cutoff f \<Longrightarrow>
   query_since cutoff st name seen f =
     Some (take (limit_of f) (filter (wanted cutoff f) (filter (after_seen seen) (stored st name))))"
  by (simp add: query_since_def stored_def filter_events_eq split: option.split)

text \<open>The turns of a stream over the store as it is at each.\<close>

fun stream_turns ::
  "'o ipc_env \<Rightarrow> event_store list \<Rightarrow> subscription \<Rightarrow> (u8 list list \<times> subscription) option" where
  "stream_turns env [] sub = Some ([], sub)"
| "stream_turns env (st # sts) sub =
     (case stream_turn env st sub of
        None \<Rightarrow> None
      | Some (fs, sub) \<Rightarrow> map_option (\<lambda>(rest, sub). (fs @ rest, sub)) (stream_turns env sts sub))"

definition increasing :: "occurrence list \<Rightarrow> bool" where
  "increasing occs \<longleftrightarrow> sorted_wrt (<) (map occ_id occs)"

lemma increasing_append:
  "increasing (xs @ ys) \<longleftrightarrow>
     increasing xs \<and> increasing ys \<and> (\<forall>x \<in> set xs. \<forall>y \<in> set ys. occ_id x < occ_id y)"
  by (auto simp: increasing_def sorted_wrt_append)

lemma increasing_filter_take: "increasing xs \<Longrightarrow> increasing (take n (filter p xs))"
  unfolding increasing_def
  by (metis sorted_wrt_map sorted_wrt_filter sorted_wrt_take)

lemma increasing_last:
  "increasing xs \<Longrightarrow> x \<in> set xs \<Longrightarrow> occ_id x \<le> occ_id (last xs)"
  by (cases xs rule: rev_cases) (auto simp: increasing_append)

text \<open>An event after the last one sent, or any when none was.\<close>

definition after_last :: "subscription \<Rightarrow> occurrence \<Rightarrow> bool" where
  "after_last sub occ \<longleftrightarrow> after_seen (sb_last sub) occ"

lemma stream_turn_started:
  assumes "sb_started sub" "\<not> sb_done sub" "cutoff_ok (ie_cutoff env) (sb_filter sub)"
    and "increasing (stored st (sb_probe_id sub))"
  obtains events sub' where
    "stream_turn env st sub =
       Some (map (\<lambda>occ. encode_stream_event env occ 0 (sb_interpreted sub)) events, sub')"
    "events = take (limit_of (sb_filter sub)) (filter (wanted (ie_cutoff env) (sb_filter sub))
       (filter (after_last sub) (stored st (sb_probe_id sub))))"
    "sub' = sub\<lparr>sb_last := (if events = [] then sb_last sub else Some (ulid_string (occ_id (last events))))\<rparr>"
    "increasing events" "\<forall>occ \<in> set events. after_last sub occ"
    "\<forall>occ. after_last sub' occ \<longrightarrow> after_last sub occ \<and> (\<forall>e \<in> set events. occ_id e < occ_id occ)"
proof -
  define events where "events = take (limit_of (sb_filter sub))
    (filter (wanted (ie_cutoff env) (sb_filter sub)) (filter (after_last sub) (stored st (sb_probe_id sub))))"
  define sub' where "sub' = sub\<lparr>sb_last :=
    (if events = [] then sb_last sub else Some (ulid_string (occ_id (last events))))\<rparr>"
  have inc: "increasing events"
    unfolding events_def filter_filter using assms(4) by (rule increasing_filter_take)
  have mem: "\<forall>occ \<in> set events. after_last sub occ"
    by (auto simp: events_def dest!: in_set_takeD)
  have later: "after_last sub occ \<and> (\<forall>e \<in> set events. occ_id e < occ_id occ)"
    if a: "after_last sub' occ" for occ
  proof (cases "events = []")
    case True
    with a show ?thesis by (simp add: sub'_def after_last_def)
  next
    case False
    with a have less: "occ_id (last events) < occ_id occ"
      by (simp add: sub'_def after_last_def after_seen_ulid)
    have "\<forall>e \<in> set events. occ_id e < occ_id occ"
      using increasing_last [OF inc] less by (meson order.strict_trans1)
    moreover have "after_last sub occ"
    proof (cases "sb_last sub")
      case None
      then show ?thesis by (simp add: after_last_def after_seen_def)
    next
      case (Some s)
      have "\<not> string_le (ulid_string (occ_id (last events))) s"
        using mem False Some by (simp add: after_last_def after_seen_def)
      then show ?thesis
        using less Some string_le_trans [of "ulid_string (occ_id (last events))" "ulid_string (occ_id occ)" s]
        by (auto simp: after_last_def after_seen_def ulid_string_le dest: order.strict_implies_order)
    qed
    ultimately show ?thesis by simp
  qed
  have "stream_turn env st sub =
      Some (map (\<lambda>occ. encode_stream_event env occ 0 (sb_interpreted sub)) events, sub')"
    using assms(1-3)
    by (simp add: stream_turn_def query_since_stored after_last_def [abs_def] events_def sub'_def)
  then show ?thesis by (rule that [OF _ events_def sub'_def inc mem]) (use later in blast)
qed


definition sample_sub :: subscription where
  "sample_sub = \<lparr>sb_probe_id = ''tcp'', sb_filter = no_filter, sb_interpreted = False,
     sb_started = True, sb_last = None, sb_done = False\<rparr>"


section \<open>Where the protocol surprises\<close>

text \<open>
  The response to a subscription is computed before it is sent, and the stream's task runs from
  then on: its first frame may be on the wire before the response.
\<close>

lemma start_before_response:
  assumes "lib_ok (ie_lib env)" "cs_pending s = None" "cn_subs (cs_conn s) = []"
    and "mp_decode (ie_lib env) payload = Some (M_Arr [M_Int 1, M_Int 3, params])" "payload \<noteq> []"
    and "get_str params ''probe_id'' = Some ident"
  shows "\<exists>s' start response. conn_run env s
      [Frame_In (msg_request, fl, payload) ci, Stream_Turn (ci_stream_id ci), Reply_Out] s' \<and>
    cn_sent (cs_conn s') = cn_sent (cs_conn s) @ [start, response] \<and>
    start ! 4 = msg_stream_start \<and> response ! 4 = msg_response"
proof -
  have dec: "Option.bind (decode_msgpack (ie_lib env) payload) parse_request = Some (1, 3, params)"
    using assms(4,5) by (simp add: decode_msgpack_def number_or_zero_def)
  define sub where "sub = \<lparr>sb_probe_id = ident, sb_filter = parse_event_filter params,
    sb_interpreted = (fl AND flag_interpreted \<noteq> 0 \<or> get_bool params ''interpreted'' = Some True),
    sb_started = False, sb_last = None, sb_done = False\<rparr>"
  define res where "res = (Inr (M_Map [(msgpack_str ''stream_id'', msgpack_str (ci_stream_id ci))]) ::
    string + msgpack)"
  define response where "response = encode_response (ie_lib env) (ie_why env) 1 res"
  let ?conn = "(cs_conn s)\<lparr>cn_subs := [(ci_stream_id ci, sub)]\<rparr>"
  have "handle_method env ci 3 params fl (cs_conn s) (cs_daemon s) = Some (res, ?conn, cs_daemon s)"
    using assms(3,6)
    by (simp add: handle_method_def method_defs handle_subscribe_def res_def sub_def Let_def)
  then have "on_frame env ci (msg_request, fl, payload) (cs_conn s) (cs_daemon s) =
      Some (Some response, ?conn, cs_daemon s)"
    by (simp add: on_frame_def dec handle_request_def response_def)
  from frame_in [OF assms(2) this] have step1: "conn_step env s (Frame_In (msg_request, fl, payload) ci)
      \<lparr>cs_conn = ?conn, cs_daemon = cs_daemon s, cs_pending = Some response\<rparr>" .
  obtain b where "mp_encode (ie_lib env) (M_Arr [msgpack_str (sb_probe_id sub)]) = Some b"
    by (rule lib_okE [OF assms(1)])
  then have turn: "stream_turn env st sub = Some ([encode_frame msg_stream_start 0 b], sub\<lparr>sb_started := True\<rparr>)"
    for st by (simp add: stream_turn_def sub_def)
  obtain b' where "mp_encode (ie_lib env) (response_value 1 res) = Some b'"
    by (rule lib_okE [OF assms(1)])
  then have "response ! 4 = msg_response" by (simp add: response_def encode_response_def)
  moreover
  let ?s1 = "\<lparr>cs_conn = ?conn, cs_daemon = cs_daemon s, cs_pending = Some response\<rparr>"
  let ?s2 = "?s1\<lparr>cs_conn := \<lparr>cn_subs = AList.update (ci_stream_id ci) (sub\<lparr>sb_started := True\<rparr>) (cn_subs (cs_conn ?s1)),
    cn_sent = cn_sent (cs_conn ?s1) @ [encode_frame msg_stream_start 0 b]\<rparr>\<rparr>"
  let ?s3 = "?s2\<lparr>cs_conn := send_frame response (cs_conn ?s2), cs_pending := None\<rparr>"
  have "conn_step env ?s1 (Stream_Turn (ci_stream_id ci)) ?s2"
    by (rule stream [OF _ turn]) simp
  moreover have "conn_step env ?s2 Reply_Out ?s3" by (rule reply_out) simp
  ultimately have "conn_run env s [Frame_In (msg_request, fl, payload) ci, Stream_Turn (ci_stream_id ci), Reply_Out] ?s3"
    "response ! 4 = msg_response"
    using step1 by (auto intro: conn_run.intros)
  then show ?thesis
    by (intro exI [of _ ?s3] exI [of _ "encode_frame msg_stream_start 0 b"] exI [of _ response])
      (simp add: send_frame_def)
qed

text \<open>The method of a request is cut to a byte before it is compared: 264 detaches a probe.\<close>

lemma method_cut_to_byte:
  "parse_request (M_Arr [M_Int i, M_Int 264, params]) = Some (ucast (number_or_zero (M_Int i)), method_detach, params)"
  by (simp add: number_or_zero_def method_detach_def)

text \<open>A port beyond the range selects another port, instead of none.\<close>

lemma port_cut_to_range:
  assumes "map_field params ''filter'' = Some (M_Map [(msgpack_str ''dst_port'', M_Int 70968)])"
  shows "ef_dst_port (parse_event_filter params) = Some 5432"
proof -
  have "utf8_valid (as_bytes ''dst_port'')" by code_simp
  then show ?thesis
    using assms by (simp add: parse_event_filter_def Let_def get_u64_def)
qed

text \<open>However many events a client asks for, the filter of an answer has room for a hundred.\<close>

lemma answers_capped: "limit_of (parse_event_filter params) = 100"
  by (simp add: limit_of_def parse_event_filter_def Let_def)

end
