(* ===== verification/Ipc_Client.thy ===== *)
theory Ipc_Client
  imports Ipc_Server
begin

text \<open>
  The client side of the socket (\<open>jalki/src/ipc.rs\<close>, \<open>call_native\<close> and \<open>call\<close>, which the command
  line and the MCP server use), and what a call comes to when the server answers it.

  A fresh connection is opened for each call; what comes back on it is a list of bytes.
\<close>

section \<open>The client\<close>

record response =
  rs_ok :: bool
  rs_result :: "msgpack option"
  rs_error :: "string option"

definition response_success :: "msgpack \<Rightarrow> response" where
  "response_success v = \<lparr>rs_ok = True, rs_result = Some v, rs_error = None\<rparr>"

definition response_err :: "string \<Rightarrow> response" where
  "response_err msg = \<lparr>rs_ok = False, rs_result = None, rs_error = Some msg\<rparr>"

definition response_get_str :: "response \<Rightarrow> string \<Rightarrow> string option" where
  "response_get_str r key = Option.bind (rs_result r) (\<lambda>v. get_str v key)"

definition response_get_u64 :: "response \<Rightarrow> string \<Rightarrow> u64 option" where
  "response_get_u64 r key = Option.bind (rs_result r) (\<lambda>v. get_u64 v key)"

definition response_get_f64 :: "float_ops \<Rightarrow> response \<Rightarrow> string \<Rightarrow> u64 option" where
  "response_get_f64 fl r key = Option.bind (rs_result r) (\<lambda>v. get_f64 fl v key)"

fun response_as_array :: "response \<Rightarrow> msgpack list option" where
  "response_as_array r = (case rs_result r of Some (M_Arr vs) \<Rightarrow> Some vs | _ \<Rightarrow> None)"

definition response_to_json ::
  "float_ops \<Rightarrow> (msgpack \<Rightarrow> string) \<Rightarrow> (u8 list \<Rightarrow> string) \<Rightarrow> response \<Rightarrow> json" where
  "response_to_json fl sh lossy r =
     (case rs_result r of None \<Rightarrow> J_Null | Some v \<Rightarrow> msgpack_to_json fl sh lossy v)"

definition request_value :: "u8 \<Rightarrow> msgpack \<Rightarrow> msgpack" where
  "request_value method params = M_Arr [M_Int 1, M_Int (uint method), params]"

text \<open>The bytes \<open>call_native\<close> writes; \<open>None\<close> is the encoder's error.\<close>

definition client_request :: "msgpack_lib \<Rightarrow> u8 \<Rightarrow> msgpack \<Rightarrow> u8 list option" where
  "client_request lib method params =
     map_option (encode_frame msg_request 0) (mp_encode lib (request_value method params))"

datatype client_error = Read_Failed frame_error | Decode_Failed

fun read_response :: "msgpack \<Rightarrow> response" where
  "read_response (M_Arr (a # b # c # rest)) =
     (if as_bool b = Some True then response_success c
      else response_err (case as_str c of None \<Rightarrow> ''unknown error'' | Some msg \<Rightarrow> msg))"
| "read_response _ = response_err ''malformed response''"

text \<open>What \<open>call_native\<close> makes of the bytes that come back.\<close>

definition client_response :: "msgpack_lib \<Rightarrow> u8 list \<Rightarrow> client_error + response" where
  "client_response lib input =
     (case read_frame input of
        Inl e \<Rightarrow> Inl (Read_Failed e)
      | Inr ((msg_type, flags, payload), rest) \<Rightarrow>
          if msg_type \<noteq> msg_response
          then Inr (response_err (''unexpected response type: '' @ decimal (unat msg_type)))
          else (case decode_msgpack lib payload of
                  None \<Rightarrow> Inl Decode_Failed
                | Some v \<Rightarrow> Inr (read_response v)))"

definition method_of_name :: "string \<Rightarrow> u8 option" where
  "method_of_name name =
     (if name \<in> {''find_probe'', ''find''} then Some method_find
      else if name \<in> {''deploy_probe'', ''deploy''} then Some method_deploy
      else if name \<in> {''detach_probe'', ''detach''} then Some method_detach
      else if name = ''subscribe'' then Some method_subscribe
      else if name = ''unsubscribe'' then Some method_unsubscribe
      else if name \<in> {''probe_status'', ''status''} then Some method_status
      else if name = ''ask'' then Some method_ask
      else if name \<in> {''get_events'', ''get_all_events''} then Some method_get_events
      else None)"

text \<open>\<open>call\<close>: a name and JSON parameters; \<open>send\<close> is the exchange of \<open>call_native\<close>.\<close>

definition call_by_name ::
  "(u8 \<Rightarrow> msgpack \<Rightarrow> client_error + response) \<Rightarrow> string \<Rightarrow> json \<Rightarrow> client_error + response" where
  "call_by_name send name params =
     (case method_of_name name of
        None \<Rightarrow> Inr (response_err (''unknown method: '' @ name))
      | Some method \<Rightarrow> send method (json_to_msgpack params))"

section \<open>A call end to end\<close>

text \<open>What a call should come to.\<close>

definition outcome_of :: "string + msgpack \<Rightarrow> response" where
  "outcome_of res =
     (case res of
        Inr v \<Rightarrow> response_success v
      | Inl msg \<Rightarrow> response_err (if utf8_valid (as_bytes msg) then msg else ''unknown error''))"

lemma read_response_value: "read_response (response_value rid res) = outcome_of res"
  by (simp add: response_value_def outcome_of_def split: sum.split)

lemma byte_through_u64: "ucast (ucast (m :: u8) :: u64) = m"
  by (rule ucast_up_ucast_id) (simp add: is_up)

lemma method_round_trip: "ucast (number_or_zero (M_Int (uint (m :: u8)))) = m"
proof -
  have "uint m < 2 ^ 8" using uint_bounded [of m] by simp
  then have "number_or_zero (M_Int (uint m)) = ucast m"
    by (simp add: number_or_zero_def flip: ucast_eq)
  then show ?thesis by (simp only: byte_through_u64)
qed

text \<open>A connection without streams sends nothing but the response.\<close>

lemma handle_method_quiet:
  assumes "cn_subs conn = []" "handle_method env ci method params flags conn d = Some (res, conn', d')"
  shows "cn_sent conn' = cn_sent conn"
  using assms
  by (auto simp: handle_method_def handle_unsubscribe_def handle_subscribe_def
      abort_subscriptions_for_def Let_def split: if_splits option.splits prod.splits)

section \<open>Properties\<close>


text \<open>A codec that knows one request and its answer.\<close>

definition pair_lib :: "msgpack \<Rightarrow> msgpack \<Rightarrow> msgpack_lib" where
  "pair_lib v w =
     \<lparr>mp_encode = (\<lambda>x. if x = v then Some [1] else if x = w then Some [2] else None),
      mp_decode = (\<lambda>b. if b = [1] then Some v else if b = [2] then Some w else None)\<rparr>"


text \<open>A stream's first frame ahead of the response is reported as an error, and the response is lost.\<close>

lemma start_ahead_is_error:
  assumes "length b + 2 \<le> frame_max_len"
  shows "client_response lib (encode_frame msg_stream_start 0 b @ rest) =
    Inr (response_err ''unexpected response type: 3'')"
proof -
  have "decimal (unat msg_stream_start) = ''3''" by code_simp
  then show ?thesis
    using read_encode [OF assms, of msg_stream_start 0 rest]
    by (simp add: client_response_def) (simp add: msg_defs)
qed

end
