(* ===== verification/Self_Observability.thy ===== *)
theory Self_Observability
  imports Probe_Registry Sink_Queue
begin

text \<open>
  The daemon's reports on itself (\<open>emit_self_observability\<close> in \<open>jalki/src/runtime.rs\<close>): every ten
  seconds the counters of the attached probes are compared with what they were, and what a ring
  buffer lost or could not be decoded since becomes evidence.

  Identifiers and the clock are drawn per record; the registry and the queue change between turns.
\<close>

section \<open>Counters\<close>

definition counter_delta :: "u64 \<Rightarrow> u64 \<Rightarrow> u64" where
  "counter_delta current previous = (if previous \<le> current then current - previous else current)"

type_synonym seen_counters = "string \<rightharpoonup> u64 \<times> u64 \<times> u64"

definition update_probe_counters ::
  "string \<Rightarrow> u64 \<Rightarrow> u64 \<Rightarrow> u64 \<Rightarrow> u64 \<Rightarrow> seen_counters \<Rightarrow> (u64 \<times> u64 \<times> u64) \<times> seen_counters" where
  "update_probe_counters ident dropped errors tracking_started counter_polled previous =
     (case (case previous ident of None \<Rightarrow> (0, 0, tracking_started) | Some p \<Rightarrow> p) of
        (prev_dropped, prev_errors, previous_poll) \<Rightarrow>
          ((counter_delta dropped prev_dropped, counter_delta errors prev_errors, previous_poll),
           previous(ident \<mapsto> (dropped, errors, counter_polled))))"

section \<open>Records\<close>

text \<open>What a record is made with: its identifiers, the time, the producer, and the JSON of a list.\<close>

record report_env =
  re_occ_id :: ulid
  re_batch_id :: string
  re_now :: int
  re_producer :: producer_metadata
  re_json_strings :: "string list \<Rightarrow> string"

definition ring_buffer_gap :: "string \<Rightarrow> u64 \<Rightarrow> u64 \<Rightarrow> u64 \<Rightarrow> gap_report" where
  "ring_buffer_gap otype dropped gap_start gap_end =
     \<lparr>cause = ''ringbuffer_overflow'', affected_probes = [otype], dropped_records = unat dropped,
      gap_start_ns = gap_start, gap_end_ns = gap_end,
      dropped_reliability = (if class_of otype = Reliability then unat dropped else 0),
      dropped_attribution = (if class_of otype = Attribution then unat dropped else 0)\<rparr>"

definition report_gap_records :: "report_env \<Rightarrow> gap_report \<Rightarrow> evidence_record list" where
  "report_gap_records re g =
     eb_records (gap_into_batch (re_json_strings re) (re_occ_id re) (re_now re) (re_batch_id re)
       (re_producer re) g)"

definition ring_buffer_gap_records :: "report_env \<Rightarrow> string \<Rightarrow> u64 \<Rightarrow> u64 \<Rightarrow> u64 \<Rightarrow> evidence_record list" where
  "ring_buffer_gap_records re otype dropped gap_start gap_end =
     report_gap_records re (ring_buffer_gap otype dropped gap_start gap_end)"

definition self_observability_record :: "occurrence \<Rightarrow> evidence_record" where
  "self_observability_record occ =
     \<lparr>observed_at_ns = 0, er_pid = 0, er_cgroup_id = 0,
      er_probe = \<lparr>pr_probe_id = ''jalki_self'', pr_probe_version = ''1'', pr_probe_family = ''agent'',
        pr_hook_kind = Fentry, pr_kernel_function = ''jalki_self_observability''\<rparr>,
      er_occurrence = occ, er_binding = None\<rparr>"

definition parse_errors_record :: "report_env \<Rightarrow> evidence_record" where
  "parse_errors_record re =
     self_observability_record
       (in_cluster (pm_cluster (re_producer re))
         (with_severity Warning
           (new_occurrence (re_occ_id re) (re_now re) ''jalki/self'' ''jalki.probe.parse_errors'')))"

section \<open>A turn\<close>

text \<open>
  The loop over the snapshots of a turn.  The first component is False when the queue was closed:
  the task then ends.
\<close>

type_synonym snapshot = "string \<times> string \<times> string \<times> probe_stats"

definition report_probe ::
  "(evidence_record list \<Rightarrow> nat) \<Rightarrow> report_env \<Rightarrow> report_env \<Rightarrow> snapshot \<Rightarrow>
   seen_counters \<Rightarrow> sink_queue \<Rightarrow> bool \<times> seen_counters \<times> sink_queue" where
  "report_probe resident re re' s previous q =
     (case s of (ident, name, otype, st) \<Rightarrow>
      case drop_observation_of st of (dropped, started, polled) \<Rightarrow>
      case update_probe_counters ident dropped (parse_errors st) started polled previous of
        ((new_drops, new_errors, previous_poll), previous) \<Rightarrow>
          let (sent, q) =
                (if 0 < new_drops
                 then try_send resident (ring_buffer_gap_records re otype new_drops previous_poll polled) q
                 else (Some Admitted, q))
          in if sent = None then (False, previous, q)
             else let (sent, q) =
                    (if 0 < new_errors then try_send resident [parse_errors_record re'] q
                     else (Some Admitted, q))
                  in (sent \<noteq> None, previous, q))"

fun report_probes ::
  "(evidence_record list \<Rightarrow> nat) \<Rightarrow> (nat \<Rightarrow> report_env) \<Rightarrow> nat \<Rightarrow> snapshot list \<Rightarrow>
   seen_counters \<Rightarrow> sink_queue \<Rightarrow> bool \<times> seen_counters \<times> sink_queue" where
  "report_probes resident res i [] previous q = (True, previous, q)"
| "report_probes resident res i (s # ss) previous q =
     (case report_probe resident (res i) (res (i + 1)) s previous q of
        (False, previous, q) \<Rightarrow> (False, previous, q)
      | (True, previous, q) \<Rightarrow> report_probes resident res (i + 2) ss previous q)"

definition observability_tick ::
  "(evidence_record list \<Rightarrow> nat) \<Rightarrow> (nat \<Rightarrow> report_env) \<Rightarrow> probe_registry \<Rightarrow>
   seen_counters \<Rightarrow> sink_queue \<Rightarrow> bool \<times> seen_counters \<times> sink_queue" where
  "observability_tick resident res rg previous q =
     (let snapshots = observability_stats rg
      in report_probes resident res 0 snapshots (previous |` set (map fst snapshots)) q)"

section \<open>What one turn sends\<close>

definition counters_of :: "snapshot \<Rightarrow> u64 \<times> u64 \<times> u64" where
  "counters_of s =
     (case s of (ident, name, otype, st) \<Rightarrow>
        (do_total (drop_obs st), parse_errors st, do_polled (drop_obs st)))"

definition new_gaps :: "seen_counters \<Rightarrow> snapshot \<Rightarrow> gap_report list" where
  "new_gaps previous s =
     (case s of (ident, name, otype, st) \<Rightarrow>
      case fst (update_probe_counters ident (do_total (drop_obs st)) (parse_errors st)
             (do_started (drop_obs st)) (do_polled (drop_obs st)) previous) of
        (new_drops, new_errors, previous_poll) \<Rightarrow>
          if 0 < new_drops
          then [ring_buffer_gap otype new_drops previous_poll (do_polled (drop_obs st))] else [])"

definition holds_gap :: "gap_report \<Rightarrow> queued list \<Rightarrow> bool" where
  "holds_gap g xs \<longleftrightarrow> (\<exists>re n. QRecords (report_gap_records re g) n \<in> set xs)"

lemma holds_gap_append [simp]: "holds_gap g (xs @ ys) \<longleftrightarrow> holds_gap g xs \<or> holds_gap g ys"
  by (auto simp: holds_gap_def)

lemma update_probe_counters_parts:
  "snd (update_probe_counters ident d e t p previous) = previous(ident \<mapsto> (d, e, p))"
  "previous ident = previous' ident \<Longrightarrow>
   fst (update_probe_counters ident d e t p previous) = fst (update_probe_counters ident d e t p previous')"
  by (simp_all add: update_probe_counters_def split: prod.split)

lemma gap_records_agent: "list_all is_agent_record (report_gap_records re g)" "report_gap_records re g \<noteq> []"
  by (simp_all add: report_gap_records_def gap_into_batch_def Let_def is_agent_record_def
      builder_defs starts_with_Cons)

lemma agent_in_scope: "list_all is_agent_record rs \<Longrightarrow> apply_scope q rs = rs"
  by (auto simp: apply_scope_def in_namespace_scope_def list_all_iff intro: filter_True split: option.split)

text \<open>A gap report is admitted however full the queue is and whatever the scope.\<close>

lemma gap_admitted:
  assumes "\<not> sq_closed q"
  obtains n q' where "try_send resident (report_gap_records re g) q = (Some Admitted, q')"
    "sq_queue q' = sq_queue q @ [QRecords (report_gap_records re g) n]" "\<not> sq_closed q'"
proof (cases rule: try_send_cases [OF assms, of "report_gap_records re g" resident])
  case 1
  then show thesis using gap_records_agent [of re g] by (simp add: agent_in_scope)
next
  case 2
  with assms that show thesis using gap_records_agent [of re g] by (simp add: agent_in_scope)
next
  case 3
  then show thesis
    using gap_records_agent [of re g]
    by (simp add: agent_in_scope admit_class_def admit_limit_def refuses_def sat_add_def not_less)
qed

lemma try_send_appends:
  assumes "\<not> sq_closed q"
  obtains a q' xs where "try_send resident rs q = (Some a, q')" "sq_queue q' = sq_queue q @ xs"
    "\<not> sq_closed q'"
  using assms
proof (cases rule: try_send_cases [OF assms, of rs resident])
  case 3
  with assms that show thesis
    by (cases "sq_marker_queued q") (simp_all add: refuse_queue)
qed (use that in simp_all)

lemma report_probe_open:
  assumes "\<not> sq_closed q" "s = (ident, rest)"
  obtains q' xs where
    "report_probe resident re re' s previous q = (True, previous(ident \<mapsto> counters_of s), q')"
    "sq_queue q' = sq_queue q @ xs" "\<not> sq_closed q'" "\<forall>g \<in> set (new_gaps previous s). holds_gap g xs"
proof -
  obtain name otype st where s: "s = (ident, name, otype, st)" using assms(2) by (cases rest) simp
  let ?u = "update_probe_counters ident (do_total (drop_obs st)) (parse_errors st)
             (do_started (drop_obs st)) (do_polled (drop_obs st)) previous"
  obtain nd ne pp where u: "?u = ((nd, ne, pp), previous(ident \<mapsto> counters_of s))"
    using update_probe_counters_parts(1) [of ident "do_total (drop_obs st)" "parse_errors st"
        "do_started (drop_obs st)" "do_polled (drop_obs st)" previous]
    by (cases ?u) (auto simp: counters_of_def s)
  let ?g = "ring_buffer_gap otype nd pp (do_polled (drop_obs st))"
  obtain a q1 xs where first:
    "(if 0 < nd then try_send resident (report_gap_records re ?g) q else (Some Admitted, q)) = (Some a, q1)"
    "sq_queue q1 = sq_queue q @ xs" "\<not> sq_closed q1" "0 < nd \<longrightarrow> holds_gap ?g xs"
  proof (cases "0 < nd")
    case True
    obtain n q' where "try_send resident (report_gap_records re ?g) q = (Some Admitted, q')"
      "sq_queue q' = sq_queue q @ [QRecords (report_gap_records re ?g) n]" "\<not> sq_closed q'"
      using gap_admitted [OF assms(1)] by metis
    with True show thesis by (intro that [of Admitted q']) (auto simp: holds_gap_def)
  qed (use assms(1) that in simp)
  obtain b q2 ys where second:
    "(if 0 < ne then try_send resident [parse_errors_record re'] q1 else (Some Admitted, q1)) = (Some b, q2)"
    "sq_queue q2 = sq_queue q1 @ ys" "\<not> sq_closed q2"
  proof (cases "0 < ne")
    case True
    with try_send_appends [OF first(3), of resident "[parse_errors_record re']"] that show thesis
      by (metis (full_types))
  qed (use first(3) that in simp)
  have "report_probe resident re re' s previous q = (True, previous(ident \<mapsto> counters_of s), q2)"
    using first(1) second(1)
    by (simp add: report_probe_def s drop_observation_of_def u [unfolded s]
        ring_buffer_gap_records_def [abs_def] Let_def del: fun_upd_apply split del: if_split cong: if_cong)
  moreover have "\<forall>g \<in> set (new_gaps previous s). holds_gap g (xs @ ys)"
    using first(4) by (simp add: new_gaps_def s u [unfolded s])
  ultimately show thesis using first(2) second(2,3) that [of q2 "xs @ ys"] by simp
qed

lemma new_gaps_cong: "previous (fst s) = previous' (fst s) \<Longrightarrow> new_gaps previous s = new_gaps previous' s"
  unfolding new_gaps_def by (cases s) (simp add: update_probe_counters_parts(2) [of previous _ previous'])

lemma new_gaps_other:
  "fst s \<noteq> ident \<Longrightarrow> new_gaps (previous(ident \<mapsto> c)) s = new_gaps previous s"
  by (rule new_gaps_cong) simp

definition seen_of :: "snapshot list \<Rightarrow> seen_counters" where
  "seen_of ss = map_of (map (\<lambda>s. (fst s, counters_of s)) ss)"

lemma seen_of_None: "seen_of ss x = None \<longleftrightarrow> x \<notin> fst ` set ss"
  by (simp add: seen_of_def map_of_eq_None_iff image_image)

lemma seen_of_Some: "map_of ss ident = Some rest \<Longrightarrow> seen_of ss ident = Some (counters_of (ident, rest))"
  by (induction ss) (auto simp: seen_of_def split: if_splits)

lemma report_probes_open:
  assumes "\<not> sq_closed q" "distinct (map fst ss)"
  obtains q' xs where "report_probes resident res i ss previous q = (True, previous ++ seen_of ss, q')"
    "sq_queue q' = sq_queue q @ xs" "\<not> sq_closed q'"
    "\<forall>s \<in> set ss. \<forall>g \<in> set (new_gaps previous s). holds_gap g xs"
  using assms
proof (induction ss arbitrary: i previous q thesis)
  case Nil
  then show ?case by (simp add: seen_of_def)
next
  case (Cons s ss)
  obtain ident rest where s: "s = (ident, rest)" by (cases s)
  obtain q1 xs where one:
    "report_probe resident (res i) (res (i + 1)) s previous q = (True, previous(ident \<mapsto> counters_of s), q1)"
    "sq_queue q1 = sq_queue q @ xs" "\<not> sq_closed q1" "\<forall>g \<in> set (new_gaps previous s). holds_gap g xs"
    using report_probe_open [OF Cons.prems(2) s] by metis
  let ?prev = "previous(ident \<mapsto> counters_of s)"
  have dist: "distinct (map fst ss)" using Cons.prems(3) by simp
  obtain q2 ys where rest:
    "report_probes resident res (i + 2) ss ?prev q1 = (True, ?prev ++ seen_of ss, q2)"
    "sq_queue q2 = sq_queue q1 @ ys" "\<not> sq_closed q2"
    "\<forall>s \<in> set ss. \<forall>g \<in> set (new_gaps ?prev s). holds_gap g ys"
    by (rule Cons.IH [OF _ one(3) dist])
  have notin: "ident \<notin> fst ` set ss" using Cons.prems(3) s by simp
  have same: "\<forall>s \<in> set ss. new_gaps ?prev s = new_gaps previous s"
    using notin by (auto intro!: new_gaps_other)
  have "?prev ++ seen_of ss = previous ++ seen_of (s # ss)"
    using notin by (auto simp: seen_of_def s map_add_def fun_eq_iff map_of_eq_None_iff image_image
        split: option.split dest!: map_of_SomeD)
  then show ?case
    using one(1,2,4) rest same Cons.prems(1) [of q2 "xs @ ys"] by simp
qed

lemma observability_tick_open:
  assumes "\<not> sq_closed q" "distinct (map fst (rg_attached rg))"
  obtains q' xs where "observability_tick resident res rg previous q = (True, seen_of (observability_stats rg), q')"
    "sq_queue q' = sq_queue q @ xs" "\<not> sq_closed q'"
    "\<forall>s \<in> set (observability_stats rg). \<forall>g \<in> set (new_gaps previous s). holds_gap g xs"
proof -
  let ?ss = "observability_stats rg" and ?prev = "previous |` set (map fst (observability_stats rg))"
  have "map fst ?ss = map fst (rg_attached rg)" by (simp add: observability_stats_def case_prod_beta)
  with assms(2) have "distinct (map fst ?ss)" by simp
  from report_probes_open [OF assms(1) this] obtain q' xs where r:
    "report_probes resident res 0 ?ss ?prev q = (True, ?prev ++ seen_of ?ss, q')"
    "sq_queue q' = sq_queue q @ xs" "\<not> sq_closed q'"
    "\<forall>s \<in> set ?ss. \<forall>g \<in> set (new_gaps ?prev s). holds_gap g xs" by metis
  have "new_gaps ?prev s = new_gaps previous s" if "s \<in> set ?ss" for s
    using that by (intro new_gaps_cong) simp
  moreover have "?prev ++ seen_of ?ss = seen_of ?ss"
  proof
    fix x show "(?prev ++ seen_of ?ss) x = seen_of ?ss x"
      by (cases "seen_of ?ss x") (use seen_of_None [of ?ss x] in \<open>auto simp: map_add_def restrict_map_def\<close>)
  qed
  ultimately show thesis using r that by (simp add: observability_tick_def)
qed

section \<open>Runs\<close>

text \<open>
  The loop: at each turn the registry and the queue as the rest of the daemon has left them.  The
  result is the queue before and after each turn.
\<close>

type_synonym turn = "(nat \<Rightarrow> report_env) \<times> probe_registry \<times> sink_queue"

fun emit_self_observability ::
  "(evidence_record list \<Rightarrow> nat) \<Rightarrow> turn list \<Rightarrow> seen_counters \<Rightarrow> (sink_queue \<times> sink_queue) list" where
  "emit_self_observability resident [] previous = []"
| "emit_self_observability resident ((res, rg, q) # ts) previous =
     (case observability_tick resident res rg previous q of
        (go, previous, q') \<Rightarrow>
          (q, q') # (if go then emit_self_observability resident ts previous else []))"

definition snapshot_of :: "string \<Rightarrow> probe_registry \<Rightarrow> (string \<times> string \<times> probe_stats) option" where
  "snapshot_of ident rg = map_of (observability_stats rg) ident"

definition observed :: "string \<Rightarrow> probe_registry \<Rightarrow> drop_observation" where
  "observed ident rg = (case snapshot_of ident rg of Some (name, otype, st) \<Rightarrow> drop_obs st)"

text \<open>
  What the turns are assumed to find: the queue open, the probe attached with its counters, which a
  reader only lets grow, tracking from \<open>t0\<close>.
\<close>

fun counters_grow :: "string \<Rightarrow> string \<Rightarrow> u64 \<Rightarrow> u64 \<Rightarrow> u64 \<Rightarrow> turn list \<Rightarrow> bool" where
  "counters_grow ident otype t0 d p [] = True"
| "counters_grow ident otype t0 d p ((res, rg, q) # ts) =
     (\<not> sq_closed q \<and> distinct (map fst (rg_attached rg)) \<and>
      (case snapshot_of ident rg of
         None \<Rightarrow> False
       | Some (name, ty, st) \<Rightarrow>
           ty = otype \<and> do_started (drop_obs st) = t0 \<and> d \<le> do_total (drop_obs st) \<and>
           p \<le> do_polled (drop_obs st) \<and>
           counters_grow ident otype t0 (do_total (drop_obs st)) (do_polled (drop_obs st)) ts))"

text \<open>Windows one after the other, between two times.\<close>

fun windows_ordered :: "u64 \<Rightarrow> gap_report list \<Rightarrow> u64 \<Rightarrow> bool" where
  "windows_ordered lo [] hi = (lo \<le> hi)"
| "windows_ordered lo (g # gs) hi =
     (lo \<le> gap_start_ns g \<and> gap_start_ns g \<le> gap_end_ns g \<and> windows_ordered (gap_end_ns g) gs hi)"

lemma windows_ordered_weaken: "lo \<le> lo' \<Longrightarrow> windows_ordered lo' gs hi \<Longrightarrow> windows_ordered lo gs hi"
  by (cases gs) (auto intro: order_trans)

definition last_observed :: "string \<Rightarrow> turn list \<Rightarrow> u64 \<times> u64 \<Rightarrow> u64 \<times> u64" where
  "last_observed ident ts start =
     fold (\<lambda>(res, rg, q) _. (do_total (observed ident rg), do_polled (observed ident rg))) ts start"

lemma new_gaps_delta:
  assumes "previous ident = None \<and> d = 0 \<and> p = do_started (drop_obs st) \<or> (\<exists>e. previous ident = Some (d, e, p))"
    and "d \<le> do_total (drop_obs st)"
  shows "new_gaps previous (ident, name, otype, st) =
    (if d < do_total (drop_obs st)
     then [ring_buffer_gap otype (do_total (drop_obs st) - d) p (do_polled (drop_obs st))] else [])"
  using assms
  by (auto simp: new_gaps_def update_probe_counters_def counter_delta_def word_gt_0 split: prod.split)

lemma run_reports:
  assumes "counters_grow ident otype t0 d p ts"
    and "previous ident = None \<and> d = 0 \<and> p = t0 \<or> (\<exists>e. previous ident = Some (d, e, p))"
    and "last_observed ident ts (d, p) = (d', p')"
  shows "\<exists>gss. length gss = length ts \<and> length (emit_self_observability resident ts previous) = length ts \<and>
    (\<forall>k < length ts. case emit_self_observability resident ts previous ! k of (q, q') \<Rightarrow>
        q = snd (snd (ts ! k)) \<and>
        (\<exists>xs. sq_queue q' = sq_queue q @ xs \<and> (\<forall>g \<in> set (gss ! k). holds_gap g xs))) \<and>
    sum_list (map dropped_records (concat gss)) + unat d = unat d' \<and>
    windows_ordered p (concat gss) p' \<and>
    (\<forall>g \<in> set (concat gss). affected_probes g = [otype] \<and> cause g = ''ringbuffer_overflow'')"
  using assms
proof (induction ts arbitrary: d p previous)
  case Nil
  then show ?case by (simp add: last_observed_def)
next
  case (Cons t ts)
  obtain res rg q where t: "t = (res, rg, q)" by (cases t)
  with Cons.prems(1) obtain name st where st: "snapshot_of ident rg = Some (name, otype, st)"
    and open_q: "\<not> sq_closed q" and dist: "distinct (map fst (rg_attached rg))"
    and t0: "do_started (drop_obs st) = t0" and d: "d \<le> do_total (drop_obs st)"
    and p: "p \<le> do_polled (drop_obs st)"
    and grow: "counters_grow ident otype t0 (do_total (drop_obs st)) (do_polled (drop_obs st)) ts"
    by (auto split: option.splits prod.splits)
  let ?o = "drop_obs st" and ?seen = "seen_of (observability_stats rg)"
  obtain q' xs where tick: "observability_tick resident res rg previous q = (True, ?seen, q')"
    "sq_queue q' = sq_queue q @ xs"
    "\<forall>s \<in> set (observability_stats rg). \<forall>g \<in> set (new_gaps previous s). holds_gap g xs"
    using observability_tick_open [OF open_q dist] by metis
  have mem: "(ident, name, otype, st) \<in> set (observability_stats rg)"
    using st by (simp add: snapshot_of_def map_of_SomeD)
  have "?seen ident = Some (do_total ?o, parse_errors st, do_polled ?o)"
    using seen_of_Some [of "observability_stats rg" ident] st
    by (simp add: snapshot_of_def counters_of_def)
  moreover have "last_observed ident ts (do_total ?o, do_polled ?o) = (d', p')"
    using Cons.prems(3) st by (simp add: last_observed_def t observed_def)
  ultimately obtain gss where IH: "length gss = length ts"
    "length (emit_self_observability resident ts ?seen) = length ts"
    "\<forall>k < length ts. case emit_self_observability resident ts ?seen ! k of (q, q') \<Rightarrow>
        q = snd (snd (ts ! k)) \<and>
        (\<exists>xs. sq_queue q' = sq_queue q @ xs \<and> (\<forall>g \<in> set (gss ! k). holds_gap g xs))"
    "sum_list (map dropped_records (concat gss)) + unat (do_total ?o) = unat d'"
    "windows_ordered (do_polled ?o) (concat gss) p'"
    "\<forall>g \<in> set (concat gss). affected_probes g = [otype] \<and> cause g = ''ringbuffer_overflow''"
    using Cons.IH [OF grow, of ?seen] by blast
  let ?gs = "new_gaps previous (ident, name, otype, st)"
  have gs: "?gs = (if d < do_total ?o then [ring_buffer_gap otype (do_total ?o - d) p (do_polled ?o)] else [])"
    using Cons.prems(2) t0 d by (intro new_gaps_delta) auto
  have run: "emit_self_observability resident (t # ts) previous =
      (q, q') # emit_self_observability resident ts ?seen"
    by (simp add: t tick(1))
  have "sum_list (map dropped_records ?gs) + unat d = unat (do_total ?o)"
    using d by (auto simp: gs ring_buffer_gap_def unat_sub word_le_nat_alt word_less_nat_alt)
  moreover have "windows_ordered p (?gs @ concat gss) p'"
    using IH(5) p by (auto simp: gs ring_buffer_gap_def intro: windows_ordered_weaken)
  moreover have "\<forall>g \<in> set ?gs. affected_probes g = [otype] \<and> cause g = ''ringbuffer_overflow''"
    by (simp add: gs ring_buffer_gap_def)
  moreover have "\<forall>g \<in> set ?gs. holds_gap g xs" using tick(3) mem by blast
  ultimately show ?case
    using IH tick(2) unfolding run
    by (intro exI [of _ "?gs # gss"]) (auto simp: nth_Cons t split: nat.split)
qed

section \<open>Properties\<close>


text \<open>Drops counted between the last turn and a detachment are forgotten with the probe.\<close>

lemma detached_probe_forgotten:
  assumes "\<not> sq_closed q" "distinct (map fst (rg_attached rg))" "snapshot_of ident rg = None"
  obtains q' where
    "observability_tick resident res rg previous q = (True, seen_of (observability_stats rg), q')"
    "seen_of (observability_stats rg) ident = None"
proof -
  have "ident \<notin> fst ` set (observability_stats rg)"
    using assms(3) by (simp add: snapshot_of_def map_of_eq_None_iff)
  with observability_tick_open [OF assms(1,2), of resident res previous] seen_of_None that
  show thesis by metis
qed

text \<open>
  A report of decoding errors is bound to nothing: a queue with a list of namespaces does not admit
  it, and a sink that projects its records drops it.
\<close>

lemma parse_errors_unbound:
  "plane_b_drop_reason (parse_errors_record re) = Some UnknownReason"
  "\<not> in_namespace_scope allow (parse_errors_record re)"
  by (simp_all add: plane_b_drop_reason_def in_namespace_scope_def bound_namespace_def
      is_agent_record_def parse_errors_record_def self_observability_record_def builder_defs
      starts_with_Cons)

definition sample_report :: report_env where
  "sample_report =
     \<lparr>re_occ_id = 0, re_batch_id = [], re_now = 0,
      re_producer = new_producer ''0.3'' ''kube'' ''node'' ''6.1'', re_json_strings = concat\<rparr>"

definition sample_turn :: "u64 \<Rightarrow> u64 \<Rightarrow> turn" where
  "sample_turn dropped polled =
     (\<lambda>_. sample_report,
      snd (register_startup_probe (hd builtin_probes) 0
        (snd (record_drop_poll dropped polled (start_drop_tracking 5 new_stats))) new_registry),
      new_queue (new_queue_config 0) None)"


end
