(* ===== verification/Runtime_Start.thy ===== *)
theory Runtime_Start
  imports Sink_Loop Container_Ref Daemon
begin

text \<open>
  The configuration and the start of the daemon: the builder and \<open>run\<close> of \<open>Runtime\<close>, what is
  read from the environment (\<open>jalki/src/runtime.rs\<close>), and the memory limit
  (\<open>jalki-evidence/src/cgroup.rs\<close>).

  The environment is a partial map, the file system a partial map from paths to texts.  Numbers
  that the code keeps in floating point are reals.
\<close>

section \<open>Memory pressure\<close>

type_synonym files = "string \<rightharpoonup> string"

datatype limit_source = Cgroup_Limit string | Declared_Limit

record memory_pressure =
  mp_current_path :: string
  mp_limit_bytes :: nat
  mp_source :: limit_source

definition own_cgroup_dir :: "files \<Rightarrow> string \<Rightarrow> string" where
  "own_cgroup_dir fs cgroup_root =
     (case fs ''/proc/self/cgroup'' of
        None \<Rightarrow> cgroup_root
      | Some content \<Rightarrow>
          (case find (\<lambda>l. starts_with l ''0::'') (text_lines content) of
             None \<Rightarrow> cgroup_root
           | Some line \<Rightarrow>
               let rel = dropWhile (\<lambda>c. c = CHR ''/'') (trim (drop 3 line))
               in if rel = [] then cgroup_root else path_join cgroup_root rel))"

definition read_limit :: "files \<Rightarrow> string \<Rightarrow> nat option" where
  "read_limit fs path =
     (case fs path of None \<Rightarrow> None
      | Some raw \<Rightarrow> let raw = trim raw in if raw = ''max'' then None else parse_uint u64_max raw)"

definition read_number :: "files \<Rightarrow> string \<Rightarrow> nat option" where
  "read_number fs path = (case fs path of None \<Rightarrow> None | Some raw \<Rightarrow> parse_uint u64_max (trim raw))"

definition pressure_at :: "files \<Rightarrow> string \<Rightarrow> nat option \<Rightarrow> memory_pressure option" where
  "pressure_at fs dir declared =
     (let current = path_join dir ''memory.current'' in
      if fs current = None then None
      else (case read_limit fs (path_join dir ''memory.max'') of
              Some n \<Rightarrow> Some \<lparr>mp_current_path = current, mp_limit_bytes = n, mp_source = Cgroup_Limit dir\<rparr>
            | None \<Rightarrow>
                (case declared of
                   None \<Rightarrow> None
                 | Some n \<Rightarrow>
                     if 0 < n
                     then Some \<lparr>mp_current_path = current, mp_limit_bytes = n, mp_source = Declared_Limit\<rparr>
                     else None)))"

definition detect :: "files \<Rightarrow> string \<Rightarrow> nat option \<Rightarrow> memory_pressure option" where
  "detect fs cgroup_root declared = pressure_at fs (own_cgroup_dir fs cgroup_root) declared"

definition pressure_ratio :: "files \<Rightarrow> memory_pressure \<Rightarrow> real option" where
  "pressure_ratio fs mp =
     map_option (\<lambda>n. real n / real (mp_limit_bytes mp)) (read_number fs (mp_current_path mp))"

text \<open>
  At the root of the host's hierarchy a declared limit is compared with what the whole node uses:
  with more in use on the node than the agent may use, the ratio stays above one whatever the agent
  itself holds.
\<close>

lemma own_cgroup_dir_root:
  assumes "fs ''/proc/self/cgroup'' = Some (''0::/'' @ bytes [10])"
  shows "own_cgroup_dir fs r = r"
proof -
  have "find (\<lambda>l. starts_with l ''0::'') (text_lines (''0::/'' @ bytes [10])) = Some ''0::/''"
    "dropWhile (\<lambda>c. c = CHR ''/'') (trim (drop 3 ''0::/'')) = []"
    by code_simp+
  with assms show ?thesis by (simp add: own_cgroup_dir_def)
qed

lemma declared_limit_against_host:
  assumes "fs ''/proc/self/cgroup'' = Some (''0::/'' @ bytes [10])"
    and "read_number fs ''/sys/fs/cgroup/memory.current'' = Some used"
    and "read_limit fs ''/sys/fs/cgroup/memory.max'' = None"
    and "0 < declared" "declared < used"
  shows "\<exists>mp. detect fs ''/sys/fs/cgroup'' (Some declared) = Some mp \<and>
    pressure_ratio fs mp = Some (real used / real declared) \<and> 1 < real used / real declared"
  using assms(2-5)
  by (intro exI [of _ "\<lparr>mp_current_path = ''/sys/fs/cgroup/memory.current'', mp_limit_bytes = declared,
      mp_source = Declared_Limit\<rparr>"])
    (auto simp: detect_def own_cgroup_dir_root [of fs, OF assms(1)] pressure_at_def path_join_def
      pressure_ratio_def read_number_def split: option.splits)

text \<open>Where that root has no usage file, as on a kernel that keeps none for it, the limit is not used.\<close>

lemma declared_limit_without_usage:
  assumes "fs ''/proc/self/cgroup'' = Some (''0::/'' @ bytes [10])" "fs ''/sys/fs/cgroup/memory.current'' = None"
  shows "detect fs ''/sys/fs/cgroup'' declared = None"
  using assms(2)
  by (simp add: detect_def own_cgroup_dir_root [of fs, OF assms(1)] pressure_at_def path_join_def)

section \<open>From the environment\<close>

type_synonym env = "string \<rightharpoonup> string"

definition declared_limit :: "env \<Rightarrow> nat option" where
  "declared_limit env =
     Option.bind (env ''JALKI_MEMORY_LIMIT_BYTES'') (\<lambda>v. parse_uint u64_max (trim v))"

definition detect_from_env :: "env \<Rightarrow> files \<Rightarrow> memory_pressure option" where
  "detect_from_env env fs =
     detect fs (case env ''JALKI_CGROUP_ROOT'' of None \<Rightarrow> ''/sys/fs/cgroup'' | Some p \<Rightarrow> p)
       (declared_limit env)"

text \<open>Where the spool goes: the path and its budget, handed to \<open>open_spool\<close>.\<close>

definition spool_from_env :: "env \<Rightarrow> (string \<Rightarrow> bool) \<Rightarrow> (string \<Rightarrow> disk) \<Rightarrow> spool option" where
  "spool_from_env env dir_ok disk_at =
     (case env ''JALKI_SPOOL_PATH'' of
        None \<Rightarrow> None
      | Some path \<Rightarrow>
          open_spool (dir_ok path) (env_parse env ''JALKI_SPOOL_MAX_BYTES'' (256 * 1024 * 1024)) (disk_at path))"

text \<open>The producer: \<open>host\<close> is the host name, when it is text.\<close>

definition nonempty_text :: "string option \<Rightarrow> string option" where
  "nonempty_text v = (case v of Some s \<Rightarrow> if s = [] then None else Some s | None \<Rightarrow> None)"

definition producer_metadata_from ::
  "string \<Rightarrow> string option \<Rightarrow> env \<Rightarrow> files \<Rightarrow> string \<Rightarrow> string option \<Rightarrow> producer_metadata" where
  "producer_metadata_from version host env fs cluster node_identity =
     (let node_id = (case host of None \<Rightarrow> ''unknown'' | Some h \<Rightarrow> h);
          release = (case fs ''/proc/sys/kernel/osrelease'' of None \<Rightarrow> ''unknown'' | Some s \<Rightarrow> trim s)
      in (new_producer version cluster node_id release)
           \<lparr>pm_node_identity := nonempty_text
              (case node_identity of Some i \<Rightarrow> Some i | None \<Rightarrow> env ''JALKI_NODE_IDENTITY''),
            pm_boot_id := nonempty_text (map_option trim (fs ''/proc/sys/kernel/random/boot_id''))\<rparr>)"

section \<open>The builder\<close>

record ('s, 'e) runtime =
  rt_probes :: "probe list"
  rt_sink :: "'s option"
  rt_ebpf_path :: string
  rt_cluster :: string
  rt_enricher :: 'e
  rt_sensitive_paths :: "string list"
  rt_namespace_allowlist :: "string set option"
  rt_node_identity :: "string option"

definition new_runtime :: "'e \<Rightarrow> string option \<Rightarrow> string \<Rightarrow> ('s, 'e) runtime" where
  "new_runtime noop host path =
     \<lparr>rt_probes = [], rt_sink = None, rt_ebpf_path = path,
      rt_cluster = (case host of None \<Rightarrow> ''unknown'' | Some h \<Rightarrow> h), rt_enricher = noop,
      rt_sensitive_paths = default_sensitive_paths, rt_namespace_allowlist = None,
      rt_node_identity = None\<rparr>"

definition with_node_identity :: "string \<Rightarrow> ('s, 'e) runtime \<Rightarrow> ('s, 'e) runtime" where
  "with_node_identity i rt = rt\<lparr>rt_node_identity := Some i\<rparr>"

definition with_cluster :: "string \<Rightarrow> ('s, 'e) runtime \<Rightarrow> ('s, 'e) runtime" where
  "with_cluster c rt = rt\<lparr>rt_cluster := c\<rparr>"

definition with_probe :: "probe \<Rightarrow> ('s, 'e) runtime \<Rightarrow> ('s, 'e) runtime" where
  "with_probe p rt = rt\<lparr>rt_probes := rt_probes rt @ [p]\<rparr>"

definition sink_to :: "'s \<Rightarrow> ('s, 'e) runtime \<Rightarrow> ('s, 'e) runtime" where
  "sink_to s rt = rt\<lparr>rt_sink := Some s\<rparr>"

definition enrich_with :: "'e \<Rightarrow> ('s, 'e) runtime \<Rightarrow> ('s, 'e) runtime" where
  "enrich_with e rt = rt\<lparr>rt_enricher := e\<rparr>"

definition with_sensitive_paths :: "string list \<Rightarrow> ('s, 'e) runtime \<Rightarrow> ('s, 'e) runtime" where
  "with_sensitive_paths ps rt = rt\<lparr>rt_sensitive_paths := ps\<rparr>"

definition namespace_allowlist :: "string list \<Rightarrow> ('s, 'e) runtime \<Rightarrow> ('s, 'e) runtime" where
  "namespace_allowlist namespaces rt =
     (let names = filter (\<lambda>s. s \<noteq> []) (map trim namespaces)
      in rt\<lparr>rt_namespace_allowlist := (if names = [] then None else Some (set names))\<rparr>)"

section \<open>Starting\<close>

text \<open>
  The start of \<open>run\<close>: programs loaded, then a reader and a registry entry per probe, in order.  A
  failure ends the daemon.  Each reader has its clocks.
\<close>

fun start_readers ::
  "'o ebpf_ops \<Rightarrow> (nat \<Rightarrow> int \<times> u64 option) \<Rightarrow> nat \<Rightarrow> probe list \<Rightarrow> 'o \<Rightarrow> probe_registry \<Rightarrow>
   attach_error + ('o \<times> probe_registry)" where
  "start_readers ops clocks i [] eb rg = Inr (eb, rg)"
| "start_readers ops clocks i (p # ps) eb rg =
     (case spawn_reader ops p (snd (clocks i)) new_stats eb of
        (Inl e, eb) \<Rightarrow> Inl e
      | (Inr st, eb) \<Rightarrow>
          start_readers ops clocks (i + 1) ps eb (snd (register_startup_probe p (fst (clocks i)) st rg)))"

definition start_daemon ::
  "'o ebpf_ops \<Rightarrow> (nat \<Rightarrow> int \<times> u64 option) \<Rightarrow> ('s, 'e) runtime \<Rightarrow> 'o \<Rightarrow>
   attach_error + (string list \<times> 'o daemon_handle)" where
  "start_daemon ops clocks rt eb =
     (case load_and_attach ops (rt_probes rt) eb of
        Inl e \<Rightarrow> Inl e
      | Inr (skipped, eb) \<Rightarrow>
          (case start_readers ops clocks 0 (rt_probes rt) eb new_registry of
             Inl e \<Rightarrow> Inl e
           | Inr (eb, rg) \<Rightarrow>
               Inr (skipped, \<lparr>dh_ebpf = eb, dh_registry = rg, dh_generated = [], dh_stopped = {}\<rparr>)))"

text \<open>The queue between the readers and the sink, with the scope applied on the way in.\<close>

definition runtime_queue :: "env \<Rightarrow> ('s, 'e) runtime \<Rightarrow> sink_queue" where
  "runtime_queue env rt =
     new_queue (queue_config_from_env_value (env ''JALKI_QUEUE_MAX_BYTES'')) (rt_namespace_allowlist rt)"

section \<open>Properties\<close>

lemma start_readers_effect:
  assumes "start_readers ops clocks i ps eb rg = Inr (eb', rg')" "registry_ok rg"
    and "unat (rg_next rg) + length ps < 2 ^ 64"
  shows "registry_ok rg' \<and> (\<exists>sts. length sts = length ps \<and>
    rg_attached rg' = rg_attached rg @ map (\<lambda>k. (probe_id (rg_next rg + of_nat k),
      \<lparr>ap_probe = ps ! k, ap_since = fst (clocks (i + k)), ap_stats = sts ! k, ap_stop = None\<rparr>)) [0..<length ps])"
  using assms
proof (induction ps arbitrary: i eb rg)
  case (Cons p ps)
  from Cons.prems(1) obtain st eb1 where
    go: "start_readers ops clocks (i + 1) ps eb1 (snd (register_startup_probe p (fst (clocks i)) st rg)) = Inr (eb', rg')"
    by (auto split: prod.splits sum.splits)
  have room: "rg_next rg \<noteq> - 1"
    using Cons.prems(3) by (auto simp: unsigned_minus_1_eq_mask mask_eq_exp_minus_1)
  let ?rg = "snd (register_startup_probe p (fst (clocks i)) st rg)"
  note ins = insert_attached_ok [OF Cons.prems(2) room, of p "fst (clocks i)" st None,
      folded register_startup_probe_def]
  have "unat (rg_next ?rg) + length ps < 2 ^ 64" using Cons.prems(3) by (simp add: ins(3) unat_next [OF room])
  from Cons.IH [OF go ins(1) this] obtain sts where ok: "registry_ok rg'" and len: "length sts = length ps"
    and att: "rg_attached rg' = rg_attached ?rg @ map (\<lambda>k. (probe_id (rg_next ?rg + of_nat k),
      \<lparr>ap_probe = ps ! k, ap_since = fst (clocks (i + 1 + k)), ap_stats = sts ! k, ap_stop = None\<rparr>)) [0..<length ps]"
    by blast
  have "rg_attached rg' = rg_attached rg @ map (\<lambda>k. (probe_id (rg_next rg + of_nat k),
      \<lparr>ap_probe = (p # ps) ! k, ap_since = fst (clocks (i + k)), ap_stats = (st # sts) ! k, ap_stop = None\<rparr>))
      [0..<length (p # ps)]"
    unfolding att ins(3,4) by (simp add: map_upt_Suc algebra_simps del: upt_Suc)
  with ok len show ?case by (intro conjI exI [of _ "st # sts"]) simp_all
qed simp

text \<open>
  C1. A daemon that starts lists every configured probe, in order, under identifiers counted from
  one; none of them can be detached, and none of their names deployed again.  The probes whose
  program could not be attached are among them.
\<close>

theorem startup_registers_all:
  assumes "start_daemon ops clocks rt eb = Inr (skipped, h)" "length (rt_probes rt) < 2 ^ 64 - 1"
  shows "map (\<lambda>s. (pst_probe_id s, pst_name s)) (status (dh_registry h)) =
      map (\<lambda>k. (probe_id (of_nat (k + 1)), probe_name (rt_probes rt ! k))) [0..<length (rt_probes rt)] \<and>
    registry_ok (dh_registry h) \<and>
    (\<forall>ident \<in> fst ` set (rg_attached (dh_registry h)). detach_probe ident h = (Inl (Startup_Probe ident), h)) \<and>
    (\<forall>p \<in> set (rt_probes rt). \<forall>now clock flag. deploy_pre_compiled ops p now clock flag h =
       (Inl (Already_Attached (probe_name p)), h))"
proof -
  let ?ps = "rt_probes rt" and ?rg = "dh_registry h"
  from assms(1) obtain eb1 where "start_readers ops clocks 0 ?ps eb1 new_registry = Inr (dh_ebpf h, ?rg)"
    by (auto simp: start_daemon_def split: sum.splits prod.splits)
  moreover have "unat (rg_next new_registry) + length ?ps < 2 ^ 64"
    using assms(2) by (simp add: new_registry_def)
  ultimately obtain sts where ok: "registry_ok ?rg" and att: "rg_attached ?rg =
      map (\<lambda>k. (probe_id (1 + of_nat k),
        \<lparr>ap_probe = ?ps ! k, ap_since = fst (clocks k), ap_stats = sts ! k, ap_stop = None\<rparr>)) [0..<length ?ps]"
    using start_readers_effect [OF _ registry_ok_new] by (fastforce simp: new_registry_def)
  have dist: "distinct (map fst (rg_attached ?rg))" using ok by (simp add: registry_ok_def)
  have "map (\<lambda>s. (pst_probe_id s, pst_name s)) (status ?rg) =
      map (\<lambda>k. (probe_id (of_nat (k + 1)), probe_name (?ps ! k))) [0..<length ?ps]"
    by (simp add: status_def status_of_def att)
  moreover have "detach_probe ident h = (Inl (Startup_Probe ident), h)"
    if "ident \<in> fst ` set (rg_attached ?rg)" for ident
  proof -
    from that obtain e where e: "(ident, e) \<in> set (rg_attached ?rg)" by auto
    then have stop: "ap_stop e = None" by (auto simp: att)
    from e have "map_of (rg_attached ?rg) ident = Some e" using dist by simp
    with stop show ?thesis by (simp add: detach_probe_def detach_def)
  qed
  moreover have "deploy_pre_compiled ops p now clock flag h = (Inl (Already_Attached (probe_name p)), h)"
    if p: "p \<in> set ?ps" for p now clock flag
  proof -
    from p obtain k where "k < length ?ps" "p = ?ps ! k" by (auto simp: in_set_conv_nth)
    then have "name_attached p ?rg" unfolding name_attached_def att by force
    then show ?thesis by (simp add: deploy_pre_compiled_def attach_def)
  qed
  ultimately show ?thesis using ok by blast
qed

theorem startup_registers_all_witness:
  "\<exists>skipped h. start_daemon sample_ebpf (\<lambda>_. (0, Some 5))
      (with_probe tcp_close_probe (new_runtime () None ''jalki'' :: (unit, unit) runtime))
      [''TCP_CLOSE_EVENTS'', ''TCP_CLOSE_EVENTS_DROPS''] = Inr (skipped, h) \<and>
    map pst_name (status (dh_registry h)) = [''tcp_close'']"
proof -
  let ?rt = "with_probe tcp_close_probe (new_runtime () None ''jalki'') :: (unit, unit) runtime"
  obtain skipped h where
    h: "start_daemon sample_ebpf (\<lambda>_. (0, Some 5)) ?rt
      [''TCP_CLOSE_EVENTS'', ''TCP_CLOSE_EVENTS_DROPS''] = Inr (skipped, h)"
    by (simp add: start_daemon_def load_and_attach_def sample_ebpf_def tcp_close_probe_def
        builtin_probe_def attach_one_def spawn_reader_def with_probe_def new_runtime_def
        drops_suffix_def Let_def)
  have "length (rt_probes ?rt) = 1" "rt_probes ?rt ! 0 = tcp_close_probe"
    by (simp_all add: with_probe_def new_runtime_def)
  with startup_registers_all [OF h]
  have "map (\<lambda>s. (pst_probe_id s, pst_name s)) (status (dh_registry h)) = [(probe_id 1, probe_name tcp_close_probe)]"
    by simp
  then have "map pst_name (status (dh_registry h)) = [''tcp_close'']"
    by (auto simp: tcp_close_probe_def builtin_probe_def)
  with h show ?thesis by (intro exI conjI)
qed

end
