(* ===== verification/Observability_Http.thy ===== *)
theory Observability_Http
  imports Sink_Loop Container_Ref
begin

text \<open>
  The observability server of the daemon (\<open>serve_metrics\<close>, \<open>handle_observability_request\<close>,
  \<open>read_request_line\<close> and \<open>request_path\<close> in \<open>jalki/src/runtime.rs\<close>), which liveness and
  readiness probes ask.

  What arrives on a connection is the list of its reads: the bytes of each (none when the peer has
  closed), or \<open>None\<close> for a failed one; the list ends where the time for the request does.
\<close>

section \<open>Reading a request\<close>

definition max_request_bytes :: nat where
  "max_request_bytes = 2048"

fun read_request_line :: "u8 list \<Rightarrow> u8 list option list \<Rightarrow> u8 list option" where
  "read_request_line buf reads =
     (if 10 \<in> set buf \<or> max_request_bytes \<le> length buf then Some buf
      else (case reads of
              [] \<Rightarrow> None
            | None # _ \<Rightarrow> None
            | Some chunk # reads \<Rightarrow>
                if chunk = [] then Some buf else read_request_line (buf @ chunk) reads))"

declare read_request_line.simps [simp del]

text \<open>\<open>split_whitespace\<close>: its next part and the text behind it.\<close>

fun word_of_text :: "string \<Rightarrow> string" where
  "word_of_text [] = []"
| "word_of_text (c # cs) =
     (if \<exists>w \<in> set white_space. starts_with (c # cs) w then [] else c # word_of_text cs)"

definition next_word :: "string \<Rightarrow> (string \<times> string) option" where
  "next_word s =
     (let s = trim_start s; w = word_of_text s in if s = [] then None else Some (w, drop (length w) s))"

definition line_path :: "string \<Rightarrow> string option" where
  "line_path line =
     Option.bind (next_word line) (\<lambda>(method_word, rest).
       map_option (\<lambda>(target, rest). hd (split_on CHR ''?'' target)) (next_word rest))"

definition request_path :: "u8 list \<Rightarrow> string option" where
  "request_path raw =
     (if \<not> utf8_valid raw then None
      else (case text_lines (of_bytes raw) of [] \<Rightarrow> None | line # _ \<Rightarrow> line_path line))"

section \<open>Answering\<close>

definition ready_max_backlog_age_secs :: "(string \<rightharpoonup> string) \<Rightarrow> nat" where
  "ready_max_backlog_age_secs env = env_parse env ''JALKI_READY_MAX_BACKLOG_AGE_SECS'' 60"

text \<open>
  The gauges: those of the sink loop and of its queue.  \<open>encoded\<close> is the text of all metrics and
  \<open>one_digit\<close> the formatting of a number with one decimal.
\<close>

record http_answer =
  ha_status :: string
  ha_content_type :: string
  ha_body :: string

definition text_plain :: string where
  "text_plain = ''text/plain; charset=utf-8''"

definition readyz_body :: "(real \<Rightarrow> string) \<Rightarrow> nat \<Rightarrow> loop_metrics \<Rightarrow> sink_queue \<Rightarrow> bool \<Rightarrow> string" where
  "readyz_body one_digit max_age m q stalled =
     (let line = (\<lambda>key v. key @ ''='' @ v @ bytes [10]) in
      concat
        [line ''queued_batches'' (decimal (lm_queued_batches m)),
         line ''queued_records'' (decimal (lm_queued_records m)),
         line ''queued_bytes'' (decimal (lm_queued_bytes m)),
         line ''oldest_age_seconds'' (one_digit (lm_oldest_age_seconds m)),
         line ''max_backlog_age_seconds'' (decimal max_age),
         line ''sink_queue_bytes'' (decimal (sq_bytes q)),
         line ''sink_queue_max_bytes'' (decimal (sq_max_bytes q)),
         line ''sink_queue_memory_pressure'' (if sq_under_pressure q then ''1'' else ''0''),
         line ''status'' (if stalled then ''stalled'' else ''ok'')])"

definition answer_path ::
  "(real \<Rightarrow> string) \<Rightarrow> string \<Rightarrow> nat \<Rightarrow> loop_metrics \<Rightarrow> sink_queue \<Rightarrow> string option \<Rightarrow> http_answer" where
  "answer_path one_digit encoded max_age m q path =
     (if path = Some ''/metrics'' then
        \<lparr>ha_status = ''200 OK'', ha_content_type = ''text/plain; version=0.0.4; charset=utf-8'',
         ha_body = encoded\<rparr>
      else if path = Some ''/healthz'' then
        \<lparr>ha_status = ''200 OK'', ha_content_type = text_plain, ha_body = ''ok'' @ bytes [10]\<rparr>
      else if path = Some ''/readyz'' then
        (let stalled = real max_age < lm_oldest_age_seconds m in
         \<lparr>ha_status = (if stalled then ''503 Service Unavailable'' else ''200 OK''),
          ha_content_type = text_plain, ha_body = readyz_body one_digit max_age m q stalled\<rparr>)
      else
        \<lparr>ha_status = ''404 Not Found'', ha_content_type = text_plain, ha_body = ''not found'' @ bytes [10]\<rparr>)"

definition http_text :: "http_answer \<Rightarrow> string" where
  "http_text a =
     ''HTTP/1.1 '' @ ha_status a @ bytes [13, 10] @
     ''Content-Type: '' @ ha_content_type a @ bytes [13, 10] @
     ''Content-Length: '' @ decimal (length (ha_body a)) @ bytes [13, 10] @
     ''Connection: close'' @ bytes [13, 10, 13, 10] @ ha_body a"

definition handle_observability_request ::
  "(real \<Rightarrow> string) \<Rightarrow> string \<Rightarrow> nat \<Rightarrow> loop_metrics \<Rightarrow> sink_queue \<Rightarrow> u8 list option list \<Rightarrow> string option" where
  "handle_observability_request one_digit encoded max_age m q reads =
     map_option (\<lambda>raw. http_text (answer_path one_digit encoded max_age m q (request_path raw)))
       (read_request_line [] reads)"

section \<open>How a request arrives\<close>

lemma char_codes:
  "char_of (10 :: nat) = CHR 0x0A" "char_of (13 :: nat) = CHR 0x0D" "char_of (32 :: nat) = CHR '' ''"
  by code_simp+

text \<open>However a request with a first line is cut into reads, what is read begins with that line.\<close>

lemma read_request_line_prefix:
  assumes "buf @ concat chunks = line @ 10 # rest" "10 \<notin> set line" "length line < max_request_bytes"
    and "[] \<notin> set chunks"
  shows "\<exists>t. read_request_line buf (map Some chunks @ later) = Some (line @ 10 # t) \<and> prefix t rest"
  using assms
proof (induction chunks arbitrary: buf)
  case Nil
  then show ?case by (auto simp: read_request_line.simps)
next
  case (Cons c chunks)
  show ?case
  proof (cases "10 \<in> set buf \<or> max_request_bytes \<le> length buf")
    case True
    have "length line < length buf"
    proof (rule ccontr)
      assume "\<not> length line < length buf"
      then have "prefix buf line" using Cons.prems(1)
        by (metis (no_types) append_eq_append_conv_if linorder_not_less prefix_def take_is_prefix)
      then show False using True Cons.prems(2,3) by (auto dest: prefix_length_le set_mono_prefix)
    qed
    then obtain t where t: "buf = line @ 10 # t" "t @ concat (c # chunks) = rest"
      using Cons.prems(1) by (auto simp: append_eq_append_conv2) (auto simp: append_eq_Cons_conv)
    then show ?thesis by (auto simp: read_request_line.simps)
  next
    case False
    have "(buf @ c) @ concat chunks = line @ 10 # rest" using Cons.prems(1) by simp
    from Cons.IH [OF this Cons.prems(2,3)] Cons.prems(4) False show ?thesis
      by (subst read_request_line.simps) auto
  qed
qed

lemma split_on_line: "d \<notin> set s \<Longrightarrow> split_on d (s @ d # t) = s # split_on d t"
  by (induction s) (auto split: list.splits)

lemma of_bytes_simps: "of_bytes (xs @ ys) = of_bytes xs @ of_bytes ys" "of_bytes (b # ys) = char_of (unat b) # of_bytes ys"
  by (simp_all add: of_bytes_def)

lemma unat_ten: "unat (10 :: u8) = 10"
  by simp

lemma newline_in_of_bytes: "CHR 0x0A \<in> set (of_bytes bs) \<longleftrightarrow> 10 \<in> set bs"
proof
  assume "CHR 0x0A \<in> set (of_bytes bs)"
  then obtain b where "b \<in> set bs" "char_of (unat b) = CHR 0x0A" by (auto simp: of_bytes_def)
  moreover have "(of_char (char_of (unat b)) :: nat) = unat b" for b :: u8
    using unat_u8_less [of b] by simp
  moreover have "(of_char (CHR 0x0A) :: nat) = 10" by simp
  ultimately have "unat b = unat (10 :: u8)" "b \<in> set bs" by (metis unat_ten)+
  then show "10 \<in> set bs" by (simp only: word_unat_eq_iff [symmetric])
qed (auto simp: of_bytes_def char_codes intro: image_eqI [of _ _ 10])

lemma request_path_line:
  assumes "10 \<notin> set line" "\<forall>b \<in> set (line @ t). b < 0x80"
  shows "request_path (line @ 10 # t) = line_path (strip_cr (of_bytes line))"
proof -
  have "utf8_valid (line @ 10 # t)" using assms(2) by (intro utf8_valid_ascii) auto
  moreover have "of_bytes (line @ 10 # t) = of_bytes line @ CHR 0x0A # of_bytes t"
    by (simp add: of_bytes_simps char_codes)
  moreover have "text_lines (of_bytes line @ CHR 0x0A # of_bytes t) =
      strip_cr (of_bytes line) # text_lines (of_bytes t)"
    using assms(1) by (simp add: text_lines_def split_on_line newline_in_of_bytes Let_def)
  ultimately show ?thesis by (simp add: request_path_def)
qed

lemma space_starts: "\<exists>w \<in> set white_space. starts_with (CHR '' '' # r) w"
  by (intro bexI [of _ "bytes [32]"]) (simp_all add: white_space_def bytes_def starts_with_Cons char_codes)

lemma visible_starts: "visible c \<Longrightarrow> w \<in> set white_space \<Longrightarrow> \<not> starts_with (c # s) w"
  by (cases w) (auto simp: visible_def starts_with_Cons white_space_def bytes_def)

lemma word_of_text_visible: "list_all visible s \<Longrightarrow> word_of_text (s @ CHR '' '' # r) = s"
  using space_starts by (induction s) (auto simp: visible_starts)

lemma next_word_visible:
  assumes "list_all visible s" "s \<noteq> []"
  shows "next_word (s @ CHR '' '' # r) = Some (s, CHR '' '' # r)"
    and "next_word (CHR '' '' # s @ CHR '' '' # r) = Some (s, CHR '' '' # r)"
proof -
  obtain c cs where s: "s = c # cs" using assms(2) by (cases s) auto
  with assms(1) have c: "\<forall>w \<in> set white_space. c \<notin> set w" by (simp add: visible_def)
  then have 1: "trim_start (s @ CHR '' '' # r) = s @ CHR '' '' # r"
    unfolding trim_start_def s append_Cons by (rule trim_front_id)
  have "find (\<lambda>w. w \<noteq> [] \<and> starts_with (CHR '' '' # x) w) white_space = Some (bytes [32])" for x
    by (simp add: white_space_def bytes_def starts_with_Cons char_codes)
  then have 2: "trim_start (CHR '' '' # s @ CHR '' '' # r) = s @ CHR '' '' # r"
    using 1 by (simp add: trim_start_def bytes_def)
  show "next_word (s @ CHR '' '' # r) = Some (s, CHR '' '' # r)"
    and "next_word (CHR '' '' # s @ CHR '' '' # r) = Some (s, CHR '' '' # r)"
    unfolding next_word_def 1 2 Let_def using assms by (simp_all add: word_of_text_visible)
qed

lemma get_path:
  assumes "list_all visible path" "path \<noteq> []"
  shows "line_path (strip_cr (''GET '' @ path @ '' HTTP/1.1'' @ bytes [13])) = Some (hd (split_on CHR ''?'' path))"
proof -
  have "strip_cr (''GET '' @ path @ '' HTTP/1.1'' @ bytes [13]) = ''GET'' @ CHR '' '' # path @ CHR '' '' # ''HTTP/1.1''"
    by (simp add: strip_cr_def bytes_def butlast_append char_codes)
  moreover have "list_all visible ''GET''" by (simp add: visible_ascii)
  ultimately show ?thesis
    using next_word_visible [OF assms] next_word_visible(1) [of "''GET''"]
    by (simp only: line_path_def) simp
qed

section \<open>Properties\<close>

definition request_text :: "string \<Rightarrow> string \<Rightarrow> u8 list" where
  "request_text path headers = as_bytes (''GET '' @ path @ '' HTTP/1.1'' @ bytes [13, 10] @ headers)"



text \<open>
  The text is checked as a whole: a read that ends inside a character of a later header makes the
  request an unknown path, and a probe that asks for health is told it was not found.
\<close>

lemma cut_character_not_found:
  "request_path (as_bytes (''GET /healthz HTTP/1.1'' @ bytes [13, 10] @ ''X-Name: '') @ [0xC3]) = None"
  by code_simp

end
