(* ===== verification/Vartio_Native.thy ===== *)
theory Vartio_Native
  imports Ipc_Frame Retry Normalize Event_Store
begin

text \<open>
  The native payload of the Vartio sink (\<open>jalki-vartio-sink/src/native.rs\<close>): a Plane-B occurrence
  as the flat map of values the importer reads.

  The object is a map from keys to JSON values.  The texts of times and the bits of a number are
  parameters, as is the parser of a JSON array of strings.
\<close>

section \<open>The map\<close>

type_synonym native_map = "string \<rightharpoonup> json"

record native_env =
  ne_rfc3339 :: "int \<Rightarrow> string"
  ne_float_bits :: "real \<Rightarrow> u64"
  ne_parse_strings :: "string \<Rightarrow> string list option"

definition label_keys :: "(string \<times> string) list" where
  "label_keys =
     [(''node_id'', ''node_id''), (''k8s_pod_uid'', ''pod_uid''), (''k8s_pod_name'', ''pod_name''),
      (''k8s_container_id'', ''container_id''), (''k8s_namespace'', ''k8s_namespace''),
      (''k8s_service_account'', ''service_account''), (''k8s_owner_kind'', ''owner_kind''),
      (''k8s_owner_name'', ''owner_name''), (''k8s_owner_uid'', ''owner_uid''),
      (''cgroup_id'', ''cgroup_id''), (''argv_hash'', ''argv_hash''), (''tcp_state'', ''tcp_state''),
      (''cluster_id'', ''cluster_id''), (''kernel_release'', ''kernel_release''),
      (''runtime_subject_id'', ''runtime_subject_id''), (''node_identity'', ''node_identity''),
      (''boot_id'', ''boot_id''), (''runtime_identity_method'', ''runtime_identity_method''),
      (''evidence_level'', ''evidence_level''), (''cause'', ''cause'')]"

definition runtime_u64_keys :: "string list" where
  "runtime_u64_keys =
     [''host_tgid'', ''host_tid'', ''leader_start_boottime_ns'', ''runtime_canonicalization_version'']"

definition gap_u64_keys :: "string list" where
  "gap_u64_keys =
     [''dropped_records'', ''dropped_reliability'', ''dropped_attribution'', ''gap_start_ns'', ''gap_end_ns'']"

definition file_keys :: "string list" where
  "file_keys = [''requested_path'', ''path_resolution'', ''coverage'', ''flags'']"

text \<open>\<open>if let Some(v) = ... { item.insert(key, v) }\<close>.\<close>

definition insert_some :: "string \<Rightarrow> json option \<Rightarrow> native_map \<Rightarrow> native_map" where
  "insert_some key v m = (case v of None \<Rightarrow> m | Some x \<Rightarrow> m(key \<mapsto> x))"

definition u64_label :: "occurrence \<Rightarrow> string \<Rightarrow> json option" where
  "u64_label occ key = map_option (J_Int \<circ> int) (Option.bind (label occ key) (parse_uint u64_max))"

definition text_label :: "occurrence \<Rightarrow> string \<Rightarrow> json option" where
  "text_label occ key = map_option J_Str (label occ key)"

text \<open>\<open>str::parse\<close> for \<open>i64\<close>.\<close>

definition parse_i64 :: "string \<Rightarrow> int option" where
  "parse_i64 s =
     (if starts_with s ''-'' then
        (let d = tl s in
         if d = [] \<or> hd d = CHR ''+'' then None else map_option (\<lambda>n. - int n) (parse_uint (2 ^ 63) d))
      else map_option int (parse_uint (2 ^ 63 - 1) s))"

definition errno_value :: "occurrence \<Rightarrow> json option" where
  "errno_value occ =
     (case Option.bind (label occ ''errno_num'') parse_i64 of
        None \<Rightarrow> None
      | Some ret \<Rightarrow> if ret < 0 then Some (J_Int (- ret)) else None)"

definition resource_of :: "string \<Rightarrow> occurrence \<Rightarrow> json option" where
  "resource_of kind occ =
     (if label occ ''resource_ref_kind'' = Some kind then text_label occ ''resource_ref_id'' else None)"

fun outcome_text :: "outcome \<Rightarrow> string" where
  "outcome_text Success = ''success''"
| "outcome_text Failure = ''failure''"
| "outcome_text Timeout = ''timeout''"
| "outcome_text InProgress = ''in_progress''"
| "outcome_text Unknown = ''unknown''"

text \<open>The blocks of \<open>native_runtime_item\<close>, in its order.\<close>

definition identity_block :: "native_env \<Rightarrow> occurrence \<Rightarrow> native_map \<Rightarrow> native_map" where
  "identity_block ne occ m =
     (let ts = J_Str (ne_rfc3339 ne (occ_timestamp occ)) in
      m(''occurrence_type'' \<mapsto> J_Str (occurrence_type occ), ''event_id'' \<mapsto> J_Str (ulid_string (occ_id occ)),
        ''observed_at'' \<mapsto> ts, ''agent_recv_time'' \<mapsto> ts))"

definition label_block :: "native_env \<Rightarrow> occurrence \<Rightarrow> native_map \<Rightarrow> native_map" where
  "label_block ne occ m =
     (let m = insert_some ''kernel_time_ns'' (u64_label occ ''observed_at_ns'') m;
          m = fold (\<lambda>(l, key). insert_some key (text_label occ l)) label_keys m;
          m = fold (\<lambda>key. insert_some key (u64_label occ key)) gap_u64_keys m;
          m = fold (\<lambda>key. insert_some key (u64_label occ key)) runtime_u64_keys m;
          m = insert_some ''affected_probes''
                (map_option (J_Arr \<circ> map J_Str) (Option.bind (label occ ''affected_probes'') (ne_parse_strings ne))) m;
          m = insert_some ''gid'' (u64_label occ ''gid'') m
      in insert_some ''exe'' (resource_of ''executable'' occ) m)"

definition file_block :: "occurrence \<Rightarrow> native_map \<Rightarrow> native_map" where
  "file_block occ m =
     (let m = insert_some ''path'' (resource_of ''file'' occ) m;
          m = fold (\<lambda>key. insert_some key (text_label occ key)) file_keys m;
          m = insert_some ''path_truncated''
                (if label occ ''path_truncated'' = Some ''true'' then Some (J_Bool True) else None) m
      in insert_some ''errno'' (errno_value occ) m)"

definition native_process :: "process_event_data \<Rightarrow> native_map \<Rightarrow> native_map" where
  "native_process p m =
     (let m = m(''pid'' \<mapsto> J_Int (uint (pd_pid p)));
          m = insert_some ''ppid'' (map_option (J_Int \<circ> uint) (pd_ppid p)) m;
          m = m(''comm'' \<mapsto> J_Str (pd_command p))
      in insert_some ''uid'' (map_option (J_Int \<circ> uint) (pd_uid p)) m)"

definition native_network :: "native_env \<Rightarrow> network_event_data \<Rightarrow> native_map \<Rightarrow> native_map" where
  "native_network ne n m =
     (let m = m(''protocol'' \<mapsto> J_Str (nd_protocol n), ''source_ip'' \<mapsto> J_Str (nd_src_ip n),
                ''source_port'' \<mapsto> J_Int (uint (nd_src_port n)),
                ''destination_ip'' \<mapsto> J_Str (nd_dst_ip n),
                ''destination_port'' \<mapsto> J_Int (uint (nd_dst_port n)));
          m = insert_some ''count'' (map_option (J_Int \<circ> uint) (nd_retransmit_count n)) m
      in insert_some ''rtt_ms'' (map_option (J_Float \<circ> ne_float_bits ne) (nd_rtt_current_ms n)) m)"

definition native_runtime_item :: "native_env \<Rightarrow> occurrence \<Rightarrow> native_map" where
  "native_runtime_item ne occ =
     (let m = identity_block ne occ Map.empty;
          m = label_block ne occ m;
          m = file_block occ m;
          m = (case process_data occ of None \<Rightarrow> m | Some p \<Rightarrow> native_process p m);
          m = (case network_data occ of None \<Rightarrow> m | Some n \<Rightarrow> native_network ne n m)
      in insert_some ''state'' (map_option (J_Str \<circ> outcome_text) (occ_outcome occ)) m)"

section \<open>Looking up a key\<close>

lemma insert_some_this: "insert_some key v m key = (if v \<noteq> None then v else m key)"
  by (simp add: insert_some_def split: option.split)

lemma insert_some_other: "k \<noteq> key \<Longrightarrow> insert_some key v m k = m k"
  by (simp add: insert_some_def split: option.split)

lemmas insert_some_apply = insert_some_this insert_some_other

lemma fold_insert_other:
  "k \<notin> f ` set xs \<Longrightarrow> fold (\<lambda>x. insert_some (f x) (g x)) xs m k = m k"
  by (induction xs arbitrary: m) (auto simp: insert_some_apply)

lemma fold_insert_this:
  "distinct (map f xs) \<Longrightarrow> x \<in> set xs \<Longrightarrow> m (f x) = None \<Longrightarrow>
   fold (\<lambda>x. insert_some (f x) (g x)) xs m (f x) = g x"
proof (induction xs arbitrary: m)
  case (Cons y ys)
  then show ?case
    by (cases "x = y") (auto simp: fold_insert_other insert_some_apply image_iff)
qed simp

text \<open>The keys of each group, and the groups that leave a key alone.\<close>

lemma process_other:
  "k \<notin> {''pid'', ''ppid'', ''comm'', ''uid''} \<Longrightarrow>
   (case process_data occ of None \<Rightarrow> m | Some p \<Rightarrow> native_process p m) k = m k"
  by (simp add: native_process_def insert_some_apply split: option.split)

lemma network_other:
  "k \<notin> {''protocol'', ''source_ip'', ''source_port'', ''destination_ip'', ''destination_port'', ''count'', ''rtt_ms''} \<Longrightarrow>
   (case network_data occ of None \<Rightarrow> m | Some n \<Rightarrow> native_network ne n m) k = m k"
  by (simp add: native_network_def insert_some_apply split: option.split)

lemma folds_other:
  "k \<notin> snd ` set label_keys \<Longrightarrow> fold (\<lambda>(l, key). insert_some key (text_label occ l)) label_keys m k = m k"
  "k \<notin> set gap_u64_keys \<Longrightarrow> fold (\<lambda>key. insert_some key (u64_label occ key)) gap_u64_keys m k = m k"
  "k \<notin> set runtime_u64_keys \<Longrightarrow> fold (\<lambda>key. insert_some key (u64_label occ key)) runtime_u64_keys m k = m k"
  "k \<notin> set file_keys \<Longrightarrow> fold (\<lambda>key. insert_some key (text_label occ key)) file_keys m k = m k"
  using fold_insert_other [of k snd label_keys "\<lambda>x. text_label occ (fst x)" m]
    fold_insert_other [of k id gap_u64_keys "u64_label occ" m]
    fold_insert_other [of k id runtime_u64_keys "u64_label occ" m]
    fold_insert_other [of k id file_keys "text_label occ" m]
  by (simp_all add: case_prod_beta')

lemma folds_this:
  "(l, key) \<in> set label_keys \<Longrightarrow> m key = None \<Longrightarrow>
   fold (\<lambda>(l, key). insert_some key (text_label occ l)) label_keys m key = text_label occ l"
  "k \<in> set gap_u64_keys \<Longrightarrow> m k = None \<Longrightarrow>
   fold (\<lambda>key. insert_some key (u64_label occ key)) gap_u64_keys m k = u64_label occ k"
  "k \<in> set file_keys \<Longrightarrow> m k = None \<Longrightarrow>
   fold (\<lambda>key. insert_some key (text_label occ key)) file_keys m k = text_label occ k"
proof -
  have d: "distinct (map snd label_keys)" "distinct gap_u64_keys" "distinct file_keys"
    by (simp_all add: label_keys_def gap_u64_keys_def file_keys_def)
  show "(l, key) \<in> set label_keys \<Longrightarrow> m key = None \<Longrightarrow>
      fold (\<lambda>(l, key). insert_some key (text_label occ l)) label_keys m key = text_label occ l"
    using fold_insert_this [OF d(1), of "(l, key)" m "\<lambda>x. text_label occ (fst x)"]
    by (simp add: case_prod_beta')
  show "k \<in> set gap_u64_keys \<Longrightarrow> m k = None \<Longrightarrow>
      fold (\<lambda>key. insert_some key (u64_label occ key)) gap_u64_keys m k = u64_label occ k"
    using fold_insert_this [of id gap_u64_keys k m "u64_label occ"] d(2) by simp
  show "k \<in> set file_keys \<Longrightarrow> m k = None \<Longrightarrow>
      fold (\<lambda>key. insert_some key (text_label occ key)) file_keys m k = text_label occ k"
    using fold_insert_this [of id file_keys k m "text_label occ"] d(3) by simp
qed

lemma key_sets:
  "snd ` set label_keys = {''node_id'', ''pod_uid'', ''pod_name'', ''container_id'', ''k8s_namespace'',
     ''service_account'', ''owner_kind'', ''owner_name'', ''owner_uid'', ''cgroup_id'', ''argv_hash'',
     ''tcp_state'', ''cluster_id'', ''kernel_release'', ''runtime_subject_id'', ''node_identity'',
     ''boot_id'', ''runtime_identity_method'', ''evidence_level'', ''cause''}"
  "set gap_u64_keys = {''dropped_records'', ''dropped_reliability'', ''dropped_attribution'', ''gap_start_ns'', ''gap_end_ns''}"
  "set runtime_u64_keys = {''host_tgid'', ''host_tid'', ''leader_start_boottime_ns'', ''runtime_canonicalization_version''}"
  "set file_keys = {''requested_path'', ''path_resolution'', ''coverage'', ''flags''}"
  by (simp_all add: label_keys_def gap_u64_keys_def runtime_u64_keys_def file_keys_def)

lemmas native_defs = native_runtime_item_def identity_block_def label_block_def file_block_def
  insert_some_apply Let_def

lemmas native_others = process_other network_other folds_other key_sets

lemma none_or_itself: "(if v \<noteq> None then v else None) = v"
  by auto

lemma native_lookup:
  "native_runtime_item ne occ ''path'' = resource_of ''file'' occ"
  "native_runtime_item ne occ ''exe'' = resource_of ''executable'' occ"
  "native_runtime_item ne occ ''errno'' = errno_value occ"
  "native_runtime_item ne occ ''kernel_time_ns'' = u64_label occ ''observed_at_ns''"
  "native_runtime_item ne occ ''occurrence_type'' = Some (J_Str (occurrence_type occ))"
  "native_runtime_item ne occ ''affected_probes'' =
     map_option (J_Arr \<circ> map J_Str) (Option.bind (label occ ''affected_probes'') (ne_parse_strings ne))"
  by (simp_all add: native_defs native_others none_or_itself del: not_None_eq)

lemma native_requested: "native_runtime_item ne occ ''requested_path'' = text_label occ ''requested_path''"
  by (simp add: native_defs native_others folds_this)

lemma native_label:
  assumes "(l, key) \<in> set label_keys"
  shows "native_runtime_item ne occ key = text_label occ l"
proof -
  have "key \<in> snd ` set label_keys" using assms by (rule image_eqI [rotated]) simp
  then show ?thesis
    using folds_this(1) [OF assms]
    unfolding key_sets by (elim insertE emptyE) (simp_all add: native_defs process_other network_other folds_other key_sets(2-))
qed

lemma native_gap:
  assumes "k \<in> set gap_u64_keys"
  shows "native_runtime_item ne occ k = u64_label occ k"
  using assms folds_this(2) [OF assms]
  unfolding key_sets by (elim insertE emptyE) (simp_all add: native_defs native_others)

section \<open>Numbers in labels\<close>

lemma digit_not_minus: "d < 10 \<Longrightarrow> digit d \<noteq> CHR ''-''"
proof
  assume "d < 10" and "digit d = CHR ''-''"
  then have "digit_value (CHR ''-'') = Some d" by (metis digit_value_digit)
  then show False by (simp add: digit_value_def)
qed

lemma parse_i64_show: "parse_i64 (show_i32 w) = Some (sint w)"
proof -
  have b: "- (2 ^ 31) \<le> sint w" "sint w < 2 ^ 31"
    using sint_greater_eq [of w] sint_less [of w] by simp_all
  obtain d c cs where d: "d < 10" "decimal (nat \<bar>sint w\<bar>) = c # cs" "c = digit d"
    using hd_decimal [of "nat \<bar>sint w\<bar>"] by (metis decimal_not_Nil list.exhaust list.sel(1))
  have neg: "parse_uint (2 ^ 63) (decimal (nat \<bar>sint w\<bar>)) = Some (nat \<bar>sint w\<bar>)"
    using b by (intro parse_uint_decimal) simp
  have pos: "parse_uint (2 ^ 63 - 1) (decimal (nat \<bar>sint w\<bar>)) = Some (nat \<bar>sint w\<bar>)"
    using b by (intro parse_uint_decimal) simp
  have plus: "c \<noteq> CHR ''+''" using d(1,3) by simp
  have minus: "c \<noteq> CHR ''-''" using d(1,3) digit_not_minus by simp
  show ?thesis
  proof (cases "sint w < 0")
    case True
    with neg plus d(2) show ?thesis by (simp add: parse_i64_def show_i32_def decimal_int_def starts_with_Cons)
  next
    case False
    have "parse_i64 (c # cs) = map_option int (parse_uint (2 ^ 63 - 1) (c # cs))"
      using minus by (simp add: parse_i64_def starts_with_Cons)
    with False pos d(2) show ?thesis by (simp add: show_i32_def decimal_int_def)
  qed
qed

lemma u64_label_decimal:
  "label occ k = Some (decimal n) \<Longrightarrow> n \<le> u64_max \<Longrightarrow> u64_label occ k = Some (J_Int (int n))"
  by (simp add: u64_label_def parse_uint_decimal)

lemma u64_label_word: "label occ k = Some (decimal (unat (w :: u64))) \<Longrightarrow> u64_label occ k = Some (J_Int (uint w))"
  using u64_label_decimal [of occ k "unat w"] unsigned_less [where 'a = nat, of w]
  by (simp add: u64_max_def)

section \<open>The projection of a normalised event\<close>

definition projected ::
  "(u8 list \<Rightarrow> u8 list) \<Rightarrow> producer_metadata \<Rightarrow> evidence_record \<Rightarrow> occurrence" where
  "projected sha256 producer r = neutralize_for_plane_b (into_occurrence_with_metadata sha256 producer r)"

definition added_keys :: "string set" where
  "added_keys = binding_keys \<union>
     {''runtime_subject_id'', ''node_identity'', ''boot_id'', ''runtime_canonicalization_version'',
      ''producer'', ''producer_version'', ''cluster_id'', ''node_id'', ''kernel_release'', ''probe_id'',
      ''probe_version'', ''probe_family'', ''hook_kind'', ''kernel_function'', ''observed_at_ns'',
      ''schema_version''}"

lemma label_with_metadata:
  "label (into_occurrence_with_metadata sha256 producer r) k =
     (case map_of (metadata_labels producer r) k of
        Some v \<Rightarrow> Some v
      | None \<Rightarrow> label (apply_runtime_subject sha256 producer (apply_runtime_binding (er_binding r) (er_occurrence r))) k)"
proof -
  have d: "distinct (map fst (metadata_labels producer r))" by (simp add: metadata_labels_def)
  then have "map_of (rev (metadata_labels producer r)) = map_of (metadata_labels producer r)"
    by (intro ext) (metis distinct_rev map_of_eq_Some_iff not_Some_eq rev_map set_rev)
  then show ?thesis
    by (simp add: into_occurrence_with_metadata_def Let_def label_insert_labels overlay_map_add map_add_def)
qed

lemma label_kept:
  assumes "k \<notin> added_keys"
  shows "label (into_occurrence_with_metadata sha256 producer r) k = label (er_occurrence r) k"
proof -
  have "k \<notin> fst ` set (metadata_labels producer r)" "k \<notin> binding_keys"
    using assms by (auto simp: added_keys_def metadata_labels_def)
  moreover have "k \<notin> fst ` set (subject_labels s)" for s
    using assms by (auto simp: added_keys_def subject_labels_def split: option.splits)
  ultimately show ?thesis
    by (simp add: label_with_metadata label_apply_runtime_subject overlay_other binding_keeps
        map_of_eq_None_iff [THEN iffD2])
qed

lemma label_neutralize:
  "label (neutralize_for_plane_b occ) k =
     (case network_data occ of
        None \<Rightarrow> label occ k
      | Some n \<Rightarrow>
          if k = ''resource_ref_id'' then Some (network_ref n)
          else if k = ''resource_ref_kind'' then Some ''network_endpoint''
          else label occ k)"
  by (auto simp: neutralize_for_plane_b_def Let_def split: option.split) (simp_all add: label_def)

lemma network_data_metadata:
  "network_data (into_occurrence_with_metadata sha256 producer r) = network_data (er_occurrence r)"
  using same_identity_metadata [of sha256 producer r] by (simp add: same_identity_def)

lemma network_data_event:
  "network_data (to_occurrence i now c (ProcessExec p)) = None"
  "network_data (to_occurrence i now c (FileOpen f)) = None"
  "network_data (to_occurrence i now c (FileOpenAttempt f)) = None"
  "\<exists>n. network_data (to_occurrence i now c (TcpConnect t)) = Some n"
  "\<exists>n. network_data (to_occurrence i now c (TcpClose l)) = Some n"
  "\<exists>n. network_data (to_occurrence i now c (TcpRetransmit x)) = Some n"
  by (simp_all add: to_occurrence.simps projection_defs Let_def builder_defs)

lemma projected_label:
  assumes "k \<notin> added_keys" "k \<notin> {''resource_ref_id'', ''resource_ref_kind''}" "r \<in> set (normalize ident now probe cluster e)"
  shows "label (projected sha256 producer (r\<lparr>er_binding := b\<rparr>)) k = overlay (event_labels e) Map.empty k"
  using assms
  by (simp add: projected_def label_neutralize label_kept normalize_def label_to_occurrence split: option.split)

lemma projected_resource:
  assumes "r \<in> set (normalize ident now probe cluster e)" "kind \<in> {''file'', ''executable''}"
  shows "resource_of kind (projected sha256 producer (r\<lparr>er_binding := b\<rparr>)) =
    (case e of
       FileOpen f \<Rightarrow> if kind = ''file'' then Some (J_Str (fo_path f)) else None
     | ProcessExec p \<Rightarrow> if kind = ''executable'' then Some (J_Str (pe_filename p)) else None
     | _ \<Rightarrow> None)"
proof -
  have keys: "''resource_ref_id'' \<notin> added_keys" "''resource_ref_kind'' \<notin> added_keys"
    by (simp_all add: added_keys_def binding_keys_def)
  show ?thesis
    using assms network_data_event(4-6) [of ident now cluster]
    by (cases e)
      (auto simp: resource_of_def text_label_def projected_def label_neutralize label_kept [OF keys(1)]
        label_kept [OF keys(2)] network_data_metadata network_data_event(1-3) normalize_def
        label_to_occurrence file_open_labels_def process_exec_labels_def open_attempt_labels_def
        truncated_label_def split: option.split)
qed

section \<open>Properties\<close>

text \<open>
  C25: Loss arrives as numbers: the evidence of a gap report goes through the Plane-B projection as
  one occurrence, and the native map of it carries the cause, the three counts, the window and the
  affected probes as the importer reads them, with the identity of the producer and the end of the
  window as its kernel time.
\<close>

theorem gap_report_arrives:
  assumes "dropped_records g \<le> u64_max" "dropped_reliability g \<le> u64_max" "dropped_attribution g \<le> u64_max"
    and "ne_parse_strings ne (js (affected_probes g)) = Some (affected_probes g)"
  shows "\<exists>occ. into_plane_b_occurrences sha256 (gap_into_batch js i now ident producer g) = [occ] \<and>
    native_runtime_item ne occ ''occurrence_type'' = Some (J_Str ''jalki.agent.gap'') \<and>
    native_runtime_item ne occ ''cause'' = Some (J_Str (cause g)) \<and>
    native_runtime_item ne occ ''dropped_records'' = Some (J_Int (int (dropped_records g))) \<and>
    native_runtime_item ne occ ''dropped_reliability'' = Some (J_Int (int (dropped_reliability g))) \<and>
    native_runtime_item ne occ ''dropped_attribution'' = Some (J_Int (int (dropped_attribution g))) \<and>
    native_runtime_item ne occ ''gap_start_ns'' = Some (J_Int (uint (gap_start_ns g))) \<and>
    native_runtime_item ne occ ''gap_end_ns'' = Some (J_Int (uint (gap_end_ns g))) \<and>
    native_runtime_item ne occ ''affected_probes'' = Some (J_Arr (map J_Str (affected_probes g))) \<and>
    native_runtime_item ne occ ''cluster_id'' = Some (J_Str (pm_cluster producer)) \<and>
    native_runtime_item ne occ ''node_id'' = Some (J_Str (pm_node_id producer)) \<and>
    native_runtime_item ne occ ''kernel_time_ns'' = Some (J_Int (uint (gap_end_ns g)))"
proof -
  obtain r occ where g: "into_plane_b_occurrences sha256 (gap_into_batch js i now ident producer g) = [occ]"
    "occurrence_type occ = ''jalki.agent.gap''" "observed_at_ns r = gap_end_ns g"
    and lab: "label occ = overlay (metadata_labels producer r) (overlay (gap_labels js g) Map.empty)"
    by (rule gap_batch_projection)
  have own: "label occ k = overlay (gap_labels js g) Map.empty k" if "k \<in> fst ` set (gap_labels js g)" for k
    unfolding lab using that by (intro overlay_other) (auto simp: gap_labels_def metadata_labels_def)
  have l: "label occ ''cause'' = Some (cause g)" "label occ ''affected_probes'' = Some (js (affected_probes g))"
    "label occ ''dropped_records'' = Some (decimal (dropped_records g))"
    "label occ ''dropped_reliability'' = Some (decimal (dropped_reliability g))"
    "label occ ''dropped_attribution'' = Some (decimal (dropped_attribution g))"
    "label occ ''gap_start_ns'' = Some (decimal (unat (gap_start_ns g)))"
    "label occ ''gap_end_ns'' = Some (decimal (unat (gap_end_ns g)))"
    by (subst own, simp add: gap_labels_def, simp add: gap_labels_def)+
  have m: "label occ ''cluster_id'' = Some (pm_cluster producer)" "label occ ''node_id'' = Some (pm_node_id producer)"
    "label occ ''observed_at_ns'' = Some (decimal (unat (gap_end_ns g)))"
    by (simp_all add: lab metadata_labels_def g(3))
  have gap_key: "native_runtime_item ne occ k = u64_label occ k"
    if "k \<in> {''dropped_records'', ''dropped_reliability'', ''dropped_attribution'', ''gap_start_ns'', ''gap_end_ns''}" for k
    using native_gap [of k] that unfolding key_sets .
  have text_key: "native_runtime_item ne occ k = text_label occ k" if "k \<in> {''cause'', ''cluster_id'', ''node_id''}" for k
    using that by (intro native_label) (auto simp: label_keys_def)
  show ?thesis
    using g(1,2) assms l m
    by (intro exI [of _ occ])
      (simp add: gap_key text_key native_lookup u64_label_decimal u64_label_word text_label_def)
qed

theorem gap_report_arrives_witness:
  "\<exists>occ. native_runtime_item \<lparr>ne_rfc3339 = (\<lambda>_. []), ne_float_bits = (\<lambda>_. 0), ne_parse_strings = (\<lambda>s. Some [s])\<rparr> occ
      ''dropped_records'' = Some (J_Int 7) \<and> occurrence_type occ = ''jalki.agent.gap''"
proof -
  let ?ne = "\<lparr>ne_rfc3339 = (\<lambda>_. []), ne_float_bits = (\<lambda>_. 0), ne_parse_strings = (\<lambda>s. Some [s])\<rparr>"
  let ?g = "\<lparr>cause = ''sink_rejected'', affected_probes = [''kernel.tcp.connect''], dropped_records = 7,
     gap_start_ns = 10, gap_end_ns = 20, dropped_reliability = 0, dropped_attribution = 7\<rparr>"
  have "\<exists>occ. into_plane_b_occurrences (\<lambda>b. b) (gap_into_batch concat 0 0 [] (new_producer ''0.3'' ''kube'' ''node'' ''6.1'') ?g) = [occ] \<and>
     native_runtime_item ?ne occ ''occurrence_type'' = Some (J_Str ''jalki.agent.gap'') \<and>
     native_runtime_item ?ne occ ''dropped_records'' = Some (J_Int 7)"
    using gap_report_arrives [of ?g ?ne concat "\<lambda>b. b" 0 0 "[]" "new_producer ''0.3'' ''kube'' ''node'' ''6.1''"]
    by (simp add: u64_max_def) blast
  then show ?thesis by (auto simp: native_lookup)
qed

text \<open>The number of an error, as the sink sends it.\<close>

definition sent_errno :: "kernel_event \<Rightarrow> json option" where
  "sent_errno e =
     (let num = (\<lambda>w :: u32. if sint w < 0 then Some (J_Int (- sint w)) else None) in
      case e of
        FileOpen f \<Rightarrow> if fo_succeeded f then None else num (fo_ret f)
      | FileOpenAttempt f \<Rightarrow> num (fo_ret f)
      | TcpConnect t \<Rightarrow> if tc_succeeded t then None else num (tc_ret t)
      | _ \<Rightarrow> None)"

text \<open>
  C38: The native map claims of an event what the kernel resolved and nothing more: the path only of
  an open that the kernel granted or denied, the requested path only of a failed attempt, the
  executable only of an execution, and an error number only where there is one, as a positive number.
\<close>

theorem native_event_exact:
  assumes "r \<in> set (normalize ident now probe cluster e)"
    and "m = native_runtime_item ne (projected sha256 producer (r\<lparr>er_binding := b\<rparr>))"
  shows "m ''path'' = (case e of FileOpen f \<Rightarrow> Some (J_Str (fo_path f)) | _ \<Rightarrow> None) \<and>
    m ''requested_path'' = (case e of FileOpenAttempt f \<Rightarrow> Some (J_Str (fo_path f)) | _ \<Rightarrow> None) \<and>
    m ''exe'' = (case e of ProcessExec p \<Rightarrow> Some (J_Str (pe_filename p)) | _ \<Rightarrow> None) \<and>
    m ''errno'' = sent_errno e"
proof -
  let ?occ = "projected sha256 producer (r\<lparr>er_binding := b\<rparr>)"
  have keys: "k \<notin> added_keys" if "k \<in> {''requested_path'', ''errno_num''}" for k
    using that by (auto simp: added_keys_def binding_keys_def)
  have requested: "label ?occ ''requested_path'' = overlay (event_labels e) Map.empty ''requested_path''"
    and number: "label ?occ ''errno_num'' = overlay (event_labels e) Map.empty ''errno_num''"
    using keys assms(1) by (simp_all add: projected_label)
  have "m ''requested_path'' = (case e of FileOpenAttempt f \<Rightarrow> Some (J_Str (fo_path f)) | _ \<Rightarrow> None)"
    by (cases e) (simp_all add: assms(2) native_requested text_label_def requested file_open_labels_def
        process_exec_labels_def open_attempt_labels_def truncated_label_def)
  moreover have "m ''errno'' = sent_errno e"
    by (cases e) (simp_all add: assms(2) native_lookup errno_value_def number file_open_labels_def
        process_exec_labels_def open_attempt_labels_def truncated_label_def parse_i64_show sent_errno_def Let_def)
  moreover have "m ''path'' = (case e of FileOpen f \<Rightarrow> Some (J_Str (fo_path f)) | _ \<Rightarrow> None)"
    "m ''exe'' = (case e of ProcessExec p \<Rightarrow> Some (J_Str (pe_filename p)) | _ \<Rightarrow> None)"
    using projected_resource [OF assms(1)]
    by (simp_all add: assms(2) native_lookup split: kernel_event.split)
  ultimately show ?thesis by blast
qed

theorem native_event_exact_witness:
  "\<forall>f ne sha256 producer. native_runtime_item ne (projected sha256 producer
      ((hd (normalize 0 0 gap_probe ''kube'' (FileOpenAttempt f)))\<lparr>er_binding := None\<rparr>)) ''path'' = None"
proof (intro allI)
  fix f ne sha256 producer
  show "native_runtime_item ne (projected sha256 producer
      ((hd (normalize 0 0 gap_probe ''kube'' (FileOpenAttempt f)))\<lparr>er_binding := None\<rparr>)) ''path'' = None"
    using native_event_exact [OF _ refl, of "hd (normalize 0 0 gap_probe ''kube'' (FileOpenAttempt f))" 0 0 gap_probe
        "''kube''" "FileOpenAttempt f" ne sha256 producer None]
    by (simp add: normalize_def)
qed

end
