(* ===== verification/Vartio_Sink.thy ===== *)
theory Vartio_Sink
  imports Vartio_Native Sink_Loop "HOL-Library.List_Lexorder" "HOL-Library.Char_ord"
begin

text \<open>
  The Vartio sink (\<open>jalki-vartio-sink/src/lib.rs\<close>): what of a batch goes on the wire, under which
  keys, and what the answer of the receiver makes of the batch.

  The call to the receiver is a parameter, with the state of everything outside the sink; so are
  the JSON encoder, the parsers of an endpoint and of a header value, and the clock.
\<close>

section \<open>Configuration\<close>

definition sink_name :: string where "sink_name = ''vartio''"

definition vartio_supported_types :: "string list" where
  "vartio_supported_types =
     [''jalki.agent.gap'', ''kernel.process.exec'', ''kernel.tcp.connect'', ''kernel.tcp.close'',
      ''kernel.tcp.retransmit'', ''kernel.file.open'', ''kernel.file.open_attempt'']"

definition vartio_file_types :: "string list" where
  "vartio_file_types = [''kernel.file.open'', ''kernel.file.open_attempt'']"

record vartio_config =
  vc_endpoint :: string
  vc_source_key :: string
  vc_provider :: string
  vc_namespace :: string
  vc_adapter_id :: string
  vc_ingress_token :: "string option"
  vc_send_file_types :: bool
  vc_timeout_secs :: nat

definition new_vartio_config :: "string \<Rightarrow> string \<Rightarrow> vartio_config" where
  "new_vartio_config endpoint adapter =
     \<lparr>vc_endpoint = endpoint, vc_source_key = ''jalki'', vc_provider = ''jalki'',
      vc_namespace = ''vartio-jalki'', vc_adapter_id = adapter, vc_ingress_token = None,
      vc_send_file_types = False, vc_timeout_secs = 10\<rparr>"

definition with_ingress_token :: "string \<Rightarrow> vartio_config \<Rightarrow> vartio_config" where
  "with_ingress_token token cfg = cfg\<lparr>vc_ingress_token := (if token = [] then None else Some token)\<rparr>"

definition with_file_types :: "bool \<Rightarrow> vartio_config \<Rightarrow> vartio_config" where
  "with_file_types enabled cfg = cfg\<lparr>vc_send_file_types := enabled\<rparr>"

definition validate_config :: "vartio_config \<Rightarrow> sink_error + unit" where
  "validate_config cfg =
     (case find (\<lambda>(field, v). v = []) [(''endpoint'', vc_endpoint cfg), (''adapter_id'', vc_adapter_id cfg)] of
        Some (field, v) \<Rightarrow> Inl (SMisconfigured sink_name (field @ '' must not be empty''))
      | None \<Rightarrow> Inr ())"

text \<open>\<open>connect\<close> never dials: the two parsers give an error text or succeed.\<close>

definition connect_vartio ::
  "(string \<Rightarrow> string option) \<Rightarrow> (string \<Rightarrow> string option) \<Rightarrow> vartio_config \<Rightarrow>
   sink_error + (vartio_config \<times> health_status)" where
  "connect_vartio endpoint_error tls_error cfg =
     (case validate_config cfg of
        Inl e \<Rightarrow> Inl e
      | Inr _ \<Rightarrow>
          (case endpoint_error (vc_endpoint cfg) of
             Some e \<Rightarrow> Inl (SMisconfigured sink_name (''invalid endpoint '' @ vc_endpoint cfg @ '': '' @ e))
           | None \<Rightarrow>
               (case if starts_with (vc_endpoint cfg) ''https://'' then tls_error (vc_endpoint cfg) else None of
                  Some e \<Rightarrow> Inl (SMisconfigured sink_name (''TLS config for '' @ vc_endpoint cfg @ '': '' @ e))
                | None \<Rightarrow> Inr (cfg, Degraded ''sink not yet exercised: no batch delivered''))))"

section \<open>The wire\<close>

record provider_item =
  pi_idempotency_key :: string
  pi_occurrence_type :: string
  pi_observed_at :: "int \<times> int"
  pi_payload :: "u8 list"
  pi_metadata :: "u8 list"
  pi_trust_context :: "u8 list"

record provider_batch =
  pb_source_key :: string
  pb_provider :: string
  pb_namespace :: string
  pb_batch_id :: string
  pb_adapter_id :: string
  pb_cluster_id :: string
  pb_node_id :: string
  pb_ingested_at :: "int \<times> int"
  pb_items :: "provider_item list"

record receive_response =
  rr_batch_id :: string
  rr_accepted :: u32
  rr_duplicate :: u32
  rr_rejected :: u32
  rr_summaries :: "(int \<times> u32) list"
  rr_retryable :: bool

datatype grpc_code =
  Code_Ok | Cancelled | Code_Unknown | Invalid_Argument | Deadline_Exceeded | Not_Found |
  Already_Exists | Permission_Denied | Resource_Exhausted | Failed_Precondition | Aborted |
  Out_Of_Range | Unimplemented | Internal | Code_Unavailable | Data_Loss | Unauthenticated

fun classify_status :: "grpc_code \<times> string \<Rightarrow> sink_error" where
  "classify_status (code, message) =
     (if code \<in> {Unauthenticated, Permission_Denied} then SUnauthorized sink_name message
      else if code \<in> {Invalid_Argument, Failed_Precondition} then SRejected sink_name message
      else if code = Resource_Exhausted then SBackpressure sink_name message
      else if code = Deadline_Exceeded then STimeout sink_name message
      else SUnavailable sink_name message)"

record 'w vartio_env =
  ve_config :: vartio_config
  ve_sha256 :: "u8 list \<Rightarrow> u8 list"
  ve_native :: native_env
  ve_to_vec :: "native_map \<Rightarrow> string + u8 list"
  ve_header_ok :: "string \<Rightarrow> bool"
  ve_now :: "'w \<Rightarrow> int \<times> int"
  ve_receive :: "string option \<Rightarrow> provider_batch \<Rightarrow> 'w \<Rightarrow> (grpc_code \<times> string + receive_response) \<times> 'w"

section \<open>Appending a batch\<close>

definition idempotency_key :: "vartio_config \<Rightarrow> string \<Rightarrow> string \<Rightarrow> string \<Rightarrow> string" where
  "idempotency_key cfg cluster node ident =
     vc_source_key cfg @ '':'' @ cluster @ '':'' @ node @ '':'' @ ident"

text \<open>What the importer accepts of the projected occurrences, and what is dropped for which reason.\<close>

definition unsupported :: "occurrence \<Rightarrow> bool" where
  "unsupported occ \<longleftrightarrow> occurrence_type occ \<notin> set vartio_supported_types"

definition gated_off :: "vartio_config \<Rightarrow> occurrence \<Rightarrow> bool" where
  "gated_off cfg occ \<longleftrightarrow>
     \<not> unsupported occ \<and> occurrence_type occ \<in> set vartio_file_types \<and> \<not> vc_send_file_types cfg"

definition deliverable :: "vartio_config \<Rightarrow> occurrence \<Rightarrow> bool" where
  "deliverable cfg occ \<longleftrightarrow> \<not> unsupported occ \<and> \<not> gated_off cfg occ"

text \<open>The ordered maps of counts: by type, and by reason.\<close>

definition type_counts :: "occurrence list \<Rightarrow> (string \<times> nat) list" where
  "type_counts occs =
     (let ts = map occurrence_type occs in map (\<lambda>t. (t, count_list ts t)) (sort (remdups ts)))"

definition reason_counts :: "(unbound_reason \<rightharpoonup> nat) \<Rightarrow> (unbound_reason \<times> nat) list" where
  "reason_counts m =
     map (\<lambda>r. (r, the (m r))) (filter (\<lambda>r. m r \<noteq> None) [HostProcess, CacheMiss, NoCgroup, UnknownReason])"

definition drop_warnings :: "vartio_config \<Rightarrow> plane_b_projection \<Rightarrow> string list" where
  "drop_warnings cfg pr =
     map (\<lambda>(r, n). ''dropped '' @ decimal n @ '' unbound record(s) at source: '' @ unbound_reason_str r)
       (reason_counts (dropped_unbound pr)) @
     map (\<lambda>(t, n). ''dropped '' @ decimal n @ '' record(s) of unsupported-by-importer type '' @ t)
       (type_counts (filter unsupported (occurrences pr))) @
     map (\<lambda>(t, n). ''dropped '' @ decimal n @ '' record(s) of type '' @ t @
            '': file family gated off '' @ bytes [0xE2, 0x80, 0x94] @
            '' set JALKI_VARTIO_FILE_TYPES=1 once Vartio'' @ bytes [39] @
            ''s Importer.Jalki accepts kernel.file.* (ADR-0005 '' @ bytes [0xC2, 0xA7] @ ''4)'')
       (type_counts (filter (gated_off cfg) (occurrences pr)))"

definition item_of ::
  "'w vartio_env \<Rightarrow> producer_metadata \<Rightarrow> occurrence \<Rightarrow> string + provider_item" where
  "item_of ve producer occ =
     (case ve_to_vec ve (native_runtime_item (ve_native ve) occ) of
        Inl e \<Rightarrow> Inl e
      | Inr payload \<Rightarrow>
          Inr \<lparr>pi_idempotency_key =
                 idempotency_key (ve_config ve) (pm_cluster producer) (pm_node_id producer) (ulid_string (occ_id occ)),
               pi_occurrence_type = occurrence_type occ,
               pi_observed_at = (occ_timestamp occ div 10 ^ 9, min (occ_timestamp occ mod 10 ^ 9) 999999999),
               pi_payload = payload, pi_metadata = [], pi_trust_context = []\<rparr>)"

fun items_of ::
  "'w vartio_env \<Rightarrow> producer_metadata \<Rightarrow> occurrence list \<Rightarrow> string + provider_item list" where
  "items_of ve producer [] = Inr []"
| "items_of ve producer (occ # occs) =
     (case item_of ve producer occ of
        Inl e \<Rightarrow> Inl e
      | Inr i \<Rightarrow> (case items_of ve producer occs of Inl e \<Rightarrow> Inl e | Inr is \<Rightarrow> Inr (i # is)))"

definition wire_batch ::
  "'w vartio_env \<Rightarrow> evidence_batch \<Rightarrow> int \<times> int \<Rightarrow> provider_item list \<Rightarrow> provider_batch" where
  "wire_batch ve b now items =
     (let cfg = ve_config ve in
      \<lparr>pb_source_key = vc_source_key cfg, pb_provider = vc_provider cfg, pb_namespace = vc_namespace cfg,
       pb_batch_id = batch_id b, pb_adapter_id = vc_adapter_id cfg,
       pb_cluster_id = pm_cluster (eb_producer b), pb_node_id = pm_node_id (eb_producer b),
       pb_ingested_at = now, pb_items = items\<rparr>)"

definition counts_text :: "receive_response \<Rightarrow> string" where
  "counts_text r =
     ''(accepted='' @ decimal (unat (rr_accepted r)) @ '' duplicate='' @ decimal (unat (rr_duplicate r))"

definition reject_message :: "receive_response \<Rightarrow> string" where
  "reject_message r =
     ''batch '' @ rr_batch_id r @ '' permanently rejected '' @ decimal (unat (rr_rejected r)) @ '' item(s) '' @
     counts_text r @ '')'' @
     concat (map (\<lambda>(reason, n). ''; reason='' @ decimal_int reason @ '' count='' @ decimal (unat n)) (rr_summaries r))"

text \<open>The receiver's answer, as the result and the health it leaves.\<close>

definition settle ::
  "string list \<Rightarrow> evidence_batch \<Rightarrow> grpc_code \<times> string + receive_response \<Rightarrow>
   (sink_error + append_result) \<times> health_status" where
  "settle ws b answer =
     (case answer of
        Inl st \<Rightarrow> (Inl (classify_status st), Degraded (''receive_batch: '' @ snd st))
      | Inr r \<Rightarrow>
          if rr_retryable r then
            (Inl (SUnavailable sink_name
               (''batch '' @ rr_batch_id r @ '' has retryable item failures '' @ counts_text r @
                '' rejected='' @ decimal (unat (rr_rejected r)) @ '')'')),
             Degraded (''batch '' @ rr_batch_id r @ '' retryable item failures''))
          else if 0 < rr_rejected r then
            (Inl (SPartialFailure sink_name (unat (rr_accepted r + rr_duplicate r)) (unat (rr_rejected r))
               (reject_message r)),
             Degraded (''batch '' @ rr_batch_id r @ '' permanent item rejects''))
          else
            (Inr \<lparr>accepted_count = unat (rr_accepted r + rr_duplicate r), rejected_count = unat (rr_rejected r),
                   ar_sink_name = sink_name, watermark = Some (batch_id b),
                   warnings = ws @ (if 0 < rr_duplicate r
                     then [decimal (unat (rr_duplicate r)) @ '' duplicate item(s) (idempotent no-op)''] else [])\<rparr>,
             Healthy))"

text \<open>The state: the health the sink keeps, and the world outside.\<close>

definition bearer_of :: "vartio_config \<Rightarrow> string option" where
  "bearer_of cfg = map_option (\<lambda>token. ''Bearer '' @ token) (vc_ingress_token cfg)"

definition vartio_append ::
  "'w vartio_env \<Rightarrow> evidence_batch \<Rightarrow> health_status \<times> 'w \<Rightarrow>
   (sink_error + append_result) \<times> health_status \<times> 'w" where
  "vartio_append ve b s =
     (case s of (health, w) \<Rightarrow>
      if pm_cluster (eb_producer b) = [] \<or> pm_node_id (eb_producer b) = [] then
        (Inl (SMisconfigured sink_name
           ''producer cluster/node identity is empty; refusing to emit unscoped idempotency keys''), s)
      else
        let pr = into_plane_b_projection (ve_sha256 ve) b;
            ws = drop_warnings (ve_config ve) pr;
            occs = filter (deliverable (ve_config ve)) (occurrences pr) in
        if occs = [] then (Inr ((append_accepted sink_name 0)\<lparr>warnings := ws\<rparr>), s)
        else
          (case items_of ve (eb_producer b) occs of
             Inl e \<Rightarrow> (Inl (SInvalidRecord sink_name e), s)
           | Inr items \<Rightarrow>
               let bearer = bearer_of (ve_config ve) in
               if (case bearer of None \<Rightarrow> False | Some h \<Rightarrow> \<not> ve_header_ok ve h) then
                 (Inl (SMisconfigured sink_name
                    ''ingress token contains characters invalid in an http header''), s)
               else
                 (case ve_receive ve bearer (wire_batch ve b (ve_now ve w) items) w of
                    (answer, w) \<Rightarrow>
                      (case settle ws b answer of (res, health) \<Rightarrow> (res, health, w)))))"

definition vartio_sink :: "'w vartio_env \<Rightarrow> (health_status \<times> 'w) sink" where
  "vartio_sink ve =
     \<lparr>sk_name = sink_name, sk_append = vartio_append ve, sk_health = (\<lambda>s. (fst s, s))\<rparr>"

section \<open>Facts\<close>

lemma sum_count_list_remdups: "sum_list (map (count_list xs) (remdups xs)) = length xs"
  by (simp add: sum_list_distinct_conv_sum_set sum_count_set)

lemma type_counts_total: "sum_list (map snd (type_counts occs)) = length occs"
proof -
  let ?ts = "map occurrence_type occs"
  have "sum_list (map (count_list ?ts) (sort (remdups ?ts))) = sum_list (map (count_list ?ts) (remdups ?ts))"
    by (metis mset_map mset_sort sum_mset_sum_list)
  then show ?thesis using sum_count_list_remdups [of ?ts] by (simp add: type_counts_def Let_def comp_def)
qed

lemma filter_three:
  "length (filter (deliverable cfg) occs) + length (filter unsupported occs) + length (filter (gated_off cfg) occs) =
   length occs"
  by (induction occs) (auto simp: deliverable_def gated_off_def)

lemma items_of_length: "items_of ve producer occs = Inr items \<Longrightarrow> length items = length occs"
  by (induction occs arbitrary: items) (auto split: sum.splits)

lemma items_of_nth:
  assumes "items_of ve producer occs = Inr items"
  shows "list_all2 (\<lambda>occ i. item_of ve producer occ = Inr i) occs items"
  using assms by (induction occs arbitrary: items) (auto split: sum.splits)

text \<open>The call of the receiver, when there is one.\<close>

lemma vartio_append_cases:
  assumes "vartio_append ve b (health, w) = (res, s')"
  obtains (unscoped) msg where "pm_cluster (eb_producer b) = [] \<or> pm_node_id (eb_producer b) = []"
      "res = Inl (SMisconfigured sink_name msg)" "s' = (health, w)"
  | (nothing) "filter (deliverable (ve_config ve)) (occurrences (into_plane_b_projection (ve_sha256 ve) b)) = []"
      "res = Inr ((append_accepted sink_name 0)
        \<lparr>warnings := drop_warnings (ve_config ve) (into_plane_b_projection (ve_sha256 ve) b)\<rparr>)" "s' = (health, w)"
  | (unencodable) msg where "res = Inl (SInvalidRecord sink_name msg)" "s' = (health, w)"
  | (header) msg where "res = Inl (SMisconfigured sink_name msg)" "s' = (health, w)"
  | (called) items answer w' health' where
      "items_of ve (eb_producer b)
        (filter (deliverable (ve_config ve)) (occurrences (into_plane_b_projection (ve_sha256 ve) b))) = Inr items"
      "ve_receive ve (bearer_of (ve_config ve)) (wire_batch ve b (ve_now ve w) items) w = (answer, w')"
      "settle (drop_warnings (ve_config ve) (into_plane_b_projection (ve_sha256 ve) b)) b answer = (res, health')"
      "s' = (health', w')"
  using assms unfolding vartio_append_def Let_def prod.case
  by (auto split: if_splits sum.splits prod.splits)

text \<open>What the warnings of a batch count.\<close>

definition warned :: "vartio_config \<Rightarrow> plane_b_projection \<Rightarrow> nat" where
  "warned cfg pr =
     sum_list (map snd (reason_counts (dropped_unbound pr))) +
     sum_list (map snd (type_counts (filter unsupported (occurrences pr)))) +
     sum_list (map snd (type_counts (filter (gated_off cfg) (occurrences pr))))"

lemma reason_counts_total: "sum_list (map snd (reason_counts (dropped_unbound pr))) = total_dropped pr"
  by (simp add: reason_counts_def total_dropped_def count_reason_def split: option.split)

section \<open>Properties\<close>


text \<open>
  C34: Only what may pass is retried: an error asks for another attempt exactly when the receiver was
  called and failed in a way that can change, and an error without a call leaves the world as it
  was.
\<close>

theorem vartio_errors_classified:
  assumes "vartio_append ve b (health, w) = (Inl e, health', w')"
  shows "(should_retry e \<longleftrightarrow>
      (\<exists>p answer. ve_receive ve (bearer_of (ve_config ve)) p w = (answer, w') \<and>
         pb_batch_id p = batch_id b \<and> fst (settle [] b answer) = Inl e \<and>
         (case answer of
            Inl (code, _) \<Rightarrow> code \<notin> {Unauthenticated, Permission_Denied, Invalid_Argument, Failed_Precondition}
          | Inr r \<Rightarrow> rr_retryable r))) \<and>
    (w' = w \<and> health' = health \<and> \<not> should_retry e \<or>
     (\<exists>p. pb_batch_id p = batch_id b \<and> w' = snd (ve_receive ve (bearer_of (ve_config ve)) p w)))"
proof -
  have retry: "should_retry e \<longleftrightarrow>
      (case answer of
         Inl (code, _) \<Rightarrow> code \<notin> {Unauthenticated, Permission_Denied, Invalid_Argument, Failed_Precondition}
       | Inr r \<Rightarrow> rr_retryable r)" if "fst (settle [] b answer) = Inl e" for answer
    using that by (auto simp: settle_def split: sum.splits if_splits)
  have local: "\<not> should_retry e" if "e = SMisconfigured sink_name msg \<or> e = SInvalidRecord sink_name msg" for msg
    using that by auto
  from assms show ?thesis
  proof (cases rule: vartio_append_cases)
    case (called items answer w'' health'')
    have "fst (settle ws b answer) = Inl e \<longleftrightarrow> fst (settle [] b answer) = Inl e" for ws
      by (auto simp: settle_def split: sum.splits)
    with called(3) have e: "fst (settle [] b answer) = Inl e" by (metis fst_conv)
    have p: "pb_batch_id (wire_batch ve b (ve_now ve w) items) = batch_id b" by (simp add: wire_batch_def Let_def)
    from retry [OF e] retry called(2,4) e p show ?thesis by (metis prod.inject snd_conv)
  next
    case (unscoped msg)
    with local [of msg] retry show ?thesis by auto
  next
    case (unencodable msg)
    with local [of msg] retry show ?thesis by auto
  next
    case (header msg)
    with local [of msg] retry show ?thesis by auto
  qed simp
qed

text \<open>
  A receiver as the ingress documents it: it takes an item at most once for each key, whatever it
  answers, and has taken all of a batch that it answers without rejects and without asking for
  another attempt.  \<open>taken\<close> is what it holds.
\<close>

definition dedups :: "('w \<Rightarrow> (string \<rightharpoonup> u8 list)) \<Rightarrow> 'w vartio_env \<Rightarrow> bool" where
  "dedups taken ve \<longleftrightarrow>
     (\<forall>bearer p w answer w'. ve_receive ve bearer p w = (answer, w') \<longrightarrow>
        (\<forall>key. taken w' key = taken w key \<or>
           taken w key = None \<and> (\<exists>i \<in> set (pb_items p). pi_idempotency_key i = key \<and> taken w' key = Some (pi_payload i))) \<and>
        (\<forall>r. answer = Inr r \<and> \<not> rr_retryable r \<and> rr_rejected r = 0 \<longrightarrow>
           (\<forall>i \<in> set (pb_items p). taken w' (pi_idempotency_key i) \<noteq> None)))"

text \<open>Attempts one after the other, as long as the error asks for another.\<close>

fun attempts ::
  "'w vartio_env \<Rightarrow> evidence_batch \<Rightarrow> nat \<Rightarrow> health_status \<times> 'w \<Rightarrow> (sink_error + append_result) \<times> health_status \<times> 'w" where
  "attempts ve b 0 s = vartio_append ve b s"
| "attempts ve b (Suc n) s =
     (case vartio_append ve b s of
        (Inl e, s') \<Rightarrow> if should_retry e then attempts ve b n s' else (Inl e, s')
      | (Inr res, s') \<Rightarrow> (Inr res, s'))"

definition sent_key :: "'w vartio_env \<Rightarrow> evidence_batch \<Rightarrow> occurrence \<Rightarrow> string" where
  "sent_key ve b occ =
     idempotency_key (ve_config ve) (pm_cluster (eb_producer b)) (pm_node_id (eb_producer b)) (ulid_string (occ_id occ))"

definition sent_payload :: "'w vartio_env \<Rightarrow> occurrence \<Rightarrow> u8 list" where
  "sent_payload ve occ =
     (case ve_to_vec ve (native_runtime_item (ve_native ve) occ) of Inl e \<Rightarrow> [] | Inr payload \<Rightarrow> payload)"

definition sent_occurrences :: "'w vartio_env \<Rightarrow> evidence_batch \<Rightarrow> occurrence list" where
  "sent_occurrences ve b =
     filter (deliverable (ve_config ve)) (occurrences (into_plane_b_projection (ve_sha256 ve) b))"

lemma items_of_sent:
  assumes "items_of ve (eb_producer b) occs = Inr items"
  shows "map (\<lambda>i. (pi_idempotency_key i, pi_payload i)) items = map (\<lambda>occ. (sent_key ve b occ, sent_payload ve occ)) occs"
  using assms
  by (induction occs arbitrary: items)
    (auto simp: item_of_def sent_key_def sent_payload_def split: sum.splits)

lemma sent_key_inject: "sent_key ve b occ = sent_key ve b occ' \<longleftrightarrow> ulid_string (occ_id occ) = ulid_string (occ_id occ')"
  by (simp add: sent_key_def idempotency_key_def)

text \<open>What holds between attempts: a key of the batch is free or holds its payload, no other has changed.\<close>

definition partly_taken :: "'w vartio_env \<Rightarrow> evidence_batch \<Rightarrow> (string \<rightharpoonup> u8 list) \<Rightarrow> (string \<rightharpoonup> u8 list) \<Rightarrow> bool" where
  "partly_taken ve b before now \<longleftrightarrow>
     (\<forall>occ \<in> set (sent_occurrences ve b). now (sent_key ve b occ) \<in> {None, Some (sent_payload ve occ)}) \<and>
     (\<forall>key. key \<notin> sent_key ve b ` set (sent_occurrences ve b) \<longrightarrow> now key = before key)"

lemma append_partly_taken:
  assumes "dedups taken ve" "distinct (map (ulid_string \<circ> occ_id) (sent_occurrences ve b))"
    and "partly_taken ve b before (taken w)" "vartio_append ve b (health, w) = (res, health', w')"
  shows "partly_taken ve b before (taken w') \<and>
    (\<not> isl res \<longrightarrow> (\<forall>occ \<in> set (sent_occurrences ve b). taken w' (sent_key ve b occ) \<noteq> None))"
  using assms(4)
proof (cases rule: vartio_append_cases)
  case nothing
  with assms(3) show ?thesis by (simp add: sent_occurrences_def)
next
  case (called items answer w'' health'')
  let ?occs = "sent_occurrences ve b" and ?p = "wire_batch ve b (ve_now ve w) items"
  have items: "map (\<lambda>i. (pi_idempotency_key i, pi_payload i)) items =
      map (\<lambda>occ. (sent_key ve b occ, sent_payload ve occ)) ?occs"
    using items_of_sent [OF called(1)] by (simp add: sent_occurrences_def)
  have set_items: "(\<lambda>i. (pi_idempotency_key i, pi_payload i)) ` set items =
      (\<lambda>occ. (sent_key ve b occ, sent_payload ve occ)) ` set ?occs"
    using arg_cong [OF items, of set] by simp
  have w'': "w'' = w'" using called(4) by simp
  have items_p: "pb_items ?p = items" by (simp add: wire_batch_def Let_def)
  have keeps: "\<forall>key. taken w' key = taken w key \<or> taken w key = None \<and>
      (\<exists>i \<in> set items. pi_idempotency_key i = key \<and> taken w' key = Some (pi_payload i))"
    and takes: "\<forall>r. answer = Inr r \<and> \<not> rr_retryable r \<and> rr_rejected r = 0 \<longrightarrow>
      (\<forall>i \<in> set items. taken w' (pi_idempotency_key i) \<noteq> None)"
    using assms(1) [unfolded dedups_def, THEN spec, THEN spec, THEN spec, THEN spec, THEN spec, THEN mp, OF called(2)]
    unfolding w'' items_p by (rule conjunct1, rule conjunct2)
  have change: "taken w' key = taken w key \<or> taken w key = None \<and>
      (\<exists>i \<in> set items. pi_idempotency_key i = key \<and> taken w' key = Some (pi_payload i))" for key
    using keeps by blast
  have item: "\<exists>occ \<in> set ?occs. pi_idempotency_key i = sent_key ve b occ \<and> pi_payload i = sent_payload ve occ"
    if "i \<in> set items" for i
  proof -
    have "(pi_idempotency_key i, pi_payload i) \<in> (\<lambda>occ. (sent_key ve b occ, sent_payload ve occ)) ` set ?occs"
      unfolding set_items [symmetric] by (rule imageI [OF that])
    then show ?thesis by auto
  qed
  have inj: "occ = occ'" if "occ \<in> set ?occs" "occ' \<in> set ?occs" "sent_key ve b occ = sent_key ve b occ'" for occ occ'
    using that assms(2) by (auto simp: sent_key_inject distinct_map inj_on_def)
  have "partly_taken ve b before (taken w')"
    unfolding partly_taken_def
  proof (intro conjI ballI allI impI)
    fix occ assume occ: "occ \<in> set ?occs"
    from change [of "sent_key ve b occ"] show "taken w' (sent_key ve b occ) \<in> {None, Some (sent_payload ve occ)}"
    proof
      assume "taken w' (sent_key ve b occ) = taken w (sent_key ve b occ)"
      with assms(3) occ show ?thesis by (simp add: partly_taken_def)
    next
      assume "taken w (sent_key ve b occ) = None \<and>
        (\<exists>i \<in> set items. pi_idempotency_key i = sent_key ve b occ \<and> taken w' (sent_key ve b occ) = Some (pi_payload i))"
      then obtain i where i: "i \<in> set items" "pi_idempotency_key i = sent_key ve b occ"
        "taken w' (sent_key ve b occ) = Some (pi_payload i)" by blast
      from item [OF i(1)] obtain occ' where "occ' \<in> set ?occs" "pi_idempotency_key i = sent_key ve b occ'"
        "pi_payload i = sent_payload ve occ'" by blast
      with inj [OF occ, of occ'] i show ?thesis by simp
    qed
  next
    fix key assume "key \<notin> sent_key ve b ` set ?occs"
    with change [of key] item assms(3) show "taken w' key = before key"
      unfolding partly_taken_def by (metis imageI)
  qed
  moreover have "taken w' (sent_key ve b occ) \<noteq> None" if "\<not> isl res" "occ \<in> set ?occs" for occ
  proof -
    from called(3) that(1) obtain r where "answer = Inr r" "\<not> rr_retryable r" "rr_rejected r = 0"
      by (cases answer) (auto simp: settle_def word_gt_0 split: if_splits)
    moreover have "(sent_key ve b occ, sent_payload ve occ) \<in> (\<lambda>i. (pi_idempotency_key i, pi_payload i)) ` set items"
      unfolding set_items by (rule imageI [OF that(2)])
    then obtain i where "i \<in> set items" "pi_idempotency_key i = sent_key ve b occ" by auto
    ultimately show ?thesis using takes by metis
  qed
  ultimately show ?thesis by blast
qed (use assms(3) in auto)

text \<open>
  C16: Retrying delivers once: with a receiver that takes each key once, a batch whose attempts end in
  success is at the receiver with exactly one payload per deliverable occurrence, its native map,
  however many attempts failed before, after whatever part of the batch was taken; and nothing else
  the receiver holds has changed.
\<close>

theorem retries_deliver_once:
  assumes "dedups taken ve" "distinct (map (ulid_string \<circ> occ_id) (sent_occurrences ve b))"
    and "\<forall>occ \<in> set (sent_occurrences ve b). taken w (sent_key ve b occ) = None"
    and "attempts ve b n (health, w) = (Inr res, health', w')"
  shows "(\<forall>occ \<in> set (sent_occurrences ve b). taken w' (sent_key ve b occ) = Some (sent_payload ve occ)) \<and>
    (\<forall>key. key \<notin> sent_key ve b ` set (sent_occurrences ve b) \<longrightarrow> taken w' key = taken w key)"
proof -
  have "partly_taken ve b (taken w) (taken w') \<and>
      (\<forall>occ \<in> set (sent_occurrences ve b). taken w' (sent_key ve b occ) \<noteq> None)"
    if "partly_taken ve b (taken w) (taken v)" "attempts ve b n (health, v) = (Inr res, health', w')" for v
    using that
  proof (induction n arbitrary: v health)
    case 0
    with append_partly_taken [OF assms(1,2), of "taken w" v health "Inr res" health' w'] show ?case by simp
  next
    case (Suc n)
    obtain res1 h1 w1 where one: "vartio_append ve b (health, v) = (res1, h1, w1)" by (metis prod.exhaust)
    note step = append_partly_taken [OF assms(1,2) Suc.prems(1) one]
    show ?case
    proof (cases res1)
      case (Inl e)
      with Suc.prems(2) one have "attempts ve b n (h1, w1) = (Inr res, health', w')" by (simp split: if_splits)
      with Suc.IH step show ?thesis by blast
    next
      case (Inr x)
      with Suc.prems(2) one step show ?thesis by simp
    qed
  qed
  moreover have "partly_taken ve b (taken w) (taken w)" using assms(3) by (simp add: partly_taken_def)
  ultimately show ?thesis using assms(4) unfolding partly_taken_def by blast
qed


section \<open>A receiver\<close>

text \<open>
  A receiver that keeps what it takes and counts its calls: its first call takes everything and then
  fails, as a connection does that breaks before the answer.
\<close>

definition take_items :: "provider_batch \<Rightarrow> (string \<rightharpoonup> u8 list) \<Rightarrow> (string \<rightharpoonup> u8 list)" where
  "take_items p old = map_of (map (\<lambda>i. (pi_idempotency_key i, pi_payload i)) (pb_items p)) ++ old"

definition sample_receive ::
  "string option \<Rightarrow> provider_batch \<Rightarrow> nat \<times> (string \<rightharpoonup> u8 list) \<Rightarrow>
   (grpc_code \<times> string + receive_response) \<times> nat \<times> (string \<rightharpoonup> u8 list)" where
  "sample_receive bearer p w =
     (if 2 ^ 32 \<le> length (pb_items p) then (Inl (Invalid_Argument, ''too many items''), w)
      else if fst w = 0 then (Inl (Code_Unavailable, ''connection reset''), 1, take_items p (snd w))
      else (Inr \<lparr>rr_batch_id = pb_batch_id p, rr_accepted = of_nat (length (pb_items p)), rr_duplicate = 0,
                 rr_rejected = 0, rr_summaries = [], rr_retryable = False\<rparr>, fst w, take_items p (snd w)))"

definition sample_vartio :: "(nat \<times> (string \<rightharpoonup> u8 list)) vartio_env" where
  "sample_vartio =
     \<lparr>ve_config = new_vartio_config ''http://vartio:50061'' ''node-1'', ve_sha256 = (\<lambda>b. b),
      ve_native = \<lparr>ne_rfc3339 = (\<lambda>_. []), ne_float_bits = (\<lambda>_. 0), ne_parse_strings = (\<lambda>s. Some [s])\<rparr>,
      ve_to_vec = (\<lambda>_. Inr [1]), ve_header_ok = (\<lambda>_. True), ve_now = (\<lambda>_. (0, 0)),
      ve_receive = sample_receive\<rparr>"

lemma take_items_dedups: "dedups snd sample_vartio"
proof -
  have one: "take_items p old key = old key \<or> old key = None \<and>
      (\<exists>i \<in> set (pb_items p). pi_idempotency_key i = key \<and> take_items p old key = Some (pi_payload i))" for p old key
  proof (cases "old key"; cases "map_of (map (\<lambda>i. (pi_idempotency_key i, pi_payload i)) (pb_items p)) key")
    fix v assume "map_of (map (\<lambda>i. (pi_idempotency_key i, pi_payload i)) (pb_items p)) key = Some v" "old key = None"
    moreover from this(1) have "(key, v) \<in> set (map (\<lambda>i. (pi_idempotency_key i, pi_payload i)) (pb_items p))"
      by (rule map_of_SomeD)
    ultimately show ?thesis by (auto simp: take_items_def map_add_def)
  qed (simp_all add: take_items_def map_add_def)
  have all: "take_items p old (pi_idempotency_key i) \<noteq> None" if "i \<in> set (pb_items p)" for p old i
  proof -
    let ?m = "map_of (map (\<lambda>i. (pi_idempotency_key i, pi_payload i)) (pb_items p))"
    have "?m (pi_idempotency_key i) \<noteq> None" unfolding map_of_eq_None_iff using that by force
    then show ?thesis by (auto simp: take_items_def map_add_def split: option.split)
  qed
  show ?thesis
    unfolding dedups_def
  proof (intro allI impI conjI)
    fix bearer p w answer w' key
    assume "ve_receive sample_vartio bearer p w = (answer, w')"
    then have "snd w' = snd w \<or> snd w' = take_items p (snd w)"
      by (auto simp: sample_vartio_def sample_receive_def split: if_splits)
    with one [of p "snd w" key] show "snd w' key = snd w key \<or> snd w key = None \<and>
      (\<exists>i \<in> set (pb_items p). pi_idempotency_key i = key \<and> snd w' key = Some (pi_payload i))" by auto
  next
    fix bearer p w answer w' r
    assume "ve_receive sample_vartio bearer p w = (answer, w')" "answer = Inr r \<and> \<not> rr_retryable r \<and> rr_rejected r = 0"
    then have "snd w' = take_items p (snd w)" by (auto simp: sample_vartio_def sample_receive_def split: if_splits)
    with all show "\<forall>i \<in> set (pb_items p). snd w' (pi_idempotency_key i) \<noteq> None" by simp
  qed
qed

lemma sample_counts:
  "case fst (ve_receive sample_vartio bearer p w) of
     Inl _ \<Rightarrow> True
   | Inr r \<Rightarrow> unat (rr_accepted r) + unat (rr_duplicate r) + unat (rr_rejected r) = length (pb_items p)"
  by (simp add: sample_vartio_def sample_receive_def unat_of_nat)

text \<open>The one record of the sample batch is on the wire.\<close>

lemma sample_record:
  "\<exists>r. eb_records Sinks.sample_batch = [r] \<and> er_occurrence r = Sinks.sample_occurrence"
  "pm_cluster (eb_producer Sinks.sample_batch) \<noteq> []" "pm_node_id (eb_producer Sinks.sample_batch) \<noteq> []"
  by (simp_all add: Sinks.sample_batch_def new_batch_def window_def new_producer_def)

lemma sample_projected:
  "\<exists>occ. into_plane_b_projection sha256 Sinks.sample_batch = \<lparr>occurrences = [occ], dropped_unbound = Map.empty\<rparr> \<and>
     occurrence_type occ = ''jalki.agent.gap'' \<and> occ_id occ = 1"
proof -
  obtain r where r: "eb_records Sinks.sample_batch = [r]" "er_occurrence r = Sinks.sample_occurrence"
    using sample_record(1) by blast
  let ?occ = "neutralize_for_plane_b (into_occurrence_with_metadata sha256 (eb_producer Sinks.sample_batch) r)"
  have kept: "plane_b_drop_reason r = None"
    by (simp add: plane_b_drop_reason_def is_agent_record_def r(2) Sinks.sample_occurrence_def new_occurrence_def starts_with_def)
  have "same_identity ?occ Sinks.sample_occurrence"
    using same_identity_metadata [of sha256 "eb_producer Sinks.sample_batch" r] by (simp add: neutralize_identity r(2))
  then have "occurrence_type ?occ = ''jalki.agent.gap''" "occ_id ?occ = 1"
    by (simp_all add: same_identity_def Sinks.sample_occurrence_def new_occurrence_def)
  with kept r(1) show ?thesis
    by (simp add: into_plane_b_projection_def project_record_def into_plane_b_occurrence_def)
qed

lemma sample_sent: "\<exists>occ. sent_occurrences sample_vartio Sinks.sample_batch = [occ]"
  using sample_projected [of "ve_sha256 sample_vartio"]
  by (auto simp: sent_occurrences_def sample_vartio_def deliverable_def unsupported_def gated_off_def
      vartio_supported_types_def vartio_file_types_def)

lemma not_isl_Inr: "\<not> isl x \<longleftrightarrow> (\<exists>y. x = Inr y)"
  by (cases x) auto

lemma sample_append:
  "\<exists>res health old'. vartio_append sample_vartio Sinks.sample_batch (h, n, old) = (res, health, max 1 n, old') \<and>
     (if n = 0 then res = Inl (SUnavailable ''vartio'' ''connection reset'') else \<not> isl res)"
proof -
  obtain occ where occ: "sent_occurrences sample_vartio Sinks.sample_batch = [occ]" using sample_sent by blast
  have receive: "ve_receive sample_vartio = sample_receive" "bearer_of (ve_config sample_vartio) = None"
    "ve_to_vec sample_vartio = (\<lambda>_. Inr [1])"
    by (simp_all add: sample_vartio_def bearer_of_def new_vartio_config_def)
  show ?thesis
    using occ sample_record(2,3)
    by (auto simp: vartio_append_def sent_occurrences_def receive item_of_def wire_batch_def Let_def
        sample_receive_def settle_def sink_name_def split: prod.splits)
qed

lemma sample_first: "\<exists>health w. vartio_append sample_vartio Sinks.sample_batch (Healthy, 0, Map.empty) =
    (Inl (SUnavailable ''vartio'' ''connection reset''), health, 1, w)"
  using sample_append [of Healthy 0 Map.empty] by (simp split: if_splits)

section \<open>Witnesses\<close>


theorem vartio_errors_classified_witness:
  "\<exists>health w. vartio_append sample_vartio Sinks.sample_batch (Healthy, 0, Map.empty) =
       (Inl (SUnavailable ''vartio'' ''connection reset''), health, 1, w) \<and>
     (\<exists>p. pb_batch_id p = batch_id Sinks.sample_batch \<and> (1, w) = snd (sample_receive None p (0, Map.empty)))"
proof -
  from sample_first obtain health w where
    r: "vartio_append sample_vartio Sinks.sample_batch (Healthy, 0, Map.empty) =
      (Inl (SUnavailable ''vartio'' ''connection reset''), health, 1, w)" by blast
  from vartio_errors_classified [OF r] r show ?thesis
    by (auto simp: sample_vartio_def bearer_of_def new_vartio_config_def)
qed

theorem retries_deliver_once_witness:
  "\<exists>res health old occ. attempts sample_vartio Sinks.sample_batch 1 (Healthy, 0, Map.empty) = (Inr res, health, 1, old) \<and>
     sent_occurrences sample_vartio Sinks.sample_batch = [occ] \<and>
     old (sent_key sample_vartio Sinks.sample_batch occ) = Some (sent_payload sample_vartio occ) \<and>
     dom old = {sent_key sample_vartio Sinks.sample_batch occ}"
proof -
  obtain occ where occ: "sent_occurrences sample_vartio Sinks.sample_batch = [occ]" using sample_sent by blast
  from sample_first obtain health1 w1 where
    one: "vartio_append sample_vartio Sinks.sample_batch (Healthy, 0, Map.empty) =
      (Inl (SUnavailable ''vartio'' ''connection reset''), health1, 1, w1)" by blast
  obtain r2 health2 w2 where two: "vartio_append sample_vartio Sinks.sample_batch (health1, 1, w1) = (r2, health2, 1, w2)" "\<not> isl r2"
    using sample_append [of health1 1 w1] by auto
  then obtain res where r2: "r2 = Inr res" by (cases r2) auto
  have run: "attempts sample_vartio Sinks.sample_batch 1 (Healthy, 0, Map.empty) = (Inr res, health2, 1, w2)"
    using one two r2 by simp
  note once = retries_deliver_once [OF take_items_dedups _ _ run]
  have key: "w2 (sent_key sample_vartio Sinks.sample_batch occ) = Some (sent_payload sample_vartio occ)"
    using once occ by simp_all
  moreover have "w2 key = None" if "key \<noteq> sent_key sample_vartio Sinks.sample_batch occ" for key
    using once occ that by simp
  ultimately have "dom w2 = {sent_key sample_vartio Sinks.sample_batch occ}" by (force simp: dom_def)
  with run occ key show ?thesis by blast
qed

section \<open>What the answers leave out\<close>

text \<open>A partial failure: some of the batch is at the receiver.\<close>

lemma partial_failure_overcounts:
  assumes "rr_accepted r = 3" "rr_duplicate r = 0" "rr_rejected r = 1" "\<not> rr_retryable r"
    and "length (eb_records b) = 4"
  shows "\<exists>e. fst (settle ws b (Inr r)) = Inl e \<and> \<not> should_retry e \<and>
    dropped_records (gap_for_batch (terminal_gap_cause e) b) = 4"
  using assms gap_for_records_fields(2) [of "''sink_partial_failure''" "eb_records b"] by (simp add: settle_def gap_for_batch_def)

text \<open>Counts that do not cover the batch still settle it.\<close>

lemma uncounted_items_settle:
  "settle [] b (Inr \<lparr>rr_batch_id = [], rr_accepted = 0, rr_duplicate = 0, rr_rejected = 0, rr_summaries = [],
       rr_retryable = False\<rparr>) =
     (Inr \<lparr>accepted_count = 0, rejected_count = 0, ar_sink_name = sink_name, watermark = Some (batch_id b),
            warnings = []\<rparr>, Healthy)"
  by (simp add: settle_def)

end
