(* ===== verification/Spec2Isabelle.thy ===== *)
theory Spec2Isabelle
  imports Sensitive_Paths Normalize Spool Queue_Interleaving Pod_Watch Loop_Progress Generated_Reader Probe_Registry Open_Attempts Daemon Ipc_Client Self_Observability Runtime_Start Observability_Http Vartio_Sink
begin

text \<open>
  Verification library of jalki.
\<close>

end
